(* ===== verification/Prelude.thy ===== *)
theory Prelude
  imports Main "HOL-Library.Word" "HOL-Library.List_Lexorder"
begin

text \<open>
  What the components share: byte strings with Go's string order, the little-endian codec of
  \<open>encoding/binary\<close>, CRC-32 (IEEE) of \<open>hash/crc32\<close>, FNV-1a of \<open>hash/fnv\<close>, the binary search
  of \<open>sort.Search\<close>, and an \<open>os.File\<close> as bytes with a position.

  A byte string is a list of 8-bit words; the list order of \<open>List_Lexorder\<close> over words is the
  bytewise lexicographic order of Go strings. Lengths (\<open>len\<close>, file offsets) are \<open>nat\<close>, as a Go
  slice never exceeds \<open>2^63-1\<close> bytes; where the code converts to \<open>uint32\<close> or \<open>uint64\<close> the model
  does too.
\<close>

unbundle bit_operations_syntax

named_theorems codec_simps \<open>rewrites for the little-endian codec\<close>

type_synonym byte = "8 word"
type_synonym u16 = "16 word"
type_synonym u32 = "32 word"
type_synonym u64 = "64 word"
type_synonym bytes = "8 word list"

section \<open>Go slices\<close>

text \<open>\<open>s[a:b]\<close> for \<open>a \<le> b \<le> len(s)\<close>, the only ranges the code uses.\<close>

definition slice :: "nat \<Rightarrow> nat \<Rightarrow> 'a list \<Rightarrow> 'a list" where
  "slice a b s = take (b - a) (drop a s)"

lemma length_slice [simp]: "b \<le> length s \<Longrightarrow> length (slice a b s) = b - a"
  by (simp add: slice_def)

lemma slice_append_left: "b \<le> length s \<Longrightarrow> slice a b (s @ t) = slice a b s"
  by (simp add: slice_def)

lemma slice_append_right: "length s \<le> a \<Longrightarrow> slice a b (s @ t) = slice (a - length s) (b - length s) t"
  by (simp add: slice_def)

lemma slice_all [simp]: "slice 0 (length s) s = s"
  by (simp add: slice_def)

lemma slice_prefix: "length s = n \<Longrightarrow> slice 0 n (s @ t) = s"
  by (simp add: slice_def)

lemma slice_middle: "length s = a \<Longrightarrow> b = a + length t \<Longrightarrow> slice a b (s @ t @ u) = t"
  by (simp add: slice_def)

section \<open>Little-endian integers\<close>

primrec le_bytes :: "nat \<Rightarrow> 'a::len word \<Rightarrow> bytes" where
  "le_bytes 0 w = []"
| "le_bytes (Suc n) w = ucast w # le_bytes n (drop_bit 8 w)"

primrec le_word :: "bytes \<Rightarrow> 'a::len word" where
  "le_word [] = 0"
| "le_word (b # bs) = ucast b OR push_bit 8 (le_word bs)"

definition put_u16 :: "u16 \<Rightarrow> bytes" where "put_u16 = le_bytes 2"
definition put_u32 :: "u32 \<Rightarrow> bytes" where "put_u32 = le_bytes 4"
definition put_u64 :: "u64 \<Rightarrow> bytes" where "put_u64 = le_bytes 8"

definition get_u16 :: "bytes \<Rightarrow> u16" where "get_u16 bs = le_word (take 2 bs)"
definition get_u32 :: "bytes \<Rightarrow> u32" where "get_u32 bs = le_word (take 4 bs)"
definition get_u64 :: "bytes \<Rightarrow> u64" where "get_u64 bs = le_word (take 8 bs)"

lemma length_le_bytes [simp]: "length (le_bytes n w) = n"
  by (induction n arbitrary: w) auto

lemma length_put [simp]:
  "length (put_u16 a) = 2" "length (put_u32 b) = 4" "length (put_u64 c) = 8"
  by (simp_all add: put_u16_def put_u32_def put_u64_def)

lemma le_word_le_bytes:
  fixes w :: "'a::len word"
  shows "le_word (le_bytes n w) = take_bit (8 * n) w"
proof (induction n arbitrary: w)
  case 0
  then show ?case by simp
next
  case (Suc n)
  show ?case
    by (rule bit_word_eqI)
       (auto simp: Suc bit_simps bit_or_iff bit_push_bit_iff bit_take_bit_iff bit_drop_bit_eq)
qed

lemma get_put [simp, codec_simps]:
  "get_u16 (put_u16 a @ t) = a" "get_u32 (put_u32 b @ t) = b" "get_u64 (put_u64 c @ t) = c"
  "get_u16 (put_u16 a) = a" "get_u32 (put_u32 b) = b" "get_u64 (put_u64 c) = c"
  by (simp_all add: get_u16_def get_u32_def get_u64_def put_u16_def put_u32_def put_u64_def
      le_word_le_bytes take_bit_length_eq[where 'a=16, simplified]
      take_bit_length_eq[where 'a=32, simplified] take_bit_length_eq[where 'a=64, simplified])

lemma put_inj [simp]:
  "put_u16 a = put_u16 a' \<longleftrightarrow> a = a'" "put_u32 b = put_u32 b' \<longleftrightarrow> b = b'" "put_u64 c = put_u64 c' \<longleftrightarrow> c = c'"
  by (metis get_put(4), metis get_put(5), metis get_put(6))

lemma le_bytes_le_word:
  "8 * length bs \<le> LENGTH('a) \<Longrightarrow> le_bytes (length bs) (le_word bs :: 'a::len word) = bs"
proof (induction bs)
  case (Cons b bs)
  let ?w = "le_word bs :: 'a word"
  have l: "8 * length bs + 8 \<le> LENGTH('a)" using Cons.prems by simp
  have "(ucast (ucast b OR push_bit 8 ?w :: 'a word) :: byte) = b"
    by (rule bit_word_eqI) (use l in \<open>auto simp: bit_simps bit_or_iff bit_push_bit_iff bit_ucast_iff\<close>)
  moreover have "drop_bit 8 (ucast b OR push_bit 8 ?w :: 'a word) = take_bit (LENGTH('a) - 8) ?w"
    by (rule bit_word_eqI)
       (use l in \<open>auto simp: bit_simps bit_or_iff bit_push_bit_iff bit_drop_bit_eq bit_take_bit_iff bit_ucast_iff
          dest: bit_imp_le_length\<close>)
  moreover have k: "bit ?w k \<Longrightarrow> k < 8 * length bs" for k
    by (induction bs arbitrary: k) (auto simp: bit_or_iff bit_push_bit_iff bit_ucast_iff dest: bit_imp_le_length, force)
  moreover have "take_bit (LENGTH('a) - 8) ?w = ?w"
    by (rule bit_word_eqI) (use l k in \<open>fastforce simp: bit_take_bit_iff\<close>)
  ultimately show ?case using Cons by simp
qed simp

lemma put_get:
  "length b4 = 4 \<Longrightarrow> put_u32 (get_u32 b4) = b4" "length b8 = 8 \<Longrightarrow> put_u64 (get_u64 b8) = b8"
  using le_bytes_le_word [of b4, where 'a = 32] le_bytes_le_word [of b8, where 'a = 64]
  by (simp_all add: put_u32_def get_u32_def put_u64_def get_u64_def)

text \<open>\<open>uint32(len(x))\<close> and back.\<close>

definition len32 :: "'a list \<Rightarrow> u32" where "len32 xs = word_of_nat (length xs)"

lemma unat_len32: "length xs < 2 ^ 32 \<Longrightarrow> unat (len32 xs) = length xs"
  by (simp add: len32_def unat_of_nat take_bit_nat_eq_self)

section \<open>CRC-32 (IEEE), reflected\<close>

definition crc_bit :: "u32 \<Rightarrow> u32" where
  "crc_bit c = (if bit c 0 then drop_bit 1 c XOR 0xEDB88320 else drop_bit 1 c)"

definition crc_byte :: "u32 \<Rightarrow> byte \<Rightarrow> u32" where
  "crc_byte c b = (crc_bit ^^ 8) (c XOR ucast b)"

definition crc32 :: "bytes \<Rightarrow> u32" where
  "crc32 bs = NOT (foldl crc_byte 0xFFFFFFFF bs)"

text \<open>Every step is injective: the polynomial's top bit records the bit shifted out.\<close>

lemma crc_bit_top: "bit (crc_bit c) 31 \<longleftrightarrow> bit c 0"
proof -
  have "bit (0xEDB88320 :: u32) 31" by simp
  moreover have "\<not> bit (drop_bit 1 c) 31" by (simp add: bit_drop_bit_eq impossible_bit)
  ultimately show ?thesis by (simp add: crc_bit_def bit_xor_iff)
qed

lemma drop1_eqD:
  fixes c d :: "'a::len word"
  assumes "drop_bit 1 c = drop_bit 1 d" "bit c 0 \<longleftrightarrow> bit d 0"
  shows "c = d"
proof (rule bit_word_eqI)
  fix n
  show "bit c n \<longleftrightarrow> bit d n"
  proof (cases n)
    case (Suc m)
    have "bit (drop_bit 1 c) m \<longleftrightarrow> bit (drop_bit 1 d) m" using assms(1) by metis
    with Suc show ?thesis by (simp add: bit_drop_bit_eq)
  qed (simp add: assms(2))
qed

lemma word_xor_right_cancel: "x XOR p = y XOR p \<longleftrightarrow> x = y" for x y p :: "'a::len word"
  by (auto simp: bit_eq_iff bit_xor_iff)

lemma word_xor_left_cancel: "p XOR x = p XOR y \<longleftrightarrow> x = y" for x y p :: "'a::len word"
  by (auto simp: bit_eq_iff bit_xor_iff)

lemma crc_bit_inj: "crc_bit c = crc_bit d \<Longrightarrow> c = d"
proof -
  assume eq: "crc_bit c = crc_bit d"
  then have b: "bit c 0 \<longleftrightarrow> bit d 0" using crc_bit_top by metis
  with eq b have "drop_bit 1 c = drop_bit 1 d"
    by (auto simp: crc_bit_def word_xor_right_cancel split: if_splits)
  with b show ?thesis by (blast intro: drop1_eqD)
qed

lemma crc_bits_inj: "(crc_bit ^^ n) c = (crc_bit ^^ n) d \<Longrightarrow> c = d"
  by (induction n) (auto dest: crc_bit_inj)

lemma ucast_byte_inj: "(ucast a :: u32) = ucast b \<Longrightarrow> a = b" for a b :: byte
proof (rule bit_word_eqI)
  fix n
  assume "(ucast a :: u32) = ucast b" "n < LENGTH(8)"
  then have "bit (ucast a :: u32) n \<longleftrightarrow> bit (ucast b :: u32) n" and "n < 8" by simp_all
  then show "bit a n \<longleftrightarrow> bit b n" by (simp add: bit_ucast_iff)
qed

lemma crc_byte_inj_state: "crc_byte c b = crc_byte d b \<Longrightarrow> c = d"
  unfolding crc_byte_def by (drule crc_bits_inj) (simp add: word_xor_right_cancel)

lemma crc_byte_inj_byte: "crc_byte c a = crc_byte c b \<Longrightarrow> a = b"
  unfolding crc_byte_def by (drule crc_bits_inj) (simp add: word_xor_left_cancel ucast_byte_inj)

lemma foldl_crc_inj: "foldl crc_byte c bs = foldl crc_byte d bs \<Longrightarrow> c = d"
  by (induction bs arbitrary: c d) (auto dest: crc_byte_inj_state)

text \<open>CRC-32 tells apart any two byte strings that differ in exactly one byte.\<close>

lemma crc32_single_byte:
  assumes "crc32 (xs @ a # ys) = crc32 (xs @ b # ys)"
  shows "a = b"
proof -
  from assms have "foldl crc_byte (crc_byte (foldl crc_byte 0xFFFFFFFF xs) a) ys
      = foldl crc_byte (crc_byte (foldl crc_byte 0xFFFFFFFF xs) b) ys"
    by (simp add: crc32_def)
  then show ?thesis by (blast dest: foldl_crc_inj crc_byte_inj_byte)
qed

text \<open>
  The same computation on integers, which the simplifier evaluates quickly; \<open>crc32_code\<close> makes it
  the code equation of \<^const>\<open>crc32\<close>.
\<close>

definition crc_bit_int :: "int \<Rightarrow> int" where
  "crc_bit_int c = (if odd c then (c div 2) XOR 0xEDB88320 else c div 2)"

definition crc_byte_int :: "int \<Rightarrow> int \<Rightarrow> int" where
  "crc_byte_int c b =
     crc_bit_int (crc_bit_int (crc_bit_int (crc_bit_int
       (crc_bit_int (crc_bit_int (crc_bit_int (crc_bit_int (c XOR b))))))))"

lemma uint_crc_bit: "uint (crc_bit c) = crc_bit_int (uint c)"
proof -
  have "uint (drop_bit 1 c) = uint c div 2" by (simp add: drop_bit_eq_div uint_div_distrib)
  moreover have "bit c 0 \<longleftrightarrow> odd (uint c)" by (simp add: bit_uint_iff bit_0 [symmetric])
  ultimately show ?thesis by (simp add: crc_bit_def crc_bit_int_def uint_xor)
qed

lemma uint_crc_byte: "uint (crc_byte c b) = crc_byte_int (uint c) (uint b)"
proof -
  have "uint (ucast b :: u32) = uint b" by (simp add: uint_up_ucast is_up)
  then show ?thesis
    by (simp add: crc_byte_def crc_byte_int_def numeral_eq_Suc uint_crc_bit uint_xor)
qed

lemma uint_foldl_crc: "uint (foldl crc_byte c bs) = foldl crc_byte_int (uint c) (map uint bs)"
  by (induction bs arbitrary: c) (simp_all add: uint_crc_byte)

lemma crc32_code [code]: "crc32 bs = word_of_int (- 1 - foldl crc_byte_int 0xFFFFFFFF (map uint bs))"
proof -
  have "crc32 bs = word_of_int (- 1 - uint (foldl crc_byte 0xFFFFFFFF bs))"
    by (simp add: crc32_def not_eq_complement)
  then show ?thesis by (simp add: uint_foldl_crc)
qed

section \<open>FNV-1a, 64 bit\<close>

definition fnv_step :: "u64 \<Rightarrow> byte \<Rightarrow> u64" where
  "fnv_step h b = (h XOR ucast b) * 1099511628211"

definition fnv1a64 :: "bytes \<Rightarrow> u64" where
  "fnv1a64 bs = foldl fnv_step 14695981039346656037 bs"

definition fnv_step_int :: "int \<Rightarrow> int \<Rightarrow> int" where
  "fnv_step_int h b = ((h XOR b) * 1099511628211) mod 18446744073709551616"

lemma uint_foldl_fnv: "uint (foldl fnv_step h bs) = foldl fnv_step_int (uint h) (map uint bs)"
proof (induction bs arbitrary: h)
  case (Cons b bs)
  have "uint (ucast b :: u64) = uint b" by (simp add: uint_up_ucast is_up)
  then have "uint (fnv_step h b) = fnv_step_int (uint h) (uint b)"
    by (simp add: fnv_step_def fnv_step_int_def uint_word_ariths uint_xor)
  with Cons show ?case by simp
qed simp

lemma fnv1a64_code [code]: "fnv1a64 bs = word_of_int (foldl fnv_step_int 14695981039346656037 (map uint bs))"
proof -
  have "fnv1a64 bs = word_of_int (uint (foldl fnv_step 14695981039346656037 bs))"
    by (simp add: fnv1a64_def)
  then show ?thesis by (simp add: uint_foldl_fnv)
qed

section \<open>\<open>sort.Search\<close>\<close>

text \<open>The library's binary search: the least index in \<open>[i, j)\<close> where a monotone \<open>p\<close> holds, or \<open>j\<close>.\<close>

function search_loop :: "(nat \<Rightarrow> bool) \<Rightarrow> nat \<Rightarrow> nat \<Rightarrow> nat" where
  "search_loop p i j =
     (if i < j then let h = (i + j) div 2 in
        if \<not> p h then search_loop p (h + 1) j else search_loop p i h
      else i)"
  by pat_completeness auto
termination
  by (relation "measure (\<lambda>(p, i, j). j - i)") auto

declare search_loop.simps [simp del]

definition sort_search :: "nat \<Rightarrow> (nat \<Rightarrow> bool) \<Rightarrow> nat" where
  "sort_search n p = search_loop p 0 n"

lemma search_loop_spec:
  assumes "i \<le> j" "j \<le> n" "\<forall>a b. p a \<longrightarrow> a \<le> b \<longrightarrow> b < n \<longrightarrow> p b"
    and "\<forall>k < i. \<not> p k" "\<forall>k. j \<le> k \<longrightarrow> k < n \<longrightarrow> p k"
  shows "search_loop p i j \<le> n \<and> (\<forall>k < search_loop p i j. \<not> p k)
    \<and> (\<forall>k. search_loop p i j \<le> k \<longrightarrow> k < n \<longrightarrow> p k)"
  using assms
proof (induction p i j rule: search_loop.induct)
  case (1 p i j)
  let ?h = "(i + j) div 2"
  show ?case
  proof (cases "i < j")
    case False
    then have "search_loop p i j = i" by (subst search_loop.simps) simp
    with False "1.prems" show ?thesis by auto
  next
    case True
    then have h: "i \<le> ?h" "?h < j" by auto
    note mono = "1.prems"(3)
    show ?thesis
    proof (cases "p ?h")
      case True
      with \<open>i < j\<close> have eq: "search_loop p i j = search_loop p i ?h"
        by (subst search_loop.simps) (simp add: Let_def)
      have up: "\<forall>k. ?h \<le> k \<longrightarrow> k < n \<longrightarrow> p k" using True mono by blast
      have hn: "?h \<le> n" using h(2) "1.prems"(2) by simp
      show ?thesis
        unfolding eq by (rule "1.IH"(2) [OF \<open>i < j\<close> refl]) (use True up hn h "1.prems" in blast)+
    next
      case False
      with \<open>i < j\<close> have eq: "search_loop p i j = search_loop p (?h + 1) j"
        by (subst search_loop.simps) (simp add: Let_def)
      have lo: "\<forall>k < ?h + 1. \<not> p k"
      proof (intro allI impI notI)
        fix k assume "k < ?h + 1" "p k"
        moreover have "?h < n" using h(2) "1.prems"(2) by simp
        ultimately show False using False mono by (metis Suc_eq_plus1 less_Suc_eq_le)
      qed
      have hj: "?h + 1 \<le> j" using h(2) by simp
      show ?thesis
        unfolding eq by (rule "1.IH"(1) [OF \<open>i < j\<close> refl]) (use False lo hj "1.prems" in blast)+
    qed
  qed
qed

lemma sort_search_spec:
  assumes "\<And>a b. p a \<Longrightarrow> a \<le> b \<Longrightarrow> b < n \<Longrightarrow> p b"
  shows "sort_search n p \<le> n" "k < sort_search n p \<Longrightarrow> \<not> p k"
    "sort_search n p \<le> k \<Longrightarrow> k < n \<Longrightarrow> p k"
  using search_loop_spec [of 0 n n p] assms unfolding sort_search_def by auto

text \<open>On a sorted list, the search for the first element that is not below \<open>x\<close> splits the list.\<close>

definition search_ge :: "'a::linorder \<Rightarrow> 'a list \<Rightarrow> nat" where
  "search_ge x xs = sort_search (length xs) (\<lambda>i. x \<le> xs ! i)"

lemma search_ge_spec:
  assumes "sorted xs"
  shows "search_ge x xs \<le> length xs" "k < search_ge x xs \<Longrightarrow> xs ! k < x"
    "search_ge x xs \<le> k \<Longrightarrow> k < length xs \<Longrightarrow> x \<le> xs ! k"
proof -
  have mono: "x \<le> xs ! a \<Longrightarrow> a \<le> b \<Longrightarrow> b < length xs \<Longrightarrow> x \<le> xs ! b" for a b
    using sorted_nth_mono [OF assms, of a b] by simp
  let ?p = "\<lambda>i. x \<le> xs ! i"
  show "search_ge x xs \<le> length xs"
    unfolding search_ge_def by (rule sort_search_spec(1)) (rule mono)
  show "xs ! k < x" if "k < search_ge x xs"
  proof -
    have "\<not> ?p k"
      by (rule sort_search_spec(2) [where n = "length xs"]) (use mono that in \<open>auto simp: search_ge_def\<close>)
    then show ?thesis by simp
  qed
  show "x \<le> xs ! k" if "search_ge x xs \<le> k" "k < length xs"
    by (rule sort_search_spec(3) [where p = ?p and n = "length xs"])
       (use mono that in \<open>auto simp: search_ge_def\<close>)
qed

lemma take_search_ge:
  assumes "sorted xs"
  shows "take (search_ge x xs) xs = takeWhile (\<lambda>y. y < x) xs"
proof -
  note s = search_ge_spec [OF assms, where x = x]
  have "takeWhile (\<lambda>y. y < x) xs = take (search_ge x xs) xs"
  proof (rule takeWhile_eq_take_P_nth)
    show "xs ! k < x" if "k < search_ge x xs" "k < length xs" for k using s(2) that by blast
    show "\<not> xs ! search_ge x xs < x" if "search_ge x xs < length xs"
      using s(3) [of "search_ge x xs"] that by simp
  qed
  then show ?thesis ..
qed

lemma drop_search_ge: "sorted xs \<Longrightarrow> drop (search_ge x xs) xs = dropWhile (\<lambda>y. y < x) xs"
  using take_search_ge [where x = x and xs = xs] takeWhile_dropWhile_id [of "\<lambda>y. y < x" xs]
  by (metis append_take_drop_id same_append_eq)

lemma search_ge_eqI:
  assumes "sorted xs" "i \<le> length xs" "\<And>k. k < i \<Longrightarrow> xs ! k < x"
    and "\<And>k. i \<le> k \<Longrightarrow> k < length xs \<Longrightarrow> x \<le> xs ! k"
  shows "search_ge x xs = i"
  using search_ge_spec [OF assms(1), where x = x] assms(2-4)
  by (metis linorder_neqE_nat not_less order_less_le_trans le_eq_less_or_eq)

section \<open>\<open>os.File\<close>\<close>

text \<open>
  The bytes on disk and the file position. A write goes to the position and may extend the
  file; a failing write may leave any prefix of the data behind.
\<close>

record gofile =
  f_bytes :: bytes
  f_pos :: nat

definition file_write :: "bytes \<Rightarrow> gofile \<Rightarrow> gofile" where
  "file_write bs f =
     (let old = f_bytes f @ replicate (f_pos f - length (f_bytes f)) 0 in
      f\<lparr>f_bytes := take (f_pos f) old @ bs @ drop (f_pos f + length bs) old,
        f_pos := f_pos f + length bs\<rparr>)"

definition file_truncate :: "nat \<Rightarrow> gofile \<Rightarrow> gofile" where
  "file_truncate n f = f\<lparr>f_bytes := take n (f_bytes f) @ replicate (n - length (f_bytes f)) 0\<rparr>"

definition file_seek :: "nat \<Rightarrow> gofile \<Rightarrow> gofile" where
  "file_seek n f = f\<lparr>f_pos := n\<rparr>"

definition file_seek_end :: "gofile \<Rightarrow> gofile" where
  "file_seek_end f = f\<lparr>f_pos := length (f_bytes f)\<rparr>"

definition at_end :: "gofile \<Rightarrow> bool" where
  "at_end f \<longleftrightarrow> f_pos f = length (f_bytes f)"

lemma file_write_at_end:
  "at_end f \<Longrightarrow> file_write bs f = f\<lparr>f_bytes := f_bytes f @ bs, f_pos := length (f_bytes f) + length bs\<rparr>"
  by (simp add: at_end_def file_write_def Let_def)

lemma at_end_write [simp]: "at_end f \<Longrightarrow> at_end (file_write bs f)"
  by (simp add: file_write_at_end) (simp add: at_end_def)

lemma at_end_seek_end [simp]: "at_end (file_seek_end f)"
  by (simp add: at_end_def file_seek_end_def)

lemma f_bytes_seek [simp]: "f_bytes (file_seek n f) = f_bytes f" "f_bytes (file_seek_end f) = f_bytes f"
  by (simp_all add: file_seek_def file_seek_end_def)

text \<open>The outcome the operating system gives to a write: all of it, or \<open>n\<close> bytes and an error.\<close>

datatype write_outcome = Write_ok | Write_fail nat

definition file_write_outcome :: "write_outcome \<Rightarrow> bytes \<Rightarrow> gofile \<Rightarrow> gofile" where
  "file_write_outcome wo bs f =
     (case wo of Write_ok \<Rightarrow> file_write bs f | Write_fail n \<Rightarrow> file_write (take n bs) f)"

section \<open>Signed 64-bit integers\<close>

text \<open>Go's \<open>int\<close> wraps around.\<close>

definition wrap64 :: "int \<Rightarrow> int" where
  "wrap64 x = (x + 2 ^ 63) mod 2 ^ 64 - 2 ^ 63"

lemma wrap64_small: "0 \<le> x \<Longrightarrow> x < 2 ^ 63 \<Longrightarrow> wrap64 x = x"
  by (simp add: wrap64_def)

end
