(* ===== verification/Framing.thy ===== *)
theory Framing
  imports Prelude
begin

text \<open>
  Append-only logs of framed records. The write-ahead log, the replication journal and the replica
  operation log all write one self-delimiting frame per record and read the file back frame by
  frame. \<open>frame\<close> is the outcome of reading one frame at the head of the remaining bytes, \<open>frames\<close>
  the loop over a whole file, and the locales \<open>framed_records\<close> and \<open>framed_log\<close> the contract between
  an encoder and its reader. The logs interpret it in their own theories.
\<close>

text \<open>
  \<open>Frame r rest\<close>: a whole valid record. \<open>Torn\<close>: the bytes end inside a frame (or there are none).
  \<open>Bad n\<close>: a malformed frame, reported after \<open>n\<close> bytes of it were read.
\<close>

datatype 'r frame = Frame 'r bytes | Torn | Bad nat

datatype frames_end = End_torn nat | End_bad nat

text \<open>
  The records read from \<open>bs\<close>, the offset of the frame that stopped the loop and how it stopped.
  The guard on the length is always true for the readers of this development.
\<close>

function frames :: "(bytes \<Rightarrow> 'r frame) \<Rightarrow> nat \<Rightarrow> bytes \<Rightarrow> 'r list \<times> nat \<times> frames_end" where
  "frames dec off bs =
     (case dec bs of
        Torn \<Rightarrow> ([], off, End_torn (length bs))
      | Bad n \<Rightarrow> ([], off, End_bad n)
      | Frame r rest \<Rightarrow>
          if length rest < length bs then
            (case frames dec (off + (length bs - length rest)) rest of
               (rs, p, e) \<Rightarrow> (r # rs, p, e))
          else ([], off, End_bad 0))"
  by pat_completeness auto
termination
  by (relation "measure (\<lambda>(dec, off, bs). length bs)") auto

declare frames.simps [simp del]

lemma frames_Torn: "dec bs = Torn \<Longrightarrow> frames dec off bs = ([], off, End_torn (length bs))"
  by (subst frames.simps) simp

lemma frames_Bad: "dec bs = Bad n \<Longrightarrow> frames dec off bs = ([], off, End_bad n)"
  by (subst frames.simps) simp

lemma frames_Frame:
  "dec bs = Frame r rest \<Longrightarrow> length rest < length bs \<Longrightarrow>
   frames dec off bs = (case frames dec (off + (length bs - length rest)) rest of
     (rs, p, e) \<Rightarrow> (r # rs, p, e))"
  by (subst frames.simps) simp

locale framed_records =
  fixes enc :: "'r \<Rightarrow> bytes"
    and dec :: "bytes \<Rightarrow> 'r frame"
    and ok :: "'r \<Rightarrow> bool"
  assumes dec_enc: "ok r \<Longrightarrow> dec (enc r @ t) = Frame r t"
    and dec_nil: "dec [] = Torn"
begin

lemma enc_nonempty: "ok r \<Longrightarrow> 0 < length (enc r)"
  using dec_enc [of r "[]"] dec_nil by (cases "enc r") auto

text \<open>Reading back a sequence of frames gives the records, whatever follows them.\<close>

lemma frames_append:
  assumes "\<forall>r \<in> set rs. ok r"
  shows "frames dec off (concat (map enc rs) @ t) =
    (case frames dec (off + length (concat (map enc rs))) t of (rs', p, e) \<Rightarrow> (rs @ rs', p, e))"
  using assms
proof (induction rs arbitrary: off)
  case Nil
  then show ?case by (simp split: prod.splits)
next
  case (Cons r rs)
  let ?rest = "concat (map enc rs) @ t"
  have d: "dec (enc r @ ?rest) = Frame r ?rest" using Cons.prems by (simp add: dec_enc)
  have l: "length ?rest < length (enc r @ ?rest)" using Cons.prems enc_nonempty by simp
  show ?case
    using Cons frames_Frame [where dec = dec, OF d l] by (auto simp: add.assoc split: prod.splits)
qed

lemma frames_all:
  assumes "\<forall>r \<in> set rs. ok r"
  shows "frames dec off (concat (map enc rs)) = (rs, off + length (concat (map enc rs)), End_torn 0)"
  using frames_append [OF assms, of off "[]"] frames_Torn [of dec "[]", OF dec_nil] by simp

text \<open>Bytes after the last frame that are not a frame end the reading.\<close>

lemma frames_torn_end:
  assumes "\<forall>r \<in> set rs. ok r" "dec t = Torn"
  shows "frames dec off (concat (map enc rs) @ t) = (rs, off + length (concat (map enc rs)), End_torn (length t))"
  using frames_append [OF assms(1), of off t] frames_Torn [where dec = dec, OF assms(2)] by simp

lemma frames_bad_end:
  assumes "\<forall>r \<in> set rs. ok r" "dec t = Bad n"
  shows "frames dec off (concat (map enc rs) @ t) = (rs, off + length (concat (map enc rs)), End_bad n)"
  using frames_append [OF assms(1), of off t] frames_Bad [where dec = dec, OF assms(2)] by simp

end

text \<open>Logs whose reader takes every cut inside a frame for a torn tail.\<close>

locale framed_log = framed_records +
  assumes dec_prefix: "ok r \<Longrightarrow> n < length (enc r) \<Longrightarrow> dec (take n (enc r)) = Torn"
begin

text \<open>A torn last frame is dropped and nothing else is.\<close>

lemma frames_torn_tail:
  assumes "\<forall>r \<in> set rs. ok r" "ok r" "n < length (enc r)"
  shows "frames dec off (concat (map enc rs) @ take n (enc r)) =
    (rs, off + length (concat (map enc rs)), End_torn n)"
  using frames_append [OF assms(1), of off "take n (enc r)"]
    frames_Torn [where dec = dec, OF dec_prefix [OF assms(2,3)]] assms(3) by simp

text \<open>
  Cutting the file at any point leaves a prefix of the records: those whose frames lie wholly
  before the cut.
\<close>

lemma cut_split:
  assumes "n \<le> length (concat (map enc rs))" "\<forall>r \<in> set rs. ok r"
  shows "\<exists>k m. k \<le> length rs \<and> take n (concat (map enc rs)) =
      concat (map enc (take k rs)) @ (if k < length rs then take m (enc (rs ! k)) else [])
    \<and> (k < length rs \<longrightarrow> m < length (enc (rs ! k)))"
  using assms
proof (induction rs arbitrary: n)
  case Nil
  then show ?case by simp
next
  case (Cons r rs)
  show ?case
  proof (cases "n < length (enc r)")
    case True
    then show ?thesis by (intro exI [of _ 0] exI [of _ n]) simp
  next
    case False
    then have "n - length (enc r) \<le> length (concat (map enc rs))" using Cons.prems by simp
    from Cons.IH [OF this] Cons.prems(2) obtain k m where
      k: "k \<le> length rs" "k < length rs \<longrightarrow> m < length (enc (rs ! k))" and
      t: "take (n - length (enc r)) (concat (map enc rs)) =
        concat (map enc (take k rs)) @ (if k < length rs then take m (enc (rs ! k)) else [])"
      by auto
    from False k t show ?thesis by (intro exI [of _ "Suc k"] exI [of _ m]) simp
  qed
qed

lemma frames_cut:
  assumes "\<forall>r \<in> set rs. ok r" "n \<le> length (concat (map enc rs))"
  shows "\<exists>k \<le> length rs. fst (frames dec off (take n (concat (map enc rs)))) = take k rs
    \<and> length (concat (map enc (take k rs))) \<le> n
    \<and> (k < length rs \<longrightarrow> n < length (concat (map enc (take (Suc k) rs))))
    \<and> (\<exists>p m. snd (frames dec off (take n (concat (map enc rs)))) = (p, End_torn m))"
proof -
  obtain k m where k: "k \<le> length rs" "k < length rs \<longrightarrow> m < length (enc (rs ! k))" and
    t: "take n (concat (map enc rs)) =
      concat (map enc (take k rs)) @ (if k < length rs then take m (enc (rs ! k)) else [])"
    using cut_split [OF assms(2,1)] by blast
  have ok_k: "\<forall>r \<in> set (take k rs). ok r" using assms(1) by (meson in_set_takeD)
  from t have len: "n = length (concat (map enc (take k rs))) + (if k < length rs then m else 0)"
  proof -
    have "n = length (take n (concat (map enc rs)))" using assms(2) by (simp only: length_take min_absorb2)
    also have "\<dots> = length (concat (map enc (take k rs))) + (if k < length rs then m else 0)"
      unfolding t using k by (simp only: length_append length_take min_absorb2 less_imp_le split: if_splits) simp
    finally show ?thesis .
  qed
  show ?thesis
  proof (cases "k < length rs")
    case True
    then have "ok (rs ! k)" "m < length (enc (rs ! k))" using assms(1) k by auto
    from frames_torn_tail [OF ok_k this, of off] True t len k show ?thesis
      by (intro exI [of _ k]) (simp add: take_Suc_conv_app_nth)
  next
    case False
    with frames_all [OF ok_k, of off] t len k show ?thesis by (intro exI [of _ k]) simp
  qed
qed

end

section \<open>A record around its payload\<close>

lemma slice_join: "a \<le> b \<Longrightarrow> b \<le> c \<Longrightarrow> slice a b s @ slice b c s = slice a c s"
proof -
  assume "a \<le> b" "b \<le> c"
  then have "drop b s = drop (b - a) (drop a s)" "c - a = (b - a) + (c - b)" by simp_all
  then show ?thesis by (simp add: slice_def take_add)
qed

text \<open>
  The frame the replication journal and the replica operation log share: a 32-bit length that counts the
  checksum and the payload, the checksum of the payload, the payload.
\<close>

definition payload_record :: "bytes \<Rightarrow> bytes" where
  "payload_record p = put_u32 (word_of_nat (length p + 4)) @ put_u32 (crc32 p) @ p"

lemma length_payload_record [simp]: "length (payload_record p) = 8 + length p"
  by (simp add: payload_record_def)

lemma unat_record_len: "length p + 4 < 2 ^ 32 \<Longrightarrow> unat (word_of_nat (length p + 4) :: u32) = length p + 4"
  by (simp only: unat_of_nat) (simp add: take_bit_nat_eq_self)

lemma payload_record_slices:
  assumes "length p + 4 < 2 ^ 32"
  shows "unat (get_u32 (slice 0 4 (payload_record p @ t))) = length p + 4"
    "slice 4 (4 + (length p + 4)) (payload_record p @ t) = put_u32 (crc32 p) @ p"
    "drop (4 + (length p + 4)) (payload_record p @ t) = t"
  using unat_record_len [OF assms] by (simp_all add: payload_record_def slice_def)

lemma payload_record_prefix:
  assumes "length p + 4 < 2 ^ 32" "4 \<le> n" "n < length (payload_record p)"
  shows "unat (get_u32 (slice 0 4 (take n (payload_record p)))) = length p + 4"
proof -
  have "slice 0 4 (take n (payload_record p)) = put_u32 (word_of_nat (length p + 4))"
    using assms(2) by (simp add: slice_def payload_record_def)
  then show ?thesis using unat_record_len [OF assms(1)] by simp
qed

text \<open>Bytes with a matching length and checksum are a record.\<close>

lemma payload_record_exists:
  fixes bs :: bytes
  defines "n \<equiv> get_u32 (slice 0 4 bs)"
  defines "body \<equiv> slice 4 (4 + unat n) bs"
  assumes "4 \<le> length bs" "unat n \<le> length bs - 4" "4 \<le> unat n" "get_u32 (slice 0 4 body) = crc32 (drop 4 body)"
  shows "bs = payload_record (drop 4 body) @ drop (4 + unat n) bs" "length (drop 4 body) + 4 = unat n"
proof -
  have len: "length body = unat n" using assms(3,4) by (simp add: slice_def body_def)
  have p: "length (drop 4 body) + 4 = unat n" using len assms(5) by simp
  then show "length (drop 4 body) + 4 = unat n" .
  have "put_u32 (crc32 (drop 4 body)) = slice 0 4 body"
    using assms(6) put_get(1) [of "slice 0 4 body"] len assms(5) by simp
  moreover have "slice 0 4 x @ drop 4 x = x" for x :: bytes by (simp add: slice_def)
  ultimately have body: "body = put_u32 (crc32 (drop 4 body)) @ drop 4 body" by metis
  have "put_u32 n = slice 0 4 bs" using put_get(1) [of "slice 0 4 bs"] assms(3) by (simp add: n_def)
  moreover have "(word_of_nat (length (drop 4 body) + 4) :: u32) = n" unfolding p by simp
  ultimately have "payload_record (drop 4 body) @ drop (4 + unat n) bs = slice 0 4 bs @ body @ drop (4 + unat n) bs"
    using body by (simp add: payload_record_def)
  also have "\<dots> = bs"
    by (simp add: slice_def body_def) (metis add.commute append_take_drop_id drop_drop)
  finally show "bs = payload_record (drop 4 body) @ drop (4 + unat n) bs" ..
qed

text \<open>A changed byte after the length leaves a checksum that does not match.\<close>

lemma crc32_update:
  assumes "n < length p" "b \<noteq> p ! n"
  shows "crc32 (p[n := b]) \<noteq> crc32 p"
proof
  assume "crc32 (p[n := b]) = crc32 p"
  then have "crc32 (take n p @ b # drop (Suc n) p) = crc32 (take n p @ p ! n # drop (Suc n) p)"
    using assms(1) by (simp add: upd_conv_take_nth_drop id_take_nth_drop [symmetric])
  then show False using crc32_single_byte assms(2) by metis
qed

lemma payload_record_changed:
  fixes t :: bytes
  assumes "length p + 4 < 2 ^ 32" "4 \<le> i" "i < length (payload_record p)" "b \<noteq> payload_record p ! i"
  defines "q \<equiv> (payload_record p)[i := b] @ t"
  defines "body \<equiv> slice 4 (4 + (length p + 4)) q"
  shows "unat (get_u32 (slice 0 4 q)) = length p + 4" "get_u32 (slice 0 4 body) \<noteq> crc32 (drop 4 body)"
proof -
  let ?n = "put_u32 (word_of_nat (length p + 4))" and ?c = "put_u32 (crc32 p)"
  have q: "q = ?n @ ((?c @ p)[i - 4 := b]) @ t"
    using assms(2) by (simp add: q_def payload_record_def list_update_append)
  then show "unat (get_u32 (slice 0 4 q)) = length p + 4"
    using unat_record_len [OF assms(1)] by (simp add: slice_def)
  have body: "body = (?c @ p)[i - 4 := b]" unfolding body_def q by (rule slice_middle) simp_all
  show "get_u32 (slice 0 4 body) \<noteq> crc32 (drop 4 body)"
  proof (cases "i < 8")
    case True
    then have "i - 4 < 4" using assms(2) by simp
    then have b: "slice 0 4 body = ?c[i - 4 := b]" "drop 4 body = p"
      using assms(2) by (simp_all add: body list_update_append slice_def)
    have "?c ! (i - 4) = payload_record p ! i"
      using True assms(2) \<open>i - 4 < 4\<close> by (simp add: payload_record_def nth_append)
    then have "?c[i - 4 := b] \<noteq> ?c" using True assms(2,4) by (metis length_put(2) diff_less_mono numeral_Bit0 nth_list_update_eq add_diff_cancel_right')
    moreover have "put_u32 (get_u32 (?c[i - 4 := b])) = ?c[i - 4 := b]" by (rule put_get(1)) simp
    ultimately show ?thesis unfolding b by metis
  next
    case False
    then have i: "\<not> i - 4 < 4" "i - 4 - 4 = i - 8" by simp_all
    have "slice 0 4 body = ?c" "drop 4 body = p[i - 8 := b]"
      unfolding body list_update_append using i by (simp_all add: slice_def)
    moreover have "payload_record p ! i = p ! (i - 8)" using False i by (simp add: payload_record_def nth_append)
    then have "crc32 (p[i - 8 := b]) \<noteq> crc32 p" using False assms(3,4) by (intro crc32_update) auto
    ultimately show ?thesis by simp
  qed
qed

section \<open>Consecutive numbers\<close>

text \<open>Sequence numbers that count on from \<open>base\<close> and stay below the largest one.\<close>

definition counts_from :: "u64 \<Rightarrow> u64 list \<Rightarrow> bool" where
  "counts_from base qs \<longleftrightarrow> (\<forall>i < length qs. unat (qs ! i) = unat base + 1 + i) \<and> unat base + length qs < 2 ^ 64 - 1"

lemma counts_from_nth: "counts_from base qs \<Longrightarrow> i < length qs \<Longrightarrow> unat (qs ! i) = unat base + 1 + i"
  unfolding counts_from_def by blast

lemma counts_from_bound: "counts_from base qs \<Longrightarrow> unat base + length qs < 2 ^ 64 - 1"
  unfolding counts_from_def by blast

lemma counts_from_nil [simp]: "counts_from base [] \<longleftrightarrow> unat base < 2 ^ 64 - 1"
  by (simp add: counts_from_def)

lemma counts_from_snoc:
  "counts_from base (qs @ [q]) \<longleftrightarrow> counts_from base qs \<and> unat q = unat base + 1 + length qs
     \<and> unat base + length qs + 1 < 2 ^ 64 - 1"
  by (auto simp: counts_from_def nth_append less_Suc_eq)

definition next_seq :: "u64 \<Rightarrow> nat \<Rightarrow> u64" where
  "next_seq base n = base + 1 + word_of_nat n"

lemma unat_next_seq: "unat base + n < 2 ^ 64 - 1 \<Longrightarrow> unat (next_seq base n) = unat base + 1 + n"
  unfolding next_seq_def by (simp add: unat_word_ariths unat_of_nat take_bit_nat_eq_self)

lemma next_seq_Suc: "next_seq base n + 1 = next_seq base (Suc n)"
  by (simp add: next_seq_def)

lemma unat_u64_bound: "unat (q :: u64) < 2 ^ 64"
proof -
  have "unat q < 2 ^ LENGTH(64)" by (rule unsigned_less)
  then show ?thesis by simp
qed

lemma counts_from_prefix: "counts_from base (qs @ rs) \<Longrightarrow> counts_from base qs"
  by (induction rs rule: rev_induct) (simp_all add: counts_from_snoc flip: append_assoc)

text \<open>Running a stateful callback over the records of a log until it fails.\<close>

fun run_records :: "('r \<Rightarrow> 's \<Rightarrow> 'e option \<times> 's) \<Rightarrow> 'r list \<Rightarrow> 's \<Rightarrow> 'e option \<times> 's" where
  "run_records fn [] s = (None, s)"
| "run_records fn (r # rs) s =
     (case fn r s of (Some e, s') \<Rightarrow> (Some e, s') | (None, s') \<Rightarrow> run_records fn rs s')"

end
