(* ===== verification/Wal.thy ===== *)
theory Wal
  imports Framing
begin

text \<open>
  The write-ahead log (\<open>internal/wal/wal.go\<close>): its record format, \<open>Open\<close>, \<open>Append\<close>, \<open>Replay\<close> and
  \<open>Close\<close>. The file is a \<^typ>\<open>gofile\<close>; the outcome of each \<open>Write\<close> and \<open>Sync\<close> call is an argument.
  Seeks and reads of the open local file are taken to succeed.
\<close>

section \<open>Types\<close>

datatype wal_error = WErrClosed | WErrInvalidRecord | WErrCorruptRecord | WErrRecordTooLarge | WErrIO

definition record_put :: byte where "record_put = 1"
definition record_delete :: byte where "record_delete = 2"

record wal_record =
  wr_type :: byte
  wr_key :: bytes
  wr_value :: bytes
  wr_seq :: u64

record wal_options =
  sync_on_write :: bool
  wal_max_record :: u32

record wal =
  w_file :: gofile
  w_opts :: wal_options
  w_seq :: u64
  w_closed :: bool

definition wal_default_max :: u32 where "wal_default_max = push_bit 20 64"

section \<open>Encoding\<close>

definition wal_body :: "u64 \<Rightarrow> byte \<Rightarrow> bytes \<Rightarrow> bytes \<Rightarrow> bytes" where
  "wal_body seq t key val =
     put_u64 seq @ [t] @ put_u32 (len32 key) @ put_u32 (len32 val) @ key @ val"

definition encode_record :: "u64 \<Rightarrow> byte \<Rightarrow> bytes \<Rightarrow> bytes \<Rightarrow> bytes" where
  "encode_record seq t key val =
     (let body = wal_body seq t key val in
      put_u32 (word_of_nat (17 + length key + length val)) @ put_u32 (crc32 body) @ body)"

definition validate_record :: "wal_record \<Rightarrow> wal_error option" where
  "validate_record r =
     (if wr_type r \<noteq> record_put \<and> wr_type r \<noteq> record_delete then Some WErrInvalidRecord
      else if length (wr_key r) = 0 then Some WErrInvalidRecord
      else None)"

section \<open>Operations\<close>

definition wal_open :: "wal_options \<Rightarrow> bytes \<Rightarrow> wal" where
  "wal_open opts content =
     (let opts' = (if wal_max_record opts = 0 then opts\<lparr>wal_max_record := wal_default_max\<rparr> else opts) in
      \<lparr>w_file = file_seek_end \<lparr>f_bytes = content, f_pos = 0\<rparr>,
       w_opts = opts', w_seq = 0, w_closed = False\<rparr>)"

definition wal_append ::
    "wal \<Rightarrow> wal_record \<Rightarrow> write_outcome \<Rightarrow> bool \<Rightarrow> (wal_error + u64) \<times> wal" where
  "wal_append w r wo sync_ok =
     (case validate_record r of
        Some e \<Rightarrow> (Inl e, w)
      | None \<Rightarrow>
        if 17 + length (wr_key r) + length (wr_value r) > unat (wal_max_record (w_opts w))
        then (Inl WErrRecordTooLarge, w)
        else if w_closed w then (Inl WErrClosed, w)
        else
          let seq = w_seq w + 1;
              buf = encode_record seq (wr_type r) (wr_key r) (wr_value r);
              w' = w\<lparr>w_seq := seq, w_file := file_write_outcome wo buf (w_file w)\<rparr>
          in if wo \<noteq> Write_ok then (Inl WErrIO, w')
             else if sync_on_write (w_opts w) \<and> \<not> sync_ok then (Inl WErrIO, w')
             else (Inr seq, w'))"

text \<open>
  One turn of the loop of \<open>Replay\<close>: header, length checks, body, checksum, fields. \<open>Bad n\<close> says how
  many bytes were read when the frame was found corrupt.
\<close>

definition wal_read :: "u32 \<Rightarrow> bytes \<Rightarrow> wal_record frame" where
  "wal_read maxRec bs =
     (if length bs < 8 then Torn
      else
        let bodyLen = get_u32 (slice 0 4 bs); storedCRC = get_u32 (slice 4 8 bs) in
        if bodyLen > maxRec then Bad 8
        else if bodyLen < 17 then Bad 8
        else if length bs - 8 < unat bodyLen then Torn
        else
          let body = slice 8 (8 + unat bodyLen) bs in
          if crc32 body \<noteq> storedCRC then Bad (8 + unat bodyLen)
          else
            let seq = get_u64 (slice 0 8 body);
                rtype = body ! 8;
                keyLen = unat (get_u32 (slice 9 13 body));
                valueLen = unat (get_u32 (slice 13 17 body))
            in if keyLen + valueLen > unat bodyLen - 17 then Bad (8 + unat bodyLen)
               else Frame \<lparr>wr_type = rtype, wr_key = slice 17 (17 + keyLen) body,
                           wr_value = slice (17 + keyLen) (17 + keyLen + valueLen) body,
                           wr_seq = seq\<rparr>
                      (drop (8 + unat bodyLen) bs))"

lemma wal_read_decreases: "wal_read m bs = Frame r rest \<Longrightarrow> length rest < length bs"
  by (auto simp: wal_read_def Let_def split: if_splits)

datatype 'e replay_end = Replay_done | Replay_corrupt nat | Replay_fn 'e

function replay_loop ::
    "u32 \<Rightarrow> (wal_record \<Rightarrow> 's \<Rightarrow> 'e option \<times> 's) \<Rightarrow> bytes \<Rightarrow> nat \<Rightarrow> u64 \<Rightarrow> 's \<Rightarrow>
     'e replay_end \<times> u64 \<times> 's" where
  "replay_loop maxRec fn bs pos maxSeq s =
     (case wal_read maxRec bs of
        Torn \<Rightarrow> (Replay_done, maxSeq, s)
      | Bad n \<Rightarrow> (Replay_corrupt (pos + n), maxSeq, s)
      | Frame r rest \<Rightarrow>
          let m = (if wr_seq r > maxSeq then wr_seq r else maxSeq) in
          (case fn r s of
             (Some e, s') \<Rightarrow> (Replay_fn e, m, s')
           | (None, s') \<Rightarrow> replay_loop maxRec fn rest (pos + (length bs - length rest)) m s'))"
  by pat_completeness auto
termination
  by (relation "measure (\<lambda>(maxRec, fn, bs, pos, maxSeq, s). length bs)") (auto dest: wal_read_decreases)

declare replay_loop.simps [simp del]

datatype 'e replay_error = RErrWal wal_error | RErrFn 'e

definition wal_replay ::
    "wal \<Rightarrow> (wal_record \<Rightarrow> 's \<Rightarrow> 'e option \<times> 's) \<Rightarrow> 's \<Rightarrow> 'e replay_error option \<times> wal \<times> 's" where
  "wal_replay w fn s =
     (if w_closed w then (Some (RErrWal WErrClosed), w, s)
      else
        (case replay_loop (wal_max_record (w_opts w)) fn (f_bytes (w_file w)) 0 0 s of
           (Replay_corrupt p, m, s') \<Rightarrow>
             (Some (RErrWal WErrCorruptRecord), w\<lparr>w_file := file_seek p (w_file w)\<rparr>, s')
         | (Replay_fn e, m, s') \<Rightarrow>
             (Some (RErrFn e), w\<lparr>w_file := file_seek_end (w_file w)\<rparr>, s')
         | (Replay_done, m, s') \<Rightarrow>
             (None, w\<lparr>w_seq := (if m > w_seq w then m else w_seq w),
                      w_file := file_seek_end (w_file w)\<rparr>, s')))"

definition wal_close :: "wal \<Rightarrow> wal_error option \<times> wal" where
  "wal_close w = (if w_closed w then (Some WErrClosed, w) else (None, w\<lparr>w_closed := True\<rparr>))"

section \<open>The record format is a framed log\<close>

definition wal_frame_ok :: "u32 \<Rightarrow> wal_record \<Rightarrow> bool" where
  "wal_frame_ok maxRec r \<longleftrightarrow> 17 + length (wr_key r) + length (wr_value r) \<le> unat maxRec"

definition wal_enc :: "wal_record \<Rightarrow> bytes" where
  "wal_enc r = encode_record (wr_seq r) (wr_type r) (wr_key r) (wr_value r)"

lemma length_wal_body [simp]: "length (wal_body seq t k v) = 17 + length k + length v"
  by (simp add: wal_body_def)

lemma length_wal_enc [simp]: "length (wal_enc r) = 25 + length (wr_key r) + length (wr_value r)"
  by (simp add: wal_enc_def encode_record_def Let_def)

lemma unat_u32_of_nat: "n < 2 ^ 32 \<Longrightarrow> unat (word_of_nat n :: u32) = n"
  by (simp add: unat_of_nat take_bit_nat_eq_self)

lemma unat_u32_less: "unat (m :: u32) < 2 ^ 32"
proof -
  have "unat m < 2 ^ LENGTH(32)" by (rule unsigned_less)
  then show ?thesis by simp
qed

lemma le_u32_bound: "n \<le> unat (m :: u32) \<Longrightarrow> n < 2 ^ 32"
  by (rule le_less_trans [OF _ unat_u32_less])

text \<open>The fields of a body, wherever it stands in the file.\<close>

lemma wal_body_fields:
  "slice 0 8 (wal_body seq t k v) = put_u64 seq"
  "wal_body seq t k v ! 8 = t"
  "slice 9 13 (wal_body seq t k v) = put_u32 (len32 k)"
  "slice 13 17 (wal_body seq t k v) = put_u32 (len32 v)"
  "slice 17 (17 + length k) (wal_body seq t k v) = k"
  "slice (17 + length k) (17 + length k + length v) (wal_body seq t k v) = v"
proof -
  let ?h = "put_u64 seq @ [t] @ put_u32 (len32 k) @ put_u32 (len32 v)"
  have b: "wal_body seq t k v = ?h @ k @ v" by (simp add: wal_body_def)
  show "slice 17 (17 + length k) (wal_body seq t k v) = k"
    unfolding b by (rule slice_middle) simp_all
  have "slice (17 + length k) (17 + length k + length v) ((?h @ k) @ v @ []) = v"
    by (rule slice_middle) simp_all
  then show "slice (17 + length k) (17 + length k + length v) (wal_body seq t k v) = v"
    unfolding b by simp
qed (simp_all add: wal_body_def slice_def nth_append)

lemma wal_read_enc:
  assumes "wal_frame_ok maxRec r"
  shows "wal_read maxRec (wal_enc r @ t) = Frame r t"
proof -
  let ?k = "wr_key r" and ?v = "wr_value r"
  let ?body = "wal_body (wr_seq r) (wr_type r) ?k ?v"
  define L :: u32 where "L = word_of_nat (17 + length ?k + length ?v)"
  have n: "17 + length ?k + length ?v < 2 ^ 32"
    using assms le_u32_bound unfolding wal_frame_ok_def by blast
  then have uL: "unat L = 17 + length ?k + length ?v" by (simp only: L_def unat_u32_of_nat)
  have ks: "unat (len32 ?k) = length ?k" "unat (len32 ?v) = length ?v"
    using n by (simp_all add: unat_len32)
  have e: "wal_enc r @ t = put_u32 L @ put_u32 (crc32 ?body) @ ?body @ t"
    by (simp add: wal_enc_def encode_record_def Let_def L_def)
  have s: "slice 0 4 (wal_enc r @ t) = put_u32 L" "slice 4 8 (wal_enc r @ t) = put_u32 (crc32 ?body)"
    "slice 8 (8 + unat L) (wal_enc r @ t) = ?body" "drop (8 + unat L) (wal_enc r @ t) = t"
    unfolding e uL by (simp_all add: slice_def)
  have c: "\<not> L > maxRec" "\<not> L < 17"
    using assms uL by (simp_all add: wal_frame_ok_def word_less_nat_alt)
  have l: "\<not> length (wal_enc r @ t) < 8" "\<not> length (wal_enc r @ t) - 8 < unat L"
    "\<not> length ?k + length ?v > unat L - 17"
    using uL by simp_all
  show ?thesis
    unfolding wal_read_def using c l
    by (simp add: s Let_def ks wal_body_fields del: length_append drop_append)
qed

lemma wal_read_prefix:
  assumes "wal_frame_ok maxRec r" "n < length (wal_enc r)"
  shows "wal_read maxRec (take n (wal_enc r)) = Torn"
proof (cases "n < 8")
  case False
  let ?k = "wr_key r" and ?v = "wr_value r"
  define L :: u32 where "L = word_of_nat (17 + length ?k + length ?v)"
  have n32: "17 + length ?k + length ?v < 2 ^ 32"
    using assms(1) le_u32_bound unfolding wal_frame_ok_def by blast
  then have uL: "unat L = 17 + length ?k + length ?v" by (simp only: L_def unat_u32_of_nat)
  have s: "slice 0 4 (take n (wal_enc r)) = put_u32 L"
    using False by (simp add: slice_def wal_enc_def encode_record_def Let_def L_def)
  have "length (take n (wal_enc r)) - 8 < unat L" using assms(2) False uL by simp
  moreover have "\<not> L > maxRec" "\<not> L < 17"
    using assms uL by (simp_all add: wal_frame_ok_def word_less_nat_alt)
  ultimately show ?thesis using assms(2) False by (simp add: wal_read_def s Let_def)
qed (simp add: wal_read_def)

interpretation wal_log: framed_log wal_enc "wal_read maxRec" "wal_frame_ok maxRec" for maxRec
  by unfold_locales (rule wal_read_enc wal_read_prefix | assumption | simp add: wal_read_def)+

section \<open>Replay\<close>

definition max_seq :: "u64 \<Rightarrow> wal_record list \<Rightarrow> u64" where
  "max_seq m rs = foldl (\<lambda>m r. if wr_seq r > m then wr_seq r else m) m rs"

text \<open>The loop of \<open>Replay\<close> is the callback run over the frames of the file.\<close>

lemma replay_loop_frames:
  assumes "frames (wal_read maxRec) pos bs = (rs, p, e)" "run_records fn rs s = (None, s')"
  shows "replay_loop maxRec fn bs pos m s =
    ((case e of End_torn _ \<Rightarrow> Replay_done | End_bad n \<Rightarrow> Replay_corrupt (p + n)), max_seq m rs, s')"
  using assms
proof (induction "wal_read maxRec" pos bs arbitrary: rs p e m s rule: frames.induct)
  case (1 pos bs)
  show ?case
  proof (cases "wal_read maxRec bs")
    case Torn
    with "1.prems" show ?thesis
      by (subst replay_loop.simps) (auto simp: frames_Torn max_seq_def)
  next
    case (Bad n)
    with "1.prems" show ?thesis
      by (subst replay_loop.simps) (auto simp: frames_Bad max_seq_def)
  next
    case (Frame r rest)
    note l = wal_read_decreases [OF Frame]
    obtain rs1 p1 e1 where f: "frames (wal_read maxRec) (pos + (length bs - length rest)) rest = (rs1, p1, e1)"
      by (metis prod_cases3)
    from "1.prems"(1) frames_Frame [where dec = "wal_read maxRec", OF Frame l, of pos] f have eq: "rs = r # rs1" "p = p1" "e = e1"
      by auto
    from "1.prems"(2) eq obtain s1 where s1: "fn r s = (None, s1)" "run_records fn rs1 s1 = (None, s')"
      by (auto split: prod.splits option.splits)
    from "1.hyps" [OF Frame l f s1(2)] Frame s1(1) show ?thesis
      unfolding eq by (subst replay_loop.simps) (simp add: Let_def max_seq_def)
  qed
qed

text \<open>The callback that keeps every record it is given, as a recovery that cannot fail does.\<close>

definition collect :: "wal_record \<Rightarrow> wal_record list \<Rightarrow> unit option \<times> wal_record list" where
  "collect r acc = (None, acc @ [r])"

lemma run_collect [simp]: "run_records collect rs acc = (None, acc @ rs)"
  by (induction rs arbitrary: acc) (simp_all add: collect_def)

text \<open>The records a reopened log hands to its callback, and how the replay ends.\<close>

definition replayed :: "wal_options \<Rightarrow> bytes \<Rightarrow> unit replay_error option \<times> wal_record list" where
  "replayed opts content =
     (case wal_replay (wal_open opts content) collect [] of (e, w, rs) \<Rightarrow> (e, rs))"

definition eff_max :: "wal_options \<Rightarrow> u32" where
  "eff_max opts = (if wal_max_record opts = 0 then wal_default_max else wal_max_record opts)"

lemma replayed_frames:
  "frames (wal_read (eff_max opts)) 0 content = (rs, p, e) \<Longrightarrow>
   replayed opts content =
     ((case e of End_torn _ \<Rightarrow> None | End_bad _ \<Rightarrow> Some (RErrWal WErrCorruptRecord)), rs)"
  using replay_loop_frames [of "eff_max opts" 0 content rs p e collect "[]" rs 0]
  by (auto simp: replayed_def wal_replay_def wal_open_def eff_max_def Let_def split: frames_end.splits)

section \<open>Append\<close>

definition wal_ready :: "wal \<Rightarrow> bool" where
  "wal_ready w \<longleftrightarrow> \<not> w_closed w \<and> at_end (w_file w)"

lemma wal_append_ok:
  assumes "wal_ready w" "validate_record r = None" "wal_frame_ok (wal_max_record (w_opts w)) r"
  shows "wal_append w r Write_ok True =
    (Inr (w_seq w + 1),
     w\<lparr>w_seq := w_seq w + 1,
       w_file := file_write (wal_enc (r\<lparr>wr_seq := w_seq w + 1\<rparr>)) (w_file w)\<rparr>)"
  using assms
  by (simp add: wal_append_def wal_ready_def wal_frame_ok_def Let_def file_write_outcome_def wal_enc_def)

text \<open>Appends that all succeed; the sequence numbers count on from the log's counter.\<close>

fun wal_append_all :: "wal \<Rightarrow> wal_record list \<Rightarrow> wal" where
  "wal_append_all w [] = w"
| "wal_append_all w (r # rs) = wal_append_all (snd (wal_append w r Write_ok True)) rs"

fun numbered :: "u64 \<Rightarrow> wal_record list \<Rightarrow> wal_record list" where
  "numbered n [] = []"
| "numbered n (r # rs) = r\<lparr>wr_seq := n + 1\<rparr> # numbered (n + 1) rs"

definition appendable :: "wal \<Rightarrow> wal_record \<Rightarrow> bool" where
  "appendable w r \<longleftrightarrow> validate_record r = None \<and> wal_frame_ok (wal_max_record (w_opts w)) r"

lemma wal_append_all_bytes:
  assumes "wal_ready w" "\<forall>r \<in> set rs. appendable w r"
  shows "f_bytes (w_file (wal_append_all w rs)) =
      f_bytes (w_file w) @ concat (map wal_enc (numbered (w_seq w) rs))
    \<and> wal_ready (wal_append_all w rs) \<and> w_opts (wal_append_all w rs) = w_opts w"
  using assms
proof (induction rs arbitrary: w)
  case Nil
  then show ?case by simp
next
  case (Cons r rs)
  let ?w = "snd (wal_append w r Write_ok True)"
  have w: "?w = w\<lparr>w_seq := w_seq w + 1,
      w_file := file_write (wal_enc (r\<lparr>wr_seq := w_seq w + 1\<rparr>)) (w_file w)\<rparr>"
    using Cons.prems by (subst wal_append_ok) (simp_all add: appendable_def)
  then have "wal_ready ?w" "\<forall>r \<in> set rs. appendable ?w r"
    using Cons.prems by (simp_all add: wal_ready_def appendable_def)
  from Cons.IH [OF this] w Cons.prems(1) show ?case
    by (simp add: file_write_at_end wal_ready_def)
qed

lemma numbered_ok: "\<forall>r \<in> set rs. wal_frame_ok m r \<Longrightarrow> \<forall>r \<in> set (numbered n rs). wal_frame_ok m r"
  by (induction rs arbitrary: n) (auto simp: wal_frame_ok_def)

lemma length_numbered [simp]: "length (numbered n rs) = length rs"
  by (induction rs arbitrary: n) auto

section \<open>Properties\<close>

text \<open>C32: crash recovery of the write-ahead log. Append any valid records to a fresh log and let a
  crash cut the file at any byte \<open>n\<close>: reopening and replaying succeeds and hands the callback a
  prefix of the appended records, in order and with their sequence numbers, and that prefix holds
  every record whose frame was written whole before the cut.\<close>

theorem wal_crash_recovery:
  assumes "\<forall>r \<in> set rs. appendable (wal_open opts []) r"
    and "content = f_bytes (w_file (wal_append_all (wal_open opts []) rs))" "n \<le> length content"
  shows "\<exists>k \<le> length rs. replayed opts (take n content) = (None, take k (numbered 0 rs))
    \<and> (k < length rs \<longrightarrow> n < length (concat (map wal_enc (take (Suc k) (numbered 0 rs)))))"
proof -
  have m: "wal_max_record (w_opts (wal_open opts [])) = eff_max opts" "w_seq (wal_open opts []) = 0"
    by (simp_all add: wal_open_def eff_max_def Let_def)
  have r: "wal_ready (wal_open opts [])" by (simp add: wal_open_def wal_ready_def Let_def)
  have ok: "\<forall>r \<in> set (numbered 0 rs). wal_frame_ok (eff_max opts) r"
    using assms(1) by (intro numbered_ok) (simp add: appendable_def m)
  have content: "content = concat (map wal_enc (numbered 0 rs))"
    using wal_append_all_bytes [OF r assms(1)] assms(2) by (simp add: m wal_open_def file_seek_end_def Let_def)
  from wal_log.frames_cut [OF ok, of n 0] assms(3) obtain k p j where
    "k \<le> length rs" "frames (wal_read (eff_max opts)) 0 (take n content) = (take k (numbered 0 rs), p, End_torn j)"
    "k < length rs \<longrightarrow> n < length (concat (map wal_enc (take (Suc k) (numbered 0 rs))))"
    unfolding content by (metis length_numbered prod.collapse)
  with replayed_frames show ?thesis by fastforce
qed

theorem wal_crash_recovery_witness:
  "\<exists>k \<le> 1. replayed \<lparr>sync_on_write = True, wal_max_record = 0\<rparr>
      (take 26 (f_bytes (w_file (wal_append_all (wal_open \<lparr>sync_on_write = True, wal_max_record = 0\<rparr> [])
        [\<lparr>wr_type = 1, wr_key = [7], wr_value = [8], wr_seq = 0\<rparr>]))))
      = (None, take k [\<lparr>wr_type = 1, wr_key = [7], wr_value = [8], wr_seq = 1\<rparr>])"
proof -
  let ?o = "\<lparr>sync_on_write = True, wal_max_record = 0\<rparr>"
  let ?r = "\<lparr>wr_type = 1, wr_key = [7::byte], wr_value = [8], wr_seq = 0\<rparr>"
  have a: "appendable (wal_open ?o []) ?r"
    by (simp add: appendable_def validate_record_def record_put_def wal_frame_ok_def wal_open_def
        Let_def wal_default_max_def)
  have "length (f_bytes (w_file (wal_append_all (wal_open ?o []) [?r]))) = 27"
    using wal_append_all_bytes [of "wal_open ?o []" "[?r]"] a
    by (simp add: wal_open_def wal_ready_def Let_def file_seek_end_def at_end_def)
  with wal_crash_recovery [of "[?r]" ?o _ 26] a show ?thesis by fastforce
qed

text \<open>C33: corruption is detected. Replace any single byte of a record's body by another one: replay
  hands over exactly the records before it and then fails with the corrupt-record error.\<close>

theorem wal_detects_corruption:
  assumes "\<forall>r \<in> set rs. wal_frame_ok (eff_max opts) r" "wal_frame_ok (eff_max opts) r"
    and "wal_enc r = take 8 (wal_enc r) @ xs @ a # ys" "b \<noteq> a"
  shows "replayed opts (concat (map wal_enc rs) @ (take 8 (wal_enc r) @ xs @ b # ys) @ t) =
    (Some (RErrWal WErrCorruptRecord), rs)"
proof -
  let ?k = "wr_key r" and ?v = "wr_value r"
  define L :: u32 where "L = word_of_nat (17 + length ?k + length ?v)"
  let ?body = "wal_body (wr_seq r) (wr_type r) ?k ?v"
  let ?bs = "(take 8 (wal_enc r) @ xs @ b # ys) @ t"
  have n32: "17 + length ?k + length ?v < 2 ^ 32"
    using assms(2) le_u32_bound unfolding wal_frame_ok_def by blast
  then have uL: "unat L = 17 + length ?k + length ?v" by (simp only: L_def unat_u32_of_nat)
  have e: "wal_enc r = put_u32 L @ put_u32 (crc32 ?body) @ ?body"
    by (simp add: wal_enc_def encode_record_def Let_def L_def)
  then have t8: "take 8 (wal_enc r) = put_u32 L @ put_u32 (crc32 ?body)" by simp
  with e assms(3) have body: "?body = xs @ a # ys" by simp
  then have len: "length (xs @ b # ys) = unat L" using uL length_wal_body
    by (metis length_append length_Cons)
  have s: "slice 0 4 ?bs = put_u32 L" "slice 4 8 ?bs = put_u32 (crc32 ?body)"
    unfolding t8 by (simp_all add: slice_def)
  have "slice 8 (8 + unat L) (take 8 (wal_enc r) @ (xs @ b # ys) @ t) = xs @ b # ys"
    by (rule slice_middle) (use len in simp_all)
  then have s3: "slice 8 (8 + unat L) ?bs = xs @ b # ys" by simp
  have "\<not> L > eff_max opts" "\<not> L < 17"
    using assms(2) uL by (simp_all add: wal_frame_ok_def word_less_nat_alt)
  moreover have "\<not> length ?bs < 8" "\<not> length ?bs - 8 < unat L" using len t8 by simp_all
  moreover have "crc32 (xs @ b # ys) \<noteq> crc32 ?body" using body crc32_single_byte assms(4) by metis
  ultimately have "wal_read (eff_max opts) ?bs = Bad (8 + unat L)"
    unfolding wal_read_def by (simp add: s s3 Let_def del: length_append append_assoc)
  then show ?thesis
    using wal_log.frames_append [OF assms(1), of 0 ?bs] frames_Bad [where dec = "wal_read (eff_max opts)"]
    by (intro replayed_frames [where e = "End_bad (8 + unat L)", simplified]) simp
qed

theorem wal_detects_corruption_witness:
  "replayed \<lparr>sync_on_write = True, wal_max_record = 0\<rparr>
     (concat (map wal_enc []) @
       (take 8 (wal_enc \<lparr>wr_type = 1, wr_key = [7], wr_value = [8], wr_seq = 1\<rparr>)
        @ (put_u64 1 @ [1] @ put_u32 1 @ put_u32 1 @ [7]) @ 9 # []) @ [])
   = (Some (RErrWal WErrCorruptRecord), [])"
  by (rule wal_detects_corruption [where a = 8])
     (simp_all add: wal_frame_ok_def eff_max_def wal_default_max_def wal_enc_def encode_record_def
       wal_body_def len32_def Let_def)

text \<open>C34: an acknowledged write can be lost. \<open>Replay\<close> stops at a torn tail but leaves the torn bytes in
  place, and \<open>Open\<close> appends after them. When the torn frame is long enough to swallow what is
  appended, the append reports success and yet the next recovery ends without an error and without
  the record.\<close>

theorem wal_append_after_torn_tail_lost:
  assumes "wal_frame_ok (eff_max opts) r0" "8 \<le> n"
    and "appendable (wal_open opts (take n (wal_enc r0))) r" "n + length (wal_enc r) < length (wal_enc r0)"
    and "wal_append (wal_open opts (take n (wal_enc r0))) r Write_ok True = (res, w)"
  shows "res = Inr 1 \<and> replayed opts (f_bytes (w_file w)) = (None, [])"
proof -
  let ?w0 = "wal_open opts (take n (wal_enc r0))"
  let ?buf = "wal_enc (r\<lparr>wr_seq := 1\<rparr>)"
  have ready: "wal_ready ?w0" by (simp add: wal_open_def wal_ready_def Let_def)
  have "w_seq ?w0 = 0" by (simp add: wal_open_def Let_def)
  with wal_append_ok [OF ready] assms(3,5)
  have w: "res = Inr 1" "w_file w = file_write ?buf (w_file ?w0)" by (auto simp: appendable_def)
  have bytes: "f_bytes (w_file w) = take n (wal_enc r0) @ ?buf"
    using ready w(2) by (simp add: file_write_at_end wal_ready_def wal_open_def file_seek_end_def Let_def)
  define L :: u32 where "L = word_of_nat (17 + length (wr_key r0) + length (wr_value r0))"
  have n32: "17 + length (wr_key r0) + length (wr_value r0) < 2 ^ 32"
    using assms(1) le_u32_bound unfolding wal_frame_ok_def by blast
  then have uL: "unat L = 17 + length (wr_key r0) + length (wr_value r0)"
    by (simp only: L_def unat_u32_of_nat)
  have len: "length (take n (wal_enc r0) @ ?buf) - 8 < unat L" "\<not> length (take n (wal_enc r0) @ ?buf) < 8"
    using assms(2,4) uL by simp_all
  have "slice 0 4 (take n (wal_enc r0) @ ?buf) = put_u32 L"
    using assms(2,4) by (simp add: slice_def wal_enc_def encode_record_def Let_def L_def)
  moreover have "\<not> L > eff_max opts" "\<not> L < 17"
    using assms(1) uL by (simp_all add: wal_frame_ok_def word_less_nat_alt)
  ultimately have "wal_read (eff_max opts) (take n (wal_enc r0) @ ?buf) = Torn"
    using len by (simp add: wal_read_def Let_def)
  from replayed_frames [OF frames_Torn [where dec = "wal_read (eff_max opts)", OF this]] w(1) bytes
  show ?thesis by simp
qed

theorem wal_append_after_torn_tail_lost_witness:
  "\<exists>w. replayed \<lparr>sync_on_write = True, wal_max_record = 0\<rparr> (f_bytes (w_file w)) = (None, [])
    \<and> wal_append (wal_open \<lparr>sync_on_write = True, wal_max_record = 0\<rparr>
          (take 12 (wal_enc \<lparr>wr_type = 1, wr_key = [7], wr_value = replicate 40 0, wr_seq = 1\<rparr>)))
        \<lparr>wr_type = 1, wr_key = [5], wr_value = [6], wr_seq = 0\<rparr> Write_ok True = (Inr 1, w)"
proof -
  let ?o = "\<lparr>sync_on_write = True, wal_max_record = 0\<rparr>"
  let ?torn = "\<lparr>wr_type = 1, wr_key = [7::byte], wr_value = replicate 40 0, wr_seq = 1\<rparr>"
  let ?r = "\<lparr>wr_type = 1, wr_key = [5::byte], wr_value = [6], wr_seq = 0\<rparr>"
  obtain res w where a: "wal_append (wal_open ?o (take 12 (wal_enc ?torn))) ?r Write_ok True = (res, w)"
    by (metis prod.collapse)
  have "res = Inr 1 \<and> replayed ?o (f_bytes (w_file w)) = (None, [])"
    by (rule wal_append_after_torn_tail_lost [OF _ _ _ _ a])
       (simp add: wal_frame_ok_def eff_max_def wal_default_max_def, simp, simp add: appendable_def validate_record_def
         record_put_def wal_open_def wal_frame_ok_def wal_default_max_def  Let_def, simp)
  with a show ?thesis by auto
qed

end
