(* ===== verification/Entries.thy ===== *)
theory Entries
  imports Prelude
begin

text \<open>
  The versioned entry that \<open>memtable.Entry\<close> and \<open>sstable.Entry\<close> share field by field, key ranges,
  and the contract of a sorted table: what the engine relies on when it reads a MemTable or an
  SSTable. \<open>Memtable\<close> and \<open>Sstable\<close> interpret the locale on their own operations.
\<close>

record entry =
  e_key :: bytes
  e_value :: bytes
  e_kind :: byte
  e_seq :: u64

definition entry_put :: byte where "entry_put = 1"
definition entry_delete :: byte where "entry_delete = 2"

lemma kinds_distinct [simp]: "entry_put \<noteq> entry_delete" "entry_delete \<noteq> entry_put"
  by (simp_all add: entry_put_def entry_delete_def)

text \<open>\<open>[start, end)\<close>, where an empty bound is no bound.\<close>

definition in_range :: "bytes \<Rightarrow> bytes \<Rightarrow> bytes \<Rightarrow> bool" where
  "in_range lo hi k \<longleftrightarrow> lo \<le> k \<and> (hi = [] \<or> k < hi)"

lemma bytes_Nil_le [simp]: "[] \<le> (k :: bytes)"
  by (cases k) (simp_all add: list_le_def)

lemma in_range_all [simp]: "in_range [] [] k"
  by (simp add: in_range_def)

text \<open>The live value an entry stands for: a tombstone stands for none.\<close>

definition live :: "entry \<Rightarrow> bytes option" where
  "live e = (if e_kind e = entry_put then Some (e_value e) else None)"

definition strictly_sorted :: "bytes list \<Rightarrow> bool" where
  "strictly_sorted ks \<longleftrightarrow> sorted_wrt (<) ks"

lemma strictly_sorted_simps [simp]:
  "strictly_sorted []" "strictly_sorted (k # ks) \<longleftrightarrow> (\<forall>k' \<in> set ks. k < k') \<and> strictly_sorted ks"
  by (auto simp: strictly_sorted_def)

lemma strictly_sorted_distinct: "strictly_sorted ks \<Longrightarrow> distinct ks"
  by (simp add: strictly_sorted_def strict_sorted_iff)

lemma strictly_sorted_sorted: "strictly_sorted ks \<Longrightarrow> sorted ks"
  by (simp add: strictly_sorted_def strict_sorted_iff)

lemma strictly_sorted_filter: "strictly_sorted ks \<Longrightarrow> strictly_sorted (filter P ks)"
  by (simp add: strictly_sorted_def sorted_wrt_filter)

lemma strictly_sorted_append:
  "strictly_sorted (ks @ ls) \<longleftrightarrow> strictly_sorted ks \<and> strictly_sorted ls \<and> (\<forall>k \<in> set ks. \<forall>l \<in> set ls. k < l)"
  by (simp add: strictly_sorted_def sorted_wrt_append)

lemma strictly_sorted_eqI:
  "strictly_sorted ks \<Longrightarrow> strictly_sorted ls \<Longrightarrow> set ks = set ls \<Longrightarrow> ks = ls"
  by (metis sorted_distinct_set_unique strictly_sorted_distinct strictly_sorted_sorted)

text \<open>Entries in strictly increasing key order are determined by their set.\<close>

lemma entries_eqI:
  assumes "strictly_sorted (map e_key es)" "strictly_sorted (map e_key fs)" "set es = set fs"
  shows "es = fs"
proof -
  have "map e_key es = map e_key fs" using assms by (intro strictly_sorted_eqI) auto
  moreover have "inj_on e_key (set es \<union> set fs)"
    using assms strictly_sorted_distinct by (metis distinct_map sup.idem)
  ultimately show ?thesis by (metis map_inj_on)
qed

text \<open>Range scans over sorted keys: skip to \<open>lo\<close> by binary search, stop at the first key not below \<open>hi\<close>.\<close>

lemma takeWhile_below_filter:
  "sorted xs \<Longrightarrow> takeWhile (\<lambda>x. x < hi) xs = filter (\<lambda>x. x < hi) xs" for hi :: "'a::linorder"
proof (induction xs)
  case (Cons a xs)
  show ?case
  proof (cases "a < hi")
    case False
    then have "\<forall>x \<in> set xs. \<not> x < hi" using Cons.prems by auto
    with False show ?thesis by simp
  qed (use Cons in auto)
qed simp

lemma dropWhile_below_filter:
  "sorted xs \<Longrightarrow> dropWhile (\<lambda>x. x < lo) xs = filter (\<lambda>x. lo \<le> x) xs" for lo :: "'a::linorder"
  by (induction xs) (auto simp: not_less intro!: filter_True [symmetric] dest: order_trans)

lemma range_scan_filter:
  fixes ks :: "bytes list"
  assumes "sorted ks"
  shows "takeWhile (\<lambda>k. \<not> (hi \<noteq> [] \<and> hi \<le> k)) (drop (if lo \<noteq> [] then search_ge lo ks else 0) ks)
    = filter (in_range lo hi) ks"
proof -
  have d: "drop (if lo \<noteq> [] then search_ge lo ks else 0) ks = filter (\<lambda>k. lo \<le> k) ks"
    using assms by (auto simp: drop_search_ge dropWhile_below_filter)
  have s: "sorted (filter (\<lambda>k. lo \<le> k) ks)" using assms sorted_filter [where f = id] by simp
  show ?thesis
    unfolding d in_range_def using takeWhile_below_filter [OF s, of hi]
    by (cases "hi = []") (auto simp: not_le conj_commute)
qed

section \<open>The contract of a sorted table\<close>

locale sorted_table =
  fixes tget :: "'t \<Rightarrow> bytes \<Rightarrow> entry option"
    and tscan :: "'t \<Rightarrow> bytes \<Rightarrow> bytes \<Rightarrow> entry list"
    and tinv :: "'t \<Rightarrow> bool"
  assumes scan_sorted: "tinv t \<Longrightarrow> strictly_sorted (map e_key (tscan t lo hi))"
    and scan_iff: "tinv t \<Longrightarrow> e \<in> set (tscan t lo hi) \<longleftrightarrow> in_range lo hi (e_key e) \<and> tget t (e_key e) = Some e"
    and get_key: "tinv t \<Longrightarrow> tget t k = Some e \<Longrightarrow> e_key e = k \<and> k \<noteq> []"
begin

lemma scan_range: "tinv t \<Longrightarrow> tscan t lo hi = filter (\<lambda>e. in_range lo hi (e_key e)) (tscan t [] [])"
  by (rule entries_eqI)
     (auto simp: scan_sorted scan_iff filter_map [symmetric, unfolded comp_def] strictly_sorted_filter)

lemma get_scan: "tinv t \<Longrightarrow> tget t k = map_of (map (\<lambda>e. (e_key e, e)) (tscan t [] [])) k"
proof (cases "tget t k")
  case (Some e)
  assume inv: "tinv t"
  with Some have "e_key e = k" "e \<in> set (tscan t [] [])" using get_key scan_iff by auto
  moreover have "distinct (map fst (map (\<lambda>e. (e_key e, e)) (tscan t [] [])))"
    using strictly_sorted_distinct [OF scan_sorted [OF inv]] by (simp add: comp_def)
  ultimately show ?thesis using Some by (force intro: map_of_is_SomeI [symmetric])
next
  case None
  assume "tinv t"
  with None have "map_of (map (\<lambda>e. (e_key e, e)) (tscan t [] [])) k = None"
    by (auto simp: scan_iff map_of_eq_None_iff)
  with None show ?thesis by simp
qed

end

end
