(* ===== verification/Memtable.thy ===== *)
theory Memtable
  imports Entries
begin

text \<open>
  The in-memory write buffer (\<open>internal/memtable/memtable.go\<close>): a map from keys to entries beside a
  sorted slice of the keys, with the approximate size in bytes. Its lock makes every operation
  atomic, so each is a function on the state. The defensive copies of the code are implicit: values
  are immutable here.
\<close>

record memtable =
  mt_entries :: "bytes \<rightharpoonup> entry"
  mt_keys :: "bytes list"
  mt_bytes :: u64
  mt_max :: u64

datatype mem_error = MErrEmptyKey

definition mt_default_max :: u64 where "mt_default_max = push_bit 20 64"
definition entry_overhead :: u64 where "entry_overhead = 64"

definition mt_new :: "u64 \<Rightarrow> memtable" where
  "mt_new maxBytes =
     \<lparr>mt_entries = Map.empty, mt_keys = [], mt_bytes = 0,
      mt_max = (if maxBytes = 0 then mt_default_max else maxBytes)\<rparr>"

definition entry_cost :: "entry \<Rightarrow> u64" where
  "entry_cost e = word_of_nat (length (e_key e)) + word_of_nat (length (e_value e)) + entry_overhead"

definition upsert :: "bytes \<Rightarrow> entry \<Rightarrow> memtable \<Rightarrow> memtable" where
  "upsert key e m =
     (let m1 = (case mt_entries m key of
                  Some old \<Rightarrow> m\<lparr>mt_bytes := mt_bytes m - entry_cost old\<rparr>
                | None \<Rightarrow>
                    let i = search_ge key (mt_keys m) in
                    m\<lparr>mt_keys := take i (mt_keys m) @ [key] @ drop i (mt_keys m)\<rparr>)
      in m1\<lparr>mt_bytes := mt_bytes m1 + entry_cost e, mt_entries := (mt_entries m1)(key \<mapsto> e)\<rparr>)"

definition mt_put :: "bytes \<Rightarrow> bytes \<Rightarrow> u64 \<Rightarrow> memtable \<Rightarrow> mem_error option \<times> memtable" where
  "mt_put key val seq m =
     (if length key = 0 then (Some MErrEmptyKey, m)
      else (None, upsert key \<lparr>e_key = key, e_value = val, e_kind = entry_put, e_seq = seq\<rparr> m))"

definition mt_delete :: "bytes \<Rightarrow> u64 \<Rightarrow> memtable \<Rightarrow> mem_error option \<times> memtable" where
  "mt_delete key seq m =
     (if length key = 0 then (Some MErrEmptyKey, m)
      else (None, upsert key \<lparr>e_key = key, e_value = [], e_kind = entry_delete, e_seq = seq\<rparr> m))"

definition mt_get :: "memtable \<Rightarrow> bytes \<Rightarrow> entry option" where
  "mt_get m key = (if length key = 0 then None else mt_entries m key)"

definition zero_entry :: entry where
  "zero_entry = \<lparr>e_key = [], e_value = [], e_kind = 0, e_seq = 0\<rparr>"

definition mt_scan :: "memtable \<Rightarrow> bytes \<Rightarrow> bytes \<Rightarrow> entry list" where
  "mt_scan m start end' =
     (let startIdx = (if start \<noteq> [] then search_ge start (mt_keys m) else 0);
          ks = takeWhile (\<lambda>k. \<not> (end' \<noteq> [] \<and> end' \<le> k)) (drop startIdx (mt_keys m))
      in map (\<lambda>k. case mt_entries m k of Some e \<Rightarrow> e | None \<Rightarrow> zero_entry) ks)"

definition mt_len :: "memtable \<Rightarrow> nat" where "mt_len m = length (mt_keys m)"
definition mt_approx_bytes :: "memtable \<Rightarrow> u64" where "mt_approx_bytes m = mt_bytes m"
definition mt_should_flush :: "memtable \<Rightarrow> bool" where "mt_should_flush m \<longleftrightarrow> mt_max m \<le> mt_bytes m"

section \<open>The invariant\<close>

text \<open>
  The key slice is strictly sorted and holds exactly the mapped keys, every entry carries its own
  non-empty key, and the byte count is the sum of the entries' costs.
\<close>

definition mt_inv :: "memtable \<Rightarrow> bool" where
  "mt_inv m \<longleftrightarrow> strictly_sorted (mt_keys m) \<and> set (mt_keys m) = dom (mt_entries m)
    \<and> (\<forall>k e. mt_entries m k = Some e \<longrightarrow> e_key e = k \<and> k \<noteq> [] \<and> e_kind e \<in> {entry_put, entry_delete})
    \<and> mt_bytes m = (\<Sum>k \<in> set (mt_keys m). entry_cost (the (mt_entries m k)))"

lemma mt_inv_new [simp]: "mt_inv (mt_new n)"
  by (simp add: mt_inv_def mt_new_def)

lemma insert_sorted_keys:
  assumes "strictly_sorted ks" "key \<notin> set ks"
  shows "strictly_sorted (take (search_ge key ks) ks @ [key] @ drop (search_ge key ks) ks)"
    and "set (take (search_ge key ks) ks @ [key] @ drop (search_ge key ks) ks) = insert key (set ks)"
proof -
  let ?i = "search_ge key ks"
  have s: "sorted ks" using assms(1) by (rule strictly_sorted_sorted)
  have "strictly_sorted (take ?i ks @ drop ?i ks)" using assms(1) by simp
  then have "strictly_sorted (take ?i ks)" "strictly_sorted (drop ?i ks)"
    "\<forall>k \<in> set (take ?i ks). \<forall>l \<in> set (drop ?i ks). k < l"
    unfolding strictly_sorted_append by blast+
  moreover have "\<forall>k \<in> set (take ?i ks). k < key"
    unfolding take_search_ge [OF s] by (meson set_takeWhileD)
  moreover have "\<forall>k \<in> set (drop ?i ks). key < k"
    using assms(2) unfolding drop_search_ge [OF s] dropWhile_below_filter [OF s]
    by (auto simp: order_le_less)
  ultimately show "strictly_sorted (take ?i ks @ [key] @ drop ?i ks)"
    by (auto simp: strictly_sorted_append)
  show "set (take ?i ks @ [key] @ drop ?i ks) = insert key (set ks)"
    by (metis append_take_drop_id append.assoc insert_is_Un list.simps(15) set_append sup_left_commute
        append_Cons append_Nil)
qed

lemma upsert_entries [simp]: "mt_entries (upsert key e m) = (mt_entries m)(key \<mapsto> e)"
  by (simp add: upsert_def Let_def split: option.splits)

lemma upsert_max [simp]: "mt_max (upsert key e m) = mt_max m"
  by (simp add: upsert_def Let_def split: option.splits)

lemma upsert_inv:
  assumes "mt_inv m" "e_key e = key" "key \<noteq> []" "e_kind e \<in> {entry_put, entry_delete}"
  shows "mt_inv (upsert key e m)"
proof -
  let ?c = "\<lambda>es k. entry_cost (the (es k))"
  have ks: "strictly_sorted (mt_keys m)" "set (mt_keys m) = dom (mt_entries m)"
    and b: "mt_bytes m = (\<Sum>k \<in> set (mt_keys m). ?c (mt_entries m) k)"
    using assms(1) by (simp_all add: mt_inv_def)
  have rest: "(\<Sum>k \<in> set (mt_keys m) - {key}. ?c ((mt_entries m)(key \<mapsto> e)) k) =
      (\<Sum>k \<in> set (mt_keys m) - {key}. ?c (mt_entries m) k)"
    by (rule sum.cong) auto
  show ?thesis
  proof (cases "mt_entries m key")
    case None
    then have new: "key \<notin> set (mt_keys m)" using ks(2) by auto
    let ?ks = "take (search_ge key (mt_keys m)) (mt_keys m) @ [key] @ drop (search_ge key (mt_keys m)) (mt_keys m)"
    note ins = insert_sorted_keys [OF ks(1) new]
    have "(\<Sum>k \<in> set ?ks. ?c ((mt_entries m)(key \<mapsto> e)) k) = entry_cost e + mt_bytes m"
      unfolding ins(2) using new rest b by (subst sum.insert) simp_all
    moreover have "upsert key e m = m\<lparr>mt_keys := ?ks, mt_bytes := mt_bytes m + entry_cost e,
        mt_entries := (mt_entries m)(key \<mapsto> e)\<rparr>"
      using None by (simp add: upsert_def Let_def)
    ultimately show ?thesis
      using ins assms ks(2) unfolding mt_inv_def by (simp only: memtable.simps) (auto simp: add.commute)
  next
    case (Some old)
    then have "key \<in> set (mt_keys m)" using ks(2) by auto
    then have "mt_bytes m = entry_cost old + (\<Sum>k \<in> set (mt_keys m) - {key}. ?c (mt_entries m) k)"
      "(\<Sum>k \<in> set (mt_keys m). ?c ((mt_entries m)(key \<mapsto> e)) k) =
        entry_cost e + (\<Sum>k \<in> set (mt_keys m) - {key}. ?c ((mt_entries m)(key \<mapsto> e)) k)"
      using b Some by (simp_all add: sum.remove)
    then have sum: "(\<Sum>k \<in> set (mt_keys m). ?c ((mt_entries m)(key \<mapsto> e)) k) =
        mt_bytes m - entry_cost old + entry_cost e"
      using rest by simp
    have "upsert key e m = m\<lparr>mt_bytes := mt_bytes m - entry_cost old + entry_cost e,
        mt_entries := (mt_entries m)(key \<mapsto> e)\<rparr>"
      using Some by (simp add: upsert_def Let_def)
    with Some assms sum ks show ?thesis
      unfolding mt_inv_def by (simp only: memtable.simps) auto
  qed
qed

lemma mt_put_spec:
  "mt_put k v s m = (None, m') \<Longrightarrow> k \<noteq> [] \<and> mt_entries m' = (mt_entries m)(k \<mapsto>
     \<lparr>e_key = k, e_value = v, e_kind = entry_put, e_seq = s\<rparr>) \<and> mt_max m' = mt_max m"
  by (auto simp: mt_put_def split: if_splits)

lemma mt_delete_spec:
  "mt_delete k s m = (None, m') \<Longrightarrow> k \<noteq> [] \<and> mt_entries m' = (mt_entries m)(k \<mapsto>
     \<lparr>e_key = k, e_value = [], e_kind = entry_delete, e_seq = s\<rparr>) \<and> mt_max m' = mt_max m"
  by (auto simp: mt_delete_def split: if_splits)

lemma mt_put_inv: "mt_inv m \<Longrightarrow> mt_inv (snd (mt_put k v s m))"
  by (auto simp: mt_put_def intro!: upsert_inv)

lemma mt_delete_inv: "mt_inv m \<Longrightarrow> mt_inv (snd (mt_delete k s m))"
  by (auto simp: mt_delete_def intro!: upsert_inv)

section \<open>The MemTable is a sorted table\<close>

lemma mt_get_entries: "mt_inv m \<Longrightarrow> mt_get m k = mt_entries m k"
  by (auto simp: mt_get_def mt_inv_def domIff split: if_splits) (metis not_None_eq)

lemma mt_scan_eq:
  "mt_inv m \<Longrightarrow> mt_scan m lo hi = map (\<lambda>k. the (mt_entries m k)) (filter (in_range lo hi) (mt_keys m))"
  unfolding mt_scan_def Let_def mt_inv_def
  by (subst range_scan_filter) (auto simp: strictly_sorted_sorted split: option.splits)

lemma mt_scan_keys:
  "mt_inv m \<Longrightarrow> map e_key (mt_scan m lo hi) = filter (in_range lo hi) (mt_keys m)"
  by (auto simp: mt_scan_eq mt_inv_def comp_def intro!: map_idI)

interpretation mem: sorted_table mt_get mt_scan mt_inv
proof
  fix m lo hi e k
  assume inv: "mt_inv m"
  show "strictly_sorted (map e_key (mt_scan m lo hi))"
    unfolding mt_scan_keys [OF inv] using inv by (auto simp: mt_inv_def strictly_sorted_filter)
  show "e \<in> set (mt_scan m lo hi) \<longleftrightarrow> in_range lo hi (e_key e) \<and> mt_get m (e_key e) = Some e"
  proof
    assume "e \<in> set (mt_scan m lo hi)"
    then obtain k where "k \<in> set (mt_keys m)" "in_range lo hi k" "e = the (mt_entries m k)"
      by (auto simp: mt_scan_eq [OF inv])
    with inv show "in_range lo hi (e_key e) \<and> mt_get m (e_key e) = Some e"
      unfolding mt_get_entries [OF inv] by (auto simp: mt_inv_def)
  next
    assume a: "in_range lo hi (e_key e) \<and> mt_get m (e_key e) = Some e"
    then have g: "mt_entries m (e_key e) = Some e" by (simp add: mt_get_entries [OF inv])
    then have "e_key e \<in> set (mt_keys m)" using inv unfolding mt_inv_def by blast
    with a g show "e \<in> set (mt_scan m lo hi)"
      unfolding mt_scan_eq [OF inv] by (auto intro: image_eqI [where x = "e_key e"])
  qed
  show "mt_get m k = Some e \<Longrightarrow> e_key e = k \<and> k \<noteq> []"
    using inv by (auto simp: mt_get_entries) (auto simp: mt_inv_def)
qed

section \<open>Sequences of writes\<close>

datatype mem_op = MPut bytes bytes u64 | MDelete bytes u64

fun mt_apply :: "mem_op \<Rightarrow> memtable \<Rightarrow> memtable" where
  "mt_apply (MPut k v s) m = snd (mt_put k v s m)"
| "mt_apply (MDelete k s) m = snd (mt_delete k s m)"

definition mt_run :: "mem_op list \<Rightarrow> memtable \<Rightarrow> memtable" where
  "mt_run ops m = fold mt_apply ops m"

text \<open>The specification: a finite map that every operation with a non-empty key updates.\<close>

fun op_entry :: "mem_op \<Rightarrow> entry" where
  "op_entry (MPut k v s) = \<lparr>e_key = k, e_value = v, e_kind = entry_put, e_seq = s\<rparr>"
| "op_entry (MDelete k s) = \<lparr>e_key = k, e_value = [], e_kind = entry_delete, e_seq = s\<rparr>"

definition spec_apply :: "mem_op \<Rightarrow> (bytes \<rightharpoonup> entry) \<Rightarrow> (bytes \<rightharpoonup> entry)" where
  "spec_apply op f = (let e = op_entry op in if e_key e = [] then f else f(e_key e \<mapsto> e))"

lemma mt_apply_entries: "mt_entries (mt_apply op m) = spec_apply op (mt_entries m)"
  by (cases op) (simp_all add: mt_put_def mt_delete_def spec_apply_def Let_def)

lemma mt_apply_inv: "mt_inv m \<Longrightarrow> mt_inv (mt_apply op m)"
  by (cases op) (simp_all add: mt_put_inv mt_delete_inv)

lemma mt_run_inv: "mt_inv m \<Longrightarrow> mt_inv (mt_run ops m)"
  unfolding mt_run_def by (induction ops arbitrary: m) (simp_all add: mt_apply_inv)

lemma mt_run_entries: "mt_entries (mt_run ops m) = fold spec_apply ops (mt_entries m)"
  unfolding mt_run_def by (induction ops arbitrary: m) (simp_all add: mt_apply_entries)

text \<open>The MemTable refines a finite map. After any sequence of \<open>Put\<close> and \<open>Delete\<close> on a new
  MemTable, \<open>Get\<close> answers what the map holds (the last write of the key, a tombstone for a delete),
  \<open>Len\<close> is the number of its keys and \<open>Scan\<close> lists exactly the mapped entries of the range in
  strictly ascending key order.\<close>

theorem memtable_refines_map:
  "mt_get (mt_run ops (mt_new n)) k = fold spec_apply ops Map.empty k
   \<and> mt_len (mt_run ops (mt_new n)) = card (dom (fold spec_apply ops Map.empty))
   \<and> strictly_sorted (map e_key (mt_scan (mt_run ops (mt_new n)) lo hi))
   \<and> set (mt_scan (mt_run ops (mt_new n)) lo hi) =
      {e. in_range lo hi (e_key e) \<and> fold spec_apply ops Map.empty (e_key e) = Some e}"
proof -
  let ?m = "mt_run ops (mt_new n)"
  have inv: "mt_inv ?m" by (simp add: mt_run_inv)
  have e: "mt_entries ?m = fold spec_apply ops Map.empty" by (simp add: mt_run_entries mt_new_def)
  have g: "mt_get ?m k = fold spec_apply ops Map.empty k" for k using mt_get_entries [OF inv] e by simp
  have "distinct (mt_keys ?m)" "set (mt_keys ?m) = dom (mt_entries ?m)"
    using inv strictly_sorted_distinct unfolding mt_inv_def by blast+
  then have "mt_len ?m = card (dom (mt_entries ?m))" by (metis mt_len_def distinct_card)
  then show ?thesis
    using g e mem.scan_sorted [OF inv] mem.scan_iff [OF inv] by auto
qed

text \<open>Size accounting. After any sequence of writes, replacements and tombstones included,
  \<open>ApproxBytes\<close> is the sum over the live keys of key length, value length and the fixed overhead
  (modulo \<open>2^64\<close>), so \<open>ShouldFlush\<close> compares exactly that sum with the threshold.\<close>

theorem memtable_size_accounting:
  "mt_approx_bytes (mt_run ops (mt_new n)) =
     (\<Sum>k \<in> dom (fold spec_apply ops Map.empty). entry_cost (the (fold spec_apply ops Map.empty k)))
   \<and> (mt_should_flush (mt_run ops (mt_new n)) \<longleftrightarrow>
      mt_max (mt_run ops (mt_new n)) \<le> mt_approx_bytes (mt_run ops (mt_new n)))"
proof -
  have inv: "mt_inv (mt_run ops (mt_new n))" by (simp add: mt_run_inv)
  have e: "mt_entries (mt_run ops (mt_new n)) = fold spec_apply ops Map.empty"
    by (simp add: mt_run_entries mt_new_def)
  show ?thesis
    using inv unfolding mt_inv_def e mt_approx_bytes_def mt_should_flush_def by simp
qed

end
