(* ===== verification/Sstable.thy ===== *)
theory Sstable
  imports Entries
begin

text \<open>
  The on-disk sorted table (\<open>internal/sstable/sstable.go\<close>): the file format written by \<open>Create\<close>, the
  checks of \<open>Open\<close>, and \<open>Get\<close> and \<open>Scan\<close> of a reader. A file is its bytes; the temp-file protocol of
  \<open>Create\<close> (write, sync, rename) makes it all or nothing, and its I/O failures are faults of the
  caller in \<open>Engine\<close>.
\<close>

section \<open>Types and constants\<close>

type_synonym path = string

datatype sst_error = SErrClosed | SErrInvalidEntry | SErrCorruptTable | SErrRecordTooLarge
  | SErrUnsortedEntries | SErrDuplicateKey | SErrEmptyTable | SErrAllocPanic

type_synonym sst_entry = entry

record metadata =
  md_path :: path
  md_count :: u64
  md_min :: bytes
  md_max :: bytes
  md_size :: u64

record index_entry =
  ie_key :: bytes
  ie_offset :: u64
  ie_len :: u32

record reader =
  rd_file :: bytes
  rd_index :: "index_entry list"
  rd_meta :: metadata
  rd_max :: u32
  rd_closed :: bool

definition sst_magic :: u64 where "sst_magic = 0x4254424446534853"
definition table_version :: u16 where "table_version = 1"
definition sst_default_max :: u32 where "sst_default_max = push_bit 20 64"

definition sst_eff_max :: "u32 \<Rightarrow> u32" where
  "sst_eff_max m = (if m = 0 then sst_default_max else m)"

section \<open>Writing\<close>

definition encode_body :: "entry \<Rightarrow> bytes" where
  "encode_body e =
     put_u64 (e_seq e) @ [e_kind e] @ put_u32 (len32 (e_key e)) @ put_u32 (len32 (e_value e))
     @ e_key e @ e_value e"

text \<open>The data records and the index records beside them, with the running offset.\<close>

fun write_records :: "u64 \<Rightarrow> entry list \<Rightarrow> bytes \<times> index_entry list \<times> u64" where
  "write_records offset [] = ([], [], offset)"
| "write_records offset (e # es) =
     (let body = encode_body e;
          recLen = len32 body;
          rec = put_u32 recLen @ put_u32 (crc32 body) @ body
      in case write_records (offset + (8 + ucast recLen)) es of
           (bs, idx, offset') \<Rightarrow>
             (rec @ bs, \<lparr>ie_key = e_key e, ie_offset = offset, ie_len = recLen\<rparr> # idx, offset'))"

definition index_bytes :: "index_entry \<Rightarrow> bytes" where
  "index_bytes ie = put_u32 (len32 (ie_key ie)) @ ie_key ie @ put_u64 (ie_offset ie) @ put_u32 (ie_len ie)"

definition write_table :: "path \<Rightarrow> entry list \<Rightarrow> bytes \<times> metadata" where
  "write_table path entries =
     (case write_records 10 entries of
        (recs, idx, indexOffset) \<Rightarrow>
          let hdr = put_u64 sst_magic @ put_u16 table_version;
              index = concat (map index_bytes idx);
              afterIndex = foldl (\<lambda>a ie. a + (16 + word_of_nat (length (ie_key ie)))) indexOffset idx;
              indexLen = afterIndex - indexOffset;
              footerFields = put_u64 indexOffset @ put_u64 indexLen @ put_u64 (word_of_nat (length entries));
              footer = footerFields @ put_u32 (crc32 footerFields) @ put_u64 sst_magic
          in (hdr @ recs @ index @ footer,
              \<lparr>md_path = path, md_count = word_of_nat (length entries),
               md_min = e_key (entries ! 0), md_max = e_key (entries ! (length entries - 1)),
               md_size = afterIndex + 36\<rparr>))"

definition compare_bytes :: "bytes \<Rightarrow> bytes \<Rightarrow> int" where
  "compare_bytes a b = (if a < b then - 1 else if a > b then 1 else 0)"

text \<open>The loop of \<open>validateEntries\<close>; \<open>prev\<close> is the key of the entry before.\<close>

fun validate_entries :: "bytes option \<Rightarrow> entry list \<Rightarrow> u32 \<Rightarrow> sst_error option" where
  "validate_entries prev [] maxRec = None"
| "validate_entries prev (e # es) maxRec =
     (if length (e_key e) = 0 then Some SErrInvalidEntry
      else if e_kind e \<noteq> entry_put \<and> e_kind e \<noteq> entry_delete then Some SErrInvalidEntry
      else if 17 + length (e_key e) + length (e_value e) > unat maxRec then Some SErrRecordTooLarge
      else (case prev of
              None \<Rightarrow> validate_entries (Some (e_key e)) es maxRec
            | Some p \<Rightarrow>
                let cmp = compare_bytes (e_key e) p in
                if cmp = 0 then Some SErrDuplicateKey
                else if cmp < 0 then Some SErrUnsortedEntries
                else validate_entries (Some (e_key e)) es maxRec))"

definition sst_create :: "path \<Rightarrow> entry list \<Rightarrow> u32 \<Rightarrow> sst_error + bytes \<times> metadata" where
  "sst_create path entries maxRec =
     (if path = [] then Inl SErrInvalidEntry
      else if length entries = 0 then Inl SErrEmptyTable
      else
        (case validate_entries None entries (sst_eff_max maxRec) of
           Some e \<Rightarrow> Inl e
         | None \<Rightarrow> Inr (write_table path entries)))"

section \<open>Opening\<close>

text \<open>The loop that decodes the index block; \<open>None\<close> is a truncated entry.\<close>

function decode_index :: "bytes \<Rightarrow> index_entry list option" where
  "decode_index bs =
     (if bs = [] then Some []
      else if length bs < 4 then None
      else
        let kl = unat (get_u32 bs) in
        if 4 + kl + 12 > length bs then None
        else
          let ie = \<lparr>ie_key = slice 4 (4 + kl) bs,
                    ie_offset = get_u64 (slice (4 + kl) (12 + kl) bs),
                    ie_len = get_u32 (slice (12 + kl) (16 + kl) bs)\<rparr>
          in (case decode_index (drop (16 + kl) bs) of None \<Rightarrow> None | Some rest \<Rightarrow> Some (ie # rest)))"
  by pat_completeness auto
termination
  by (relation "measure length") auto

declare decode_index.simps [simp del]

text \<open>The checks on one decoded index entry, the comparison with the entry before included.\<close>

definition index_entry_ok :: "u32 \<Rightarrow> u64 \<Rightarrow> bytes option \<Rightarrow> index_entry \<Rightarrow> bool" where
  "index_entry_ok maxRec indexOffset prev ie \<longleftrightarrow>
     \<not> (ie_offset ie < 10 \<or> ie_offset ie \<ge> indexOffset)
     \<and> \<not> ie_len ie < 17 \<and> \<not> ie_len ie > maxRec
     \<and> (let recordEnd = ie_offset ie + 8 + ucast (ie_len ie) in
         \<not> (recordEnd < ie_offset ie \<or> recordEnd > indexOffset))
     \<and> (case prev of None \<Rightarrow> True | Some p \<Rightarrow> \<not> ie_key ie \<le> p)"

fun index_ok :: "u32 \<Rightarrow> u64 \<Rightarrow> bytes option \<Rightarrow> index_entry list \<Rightarrow> bool" where
  "index_ok maxRec indexOffset prev [] = True"
| "index_ok maxRec indexOffset prev (ie # ies) =
     (index_entry_ok maxRec indexOffset prev ie \<and> index_ok maxRec indexOffset (Some (ie_key ie)) ies)"

text \<open>\<open>Open\<close> allocates the index for the number of entries the footer claims before it compares that number with the
  index: \<open>make([]indexEntry, 0, entryCount)\<close>, 40 bytes each, panics when they exceed the address space of 2^48
  bytes. So what is wrong with the index is \<open>bad_index\<close>: that panic or \<open>ErrCorruptTable\<close>. (A file that really holds
  that many index entries, over 100 TB, is taken to open.)\<close>

definition bad_index :: "u64 \<Rightarrow> sst_error" where
  "bad_index entryCount = (if 40 * unat entryCount > 2 ^ 48 then SErrAllocPanic else SErrCorruptTable)"

definition sst_load :: "path \<Rightarrow> u32 \<Rightarrow> bytes \<Rightarrow> sst_error + reader" where
  "sst_load path maxRec f =
     (if length f < 46 then Inl SErrCorruptTable
      else if get_u64 (slice 0 8 f) \<noteq> sst_magic then Inl SErrCorruptTable
      else if get_u16 (slice 8 10 f) \<noteq> table_version then Inl SErrCorruptTable
      else
        let footer = drop (length f - 36) f in
        if get_u64 (slice 28 36 footer) \<noteq> sst_magic then Inl SErrCorruptTable
        else if get_u32 (slice 24 28 footer) \<noteq> crc32 (slice 0 24 footer) then Inl SErrCorruptTable
        else
          let indexOffset = get_u64 (slice 0 8 footer);
              indexLen = get_u64 (slice 8 16 footer);
              entryCount = get_u64 (slice 16 24 footer);
              dataRegionEnd = word_of_nat (length f) - 36
          in
          if indexOffset < 10 \<or> indexOffset > dataRegionEnd then Inl SErrCorruptTable
          else if indexLen > dataRegionEnd - indexOffset then Inl SErrCorruptTable
          else
            (case decode_index (slice (unat indexOffset) (unat indexOffset + unat indexLen) f) of
               None \<Rightarrow> Inl (bad_index entryCount)
             | Some index \<Rightarrow>
                 if word_of_nat (length index) \<noteq> entryCount then Inl (bad_index entryCount)
                 else if \<not> index_ok maxRec indexOffset None index then Inl (bad_index entryCount)
                 else
                   Inr \<lparr>rd_file = f, rd_index = index,
                        rd_meta = \<lparr>md_path = path, md_count = entryCount,
                          md_min = (if index = [] then [] else ie_key (hd index)),
                          md_max = (if index = [] then [] else ie_key (last index)),
                          md_size = word_of_nat (length f)\<rparr>,
                        rd_max = maxRec, rd_closed = False\<rparr>))"

definition sst_open :: "path \<Rightarrow> u32 \<Rightarrow> bytes \<Rightarrow> sst_error + reader" where
  "sst_open path maxRec f = sst_load path (sst_eff_max maxRec) f"

section \<open>Reading\<close>

definition read_record :: "reader \<Rightarrow> index_entry \<Rightarrow> sst_error + entry" where
  "read_record r ie =
     (let off = unat (ie_offset ie); f = rd_file r in
      if off + 8 > length f then Inl SErrCorruptTable
      else
        let recLen = get_u32 (slice off (off + 4) f); storedCRC = get_u32 (slice (off + 4) (off + 8) f) in
        if recLen < 17 then Inl SErrCorruptTable
        else if recLen > rd_max r then Inl SErrCorruptTable
        else if recLen \<noteq> ie_len ie then Inl SErrCorruptTable
        else if off + 8 + unat recLen > length f then Inl SErrCorruptTable
        else
          let body = slice (off + 8) (off + 8 + unat recLen) f in
          if crc32 body \<noteq> storedCRC then Inl SErrCorruptTable
          else
            let seq = get_u64 (slice 0 8 body);
                kind = body ! 8;
                keyLen = unat (get_u32 (slice 9 13 body));
                valueLen = unat (get_u32 (slice 13 17 body))
            in
            if kind \<noteq> entry_put \<and> kind \<noteq> entry_delete then Inl SErrCorruptTable
            else if keyLen + valueLen > unat recLen - 17 then Inl SErrCorruptTable
            else
              let key = slice 17 (17 + keyLen) body;
                  val = slice (17 + keyLen) (17 + keyLen + valueLen) body
              in if key \<noteq> ie_key ie then Inl SErrCorruptTable
                 else Inr \<lparr>e_key = key, e_value = val, e_kind = kind, e_seq = seq\<rparr>)"

definition reader_get :: "reader \<Rightarrow> bytes \<Rightarrow> sst_error + entry option" where
  "reader_get r key =
     (if length key = 0 then Inr None
      else if rd_closed r then Inl SErrClosed
      else
        let idx = search_ge key (map ie_key (rd_index r)) in
        if idx \<ge> length (rd_index r) \<or> ie_key (rd_index r ! idx) \<noteq> key then Inr None
        else (case read_record r (rd_index r ! idx) of Inl e \<Rightarrow> Inl e | Inr e \<Rightarrow> Inr (Some e)))"

text \<open>The loop of \<open>Scan\<close> over the index entries from the start position on.\<close>

fun scan_index :: "reader \<Rightarrow> bytes \<Rightarrow> index_entry list \<Rightarrow> sst_error + entry list" where
  "scan_index r end' [] = Inr []"
| "scan_index r end' (ie # ies) =
     (if end' \<noteq> [] \<and> ie_key ie \<ge> end' then Inr []
      else (case read_record r ie of
              Inl err \<Rightarrow> Inl err
            | Inr e \<Rightarrow> (case scan_index r end' ies of Inl err \<Rightarrow> Inl err | Inr es \<Rightarrow> Inr (e # es))))"

definition reader_scan :: "reader \<Rightarrow> bytes \<Rightarrow> bytes \<Rightarrow> sst_error + entry list" where
  "reader_scan r start end' =
     (if rd_closed r then Inl SErrClosed
      else
        let startIdx = (if start \<noteq> [] then search_ge start (map ie_key (rd_index r)) else 0)
        in scan_index r end' (drop startIdx (rd_index r)))"

definition reader_len :: "reader \<Rightarrow> u64" where "reader_len r = md_count (rd_meta r)"
definition reader_metadata :: "reader \<Rightarrow> metadata" where "reader_metadata r = rd_meta r"

definition reader_close :: "reader \<Rightarrow> sst_error option \<times> reader" where
  "reader_close r = (if rd_closed r then (Some SErrClosed, r) else (None, r\<lparr>rd_closed := True\<rparr>))"

section \<open>The written file\<close>

definition enc_rec :: "entry \<Rightarrow> bytes" where
  "enc_rec e = put_u32 (len32 (encode_body e)) @ put_u32 (crc32 (encode_body e)) @ encode_body e"

text \<open>An entry that \<open>Create\<close> accepts.\<close>

definition entry_fits :: "u32 \<Rightarrow> entry \<Rightarrow> bool" where
  "entry_fits m e \<longleftrightarrow> e_key e \<noteq> [] \<and> e_kind e \<in> {entry_put, entry_delete}
     \<and> 17 + length (e_key e) + length (e_value e) \<le> unat m"

fun index_of :: "nat \<Rightarrow> entry list \<Rightarrow> index_entry list" where
  "index_of n [] = []"
| "index_of n (e # es) =
     \<lparr>ie_key = e_key e, ie_offset = word_of_nat n, ie_len = len32 (encode_body e)\<rparr>
     # index_of (n + length (enc_rec e)) es"

lemma length_encode_body [simp]: "length (encode_body e) = 17 + length (e_key e) + length (e_value e)"
  by (simp add: encode_body_def)

lemma length_enc_rec [simp]: "length (enc_rec e) = 25 + length (e_key e) + length (e_value e)"
  by (simp add: enc_rec_def)

lemma u32_less: "unat (m :: u32) < 2 ^ 32"
proof -
  have "unat m < 2 ^ LENGTH(32)" by (rule unsigned_less)
  then show ?thesis by simp
qed

lemma entry_fits_lens:
  assumes "entry_fits m e"
  shows "unat (len32 (e_key e)) = length (e_key e)" "unat (len32 (e_value e)) = length (e_value e)"
    "unat (len32 (encode_body e)) = length (encode_body e)"
  using assms u32_less [of m] by (simp_all add: entry_fits_def unat_len32)

lemma map_key_index_of [simp]: "map ie_key (index_of n es) = map e_key es"
  by (induction es arbitrary: n) auto

lemma length_index_of [simp]: "length (index_of n es) = length es"
  by (induction es arbitrary: n) auto

lemma index_of_Nil_iff [simp]: "index_of n es = [] \<longleftrightarrow> es = []"
  by (cases es) auto

lemma validate_entries_None:
  "validate_entries prev es m = None \<longleftrightarrow> (\<forall>e \<in> set es. entry_fits m e)
     \<and> strictly_sorted ((case prev of None \<Rightarrow> [] | Some p \<Rightarrow> [p]) @ map e_key es)"
proof (induction es arbitrary: prev)
  case Nil
  then show ?case by (cases prev) auto
next
  case (Cons e es)
  show ?case
  proof (cases prev)
    case None
    then show ?thesis by (auto simp: Cons entry_fits_def not_less)
  next
    case (Some p)
    then show ?thesis
      by (auto simp: Cons entry_fits_def not_less compare_bytes_def Let_def dest: less_trans)
  qed
qed

lemma ucast_len32: "length xs < 2 ^ 32 \<Longrightarrow> (ucast (len32 xs) :: u64) = word_of_nat (length xs)"
  by (metis of_nat_unat unat_len32)

lemma write_records_eq:
  assumes "\<forall>e \<in> set es. entry_fits m e"
  shows "write_records (word_of_nat n) es = (concat (map enc_rec es), index_of n es,
    word_of_nat (n + length (concat (map enc_rec es))))"
  using assms
proof (induction es arbitrary: n)
  case Nil
  then show ?case by simp
next
  case (Cons e es)
  have fit: "entry_fits m e" using Cons.prems by simp
  then have "length (encode_body e) < 2 ^ 32" using u32_less [of m] by (simp add: entry_fits_def)
  then have "(word_of_nat n :: u64) + (8 + ucast (len32 (encode_body e))) = word_of_nat (n + length (enc_rec e))"
    by (simp only: ucast_len32) (simp add: enc_rec_def)
  moreover have "write_records (word_of_nat (n + length (enc_rec e))) es = (concat (map enc_rec es),
      index_of (n + length (enc_rec e)) es, word_of_nat (n + length (enc_rec e) + length (concat (map enc_rec es))))"
    using Cons.prems by (intro Cons.IH) simp
  ultimately show ?case by (simp add: Let_def enc_rec_def [of e] add.assoc)
qed

section \<open>Reading one record back\<close>

lemma encode_body_fields:
  "slice 0 8 (encode_body e) = put_u64 (e_seq e)" "encode_body e ! 8 = e_kind e"
  "slice 9 13 (encode_body e) = put_u32 (len32 (e_key e))"
  "slice 13 17 (encode_body e) = put_u32 (len32 (e_value e))"
  "slice 17 (17 + length (e_key e)) (encode_body e) = e_key e"
  "slice (17 + length (e_key e)) (17 + length (e_key e) + length (e_value e)) (encode_body e) = e_value e"
proof -
  let ?h = "put_u64 (e_seq e) @ [e_kind e] @ put_u32 (len32 (e_key e)) @ put_u32 (len32 (e_value e))"
  have b: "encode_body e = ?h @ e_key e @ e_value e" by (simp add: encode_body_def)
  show "slice 17 (17 + length (e_key e)) (encode_body e) = e_key e"
    unfolding b by (rule slice_middle) simp_all
  have "slice (17 + length (e_key e)) (17 + length (e_key e) + length (e_value e)) ((?h @ e_key e) @ e_value e @ [])
      = e_value e"
    by (rule slice_middle) simp_all
  then show "slice (17 + length (e_key e)) (17 + length (e_key e) + length (e_value e)) (encode_body e) = e_value e"
    unfolding b by simp
qed (simp_all add: encode_body_def slice_def nth_append)

lemma read_record_enc:
  assumes "rd_file r = pre @ enc_rec e @ post" "length pre < 2 ^ 64" "entry_fits (rd_max r) e"
  shows "read_record r \<lparr>ie_key = e_key e, ie_offset = word_of_nat (length pre), ie_len = len32 (encode_body e)\<rparr> = Inr e"
proof -
  let ?b = "encode_body e"
  let ?o = "length pre"
  define L where "L = len32 ?b"
  have uL: "unat L = 17 + length (e_key e) + length (e_value e)"
    using entry_fits_lens(3) [OF assms(3)] by (simp add: L_def)
  have off: "unat (word_of_nat ?o :: u64) = ?o"
    using assms(2) by (simp add: unat_of_nat take_bit_nat_eq_self)
  have f: "rd_file r = pre @ put_u32 L @ put_u32 (crc32 ?b) @ ?b @ post"
    by (simp add: assms(1) enc_rec_def L_def)
  have s: "slice ?o (?o + 4) (rd_file r) = put_u32 L"
    "slice (?o + 4) (?o + 8) (rd_file r) = put_u32 (crc32 ?b)"
    "slice (?o + 8) (?o + 8 + unat L) (rd_file r) = ?b"
    unfolding f uL by (simp_all add: slice_def)
  have l: "\<not> ?o + 8 > length (rd_file r)" "\<not> ?o + 8 + unat L > length (rd_file r)"
    "\<not> length (e_key e) + length (e_value e) > unat L - 17"
    using uL by (simp_all add: f)
  have c: "\<not> L < 17" "\<not> L > rd_max r"
    using assms(3) uL by (simp_all add: entry_fits_def word_less_nat_alt)
  have k: "\<not> (e_kind e \<noteq> entry_put \<and> e_kind e \<noteq> entry_delete)"
    using assms(3) by (auto simp: entry_fits_def)
  show ?thesis
    unfolding read_record_def Let_def index_entry.simps off L_def [symmetric]
    using l c k by (simp add: s encode_body_fields entry_fits_lens(1,2) [OF assms(3)])
qed

text \<open>Corruption is detected: with one body byte replaced, no read of the record succeeds.\<close>

lemma read_record_corrupt:
  assumes "enc_rec e = take 8 (enc_rec e) @ xs @ a # ys" "b \<noteq> a" "entry_fits (rd_max r) e"
    and "rd_file r = pre @ (take 8 (enc_rec e) @ xs @ b # ys) @ post" "ie_offset ie = word_of_nat (length pre)"
    and "length pre < 2 ^ 64"
  shows "read_record r ie = Inl SErrCorruptTable"
proof -
  let ?b = "encode_body e"
  let ?o = "length pre"
  define L where "L = len32 ?b"
  have uL: "unat L = 17 + length (e_key e) + length (e_value e)"
    using entry_fits_lens(3) [OF assms(3)] by (simp add: L_def)
  have off: "unat (word_of_nat ?o :: u64) = ?o"
    using assms(6) by (simp add: unat_of_nat take_bit_nat_eq_self)
  have t8: "take 8 (enc_rec e) = put_u32 L @ put_u32 (crc32 ?b)" by (simp add: enc_rec_def L_def)
  with assms(1) have body: "?b = xs @ a # ys" by (simp add: enc_rec_def L_def)
  then have len: "length (xs @ b # ys) = unat L"
    using uL length_encode_body [of e] by (metis length_append length_Cons)
  have f: "rd_file r = (pre @ put_u32 L @ put_u32 (crc32 ?b)) @ (xs @ b # ys) @ post"
    by (simp add: assms(4) t8)
  have s3: "slice (?o + 8) (?o + 8 + unat L) (rd_file r) = xs @ b # ys"
    unfolding f by (rule slice_middle) (use len in simp_all)
  have s: "slice ?o (?o + 4) (rd_file r) = put_u32 L"
    "slice (?o + 4) (?o + 8) (rd_file r) = put_u32 (crc32 ?b)"
    unfolding f by (simp_all add: slice_def)
  have "crc32 (xs @ b # ys) \<noteq> crc32 ?b" using body crc32_single_byte assms(2) by metis
  then show ?thesis
    unfolding read_record_def Let_def off assms(5) s get_put s3 by simp
qed

section \<open>The index read back\<close>

lemma length_index_bytes [simp]: "length (index_bytes ie) = 16 + length (ie_key ie)"
  by (simp add: index_bytes_def)

lemma decode_index_append:
  assumes "length (ie_key ie) < 2 ^ 32"
  shows "decode_index (index_bytes ie @ bs) = (case decode_index bs of None \<Rightarrow> None | Some rest \<Rightarrow> Some (ie # rest))"
proof -
  let ?k = "length (ie_key ie)"
  let ?b = "index_bytes ie @ bs"
  have b: "?b = put_u32 (len32 (ie_key ie)) @ ie_key ie @ put_u64 (ie_offset ie) @ put_u32 (ie_len ie) @ bs"
    by (simp add: index_bytes_def)
  have kl: "unat (get_u32 ?b) = ?k"
    unfolding b using assms by (simp add: unat_len32)
  have s1: "slice 4 (4 + ?k) ?b = ie_key ie"
    unfolding b by (rule slice_middle) simp_all
  have s2: "slice (4 + ?k) (12 + ?k) ?b = put_u64 (ie_offset ie)"
    unfolding b by (subst append_assoc [symmetric], rule slice_middle) simp_all
  have s3: "slice (12 + ?k) (16 + ?k) ?b = put_u32 (ie_len ie)"
    unfolding b by (subst append_assoc [symmetric], subst append_assoc [symmetric], rule slice_middle) simp_all
  have d: "drop (16 + ?k) ?b = bs" by simp
  have ie: "\<lparr>ie_key = ie_key ie, ie_offset = ie_offset ie, ie_len = ie_len ie\<rparr> = ie" by simp
  have "length ?b > 0" by simp
  then have l: "?b \<noteq> []" "\<not> length ?b < 4" "\<not> 4 + ?k + 12 > length ?b"
    by (blast, simp_all)
  show ?thesis
    by (subst decode_index.simps) (simp only: Let_def kl s1 s2 s3 d l get_put if_False simp_thms ie)
qed

lemma decode_index_all:
  "\<forall>ie \<in> set idx. length (ie_key ie) < 2 ^ 32 \<Longrightarrow> decode_index (concat (map index_bytes idx)) = Some idx"
proof (induction idx)
  case Nil
  then show ?case by (simp add: decode_index.simps)
qed (simp add: decode_index_append)

section \<open>The layout of a written table\<close>

definition table_index :: "entry list \<Rightarrow> bytes" where
  "table_index es = concat (map index_bytes (index_of 10 es))"

definition index_start :: "entry list \<Rightarrow> nat" where
  "index_start es = 10 + length (concat (map enc_rec es))"

definition table_fields :: "entry list \<Rightarrow> bytes" where
  "table_fields es = put_u64 (word_of_nat (index_start es)) @ put_u64 (word_of_nat (length (table_index es)))
     @ put_u64 (word_of_nat (length es))"

definition table_bytes :: "entry list \<Rightarrow> bytes" where
  "table_bytes es = (put_u64 sst_magic @ put_u16 table_version) @ concat (map enc_rec es) @ table_index es
     @ table_fields es @ put_u32 (crc32 (table_fields es)) @ put_u64 sst_magic"

definition table_meta :: "path \<Rightarrow> entry list \<Rightarrow> metadata" where
  "table_meta p es = \<lparr>md_path = p, md_count = word_of_nat (length es), md_min = e_key (hd es),
     md_max = e_key (last es), md_size = word_of_nat (length (table_bytes es))\<rparr>"

lemma foldl_index:
  "foldl (\<lambda>a ie. a + (16 + word_of_nat (length (ie_key ie)))) a idx
     = (a + word_of_nat (length (concat (map index_bytes idx))) :: u64)"
  by (induction idx arbitrary: a) (simp_all add: algebra_simps)

lemma write_table_eq:
  assumes "\<forall>e \<in> set es. entry_fits m e" "es \<noteq> []"
  shows "write_table p es = (table_bytes es, table_meta p es)"
proof -
  have w: "write_records 10 es = (concat (map enc_rec es), index_of 10 es, word_of_nat (index_start es))"
    using write_records_eq [OF assms(1), of 10] by (simp add: index_start_def)
  have hl: "e_key (es ! 0) = e_key (hd es)" "e_key (es ! (length es - 1)) = e_key (last es)"
    using assms(2) by (simp_all add: hd_conv_nth last_conv_nth)
  have len: "length (table_bytes es) = index_start es + length (table_index es) + 36"
    by (simp add: table_bytes_def table_fields_def index_start_def)
  show ?thesis
    unfolding write_table_def w prod.case Let_def foldl_index hl table_index_def [symmetric]
    by (simp add: table_meta_def len) (simp add: table_bytes_def table_fields_def)
qed

lemma sst_create_Inr:
  "sst_create p es m = Inr (bs, md) \<longleftrightarrow>
     p \<noteq> [] \<and> es \<noteq> [] \<and> (\<forall>e \<in> set es. entry_fits (sst_eff_max m) e) \<and> strictly_sorted (map e_key es)
     \<and> bs = table_bytes es \<and> md = table_meta p es"
  using validate_entries_None [of None es "sst_eff_max m"]
  by (cases "validate_entries None es (sst_eff_max m)") (auto simp: sst_create_def write_table_eq)

lemma unat_word_of_nat64: "n < 2 ^ 64 \<Longrightarrow> unat (word_of_nat n :: u64) = n"
  by (simp add: unat_of_nat take_bit_nat_eq_self)

lemma index_entry_ok_enc:
  assumes "entry_fits m e" "10 \<le> n" "n + length (enc_rec e) \<le> io" "io < 2 ^ 64"
    and "\<And>p. prev = Some p \<Longrightarrow> p < e_key e"
  shows "index_entry_ok m (word_of_nat io) prev
    \<lparr>ie_key = e_key e, ie_offset = word_of_nat n, ie_len = len32 (encode_body e)\<rparr>"
proof -
  let ?l = "len32 (encode_body e)"
  have ul: "unat ?l = 17 + length (e_key e) + length (e_value e)"
    using entry_fits_lens(3) [OF assms(1)] by simp
  have c: "\<not> ?l < 17" "\<not> ?l > m"
    using assms(1) ul by (simp_all add: entry_fits_def word_less_nat_alt)
  have "length (encode_body e) < 2 ^ 32" using assms(1) u32_less [of m] by (simp add: entry_fits_def)
  then have re: "(word_of_nat n :: u64) + 8 + ucast ?l = word_of_nat (n + length (enc_rec e))"
    by (simp only: ucast_len32) simp
  have u: "unat (word_of_nat n :: u64) = n" "unat (word_of_nat io :: u64) = io"
    "unat (word_of_nat (n + length (enc_rec e)) :: u64) = n + length (enc_rec e)"
    using assms(3,4) by (simp_all only: unat_word_of_nat64)
  have o: "\<not> (word_of_nat n :: u64) < 10" "\<not> (word_of_nat n :: u64) \<ge> word_of_nat io"
    using assms(2,3) unfolding word_less_nat_alt word_le_nat_alt u by simp_all
  have r: "\<not> (word_of_nat (n + length (enc_rec e)) :: u64) < word_of_nat n"
    "\<not> (word_of_nat (n + length (enc_rec e)) :: u64) > word_of_nat io"
    using assms(3) unfolding word_less_nat_alt u by simp_all
  show ?thesis
    unfolding index_entry_ok_def index_entry.simps Let_def re using c o r assms(5)
    by (auto simp: not_le split: option.splits)
qed

lemma index_ok_index_of:
  assumes "\<forall>e \<in> set es. entry_fits m e" "10 \<le> n" "n + length (concat (map enc_rec es)) = io" "io < 2 ^ 64"
    and "strictly_sorted ((case prev of None \<Rightarrow> [] | Some p \<Rightarrow> [p]) @ map e_key es)"
  shows "index_ok m (word_of_nat io) prev (index_of n es)"
  using assms
proof (induction es arbitrary: n prev)
  case (Cons e es)
  have "index_entry_ok m (word_of_nat io) prev
      \<lparr>ie_key = e_key e, ie_offset = word_of_nat n, ie_len = len32 (encode_body e)\<rparr>"
    using Cons.prems by (intro index_entry_ok_enc) auto
  moreover have "index_ok m (word_of_nat io) (Some (e_key e)) (index_of (n + length (enc_rec e)) es)"
    using Cons.prems by (intro Cons.IH) (auto split: option.splits)
  ultimately show ?case by simp
qed simp

lemma index_of_nth:
  "i < length es \<Longrightarrow> index_of n es ! i = \<lparr>ie_key = e_key (es ! i),
     ie_offset = word_of_nat (n + length (concat (map enc_rec (take i es)))), ie_len = len32 (encode_body (es ! i))\<rparr>"
proof (induction es arbitrary: n i)
  case (Cons e es)
  then show ?case by (cases i) (simp_all add: add.assoc del: of_nat_add)
qed simp

lemma table_bytes_nth:
  assumes "i < length es"
  obtains pre post where "table_bytes es = pre @ enc_rec (es ! i) @ post"
    "length pre = 10 + length (concat (map enc_rec (take i es)))"
proof -
  have "concat (map enc_rec es) = concat (map enc_rec (take i es)) @ enc_rec (es ! i) @ concat (map enc_rec (drop (Suc i) es))"
    using id_take_nth_drop [OF assms] by (metis concat.simps(2) concat_append list.simps(9) map_append)
  then show thesis
    by (intro that [of "(put_u64 sst_magic @ put_u16 table_version) @ concat (map enc_rec (take i es))"])
       (simp_all add: table_bytes_def)
qed

section \<open>A reader and the entries it holds\<close>

definition reader_ok :: "reader \<Rightarrow> entry list \<Rightarrow> bool" where
  "reader_ok r es \<longleftrightarrow> \<not> rd_closed r \<and> map ie_key (rd_index r) = map e_key es \<and> strictly_sorted (map e_key es)
     \<and> (\<forall>e \<in> set es. e_key e \<noteq> [] \<and> e_kind e \<in> {entry_put, entry_delete})
     \<and> (\<forall>i < length es. read_record r (rd_index r ! i) = Inr (es ! i))"

definition table_reader :: "path \<Rightarrow> u32 \<Rightarrow> entry list \<Rightarrow> reader" where
  "table_reader p m es = \<lparr>rd_file = table_bytes es, rd_index = index_of 10 es, rd_meta = table_meta p es,
     rd_max = m, rd_closed = False\<rparr>"

lemma length_table_bytes:
  "length (table_bytes es) = index_start es + length (table_index es) + 36"
  "index_start es = 10 + length (concat (map enc_rec es))"
  by (simp_all add: table_bytes_def table_fields_def index_start_def)

lemma map_key_hd_last: "es \<noteq> [] \<Longrightarrow> ie_key (hd (index_of n es)) = e_key (hd es)"
  "es \<noteq> [] \<Longrightarrow> ie_key (last (index_of n es)) = e_key (last es)"
  by (metis index_of_Nil_iff list.map_sel(1) map_key_index_of, metis index_of_Nil_iff last_map map_key_index_of)

text \<open>\<open>Open\<close> does not read the data records: whatever bytes stand there, it succeeds.\<close>

definition with_data :: "bytes \<Rightarrow> entry list \<Rightarrow> bytes" where
  "with_data D es = (put_u64 sst_magic @ put_u16 table_version) @ D @ table_index es
     @ table_fields es @ put_u32 (crc32 (table_fields es)) @ put_u64 sst_magic"

lemma table_bytes_with_data: "table_bytes es = with_data (concat (map enc_rec es)) es"
  by (simp add: table_bytes_def with_data_def)

lemma sst_load_with_data:
  assumes "\<forall>e \<in> set es. entry_fits m e" "es \<noteq> []" "strictly_sorted (map e_key es)"
    and "length (table_bytes es) < 2 ^ 64" "length D = length (concat (map enc_rec es))"
  shows "sst_load p m (with_data D es) = Inr ((table_reader p m es)\<lparr>rd_file := with_data D es\<rparr>)"
proof -
  let ?f = "with_data D es"
  let ?F = "table_fields es @ put_u32 (crc32 (table_fields es)) @ put_u64 sst_magic"
  let ?H = "put_u64 sst_magic @ put_u16 table_version"
  have f: "?f = (?H @ D @ table_index es) @ ?F" by (simp add: with_data_def)
  have lf: "length ?f = length (table_bytes es)" by (simp add: with_data_def table_bytes_def assms(5))
  have lT: "length (table_fields es) = 24" by (simp add: table_fields_def)
  have foot: "drop (length ?f - 36) ?f = ?F"
    by (simp add: f lT)
  have h: "slice 0 8 ?f = put_u64 sst_magic" "slice 8 10 ?f = put_u16 table_version"
    by (simp_all add: with_data_def slice_def)
  have g: "slice 28 36 ?F = put_u64 sst_magic" "slice 24 28 ?F = put_u32 (crc32 (table_fields es))"
    "slice 0 24 ?F = table_fields es" "slice 0 8 ?F = put_u64 (word_of_nat (index_start es))"
    "slice 8 16 ?F = put_u64 (word_of_nat (length (table_index es)))"
    "slice 16 24 ?F = put_u64 (word_of_nat (length es))"
    by (simp_all add: slice_def table_fields_def)
  have u: "unat (word_of_nat (index_start es) :: u64) = index_start es"
    "unat (word_of_nat (length (table_index es)) :: u64) = length (table_index es)"
    "unat (word_of_nat (index_start es + length (table_index es)) :: u64) = index_start es + length (table_index es)"
    using assms(4) by (simp_all only: length_table_bytes unat_word_of_nat64)
  have e: "(word_of_nat (length ?f) :: u64) - 36 = word_of_nat (index_start es + length (table_index es))"
    by (simp add: lf length_table_bytes(1))
  have io: "\<not> ((word_of_nat (index_start es) :: u64) < 10
      \<or> word_of_nat (index_start es) > (word_of_nat (index_start es + length (table_index es)) :: u64))"
    unfolding word_less_nat_alt u by (simp add: length_table_bytes(2))
  have il: "(word_of_nat (index_start es + length (table_index es)) :: u64) - word_of_nat (index_start es)
      = word_of_nat (length (table_index es))" by simp
  have "slice (index_start es) (index_start es + length (table_index es)) ((?H @ D) @ table_index es @ ?F) = table_index es"
    by (rule slice_middle) (simp_all add: length_table_bytes(2) assms(5))
  then have si: "slice (index_start es) (index_start es + length (table_index es)) ?f = table_index es"
    by (simp add: f)
  have "\<forall>k \<in> set (map ie_key (index_of 10 es)). length k < 2 ^ 32"
    unfolding map_key_index_of using assms(1) u32_less [of m] by (auto simp: entry_fits_def)
  then have "\<forall>ie \<in> set (index_of 10 es). length (ie_key ie) < 2 ^ 32"
    unfolding set_map by blast
  then have di: "decode_index (table_index es) = Some (index_of 10 es)"
    unfolding table_index_def by (rule decode_index_all)
  have ok: "index_ok m (word_of_nat (index_start es)) None (index_of 10 es)"
    using assms by (intro index_ok_index_of) (simp_all add: length_table_bytes)
  have l46: "\<not> length ?f < 46" by (simp add: lf length_table_bytes)
  show ?thesis
    unfolding sst_load_def Let_def foot h g get_put e u si di option.case
    using io ok l46 assms(2) by (simp add: il table_reader_def table_meta_def map_key_hd_last lf)
qed

lemma sst_load_table_bytes:
  assumes "\<forall>e \<in> set es. entry_fits m e" "es \<noteq> []" "strictly_sorted (map e_key es)"
    and "length (table_bytes es) < 2 ^ 64"
  shows "sst_load p m (table_bytes es) = Inr (table_reader p m es)"
  using sst_load_with_data [OF assms, of "concat (map enc_rec es)" p]
  by (simp add: table_bytes_with_data table_reader_def)

lemma reader_ok_table:
  assumes "\<forall>e \<in> set es. entry_fits m e" "strictly_sorted (map e_key es)" "length (table_bytes es) < 2 ^ 64"
  shows "reader_ok (table_reader p m es) es"
proof -
  let ?r = "table_reader p m es"
  have "read_record ?r (rd_index ?r ! i) = Inr (es ! i)" if i: "i < length es" for i
  proof -
    obtain pre post where f: "table_bytes es = pre @ enc_rec (es ! i) @ post"
      and l: "length pre = 10 + length (concat (map enc_rec (take i es)))"
      using table_bytes_nth [OF i] by blast
    have "length pre < 2 ^ 64" using assms(3) f by simp
    then show ?thesis
      using read_record_enc [of ?r pre "es ! i" post] f l assms(1) i
      by (simp add: table_reader_def index_of_nth del: of_nat_add)
  qed
  then show ?thesis
    using assms by (auto simp: reader_ok_def table_reader_def entry_fits_def)
qed

lemma sst_create_open:
  assumes "sst_create p es m = Inr (bs, md)" "length bs < 2 ^ 64"
  shows "sst_open q m bs = Inr (table_reader q (sst_eff_max m) es)"
    and "reader_ok (table_reader q (sst_eff_max m) es) es"
  using assms by (simp_all add: sst_create_Inr sst_open_def sst_load_table_bytes reader_ok_table)

lemma reader_ok_sorted: "reader_ok r es \<Longrightarrow> sorted (map ie_key (rd_index r))"
  by (simp add: reader_ok_def strictly_sorted_sorted)

lemma reader_ok_lengths: "reader_ok r es \<Longrightarrow> length (rd_index r) = length es"
  by (metis reader_ok_def length_map)

lemma search_ge_nth:
  assumes "strictly_sorted ks" "j < length ks"
  shows "search_ge (ks ! j) ks = j"
proof (rule search_ge_eqI)
  have lt: "ks ! a < ks ! b" if "a < b" "b < length ks" for a b
    using assms(1) that sorted_wrt_nth_less unfolding strictly_sorted_def by blast
  show "ks ! k < ks ! j" if "k < j" for k using lt that assms(2) by blast
  show "ks ! j \<le> ks ! k" if "j \<le> k" "k < length ks" for k
    using lt [of j k] that by (cases "j = k") auto
qed (use assms strictly_sorted_sorted in auto)

lemma find_key_nth:
  assumes "strictly_sorted (map e_key es)" "i < length es"
  shows "find (\<lambda>e. e_key e = e_key (es ! i)) es = Some (es ! i)"
proof -
  have "map e_key es ! j \<noteq> map e_key es ! i" if "j < i" for j
    using strictly_sorted_distinct [OF assms(1)] that assms(2) by (simp add: nth_eq_iff_index_eq del: nth_map)
  then have "e_key (es ! j) \<noteq> e_key (es ! i)" if "j < i" for j
    using assms(2) that by (simp del: nth_map add: nth_map [symmetric])
  then show ?thesis using assms(2) by (auto simp: find_Some_iff)
qed

lemma reader_get_at:
  assumes "\<not> rd_closed r" "map ie_key (rd_index r) = map e_key es" "strictly_sorted (map e_key es)"
    and "j < length es" "e_key (es ! j) \<noteq> []"
  shows "reader_get r (e_key (es ! j))
    = (case read_record r (rd_index r ! j) of Inl e \<Rightarrow> Inl e | Inr e \<Rightarrow> Inr (Some e))"
proof -
  have i: "search_ge (e_key (es ! j)) (map e_key es) = j"
    using search_ge_nth [OF assms(3), of j] assms(4) by simp
  have l: "length (rd_index r) = length es" using assms(2) by (metis length_map)
  have "map ie_key (rd_index r) ! j = map e_key es ! j" using assms(2) by simp
  then have "ie_key (rd_index r ! j) = e_key (es ! j)" using l assms(4) by simp
  then show ?thesis using assms l by (simp add: reader_get_def i Let_def)
qed

lemma reader_get_absent:
  assumes "\<not> rd_closed r" "map ie_key (rd_index r) = ks" "k \<notin> set ks"
  shows "reader_get r k = Inr None"
proof -
  have "ie_key (rd_index r ! i) \<noteq> k" if "i < length (rd_index r)" for i
    using assms(2,3) that nth_mem [of i "rd_index r"] by auto
  then show ?thesis using assms(1) by (auto simp: reader_get_def Let_def not_le)
qed

lemma reader_get_eq:
  assumes "reader_ok r es"
  shows "reader_get r k = Inr (find (\<lambda>e. e_key e = k) es)"
proof (cases "k \<in> set (map e_key es)")
  case True
  then obtain j where j: "j < length es" "k = e_key (es ! j)" by (auto simp: in_set_conv_nth)
  then show ?thesis
    using assms reader_get_at [of r es j] find_key_nth [of es j] by (auto simp: reader_ok_def)
next
  case False
  then have "find (\<lambda>e. e_key e = k) es = None" by (auto simp: find_None_iff)
  with False show ?thesis using assms reader_get_absent [of r _ k] by (simp add: reader_ok_def)
qed

lemma scan_index_eq:
  assumes "length ies = length es" "\<forall>i < length es. read_record r (ies ! i) = Inr (es ! i)"
    and "map ie_key ies = map e_key es"
  shows "scan_index r hi ies = Inr (takeWhile (\<lambda>e. \<not> (hi \<noteq> [] \<and> hi \<le> e_key e)) es)"
  using assms
proof (induction ies es rule: list_induct2)
  case (Cons ie ies e es)
  have "read_record r ie = Inr e" using Cons.prems(1) by auto
  moreover have "\<forall>i < length es. read_record r (ies ! i) = Inr (es ! i)" using Cons.prems(1) by auto
  ultimately show ?case using Cons by auto
qed simp

lemma range_scan_entries:
  assumes "strictly_sorted (map e_key es)"
  shows "takeWhile (\<lambda>e. \<not> (hi \<noteq> [] \<and> hi \<le> e_key e)) (drop (if lo \<noteq> [] then search_ge lo (map e_key es) else 0) es)
    = filter (\<lambda>e. in_range lo hi (e_key e)) es" (is "?a = ?b")
proof (rule map_inj_on)
  show "map e_key ?a = map e_key ?b"
    using range_scan_filter [OF strictly_sorted_sorted [OF assms], of hi lo]
    by (simp add: takeWhile_map drop_map filter_map comp_def)
  have "set ?a \<union> set ?b \<subseteq> set es" by (auto dest!: set_takeWhileD dest: in_set_dropD)
  moreover have "inj_on e_key (set es)"
    using strictly_sorted_distinct [OF assms] by (simp add: distinct_map)
  ultimately show "inj_on e_key (set ?a \<union> set ?b)" by (rule inj_on_subset [rotated])
qed

lemma reader_scan_eq:
  assumes "reader_ok r es"
  shows "reader_scan r lo hi = Inr (filter (\<lambda>e. in_range lo hi (e_key e)) es)"
proof -
  let ?n = "if lo \<noteq> [] then search_ge lo (map e_key es) else 0"
  have ks: "map ie_key (rd_index r) = map e_key es" and nc: "\<not> rd_closed r"
    and srt: "strictly_sorted (map e_key es)" using assms by (auto simp: reader_ok_def)
  have "scan_index r hi (drop ?n (rd_index r))
      = Inr (takeWhile (\<lambda>e. \<not> (hi \<noteq> [] \<and> hi \<le> e_key e)) (drop ?n es))"
  proof (rule scan_index_eq)
    show "\<forall>i < length (drop ?n es). read_record r (drop ?n (rd_index r) ! i) = Inr (drop ?n es ! i)"
      using assms by (auto simp: reader_ok_def reader_ok_lengths [OF assms])
    show "map ie_key (drop ?n (rd_index r)) = map e_key (drop ?n es)" unfolding drop_map [symmetric] ks ..
  qed (simp add: reader_ok_lengths [OF assms])
  then show ?thesis
    using nc by (simp only: reader_scan_def ks Let_def if_False range_scan_entries [OF srt])
qed

text \<open>The sorted table a reader is: reads that fail count as absent, and no read of a good reader fails.\<close>

definition table_get :: "reader \<Rightarrow> bytes \<Rightarrow> entry option" where
  "table_get r k = (case reader_get r k of Inl _ \<Rightarrow> None | Inr x \<Rightarrow> x)"

definition table_scan :: "reader \<Rightarrow> bytes \<Rightarrow> bytes \<Rightarrow> entry list" where
  "table_scan r lo hi = (case reader_scan r lo hi of Inl _ \<Rightarrow> [] | Inr es \<Rightarrow> es)"

lemma find_key_iff:
  assumes "strictly_sorted (map e_key es)"
  shows "find (\<lambda>e. e_key e = k) es = Some e \<longleftrightarrow> e \<in> set es \<and> e_key e = k"
proof
  assume "find (\<lambda>e. e_key e = k) es = Some e"
  then show "e \<in> set es \<and> e_key e = k" by (auto simp: find_Some_iff)
next
  assume "e \<in> set es \<and> e_key e = k"
  then show "find (\<lambda>e. e_key e = k) es = Some e"
    using find_key_nth [OF assms] by (auto simp: in_set_conv_nth)
qed

interpretation sst: sorted_table table_get table_scan "\<lambda>r. \<exists>es. reader_ok r es"
proof
  fix r lo hi e k
  assume "\<exists>es. reader_ok r es"
  then obtain es where ok: "reader_ok r es" by blast
  then have srt: "strictly_sorted (map e_key es)" by (simp add: reader_ok_def)
  show "strictly_sorted (map e_key (table_scan r lo hi))"
    using strictly_sorted_filter [OF srt] by (simp add: table_scan_def reader_scan_eq [OF ok] filter_map comp_def)
  show "e \<in> set (table_scan r lo hi) \<longleftrightarrow> in_range lo hi (e_key e) \<and> table_get r (e_key e) = Some e"
    by (auto simp: table_scan_def table_get_def reader_scan_eq [OF ok] reader_get_eq [OF ok] find_key_iff [OF srt])
  show "table_get r k = Some e \<Longrightarrow> e_key e = k \<and> k \<noteq> []"
    using ok by (auto simp: table_get_def reader_get_eq [OF ok] find_key_iff [OF srt] reader_ok_def)
qed

section \<open>Properties of the sorted table\<close>

text \<open>C35: Whatever \<open>Create\<close> writes, \<open>Open\<close> accepts: the reader has the metadata \<open>Create\<close> returned, \<open>Get\<close>
  finds exactly the entry of each written key and reports every other key absent, and \<open>Scan\<close> returns
  exactly the written entries of its range in key order.\<close>

theorem sstable_round_trip:
  assumes "sst_create p es m = Inr (bs, md)" "length bs < 2 ^ 64"
  shows "\<exists>r. sst_open q m bs = Inr r \<and> reader_metadata r = md\<lparr>md_path := q\<rparr>
    \<and> reader_len r = word_of_nat (length es)
    \<and> (\<forall>k. reader_get r k = Inr (find (\<lambda>e. e_key e = k) es))
    \<and> (\<forall>lo hi. reader_scan r lo hi = Inr (filter (\<lambda>e. in_range lo hi (e_key e)) es))"
proof -
  note ok = sst_create_open [OF assms, of q]
  have "md = table_meta p es" using assms(1) by (simp add: sst_create_Inr)
  then have "reader_metadata (table_reader q (sst_eff_max m) es) = md\<lparr>md_path := q\<rparr>"
    "reader_len (table_reader q (sst_eff_max m) es) = word_of_nat (length es)"
    by (simp_all add: reader_metadata_def reader_len_def table_reader_def table_meta_def)
  with ok show ?thesis using reader_get_eq reader_scan_eq by blast
qed

theorem sstable_round_trip_witness:
  "\<exists>r. sst_open ''b'' 0 (table_bytes [\<lparr>e_key = [1], e_value = [7], e_kind = entry_put, e_seq = 3\<rparr>]) = Inr r
    \<and> reader_get r [1] = Inr (Some \<lparr>e_key = [1], e_value = [7], e_kind = entry_put, e_seq = 3\<rparr>)
    \<and> reader_get r [2] = Inr None"
proof -
  let ?e = "\<lparr>e_key = [1], e_value = [7], e_kind = entry_put, e_seq = 3\<rparr>"
  have "sst_create ''a'' [?e] 0 = Inr (table_bytes [?e], table_meta ''a'' [?e])"
    by (simp add: sst_create_Inr entry_fits_def sst_eff_max_def sst_default_max_def)
  moreover have "length (table_bytes [?e]) < 2 ^ 64"
    by (simp add: length_table_bytes table_index_def)
  ultimately obtain r where "sst_open ''b'' 0 (table_bytes [?e]) = Inr r"
    "\<forall>k. reader_get r k = Inr (find (\<lambda>e. e_key e = k) [?e])"
    using sstable_round_trip [of "''a''" "[?e]" 0 _ _ "''b''"] by blast
  then show ?thesis by auto
qed

section \<open>Corruption\<close>

lemma slice_update: "n < a \<or> b \<le> n \<Longrightarrow> slice a b (xs[n := x]) = slice a b xs"
  by (cases "n < a") (auto simp: slice_def drop_update_swap)

lemma read_record_update:
  assumes "n < unat (ie_offset ie) \<or> unat (ie_offset ie) + 8 + unat (ie_len ie) \<le> n"
  shows "read_record (r\<lparr>rd_file := (rd_file r)[n := x]\<rparr>) ie = read_record r ie"
proof -
  let ?o = "unat (ie_offset ie)"
  have s: "slice ?o (?o + 4) ((rd_file r)[n := x]) = slice ?o (?o + 4) (rd_file r)"
    "slice (?o + 4) (?o + 8) ((rd_file r)[n := x]) = slice (?o + 4) (?o + 8) (rd_file r)"
    "slice (?o + 8) (?o + 8 + unat (ie_len ie)) ((rd_file r)[n := x])
       = slice (?o + 8) (?o + 8 + unat (ie_len ie)) (rd_file r)"
    using assms by (auto intro!: slice_update)
  show ?thesis
  proof (cases "get_u32 (slice ?o (?o + 4) (rd_file r)) = ie_len ie")
    case True
    then show ?thesis by (simp add: read_record_def s Let_def)
  next
    case False
    then show ?thesis by (simp add: read_record_def s Let_def)
  qed
qed

text \<open>Where the \<open>i\<close>-th record starts.\<close>

definition record_start :: "entry list \<Rightarrow> nat \<Rightarrow> nat" where
  "record_start es i = 10 + length (concat (map enc_rec (take i es)))"

lemma record_start_mono:
  assumes "i < j" "j \<le> length es"
  shows "record_start es i + length (enc_rec (es ! i)) \<le> record_start es j"
proof -
  have "record_start es (Suc i) = record_start es i + length (enc_rec (es ! i))"
    using assms by (simp add: record_start_def take_Suc_conv_app_nth)
  moreover have "record_start es (Suc i) \<le> record_start es j"
  proof -
    have "take j es = take (Suc i) es @ take (j - Suc i) (drop (Suc i) es)"
      using assms by (metis Suc_leI le_add_diff_inverse take_add)
    then show ?thesis by (simp add: record_start_def)
  qed
  ultimately show ?thesis by simp
qed

lemma enc_rec_update:
  assumes "j < length (encode_body e)"
  shows "(enc_rec e)[8 + j := b] = take 8 (enc_rec e) @ take j (encode_body e) @ b # drop (Suc j) (encode_body e)"
    and "enc_rec e = take 8 (enc_rec e) @ take j (encode_body e) @ encode_body e ! j # drop (Suc j) (encode_body e)"
  using assms by (simp_all add: enc_rec_def upd_conv_take_nth_drop list_update_append id_take_nth_drop [symmetric])

text \<open>The table with byte \<open>j\<close> of the body of record \<open>i\<close> replaced, and the reader \<open>Open\<close> makes of it.\<close>

definition damaged :: "entry list \<Rightarrow> nat \<Rightarrow> nat \<Rightarrow> byte \<Rightarrow> bytes" where
  "damaged es i j b = (table_bytes es)[record_start es i + 8 + j := b]"

definition damaged_reader :: "path \<Rightarrow> u32 \<Rightarrow> entry list \<Rightarrow> nat \<Rightarrow> nat \<Rightarrow> byte \<Rightarrow> reader" where
  "damaged_reader q m es i j b = (table_reader q m es)\<lparr>rd_file := damaged es i j b\<rparr>"

lemma damaged_layout:
  fixes b :: byte
  assumes "i < length es" "j < length (encode_body (es ! i))"
  defines "A \<equiv> concat (map enc_rec (take i es))" and "B \<equiv> concat (map enc_rec (drop (Suc i) es))"
    and "x \<equiv> (enc_rec (es ! i))[8 + j := b]"
  shows "concat (map enc_rec es) = A @ enc_rec (es ! i) @ B" "damaged es i j b = with_data (A @ x @ B) es"
    "table_bytes es ! (record_start es i + 8 + j) = encode_body (es ! i) ! j"
proof -
  let ?H = "put_u64 sst_magic @ put_u16 table_version"
  show D: "concat (map enc_rec es) = A @ enc_rec (es ! i) @ B"
    unfolding A_def B_def
    using id_take_nth_drop [OF assms(1)] by (metis concat.simps(2) concat_append list.simps(9) map_append)
  have n: "record_start es i + 8 + j = length ?H + (length A + (8 + j))" by (simp add: record_start_def A_def)
  have l: "8 + j < length (enc_rec (es ! i))" using assms(2) by simp
  show "damaged es i j b = with_data (A @ x @ B) es"
    unfolding damaged_def n table_bytes_with_data D with_data_def x_def using l by (simp add: list_update_append)
  show "table_bytes es ! (record_start es i + 8 + j) = encode_body (es ! i) ! j"
    unfolding n table_bytes_with_data D with_data_def using l assms(2)
    by (simp add: nth_append) (simp add: enc_rec_def nth_append)
qed

lemma open_damaged:
  assumes "\<forall>e \<in> set es. entry_fits m e" "strictly_sorted (map e_key es)" "length (table_bytes es) < 2 ^ 64"
    and "i < length es" "j < length (encode_body (es ! i))"
  shows "sst_load q m (damaged es i j b) = Inr (damaged_reader q m es i j b)"
  unfolding damaged_reader_def damaged_layout(2) [OF assms(4,5)]
  using assms damaged_layout(1) [OF assms(4,5)] by (intro sst_load_with_data) auto

lemma damaged_reader_index:
  assumes "l < length es"
  shows "rd_index (damaged_reader q m es i j b) ! l = rd_index (table_reader q m es) ! l"
    "ie_offset (rd_index (table_reader q m es) ! l) = word_of_nat (record_start es l)"
    "ie_len (rd_index (table_reader q m es) ! l) = len32 (encode_body (es ! l))"
  using assms by (simp_all add: damaged_reader_def table_reader_def index_of_nth record_start_def)

lemma record_start_less:
  assumes "length (table_bytes es) < 2 ^ 64" "l < length es"
  shows "record_start es l < 2 ^ 64"
  using record_start_mono [OF assms(2) order_refl] assms(1) by (simp add: length_table_bytes record_start_def)

lemma read_damaged:
  assumes "\<forall>e \<in> set es. entry_fits m e" "length (table_bytes es) < 2 ^ 64" "i < length es"
    and "j < length (encode_body (es ! i))" "b \<noteq> encode_body (es ! i) ! j"
  shows "read_record (damaged_reader q m es i j b) (rd_index (damaged_reader q m es i j b) ! i) = Inl SErrCorruptTable"
proof (rule read_record_corrupt)
  let ?A = "(put_u64 sst_magic @ put_u16 table_version) @ concat (map enc_rec (take i es))"
  let ?e = "es ! i"
  let ?x = "take 8 (enc_rec ?e) @ take j (encode_body ?e) @ b # drop (Suc j) (encode_body ?e)"
  show "enc_rec ?e = take 8 (enc_rec ?e) @ take j (encode_body ?e) @ encode_body ?e ! j # drop (Suc j) (encode_body ?e)"
    by (rule enc_rec_update(2) [OF assms(4)])
  show "entry_fits (rd_max (damaged_reader q m es i j b)) ?e"
    using assms(1,3) by (simp add: damaged_reader_def table_reader_def)
  show "rd_file (damaged_reader q m es i j b) = ?A @ ?x @ (concat (map enc_rec (drop (Suc i) es)) @ table_index es
      @ table_fields es @ put_u32 (crc32 (table_fields es)) @ put_u64 sst_magic)"
    by (simp add: damaged_reader_def damaged_layout(2) [OF assms(3,4)] with_data_def enc_rec_update(1) [OF assms(4)])
  show "ie_offset (rd_index (damaged_reader q m es i j b) ! i) = word_of_nat (length ?A)"
    using assms(3) by (simp add: damaged_reader_index record_start_def)
  show "length ?A < 2 ^ 64" using record_start_less [OF assms(2,3)] by (simp add: record_start_def)
qed (rule assms(5))

lemma read_undamaged:
  assumes "\<forall>e \<in> set es. entry_fits m e" "length (table_bytes es) < 2 ^ 64" "i < length es"
    and "j < length (encode_body (es ! i))" "l < length es" "l \<noteq> i"
  shows "read_record (damaged_reader q m es i j b) (rd_index (damaged_reader q m es i j b) ! l)
    = read_record (table_reader q m es) (rd_index (table_reader q m es) ! l)"
proof -
  let ?ie = "rd_index (table_reader q m es) ! l"
  have "unat (ie_offset ?ie) = record_start es l"
    unfolding damaged_reader_index(2) [OF assms(5)]
    by (rule unat_word_of_nat64) (rule record_start_less [OF assms(2,5)])
  moreover have "8 + unat (ie_len ?ie) = length (enc_rec (es ! l))"
    using entry_fits_lens(3) [of m "es ! l"] assms(1,5) by (simp add: damaged_reader_index)
  moreover have "record_start es i + 8 + j < record_start es l
      \<or> record_start es l + length (enc_rec (es ! l)) \<le> record_start es i + 8 + j"
    using record_start_mono [of i l es] record_start_mono [of l i es] assms(3-6)
    by (cases "l < i") (auto simp: not_less)
  ultimately show ?thesis
    using read_record_update [of "record_start es i + 8 + j" ?ie "table_reader q m es" b]
    by (simp add: damaged_reader_index(1) [OF assms(5)] damaged_reader_def damaged_def table_reader_def add.assoc)
qed

text \<open>C36: One changed byte in the body of a stored record is detected exactly there: \<open>Open\<close> still succeeds,
  \<open>Get\<close> of that record's key fails with \<open>ErrCorruptTable\<close> (never a wrong value), and \<open>Get\<close> of every
  other key answers as before.\<close>

theorem sstable_detects_corruption:
  assumes "sst_create p es m = Inr (bs, md)" "length bs < 2 ^ 64" "i < length es"
    and "j < length (encode_body (es ! i))" "n = record_start es i + 8 + j" "b \<noteq> bs ! n"
  shows "\<exists>r. sst_open q m (bs[n := b]) = Inr r
    \<and> reader_get r (e_key (es ! i)) = Inl SErrCorruptTable
    \<and> (\<forall>k. k \<noteq> e_key (es ! i) \<longrightarrow> reader_get r k = Inr (find (\<lambda>e. e_key e = k) es))"
proof -
  let ?m = "sst_eff_max m"
  let ?r = "damaged_reader q ?m es i j b"
  have c: "\<forall>e \<in> set es. entry_fits ?m e" "strictly_sorted (map e_key es)" "length (table_bytes es) < 2 ^ 64"
    and bs: "bs[n := b] = damaged es i j b"
    using assms by (auto simp: sst_create_Inr damaged_def)
  have op: "sst_open q m (bs[n := b]) = Inr ?r"
    using open_damaged [OF c assms(3,4)] by (simp add: sst_open_def bs)
  have st: "\<not> rd_closed ?r" "map ie_key (rd_index ?r) = map e_key es"
    by (simp_all add: damaged_reader_def table_reader_def)
  have ne: "e_key (es ! l) \<noteq> []" if "l < length es" for l using c(1) that by (simp add: entry_fits_def)
  have "b \<noteq> encode_body (es ! i) ! j"
    using assms(1,5,6) damaged_layout(3) [OF assms(3,4)] by (simp add: sst_create_Inr)
  then have "reader_get ?r (e_key (es ! i)) = Inl SErrCorruptTable"
    using reader_get_at [OF st c(2) assms(3) ne [OF assms(3)]] read_damaged [OF c(1,3) assms(3,4)] by simp
  moreover have "reader_get ?r (e_key (es ! l)) = Inr (find (\<lambda>e. e_key e = e_key (es ! l)) es)"
    if "l < length es" "l \<noteq> i" for l
    using reader_get_at [OF st c(2) that(1) ne [OF that(1)]] read_undamaged [OF c(1,3) assms(3,4) that]
      reader_ok_table [OF c, of q] find_key_nth [OF c(2) that(1)] that(1)
    by (simp add: reader_ok_def)
  moreover have "reader_get ?r k = Inr (find (\<lambda>e. e_key e = k) es)" if "k \<notin> set (map e_key es)" for k
  proof -
    have "find (\<lambda>e. e_key e = k) es = None" using that by (auto simp: find_None_iff)
    then show ?thesis using reader_get_absent [OF st that] by simp
  qed
  ultimately have "reader_get ?r k = Inr (find (\<lambda>e. e_key e = k) es)" if "k \<noteq> e_key (es ! i)" for k
    using that by (cases "k \<in> set (map e_key es)") (force simp: in_set_conv_nth)+
  with op show ?thesis using \<open>reader_get ?r (e_key (es ! i)) = Inl SErrCorruptTable\<close> by blast
qed

theorem sstable_detects_corruption_witness:
  "\<exists>r. sst_open ''b'' 0 ((table_bytes [\<lparr>e_key = [1], e_value = [7], e_kind = entry_put, e_seq = 3\<rparr>])[26 := 2]) = Inr r
    \<and> reader_get r [1] = Inl SErrCorruptTable"
proof -
  let ?e = "\<lparr>e_key = [1], e_value = [7], e_kind = entry_put, e_seq = 3\<rparr>"
  have c: "sst_create ''a'' [?e] 0 = Inr (table_bytes [?e], table_meta ''a'' [?e])"
    by (simp add: sst_create_Inr entry_fits_def sst_eff_max_def sst_default_max_def)
  have l: "length (table_bytes [?e]) < 2 ^ 64"
    by (simp add: length_table_bytes table_index_def)
  have "table_bytes [?e] ! 26 = 1"
    by (simp add: table_bytes_def enc_rec_def encode_body_def nth_append entry_put_def)
  then show ?thesis
    using sstable_detects_corruption [OF c l, of 0 8 26 2 "''b''"] by (auto simp: record_start_def)
qed

section \<open>Arbitrary files\<close>

lemma less_exp_32_64: "(2::nat) ^ 32 < 2 ^ 64"
  by simp

lemma index_entry_ok_bounds:
  assumes "index_entry_ok m io prev ie"
  shows "10 \<le> unat (ie_offset ie)" "unat (ie_offset ie) + 8 + unat (ie_len ie) \<le> unat io"
    "17 \<le> unat (ie_len ie)" "ie_len ie \<le> m"
proof -
  let ?o = "ie_offset ie" and ?l = "(ucast (ie_len ie) :: u64)"
  have *: "\<not> ?o < 10" "\<not> ie_len ie < 17" "\<not> ?o + 8 + ?l < ?o" "\<not> ?o + 8 + ?l > io" "\<not> ie_len ie > m"
    using assms by (auto simp: index_entry_ok_def Let_def)
  show "10 \<le> unat ?o" "17 \<le> unat (ie_len ie)" "ie_len ie \<le> m"
    using * by (simp_all add: word_less_nat_alt word_le_nat_alt)
  have l: "unat ?l = unat (ie_len ie)"
    using u32_less [of "ie_len ie"] by (metis of_nat_unat unat_word_of_nat64 less_trans less_exp_32_64)
  have "unat (8 + ?l) = 8 + unat (ie_len ie)"
    using u32_less [of "ie_len ie"] l by (simp add: unat_word_ariths)
  moreover have "unat (?o + (8 + ?l)) = unat ?o + unat (8 + ?l)"
    using *(3) unat_plus_simple [of ?o "8 + ?l"] by (simp add: not_less add.assoc)
  ultimately show "unat ?o + 8 + unat (ie_len ie) \<le> unat io"
    using *(4) by (simp add: not_less word_le_nat_alt add.assoc)
qed

lemma index_ok_bounds:
  "index_ok m io prev ies \<Longrightarrow> ie \<in> set ies \<Longrightarrow> 10 \<le> unat (ie_offset ie)
     \<and> unat (ie_offset ie) + 8 + unat (ie_len ie) \<le> unat io \<and> 17 \<le> unat (ie_len ie) \<and> ie_len ie \<le> m"
  by (induction ies arbitrary: prev) (auto dest: index_entry_ok_bounds)

lemma index_ok_sorted:
  "index_ok m io prev ies \<Longrightarrow> strictly_sorted ((case prev of None \<Rightarrow> [] | Some p \<Rightarrow> [p]) @ map ie_key ies)"
proof (induction ies arbitrary: prev)
  case (Cons ie ies)
  have "strictly_sorted ([ie_key ie] @ map ie_key ies)" using Cons by fastforce
  moreover have "\<forall>p. prev = Some p \<longrightarrow> p < ie_key ie"
    using Cons.prems by (auto simp: index_entry_ok_def not_le)
  ultimately show ?case by (auto split: option.splits dest: less_trans)
qed (simp split: option.splits)

lemma sst_open_parts:
  assumes "sst_open p m f = Inr r"
  obtains io where "rd_file r = f" "\<not> rd_closed r" "rd_max r = sst_eff_max m" "46 \<le> length f"
    "io \<le> word_of_nat (length f) - 36" "index_ok (sst_eff_max m) io None (rd_index r)"
  using assms unfolding sst_open_def sst_load_def Let_def
  by (auto split: if_splits option.splits simp: not_less)

lemma read_record_sound:
  assumes "read_record r ie = Inr e"
  shows "e_key e = ie_key ie" "e_kind e \<in> {entry_put, entry_delete}"
  using assms by (auto simp: read_record_def Let_def split: if_splits)

lemma scan_index_sound:
  "scan_index r hi ies = Inr es \<Longrightarrow> map e_key es = takeWhile (\<lambda>k. \<not> (hi \<noteq> [] \<and> hi \<le> k)) (map ie_key ies)
     \<and> (\<forall>e \<in> set es. e_kind e \<in> {entry_put, entry_delete})"
proof (induction ies arbitrary: es)
  case (Cons ie ies)
  show ?case
  proof (cases "hi \<noteq> [] \<and> hi \<le> ie_key ie")
    case False
    then obtain e es' where "read_record r ie = Inr e" "scan_index r hi ies = Inr es'" "es = e # es'"
      using Cons.prems by (auto split: sum.splits)
    with Cons.IH [of es'] False read_record_sound [of r ie e] show ?thesis by auto
  qed (use Cons.prems in auto)
qed simp

text \<open>\<open>Open\<close> of any bytes at all is safe: a reader it returns has a strictly sorted index whose records
  all lie between the header and the footer and fit the size limit, so no read leaves the file; a
  \<open>Get\<close> that succeeds returns an entry of exactly the key asked for with a valid kind, and a \<open>Scan\<close>
  that succeeds returns exactly the indexed keys of its range, in order.\<close>

theorem sstable_open_sound:
  assumes "sst_open p m f = Inr r" "length f < 2 ^ 64"
  shows "strictly_sorted (map ie_key (rd_index r))
    \<and> (\<forall>ie \<in> set (rd_index r). 10 \<le> unat (ie_offset ie) \<and> 17 \<le> unat (ie_len ie)
         \<and> unat (ie_offset ie) + 8 + unat (ie_len ie) \<le> length f - 36 \<and> ie_len ie \<le> sst_eff_max m)
    \<and> (\<forall>k e. reader_get r k = Inr (Some e) \<longrightarrow> e_key e = k \<and> e_kind e \<in> {entry_put, entry_delete})
    \<and> (\<forall>lo hi es. reader_scan r lo hi = Inr es \<longrightarrow>
         map e_key es = filter (in_range lo hi) (map ie_key (rd_index r))
         \<and> (\<forall>e \<in> set es. e_kind e \<in> {entry_put, entry_delete}))"
proof -
  obtain io where r: "\<not> rd_closed r" "46 \<le> length f" "io \<le> word_of_nat (length f) - 36"
    and ok: "index_ok (sst_eff_max m) io None (rd_index r)"
    using sst_open_parts [OF assms(1)] by metis
  have srt: "strictly_sorted (map ie_key (rd_index r))" using index_ok_sorted [OF ok] by simp
  have "(word_of_nat (length f) :: u64) - 36 = word_of_nat (length f - 36)"
    using r(2) by (simp add: of_nat_diff)
  then have "unat io \<le> length f - 36"
    using r(3) assms(2) unat_word_of_nat64 [of "length f - 36"] by (simp add: word_le_nat_alt)
  then have b: "\<forall>ie \<in> set (rd_index r). 10 \<le> unat (ie_offset ie) \<and> 17 \<le> unat (ie_len ie)
      \<and> unat (ie_offset ie) + 8 + unat (ie_len ie) \<le> length f - 36 \<and> ie_len ie \<le> sst_eff_max m"
    using index_ok_bounds [OF ok] by fastforce
  have g: "e_key e = k \<and> e_kind e \<in> {entry_put, entry_delete}" if "reader_get r k = Inr (Some e)" for k e
    using that read_record_sound by (auto simp: reader_get_def Let_def split: if_splits sum.splits)
  have s: "map e_key es = filter (in_range lo hi) (map ie_key (rd_index r))
      \<and> (\<forall>e \<in> set es. e_kind e \<in> {entry_put, entry_delete})" if "reader_scan r lo hi = Inr es" for lo hi es
    using scan_index_sound [of r hi _ es] that r(1) range_scan_filter [OF strictly_sorted_sorted [OF srt], of hi lo]
    by (auto simp: reader_scan_def Let_def drop_map split: if_splits)
  show ?thesis using srt b g s by blast
qed

theorem sstable_open_sound_witness:
  "\<exists>r. sst_open ''b'' 0 (table_bytes [\<lparr>e_key = [1], e_value = [7], e_kind = entry_put, e_seq = 3\<rparr>]) = Inr r
    \<and> strictly_sorted (map ie_key (rd_index r))"
proof -
  let ?e = "\<lparr>e_key = [1], e_value = [7], e_kind = entry_put, e_seq = 3\<rparr>"
  have "sst_create ''a'' [?e] 0 = Inr (table_bytes [?e], table_meta ''a'' [?e])"
    by (simp add: sst_create_Inr entry_fits_def sst_eff_max_def sst_default_max_def)
  moreover have l: "length (table_bytes [?e]) < 2 ^ 64"
    by (simp add: length_table_bytes table_index_def)
  ultimately show ?thesis
    using sst_create_open(1) [of "''a''" "[?e]" 0 _ _ "''b''"] sstable_open_sound [OF _ l, of "''b''" 0] by blast
qed

end
