(* ===== verification/Bloom.thy ===== *)
theory Bloom
  imports Entries
begin

text \<open>
  The Bloom filter (\<open>internal/bloom/bloom.go\<close>): construction, \<open>Add\<close>, \<open>MightContain\<close> and the binary
  format of the sidecar file. A \<open>float64\<close> rate is its IEEE-754 bit pattern, the form in which it is
  serialised: a finite value in (0, 1) is a pattern strictly between 0 and that of 1.0. The float
  arithmetic of \<open>calcParams\<close> is a parameter (the rounded results as integers); its clamps are modelled.
  An index out of range and a modulus of zero are panics in Go: here the result is \<open>None\<close>.
\<close>

section \<open>Types and constants\<close>

datatype bloom_error = BErrInvalidOptions | BErrInvalidKey | BErrCorruptFilter | BErrFilterTooLarge

type_synonym float64 = u64

record bloom_filter =
  bf_words :: "u64 list"
  bf_bits :: u64
  bf_hashes :: u32
  bf_expected :: u64
  bf_inserted :: u64
  bf_fpr :: float64

record bloom_metadata =
  bm_bits :: u64
  bm_hashes :: u32
  bm_expected :: u64
  bm_fpr :: float64
  bm_inserted :: u64

definition filter_magic :: u64 where "filter_magic = 0x544c464d4f4f4c42"
definition filter_version :: u16 where "filter_version = 1"
definition max_words :: u64 where "max_words = push_bit 30 1"
definition max_bits :: u64 where "max_bits = max_words * 64"
definition h2_salt :: u64 where "h2_salt = 0x9e3779b97f4a7c15"

definition fpr_valid :: "float64 \<Rightarrow> bool" where
  "fpr_valid p \<longleftrightarrow> 0 < p \<and> p < 0x3FF0000000000000"

section \<open>Construction\<close>

text \<open>\<open>ceil n p\<close> is \<open>uint64(math.Ceil(-n ln p / ln(2)^2))\<close>, \<open>round m n\<close> is \<open>math.Round(m / n ln 2)\<close>.\<close>

definition calc_params :: "(u64 \<Rightarrow> float64 \<Rightarrow> u64) \<Rightarrow> (u64 \<Rightarrow> u64 \<Rightarrow> int) \<Rightarrow> u64 \<Rightarrow> float64 \<Rightarrow> u64 \<times> u32" where
  "calc_params ceil' round' n p =
     (let m0 = ceil' n p;
          m = (if m0 = 0 then 1 else m0);
          k0 = round' m n;
          k1 = (if k0 < 1 then 1 else k0);
          k2 = (if k1 > 64 then 64 else k1)
      in (m, word_of_int k2))"

definition bloom_new ::
    "(u64 \<Rightarrow> float64 \<Rightarrow> u64) \<Rightarrow> (u64 \<Rightarrow> u64 \<Rightarrow> int) \<Rightarrow> u64 \<Rightarrow> float64 \<Rightarrow> bloom_error + bloom_filter" where
  "bloom_new ceil' round' expected fpr =
     (if expected = 0 then Inl BErrInvalidOptions
      else if \<not> fpr_valid fpr then Inl BErrInvalidOptions
      else
        (case calc_params ceil' round' expected fpr of (m, k) \<Rightarrow>
           if m > max_bits then Inl BErrFilterTooLarge
           else Inr \<lparr>bf_words = replicate (unat ((m + 63) div 64)) 0, bf_bits = m, bf_hashes = k,
                     bf_expected = expected, bf_inserted = 0, bf_fpr = fpr\<rparr>))"

section \<open>Membership\<close>

definition hash_key :: "bytes \<Rightarrow> u64 \<times> u64" where
  "hash_key key =
     (let h1 = fnv1a64 key; h2 = fnv1a64 (put_u64 h2_salt @ key)
      in (h1, if h2 = 0 then h2_salt else h2))"

text \<open>The \<open>i\<close>-th bit position and the loops over \<open>i < hashCount\<close>, which count the remaining rounds.\<close>

definition bit_position :: "u64 \<Rightarrow> u64 \<Rightarrow> u64 \<Rightarrow> u64 \<Rightarrow> u64" where
  "bit_position m h1 h2 i = (h1 + i * h2) mod m"

fun add_loop :: "nat \<Rightarrow> u64 \<Rightarrow> u64 \<Rightarrow> u64 \<Rightarrow> u64 \<Rightarrow> u64 list \<Rightarrow> u64 list option" where
  "add_loop 0 i m h1 h2 ws = Some ws"
| "add_loop (Suc n) i m h1 h2 ws =
     (if m = 0 then None
      else
        let b = bit_position m h1 h2 i; w = unat (b div 64) in
        if w \<ge> length ws then None
        else add_loop n (i + 1) m h1 h2 (ws[w := set_bit (unat (b mod 64)) (ws ! w)]))"

fun contains_loop :: "nat \<Rightarrow> u64 \<Rightarrow> u64 \<Rightarrow> u64 \<Rightarrow> u64 \<Rightarrow> u64 list \<Rightarrow> bool option" where
  "contains_loop 0 i m h1 h2 ws = Some True"
| "contains_loop (Suc n) i m h1 h2 ws =
     (if m = 0 then None
      else
        let b = bit_position m h1 h2 i; w = unat (b div 64) in
        if w \<ge> length ws then None
        else if \<not> bit (ws ! w) (unat (b mod 64)) then Some False
        else contains_loop n (i + 1) m h1 h2 ws)"

definition bloom_add :: "bloom_filter \<Rightarrow> bytes \<Rightarrow> (bloom_error option \<times> bloom_filter) option" where
  "bloom_add f key =
     (if length key = 0 then Some (Some BErrInvalidKey, f)
      else
        (case hash_key key of (h1, h2) \<Rightarrow>
           (case add_loop (unat (bf_hashes f)) 0 (bf_bits f) h1 h2 (bf_words f) of
              None \<Rightarrow> None
            | Some ws \<Rightarrow> Some (None, f\<lparr>bf_words := ws, bf_inserted := bf_inserted f + 1\<rparr>))))"

definition bloom_might_contain :: "bloom_filter \<Rightarrow> bytes \<Rightarrow> bool option" where
  "bloom_might_contain f key =
     (if length key = 0 then Some False
      else
        (case hash_key key of (h1, h2) \<Rightarrow>
           contains_loop (unat (bf_hashes f)) 0 (bf_bits f) h1 h2 (bf_words f)))"

definition bloom_metadata :: "bloom_filter \<Rightarrow> bloom_metadata" where
  "bloom_metadata f = \<lparr>bm_bits = bf_bits f, bm_hashes = bf_hashes f, bm_expected = bf_expected f,
     bm_fpr = bf_fpr f, bm_inserted = bf_inserted f\<rparr>"

section \<open>Serialisation\<close>

definition marshal_prefix :: "bloom_filter \<Rightarrow> bytes" where
  "marshal_prefix f =
     (let wordCount = word_of_nat (length (bf_words f)) in
      put_u64 filter_magic @ put_u16 filter_version @ put_u64 (bf_bits f) @ put_u32 (bf_hashes f)
      @ put_u64 (bf_expected f) @ put_u64 (bf_inserted f) @ put_u64 (bf_fpr f) @ put_u64 wordCount
      @ concat (map put_u64 (bf_words f)))"

definition bloom_marshal :: "bloom_filter \<Rightarrow> bytes" where
  "bloom_marshal f = marshal_prefix f @ put_u32 (crc32 (marshal_prefix f)) @ put_u64 filter_magic"

text \<open>The words, read one after the other.\<close>

fun read_words :: "nat \<Rightarrow> bytes \<Rightarrow> u64 list" where
  "read_words 0 bs = []"
| "read_words (Suc n) bs = get_u64 bs # read_words n (drop 8 bs)"

definition bloom_unmarshal :: "bytes \<Rightarrow> bloom_error + bloom_filter" where
  "bloom_unmarshal d =
     (if length d < 66 then Inl BErrCorruptFilter
      else if get_u64 (slice 0 8 d) \<noteq> filter_magic then Inl BErrCorruptFilter
      else if get_u16 (slice 8 10 d) \<noteq> filter_version then Inl BErrCorruptFilter
      else
        let bitCount = get_u64 (slice 10 18 d); hashCount = get_u32 (slice 18 22 d);
            expectedItems = get_u64 (slice 22 30 d); insertedItems = get_u64 (slice 30 38 d);
            fpr = get_u64 (slice 38 46 d); wordCount = get_u64 (slice 46 54 d)
        in
        if bitCount = 0 then Inl BErrCorruptFilter
        else if hashCount = 0 then Inl BErrCorruptFilter
        else if \<not> fpr_valid fpr then Inl BErrCorruptFilter
        else if expectedItems = 0 then Inl BErrCorruptFilter
        else if wordCount \<noteq> (bitCount + 63) div 64 then Inl BErrCorruptFilter
        else if wordCount > max_words then Inl BErrCorruptFilter
        else if length d \<noteq> 54 + unat wordCount * 8 + 12 then Inl BErrCorruptFilter
        else
          let crcEnd = 54 + unat wordCount * 8 in
          if get_u32 (slice crcEnd (crcEnd + 4) d) \<noteq> crc32 (take crcEnd d) then Inl BErrCorruptFilter
          else if get_u64 (drop (length d - 8) d) \<noteq> filter_magic then Inl BErrCorruptFilter
          else Inr \<lparr>bf_words = read_words (unat wordCount) (drop 54 d), bf_bits = bitCount,
                    bf_hashes = hashCount, bf_expected = expectedItems, bf_inserted = insertedItems,
                    bf_fpr = fpr\<rparr>)"

section \<open>The invariant\<close>

text \<open>What \<open>New\<close> establishes and \<open>Add\<close> keeps.\<close>

definition bloom_ok :: "bloom_filter \<Rightarrow> bool" where
  "bloom_ok f \<longleftrightarrow> bf_bits f \<noteq> 0 \<and> bf_bits f \<le> max_bits \<and> bf_hashes f \<noteq> 0 \<and> bf_expected f \<noteq> 0
     \<and> fpr_valid (bf_fpr f) \<and> length (bf_words f) = unat ((bf_bits f + 63) div 64)"

definition max_bits_nat :: nat where "max_bits_nat = 2 ^ 36"

lemma unat_max: "unat max_words = 2 ^ 30" "unat max_bits = max_bits_nat"
  by (simp_all add: max_words_def max_bits_def max_bits_nat_def push_bit_eq_mult)

lemma word_count:
  assumes "m \<le> max_bits"
  shows "unat ((m + 63) div 64) = (unat m + 63) div 64"
proof -
  have "unat m \<le> 2 ^ 36" using assms unat_max by (simp add: word_le_nat_alt max_bits_nat_def)
  then have "unat (m + 63) = unat m + 63" by (simp add: unat_word_ariths)
  then show ?thesis by (simp add: unat_div)
qed

lemma position_in_range:
  assumes "m \<noteq> 0" "m \<le> max_bits"
  shows "unat (bit_position m h1 h2 i div 64) < unat ((m + 63) div 64)"
proof -
  have "unat (bit_position m h1 h2 i) < unat m"
    using assms(1) by (simp add: bit_position_def unat_mod unat_gt_0)
  then show ?thesis unfolding word_count [OF assms(2)] by (simp add: unat_div)
qed

section \<open>No false negatives\<close>

text \<open>The bit at position \<open>b\<close> of the packed array.\<close>

definition has_bit :: "u64 list \<Rightarrow> u64 \<Rightarrow> bool" where
  "has_bit ws b \<longleftrightarrow> unat (b div 64) < length ws \<and> bit (ws ! unat (b div 64)) (unat (b mod 64))"

lemma has_bit_update:
  "has_bit ws c \<Longrightarrow> has_bit (ws[w := set_bit k (ws ! w)]) c"
  by (cases "w = unat (c div 64)") (auto simp: has_bit_def bit_set_bit_iff)

lemma has_bit_set:
  assumes "unat (b div 64) < length ws"
  shows "has_bit (ws[unat (b div 64) := set_bit (unat (b mod 64)) (ws ! unat (b div 64))]) b"
proof -
  have "unat (b mod 64) < 64" by (simp add: unat_mod)
  then show ?thesis using assms by (simp add: has_bit_def bit_set_bit_iff)
qed

lemma add_loop_grows: "add_loop n i m h1 h2 ws = Some ws' \<Longrightarrow> has_bit ws c \<Longrightarrow> has_bit ws' c"
  by (induction n arbitrary: i ws) (auto simp: Let_def has_bit_update split: if_splits)

lemma add_loop_total:
  assumes "m \<noteq> 0" "m \<le> max_bits" "length ws = unat ((m + 63) div 64)"
  shows "\<exists>ws'. add_loop n i m h1 h2 ws = Some ws' \<and> length ws' = length ws"
  using assms(3)
  by (induction n arbitrary: i ws) (use assms position_in_range [OF assms(1,2)] in \<open>auto simp: Let_def not_le\<close>)

lemma contains_loop_total:
  assumes "m \<noteq> 0" "m \<le> max_bits" "length ws = unat ((m + 63) div 64)"
  shows "\<exists>b. contains_loop n i m h1 h2 ws = Some b"
  by (induction n arbitrary: i) (use assms position_in_range [OF assms(1,2)] in \<open>auto simp: Let_def not_le\<close>)

lemma contains_loop_iff:
  assumes "m \<noteq> 0" "m \<le> max_bits" "length ws = unat ((m + 63) div 64)"
  shows "contains_loop n i m h1 h2 ws
    = Some (\<forall>j < n. has_bit ws (bit_position m h1 h2 (i + word_of_nat j)))"
proof (induction n arbitrary: i)
  case (Suc n)
  have r: "\<not> length ws \<le> unat (bit_position m h1 h2 i div 64)"
    using position_in_range [OF assms(1,2), of h1 h2 i] assms(3) by simp
  have "(\<forall>j < Suc n. has_bit ws (bit_position m h1 h2 (i + word_of_nat j)))
      \<longleftrightarrow> has_bit ws (bit_position m h1 h2 i)
        \<and> (\<forall>j < n. has_bit ws (bit_position m h1 h2 (i + 1 + word_of_nat j)))"
    unfolding All_less_Suc2 by (simp add: add.assoc)
  then show ?case using r assms(1) Suc [of "i + 1"] by (simp add: Let_def has_bit_def not_le)
qed simp

lemma add_loop_bits:
  assumes "m \<noteq> 0" "m \<le> max_bits" "length ws = unat ((m + 63) div 64)" "add_loop n i m h1 h2 ws = Some ws'"
  shows "\<forall>j < n. has_bit ws' (bit_position m h1 h2 (i + word_of_nat j))"
  using assms(3,4)
proof (induction n arbitrary: i ws)
  case (Suc n)
  let ?b = "bit_position m h1 h2 i"
  let ?ws = "ws[unat (?b div 64) := set_bit (unat (?b mod 64)) (ws ! unat (?b div 64))]"
  have r: "unat (?b div 64) < length ws"
    using position_in_range [OF assms(1,2), of h1 h2 i] Suc.prems(1) by simp
  have l: "add_loop n (i + 1) m h1 h2 ?ws = Some ws'"
    using Suc.prems(2) r assms(1) by (simp add: Let_def)
  have "has_bit ws' ?b" using add_loop_grows [OF l] has_bit_set [OF r] by blast
  moreover have "\<forall>j < n. has_bit ws' (bit_position m h1 h2 (i + 1 + word_of_nat j))"
    using Suc.IH [OF _ l] Suc.prems(1) by simp
  ultimately show ?case unfolding All_less_Suc2 by (simp add: add.assoc)
qed simp

text \<open>The keys a filter reports as possibly present.\<close>

definition bloom_has :: "bloom_filter \<Rightarrow> bytes \<Rightarrow> bool" where
  "bloom_has f key \<longleftrightarrow> bloom_might_contain f key = Some True"

lemma bloom_new_ok: "bloom_new c r n p = Inr f \<Longrightarrow> bloom_ok f"
  by (auto simp: bloom_new_def calc_params_def bloom_ok_def Let_def word_of_int_eq_0_iff not_less split: if_splits
      dest!: zdvd_imp_le)

lemma bloom_add_total:
  assumes "bloom_ok f" "k \<noteq> []"
  shows "\<exists>f'. bloom_add f k = Some (None, f') \<and> bloom_ok f' \<and> bf_inserted f' = bf_inserted f + 1
    \<and> bloom_has f' k \<and> (\<forall>k'. bloom_has f k' \<longrightarrow> bloom_has f' k')"
proof -
  let ?m = "bf_bits f" and ?ws = "bf_words f" and ?n = "unat (bf_hashes f)"
  obtain h1 h2 where h: "hash_key k = (h1, h2)" by (cases "hash_key k")
  have ok: "?m \<noteq> 0" "?m \<le> max_bits" "length ?ws = unat ((?m + 63) div 64)"
    using assms(1) by (auto simp: bloom_ok_def)
  obtain ws' where ws: "add_loop ?n 0 ?m h1 h2 ?ws = Some ws'" and l: "length ws' = length ?ws"
    using add_loop_total [OF ok] by blast
  let ?f = "f\<lparr>bf_words := ws', bf_inserted := bf_inserted f + 1\<rparr>"
  have c: "contains_loop ?n 0 ?m g1 g2 vs = Some (\<forall>j < ?n. has_bit vs (bit_position ?m g1 g2 (word_of_nat j)))"
    if "length vs = length ?ws" for g1 g2 vs
    using contains_loop_iff [of ?m vs ?n 0] ok that by simp
  have "bloom_has ?f k"
    using add_loop_bits [OF ok ws] assms(2) l by (simp add: bloom_has_def bloom_might_contain_def h c)
  moreover have "bloom_has ?f k'" if "bloom_has f k'" for k'
    using that add_loop_grows [OF ws] l
    by (auto simp: bloom_has_def bloom_might_contain_def c split: if_splits prod.splits)
  ultimately show ?thesis using assms ws l h by (auto simp: bloom_add_def bloom_ok_def)
qed

text \<open>The loop of \<open>flush\<close> and \<open>compact\<close> that adds every key of the new table; its error result is ignored.\<close>

fun bloom_add_all :: "bloom_filter \<Rightarrow> bytes list \<Rightarrow> bloom_filter option" where
  "bloom_add_all f [] = Some f"
| "bloom_add_all f (k # ks) = (case bloom_add f k of None \<Rightarrow> None | Some (_, f') \<Rightarrow> bloom_add_all f' ks)"

lemma bloom_add_all_total:
  assumes "bloom_ok f" "[] \<notin> set ks"
  shows "\<exists>f'. bloom_add_all f ks = Some f' \<and> bloom_ok f' \<and> (\<forall>k \<in> set ks. bloom_has f' k)
    \<and> (\<forall>k. bloom_has f k \<longrightarrow> bloom_has f' k) \<and> bf_inserted f' = bf_inserted f + word_of_nat (length ks)"
  using assms
proof (induction ks arbitrary: f)
  case (Cons k ks)
  then obtain f1 where 1: "bloom_add f k = Some (None, f1)" "bloom_ok f1" "bf_inserted f1 = bf_inserted f + 1"
      "bloom_has f1 k" "\<forall>k'. bloom_has f k' \<longrightarrow> bloom_has f1 k'"
    using bloom_add_total [of f k] by auto
  then show ?case using Cons.IH [of f1] Cons.prems by (auto simp: add.assoc)
qed simp

section \<open>The sidecar read back\<close>

lemma read_words_put: "read_words (length ws) (concat (map put_u64 ws) @ t) = ws"
  by (induction ws) auto

lemma length_words [simp]: "length (concat (map put_u64 ws)) = 8 * length ws"
  by (induction ws) auto

lemma length_marshal [simp]:
  "length (marshal_prefix f) = 54 + 8 * length (bf_words f)" "length (bloom_marshal f) = 66 + 8 * length (bf_words f)"
  by (simp_all add: marshal_prefix_def bloom_marshal_def Let_def)

lemma marshal_fields:
  "slice 0 8 (bloom_marshal f) = put_u64 filter_magic" "slice 8 10 (bloom_marshal f) = put_u16 filter_version"
  "slice 10 18 (bloom_marshal f) = put_u64 (bf_bits f)" "slice 18 22 (bloom_marshal f) = put_u32 (bf_hashes f)"
  "slice 22 30 (bloom_marshal f) = put_u64 (bf_expected f)" "slice 30 38 (bloom_marshal f) = put_u64 (bf_inserted f)"
  "slice 38 46 (bloom_marshal f) = put_u64 (bf_fpr f)"
  "slice 46 54 (bloom_marshal f) = put_u64 (word_of_nat (length (bf_words f)))"
  by (simp_all add: bloom_marshal_def marshal_prefix_def slice_def Let_def)

lemma word_count_max: "m \<le> max_bits \<Longrightarrow> (m + 63) div 64 \<le> max_words"
  using word_count [of m] unat_max by (simp add: word_le_nat_alt max_bits_nat_def)

lemma marshal_unmarshal:
  assumes "bloom_ok f"
  shows "bloom_unmarshal (bloom_marshal f) = Inr f"
proof -
  let ?d = "bloom_marshal f"
  let ?n = "length (bf_words f)"
  have n: "word_of_nat ?n = (bf_bits f + 63) div 64" "unat ((bf_bits f + 63) div 64) = ?n"
    using assms by (simp_all add: bloom_ok_def)
  have crc: "slice (54 + ?n * 8) (54 + ?n * 8 + 4) ?d = put_u32 (crc32 (marshal_prefix f))"
    unfolding bloom_marshal_def by (rule slice_middle) simp_all
  have pre: "take (54 + ?n * 8) ?d = marshal_prefix f" unfolding bloom_marshal_def by simp
  have tail: "drop (length ?d - 8) ?d = put_u64 filter_magic" by (simp add: bloom_marshal_def)
  have ws: "read_words ?n (drop 54 ?d) = bf_words f"
    by (simp add: bloom_marshal_def marshal_prefix_def Let_def read_words_put)
  have c: "bf_bits f \<noteq> 0" "bf_hashes f \<noteq> 0" "fpr_valid (bf_fpr f)" "bf_expected f \<noteq> 0"
    "\<not> (bf_bits f + 63) div 64 > max_words"
    using assms word_count_max by (auto simp: bloom_ok_def not_less)
  show ?thesis
    unfolding bloom_unmarshal_def marshal_fields get_put Let_def n crc pre tail ws using c by simp
qed

text \<open>C37: A filter never denies a key that was added to it: a filter built by \<open>New\<close> and filled with keys
  reports each of them, before and after the trip through the sidecar file, which restores it exactly.\<close>

theorem bloom_no_false_negatives:
  assumes "bloom_new ceil' round' n p = Inr f" "[] \<notin> set ks" "k \<in> set ks"
  shows "\<exists>f'. bloom_add_all f ks = Some f' \<and> bloom_unmarshal (bloom_marshal f') = Inr f'
    \<and> bloom_might_contain f' k = Some True \<and> bm_inserted (bloom_metadata f') = word_of_nat (length ks)"
proof -
  have "bf_inserted f = 0" using assms(1) by (auto simp: bloom_new_def Let_def split: if_splits prod.splits)
  then show ?thesis
    using bloom_add_all_total [OF bloom_new_ok [OF assms(1)] assms(2)] assms(3) marshal_unmarshal
    by (fastforce simp: bloom_has_def bloom_metadata_def)
qed

theorem bloom_no_false_negatives_witness:
  "\<exists>f f'. bloom_new (\<lambda>n p. 10) (\<lambda>m n. 7) 1 0x3F847AE147AE147B = Inr f \<and> bloom_add_all f [[1]] = Some f'
    \<and> bloom_might_contain f' [1] = Some True"
proof -
  have "\<exists>f. bloom_new (\<lambda>n p. 10) (\<lambda>m n. 7) 1 0x3F847AE147AE147B = Inr f"
    by (simp add: bloom_new_def fpr_valid_def calc_params_def max_bits_def max_words_def Let_def)
  then show ?thesis using bloom_no_false_negatives [where ks = "[[1]]" and k = "[1]"] by fastforce
qed

section \<open>Damaged and crafted sidecars\<close>

text \<open>Every single changed byte of a sidecar file, wherever it is, makes \<open>UnmarshalBinary\<close> fail.\<close>

theorem bloom_detects_corruption:
  assumes "bloom_ok f" "n < length (bloom_marshal f)" "b \<noteq> bloom_marshal f ! n"
  shows "bloom_unmarshal ((bloom_marshal f)[n := b]) = Inl BErrCorruptFilter"
proof (rule ccontr)
  let ?d = "bloom_marshal f" and ?d' = "(bloom_marshal f)[n := b]"
  let ?c = "54 + 8 * length (bf_words f)"
  assume "bloom_unmarshal ?d' \<noteq> Inl BErrCorruptFilter"
  then obtain wc where l: "length ?d' = 54 + wc * 8 + 12"
    and crc: "get_u32 (slice (54 + wc * 8) (54 + wc * 8 + 4) ?d') = crc32 (take (54 + wc * 8) ?d')"
    and tail: "get_u64 (drop (length ?d' - 8) ?d') = filter_magic"
    unfolding bloom_unmarshal_def Let_def by (auto split: if_splits)
  have wc: "54 + wc * 8 = ?c" using l by simp
  have e1: "slice ?c (?c + 4) ?d' = put_u32 (crc32 (take ?c ?d'))"
    using crc put_get(1) [of "slice ?c (?c + 4) ?d'"] by (simp add: wc slice_def)
  have e2: "drop (length ?d - 8) ?d' = put_u64 filter_magic"
    using tail put_get(2) [of "drop (length ?d - 8) ?d'"] by simp
  have d: "?d = marshal_prefix f @ put_u32 (crc32 (marshal_prefix f)) @ put_u64 filter_magic"
    by (simp add: bloom_marshal_def)
  consider "n < ?c" | "?c \<le> n" "n < ?c + 4" | "?c + 4 \<le> n" by linarith
  then show False
  proof cases
    case 1
    let ?p = "marshal_prefix f"
    have "slice ?c (?c + 4) ?d' = put_u32 (crc32 ?p)" "take ?c ?d' = ?p[n := b]"
      using 1 by (simp_all add: d slice_def list_update_append)
    then have "crc32 (take n ?p @ b # drop (Suc n) ?p) = crc32 (take n ?p @ ?p ! n # drop (Suc n) ?p)"
      using e1 1 by (simp add: upd_conv_take_nth_drop id_take_nth_drop [symmetric])
    then have "b = ?p ! n" by (rule crc32_single_byte)
    then show False using assms(3) 1 by (simp add: d nth_append)
  next
    case 2
    define j where "j = n - ?c"
    have n: "n = length (marshal_prefix f) + j" and j: "j < 4" using 2 by (simp_all add: j_def)
    let ?s = "put_u32 (crc32 (marshal_prefix f))"
    have "?d' = marshal_prefix f @ ?s[j := b] @ put_u64 filter_magic"
      unfolding n d using j by (simp add: list_update_append)
    then have "slice ?c (?c + 4) ?d' = ?s[j := b]" "take ?c ?d' = marshal_prefix f"
      by (simp_all add: slice_def)
    then have "?s[j := b] ! j = ?s ! j" using e1 by simp
    then show False using assms(3) j unfolding n by (simp add: d nth_append)
  next
    case 3
    define j where "j = n - (?c + 4)"
    have n: "n = length ?d - 8 + j" and j: "j < 8" using 3 assms(2) by (simp_all add: j_def)
    have "?d' ! n = drop (length ?d - 8) ?d' ! j" using n by simp
    also have "\<dots> = put_u64 filter_magic ! j" unfolding e2 ..
    also have "\<dots> = ?d ! n" unfolding n d by (simp add: nth_append)
    finally show False using assms(2,3) by simp
  qed
qed

theorem bloom_detects_corruption_witness:
  "let f = \<lparr>bf_words = [5], bf_bits = 10, bf_hashes = 7, bf_expected = 1, bf_inserted = 1, bf_fpr = 1\<rparr> in
   bloom_unmarshal ((bloom_marshal f)[54 := 4]) = Inl BErrCorruptFilter"
proof -
  let ?f = "\<lparr>bf_words = [5], bf_bits = 10, bf_hashes = 7, bf_expected = 1, bf_inserted = 1, bf_fpr = 1\<rparr>"
  have "bloom_ok ?f" by (simp add: bloom_ok_def fpr_valid_def max_bits_def max_words_def)
  moreover have "bloom_marshal ?f ! 54 = ucast (5 :: u64)"
    by (simp add: bloom_marshal_def marshal_prefix_def Let_def nth_append put_u64_def numeral_eq_Suc)
  ultimately show ?thesis using bloom_detects_corruption [of ?f 54 4] by simp
qed

text \<open>The check of \<open>wordCount\<close> against \<open>bitCount\<close> wraps around: for a bit count of 2^64 - 1 it expects
  no words at all, so \<open>UnmarshalBinary\<close> accepts a sidecar without a bit array whose \<open>MightContain\<close> then
  indexes out of range for every non-empty key.\<close>

theorem bloom_unmarshal_wraparound:
  "\<exists>d f. bloom_unmarshal d = Inr f \<and> (\<forall>k. k \<noteq> [] \<longrightarrow> bloom_might_contain f k = None)"
proof (intro exI conjI)
  let ?f = "\<lparr>bf_words = [], bf_bits = - 1, bf_hashes = 1, bf_expected = 1, bf_inserted = 0, bf_fpr = 1\<rparr>"
  have w: "((- 1 :: u64) + 63) div 64 = 0" by simp
  have crc: "slice 54 58 (bloom_marshal ?f) = put_u32 (crc32 (marshal_prefix ?f))"
    unfolding bloom_marshal_def by (rule slice_middle) simp_all
  have pre: "take 54 (bloom_marshal ?f) = marshal_prefix ?f" unfolding bloom_marshal_def by simp
  have tail: "drop (length (bloom_marshal ?f) - 8) (bloom_marshal ?f) = put_u64 filter_magic"
    by (simp add: bloom_marshal_def)
  show "bloom_unmarshal (bloom_marshal ?f) = Inr ?f"
    unfolding bloom_unmarshal_def marshal_fields get_put Let_def tail
    by (simp add: crc pre fpr_valid_def)
  show "\<forall>k. k \<noteq> [] \<longrightarrow> bloom_might_contain ?f k = None"
    by (auto simp: bloom_might_contain_def numeral_eq_Suc split: prod.splits)
qed

theorem bloom_unmarshal_wraparound_witness:
  "\<exists>d f. bloom_unmarshal d = Inr f \<and> bloom_might_contain f [1] = None"
  using bloom_unmarshal_wraparound by blast

end
