(* ===== verification/Manifest.thy ===== *)
theory Manifest
  imports Sstable Bloom
begin

text \<open>
  The engine's manifest (\<open>internal/engine/manifest.go\<close>): the file that names the live tables, its
  validation and its atomic replacement, with the parts of Go's standard library it uses: base64
  (\<open>StdEncoding\<close>), \<open>filepath.IsLocal\<close> and the decimal table names. A manifest file is the value its JSON
  decodes to, or the fact that it does not decode.
\<close>

section \<open>Base64\<close>

definition b64_alphabet :: string where
  "b64_alphabet = ''ABCDEFGHIJKLMNOPQRSTUVWXYZabcdefghijklmnopqrstuvwxyz0123456789+/''"

definition b64_char :: "nat \<Rightarrow> char" where "b64_char n = b64_alphabet ! n"

fun index_in :: "'a \<Rightarrow> 'a list \<Rightarrow> nat option" where
  "index_in x [] = None"
| "index_in x (y # ys) = (if x = y then Some 0 else map_option Suc (index_in x ys))"

definition b64_value :: "char \<Rightarrow> nat option" where "b64_value c = index_in c b64_alphabet"

fun b64_encode :: "nat list \<Rightarrow> string" where
  "b64_encode [] = []"
| "b64_encode [a] = [b64_char (a div 4), b64_char (a mod 4 * 16), CHR ''='', CHR ''='']"
| "b64_encode [a, b] =
     [b64_char (a div 4), b64_char (a mod 4 * 16 + b div 16), b64_char (b mod 16 * 4), CHR ''='']"
| "b64_encode (a # b # c # ns) =
     [b64_char (a div 4), b64_char (a mod 4 * 16 + b div 16), b64_char (b mod 16 * 4 + c div 64),
      b64_char (c mod 64)] @ b64_encode ns"

text \<open>The decoder skips line breaks, wants full quanta with padding and ignores stray low bits.\<close>

fun b64_quanta :: "string \<Rightarrow> nat list option" where
  "b64_quanta [] = Some []"
| "b64_quanta (p # q # r # s # cs) =
     (case (b64_value p, b64_value q) of
        (Some a, Some b) \<Rightarrow>
          if r = CHR ''='' \<and> s = CHR ''='' \<and> cs = [] then Some [a * 4 + b div 16]
          else
            (case b64_value r of
               None \<Rightarrow> None
             | Some c \<Rightarrow>
                 if s = CHR ''='' \<and> cs = [] then Some [a * 4 + b div 16, b mod 16 * 16 + c div 4]
                 else
                   (case (b64_value s, b64_quanta cs) of
                      (Some d, Some ns) \<Rightarrow>
                        Some ([a * 4 + b div 16, b mod 16 * 16 + c div 4, c mod 4 * 64 + d] @ ns)
                    | _ \<Rightarrow> None))
      | _ \<Rightarrow> None)"
| "b64_quanta _ = None"

definition b64_decode :: "string \<Rightarrow> nat list option" where
  "b64_decode s = b64_quanta (filter (\<lambda>c. c \<noteq> CHR 0x0A \<and> c \<noteq> CHR 0x0D) s)"

definition encode_key :: "bytes \<Rightarrow> string" where
  "encode_key k = b64_encode (map unat k)"

definition decode_key :: "string \<Rightarrow> bytes option" where
  "decode_key s = map_option (map word_of_nat) (b64_decode s)"

lemma index_in_nth: "distinct xs \<Longrightarrow> n < length xs \<Longrightarrow> index_in (xs ! n) xs = Some n"
proof (induction xs arbitrary: n)
  case (Cons x xs)
  then show ?case by (cases n) auto
qed simp

lemma b64_value_char [simp]: "n < 64 \<Longrightarrow> b64_value (b64_char n) = Some n"
proof -
  have "distinct b64_alphabet" "length b64_alphabet = 64" by (simp_all add: b64_alphabet_def)
  then show "n < 64 \<Longrightarrow> ?thesis" by (simp add: b64_value_def b64_char_def index_in_nth)
qed

lemma b64_char_plain:
  "n < 64 \<Longrightarrow> b64_char n \<noteq> CHR ''='' \<and> b64_char n \<noteq> CHR 0x0A \<and> b64_char n \<noteq> CHR 0x0D"
proof -
  have "\<forall>c \<in> set b64_alphabet. c \<noteq> CHR ''='' \<and> c \<noteq> CHR 0x0A \<and> c \<noteq> CHR 0x0D" "length b64_alphabet = 64"
    by (simp_all add: b64_alphabet_def)
  then show "n < 64 \<Longrightarrow> ?thesis" by (simp add: b64_char_def)
qed

lemma b64_digits:
  assumes "(a :: nat) < 256" "b < 256" "c < 256"
  shows "a div 4 < 64" "a mod 4 * 16 < 64" "a mod 4 * 16 + b div 16 < 64" "b mod 16 * 4 < 64"
    "b mod 16 * 4 + c div 64 < 64" "c mod 64 < 64" "b div 16 < 16" "c div 64 < 4"
proof -
  have m: "a mod 4 < 4" "b mod 16 < 16" "c mod 64 < 64" by simp_all
  show d: "b div 16 < 16" "c div 64 < 4" "a div 4 < 64" "c mod 64 < 64"
    using assms by (simp_all add: div_less_iff_less_mult)
  show "a mod 4 * 16 < 64" "a mod 4 * 16 + b div 16 < 64" "b mod 16 * 4 < 64"
    "b mod 16 * 4 + c div 64 < 64"
    using m d by linarith+
qed

lemma b64_quanta_encode: "\<forall>n \<in> set ns. n < 256 \<Longrightarrow> b64_quanta (b64_encode ns) = Some ns"
proof (induction ns rule: b64_encode.induct)
  case (2 a)
  then show ?case using b64_digits [of a 0 0] by simp
next
  case (3 a b)
  then show ?case using b64_digits [of a b 0] b64_char_plain by simp
next
  case (4 a b c ns)
  then show ?case using b64_digits [of a b c] b64_char_plain by simp
qed simp

lemma b64_encode_plain:
  "\<forall>n \<in> set ns. n < 256 \<Longrightarrow> \<forall>c \<in> set (b64_encode ns). c \<noteq> CHR 0x0A \<and> c \<noteq> CHR 0x0D"
proof (induction ns rule: b64_encode.induct)
  case (2 a)
  then show ?case using b64_digits [of a 0 0] b64_char_plain by simp
next
  case (3 a b)
  then show ?case using b64_digits [of a b 0] b64_char_plain by simp
next
  case (4 a b c ns)
  then show ?case using b64_digits [of a b c] b64_char_plain by simp
qed simp

lemma decode_encode_key [simp]: "decode_key (encode_key k) = Some k"
proof -
  have "\<forall>n \<in> set (map unat k). n < 256"
  proof
    fix n assume "n \<in> set (map unat k)"
    then obtain b where "n = unat (b :: byte)" by auto
    then show "n < 256" using unsigned_less [of b] by simp
  qed
  then have "b64_decode (encode_key k) = Some (map unat k)"
    using b64_encode_plain b64_quanta_encode
    unfolding b64_decode_def encode_key_def by (subst filter_True) blast+
  then show ?thesis by (simp add: decode_key_def comp_def)
qed
section \<open>Names and paths\<close>

definition digit_char :: "nat \<Rightarrow> char" where "digit_char d = char_of (48 + d)"

fun decimal :: "nat \<Rightarrow> string" where
  "decimal n = (if n < 10 then [digit_char n] else decimal (n div 10) @ [digit_char (n mod 10)])"

declare decimal.simps [simp del]

text \<open>\<open>fmt.Sprintf("table-%06d.sst", id)\<close> under \<open>sstables/\<close>, and the sidecar beside it.\<close>

definition pad6 :: "string \<Rightarrow> string" where
  "pad6 s = replicate (6 - length s) (CHR ''0'') @ s"

definition sst_path :: "u64 \<Rightarrow> path" where
  "sst_path fid = ''sstables/table-'' @ pad6 (decimal (unat fid)) @ ''.sst''"

definition bloom_path :: "u64 \<Rightarrow> path" where
  "bloom_path fid = ''sstables/table-'' @ pad6 (decimal (unat fid)) @ ''.bloom''"

definition join_dir :: "path \<Rightarrow> path \<Rightarrow> path" where
  "join_dir dir rel = dir @ ''/'' @ rel"

text \<open>\<open>filepath.IsLocal\<close>: relative, not empty, and no \<open>..\<close> climbs above the start.\<close>

fun split_path :: "string \<Rightarrow> string \<Rightarrow> string list" where
  "split_path acc [] = [acc]"
| "split_path acc (c # cs) = (if c = CHR ''/'' then acc # split_path [] cs else split_path (acc @ [c]) cs)"

fun stays_inside :: "nat \<Rightarrow> string list \<Rightarrow> bool" where
  "stays_inside d [] = True"
| "stays_inside d (c # cs) =
     (if c = [] \<or> c = ''.'' then stays_inside d cs
      else if c = ''..'' then d > 0 \<and> stays_inside (d - 1) cs
      else stays_inside (d + 1) cs)"

definition is_local :: "path \<Rightarrow> bool" where
  "is_local p \<longleftrightarrow> p \<noteq> [] \<and> hd p \<noteq> CHR ''/'' \<and> stays_inside 0 (split_path [] p)"

fun decimal_value :: "nat \<Rightarrow> string \<Rightarrow> nat" where
  "decimal_value a [] = a"
| "decimal_value a (c # cs) = decimal_value (10 * a + (of_char c - 48)) cs"

lemma decimal_value_append: "decimal_value a (s @ t) = decimal_value (decimal_value a s) t"
  by (induction s arbitrary: a) auto

lemma digit_value [simp]: "d < 10 \<Longrightarrow> of_char (digit_char d) - 48 = d"
  by (simp add: digit_char_def)

lemma decimal_value_decimal: "decimal_value 0 (decimal n) = n"
proof (induction n rule: decimal.induct)
  case (1 n)
  then show ?case
    by (subst decimal.simps) (auto simp: decimal_value_append)
qed

lemma decimal_value_zeros: "decimal_value 0 (replicate n (CHR ''0'') @ s) = decimal_value 0 s"
  by (induction n) auto

lemma table_paths_inj [simp]:
  "sst_path a = sst_path b \<longleftrightarrow> a = b" "bloom_path a = bloom_path b \<longleftrightarrow> a = b"
  "sst_path a \<noteq> bloom_path b" "bloom_path b \<noteq> sst_path a"
proof -
  have "pad6 (decimal (unat a)) = pad6 (decimal (unat b)) \<Longrightarrow> a = b"
    by (metis decimal_value_decimal decimal_value_zeros pad6_def unsigned_word_eqI)
  then show "sst_path a = sst_path b \<longleftrightarrow> a = b" "bloom_path a = bloom_path b \<longleftrightarrow> a = b"
    by (auto simp: sst_path_def bloom_path_def)
  have "last (sst_path a) = CHR ''t''" "last (bloom_path b) = CHR ''m''"
    by (simp_all add: sst_path_def bloom_path_def)
  then show "sst_path a \<noteq> bloom_path b" "bloom_path b \<noteq> sst_path a" by force+
qed

lemma decimal_plain: "c \<in> set (decimal n) \<Longrightarrow> c \<noteq> CHR ''/''"
proof (induction n rule: decimal.induct)
  case (1 n)
  have "digit_char d \<noteq> CHR ''/''" if "d < 10" for d
    using that by (auto simp: digit_char_def dest!: arg_cong [where f = "of_char :: char \<Rightarrow> nat"])
  from this [of n] this [of "n mod 10"] 1 show ?case by (subst (asm) (2) decimal.simps) (auto split: if_splits)
qed

lemma split_path_plain: "\<forall>c \<in> set s. c \<noteq> CHR ''/'' \<Longrightarrow> split_path acc s = [acc @ s]"
  by (induction s arbitrary: acc) auto

lemma table_paths_local [simp]: "is_local (sst_path fid)" "is_local (bloom_path fid)"
proof -
  have plain: "\<forall>c \<in> set (pad6 (decimal n)). c \<noteq> CHR ''/''" for n
    using decimal_plain by (auto simp: pad6_def)
  have "split_path ''table-'' (pad6 (decimal n) @ ''.sst'') = [''table-'' @ pad6 (decimal n) @ ''.sst'']"
    "split_path ''table-'' (pad6 (decimal n) @ ''.bloom'') = [''table-'' @ pad6 (decimal n) @ ''.bloom'']" for n
    using plain by (subst split_path_plain; auto)+
  then show "is_local (sst_path fid)" "is_local (bloom_path fid)"
    by (simp_all add: is_local_def sst_path_def bloom_path_def)
qed

section \<open>The manifest\<close>

datatype manifest_error = MfErrCorrupt | MfErrVersion

record table_entry =
  te_id :: u64
  te_sst :: path
  te_bloom :: path
  te_count :: u64
  te_min :: string
  te_max :: string

record manifest =
  mf_version :: int
  mf_next_file :: u64
  mf_next_seq :: u64
  mf_tables :: "table_entry list"

definition manifest_version :: int where "manifest_version = 1"

definition new_manifest :: manifest where
  "new_manifest = \<lparr>mf_version = manifest_version, mf_next_file = 1, mf_next_seq = 1, mf_tables = []\<rparr>"

text \<open>\<open>MANIFEST.json\<close> on disk: absent, present but not readable, not decodable, or a value.\<close>

datatype manifest_file = Absent | Unreadable | Undecodable | Decoded manifest

text \<open>The loop of \<open>validateTableEntries\<close> with the identifiers seen so far; every failure is \<open>ErrCorruptManifest\<close>.\<close>

fun validate_tables :: "u64 list \<Rightarrow> table_entry list \<Rightarrow> manifest_error option" where
  "validate_tables seen [] = None"
| "validate_tables seen (te # tes) =
     (if te_id te = 0 then Some MfErrCorrupt
      else if te_id te \<in> set seen then Some MfErrCorrupt
      else if te_sst te = [] then Some MfErrCorrupt
      else if te_bloom te = [] then Some MfErrCorrupt
      else if \<not> is_local (te_sst te) then Some MfErrCorrupt
      else if \<not> is_local (te_bloom te) then Some MfErrCorrupt
      else
        (case decode_key (te_min te) of
           None \<Rightarrow> Some MfErrCorrupt
         | Some mn \<Rightarrow>
             (case decode_key (te_max te) of
                None \<Rightarrow> Some MfErrCorrupt
              | Some mx \<Rightarrow>
                  if length mn > 0 \<and> length mx > 0 \<and> mn > mx then Some MfErrCorrupt
                  else if te_count te = 0 then Some MfErrCorrupt
                  else validate_tables (te_id te # seen) tes)))"

definition load_manifest :: "manifest_file \<Rightarrow> manifest_error + manifest \<times> bool" where
  "load_manifest f =
     (case f of
        Absent \<Rightarrow> Inr (new_manifest, False)
      | Unreadable \<Rightarrow> Inl MfErrCorrupt
      | Undecodable \<Rightarrow> Inl MfErrCorrupt
      | Decoded m \<Rightarrow>
          if mf_version m \<noteq> manifest_version then Inl MfErrVersion
          else if mf_next_file m = 0 then Inl MfErrCorrupt
          else if mf_next_seq m = 0 then Inl MfErrCorrupt
          else (case validate_tables [] (mf_tables m) of Some e \<Rightarrow> Inl e | None \<Rightarrow> Inr (m, True)))"

text \<open>\<open>saveManifest\<close> through \<open>writeFileAtomic\<close>: all or nothing.\<close>

definition save_manifest :: "bool \<Rightarrow> manifest \<Rightarrow> manifest_file \<Rightarrow> bool \<times> manifest_file" where
  "save_manifest fails m f = (if fails then (False, f) else (True, Decoded m))"

text \<open>What the validation accepts.\<close>

definition table_entry_ok :: "table_entry \<Rightarrow> bool" where
  "table_entry_ok te \<longleftrightarrow> te_id te \<noteq> 0 \<and> is_local (te_sst te) \<and> is_local (te_bloom te) \<and> te_count te \<noteq> 0
     \<and> (\<exists>mn mx. decode_key (te_min te) = Some mn \<and> decode_key (te_max te) = Some mx
          \<and> (mn = [] \<or> mx = [] \<or> mn \<le> mx))"

definition manifest_ok :: "manifest \<Rightarrow> bool" where
  "manifest_ok m \<longleftrightarrow> mf_version m = 1 \<and> mf_next_file m \<noteq> 0 \<and> mf_next_seq m \<noteq> 0
     \<and> distinct (map te_id (mf_tables m)) \<and> (\<forall>te \<in> set (mf_tables m). table_entry_ok te)"

lemma validate_tables_None:
  "validate_tables seen tes = None \<longleftrightarrow>
     distinct (map te_id tes) \<and> set seen \<inter> te_id ` set tes = {} \<and> (\<forall>te \<in> set tes. table_entry_ok te)"
proof (induction tes arbitrary: seen)
  case (Cons te tes)
  have n: "\<not> is_local []" by (simp add: is_local_def)
  show ?case
    by (cases "decode_key (te_min te)"; cases "decode_key (te_max te)")
       (auto simp: Cons table_entry_ok_def n not_less)
qed simp

lemma load_decoded:
  "load_manifest (Decoded m) = Inr (m', ex) \<longleftrightarrow> m' = m \<and> ex \<and> manifest_ok m"
  using validate_tables_None [of "[]" "mf_tables m"]
  by (cases "validate_tables [] (mf_tables m)")
     (auto simp: load_manifest_def manifest_ok_def manifest_version_def)

text \<open>A manifest is loaded exactly when it decodes to schema version 1 with non-zero counters, distinct
  non-zero table identifiers, non-zero counts, decodable and ordered key bounds, and paths that stay
  inside the engine directory; a missing file is an empty manifest, and what is saved is loaded back.\<close>

theorem manifest_validation:
  "(load_manifest f = Inr (m, ex) \<longleftrightarrow>
      (f = Absent \<and> m = new_manifest \<and> ex = False) \<or> (f = Decoded m \<and> manifest_ok m \<and> ex = True))
   \<and> (load_manifest (snd (save_manifest False m f)) = Inr (m', True) \<longleftrightarrow> m' = m \<and> manifest_ok m)"
  using load_decoded by (cases f) (auto simp: save_manifest_def, auto simp: load_manifest_def)

end
