(* ===== verification/Engine.thy ===== *)
theory Engine
  imports Wal Memtable Manifest "HOL-Library.AList"
begin

text \<open>
  The single-node engine (\<open>internal/engine/engine.go\<close>): \<open>Open\<close>, \<open>Put\<close>, \<open>Delete\<close>, \<open>Get\<close>, \<open>Scan\<close>,
  \<open>Flush\<close>, \<open>Compact\<close>, \<open>Stats\<close> and \<open>Close\<close> over the write-ahead log, the MemTable, the sorted tables with
  their Bloom filters, and the manifest. The engine's directory is part of its state. An I/O fault of
  a call is an argument that names the step that fails; a step before it succeeds. The two results of
  float arithmetic that size a Bloom filter are the arguments \<open>c\<close> and \<open>r\<close> of \<^const>\<open>bloom_new\<close>.
  The lock makes every operation atomic, so an operation is a function of the state.
\<close>

section \<open>Types\<close>

datatype engine_error = EErrClosed | EErrInvalidOptions | EErrInvalidKey | EErrCorruptManifest
  | EErrManifestVersion | EErrFlushFailed | EErrCompactionFailed | EErrIO | EErrWal wal_error
  | EErrReplay | EErrSst sst_error | EErrBloom | EErrMem mem_error | EErrPanic

text \<open>Where an I/O call of an operation fails; \<open>Io_cleanup\<close> names the files that cannot be removed.\<close>

datatype io_fault = Io_mkdir | Io_create | Io_bloom | Io_open | Io_load | Io_save | Io_remove_log | Io_wal | Io_cleanup "path list"

record engine_options =
  eo_dir :: path
  eo_mem_max :: u64
  eo_sync :: bool
  eo_wal_max :: u32
  eo_sst_max :: u32
  eo_fpr :: float64

record disk =
  d_manifest :: manifest_file
  d_files :: "path \<rightharpoonup> bytes"
  d_wal :: bytes

record table_handle =
  th_id :: u64
  th_reader :: reader
  th_bloom :: bloom_filter
  th_min :: bytes
  th_max :: bytes
  th_sst :: path
  th_bloom_path :: path

record engine =
  en_opts :: engine_options
  en_wal :: wal
  en_mem :: memtable
  en_tables :: "table_handle list"
  en_next_seq :: u64
  en_next_file :: u64
  en_flushes :: u64
  en_compactions :: u64
  en_last_in :: nat
  en_last_out :: u64
  en_checks :: u64
  en_skips :: u64
  en_closed :: bool
  en_disk :: disk

record kv_entry =
  kv_key :: bytes
  kv_value :: bytes
  kv_seq :: u64

record engine_stats =
  es_mem_entries :: nat
  es_mem_bytes :: u64
  es_tables :: nat
  es_next_seq :: u64
  es_flushes :: u64
  es_checks :: u64
  es_skips :: u64
  es_compactions :: u64
  es_last_in :: nat
  es_last_out :: u64

definition default_mem_bytes :: u64 where "default_mem_bytes = push_bit 20 64"
definition default_bloom_fpr :: float64 where "default_bloom_fpr = 0x3F847AE147AE147B"

text \<open>A float equals 0 when its bits are those of \<open>+0\<close> or \<open>-0\<close>.\<close>

definition float_zero :: "float64 \<Rightarrow> bool" where
  "float_zero p \<longleftrightarrow> p = 0 \<or> p = 0x8000000000000000"

definition wal_opts_of :: "engine_options \<Rightarrow> wal_options" where
  "wal_opts_of o' = \<lparr>sync_on_write = eo_sync o', wal_max_record = eo_wal_max o'\<rparr>"

section \<open>Open\<close>

definition load_bloom :: "disk \<Rightarrow> path \<Rightarrow> engine_error + bloom_filter" where
  "load_bloom d p =
     (case d_files d p of
        None \<Rightarrow> Inl EErrIO
      | Some bs \<Rightarrow> (case bloom_unmarshal bs of Inl _ \<Rightarrow> Inl EErrBloom | Inr f \<Rightarrow> Inr f))"

definition open_table :: "engine_options \<Rightarrow> disk \<Rightarrow> table_entry \<Rightarrow> engine_error + table_handle" where
  "open_table o' d te =
     (case d_files d (te_sst te) of
        None \<Rightarrow> Inl EErrIO
      | Some bs \<Rightarrow>
          (case sst_open (join_dir (eo_dir o') (te_sst te)) (eo_sst_max o') bs of
             Inl e \<Rightarrow> Inl (EErrSst e)
           | Inr rd \<Rightarrow>
               (case load_bloom d (te_bloom te) of
                  Inl e \<Rightarrow> Inl e
                | Inr bf \<Rightarrow>
                    (case decode_key (te_min te) of
                       None \<Rightarrow> Inl EErrCorruptManifest
                     | Some mn \<Rightarrow>
                         (case decode_key (te_max te) of
                            None \<Rightarrow> Inl EErrCorruptManifest
                          | Some mx \<Rightarrow>
                              Inr \<lparr>th_id = te_id te, th_reader = rd, th_bloom = bf, th_min = mn, th_max = mx,
                                   th_sst = te_sst te, th_bloom_path = te_bloom te\<rparr>)))))"

fun open_tables :: "engine_options \<Rightarrow> disk \<Rightarrow> table_entry list \<Rightarrow> engine_error + table_handle list" where
  "open_tables o' d [] = Inr []"
| "open_tables o' d (te # tes) =
     (case open_table o' d te of
        Inl e \<Rightarrow> Inl e
      | Inr th \<Rightarrow> (case open_tables o' d tes of Inl e \<Rightarrow> Inl e | Inr ths \<Rightarrow> Inr (th # ths)))"

text \<open>The callback of the replay: the MemTable and the highest sequence number seen.\<close>

definition replay_fn :: "wal_record \<Rightarrow> memtable \<times> u64 \<Rightarrow> engine_error option \<times> memtable \<times> u64" where
  "replay_fn r s =
     (let mx = (if wr_seq r > snd s then wr_seq r else snd s) in
      if wr_type r = record_put then
        (case mt_put (wr_key r) (wr_value r) (wr_seq r) (fst s) of (e, m) \<Rightarrow> (map_option EErrMem e, m, mx))
      else if wr_type r = record_delete then
        (case mt_delete (wr_key r) (wr_seq r) (fst s) of (e, m) \<Rightarrow> (map_option EErrMem e, m, mx))
      else (Some EErrReplay, fst s, mx))"

definition effective_options :: "engine_options \<Rightarrow> engine_options" where
  "effective_options o' =
     o'\<lparr>eo_mem_max := (if eo_mem_max o' = 0 then default_mem_bytes else eo_mem_max o'),
        eo_fpr := (if float_zero (eo_fpr o') then default_bloom_fpr else eo_fpr o')\<rparr>"

definition engine_open :: "io_fault option \<Rightarrow> engine_options \<Rightarrow> disk \<Rightarrow> (engine_error + engine) \<times> disk" where
  "engine_open fault o0 d =
     (if eo_dir o0 = [] then (Inl EErrInvalidOptions, d)
      else
        let o' = effective_options o0 in
        if \<not> fpr_valid (eo_fpr o') then (Inl EErrInvalidOptions, d)
        else if fault = Some Io_mkdir then (Inl EErrIO, d)
        else
          (case load_manifest (d_manifest d) of
             Inl MfErrCorrupt \<Rightarrow> (Inl EErrCorruptManifest, d)
           | Inl MfErrVersion \<Rightarrow> (Inl EErrManifestVersion, d)
           | Inr (m, existed) \<Rightarrow>
               if \<not> existed \<and> \<not> fst (save_manifest (fault = Some Io_save) m (d_manifest d)) then (Inl EErrIO, d)
               else
                 let d' = (if existed then d
                           else d\<lparr>d_manifest := snd (save_manifest (fault = Some Io_save) m (d_manifest d))\<rparr>)
                 in
                 (case open_tables o' d' (mf_tables m) of
                    Inl e \<Rightarrow> (Inl e, d')
                  | Inr ths \<Rightarrow>
                      if fault = Some Io_wal then (Inl EErrIO, d')
                      else
                        (case wal_replay (wal_open (wal_opts_of o') (d_wal d')) replay_fn (mt_new (eo_mem_max o'), 0) of
                           (Some e, w, s) \<Rightarrow> (Inl EErrReplay, d')
                         | (None, w, mem, maxSeq) \<Rightarrow>
                             (Inr \<lparr>en_opts = o', en_wal = w, en_mem = mem, en_tables = ths,
                                   en_next_seq = (if maxSeq \<ge> mf_next_seq m then maxSeq + 1 else mf_next_seq m),
                                   en_next_file = mf_next_file m, en_flushes = 0, en_compactions = 0,
                                   en_last_in = 0, en_last_out = 0, en_checks = 0, en_skips = 0,
                                   en_closed = False, en_disk = d'\<rparr>,
                              d')))))"

text \<open>The directory as a later \<open>Open\<close> finds it: the log file is the log's.\<close>

definition directory :: "engine \<Rightarrow> disk" where
  "directory e = (en_disk e)\<lparr>d_wal := f_bytes (w_file (en_wal e))\<rparr>"

section \<open>Put and Delete\<close>

definition engine_put ::
    "bytes \<Rightarrow> bytes \<Rightarrow> write_outcome \<Rightarrow> bool \<Rightarrow> engine \<Rightarrow> engine_error option \<times> engine" where
  "engine_put key val wo sync_ok e =
     (if length key = 0 then (Some EErrInvalidKey, e)
      else if en_closed e then (Some EErrClosed, e)
      else
        let seq = en_next_seq e in
        (case wal_append (en_wal e) \<lparr>wr_type = record_put, wr_key = key, wr_value = val, wr_seq = seq\<rparr> wo sync_ok of
           (Inl er, w) \<Rightarrow> (Some (EErrWal er), e\<lparr>en_wal := w\<rparr>)
         | (Inr _, w) \<Rightarrow>
             (case mt_put key val seq (en_mem e) of
                (er, m) \<Rightarrow> (map_option EErrMem er, e\<lparr>en_wal := w, en_next_seq := seq + 1, en_mem := m\<rparr>))))"

definition engine_delete ::
    "bytes \<Rightarrow> write_outcome \<Rightarrow> bool \<Rightarrow> engine \<Rightarrow> engine_error option \<times> engine" where
  "engine_delete key wo sync_ok e =
     (if length key = 0 then (Some EErrInvalidKey, e)
      else if en_closed e then (Some EErrClosed, e)
      else
        let seq = en_next_seq e in
        (case wal_append (en_wal e) \<lparr>wr_type = record_delete, wr_key = key, wr_value = [], wr_seq = seq\<rparr> wo sync_ok of
           (Inl er, w) \<Rightarrow> (Some (EErrWal er), e\<lparr>en_wal := w\<rparr>)
         | (Inr _, w) \<Rightarrow>
             (case mt_delete key seq (en_mem e) of
                (er, m) \<Rightarrow> (map_option EErrMem er, e\<lparr>en_wal := w, en_next_seq := seq + 1, en_mem := m\<rparr>))))"

section \<open>Get\<close>

text \<open>The tables newest first, with the two Bloom counters.\<close>

fun get_tables :: "bytes \<Rightarrow> table_handle list \<Rightarrow> u64 \<Rightarrow> u64 \<Rightarrow> (engine_error + bytes option) \<times> u64 \<times> u64" where
  "get_tables key [] checks skips = (Inr None, checks, skips)"
| "get_tables key (th # ths) checks skips =
     (if length (th_min th) > 0 \<and> key < th_min th then get_tables key ths checks skips
      else if length (th_max th) > 0 \<and> key > th_max th then get_tables key ths checks skips
      else
        (case bloom_might_contain (th_bloom th) key of
           None \<Rightarrow> (Inl EErrPanic, checks + 1, skips)
         | Some False \<Rightarrow> get_tables key ths (checks + 1) (skips + 1)
         | Some True \<Rightarrow>
             (case reader_get (th_reader th) key of
                Inl er \<Rightarrow> (Inl (EErrSst er), checks + 1, skips)
              | Inr None \<Rightarrow> get_tables key ths (checks + 1) skips
              | Inr (Some en) \<Rightarrow>
                  (Inr (if e_kind en = entry_put then Some (e_value en) else None), checks + 1, skips))))"

definition engine_get :: "bytes \<Rightarrow> engine \<Rightarrow> (engine_error + bytes option) \<times> engine" where
  "engine_get key e =
     (if length key = 0 then (Inr None, e)
      else if en_closed e then (Inl EErrClosed, e)
      else
        (case mt_get (en_mem e) key of
           Some en \<Rightarrow> (Inr (if e_kind en = entry_put then Some (e_value en) else None), e)
         | None \<Rightarrow>
             (case get_tables key (rev (en_tables e)) (en_checks e) (en_skips e) of
                (res, checks, skips) \<Rightarrow> (res, e\<lparr>en_checks := checks, en_skips := skips\<rparr>))))"

section \<open>Scan\<close>

text \<open>The \<open>best\<close> map of \<open>Scan\<close> and \<open>Compact\<close>: an entry replaces a candidate of a lower number only.\<close>

type_synonym candidates = "(bytes \<times> entry) list"

definition merge_entry :: "candidates \<Rightarrow> entry \<Rightarrow> candidates" where
  "merge_entry best en =
     (case map_of best (e_key en) of
        Some c \<Rightarrow> if e_seq en \<le> e_seq c then best else AList.update (e_key en) en best
      | None \<Rightarrow> AList.update (e_key en) en best)"

text \<open>The kind a candidate of \<open>Scan\<close> gets: everything but a tombstone counts as a put.\<close>

definition scan_kind :: "entry \<Rightarrow> entry" where
  "scan_kind en = en\<lparr>e_kind := (if e_kind en = entry_delete then entry_delete else entry_put)\<rparr>"

fun scan_tables :: "bytes \<Rightarrow> bytes \<Rightarrow> table_handle list \<Rightarrow> candidates \<Rightarrow> engine_error + candidates" where
  "scan_tables start end' [] best = Inr best"
| "scan_tables start end' (th # ths) best =
     (case reader_scan (th_reader th) start end' of
        Inl er \<Rightarrow> Inl (EErrSst er)
      | Inr es \<Rightarrow> scan_tables start end' ths (foldl merge_entry best (map scan_kind es)))"

definition live_sorted :: "candidates \<Rightarrow> entry list" where
  "live_sorted best = sort_key e_key (map snd (filter (\<lambda>(k, c). e_kind c = entry_put) best))"

definition engine_scan :: "bytes \<Rightarrow> bytes \<Rightarrow> engine \<Rightarrow> engine_error + kv_entry list" where
  "engine_scan start end' e =
     (if en_closed e then Inl EErrClosed
      else
        (case scan_tables start end' (en_tables e)
                (foldl merge_entry [] (map scan_kind (mt_scan (en_mem e) start end'))) of
           Inl er \<Rightarrow> Inl er
         | Inr best \<Rightarrow>
             Inr (map (\<lambda>c. \<lparr>kv_key = e_key c, kv_value = e_value c, kv_seq = e_seq c\<rparr>) (live_sorted best))))"

section \<open>Writing one table\<close>

text \<open>
  The part \<open>flush\<close> and \<open>compact\<close> share: the table file, the Bloom filter over its keys, the sidecar
  and the reader of the new file, with the removals of every failure. The result is the new handle and
  its manifest row, or an error; the directory comes with it.
\<close>

definition remove_file :: "path \<Rightarrow> disk \<Rightarrow> disk" where
  "remove_file p d = d\<lparr>d_files := (d_files d)(p := None)\<rparr>"

definition write_file :: "path \<Rightarrow> bytes \<Rightarrow> disk \<Rightarrow> disk" where
  "write_file p bs d = d\<lparr>d_files := (d_files d)(p \<mapsto> bs)\<rparr>"

definition make_table ::
    "(u64 \<Rightarrow> float64 \<Rightarrow> u64) \<Rightarrow> (u64 \<Rightarrow> u64 \<Rightarrow> int) \<Rightarrow> io_fault option \<Rightarrow> engine_options \<Rightarrow> u64 \<Rightarrow> entry list \<Rightarrow> disk
     \<Rightarrow> (engine_error + table_handle \<times> table_entry) \<times> disk" where
  "make_table c r fault o' fileID es d =
     (let sstRel = sst_path fileID; bloomRel = bloom_path fileID; sstAbs = join_dir (eo_dir o') sstRel in
      if fault = Some Io_create then (Inl EErrIO, d)
      else
        (case sst_create sstAbs es (eo_sst_max o') of
           Inl er \<Rightarrow> (Inl (EErrSst er), d)
         | Inr (bs, md) \<Rightarrow>
             let d1 = write_file sstRel bs d in
             (case bloom_new c r (word_of_nat (length es)) (eo_fpr o') of
                Inl _ \<Rightarrow> (Inl EErrBloom, remove_file sstRel d1)
              | Inr bf0 \<Rightarrow>
                  (case bloom_add_all bf0 (map e_key es) of
                     None \<Rightarrow> (Inl EErrPanic, d1)
                   | Some bf \<Rightarrow>
                       if fault = Some Io_bloom then (Inl EErrIO, remove_file sstRel d1)
                       else
                         let d2 = write_file bloomRel (bloom_marshal bf) d1;
                             undo = remove_file bloomRel (remove_file sstRel d2) in
                         if fault = Some Io_open then (Inl EErrIO, undo)
                         else
                           (case sst_open sstAbs (eo_sst_max o') bs of
                              Inl er \<Rightarrow> (Inl (EErrSst er), undo)
                            | Inr rd \<Rightarrow>
                                (Inr (\<lparr>th_id = fileID, th_reader = rd, th_bloom = bf, th_min = md_min md,
                                       th_max = md_max md, th_sst = sstRel, th_bloom_path = bloomRel\<rparr>,
                                      \<lparr>te_id = fileID, te_sst = sstRel, te_bloom = bloomRel, te_count = md_count md,
                                       te_min = encode_key (md_min md), te_max = encode_key (md_max md)\<rparr>), d2))))))"

text \<open>The manifest step: reload, change, save; \<open>None\<close> when the reload or the save fails.\<close>

definition commit_manifest :: "io_fault option \<Rightarrow> (manifest \<Rightarrow> manifest) \<Rightarrow> disk \<Rightarrow> disk option" where
  "commit_manifest fault f d =
     (if fault = Some Io_load then None
      else
        (case load_manifest (d_manifest d) of
           Inl _ \<Rightarrow> None
         | Inr (m, _) \<Rightarrow>
             (case save_manifest (fault = Some Io_save) (f m) (d_manifest d) of
                (False, _) \<Rightarrow> None
              | (True, mf) \<Rightarrow> Some (d\<lparr>d_manifest := mf\<rparr>))))"

section \<open>Flush\<close>

definition flush_entries :: "memtable \<Rightarrow> entry list" where
  "flush_entries m = map scan_kind (mt_scan m [] [])"

definition engine_flush ::
    "(u64 \<Rightarrow> float64 \<Rightarrow> u64) \<Rightarrow> (u64 \<Rightarrow> u64 \<Rightarrow> int) \<Rightarrow> io_fault option \<Rightarrow> engine \<Rightarrow> engine_error option \<times> engine" where
  "engine_flush c r fault e =
     (if en_closed e then (Some EErrClosed, e)
      else if mt_len (en_mem e) = 0 then (None, e)
      else
        let fileID = en_next_file e in
        (case make_table c r fault (en_opts e) fileID (flush_entries (en_mem e)) (en_disk e) of
           (Inl _, d) \<Rightarrow> (Some EErrFlushFailed, e\<lparr>en_disk := d\<rparr>)
         | (Inr (th, te), d) \<Rightarrow>
             (case commit_manifest fault
                 (\<lambda>m. m\<lparr>mf_next_file := fileID + 1, mf_next_seq := en_next_seq e, mf_tables := mf_tables m @ [te]\<rparr>) d of
                None \<Rightarrow>
                  (Some EErrFlushFailed, e\<lparr>en_disk := remove_file (bloom_path fileID) (remove_file (sst_path fileID) d)\<rparr>)
              | Some d' \<Rightarrow>
                  let e' = e\<lparr>en_disk := d', en_next_file := fileID + 1, en_tables := en_tables e @ [th],
                             en_mem := mt_new (eo_mem_max (en_opts e)),
                             en_wal := wal_open (wal_opts_of (en_opts e))
                               (if fault = Some Io_remove_log then f_bytes (w_file (en_wal e)) else [])\<rparr>
                  in if fault = Some Io_wal then (Some EErrIO, e'\<lparr>en_closed := True\<rparr>)
                     else (None, e'\<lparr>en_flushes := en_flushes e + 1\<rparr>))))"

section \<open>Compact\<close>

fun compact_merge :: "table_handle list \<Rightarrow> candidates \<Rightarrow> engine_error + candidates" where
  "compact_merge [] best = Inr best"
| "compact_merge (th # ths) best =
     (case reader_scan (th_reader th) [] [] of
        Inl er \<Rightarrow> Inl (EErrSst er)
      | Inr es \<Rightarrow> compact_merge ths (foldl merge_entry best es))"

text \<open>Removing the old files is best effort: the first failure is returned, after the commit; a file that
  is gone already is no failure.\<close>

definition cleanup_blocked :: "io_fault option \<Rightarrow> path \<Rightarrow> bool" where
  "cleanup_blocked fault p = (case fault of Some (Io_cleanup ps) \<Rightarrow> p \<in> set ps | _ \<Rightarrow> False)"

fun remove_paths :: "io_fault option \<Rightarrow> path list \<Rightarrow> bool \<Rightarrow> disk \<Rightarrow> bool \<times> disk" where
  "remove_paths fault [] failed d = (failed, d)"
| "remove_paths fault (p # ps) failed d =
     (if d_files d p = None then remove_paths fault ps failed d
      else if cleanup_blocked fault p then remove_paths fault ps True d
      else remove_paths fault ps failed (remove_file p d))"

definition compact_done :: "io_fault option \<Rightarrow> table_handle list \<Rightarrow> nat \<Rightarrow> engine \<Rightarrow> engine_error option \<times> engine" where
  "compact_done fault old nout e =
     (case remove_paths fault (concat (map (\<lambda>th. [th_sst th, th_bloom_path th]) old)) False (en_disk e) of
        (failed, d) \<Rightarrow>
          (if failed then Some EErrIO else None,
           e\<lparr>en_disk := d, en_compactions := en_compactions e + 1, en_last_in := length old,
             en_last_out := word_of_nat nout\<rparr>))"

definition engine_compact ::
    "(u64 \<Rightarrow> float64 \<Rightarrow> u64) \<Rightarrow> (u64 \<Rightarrow> u64 \<Rightarrow> int) \<Rightarrow> io_fault option \<Rightarrow> engine \<Rightarrow> engine_error option \<times> engine" where
  "engine_compact c r fault e =
     (if en_closed e then (Some EErrClosed, e)
      else if length (en_tables e) \<le> 1 then (None, e)
      else
        (case compact_merge (en_tables e) [] of
           Inl _ \<Rightarrow> (Some EErrCompactionFailed, e)
         | Inr best \<Rightarrow>
             let es = live_sorted best; old = en_tables e; fileID = en_next_file e in
             if es = [] then
               (case commit_manifest fault (\<lambda>m. m\<lparr>mf_next_seq := en_next_seq e, mf_tables := []\<rparr>) (en_disk e) of
                  None \<Rightarrow> (Some EErrCompactionFailed, e)
                | Some d \<Rightarrow> compact_done fault old 0 (e\<lparr>en_disk := d, en_tables := []\<rparr>))
             else
               (case make_table c r fault (en_opts e) fileID es (en_disk e) of
                  (Inl _, d) \<Rightarrow> (Some EErrCompactionFailed, e\<lparr>en_disk := d\<rparr>)
                | (Inr (th, te), d) \<Rightarrow>
                    (case commit_manifest fault
                        (\<lambda>m. m\<lparr>mf_next_file := fileID + 1, mf_next_seq := en_next_seq e, mf_tables := [te]\<rparr>) d of
                       None \<Rightarrow>
                         (Some EErrCompactionFailed,
                          e\<lparr>en_disk := remove_file (bloom_path fileID) (remove_file (sst_path fileID) d)\<rparr>)
                     | Some d' \<Rightarrow>
                         compact_done fault old (length es)
                           (e\<lparr>en_disk := d', en_next_file := fileID + 1, en_tables := [th]\<rparr>)))))"

section \<open>Stats and Close\<close>

definition engine_stats_of :: "engine \<Rightarrow> engine_stats" where
  "engine_stats_of e =
     \<lparr>es_mem_entries = mt_len (en_mem e), es_mem_bytes = mt_approx_bytes (en_mem e), es_tables = length (en_tables e),
      es_next_seq = en_next_seq e, es_flushes = en_flushes e, es_checks = en_checks e, es_skips = en_skips e,
      es_compactions = en_compactions e, es_last_in = en_last_in e, es_last_out = en_last_out e\<rparr>"

definition engine_close :: "engine \<Rightarrow> engine_error option \<times> engine" where
  "engine_close e =
     (if en_closed e then (None, e)
      else
        (case wal_close (en_wal e) of
           (werr, w) \<Rightarrow>
             let closes = map (\<lambda>th. (fst (reader_close (th_reader th)),
                                   th\<lparr>th_reader := snd (reader_close (th_reader th))\<rparr>)) (en_tables e);
                 errs = (case werr of None \<Rightarrow> [] | Some er \<Rightarrow> [EErrWal er])
                        @ map EErrSst (List.map_filter fst closes)
             in (if errs = [] then None else Some (hd errs),
                 e\<lparr>en_closed := True, en_wal := w, en_tables := map snd closes\<rparr>)))"

end
