(* ===== verification/EngineInv.thy ===== *)
theory EngineInv
  imports Engine
begin

text \<open>
  What the engine promises: the map it stands for, the invariant its operations keep, and the lemmas
  that \<open>Get\<close>, \<open>Scan\<close>, \<open>Flush\<close>, \<open>Compact\<close> and a reopening answer for that map.
\<close>

section \<open>Layers\<close>

text \<open>The sources of an engine, newest first, and the first entry found in them.\<close>

fun layer_find :: "(bytes \<Rightarrow> entry option) list \<Rightarrow> bytes \<Rightarrow> entry option" where
  "layer_find [] k = None"
| "layer_find (l # ls) k = (case l k of Some e \<Rightarrow> Some e | None \<Rightarrow> layer_find ls k)"

definition table_layer :: "table_handle \<Rightarrow> bytes \<Rightarrow> entry option" where
  "table_layer th = table_get (th_reader th)"

definition layers :: "engine \<Rightarrow> (bytes \<Rightarrow> entry option) list" where
  "layers e = mt_get (en_mem e) # map table_layer (rev (en_tables e))"

definition engine_view :: "engine \<Rightarrow> bytes \<Rightarrow> bytes option" where
  "engine_view e k = Option.bind (layer_find (layers e) k) live"

definition table_holds :: "table_handle \<Rightarrow> entry list \<Rightarrow> bool" where
  "table_holds th es \<longleftrightarrow> reader_ok (th_reader th) es \<and> es \<noteq> [] \<and> th_min th = e_key (hd es)
     \<and> th_max th = e_key (last es) \<and> bloom_ok (th_bloom th) \<and> (\<forall>e \<in> set es. bloom_has (th_bloom th) (e_key e))"

definition tables_ok :: "table_handle list \<Rightarrow> bool" where
  "tables_ok ths \<longleftrightarrow> (\<forall>th \<in> set ths. \<exists>es. table_holds th es)"

lemma layer_find_append:
  "layer_find (ls @ ms) k = (case layer_find ls k of Some e \<Rightarrow> Some e | None \<Rightarrow> layer_find ms k)"
  by (induction ls) (auto split: option.splits)

lemma table_layer_eq: "table_holds th es \<Longrightarrow> table_layer th k = find (\<lambda>e. e_key e = k) es"
  using reader_get_eq [of "th_reader th" es k] by (simp add: table_layer_def table_get_def table_holds_def)

lemma table_holds_sorted: "table_holds th es \<Longrightarrow> strictly_sorted (map e_key es)"
  by (simp add: table_holds_def reader_ok_def)

lemma table_layer_iff:
  "table_holds th es \<Longrightarrow> table_layer th k = Some e \<longleftrightarrow> e \<in> set es \<and> e_key e = k"
  by (simp add: table_layer_eq find_key_iff table_holds_sorted)

lemma strictly_sorted_hd_last:
  assumes "strictly_sorted (map e_key es)" "e \<in> set es"
  shows "e_key (hd es) \<le> e_key e" "e_key e \<le> e_key (last es)"
proof -
  obtain i where i: "i < length es" "es ! i = e" using assms(2) by (auto simp: in_set_conv_nth)
  have m: "e_key (es ! a) \<le> e_key (es ! b)" if "a \<le> b" "b < length es" for a b
    using sorted_nth_mono [OF strictly_sorted_sorted [OF assms(1)], of a b] that by simp
  have "es \<noteq> []" using assms(2) by auto
  then show "e_key (hd es) \<le> e_key e" "e_key e \<le> e_key (last es)"
    using m [of 0 i] m [of i "length es - 1"] i by (auto simp: hd_conv_nth last_conv_nth)
qed

lemma bloom_might_contain_total: "bloom_ok f \<Longrightarrow> \<exists>b. bloom_might_contain f k = Some b"
  using contains_loop_total [of "bf_bits f" "bf_words f"]
  by (auto simp: bloom_might_contain_def bloom_ok_def split: prod.splits)

text \<open>Skipping by bounds and by the filter never skips the key.\<close>

lemma get_tables_correct:
  assumes "tables_ok ths" "k \<noteq> []"
  shows "fst (get_tables k ths a b) = Inr (Option.bind (layer_find (map table_layer ths) k) live)"
  using assms(1)
proof (induction ths arbitrary: a b)
  case (Cons th ths)
  then obtain es where h: "table_holds th es" and ok: "tables_ok ths" by (auto simp: tables_ok_def)
  note IH = Cons.IH [OF ok]
  have srt: "strictly_sorted (map e_key es)" using h by (rule table_holds_sorted)
  have absent: "table_layer th k = None" if "\<forall>e \<in> set es. e_key e \<noteq> k"
    using that table_layer_iff [OF h] by (metis not_None_eq)
  obtain c where c: "bloom_might_contain (th_bloom th) k = Some c"
    using bloom_might_contain_total [of "th_bloom th" k] h by (auto simp: table_holds_def)
  consider "k < th_min th" | "th_max th < k" | "\<not> k < th_min th" "\<not> th_max th < k" "\<not> c"
    | "\<not> k < th_min th" "\<not> th_max th < k" c by blast
  then show ?case
  proof cases
    case 1
    then have "table_layer th k = None" "th_min th \<noteq> []"
      using absent strictly_sorted_hd_last(1) [OF srt] h by (fastforce simp: table_holds_def)+
    then show ?thesis using 1 IH by simp
  next
    case 2
    have "e_key (hd es) \<noteq> []" "hd es \<in> set es" "last es \<in> set es" "\<forall>e \<in> set es. e_key e \<noteq> []"
      using h by (auto simp: table_holds_def reader_ok_def)
    then have "table_layer th k = None" "th_max th \<noteq> []"
      using 2 absent strictly_sorted_hd_last(2) [OF srt] h by (fastforce simp: table_holds_def)+
    then show ?thesis using 2 IH by simp
  next
    case 3
    then have "\<forall>e \<in> set es. e_key e \<noteq> k" using h c by (auto simp: table_holds_def bloom_has_def)
    then have "table_layer th k = None" by (rule absent)
    then show ?thesis using 3 c IH by simp
  next
    case 4
    have "reader_get (th_reader th) k = Inr (table_layer th k)"
      using h reader_get_eq [of "th_reader th" es k] table_layer_eq [OF h] by (simp add: table_holds_def)
    then show ?thesis using 4 c IH by (auto simp: live_def split: option.splits)
  qed
qed simp

definition same_but_counters :: "engine \<Rightarrow> engine \<Rightarrow> bool" where
  "same_but_counters e e' \<longleftrightarrow> e' = e\<lparr>en_checks := en_checks e', en_skips := en_skips e'\<rparr>"

lemma engine_get_correct:
  assumes "\<not> en_closed e" "tables_ok (en_tables e)" "mt_inv (en_mem e)"
  shows "fst (engine_get k e) = Inr (engine_view e k)" "same_but_counters e (snd (engine_get k e))"
proof -
  have ok: "tables_ok (rev (en_tables e))" using assms(2) by (simp add: tables_ok_def)
  have nil: "layer_find (map table_layer ths) [] = None" if "tables_ok ths" for ths
    using that
  proof (induction ths)
    case (Cons th ths)
    then obtain es where h: "table_holds th es" by (auto simp: tables_ok_def)
    have "table_layer th [] = None"
      using h table_layer_iff [OF h] by (metis not_None_eq reader_ok_def table_holds_def)
    then show ?case using Cons by (simp add: tables_ok_def)
  qed simp
  show "fst (engine_get k e) = Inr (engine_view e k)"
    using assms(1) get_tables_correct [OF ok, of k "en_checks e" "en_skips e"] nil [OF ok]
    by (cases "k = []")
       (auto simp: engine_get_def engine_view_def layers_def live_def mt_get_def split: option.splits prod.splits)
  show "same_but_counters e (snd (engine_get k e))"
    by (auto simp: engine_get_def same_but_counters_def split: option.splits prod.splits)
qed

section \<open>Merging by sequence number\<close>

text \<open>How the \<open>best\<close> map treats one key.\<close>

definition pick :: "entry option \<Rightarrow> entry \<Rightarrow> entry option" where
  "pick c e = (case c of Some c' \<Rightarrow> if e_seq e \<le> e_seq c' then Some c' else Some e | None \<Rightarrow> Some e)"

lemma map_of_merge_entry:
  "map_of (merge_entry best e) k = (if e_key e = k then pick (map_of best k) e else map_of best k)"
  by (auto simp: merge_entry_def pick_def update_conv' split: option.splits)

lemma map_of_merge:
  "map_of (foldl merge_entry best es) k = foldl pick (map_of best k) (filter (\<lambda>e. e_key e = k) es)"
  by (induction es arbitrary: best) (auto simp: map_of_merge_entry)

definition candidates_ok :: "candidates \<Rightarrow> bool" where
  "candidates_ok best \<longleftrightarrow> distinct (map fst best) \<and> (\<forall>(k, c) \<in> set best. e_key c = k)"

lemma set_update: "set (AList.update k v al) \<subseteq> insert (k, v) (set al)"
  by (induction al) auto

lemma candidates_ok_merge: "candidates_ok best \<Longrightarrow> candidates_ok (foldl merge_entry best es)"
proof (induction es arbitrary: best)
  case (Cons e es)
  have "candidates_ok (merge_entry best e)"
  proof -
    have "\<forall>(k, c) \<in> set (AList.update (e_key e) e best). e_key c = k"
      using Cons.prems set_update [of "e_key e" e best] by (auto simp: candidates_ok_def)
    then show ?thesis
      using Cons.prems by (auto simp: merge_entry_def candidates_ok_def distinct_update split: option.splits)
  qed
  then show ?case using Cons.IH by simp
qed simp

lemma live_sorted_props:
  assumes "candidates_ok best"
  shows "strictly_sorted (map e_key (live_sorted best))"
    and "e \<in> set (live_sorted best) \<longleftrightarrow> map_of best (e_key e) = Some e \<and> e_kind e = entry_put"
proof -
  let ?fs = "filter (\<lambda>(k, c). e_kind c = entry_put) best"
  have keys: "map e_key (map snd ?fs) = map fst ?fs"
    using assms by (auto simp: candidates_ok_def)
  have "distinct (map fst ?fs)"
    using assms by (simp add: candidates_ok_def distinct_map_filter)
  then have "distinct (map e_key (map snd ?fs))" unfolding keys .
  then have "distinct (map e_key (live_sorted best))"
    unfolding live_sorted_def distinct_map [of e_key] by simp
  moreover have "sorted (map e_key (live_sorted best))" by (simp add: live_sorted_def)
  ultimately show "strictly_sorted (map e_key (live_sorted best))"
    by (simp add: strictly_sorted_def strict_sorted_iff)
  show "e \<in> set (live_sorted best) \<longleftrightarrow> map_of best (e_key e) = Some e \<and> e_kind e = entry_put"
    using assms by (force simp: live_sorted_def candidates_ok_def)
qed

lemma pick_low: "\<forall>h \<in> set hs. e_seq h \<le> e_seq m \<Longrightarrow> foldl pick (Some m) hs = Some m"
  by (induction hs) (auto simp: pick_def)

lemma pick_increasing:
  assumes "sorted_wrt (\<lambda>a b. e_seq a < e_seq b) hs"
  shows "foldl pick None hs = (if hs = [] then None else Some (last hs))"
proof -
  have *: "foldl pick (Some m) hs = Some (last (m # hs))" if "sorted_wrt (\<lambda>a b. e_seq a < e_seq b) (m # hs)" for m hs
    using that
  proof (induction hs arbitrary: m)
    case (Cons h hs)
    then have "pick (Some m) h = Some h" by (auto simp: pick_def)
    then show ?case using Cons by auto
  qed simp
  show ?thesis
  proof (cases hs)
    case (Cons a as)
    then show ?thesis using * [of a as] assms by (simp add: pick_def)
  qed simp
qed

text \<open>The hits of a list of tables for a key, oldest first.\<close>

definition hits :: "table_handle list \<Rightarrow> bytes \<Rightarrow> entry list" where
  "hits ths k = List.map_filter (\<lambda>th. table_layer th k) ths"

lemma hits_simps [simp]: "hits [] k = []"
  "hits (th # ths) k = (case table_layer th k of None \<Rightarrow> hits ths k | Some e \<Rightarrow> e # hits ths k)"
  by (auto simp: hits_def map_filter_simps split: option.splits)

lemma hits_append [simp]: "hits (as @ bs) k = hits as k @ hits bs k"
  by (induction as) (auto split: option.splits)

lemma layer_find_hits:
  "layer_find (map table_layer (rev ths)) k = (if hits ths k = [] then None else Some (last (hits ths k)))"
  by (induction ths rule: rev_induct) (auto split: option.splits)

lemma filter_key_scan:
  assumes "table_holds th es"
  shows "filter (\<lambda>e. e_key e = k) es = (case table_layer th k of None \<Rightarrow> [] | Some e \<Rightarrow> [e])"
proof -
  have s: "strictly_sorted (map e_key es)" using assms by (rule table_holds_sorted)
  have "filter (\<lambda>e. e_key e = k) es = (case find (\<lambda>e. e_key e = k) es of None \<Rightarrow> [] | Some e \<Rightarrow> [e])"
    using s
  proof (induction es)
    case (Cons a es)
    show ?case
    proof (cases "e_key a = k")
      case True
      then have "filter (\<lambda>e. e_key e = k) es = []" using Cons.prems by (auto simp: filter_empty_conv)
      with True show ?thesis by simp
    qed (use Cons in auto)
  qed simp
  then show ?thesis by (simp add: table_layer_eq [OF assms])
qed

section \<open>The order of the layers\<close>

text \<open>An older layer holds only lower sequence numbers for a key; what \<open>Scan\<close> and \<open>Compact\<close> rely on.\<close>

definition newer_layer :: "(bytes \<Rightarrow> entry option) \<Rightarrow> (bytes \<Rightarrow> entry option) \<Rightarrow> bool" where
  "newer_layer l m \<longleftrightarrow> (\<forall>k a b. l k = Some a \<longrightarrow> m k = Some b \<longrightarrow> e_seq b < e_seq a)"

definition layered :: "engine \<Rightarrow> bool" where
  "layered e \<longleftrightarrow> sorted_wrt newer_layer (layers e)"

lemma layered_tables: "layered e \<Longrightarrow> sorted_wrt newer_layer (map table_layer (rev (en_tables e)))"
  by (simp add: layered_def layers_def)

lemma hits_mem: "e \<in> set (hits ths k) \<Longrightarrow> \<exists>th \<in> set ths. table_layer th k = Some e"
  by (induction ths) (auto split: option.splits)

lemma hits_increasing:
  "sorted_wrt newer_layer (map table_layer (rev ths)) \<Longrightarrow> sorted_wrt (\<lambda>a b. e_seq a < e_seq b) (hits ths k)"
proof (induction ths)
  case (Cons th ths)
  then have "sorted_wrt (\<lambda>a b. e_seq a < e_seq b) (hits ths k)"
    and "\<forall>th' \<in> set ths. newer_layer (table_layer th') (table_layer th)"
    by (auto simp: sorted_wrt_append)
  then show ?case
    by (auto simp: newer_layer_def dest!: hits_mem split: option.splits)
qed simp

lemma hits_below_mem:
  assumes "layered e" "mt_get (en_mem e) k = Some m" "h \<in> set (hits (en_tables e) k)"
  shows "e_seq h < e_seq m"
  using assms hits_mem [OF assms(3)] by (auto simp: layered_def layers_def newer_layer_def)

section \<open>Scan\<close>

lemma scan_kind_simps [simp]: "e_key (scan_kind e) = e_key e" "e_seq (scan_kind e) = e_seq e"
  "e_value (scan_kind e) = e_value e"
  by (simp_all add: scan_kind_def)

lemma scan_kind_id [simp]: "e_kind e \<in> {entry_put, entry_delete} \<Longrightarrow> scan_kind e = e"
  by (auto simp: scan_kind_def)

lemma table_scan_ok:
  assumes "table_holds th es"
  shows "reader_scan (th_reader th) lo hi = Inr (filter (\<lambda>e. in_range lo hi (e_key e)) es)"
    "map scan_kind (filter (\<lambda>e. in_range lo hi (e_key e)) es) = filter (\<lambda>e. in_range lo hi (e_key e)) es"
  using assms by (auto simp: table_holds_def reader_scan_eq reader_ok_def intro!: map_idI scan_kind_id)

lemma filter_in_range_key:
  "filter (\<lambda>e. in_range lo hi (e_key e) \<and> e_key e = k) es
    = (if in_range lo hi k then filter (\<lambda>e. e_key e = k) es else [])"
  by (induction es) auto

lemma scan_tables_ok:
  assumes "tables_ok ths" "candidates_ok best"
  shows "\<exists>best'. scan_tables lo hi ths best = Inr best' \<and> candidates_ok best'
    \<and> (\<forall>k. map_of best' k = (if in_range lo hi k then foldl pick (map_of best k) (hits ths k) else map_of best k))"
  using assms
proof (induction ths arbitrary: best)
  case (Cons th ths)
  then obtain es where h: "table_holds th es" by (auto simp: tables_ok_def)
  let ?b = "foldl merge_entry best (filter (\<lambda>e. in_range lo hi (e_key e)) es)"
  have "candidates_ok ?b" using Cons.prems by (simp add: candidates_ok_merge)
  moreover have "tables_ok ths" using Cons.prems by (simp add: tables_ok_def)
  ultimately obtain b' where "scan_tables lo hi ths ?b = Inr b'" "candidates_ok b'"
    "\<forall>k. map_of b' k = (if in_range lo hi k then foldl pick (map_of ?b k) (hits ths k) else map_of ?b k)"
    using Cons.IH by blast
  then show ?case
    by (auto simp: table_scan_ok [OF h] map_of_merge filter_in_range_key filter_key_scan [OF h] split: option.splits)
qed simp

lemma compact_merge_ok:
  assumes "tables_ok ths" "candidates_ok best"
  shows "\<exists>best'. compact_merge ths best = Inr best' \<and> candidates_ok best'
    \<and> (\<forall>k. map_of best' k = foldl pick (map_of best k) (hits ths k))"
  using assms
proof (induction ths arbitrary: best)
  case (Cons th ths)
  then obtain es where h: "table_holds th es" by (auto simp: tables_ok_def)
  let ?b = "foldl merge_entry best es"
  have "candidates_ok ?b" using Cons.prems by (simp add: candidates_ok_merge)
  moreover have "tables_ok ths" using Cons.prems by (simp add: tables_ok_def)
  ultimately obtain b' where "compact_merge ths ?b = Inr b'" "candidates_ok b'"
    "\<forall>k. map_of b' k = foldl pick (map_of ?b k) (hits ths k)"
    using Cons.IH by blast
  moreover have "reader_scan (th_reader th) [] [] = Inr es"
    using table_scan_ok(1) [OF h, of "[]" "[]"] by simp
  ultimately show ?case by (auto simp: map_of_merge filter_key_scan [OF h] split: option.splits)
qed simp

text \<open>The memory part of the merge.\<close>

lemma mem_scan_kinds:
  assumes "mt_inv m"
  shows "map scan_kind (mt_scan m lo hi) = mt_scan m lo hi"
proof (rule map_idI)
  fix e assume "e \<in> set (mt_scan m lo hi)"
  then have "mt_entries m (e_key e) = Some e"
    using mem.scan_iff [OF assms] mt_get_entries [OF assms] by simp
  then show "scan_kind e = e" using assms by (intro scan_kind_id) (simp add: mt_inv_def)
qed

lemma mem_scan_merge:
  assumes "mt_inv m"
  shows "map_of (foldl merge_entry [] (map scan_kind (mt_scan m lo hi))) k
    = (if in_range lo hi k then mt_get m k else None)"
    and "candidates_ok (foldl merge_entry [] (map scan_kind (mt_scan m lo hi)))"
proof -
  have kinds: "map scan_kind (mt_scan m lo hi) = mt_scan m lo hi" by (rule mem_scan_kinds [OF assms])
  have "filter (\<lambda>e. e_key e = k) (mt_scan m lo hi)
      = (if in_range lo hi k then (case mt_get m k of None \<Rightarrow> [] | Some e \<Rightarrow> [e]) else [])" (is "?f = ?g")
  proof (rule entries_eqI)
    have s: "strictly_sorted (map e_key (mt_scan m lo hi))" by (rule mem.scan_sorted [OF assms])
    then show "strictly_sorted (map e_key ?f)"
      using strictly_sorted_filter [OF s, of "\<lambda>k'. k' = k"] by (simp add: filter_map comp_def)
    show "strictly_sorted (map e_key ?g)" by (simp split: option.splits)
    have "e \<in> set ?f \<longleftrightarrow> e \<in> set ?g" for e
      unfolding set_filter mem_Collect_eq mem.scan_iff [OF assms]
      using mem.get_key [OF assms, of k e]
      by (cases "mt_get m k"; cases "e_key e = k"; cases "in_range lo hi k") (simp_all, blast+)
    then show "set ?f = set ?g" by blast
  qed
  then show "map_of (foldl merge_entry [] (map scan_kind (mt_scan m lo hi))) k
    = (if in_range lo hi k then mt_get m k else None)"
    by (auto simp: kinds map_of_merge pick_def split: option.splits)
  show "candidates_ok (foldl merge_entry [] (map scan_kind (mt_scan m lo hi)))"
    by (rule candidates_ok_merge) (simp add: candidates_ok_def)
qed

lemma layered_pick:
  assumes "layered e"
  shows "foldl pick (mt_get (en_mem e) k) (hits (en_tables e) k) = layer_find (layers e) k"
proof (cases "mt_get (en_mem e) k")
  case None
  then show ?thesis
    using pick_increasing [OF hits_increasing [OF layered_tables [OF assms]]]
    by (simp add: layers_def layer_find_hits)
next
  case (Some m)
  then show ?thesis
    using hits_below_mem [OF assms Some] by (simp add: layers_def pick_low less_imp_le)
qed

lemma layer_find_key:
  assumes "tables_ok (en_tables e)" "mt_inv (en_mem e)" "layer_find (layers e) k = Some x"
  shows "e_key x = k" "e_kind x \<in> {entry_put, entry_delete}"
proof -
  have "layer_find (map table_layer ths) k = Some x \<Longrightarrow> tables_ok ths
      \<Longrightarrow> e_key x = k \<and> e_kind x \<in> {entry_put, entry_delete}" for ths
  proof (induction ths)
    case (Cons th ths)
    then obtain es where "table_holds th es" by (auto simp: tables_ok_def)
    with Cons show ?case
      using table_layer_iff by (fastforce simp: tables_ok_def table_holds_def reader_ok_def split: option.splits)
  qed simp
  moreover have "tables_ok (rev (en_tables e))" using assms(1) by (simp add: tables_ok_def)
  ultimately show "e_key x = k" "e_kind x \<in> {entry_put, entry_delete}"
    using assms(2,3) by (auto simp: layers_def mt_get_entries mt_inv_def split: option.splits)
qed

text \<open>What \<open>Scan\<close> returns in any state: per key the candidate of the highest number, if it is a put.\<close>

lemma engine_scan_picks:
  assumes "\<not> en_closed e" "tables_ok (en_tables e)" "mt_inv (en_mem e)"
  shows "\<exists>res. engine_scan lo hi e = Inr res \<and> strictly_sorted (map kv_key res)
    \<and> (\<forall>k v. (k, v) \<in> (\<lambda>kv. (kv_key kv, kv_value kv)) ` set res \<longleftrightarrow> in_range lo hi k
         \<and> (\<exists>x. foldl pick (mt_get (en_mem e) k) (hits (en_tables e) k) = Some x \<and> e_key x = k
              \<and> e_kind x = entry_put \<and> e_value x = v))"
proof -
  let ?b0 = "foldl merge_entry [] (map scan_kind (mt_scan (en_mem e) lo hi))"
  obtain best where b: "scan_tables lo hi (en_tables e) ?b0 = Inr best" "candidates_ok best"
    and m: "\<forall>k. map_of best k = (if in_range lo hi k then foldl pick (map_of ?b0 k) (hits (en_tables e) k) else map_of ?b0 k)"
    using scan_tables_ok [OF assms(2) mem_scan_merge(2) [OF assms(3)]] by blast
  have best: "map_of best k = (if in_range lo hi k then foldl pick (mt_get (en_mem e) k) (hits (en_tables e) k) else None)" for k
    using m mem_scan_merge(1) [OF assms(3)] by simp
  note live = live_sorted_props [OF b(2)]
  let ?res = "map (\<lambda>c. \<lparr>kv_key = e_key c, kv_value = e_value c, kv_seq = e_seq c\<rparr>) (live_sorted best)"
  have "engine_scan lo hi e = Inr ?res" using assms(1) b(1) by (simp add: engine_scan_def)
  moreover have "strictly_sorted (map kv_key ?res)" using live(1) by (simp add: comp_def)
  moreover have "(k, v) \<in> (\<lambda>kv. (kv_key kv, kv_value kv)) ` set ?res \<longleftrightarrow> in_range lo hi k
      \<and> (\<exists>x. foldl pick (mt_get (en_mem e) k) (hits (en_tables e) k) = Some x \<and> e_key x = k
           \<and> e_kind x = entry_put \<and> e_value x = v)" (is "?l \<longleftrightarrow> ?r") for k v
  proof
    assume ?l
    then obtain x where x: "x \<in> set (live_sorted best)" "k = e_key x" "v = e_value x" by auto
    then have x2: "map_of best k = Some x" "e_kind x = entry_put" using live(2) [of x] by simp_all
    then have "in_range lo hi k \<and> foldl pick (mt_get (en_mem e) k) (hits (en_tables e) k) = Some x"
      using best [of k] by (simp split: if_splits)
    then show ?r using x x2 by blast
  next
    assume ?r
    then obtain x where x: "map_of best k = Some x" "e_key x = k" "e_kind x = entry_put" "e_value x = v"
      using best [of k] by auto
    then have "x \<in> set (live_sorted best)" using live(2) [of x] by simp
    then show ?l using x by force
  qed
  ultimately show ?thesis by blast
qed

lemma engine_scan_correct:
  assumes "\<not> en_closed e" "tables_ok (en_tables e)" "mt_inv (en_mem e)" "layered e"
  shows "\<exists>res. engine_scan lo hi e = Inr res \<and> strictly_sorted (map kv_key res)
    \<and> (\<forall>k v. (k, v) \<in> (\<lambda>kv. (kv_key kv, kv_value kv)) ` set res \<longleftrightarrow> in_range lo hi k \<and> engine_view e k = Some v)"
proof -
  have "(\<exists>x. foldl pick (mt_get (en_mem e) k) (hits (en_tables e) k) = Some x \<and> e_key x = k
           \<and> e_kind x = entry_put \<and> e_value x = v) \<longleftrightarrow> engine_view e k = Some v" for k v
    unfolding layered_pick [OF assms(4)] engine_view_def
    using layer_find_key [OF assms(2,3), of k] by (auto simp: live_def Option.bind_eq_Some_conv split: if_splits)
  then show ?thesis using engine_scan_picks [OF assms(1-3), of lo hi] by simp
qed

end
