(* ===== verification/EngineOps.thy ===== *)
theory EngineOps
  imports EngineInv
begin

text \<open>
  The invariant of an open engine with its directory, and what each operation does to the map the
  engine stands for: writes, flush, compaction, reopening, and the I/O faults of flush and compaction.
\<close>

section \<open>A table just written\<close>

lemma length_table_bytes_bound:
  assumes "\<forall>e \<in> set es. entry_fits m e" "length es \<le> 2 ^ 29"
  shows "length (table_bytes es) < 2 ^ 64"
proof -
  have m: "unat m < 2 ^ 32" by (rule u32_less)
  have recs: "length (concat (map enc_rec es)) \<le> length es * 2 ^ 33"
    using assms(1)
  proof (induction es)
    case (Cons e es)
    then have "length (enc_rec e) \<le> 2 ^ 33" using m by (simp add: entry_fits_def)
    then show ?case using Cons by simp
  qed simp
  have idx: "length (concat (map index_bytes (index_of n es))) \<le> length es * 2 ^ 33" for n
    using assms(1)
  proof (induction es arbitrary: n)
    case (Cons e es)
    then have "16 + length (e_key e) \<le> 2 ^ 33" using m by (simp add: entry_fits_def)
    then show ?case using Cons.IH [of "n + length (enc_rec e)"] Cons.prems by simp
  qed simp
  from recs idx [of 10]
  have "length (table_bytes es) \<le> 46 + length es * 2 ^ 33 + length es * 2 ^ 33"
    unfolding length_table_bytes table_index_def by linarith
  then show ?thesis using assms(2) by simp
qed

definition row_ok :: "table_entry \<Rightarrow> bool" where
  "row_ok te \<longleftrightarrow> te_sst te = sst_path (te_id te) \<and> te_bloom te = bloom_path (te_id te) \<and> table_entry_ok te"

text \<open>Two directories that agree on everything but the two files of one table number.\<close>

definition agree_but :: "u64 \<Rightarrow> disk \<Rightarrow> disk \<Rightarrow> bool" where
  "agree_but fid d d' \<longleftrightarrow> d_manifest d' = d_manifest d \<and> d_wal d' = d_wal d
     \<and> (\<forall>p. p \<noteq> sst_path fid \<longrightarrow> p \<noteq> bloom_path fid \<longrightarrow> d_files d' p = d_files d p)"

lemma agree_but_files [simp]:
  "agree_but fid d d" "agree_but fid d (write_file (sst_path fid) bs d') \<longleftrightarrow> agree_but fid d d'"
  "agree_but fid d (write_file (bloom_path fid) bs d') \<longleftrightarrow> agree_but fid d d'"
  "agree_but fid d (remove_file (sst_path fid) d') \<longleftrightarrow> agree_but fid d d'"
  "agree_but fid d (remove_file (bloom_path fid) d') \<longleftrightarrow> agree_but fid d d'"
  by (auto simp: agree_but_def write_file_def remove_file_def)

lemma make_table_agree: "agree_but fid d (snd (make_table c r fault o' fid es d))"
  by (auto simp: make_table_def Let_def split: sum.splits option.splits)

lemma live_keys_fit:
  "\<forall>e \<in> set es. entry_fits m e \<Longrightarrow> [] \<notin> set (map e_key es)"
  by (auto simp: entry_fits_def)

lemma make_table_Inr:
  assumes "make_table c r fault o' fid es d = (Inr (th, te), d')" "length es \<le> 2 ^ 29" "fid \<noteq> 0"
  shows "table_holds th es" "te_id te = fid" "row_ok te" "open_table o' d' te = Inr th"
proof -
  let ?p = "join_dir (eo_dir o') (sst_path fid)"
  obtain bs md where c: "sst_create ?p es (eo_sst_max o') = Inr (bs, md)"
    using assms(1) by (auto simp: make_table_def Let_def split: if_splits sum.splits)
  then have fits: "\<forall>e \<in> set es. entry_fits (sst_eff_max (eo_sst_max o')) e" and ne: "es \<noteq> []"
    and md: "md = table_meta ?p es" and bs: "bs = table_bytes es" and srt: "strictly_sorted (map e_key es)"
    by (simp_all add: sst_create_Inr)
  have len: "length bs < 2 ^ 64" using length_table_bytes_bound [OF fits assms(2)] bs by simp
  note op = sst_create_open [OF c len, of ?p]
  obtain bf0 where b0: "bloom_new c r (word_of_nat (length es)) (eo_fpr o') = Inr bf0"
    using assms(1) c by (auto simp: make_table_def Let_def split: if_splits sum.splits)
  obtain bf where b: "bloom_add_all bf0 (map e_key es) = Some bf" "bloom_ok bf" "\<forall>e \<in> set es. bloom_has bf (e_key e)"
    using bloom_add_all_total [OF bloom_new_ok [OF b0] live_keys_fit [OF fits]] by auto
  have res: "th = \<lparr>th_id = fid, th_reader = table_reader ?p (sst_eff_max (eo_sst_max o')) es, th_bloom = bf,
        th_min = e_key (hd es), th_max = e_key (last es), th_sst = sst_path fid, th_bloom_path = bloom_path fid\<rparr>"
    "te = \<lparr>te_id = fid, te_sst = sst_path fid, te_bloom = bloom_path fid, te_count = word_of_nat (length es),
        te_min = encode_key (e_key (hd es)), te_max = encode_key (e_key (last es))\<rparr>"
    "d' = write_file (bloom_path fid) (bloom_marshal bf) (write_file (sst_path fid) bs d)"
    using assms(1) c b0 b(1) op(1) by (auto simp: make_table_def Let_def md table_meta_def split: if_splits)
  show "table_holds th es" using op(2) ne b by (simp add: table_holds_def res)
  show "te_id te = fid" by (simp add: res)
  have "unat (word_of_nat (length es) :: u64) = length es"
    by (rule unat_word_of_nat64) (use assms(2) in simp)
  then have "(word_of_nat (length es) :: u64) \<noteq> 0" using ne by (metis length_0_conv unat_0)
  moreover have "e_key (hd es) \<le> e_key (last es)"
    using strictly_sorted_hd_last [OF srt, of "last es"] ne by simp
  ultimately show "row_ok te" using assms(3) by (simp add: row_ok_def table_entry_ok_def res)
  show "open_table o' d' te = Inr th"
    using op(1) marshal_unmarshal [OF b(2)]
    by (simp add: open_table_def load_bloom_def res write_file_def)
qed

section \<open>The directory and its manifest\<close>

text \<open>The manifest on disk lists exactly the open tables, and they open to the handles in memory.\<close>

definition disk_holds :: "engine_options \<Rightarrow> disk \<Rightarrow> u64 \<Rightarrow> table_handle list \<Rightarrow> bool" where
  "disk_holds o' d next' ths \<longleftrightarrow> (\<exists>m. d_manifest d = Decoded m \<and> manifest_ok m \<and> mf_next_file m = next'
     \<and> open_tables o' d (mf_tables m) = Inr ths \<and> (\<forall>te \<in> set (mf_tables m). row_ok te \<and> te_id te < next'))"

lemma open_table_cong:
  assumes "d_files d (te_sst te) = d_files d' (te_sst te)" "d_files d (te_bloom te) = d_files d' (te_bloom te)"
  shows "open_table o' d te = open_table o' d' te"
  unfolding open_table_def load_bloom_def assms ..

lemma open_tables_cong:
  "\<forall>te \<in> set tes. d_files d (te_sst te) = d_files d' (te_sst te) \<and> d_files d (te_bloom te) = d_files d' (te_bloom te)
    \<Longrightarrow> open_tables o' d tes = open_tables o' d' tes"
proof (induction tes)
  case (Cons te tes)
  have 1: "open_table o' d te = open_table o' d' te" by (rule open_table_cong) (use Cons.prems in simp_all)
  have 2: "open_tables o' d tes = open_tables o' d' tes" by (rule Cons.IH) (use Cons.prems in simp)
  show ?case unfolding open_tables.simps 1 2 ..
qed simp

lemma open_tables_append_eq:
  "open_tables o' d (as @ bs) = (case open_tables o' d as of Inl e \<Rightarrow> Inl e
     | Inr xs \<Rightarrow> (case open_tables o' d bs of Inl e \<Rightarrow> Inl e | Inr ys \<Rightarrow> Inr (xs @ ys)))"
  by (induction as) (auto split: sum.splits)

lemma open_tables_append:
  "open_tables o' d (as @ bs) = Inr cs \<longleftrightarrow>
     (\<exists>xs ys. open_tables o' d as = Inr xs \<and> open_tables o' d bs = Inr ys \<and> cs = xs @ ys)"
  by (auto simp: open_tables_append_eq split: sum.splits)

lemma agree_but_rows:
  assumes "agree_but fid d d'" "row_ok te" "te_id te < fid"
  shows "d_files d' (te_sst te) = d_files d (te_sst te)" "d_files d' (te_bloom te) = d_files d (te_bloom te)"
  using assms by (auto simp: agree_but_def row_ok_def)

lemma disk_holds_agree:
  assumes "disk_holds o' d next' ths" "agree_but next' d d'"
  shows "disk_holds o' d' next' ths"
proof -
  obtain m where m: "d_manifest d = Decoded m" "manifest_ok m" "mf_next_file m = next'"
      "open_tables o' d (mf_tables m) = Inr ths" "\<forall>te \<in> set (mf_tables m). row_ok te \<and> te_id te < next'"
    using assms(1) by (auto simp: disk_holds_def)
  have "open_tables o' d' (mf_tables m) = open_tables o' d (mf_tables m)"
    using m(5) agree_but_rows [OF assms(2)] by (intro open_tables_cong) auto
  then show ?thesis using m assms(2) by (auto simp: disk_holds_def agree_but_def)
qed

lemma disk_holds_nonzero: "disk_holds o' d next' ths \<Longrightarrow> next' \<noteq> 0"
  by (auto simp: disk_holds_def manifest_ok_def)

lemma commit_manifest_Some:
  assumes "commit_manifest fault f d = Some d'" "d_manifest d = Decoded m" "manifest_ok m"
  shows "d' = d\<lparr>d_manifest := Decoded (f m)\<rparr>"
  using assms load_decoded [of m m True]
  by (auto simp: commit_manifest_def save_manifest_def split: if_splits)

lemma commit_manifest_no_fault:
  assumes "fault \<noteq> Some Io_load" "fault \<noteq> Some Io_save" "d_manifest d = Decoded m" "manifest_ok m"
  shows "commit_manifest fault f d = Some (d\<lparr>d_manifest := Decoded (f m)\<rparr>)"
  using assms load_decoded [of m m True] by (simp add: commit_manifest_def save_manifest_def)

lemma word_less_Suc:
  assumes "(n :: u64) + 1 \<noteq> 0"
  shows "n < n + 1" "a < n \<Longrightarrow> a < n + 1"
proof -
  show "n < n + 1" using assms unatSuc [of n] by (simp add: word_less_nat_alt add.commute)
  then show "a < n \<Longrightarrow> a < n + 1" by (rule less_trans [rotated])
qed

text \<open>The manifest row of a new table is appended (flush) or replaces all rows (compaction).\<close>

lemma disk_holds_new_table:
  assumes "disk_holds o' d fid ths" "make_table c r fault o' fid es d = (Inr (th, te), d1)" "length es \<le> 2 ^ 29"
    and "fid + 1 \<noteq> 0" "seq \<noteq> 0"
    and "commit_manifest fault' (\<lambda>m. m\<lparr>mf_next_file := fid + 1, mf_next_seq := seq, mf_tables := keep (mf_tables m) @ [te]\<rparr>) d1
      = Some d2" "keep = (\<lambda>ts. ts) \<and> kept = ths \<or> keep = (\<lambda>ts. []) \<and> kept = []"
  shows "disk_holds o' d2 (fid + 1) (kept @ [th])"
proof -
  obtain m where m: "d_manifest d = Decoded m" "manifest_ok m" "mf_next_file m = fid"
      "open_tables o' d (mf_tables m) = Inr ths" "\<forall>te \<in> set (mf_tables m). row_ok te \<and> te_id te < fid"
    using assms(1) by (auto simp: disk_holds_def)
  have ag: "agree_but fid d d1" using make_table_agree assms(2) by (metis snd_conv)
  then have d1: "d_manifest d1 = Decoded m" using m(1) by (simp add: agree_but_def)
  let ?m = "m\<lparr>mf_next_file := fid + 1, mf_next_seq := seq, mf_tables := keep (mf_tables m) @ [te]\<rparr>"
  have d2: "d2 = d1\<lparr>d_manifest := Decoded ?m\<rparr>" by (rule commit_manifest_Some [OF assms(6) d1 m(2)])
  note new = make_table_Inr [OF assms(2,3) disk_holds_nonzero [OF assms(1)]]
  have sub: "set (keep (mf_tables m)) \<subseteq> set (mf_tables m)" "distinct (map te_id (keep (mf_tables m)))"
    using assms(7) m(2) by (auto simp: manifest_ok_def)
  have "open_tables o' d1 (mf_tables m) = open_tables o' d (mf_tables m)"
    using m(5) agree_but_rows [OF ag] by (intro open_tables_cong) auto
  then have "open_tables o' d1 (keep (mf_tables m)) = Inr kept" using assms(7) m(4) by auto
  moreover have "open_tables o' d2 tes = open_tables o' d1 tes" for tes
    by (rule open_tables_cong) (simp add: d2)
  ultimately have "open_tables o' d2 (mf_tables ?m) = Inr (kept @ [th])"
    using new(4) by (auto simp: open_tables_append)
  moreover have "manifest_ok ?m"
    using m sub new(2,3) assms(4,5) by (auto simp: manifest_ok_def row_ok_def)
  moreover have "\<forall>te \<in> set (mf_tables ?m). row_ok te \<and> te_id te < fid + 1"
    using m(5) sub(1) new(2,3) word_less_Suc [OF assms(4)] by auto
  ultimately show ?thesis by (auto simp: disk_holds_def d2)
qed

section \<open>The invariant\<close>

definition opts_ok :: "engine_options \<Rightarrow> bool" where
  "opts_ok o' \<longleftrightarrow> eo_dir o' \<noteq> [] \<and> fpr_valid (eo_fpr o') \<and> eo_mem_max o' \<noteq> 0"

text \<open>Two MemTables that show the same values in front of the tables. What a log replays to need not be the MemTable
  itself: a flush that cannot remove the log leaves records in it that the tables hold already.\<close>

definition log_agrees :: "memtable \<Rightarrow> memtable \<Rightarrow> table_handle list \<Rightarrow> bool" where
  "log_agrees m m' ths \<longleftrightarrow> (\<forall>k. Option.bind (layer_find (mt_get m # map table_layer (rev ths)) k) live
     = Option.bind (layer_find (mt_get m' # map table_layer (rev ths)) k) live)"

text \<open>A log file that replays, whole, into a MemTable.\<close>

definition log_replays :: "engine_options \<Rightarrow> bytes \<Rightarrow> memtable \<Rightarrow> bool" where
  "log_replays o' bs mem \<longleftrightarrow> (\<exists>rs mx. bs = concat (map wal_enc rs)
     \<and> (\<forall>r \<in> set rs. wal_frame_ok (eff_max (wal_opts_of o')) r)
     \<and> run_records replay_fn rs (mt_new (eo_mem_max o'), 0) = (None, mem, mx))"

definition engine_inv :: "engine \<Rightarrow> bool" where
  "engine_inv e \<longleftrightarrow> \<not> en_closed e \<and> opts_ok (en_opts e) \<and> mt_inv (en_mem e) \<and> tables_ok (en_tables e)
     \<and> disk_holds (en_opts e) (en_disk e) (en_next_file e) (en_tables e)
     \<and> wal_ready (en_wal e) \<and> w_opts (en_wal e) = (wal_opts_of (en_opts e))\<lparr>wal_max_record := eff_max (wal_opts_of (en_opts e))\<rparr>
     \<and> (\<exists>mem. log_replays (en_opts e) (f_bytes (w_file (en_wal e))) mem \<and> log_agrees mem (en_mem e) (en_tables e))"

lemma log_agrees_refl [simp]: "log_agrees m m ths"
  by (simp add: log_agrees_def)

text \<open>Agreement only depends on the values the tables show.\<close>

lemma log_agrees_tables:
  assumes "log_agrees m m' ths"
    and "\<And>k. Option.bind (layer_find (map table_layer (rev ths')) k) live = Option.bind (layer_find (map table_layer (rev ths)) k) live"
  shows "log_agrees m m' ths'"
proof -
  have "Option.bind (layer_find (g # map table_layer (rev ths')) k) live = Option.bind (layer_find (g # map table_layer (rev ths)) k) live" for g k
    using assms(2) [of k] by (simp split: option.split)
  then show ?thesis using assms(1) by (simp add: log_agrees_def)
qed

text \<open>The memory table written to a new table and emptied: the old log still agrees.\<close>

lemma log_agrees_flushed:
  assumes "log_agrees m m' ths" "table_layer th = mt_get m'"
  shows "log_agrees m m' (ths @ [th])" "mt_get m0 = Map.empty \<Longrightarrow> log_agrees m m0 (ths @ [th])"
proof -
  have "Option.bind (layer_find (mt_get m # map table_layer (rev (ths @ [th]))) k) live
      = Option.bind (layer_find (mt_get m' # map table_layer (rev ths)) k) live" for k
    using assms(1) [unfolded log_agrees_def, rule_format, of k] by (simp add: assms(2) split: option.splits)
  then show "log_agrees m m' (ths @ [th])" "mt_get m0 = Map.empty \<Longrightarrow> log_agrees m m0 (ths @ [th])"
    by (simp_all add: log_agrees_def assms(2) split: option.splits)
qed

lemma opts_ok_effective [simp]: "opts_ok o' \<Longrightarrow> effective_options o' = o'"
  by (auto simp: opts_ok_def effective_options_def float_zero_def fpr_valid_def)

section \<open>Reopening\<close>

lemma wal_replay_open:
  assumes "log_replays o' bs mem"
  shows "\<exists>w mx. wal_replay (wal_open (wal_opts_of o') bs) replay_fn (mt_new (eo_mem_max o'), 0) = (None, w, mem, mx)
    \<and> wal_ready w \<and> w_opts w = (wal_opts_of o')\<lparr>wal_max_record := eff_max (wal_opts_of o')\<rparr> \<and> f_bytes (w_file w) = bs"
proof -
  obtain rs mx where rs: "bs = concat (map wal_enc rs)" "\<forall>r \<in> set rs. wal_frame_ok (eff_max (wal_opts_of o')) r"
    "run_records replay_fn rs (mt_new (eo_mem_max o'), 0) = (None, mem, mx)"
    using assms by (auto simp: log_replays_def)
  let ?w = "wal_open (wal_opts_of o') bs"
  have w: "w_opts ?w = (wal_opts_of o')\<lparr>wal_max_record := eff_max (wal_opts_of o')\<rparr>"
    "f_bytes (w_file ?w) = bs" "\<not> w_closed ?w"
    by (simp_all add: wal_open_def eff_max_def Let_def)
  have "replay_loop (wal_max_record (w_opts ?w)) replay_fn bs 0 0 (mt_new (eo_mem_max o'), 0)
      = (Replay_done, max_seq 0 rs, mem, mx)"
    using replay_loop_frames [OF wal_log.frames_all [OF rs(2), of 0] rs(3), of 0] unfolding w(1) by (simp add: rs(1))
  then show ?thesis
    using w by (simp add: wal_replay_def wal_ready_def)
qed

lemma run_replay_inv:
  "run_records replay_fn rs (m, mx) = (None, m', mx') \<Longrightarrow> mt_inv m \<Longrightarrow> mt_inv m'"
proof (induction rs arbitrary: m mx)
  case (Cons r rs)
  obtain m1 mx1 where 1: "replay_fn r (m, mx) = (None, m1, mx1)" "run_records replay_fn rs (m1, mx1) = (None, m', mx')"
    using Cons.prems(1) by (auto split: prod.splits option.splits)
  have "mt_inv m1"
    using 1(1) Cons.prems(2) mt_put_inv [of m "wr_key r" "wr_value r" "wr_seq r"] mt_delete_inv [of m "wr_key r" "wr_seq r"]
    by (auto simp: replay_fn_def Let_def split: if_splits prod.splits)
  then show ?case using Cons.IH 1(2) by blast
qed simp

text \<open>Whatever the rest of the state, a directory with a good manifest and a good log reopens to them.\<close>

lemma reopen_directory:
  assumes "opts_ok o'" "disk_holds o' d next' ths" "tables_ok ths" "log_replays o' (d_wal d) mem"
  shows "\<exists>e. engine_open None o' d = (Inr e, d) \<and> engine_inv e \<and> en_tables e = ths \<and> en_mem e = mem \<and> en_opts e = o'"
proof -
  obtain m where m: "d_manifest d = Decoded m" "manifest_ok m" "mf_next_file m = next'"
      "open_tables o' d (mf_tables m) = Inr ths" "\<forall>te \<in> set (mf_tables m). row_ok te \<and> te_id te < next'"
    using assms(2) by (auto simp: disk_holds_def)
  obtain w mx where w: "wal_replay (wal_open (wal_opts_of o') (d_wal d)) replay_fn (mt_new (eo_mem_max o'), 0) = (None, w, mem, mx)"
    "wal_ready w" "w_opts w = (wal_opts_of o')\<lparr>wal_max_record := eff_max (wal_opts_of o')\<rparr>" "f_bytes (w_file w) = d_wal d"
    using wal_replay_open [OF assms(4)] by blast
  have "load_manifest (d_manifest d) = Inr (m, True)" using m load_decoded [of m m True] by simp
  then have "\<exists>e. engine_open None o' d = (Inr e, d) \<and> \<not> en_closed e \<and> en_tables e = ths \<and> en_mem e = mem
      \<and> en_opts e = o' \<and> en_wal e = w \<and> en_disk e = d \<and> en_next_file e = next'"
    using assms(1) m w(1) by (simp add: engine_open_def Let_def) (simp add: opts_ok_def)
  moreover have "mt_inv mem"
    using assms(4) run_replay_inv mt_inv_new by (fastforce simp: log_replays_def)
  ultimately show ?thesis
    using assms w(2-4) log_agrees_refl unfolding engine_inv_def by (metis log_agrees_refl)
qed

text \<open>The directory recovers a map when reopening it succeeds with an engine that stands for the map.\<close>

definition recovers :: "engine_options \<Rightarrow> disk \<Rightarrow> (bytes \<Rightarrow> bytes option) \<Rightarrow> bool" where
  "recovers o' d v \<longleftrightarrow> (\<exists>e. fst (engine_open None o' d) = Inr e \<and> engine_inv e \<and> engine_view e = v)"

lemma disk_holds_wal: "disk_holds o' (d\<lparr>d_wal := bs\<rparr>) n ths \<longleftrightarrow> disk_holds o' d n ths"
proof -
  have "open_tables o' (d\<lparr>d_wal := bs\<rparr>) tes = open_tables o' d tes" for tes by (rule open_tables_cong) simp
  then show ?thesis by (simp add: disk_holds_def)
qed

lemma recovers_directory:
  assumes "opts_ok o'" "disk_holds o' d n ths" "tables_ok ths" "log_replays o' bs mem" "log_agrees mem mem' ths"
  shows "recovers o' (d\<lparr>d_wal := bs\<rparr>) (\<lambda>k. Option.bind (layer_find (mt_get mem' # map table_layer (rev ths)) k) live)"
proof -
  obtain e where e: "engine_open None o' (d\<lparr>d_wal := bs\<rparr>) = (Inr e, d\<lparr>d_wal := bs\<rparr>)" "engine_inv e"
      "en_tables e = ths" "en_mem e = mem"
    using reopen_directory [of o' "d\<lparr>d_wal := bs\<rparr>" n ths mem] assms by (auto simp: disk_holds_wal)
  then have "engine_view e k = Option.bind (layer_find (mt_get mem' # map table_layer (rev ths)) k) live" for k
    using assms(5) by (simp add: log_agrees_def engine_view_def layers_def)
  then show ?thesis using e unfolding recovers_def by (metis ext fst_conv)
qed

lemma inv_recovers: "engine_inv e \<Longrightarrow> recovers (en_opts e) (directory e) (engine_view e)"
  using recovers_directory [of "en_opts e" "en_disk e" "en_next_file e" "en_tables e" "f_bytes (w_file (en_wal e))" _ "en_mem e"]
  by (auto simp: engine_inv_def directory_def engine_view_def [abs_def] layers_def)

section \<open>Flush\<close>

text \<open>Every number in use is below the next one.\<close>

definition seq_below :: "engine \<Rightarrow> bool" where
  "seq_below e \<longleftrightarrow> (\<forall>l \<in> set (layers e). \<forall>k x. l k = Some x \<longrightarrow> e_seq x < en_next_seq e)"

lemma flush_entries_layer:
  assumes "mt_inv m" "table_holds th (flush_entries m)"
  shows "table_layer th = mt_get m"
proof
  fix k
  have es: "flush_entries m = mt_scan m [] []" by (simp add: flush_entries_def mem_scan_kinds [OF assms(1)])
  have "table_layer th k = Some x \<longleftrightarrow> mt_get m k = Some x" for x
    using table_layer_iff [OF assms(2), of k x] mem.scan_iff [OF assms(1), of x "[]" "[]"] mem.get_key [OF assms(1), of k x]
    by (auto simp: es)
  then show "table_layer th k = mt_get m k" by (metis not_None_eq)
qed

lemma length_flush_entries: "mt_inv m \<Longrightarrow> length (flush_entries m) = mt_len m"
  using mt_scan_keys [of m "[]" "[]"] by (metis flush_entries_def mt_len_def length_map filter_True in_range_all)

lemma mt_get_new [simp]: "mt_get (mt_new n) = Map.empty"
  by (auto simp: mt_get_def mt_new_def)

lemma engine_inv_disk:
  assumes "engine_inv e" "agree_but (en_next_file e) (en_disk e) d"
  shows "engine_inv (e\<lparr>en_disk := d\<rparr>)"
  using assms disk_holds_agree by (auto simp: engine_inv_def)

lemma log_replays_nil: "log_replays o' [] (mt_new (eo_mem_max o'))"
  unfolding log_replays_def by (intro exI [of _ "[]"] exI [of _ 0]) simp

text \<open>What an operation that changes only the representation leaves as it was.\<close>

definition preserved :: "engine \<Rightarrow> engine \<Rightarrow> bool" where
  "preserved e e' \<longleftrightarrow> engine_view e' = engine_view e \<and> en_opts e' = en_opts e \<and> en_next_seq e' = en_next_seq e
     \<and> recovers (en_opts e) (directory e') (engine_view e)
     \<and> (\<not> en_closed e' \<longrightarrow> engine_inv e')"

lemma preserved_disk:
  assumes "engine_inv e" "agree_but (en_next_file e) (en_disk e) d"
  shows "preserved e (e\<lparr>en_disk := d\<rparr>)"
proof -
  note inv = engine_inv_disk [OF assms]
  have "layers (e\<lparr>en_disk := d\<rparr>) = layers e" by (simp add: layers_def)
  then have "engine_view (e\<lparr>en_disk := d\<rparr>) = engine_view e" by (simp add: engine_view_def [abs_def])
  then show ?thesis using inv inv_recovers [OF inv] by (simp add: preserved_def)
qed

text \<open>A new table list with the same view, committed to the manifest, with the log it came with or a fresh one.\<close>

lemma preserved_commit:
  assumes "opts_ok (en_opts e)" "mt_inv (en_mem e')" "tables_ok (en_tables e')" "en_opts e' = en_opts e"
    and "en_next_seq e' = en_next_seq e"
    and "disk_holds (en_opts e) (en_disk e') (en_next_file e') (en_tables e')"
    and "wal_ready (en_wal e')"
    and "w_opts (en_wal e') = (wal_opts_of (en_opts e))\<lparr>wal_max_record := eff_max (wal_opts_of (en_opts e))\<rparr>"
    and "log_replays (en_opts e) (f_bytes (w_file (en_wal e'))) mem" "log_agrees mem (en_mem e') (en_tables e')"
    and "\<And>k. Option.bind (layer_find (layers e') k) live = Option.bind (layer_find (layers e) k) live"
  shows "preserved e e'"
proof -
  have view: "engine_view e' = engine_view e" using assms(11) by (simp add: engine_view_def [abs_def])
  have "engine_inv e'" if "\<not> en_closed e'" using that assms unfolding engine_inv_def by (simp only: assms(4)) blast
  moreover have "recovers (en_opts e) (directory e') (engine_view e')"
    using recovers_directory [OF assms(1,6,3,9,10)]
    by (simp add: directory_def engine_view_def [abs_def] layers_def)
  ultimately show ?thesis using view assms(4,5) by (simp add: preserved_def)
qed

text \<open>A flush either leaves everything but stray files, or commits one new table.\<close>

lemma engine_flush_cases:
  assumes "engine_inv e" "engine_flush c r fault e = (res, e')"
  obtains d where "agree_but (en_next_file e) (en_disk e) d" "e' = e\<lparr>en_disk := d\<rparr>"
      "res = None \<Longrightarrow> mt_len (en_mem e) = 0"
  | th te d d' where
      "make_table c r fault (en_opts e) (en_next_file e) (flush_entries (en_mem e)) (en_disk e) = (Inr (th, te), d)"
      "commit_manifest fault (\<lambda>m. m\<lparr>mf_next_file := en_next_file e + 1, mf_next_seq := en_next_seq e,
         mf_tables := mf_tables m @ [te]\<rparr>) d = Some d'"
      "en_disk e' = d'" "en_next_file e' = en_next_file e + 1" "en_tables e' = en_tables e @ [th]"
      "en_mem e' = mt_new (eo_mem_max (en_opts e))" "en_wal e' = wal_open (wal_opts_of (en_opts e)) (if fault = Some Io_remove_log then f_bytes (w_file (en_wal e)) else [])"
      "en_opts e' = en_opts e" "en_next_seq e' = en_next_seq e" "en_closed e' \<longleftrightarrow> fault = Some Io_wal"
      "res = None \<longleftrightarrow> fault \<noteq> Some Io_wal"
proof (cases "mt_len (en_mem e) = 0")
  case True
  then have "e' = e\<lparr>en_disk := en_disk e\<rparr>"
    using assms by (simp add: engine_flush_def engine_inv_def)
  then show thesis by (rule that(1) [OF agree_but_files(1)]) (rule True)
next
  case False
  let ?fid = "en_next_file e"
  have op: "\<not> en_closed e" using assms(1) by (simp add: engine_inv_def)
  obtain x d where mk: "make_table c r fault (en_opts e) ?fid (flush_entries (en_mem e)) (en_disk e) = (x, d)" by fastforce
  then have ag: "agree_but ?fid (en_disk e) d" using make_table_agree by (metis snd_conv)
  show thesis
  proof (cases x)
    case (Inl er)
    then have "e' = e\<lparr>en_disk := d\<rparr>" "res \<noteq> None"
      using mk assms(2) False op by (auto simp: engine_flush_def Let_def)
    then show thesis using that(1) [OF ag] by blast
  next
    case (Inr y)
    then obtain th te where y: "x = Inr (th, te)" by (cases y) auto
    let ?f = "\<lambda>m. m\<lparr>mf_next_file := ?fid + 1, mf_next_seq := en_next_seq e, mf_tables := mf_tables m @ [te]\<rparr>"
    show thesis
    proof (cases "commit_manifest fault ?f d")
      case None
      let ?d = "remove_file (bloom_path ?fid) (remove_file (sst_path ?fid) d)"
      have "e' = e\<lparr>en_disk := ?d\<rparr>" "res \<noteq> None"
        using mk y None assms(2) False op by (auto simp: engine_flush_def Let_def)
      moreover have "agree_but ?fid (en_disk e) ?d" using ag by simp
      ultimately show thesis using that(1) by blast
    next
      case (Some d')
      then show thesis
        using mk y assms(2) False op
        by (intro that(2) [of th te d d']) (auto simp: engine_flush_def Let_def split: if_splits)
    qed
  qed
qed

text \<open>The entries in all sources together; an upper bound of the entries of any table the engine writes.\<close>

definition total_entries :: "engine \<Rightarrow> nat" where
  "total_entries e = mt_len (en_mem e) + sum_list (map (\<lambda>th. length (rd_index (th_reader th))) (en_tables e))"

lemma table_holds_length: "table_holds th es \<Longrightarrow> length (rd_index (th_reader th)) = length es"
  by (simp add: table_holds_def reader_ok_lengths)

lemma engine_flush_preserved:
  assumes "engine_inv e" "mt_len (en_mem e) \<le> 2 ^ 29" "en_next_file e + 1 \<noteq> 0" "en_next_seq e \<noteq> 0"
    and "engine_flush c r fault e = (res, e')"
  shows "preserved e e' \<and> (layered e \<longrightarrow> layered e') \<and> (en_closed e' \<longrightarrow> fault = Some Io_wal)
    \<and> (res = None \<longrightarrow> \<not> en_closed e' \<and> mt_len (en_mem e') = 0)
    \<and> (en_next_file e' = en_next_file e \<or> en_next_file e' = en_next_file e + 1)
    \<and> total_entries e' = total_entries e \<and> (seq_below e \<longrightarrow> seq_below e')"
  using assms(1,5)
proof (cases rule: engine_flush_cases)
  case (1 d)
  have "layers e' = layers e" "en_closed e' = en_closed e" "total_entries e' = total_entries e"
    "en_next_seq e' = en_next_seq e"
    using 1(2) by (simp_all add: layers_def total_entries_def)
  then show ?thesis
    using 1 preserved_disk [OF assms(1) 1(1)] assms(1) by (auto simp: layered_def engine_inv_def seq_below_def)
next
  case (2 th te d d')
  have inv: "opts_ok (en_opts e)" "mt_inv (en_mem e)" "tables_ok (en_tables e)"
      "disk_holds (en_opts e) (en_disk e) (en_next_file e) (en_tables e)"
    using assms(1) by (auto simp: engine_inv_def)
  have len: "length (flush_entries (en_mem e)) \<le> 2 ^ 29" using length_flush_entries [OF inv(2)] assms(2) by simp
  note new = make_table_Inr [OF 2(1) len disk_holds_nonzero [OF inv(4)]]
  have dh: "disk_holds (en_opts e) d' (en_next_file e + 1) (en_tables e @ [th])"
    using disk_holds_new_table [OF inv(4) 2(1) len assms(3,4), of fault "\<lambda>ts. ts"] 2(2) by simp
  have ls: "layers e' = Map.empty # layers e"
    by (simp add: layers_def 2 flush_entries_layer [OF inv(2) new(1)])
  obtain old where old: "log_replays (en_opts e) (f_bytes (w_file (en_wal e))) old" "log_agrees old (en_mem e) (en_tables e)"
    using assms(1) by (auto simp: engine_inv_def)
  have agrees: "log_agrees old (mt_new (eo_mem_max (en_opts e))) (en_tables e @ [th])"
    using log_agrees_flushed(2) [OF old(2) flush_entries_layer [OF inv(2) new(1)]] by simp
  have "preserved e e'"
  proof (rule preserved_commit [where mem = "if fault = Some Io_remove_log then old else mt_new (eo_mem_max (en_opts e))"])
    show "tables_ok (en_tables e')" using inv(3) new(1) by (auto simp: tables_ok_def 2)
    show "disk_holds (en_opts e) (en_disk e') (en_next_file e') (en_tables e')" using dh by (simp add: 2)
  qed (use inv(1) old(1) agrees in \<open>simp_all add: 2 ls log_replays_nil wal_ready_def wal_open_def eff_max_def Let_def
       file_seek_end_def at_end_def\<close>)
  moreover have "layered e \<longrightarrow> layered e'" by (simp add: layered_def ls newer_layer_def)
  moreover have "total_entries e' = total_entries e"
    using table_holds_length [OF new(1)] length_flush_entries [OF inv(2)]
    by (simp add: total_entries_def 2 mt_len_def mt_new_def)
  moreover have "seq_below e \<longrightarrow> seq_below e'" by (simp add: seq_below_def ls 2)
  ultimately show ?thesis by (simp add: 2 mt_len_def mt_new_def)
qed

section \<open>Compaction\<close>

lemma remove_paths_files:
  "remove_paths fault ps b d = (b', d') \<Longrightarrow> d_manifest d' = d_manifest d \<and> d_wal d' = d_wal d
     \<and> (\<forall>p. p \<notin> set ps \<longrightarrow> d_files d' p = d_files d p)"
proof (induction ps arbitrary: b d)
  case (Cons p ps)
  then show ?case by (fastforce simp: remove_file_def split: if_splits)
qed simp

lemma open_table_paths: "open_table o' d te = Inr th \<Longrightarrow> th_sst th = te_sst te \<and> th_bloom_path th = te_bloom te"
  by (auto simp: open_table_def split: option.splits sum.splits)

lemma open_tables_paths:
  "open_tables o' d tes = Inr ths \<Longrightarrow> th \<in> set ths \<Longrightarrow> \<exists>te \<in> set tes. th_sst th = te_sst te \<and> th_bloom_path th = te_bloom te"
proof (induction tes arbitrary: ths)
  case (Cons te tes)
  then obtain t ts where "open_table o' d te = Inr t" "open_tables o' d tes = Inr ts" "ths = t # ts"
    by (auto split: sum.splits)
  with Cons show ?case by (auto dest: open_table_paths)
qed simp

lemma disk_holds_paths:
  assumes "disk_holds o' d n ths"
  shows "sst_path n \<notin> set (concat (map (\<lambda>th. [th_sst th, th_bloom_path th]) ths))"
    "bloom_path n \<notin> set (concat (map (\<lambda>th. [th_sst th, th_bloom_path th]) ths))"
proof -
  obtain m :: manifest where "open_tables o' d (mf_tables m) = Inr ths" "\<forall>te \<in> set (mf_tables m). row_ok te \<and> te_id te < n"
    using assms unfolding disk_holds_def by blast
  then have "\<forall>th \<in> set ths. \<exists>i < n. th_sst th = sst_path i \<and> th_bloom_path th = bloom_path i"
    using open_tables_paths by (fastforce simp: row_ok_def)
  then show "sst_path n \<notin> set (concat (map (\<lambda>th. [th_sst th, th_bloom_path th]) ths))"
    "bloom_path n \<notin> set (concat (map (\<lambda>th. [th_sst th, th_bloom_path th]) ths))" by fastforce+
qed

lemma hits_subset:
  assumes "tables_ok ths"
  shows "\<exists>S. finite S \<and> (\<forall>k. set (hits ths k) \<subseteq> S) \<and> card S \<le> sum_list (map (\<lambda>th. length (rd_index (th_reader th))) ths)"
  using assms
proof (induction ths)
  case (Cons th ths)
  then obtain es where h: "table_holds th es" by (auto simp: tables_ok_def)
  then have l: "length (rd_index (th_reader th)) = length es" by (simp add: table_holds_def reader_ok_lengths)
  obtain S where S: "finite S" "\<forall>k. set (hits ths k) \<subseteq> S" "card S \<le> sum_list (map (\<lambda>th. length (rd_index (th_reader th))) ths)"
    using Cons by (auto simp: tables_ok_def)
  have "card (set es \<union> S) \<le> length es + card S"
    by (metis card_Un_le card_length add_le_mono1 le_trans)
  moreover have "\<forall>k. set (hits (th # ths) k) \<subseteq> set es \<union> S"
    using S(2) table_layer_iff [OF h] by (auto split: option.splits)
  ultimately show ?case using S(1,3) l by (intro exI [of _ "set es \<union> S"]) auto
qed (auto intro: exI [of _ "{}"])

lemma foldl_pick_mem: "foldl pick c hs = Some x \<Longrightarrow> c = Some x \<or> x \<in> set hs"
proof (induction hs arbitrary: c)
  case (Cons h hs)
  have "pick c h = Some x \<Longrightarrow> c = Some x \<or> x = h" by (auto simp: pick_def split: option.splits if_splits)
  then show ?case using Cons.IH [of "pick c h"] Cons.prems by auto
qed simp

lemma compact_entries:
  assumes "tables_ok (en_tables e)"
  obtains best where "compact_merge (en_tables e) [] = Inr best" "strictly_sorted (map e_key (live_sorted best))"
    "\<And>x. x \<in> set (live_sorted best) \<longleftrightarrow> foldl pick None (hits (en_tables e) (e_key x)) = Some x \<and> e_kind x = entry_put"
    "mt_len (en_mem e) + length (live_sorted best) \<le> total_entries e"
proof -
  obtain best where b: "compact_merge (en_tables e) [] = Inr best" "candidates_ok best"
    "\<And>k. map_of best k = foldl pick None (hits (en_tables e) k)"
    using compact_merge_ok [OF assms, of "[]"] by (auto simp: candidates_ok_def)
  note live = live_sorted_props [OF b(2)]
  obtain S where S: "finite S" "\<forall>k. set (hits (en_tables e) k) \<subseteq> S"
      "card S \<le> sum_list (map (\<lambda>th. length (rd_index (th_reader th))) (en_tables e))"
    using hits_subset [OF assms] by blast
  have "set (live_sorted best) \<subseteq> S" using live(2) b(3) S(2) foldl_pick_mem by fastforce
  then have "card (set (live_sorted best)) \<le> card S" using S(1) card_mono by blast
  moreover have "distinct (live_sorted best)"
    using strictly_sorted_distinct [OF live(1)] by (simp add: distinct_map)
  ultimately have "mt_len (en_mem e) + length (live_sorted best) \<le> total_entries e"
    using S(3) by (simp add: distinct_card total_entries_def)
  then show thesis using that [OF b(1) live(1)] live(2) b(3) by simp
qed

lemma engine_compact_cases:
  assumes "engine_inv e" "engine_compact c r fault e = (res, e')" "compact_merge (en_tables e) [] = Inr best"
  obtains d where "agree_but (en_next_file e) (en_disk e) d" "e' = e\<lparr>en_disk := d\<rparr>"
      "res = None \<Longrightarrow> length (en_tables e) \<le> 1"
  | d d' ths n f where
      "ths = [] \<and> live_sorted best = [] \<and> n = en_next_file e \<and> d = en_disk e
         \<and> f = (\<lambda>m. m\<lparr>mf_next_seq := en_next_seq e, mf_tables := []\<rparr>)
       \<or> (\<exists>th te. ths = [th] \<and> n = en_next_file e + 1
         \<and> make_table c r fault (en_opts e) (en_next_file e) (live_sorted best) (en_disk e) = (Inr (th, te), d)
         \<and> f = (\<lambda>m. m\<lparr>mf_next_file := en_next_file e + 1, mf_next_seq := en_next_seq e, mf_tables := [te]\<rparr>))"
      "commit_manifest fault f d = Some d'" "length (en_tables e) > 1"
      "(res, e') = compact_done fault (en_tables e) (length (live_sorted best))
         (e\<lparr>en_disk := d', en_next_file := n, en_tables := ths\<rparr>)"
proof (cases "length (en_tables e) \<le> 1")
  case True
  then have "e' = e\<lparr>en_disk := en_disk e\<rparr>"
    using assms by (simp add: engine_compact_def engine_inv_def)
  then show thesis by (rule that(1) [OF agree_but_files(1)]) (rule True)
next
  case False
  let ?fid = "en_next_file e"
  have op: "\<not> en_closed e" using assms(1) by (simp add: engine_inv_def)
  have same: "e = e\<lparr>en_disk := en_disk e\<rparr>" "e\<lparr>en_next_file := ?fid\<rparr> = e" by simp_all
  show thesis
  proof (cases "live_sorted best = []")
    case True
    let ?f = "\<lambda>m. m\<lparr>mf_next_seq := en_next_seq e, mf_tables := []\<rparr>"
    show thesis
    proof (cases "commit_manifest fault ?f (en_disk e)")
      case None
      then have "e' = e\<lparr>en_disk := en_disk e\<rparr>" "res \<noteq> None"
        using assms(2,3) False True op by (auto simp: engine_compact_def Let_def)
      then show thesis using that(1) [OF agree_but_files(1)] by blast
    next
      case (Some d')
      show thesis
        by (rule that(2) [of "[]" ?fid "en_disk e" ?f d'])
           (use Some assms(2,3) False True op in \<open>simp_all add: engine_compact_def Let_def\<close>)
    qed
  next
    case ne: False
    obtain x d where mk: "make_table c r fault (en_opts e) ?fid (live_sorted best) (en_disk e) = (x, d)" by fastforce
    then have ag: "agree_but ?fid (en_disk e) d" using make_table_agree by (metis snd_conv)
    show thesis
    proof (cases x)
      case (Inl er)
      then have "e' = e\<lparr>en_disk := d\<rparr>" "res \<noteq> None"
        using mk assms(2,3) False ne op by (auto simp: engine_compact_def Let_def)
      then show thesis using that(1) [OF ag] by blast
    next
      case (Inr y)
      then obtain th te where y: "x = Inr (th, te)" by (cases y) auto
      let ?f = "\<lambda>m. m\<lparr>mf_next_file := ?fid + 1, mf_next_seq := en_next_seq e, mf_tables := [te]\<rparr>"
      show thesis
      proof (cases "commit_manifest fault ?f d")
        case None
        let ?d = "remove_file (bloom_path ?fid) (remove_file (sst_path ?fid) d)"
        have "e' = e\<lparr>en_disk := ?d\<rparr>" "res \<noteq> None"
          using mk y None assms(2,3) False ne op by (auto simp: engine_compact_def Let_def)
        moreover have "agree_but ?fid (en_disk e) ?d" using ag by simp
        ultimately show thesis using that(1) by blast
      next
        case (Some d')
        show thesis
          by (rule that(2) [of "[th]" "?fid + 1" d ?f d'])
             (use Some mk y assms(2,3) False ne op in \<open>simp_all add: engine_compact_def Let_def\<close>)
      qed
    qed
  qed
qed

lemma disk_holds_nil:
  assumes "d_manifest d = Decoded m" "manifest_ok m" "mf_tables m = []"
  shows "disk_holds o' d (mf_next_file m) []"
  using assms by (auto simp: disk_holds_def)

lemma disk_holds_removed:
  assumes "disk_holds o' d n ths" "\<forall>th \<in> set ths. th_sst th \<notin> set ps \<and> th_bloom_path th \<notin> set ps"
    and "remove_paths fault ps b d = (b', d')"
  shows "disk_holds o' d' n ths"
proof -
  obtain m where m: "d_manifest d = Decoded m" "manifest_ok m" "mf_next_file m = n"
      "open_tables o' d (mf_tables m) = Inr ths" "\<forall>te \<in> set (mf_tables m). row_ok te \<and> te_id te < n"
    using assms(1) by (auto simp: disk_holds_def)
  note rm = remove_paths_files [OF assms(3)]
  have opened: "\<exists>th \<in> set ths. th_sst th = te_sst te \<and> th_bloom_path th = te_bloom te"
    if "te \<in> set tes" "open_tables o' d tes = Inr ths" for te tes ths
    using that
  proof (induction tes arbitrary: ths)
    case (Cons t tes)
    then obtain a as where "open_table o' d t = Inr a" "open_tables o' d tes = Inr as" "ths = a # as"
      by (auto split: sum.splits)
    with Cons show ?case by (auto dest: open_table_paths)
  qed simp
  have "open_tables o' d' (mf_tables m) = open_tables o' d (mf_tables m)"
    using opened [OF _ m(4)] assms(2) rm by (intro open_tables_cong) metis
  then show ?thesis using m rm by (auto simp: disk_holds_def)
qed

text \<open>The new table list after a committed compaction, before the old files are removed.\<close>

lemma compact_new_tables:
  assumes "engine_inv e" "length (live_sorted best) \<le> 2 ^ 29" "en_next_file e + 1 \<noteq> 0"
    and "en_next_seq e \<noteq> 0" "commit_manifest fault' f d = Some d'"
    and "ths = [] \<and> live_sorted best = [] \<and> n = en_next_file e \<and> d = en_disk e
         \<and> f = (\<lambda>m. m\<lparr>mf_next_seq := en_next_seq e, mf_tables := []\<rparr>)
       \<or> (\<exists>th te. ths = [th] \<and> n = en_next_file e + 1
         \<and> make_table c r fault (en_opts e) (en_next_file e) (live_sorted best) (en_disk e) = (Inr (th, te), d)
         \<and> f = (\<lambda>m. m\<lparr>mf_next_file := en_next_file e + 1, mf_next_seq := en_next_seq e, mf_tables := [te]\<rparr>))"
  shows "disk_holds (en_opts e) d' n ths \<and> tables_ok ths
    \<and> (\<forall>k. layer_find (map table_layer ths) k = find (\<lambda>x. e_key x = k) (live_sorted best))
    \<and> (\<forall>th \<in> set ths. th_sst th = sst_path (en_next_file e) \<and> th_bloom_path th = bloom_path (en_next_file e))
    \<and> sum_list (map (\<lambda>th. length (rd_index (th_reader th))) ths) = length (live_sorted best)"
  using assms(6)
proof (elim disjE exE conjE)
  assume a: "ths = []" "live_sorted best = []" "n = en_next_file e" "d = en_disk e"
    "f = (\<lambda>m. m\<lparr>mf_next_seq := en_next_seq e, mf_tables := []\<rparr>)"
  obtain m where m: "d_manifest (en_disk e) = Decoded m" "manifest_ok m" "mf_next_file m = n"
    using assms(1) a(3) by (auto simp: engine_inv_def disk_holds_def)
  let ?m = "m\<lparr>mf_next_seq := en_next_seq e, mf_tables := []\<rparr>"
  have "d' = d\<lparr>d_manifest := Decoded ?m\<rparr>"
    using commit_manifest_Some [OF assms(5)] m a(4,5) by simp
  moreover have "manifest_ok ?m" using m(2) assms(4) by (simp add: manifest_ok_def)
  ultimately have "disk_holds (en_opts e) d' (mf_next_file ?m) []" by (intro disk_holds_nil) simp_all
  then show ?thesis using a m(3) by (simp add: tables_ok_def)
next
  fix th te
  assume a: "ths = [th]" "n = en_next_file e + 1"
    "make_table c r fault (en_opts e) (en_next_file e) (live_sorted best) (en_disk e) = (Inr (th, te), d)"
    "f = (\<lambda>m. m\<lparr>mf_next_file := en_next_file e + 1, mf_next_seq := en_next_seq e, mf_tables := [te]\<rparr>)"
  have dh: "disk_holds (en_opts e) (en_disk e) (en_next_file e) (en_tables e)" using assms(1) by (simp add: engine_inv_def)
  note new = make_table_Inr [OF a(3) assms(2) disk_holds_nonzero [OF dh]]
  have "disk_holds (en_opts e) d' n ([] @ [th])"
    using disk_holds_new_table [OF dh a(3) assms(2,3,4), of fault' "\<lambda>ts. []" d' "[]"] assms(5) a(2,4) by simp
  moreover have "th_sst th = sst_path (en_next_file e) \<and> th_bloom_path th = bloom_path (en_next_file e)"
    using open_table_paths [OF new(4)] new(2,3) by (simp add: row_ok_def)
  ultimately show ?thesis
    using new(1) a(1) table_layer_eq [OF new(1)] table_holds_length [OF new(1)]
    by (auto simp: tables_ok_def split: option.splits)
qed

lemma compact_view:
  assumes "layered e" "\<And>x. x \<in> set es \<longleftrightarrow> foldl pick None (hits (en_tables e) (e_key x)) = Some x \<and> e_kind x = entry_put"
    and "strictly_sorted (map e_key es)" "tables_ok (en_tables e)" "mt_inv (en_mem e)"
    and "\<forall>k. layer_find (map table_layer ths) k = find (\<lambda>x. e_key x = k) es" "length ths \<le> 1"
    and "en_mem e' = en_mem e" "en_tables e' = ths"
  shows "Option.bind (layer_find (layers e') k) live = Option.bind (layer_find (layers e) k) live" "layered e'"
    "seq_below e \<Longrightarrow> en_next_seq e' = en_next_seq e \<Longrightarrow> seq_below e'"
    "Option.bind (layer_find (map table_layer (rev ths)) k) live = Option.bind (layer_find (map table_layer (rev (en_tables e))) k) live"
proof -
  have rev: "rev ths = ths" using assms(7) by (cases ths) auto
  have pick: "foldl pick None (hits (en_tables e) k) = layer_find (map table_layer (rev (en_tables e))) k" for k
    using pick_increasing [OF hits_increasing [OF layered_tables [OF assms(1)]]] by (simp add: layer_find_hits)
  have key: "e_key x = k" "e_kind x \<in> {entry_put, entry_delete}"
    if "layer_find (map table_layer (rev (en_tables e))) k = Some x" for k x
    using layer_find_key [of "e\<lparr>en_mem := mt_new 1\<rparr>" k x] assms(4) that by (simp_all add: layers_def)
  have new: "layer_find (map table_layer ths) k = Some x \<longleftrightarrow>
      layer_find (map table_layer (rev (en_tables e))) k = Some x \<and> e_kind x = entry_put" for k x
    using assms(2) [of x] key [of k x] find_key_iff [OF assms(3), of k x] assms(6) pick by auto
  have "Option.bind (layer_find (map table_layer ths) k) live
      = Option.bind (layer_find (map table_layer (rev (en_tables e))) k) live" for k
  proof (cases "layer_find (map table_layer (rev (en_tables e))) k")
    case None
    then have "layer_find (map table_layer ths) k = None" using new [of k] by (metis not_None_eq)
    with None show ?thesis by simp
  next
    case (Some a)
    show ?thesis
    proof (cases "e_kind a = entry_put")
      case True
      then show ?thesis using new [of k a] Some by simp
    next
      case False
      then have "layer_find (map table_layer ths) k = None" using new [of k] Some by (metis not_None_eq option.inject)
      with Some False show ?thesis by (simp add: live_def)
    qed
  qed
  then show "Option.bind (layer_find (layers e') k) live = Option.bind (layer_find (layers e) k) live"
      "Option.bind (layer_find (map table_layer (rev ths)) k) live = Option.bind (layer_find (map table_layer (rev (en_tables e))) k) live"
    using assms(8,9) rev by (simp_all add: layers_def split: option.splits)
  have old: "b \<in> set (hits (en_tables e) k)" if "ths = [th]" "table_layer th k = Some b" for th k b
    using new [of k b] that by (auto simp: layer_find_hits split: if_splits)
  have "newer_layer (mt_get (en_mem e)) (table_layer th)" if "ths = [th]" for th
    using old [OF that] hits_below_mem [OF assms(1)] unfolding newer_layer_def by blast
  then show "layered e'" using assms(7-9) by (cases ths) (auto simp: layered_def layers_def)
  show "seq_below e'" if "seq_below e" "en_next_seq e' = en_next_seq e"
  proof -
    have "e_seq b < en_next_seq e" if th: "ths = [th]" "table_layer th k = Some b" for th k b
      using hits_mem [OF old [OF th]] \<open>seq_below e\<close> by (auto simp: seq_below_def layers_def)
    then show ?thesis using that assms(7-9) by (cases ths) (auto simp: seq_below_def layers_def)
  qed
qed

lemma engine_compact_preserved:
  assumes "engine_inv e" "layered e" "total_entries e \<le> 2 ^ 29" "en_next_file e + 1 \<noteq> 0" "en_next_seq e \<noteq> 0"
    and "engine_compact c r fault e = (res, e')"
  shows "preserved e e' \<and> layered e' \<and> \<not> en_closed e' \<and> (res = None \<longrightarrow> length (en_tables e') \<le> 1)
    \<and> (en_next_file e' = en_next_file e \<or> en_next_file e' = en_next_file e + 1)
    \<and> en_mem e' = en_mem e \<and> total_entries e' \<le> total_entries e \<and> (seq_below e \<longrightarrow> seq_below e')"
proof -
  have inv: "\<not> en_closed e" "opts_ok (en_opts e)" "mt_inv (en_mem e)" "tables_ok (en_tables e)"
      "disk_holds (en_opts e) (en_disk e) (en_next_file e) (en_tables e)"
    using assms(1) by (auto simp: engine_inv_def)
  obtain best where best: "compact_merge (en_tables e) [] = Inr best" "strictly_sorted (map e_key (live_sorted best))"
    "\<And>x. x \<in> set (live_sorted best) \<longleftrightarrow> foldl pick None (hits (en_tables e) (e_key x)) = Some x \<and> e_kind x = entry_put"
    "mt_len (en_mem e) + length (live_sorted best) \<le> total_entries e"
    using compact_entries [OF inv(4)] by blast
  show ?thesis
    using assms(1,6) best(1)
  proof (cases rule: engine_compact_cases)
    case (1 d)
    have "layers e' = layers e" "en_closed e' = en_closed e" "en_tables e' = en_tables e" "en_next_seq e' = en_next_seq e"
      "en_next_file e' = en_next_file e" "en_mem e' = en_mem e" "total_entries e' = total_entries e"
      using 1(2) by (simp_all add: layers_def total_entries_def)
    moreover have "preserved e e'" unfolding 1(2) by (rule preserved_disk [OF assms(1) 1(1)])
    ultimately show ?thesis using 1(3) assms(2) inv(1) by (simp add: layered_def seq_below_def)
  next
    case (2 d d' ths n f)
    have "length (live_sorted best) \<le> 2 ^ 29" using best(4) assms(3) by simp
    note new = compact_new_tables [OF assms(1) this assms(4,5) 2(2,1)]
    let ?ps = "concat (map (\<lambda>th. [th_sst th, th_bloom_path th]) (en_tables e))"
    obtain b d2 where rm: "remove_paths fault ?ps False d' = (b, d2)" by fastforce
    have e': "en_disk e' = d2" "en_next_file e' = n" "en_tables e' = ths" "en_mem e' = en_mem e" "en_wal e' = en_wal e"
      "en_opts e' = en_opts e" "en_next_seq e' = en_next_seq e" "\<not> en_closed e'"
      using 2(4) rm inv(1) by (auto simp: compact_done_def)
    have len: "length ths \<le> 1" "n = en_next_file e \<or> n = en_next_file e + 1" using 2(1) by auto
    have dh: "disk_holds (en_opts e) d2 n ths"
      using disk_holds_removed [OF _ _ rm] new disk_holds_paths [OF inv(5)] by simp
    note view = compact_view [OF assms(2) best(3,2) inv(4,3) _ len(1) e'(4,3)]
    obtain mem where mem: "log_replays (en_opts e) (f_bytes (w_file (en_wal e))) mem" "log_agrees mem (en_mem e) (en_tables e)"
      using assms(1) by (auto simp: engine_inv_def)
    have agrees: "log_agrees mem (en_mem e) ths" by (rule log_agrees_tables [OF mem(2) view(4)]) (use new in blast)
    have "preserved e e'"
    proof (rule preserved_commit [where mem = mem])
      show "Option.bind (layer_find (layers e') k) live = Option.bind (layer_find (layers e) k) live" for k
        using view(1) new by blast
    qed (use inv(2,3) assms(1) new dh mem(1) agrees in \<open>simp_all add: e' engine_inv_def\<close>)
    moreover have "total_entries e' \<le> total_entries e" using new best(4) by (simp add: total_entries_def e')
    ultimately show ?thesis using view(2,3) new e' len by simp
  qed
qed

end
