(* ===== verification/EngineSpec.thy ===== *)
theory EngineSpec
  imports EngineOps
begin

text \<open>
  The engine against its specification: the effect of writes, sessions of operations against a finite
  map, recovery after a close, a crash or an I/O fault, and where the sequence numbers of a reopened log
  make \<open>Scan\<close> return a stale value.
\<close>

section \<open>Writes\<close>

lemma run_records_append:
  "run_records fn rs s = (None, s') \<Longrightarrow> run_records fn (rs @ [r]) s = fn r s'"
  by (induction rs arbitrary: s) (auto split: prod.splits option.splits)

lemma wal_append_Inr:
  assumes "wal_append w r wo s = (Inr q, w')" "wal_ready w"
  shows "wal_ready w' \<and> w_opts w' = w_opts w \<and> wal_frame_ok (wal_max_record (w_opts w)) r
    \<and> f_bytes (w_file w') = f_bytes (w_file w) @ wal_enc (r\<lparr>wr_seq := w_seq w + 1\<rparr>)"
  using assms
  by (auto simp: wal_append_def Let_def wal_frame_ok_def wal_ready_def file_write_outcome_def wal_enc_def
      file_write_at_end split: option.splits if_splits)
     (simp_all add: at_end_def)

lemma mt_get_upsert: "k \<noteq> [] \<Longrightarrow> mt_get (upsert k x m) = (mt_get m)(k \<mapsto> x)"
  by (auto simp: mt_get_def)

text \<open>The record and the entry of one write.\<close>

definition write_record :: "bytes \<Rightarrow> bytes option \<Rightarrow> u64 \<Rightarrow> wal_record" where
  "write_record k v seq = \<lparr>wr_type = (if v = None then record_delete else record_put), wr_key = k,
     wr_value = (case v of None \<Rightarrow> [] | Some x \<Rightarrow> x), wr_seq = seq\<rparr>"

definition write_entry :: "bytes \<Rightarrow> bytes option \<Rightarrow> u64 \<Rightarrow> entry" where
  "write_entry k v seq = \<lparr>e_key = k, e_value = (case v of None \<Rightarrow> [] | Some x \<Rightarrow> x),
     e_kind = (if v = None then entry_delete else entry_put), e_seq = seq\<rparr>"

definition engine_write :: "bytes \<Rightarrow> bytes option \<Rightarrow> write_outcome \<Rightarrow> bool \<Rightarrow> engine \<Rightarrow> engine_error option \<times> engine" where
  "engine_write k v wo s e = (case v of None \<Rightarrow> engine_delete k wo s e | Some x \<Rightarrow> engine_put k x wo s e)"

lemma engine_write_eq:
  "engine_write k v wo s e =
     (if k = [] then (Some EErrInvalidKey, e)
      else if en_closed e then (Some EErrClosed, e)
      else (case wal_append (en_wal e) (write_record k v (en_next_seq e)) wo s of
        (Inl er, w) \<Rightarrow> (Some (EErrWal er), e\<lparr>en_wal := w\<rparr>)
      | (Inr _, w) \<Rightarrow> (None, e\<lparr>en_wal := w, en_next_seq := en_next_seq e + 1,
          en_mem := upsert k (write_entry k v (en_next_seq e)) (en_mem e)\<rparr>)))"
  by (cases v) (auto simp: engine_write_def engine_put_def engine_delete_def write_record_def write_entry_def
      mt_put_def mt_delete_def Let_def split: sum.splits prod.splits)

lemma replay_write:
  "k \<noteq> [] \<Longrightarrow> \<exists>mx'. replay_fn (write_record k v q) (m, mx) = (None, upsert k (write_entry k v q) m, mx')"
  by (cases v) (simp_all add: replay_fn_def write_record_def write_entry_def mt_put_def mt_delete_def
      record_put_def record_delete_def)

lemma log_replays_snoc:
  assumes "log_replays o' bs mem" "wal_frame_ok (eff_max (wal_opts_of o')) r"
    and "\<And>mx. \<exists>mx'. replay_fn r (mem, mx) = (None, mem', mx')"
  shows "log_replays o' (bs @ wal_enc r) mem'"
proof -
  obtain rs mx where rs: "bs = concat (map wal_enc rs)" "\<forall>r \<in> set rs. wal_frame_ok (eff_max (wal_opts_of o')) r"
    "run_records replay_fn rs (mt_new (eo_mem_max o'), 0) = (None, mem, mx)"
    using assms(1) by (auto simp: log_replays_def)
  obtain mx' where "replay_fn r (mem, mx) = (None, mem', mx')" using assms(3) by blast
  then have "run_records replay_fn (rs @ [r]) (mt_new (eo_mem_max o'), 0) = (None, mem', mx')"
    using run_records_append [OF rs(3)] by simp
  then show ?thesis
    unfolding log_replays_def using rs(1,2) assms(2) by (intro exI [of _ "rs @ [r]"] exI [of _ mx']) auto
qed

lemma engine_write_ok:
  assumes "engine_inv e" "engine_write k v wo s e = (None, e')"
  shows "engine_inv e'" "engine_view e' = (engine_view e)(k := v)" "en_opts e' = en_opts e"
    "en_tables e' = en_tables e" "en_next_file e' = en_next_file e" "en_next_seq e' = en_next_seq e + 1" "k \<noteq> []"
    "en_mem e' = upsert k (write_entry k v (en_next_seq e)) (en_mem e)"
proof -
  let ?x = "write_entry k v (en_next_seq e)"
  obtain q w where w: "wal_append (en_wal e) (write_record k v (en_next_seq e)) wo s = (Inr q, w)"
    and k: "k \<noteq> []" and e': "e' = e\<lparr>en_wal := w, en_next_seq := en_next_seq e + 1, en_mem := upsert k ?x (en_mem e)\<rparr>"
    using assms(2) by (auto simp: engine_write_eq split: if_splits sum.splits prod.splits)
  have inv: "mt_inv (en_mem e)" "wal_ready (en_wal e)"
    "w_opts (en_wal e) = (wal_opts_of (en_opts e))\<lparr>wal_max_record := eff_max (wal_opts_of (en_opts e))\<rparr>"
    using assms(1) by (auto simp: engine_inv_def)
  note ap = wal_append_Inr [OF w inv(2)]
  obtain mem where mem: "log_replays (en_opts e) (f_bytes (w_file (en_wal e))) mem" "log_agrees mem (en_mem e) (en_tables e)"
    using assms(1) by (auto simp: engine_inv_def)
  let ?seq = "w_seq (en_wal e) + 1"
  let ?rec = "write_record k v ?seq"
  have "f_bytes (w_file w) = f_bytes (w_file (en_wal e)) @ wal_enc ?rec"
    using ap by (simp add: write_record_def)
  moreover have "wal_frame_ok (eff_max (wal_opts_of (en_opts e))) ?rec"
    using ap inv(3) by (simp add: wal_frame_ok_def write_record_def)
  ultimately have "log_replays (en_opts e) (f_bytes (w_file w)) (upsert k (write_entry k v ?seq) mem)"
    using log_replays_snoc [OF mem(1)] replay_write [OF k, of v ?seq] by simp
  moreover have "log_agrees (upsert k (write_entry k v ?seq) mem) (upsert k ?x (en_mem e)) (en_tables e)"
    using mem(2) k by (simp add: log_agrees_def mt_get_upsert write_entry_def live_def)
  moreover have "mt_inv (upsert k ?x (en_mem e))"
    by (rule upsert_inv [OF inv(1)]) (auto simp: k write_entry_def)
  ultimately show "engine_inv e'" using assms(1) ap inv(3) by (auto simp: engine_inv_def e')
  have "engine_view e' k' = ((engine_view e)(k := v)) k'" for k'
    by (cases v) (auto simp: engine_view_def layers_def e' mt_get_upsert [OF k] write_entry_def live_def)
  then show "engine_view e' = (engine_view e)(k := v)" by (rule ext)
qed (use assms(2) in \<open>auto simp: engine_write_eq split: if_splits sum.splits prod.splits\<close>)

lemma engine_write_layered:
  assumes "engine_inv e" "engine_write k v wo s e = (None, e')" "layered e" "seq_below e" "en_next_seq e + 1 \<noteq> 0"
  shows "layered e'" "seq_below e'"
proof -
  note w = engine_write_ok [OF assms(1,2)]
  let ?x = "write_entry k v (en_next_seq e)"
  have get: "mt_get (en_mem e') = (mt_get (en_mem e))(k \<mapsto> ?x)" using w(7,8) by (simp add: mt_get_upsert)
  have x: "e_seq ?x = en_next_seq e" by (simp add: write_entry_def)
  note lt = word_less_Suc [OF assms(5)]
  show "seq_below e'"
    using assms(4) lt by (auto simp: seq_below_def layers_def get w(4,6) x)
  show "layered e'"
    using assms(3,4) by (auto simp: layered_def layers_def get w(4) newer_layer_def seq_below_def x)
qed

lemma engine_write_failed:
  assumes "engine_write k v wo s e = (Some er, e')"
  shows "engine_view e' = engine_view e" "en_mem e' = en_mem e" "en_tables e' = en_tables e"
    "en_next_seq e' = en_next_seq e" "en_disk e' = en_disk e" "en_closed e' = en_closed e"
proof -
  obtain w where e': "e' = e\<lparr>en_wal := w\<rparr>"
  proof (cases "k = [] \<or> en_closed e")
    case True
    then have "e' = e" using assms by (auto simp: engine_write_eq split: if_splits)
    then show thesis using that [of "en_wal e"] by simp
  next
    case False
    then show thesis using assms that by (auto simp: engine_write_eq split: sum.splits prod.splits)
  qed
  have "layers e' = layers e" by (simp add: e' layers_def)
  then show "engine_view e' = engine_view e" by (simp add: engine_view_def [abs_def])
qed (use assms in \<open>auto simp: engine_write_eq split: if_splits sum.splits prod.splits\<close>)

section \<open>Sessions\<close>

datatype engine_op = Put_op bytes bytes | Delete_op bytes | Flush_op "io_fault option" | Compact_op "io_fault option"

fun engine_step ::
    "(u64 \<Rightarrow> float64 \<Rightarrow> u64) \<Rightarrow> (u64 \<Rightarrow> u64 \<Rightarrow> int) \<Rightarrow> engine_op \<Rightarrow> engine \<Rightarrow> engine_error option \<times> engine" where
  "engine_step c r (Put_op k v) e = engine_put k v Write_ok True e"
| "engine_step c r (Delete_op k) e = engine_delete k Write_ok True e"
| "engine_step c r (Flush_op f) e = engine_flush c r f e"
| "engine_step c r (Compact_op f) e = engine_compact c r f e"

fun is_write :: "engine_op \<Rightarrow> bool" where
  "is_write (Put_op k v) = True" | "is_write (Delete_op k) = True" | "is_write _ = False"

text \<open>A run whose writes all succeed; flushes and compactions may fail and the run goes on.\<close>

fun engine_run ::
    "(u64 \<Rightarrow> float64 \<Rightarrow> u64) \<Rightarrow> (u64 \<Rightarrow> u64 \<Rightarrow> int) \<Rightarrow> engine_op list \<Rightarrow> engine \<Rightarrow> engine option" where
  "engine_run c r [] e = Some e"
| "engine_run c r (op # ops) e =
     (case engine_step c r op e of
        (res, e') \<Rightarrow> if is_write op \<and> res \<noteq> None then None else engine_run c r ops e')"

fun map_step :: "engine_op \<Rightarrow> (bytes \<rightharpoonup> bytes) \<Rightarrow> (bytes \<rightharpoonup> bytes)" where
  "map_step (Put_op k v) m = m(k \<mapsto> v)"
| "map_step (Delete_op k) m = m(k := None)"
| "map_step _ m = m"

definition session_inv :: "nat \<Rightarrow> (bytes \<rightharpoonup> bytes) \<Rightarrow> engine \<Rightarrow> bool" where
  "session_inv n v e \<longleftrightarrow> engine_inv e \<and> layered e \<and> seq_below e \<and> engine_view e = v \<and> en_next_seq e \<noteq> 0
     \<and> unat (en_next_seq e) \<le> n + 1 \<and> unat (en_next_file e) \<le> n + 1 \<and> total_entries e \<le> n"

lemma unat_Suc_le: "unat (x :: u64) \<le> n \<Longrightarrow> unat (x + 1) \<le> n + 1"
  by (simp add: unat_word_ariths)

lemma small_Suc: "unat (x :: u64) \<le> 2 ^ 30 \<Longrightarrow> x + 1 \<noteq> 0"
proof
  assume a: "unat x \<le> 2 ^ 30" "x + 1 = 0"
  have "unat (x + 1) = unat x + 1" using a(1) by (simp add: unat_word_ariths)
  with a(2) show False by simp
qed

lemma mt_len_upsert: "mt_len (upsert k x m) \<le> mt_len m + 1"
  by (auto simp: mt_len_def upsert_def Let_def split: option.splits)

lemma session_write:
  assumes "session_inv n m e" "engine_write k v Write_ok True e = (None, e')" "n \<le> 2 ^ 29"
  shows "session_inv (n + 1) (m(k := v)) e'"
proof -
  have inv: "engine_inv e" "layered e" "seq_below e" "engine_view e = m" "en_next_seq e \<noteq> 0"
    "unat (en_next_seq e) \<le> n + 1" "unat (en_next_file e) \<le> n + 1" "total_entries e \<le> n"
    using assms(1) by (auto simp: session_inv_def)
  note w = engine_write_ok [OF inv(1) assms(2)]
  have nz: "en_next_seq e + 1 \<noteq> 0" by (rule small_Suc) (use inv(6) assms(3) in simp)
  have "total_entries e' \<le> n + 1"
    using inv(8) mt_len_upsert [of k "write_entry k v (en_next_seq e)" "en_mem e"]
    by (simp add: total_entries_def w(4,8))
  then show ?thesis
    using w inv nz engine_write_layered [OF inv(1) assms(2) inv(2,3) nz] unat_Suc_le [OF inv(6)]
    by (simp add: session_inv_def)
qed

lemma session_reorganise:
  assumes "session_inv n m e" "n \<le> 2 ^ 29"
    and "engine_flush c r f e = (res, e') \<or> engine_compact c r f e = (res, e')" "\<not> en_closed e'"
  shows "session_inv (n + 1) m e'"
proof -
  have inv: "engine_inv e" "layered e" "seq_below e" "engine_view e = m" "en_next_seq e \<noteq> 0"
    "unat (en_next_seq e) \<le> n + 1" "unat (en_next_file e) \<le> n + 1" "total_entries e \<le> n"
    using assms(1) by (auto simp: session_inv_def)
  have nz: "en_next_file e + 1 \<noteq> 0" by (rule small_Suc) (use inv(7) assms(2) in simp)
  have len: "mt_len (en_mem e) \<le> 2 ^ 29" "total_entries e \<le> 2 ^ 29"
    using inv(8) assms(2) by (simp_all add: total_entries_def)
  have "preserved e e' \<and> layered e' \<and> seq_below e' \<and> total_entries e' \<le> n
      \<and> (en_next_file e' = en_next_file e \<or> en_next_file e' = en_next_file e + 1)"
    using assms(3) engine_flush_preserved [OF inv(1) len(1) nz inv(5), of c r f res e'] inv
      engine_compact_preserved [OF inv(1,2) len(2) nz inv(5), of c r f res e'] by auto
  then show ?thesis
    using inv assms(4) unat_Suc_le [OF inv(7)] by (auto simp: preserved_def session_inv_def)
qed

lemma closed_step:
  "en_closed e \<Longrightarrow> engine_step c r op e = (res, e') \<Longrightarrow> en_closed e' \<and> (is_write op \<longrightarrow> res \<noteq> None)"
  by (cases op) (auto simp: engine_put_def engine_delete_def engine_flush_def engine_compact_def split: if_splits)

lemma closed_run: "en_closed e \<Longrightarrow> engine_run c r ops e = Some e' \<Longrightarrow> en_closed e'"
proof (induction ops arbitrary: e)
  case (Cons op ops)
  then show ?case using closed_step by (fastforce split: prod.splits if_splits)
qed simp

lemma session_step:
  assumes "session_inv n m e" "n \<le> 2 ^ 29" "engine_step c r op e = (res, e')" "is_write op \<longrightarrow> res = None" "\<not> en_closed e'"
  shows "session_inv (n + 1) (map_step op m) e'"
proof (cases op)
  case (Put_op k v)
  then show ?thesis using session_write [OF assms(1), of k "Some v" e'] assms by (simp add: engine_write_def)
next
  case (Delete_op k)
  then show ?thesis using session_write [OF assms(1), of k None e'] assms by (simp add: engine_write_def)
next
  case (Flush_op f)
  then show ?thesis using session_reorganise [OF assms(1,2), of c r f res e'] assms(3,5) by simp
next
  case (Compact_op f)
  then show ?thesis using session_reorganise [OF assms(1,2), of c r f res e'] assms(3,5) by simp
qed

lemma session_run:
  assumes "session_inv n m e" "n + length ops \<le> 2 ^ 29" "engine_run c r ops e = Some e'" "\<not> en_closed e'"
  shows "session_inv (n + length ops) (fold map_step ops m) e'"
  using assms
proof (induction ops arbitrary: n m e)
  case (Cons op ops)
  obtain res e1 where s: "engine_step c r op e = (res, e1)" by fastforce
  then have r: "is_write op \<longrightarrow> res = None" "engine_run c r ops e1 = Some e'"
    using Cons.prems(3) by (auto split: if_splits)
  have "\<not> en_closed e1" using closed_run [OF _ r(2)] Cons.prems(4) by blast
  then have "session_inv (n + 1) (map_step op m) e1"
    using session_step [OF Cons.prems(1) _ s r(1)] Cons.prems(2) by simp
  then show ?case using Cons.IH [OF _ _ r(2)] Cons.prems(2,4) by fastforce
qed simp

text \<open>A first opening: no manifest, an empty log.\<close>

definition fresh_disk :: "disk" where
  "fresh_disk = \<lparr>d_manifest = Absent, d_files = Map.empty, d_wal = []\<rparr>"

lemma open_fresh:
  assumes "eo_dir o' \<noteq> []" "fpr_valid (eo_fpr (effective_options o'))"
  shows "\<exists>e. engine_open None o' fresh_disk = (Inr e, fresh_disk\<lparr>d_manifest := Decoded new_manifest\<rparr>)
    \<and> session_inv 0 Map.empty e \<and> en_next_seq e = 1 \<and> en_tables e = [] \<and> mt_get (en_mem e) = Map.empty"
proof -
  let ?o = "effective_options o'" and ?d = "fresh_disk\<lparr>d_manifest := Decoded new_manifest\<rparr>"
  have ok: "opts_ok ?o" using assms by (simp add: opts_ok_def effective_options_def default_mem_bytes_def)
  obtain w where w: "wal_replay (wal_open (wal_opts_of ?o) []) replay_fn (mt_new (eo_mem_max ?o), 0)
      = (None, w, mt_new (eo_mem_max ?o), 0)"
    "wal_ready w" "w_opts w = (wal_opts_of ?o)\<lparr>wal_max_record := eff_max (wal_opts_of ?o)\<rparr>" "f_bytes (w_file w) = []"
    using wal_replay_open [OF log_replays_nil [of ?o]]
    by (auto simp: wal_replay_def wal_open_def replay_loop.simps wal_read_def Let_def)
  have mok: "manifest_ok new_manifest" by (simp add: manifest_ok_def new_manifest_def manifest_version_def)
  have "engine_open None o' fresh_disk = (Inr \<lparr>en_opts = ?o, en_wal = w, en_mem = mt_new (eo_mem_max ?o), en_tables = [],
      en_next_seq = 1, en_next_file = 1, en_flushes = 0, en_compactions = 0, en_last_in = 0, en_last_out = 0,
      en_checks = 0, en_skips = 0, en_closed = False, en_disk = ?d\<rparr>, ?d)"
    using assms w(1) by (simp add: engine_open_def Let_def load_manifest_def save_manifest_def fresh_disk_def new_manifest_def)
  moreover have "disk_holds ?o ?d 1 []"
    using disk_holds_nil [of ?d new_manifest ?o] mok by (simp add: new_manifest_def)
  ultimately show ?thesis
    using ok w log_replays_nil [of ?o] log_agrees_refl
    by (auto simp: session_inv_def engine_inv_def tables_ok_def layered_def layers_def seq_below_def total_entries_def
        mt_len_def engine_view_def [abs_def] intro!: exI [of _ "mt_new (eo_mem_max ?o)"])
       (auto simp: mt_new_def)
qed

text \<open>C1: the engine refines a finite map. From a first \<open>Open\<close>, run any writes that succeed, with flushes and
  compactions in between that may each fail at any I/O step: if the engine is still open, \<open>Get\<close> of every key
  is the map's value (\<open>None\<close> if it was deleted or never put), and \<open>Scan\<close> is the map's part in the range, in
  strictly increasing key order.\<close>

theorem engine_session_refines_map:
  assumes "eo_dir o' \<noteq> []" "fpr_valid (eo_fpr (effective_options o'))" "engine_open None o' fresh_disk = (Inr e0, d)"
    and "engine_run c r ops e0 = Some e" "\<not> en_closed e" "length ops \<le> 2 ^ 29"
  shows "fst (engine_get k e) = Inr (fold map_step ops Map.empty k)
    \<and> (\<exists>res. engine_scan lo hi e = Inr res \<and> strictly_sorted (map kv_key res)
        \<and> (\<forall>k v. (k, v) \<in> (\<lambda>kv. (kv_key kv, kv_value kv)) ` set res
             \<longleftrightarrow> in_range lo hi k \<and> fold map_step ops Map.empty k = Some v))"
proof -
  have "session_inv 0 Map.empty e0" using open_fresh [OF assms(1,2)] assms(3) by auto
  then have "session_inv (0 + length ops) (fold map_step ops Map.empty) e"
    using session_run [of 0 Map.empty e0 ops c r e] assms(4-6) by simp
  then have "engine_inv e" "layered e" "engine_view e = fold map_step ops Map.empty"
    by (auto simp: session_inv_def)
  then show ?thesis
    using engine_get_correct(1) [of e k] engine_scan_correct [of e lo hi] by (simp add: engine_inv_def)
qed

end
