(* ===== verification/EngineRecovery.thy ===== *)
theory EngineRecovery
  imports EngineSpec
begin

text \<open>
  Recovery of the engine: what a reopened directory holds after a close, after an I/O fault of a flush or a
  compaction, and after a crash in the middle of a flush; and the stale values that sequence numbers
  restarted by a flush bring back.
\<close>

section \<open>Operations that succeed\<close>

lemma wal_max_of_inv:
  "engine_inv e \<Longrightarrow> wal_max_record (w_opts (en_wal e)) = eff_max (wal_opts_of (en_opts e))"
  by (simp add: engine_inv_def)

lemma engine_write_succeeds:
  assumes "engine_inv e" "k \<noteq> []"
    and "17 + length k + length (case v of None \<Rightarrow> [] | Some x \<Rightarrow> x) \<le> unat (eff_max (wal_opts_of (en_opts e)))"
  shows "\<exists>e'. engine_write k v Write_ok True e = (None, e')"
proof -
  let ?r = "write_record k v (en_next_seq e)"
  have "validate_record ?r = None" using assms(2) by (simp add: validate_record_def write_record_def)
  moreover have "wal_frame_ok (wal_max_record (w_opts (en_wal e))) ?r"
    using assms(3) wal_max_of_inv [OF assms(1)] by (simp add: wal_frame_ok_def write_record_def)
  ultimately show ?thesis
    using wal_append_ok [of "en_wal e" ?r] assms(1,2) by (simp add: engine_write_eq engine_inv_def)
qed

lemma make_table_succeeds:
  assumes "\<forall>e \<in> set es. entry_fits (sst_eff_max (eo_sst_max o')) e" "es \<noteq> []" "strictly_sorted (map e_key es)"
    and "length es \<le> 2 ^ 29" "bloom_new c r (word_of_nat (length es)) (eo_fpr o') = Inr bf0"
  shows "\<exists>th te d'. make_table c r None o' fid es d = (Inr (th, te), d')"
proof -
  let ?p = "join_dir (eo_dir o') (sst_path fid)"
  have c: "sst_create ?p es (eo_sst_max o') = Inr (table_bytes es, table_meta ?p es)"
    using assms(1-3) by (simp add: sst_create_Inr join_dir_def)
  obtain bf where b: "bloom_add_all bf0 (map e_key es) = Some bf"
    using bloom_add_all_total [OF bloom_new_ok [OF assms(5)] live_keys_fit [OF assms(1)]] by auto
  have "sst_open ?p (eo_sst_max o') (table_bytes es) = Inr (table_reader ?p (sst_eff_max (eo_sst_max o')) es)"
    by (rule sst_create_open(1) [OF c length_table_bytes_bound [OF assms(1,4)]])
  then show ?thesis using c b assms(5) by (simp add: make_table_def Let_def)
qed

lemma engine_flush_succeeds:
  assumes "engine_inv e" "mt_len (en_mem e) \<noteq> 0" "mt_len (en_mem e) \<le> 2 ^ 29"
    and "\<forall>k x. mt_get (en_mem e) k = Some x \<longrightarrow> 17 + length k + length (e_value x) \<le> unat (sst_eff_max (eo_sst_max (en_opts e)))"
    and "bloom_new c r (word_of_nat (mt_len (en_mem e))) (eo_fpr (en_opts e)) = Inr bf0"
  shows "\<exists>e'. engine_flush c r None e = (None, e') \<and> en_flushes e' = en_flushes e + 1"
proof -
  let ?es = "flush_entries (en_mem e)"
  have inv: "\<not> en_closed e" "mt_inv (en_mem e)" "disk_holds (en_opts e) (en_disk e) (en_next_file e) (en_tables e)"
    using assms(1) by (auto simp: engine_inv_def)
  have es: "?es = mt_scan (en_mem e) [] []" by (simp add: flush_entries_def mem_scan_kinds [OF inv(2)])
  have len: "length ?es = mt_len (en_mem e)" by (rule length_flush_entries [OF inv(2)])
  have "entry_fits (sst_eff_max (eo_sst_max (en_opts e))) x" if "x \<in> set ?es" for x
  proof -
    have g: "mt_get (en_mem e) (e_key x) = Some x" using that mem.scan_iff [OF inv(2)] by (simp add: es)
    then have "mt_entries (en_mem e) (e_key x) = Some x" by (simp add: mt_get_entries [OF inv(2)])
    then have "e_kind x \<in> {entry_put, entry_delete}" "e_key x \<noteq> []"
      using inv(2) unfolding mt_inv_def by blast+
    moreover have "17 + length (e_key x) + length (e_value x) \<le> unat (sst_eff_max (eo_sst_max (en_opts e)))"
      using assms(4) g by blast
    ultimately show ?thesis by (simp add: entry_fits_def)
  qed
  moreover have "strictly_sorted (map e_key ?es)" using mem.scan_sorted [OF inv(2)] by (simp add: es)
  moreover have "?es \<noteq> []" using len assms(2) by auto
  ultimately obtain th te d where mk: "make_table c r None (en_opts e) (en_next_file e) ?es (en_disk e) = (Inr (th, te), d)"
    using make_table_succeeds [of ?es "en_opts e" c r bf0] len assms(3,5) by metis
  obtain m where m: "d_manifest (en_disk e) = Decoded m" "manifest_ok m" using inv(3) by (auto simp: disk_holds_def)
  have "d_manifest d = Decoded m"
    using make_table_agree [of "en_next_file e" "en_disk e" c r None "en_opts e" ?es] mk m(1) by (simp add: agree_but_def)
  then have "commit_manifest None f d = Some (d\<lparr>d_manifest := Decoded (f m)\<rparr>)" for f
    using m(2) by (intro commit_manifest_no_fault) simp_all
  then show ?thesis using mk inv(1) assms(2) by (simp add: engine_flush_def Let_def)
qed

section \<open>Faults and crashes\<close>

text \<open>C25: no single I/O fault of a flush or a compaction loses or changes data of an engine whose tables and memory are
  in the order of their numbers, newest first (\<open>layered\<close>: what every session from a fresh directory keeps, and what a reopening after an
  overwrite of a flushed key breaks, see \<open>engine_stale_after_flush_and_reopen\<close>) and which is within the bounds of a session (at most 2^29 entries, no
  number about to wrap around). Whatever step fails (making the directory, the table
  file, the Bloom sidecar, opening the reader, loading or saving the manifest, removing the old log, whose error the code ignores,
  opening the new log, the removal of old tables) and
  also when none fails: the map the engine stands for is unchanged, and reopening the directory as the
  call left it succeeds with the same map. Only a flush that cannot reopen its log closes the engine.\<close>

theorem engine_reorganise_fault_safe:
  assumes "engine_inv e" "layered e" "total_entries e \<le> 2 ^ 29" "en_next_file e + 1 \<noteq> 0" "en_next_seq e \<noteq> 0"
    and "engine_flush c r fault e = (res, e') \<or> engine_compact c r fault e = (res, e')"
  shows "engine_view e' = engine_view e \<and> recovers (en_opts e) (directory e') (engine_view e)
    \<and> (en_closed e' \<longrightarrow> fault = Some Io_wal) \<and> (\<not> en_closed e' \<longrightarrow> engine_inv e' \<and> layered e')"
  using assms(6)
proof
  assume "engine_flush c r fault e = (res, e')"
  moreover have "mt_len (en_mem e) \<le> 2 ^ 29" using assms(3) by (simp add: total_entries_def)
  ultimately show ?thesis
    using engine_flush_preserved [OF assms(1) _ assms(4,5)] assms(2) by (auto simp: preserved_def)
next
  assume "engine_compact c r fault e = (res, e')"
  then show ?thesis using engine_compact_preserved [OF assms(1-5)] by (auto simp: preserved_def)
qed

text \<open>The directory between the commit of the manifest and the reset of the log: the new manifest, the old log.\<close>

definition crash_before_log_reset :: "engine \<Rightarrow> engine \<Rightarrow> disk" where
  "crash_before_log_reset e e' = (en_disk e')\<lparr>d_wal := f_bytes (w_file (en_wal e))\<rparr>"

text \<open>C31: a crash after the manifest is committed but before the log is reset recovers the same map: the
  replayed log only repeats what the new table holds.\<close>

theorem engine_flush_crash_before_log_reset:
  assumes "engine_inv e" "mt_len (en_mem e) \<le> 2 ^ 29" "en_next_file e + 1 \<noteq> 0" "en_next_seq e \<noteq> 0"
    and "engine_flush c r fault e = (res, e')"
  shows "recovers (en_opts e) (crash_before_log_reset e e') (engine_view e)"
  using assms(1,5)
proof (cases rule: engine_flush_cases)
  case (1 d)
  have inv: "engine_inv e'" using engine_inv_disk [OF assms(1) 1(1)] 1(2) by simp
  moreover have "directory e' = crash_before_log_reset e e'" "en_opts e' = en_opts e" "layers e' = layers e"
    by (simp_all add: directory_def crash_before_log_reset_def 1(2) layers_def)
  moreover from this have "engine_view e' = engine_view e" by (simp add: engine_view_def [abs_def])
  ultimately show ?thesis using inv_recovers [of e'] by simp
next
  case (2 th te d d')
  have inv: "opts_ok (en_opts e)" "mt_inv (en_mem e)" "tables_ok (en_tables e)"
      "disk_holds (en_opts e) (en_disk e) (en_next_file e) (en_tables e)"
    using assms(1) by (auto simp: engine_inv_def)
  have len: "length (flush_entries (en_mem e)) \<le> 2 ^ 29" using length_flush_entries [OF inv(2)] assms(2) by simp
  note new = make_table_Inr [OF 2(1) len disk_holds_nonzero [OF inv(4)]]
  have dh: "disk_holds (en_opts e) d' (en_next_file e + 1) (en_tables e @ [th])"
    using disk_holds_new_table [OF inv(4) 2(1) len assms(3,4), of fault "\<lambda>ts. ts"] 2(2) by simp
  have tok: "tables_ok (en_tables e @ [th])" using inv(3) new(1) by (auto simp: tables_ok_def)
  have layer: "table_layer th = mt_get (en_mem e)" by (rule flush_entries_layer [OF inv(2) new(1)])
  obtain mem where mem: "log_replays (en_opts e) (f_bytes (w_file (en_wal e))) mem" "log_agrees mem (en_mem e) (en_tables e @ [th])"
    using assms(1) log_agrees_flushed(1) [OF _ layer] by (auto simp: engine_inv_def)
  have "Option.bind (layer_find (mt_get (en_mem e) # map table_layer (rev (en_tables e @ [th]))) k) live = engine_view e k" for k
    by (simp add: engine_view_def layers_def layer split: option.splits)
  then show ?thesis
    using recovers_directory [OF inv(1) dh tok mem] by (simp add: crash_before_log_reset_def 2(3))
qed

section \<open>Closing and reopening\<close>

datatype life_op = Step_op engine_op | Reopen_op

definition reopen :: "engine \<Rightarrow> engine_error + engine" where
  "reopen e = fst (engine_open None (en_opts e) (directory (snd (engine_close e))))"

text \<open>The bounds of a run: counters that do not wrap around and tables of fewer than 2^64 bytes.\<close>

definition counters_ok :: "engine \<Rightarrow> bool" where
  "counters_ok e \<longleftrightarrow> en_next_seq e \<noteq> 0 \<and> en_next_file e + 1 \<noteq> 0 \<and> total_entries e \<le> 2 ^ 29"

fun life_run ::
    "(u64 \<Rightarrow> float64 \<Rightarrow> u64) \<Rightarrow> (u64 \<Rightarrow> u64 \<Rightarrow> int) \<Rightarrow> life_op list \<Rightarrow> engine \<Rightarrow> engine option" where
  "life_run c r [] e = Some e"
| "life_run c r (Reopen_op # ops) e = (case reopen e of Inl _ \<Rightarrow> None | Inr e' \<Rightarrow> life_run c r ops e')"
| "life_run c r (Step_op op # ops) e =
     (if \<not> counters_ok e then None
      else (case engine_step c r op e of (res, e') \<Rightarrow> if res \<noteq> None then None else life_run c r ops e'))"

fun life_map :: "life_op \<Rightarrow> (bytes \<rightharpoonup> bytes) \<Rightarrow> (bytes \<rightharpoonup> bytes)" where
  "life_map (Step_op op) m = map_step op m" | "life_map Reopen_op m = m"

fun not_compact :: "life_op \<Rightarrow> bool" where
  "not_compact (Step_op (Compact_op f)) = False" | "not_compact _ = True"

lemma directory_close [simp]: "directory (snd (engine_close e)) = directory e"
  by (auto simp: engine_close_def directory_def wal_close_def Let_def split: prod.splits)

lemma reopen_ok:
  assumes "engine_inv e"
  shows "\<exists>e'. reopen e = Inr e' \<and> engine_inv e' \<and> engine_view e' = engine_view e"
  using inv_recovers [OF assms] by (auto simp: recovers_def reopen_def)

lemma life_step:
  assumes "engine_inv e" "counters_ok e" "engine_step c r op e = (None, e')" "not_compact (Step_op op)"
  shows "engine_inv e' \<and> engine_view e' = map_step op (engine_view e)"
proof (cases op)
  case (Put_op k v)
  then show ?thesis
    using engine_write_ok(1,2) [OF assms(1), of k "Some v" Write_ok True e'] assms(3) by (simp add: engine_write_def)
next
  case (Delete_op k)
  then show ?thesis
    using engine_write_ok(1,2) [OF assms(1), of k None Write_ok True e'] assms(3) by (simp add: engine_write_def)
next
  case (Flush_op f)
  then have "preserved e e' \<and> \<not> en_closed e'"
    using engine_flush_preserved [OF assms(1), of c r f None e'] assms(2,3)
    by (simp add: counters_ok_def total_entries_def)
  then show ?thesis using Flush_op by (simp add: preserved_def)
qed (use assms(4) in simp)

lemma life_run_view:
  "engine_inv e \<Longrightarrow> life_run c r ops e = Some e' \<Longrightarrow> \<forall>op \<in> set ops. not_compact op
     \<Longrightarrow> engine_inv e' \<and> engine_view e' = fold life_map ops (engine_view e)"
proof (induction ops arbitrary: e)
  case (Cons op ops)
  show ?case
  proof (cases op)
    case (Step_op s)
    then obtain e1 where e1: "engine_step c r s e = (None, e1)" "counters_ok e" "life_run c r ops e1 = Some e'"
      using Cons.prems(2) by (auto split: if_splits prod.splits)
    have "engine_inv e1 \<and> engine_view e1 = map_step s (engine_view e)"
      by (rule life_step [OF Cons.prems(1) e1(2,1)]) (use Cons.prems(3) Step_op in simp)
    then show ?thesis using Cons.IH [of e1] e1(3) Cons.prems(3) Step_op by simp
  next
    case Reopen_op
    then show ?thesis using reopen_ok [OF Cons.prems(1)] Cons by auto
  qed
qed simp

text \<open>C2: \<open>Get\<close> is durable. From a first \<open>Open\<close>, after any successful writes and flushes with any number of
  closings and reopenings in between, \<open>Get\<close> of every key is the value of the last write, and one more
  closing and reopening succeeds.\<close>

theorem engine_get_durable:
  assumes "eo_dir o' \<noteq> []" "fpr_valid (eo_fpr (effective_options o'))" "engine_open None o' fresh_disk = (Inr e0, d)"
    and "life_run c r ops e0 = Some e" "\<forall>op \<in> set ops. not_compact op"
  shows "fst (engine_get k e) = Inr (fold life_map ops Map.empty k) \<and> (\<exists>e'. reopen e = Inr e')"
proof -
  have "engine_inv e0" "engine_view e0 = Map.empty"
    using open_fresh [OF assms(1,2)] assms(3) by (auto simp: session_inv_def)
  then have "engine_inv e" "engine_view e = fold life_map ops Map.empty"
    using life_run_view [OF _ assms(4,5)] by auto
  then show ?thesis using engine_get_correct(1) [of e k] reopen_ok [of e] by (auto simp: engine_inv_def)
qed

section \<open>Sequence numbers after a flush\<close>

lemma flush_layers:
  assumes "engine_inv e" "mt_len (en_mem e) \<le> 2 ^ 29" "en_next_file e + 1 \<noteq> 0" "en_next_seq e \<noteq> 0"
    and "mt_get (en_mem e) k \<noteq> None" "engine_flush c r None e = (None, e')"
  shows "engine_inv e'" "mt_get (en_mem e') = Map.empty" "en_wal e' = wal_open (wal_opts_of (en_opts e)) []"
    "\<exists>th. en_tables e' = en_tables e @ [th] \<and> table_layer th = mt_get (en_mem e)"
proof -
  have inv: "mt_inv (en_mem e)" "disk_holds (en_opts e) (en_disk e) (en_next_file e) (en_tables e)"
    using assms(1) by (auto simp: engine_inv_def)
  have ne: "mt_len (en_mem e) \<noteq> 0"
  proof
    assume "mt_len (en_mem e) = 0"
    then have "mt_entries (en_mem e) k = None" using inv(1) by (auto simp: mt_len_def mt_inv_def)
    then show False using mt_get_entries [OF inv(1), of k] assms(5) by simp
  qed
  have pr: "preserved e e' \<and> \<not> en_closed e'" using engine_flush_preserved [OF assms(1-4,6)] by blast
  have "mt_get (en_mem e') = Map.empty \<and> en_wal e' = wal_open (wal_opts_of (en_opts e)) []
      \<and> (\<exists>th. en_tables e' = en_tables e @ [th] \<and> table_layer th = mt_get (en_mem e))"
    using assms(1,6)
  proof (cases rule: engine_flush_cases)
    case (1 d)
    then show ?thesis using ne by simp
  next
    case (2 th te d d')
    have "length (flush_entries (en_mem e)) \<le> 2 ^ 29" using length_flush_entries [OF inv(1)] assms(2) by simp
    then have "table_layer th = mt_get (en_mem e)"
      by (rule flush_entries_layer [OF inv(1) make_table_Inr(1) [OF 2(1) _ disk_holds_nonzero [OF inv(2)]]])
    then show ?thesis using 2 by simp
  qed
  with pr show "engine_inv e'" "mt_get (en_mem e') = Map.empty" "en_wal e' = wal_open (wal_opts_of (en_opts e)) []"
    "\<exists>th. en_tables e' = en_tables e @ [th] \<and> table_layer th = mt_get (en_mem e)"
    by (auto simp: preserved_def)
qed

text \<open>The state after two puts, a flush, a put of the second key and a reopening: the flush has restarted the
  numbers of the log, so the replayed entry has number 1 and the older entry in the table number 2.\<close>

lemma reopened_numbers:
  assumes "session_inv 0 Map.empty e0" "en_next_seq e0 = 1" "mt_get (en_mem e0) = Map.empty" "en_tables e0 = []" "k1 \<noteq> k2"
    and "engine_write k1 (Some a) Write_ok True e0 = (None, e1)" "engine_write k2 (Some b) Write_ok True e1 = (None, e2)"
    and "engine_flush c r None e2 = (None, e3)" "engine_write k2 (Some v) Write_ok True e3 = (None, e4)" "reopen e4 = Inr e5"
  shows "engine_inv e5 \<and> mt_get (en_mem e5) = [k2 \<mapsto> write_entry k2 (Some v) 1]
    \<and> (\<exists>th. en_tables e5 = [th] \<and> table_layer th = [k1 \<mapsto> write_entry k1 (Some a) 1, k2 \<mapsto> write_entry k2 (Some b) 2])"
proof -
  have s0: "engine_inv e0" using assms(1) by (simp add: session_inv_def)
  note w1 = engine_write_ok [OF s0 assms(6)]
  note w2 = engine_write_ok [OF w1(1) assms(7)]
  have m2: "mt_get (en_mem e2) = [k1 \<mapsto> write_entry k1 (Some a) 1, k2 \<mapsto> write_entry k2 (Some b) 2]"
    using w1(6,7,8) w2(7,8) assms(2,3) by (simp add: mt_get_upsert)
  have "session_inv 2 (Map.empty(k1 \<mapsto> a, k2 \<mapsto> b)) e2"
    using session_write [OF session_write [OF assms(1,6)] assms(7)] by (simp add: numeral_2_eq_2)
  then have len: "mt_len (en_mem e2) \<le> 2 ^ 29" "en_next_file e2 + 1 \<noteq> 0" "en_next_seq e2 \<noteq> 0"
    using small_Suc [of "en_next_file e2"] by (simp_all add: session_inv_def total_entries_def)
  note fl = flush_layers [OF w2(1) len _ assms(8), of k2]
  obtain th where th: "en_tables e3 = en_tables e2 @ [th]" "table_layer th = mt_get (en_mem e2)" "engine_inv e3"
      "en_wal e3 = wal_open (wal_opts_of (en_opts e2)) []"
    using fl m2 by auto
  note inv3 = th(3)
  note w4 = engine_write_ok [OF inv3 assms(9)]
  obtain q where q: "wal_append (en_wal e3) (write_record k2 (Some v) (en_next_seq e3)) Write_ok True = (Inr q, en_wal e4)"
    using assms(9) by (auto simp: engine_write_eq split: if_splits sum.splits prod.splits)
  have log: "f_bytes (w_file (en_wal e4)) = wal_enc (write_record k2 (Some v) 1)"
    "wal_frame_ok (eff_max (wal_opts_of (en_opts e4))) (write_record k2 (Some v) 1)"
  proof -
    have "wal_ready (en_wal e3)" using inv3 by (simp add: engine_inv_def)
    note ap = wal_append_Inr [OF q this]
    have "w_seq (en_wal e3) = 0" "f_bytes (w_file (en_wal e3)) = []" by (simp_all add: th(4) wal_open_def Let_def)
    then show "f_bytes (w_file (en_wal e4)) = wal_enc (write_record k2 (Some v) 1)"
      "wal_frame_ok (eff_max (wal_opts_of (en_opts e4))) (write_record k2 (Some v) 1)"
      using ap wal_max_of_inv [OF inv3] w4(3) by (simp_all add: write_record_def wal_frame_ok_def)
  qed
  let ?mem = "upsert k2 (write_entry k2 (Some v) 1) (mt_new (eo_mem_max (en_opts e4)))"
  have "log_replays (en_opts e4) ([] @ wal_enc (write_record k2 (Some v) 1)) ?mem"
    by (rule log_replays_snoc [OF log_replays_nil log(2)]) (rule replay_write [OF w4(7)])
  then have rep: "log_replays (en_opts e4) (d_wal (directory e4)) ?mem" by (simp add: directory_def log(1))
  have inv4: "opts_ok (en_opts e4)" "tables_ok (en_tables e4)" "disk_holds (en_opts e4) (directory e4) (en_next_file e4) (en_tables e4)"
    using w4(1) by (auto simp: engine_inv_def directory_def disk_holds_wal)
  have "engine_inv e5 \<and> en_tables e5 = en_tables e4 \<and> en_mem e5 = ?mem"
    using reopen_directory [OF inv4(1,3,2) rep] assms(10) by (auto simp: reopen_def)
  moreover have "en_tables e4 = [th]" using w1(4) w2(4) w4(4) th(1) assms(4) by simp
  ultimately show ?thesis using w4(7) th(2) m2 by (simp add: mt_get_upsert)
qed

lemma compact_layers:
  assumes "engine_inv e" "total_entries e \<le> 2 ^ 29" "en_next_file e + 1 \<noteq> 0" "en_next_seq e \<noteq> 0"
    and "length (en_tables e) > 1" "engine_compact c r None e = (None, e')"
  shows "en_mem e' = en_mem e" "\<not> en_closed e'" "tables_ok (en_tables e')"
    "layer_find (map table_layer (rev (en_tables e'))) k = Some x \<longleftrightarrow>
       foldl pick None (hits (en_tables e) k) = Some x \<and> e_key x = k \<and> e_kind x = entry_put"
proof -
  have inv: "\<not> en_closed e" "tables_ok (en_tables e)" using assms(1) by (auto simp: engine_inv_def)
  obtain best where best: "compact_merge (en_tables e) [] = Inr best" "strictly_sorted (map e_key (live_sorted best))"
    "\<And>x. x \<in> set (live_sorted best) \<longleftrightarrow> foldl pick None (hits (en_tables e) (e_key x)) = Some x \<and> e_kind x = entry_put"
    "mt_len (en_mem e) + length (live_sorted best) \<le> total_entries e"
    using compact_entries [OF inv(2)] by blast
  have "en_mem e' = en_mem e \<and> \<not> en_closed e' \<and> tables_ok (en_tables e') \<and>
      layer_find (map table_layer (rev (en_tables e'))) k = find (\<lambda>x. e_key x = k) (live_sorted best)"
    using assms(1,6) best(1)
  proof (cases rule: engine_compact_cases)
    case (1 d)
    then show ?thesis using assms(5) by simp
  next
    case (2 d d' ths n f)
    have "length (live_sorted best) \<le> 2 ^ 29" using best(4) assms(2) by simp
    note new = compact_new_tables [OF assms(1) this assms(3,4) 2(2,1)]
    have "rev ths = ths" using 2(1) by auto
    moreover have "en_mem e' = en_mem e" "en_closed e' = en_closed e" "en_tables e' = ths"
      using 2(4) by (auto simp: compact_done_def split: prod.splits)
    ultimately show ?thesis using new inv(1) by simp
  qed
  then show "en_mem e' = en_mem e" "\<not> en_closed e'" "tables_ok (en_tables e')"
    "layer_find (map table_layer (rev (en_tables e'))) k = Some x \<longleftrightarrow>
       foldl pick None (hits (en_tables e) k) = Some x \<and> e_key x = k \<and> e_kind x = entry_put"
    using find_key_iff [OF best(2), of k x] best(3) [of x] by auto
qed

text \<open>C30: after a flush the numbers of the write-ahead log start again, so a value written after the flush and
  replayed by a reopening has a lower number than the older value in the table. \<open>Get\<close> still returns the new
  value, but \<open>Scan\<close> returns the old one; and once the entry is flushed and the tables are compacted, the
  new value is gone for \<open>Get\<close> too.\<close>

theorem engine_stale_after_flush_and_reopen:
  assumes "eo_dir o' \<noteq> []" "fpr_valid (eo_fpr (effective_options o'))" "engine_open None o' fresh_disk = (Inr e0, d)"
    and "k1 \<noteq> k2" "engine_put k1 a Write_ok True e0 = (None, e1)" "engine_put k2 b Write_ok True e1 = (None, e2)"
    and "engine_flush c r None e2 = (None, e3)" "engine_put k2 v Write_ok True e3 = (None, e4)" "reopen e4 = Inr e5"
  shows "fst (engine_get k2 e5) = Inr (Some v)
    \<and> (\<exists>res. engine_scan [] [] e5 = Inr res
         \<and> (\<forall>x. (k2, x) \<in> (\<lambda>kv. (kv_key kv, kv_value kv)) ` set res \<longleftrightarrow> x = b))
    \<and> (\<forall>e6 e7. counters_ok e5 \<longrightarrow> engine_flush c r None e5 = (None, e6) \<longrightarrow> counters_ok e6
         \<longrightarrow> engine_compact c r None e6 = (None, e7) \<longrightarrow> fst (engine_get k2 e7) = Inr (Some b))"
proof -
  have fresh: "session_inv 0 Map.empty e0" "en_next_seq e0 = 1" "mt_get (en_mem e0) = Map.empty" "en_tables e0 = []"
    using open_fresh [OF assms(1,2)] assms(3) by auto
  let ?a = "write_entry k1 (Some a) 1" and ?b = "write_entry k2 (Some b) 2" and ?v = "write_entry k2 (Some v) 1"
  obtain th where e5: "engine_inv e5" "mt_get (en_mem e5) = [k2 \<mapsto> ?v]" "en_tables e5 = [th]"
      "table_layer th = [k1 \<mapsto> ?a, k2 \<mapsto> ?b]"
    using reopened_numbers [OF fresh assms(4) _ _ assms(7) _ assms(9), where a = a and b = b and v = v] assms(5,6,8)
    by (auto simp: engine_write_def)
  have inv: "\<not> en_closed e5" "tables_ok (en_tables e5)" "mt_inv (en_mem e5)" using e5(1) by (auto simp: engine_inv_def)
  have seqs: "e_seq ?b = 2" "e_seq ?v = 1" "e_kind ?b = entry_put" "e_value ?b = b" "e_key ?b = k2"
    "live ?v = Some v" "live ?b = Some b"
    by (simp_all add: write_entry_def live_def)
  have two: "\<not> (2 :: u64) \<le> 1" "(1 :: u64) \<le> 2" by (simp_all add: word_le_nat_alt)
  have "engine_view e5 k2 = Some v" by (simp add: engine_view_def layers_def e5 seqs)
  then have get: "fst (engine_get k2 e5) = Inr (Some v)" using engine_get_correct(1) [OF inv, of k2] by simp
  have "foldl pick (mt_get (en_mem e5) k2) (hits (en_tables e5) k2) = Some ?b"
    by (simp add: e5 pick_def seqs two)
  then have scan: "\<exists>res. engine_scan [] [] e5 = Inr res
      \<and> (\<forall>x. (k2, x) \<in> (\<lambda>kv. (kv_key kv, kv_value kv)) ` set res \<longleftrightarrow> x = b)"
    using engine_scan_picks [OF inv, of "[]" "[]"] by (auto simp: seqs)
  have "fst (engine_get k2 e7) = Inr (Some b)"
    if c5: "counters_ok e5" and f: "engine_flush c r None e5 = (None, e6)"
      and c6: "counters_ok e6" and cm: "engine_compact c r None e6 = (None, e7)" for e6 e7
  proof -
    have "mt_len (en_mem e5) \<le> 2 ^ 29" "en_next_file e5 + 1 \<noteq> 0" "en_next_seq e5 \<noteq> 0"
      using c5 by (auto simp: counters_ok_def total_entries_def)
    note fl = flush_layers [OF e5(1) this _ f, of k2]
    obtain t2 where e6: "engine_inv e6" "mt_get (en_mem e6) = Map.empty" "en_tables e6 = [th, t2]"
        "table_layer t2 = [k2 \<mapsto> ?v]"
      using fl e5(2,3) by auto
    have c: "total_entries e6 \<le> 2 ^ 29" "en_next_file e6 + 1 \<noteq> 0" "en_next_seq e6 \<noteq> 0" "length (en_tables e6) > 1"
      using c6 e6(3) by (simp_all add: counters_ok_def)
    note cl = compact_layers [OF e6(1) c cm]
    have "foldl pick None (hits (en_tables e6) k2) = Some ?b"
      by (simp add: e6 e5(4) pick_def seqs two)
    then have "layer_find (map table_layer (rev (en_tables e7))) k2 = Some ?b" using cl(4) [of k2 ?b] seqs by simp
    then have "engine_view e7 k2 = Some b" by (simp add: engine_view_def layers_def cl(1) e6(2) seqs)
    moreover have "mt_inv (en_mem e7)" using e6(1) by (simp add: cl(1) engine_inv_def)
    ultimately show ?thesis using engine_get_correct(1) [OF cl(2,3), of k2] by simp
  qed
  with get scan show ?thesis by blast
qed

section \<open>A concrete run\<close>

definition demo_opts :: engine_options where
  "demo_opts = \<lparr>eo_dir = ''data'', eo_mem_max = 0, eo_sync = True, eo_wal_max = 0, eo_sst_max = 0, eo_fpr = 0\<rparr>"

definition demo_bits :: "u64 \<Rightarrow> float64 \<Rightarrow> u64" where "demo_bits n p = 10 * n"
definition demo_hashes :: "u64 \<Rightarrow> u64 \<Rightarrow> int" where "demo_hashes m n = 7"

lemma demo_opts_ok:
  "eo_dir demo_opts \<noteq> []" "fpr_valid (eo_fpr (effective_options demo_opts))"
  "unat (eff_max (wal_opts_of (effective_options demo_opts))) = 67108864"
  "unat (sst_eff_max (eo_sst_max (effective_options demo_opts))) = 67108864"
  "eo_fpr (effective_options demo_opts) = default_bloom_fpr"
  by (simp_all add: demo_opts_def effective_options_def fpr_valid_def float_zero_def default_bloom_fpr_def eff_max_def
      wal_opts_of_def wal_default_max_def sst_eff_max_def sst_default_max_def)

lemma demo_write:
  assumes "engine_inv e" "en_opts e = effective_options demo_opts" "k \<noteq> []" "length k + length v \<le> 100"
  shows "\<exists>e'. engine_put k v Write_ok True e = (None, e')"
  using engine_write_succeeds [OF assms(1,3), of "Some v"] assms(2,4) demo_opts_ok(3)
  by (simp add: engine_write_def)

lemma demo_run:
  "\<exists>e0 d e1 e2 e3 e4 e5. engine_open None demo_opts fresh_disk = (Inr e0, d)
    \<and> engine_put [1] [10] Write_ok True e0 = (None, e1) \<and> engine_put [2] [20] Write_ok True e1 = (None, e2)
    \<and> engine_flush demo_bits demo_hashes None e2 = (None, e3)
    \<and> engine_put [2] [30] Write_ok True e3 = (None, e4) \<and> reopen e4 = Inr e5
    \<and> session_inv 2 (Map.empty([1] \<mapsto> [10], [2] \<mapsto> [20])) e2 \<and> session_inv 3 (Map.empty([1] \<mapsto> [10], [2] \<mapsto> [20])) e3
    \<and> session_inv 4 (Map.empty([1] \<mapsto> [10], [2] \<mapsto> [30])) e4 \<and> session_inv 0 Map.empty e0
    \<and> session_inv 1 (Map.empty([1] \<mapsto> [10])) e1"
proof -
  obtain e0 d where 0: "engine_open None demo_opts fresh_disk = (Inr e0, d)" "session_inv 0 Map.empty e0"
      "mt_get (en_mem e0) = Map.empty"
    using open_fresh [OF demo_opts_ok(1,2)] by auto
  have o0: "en_opts e0 = effective_options demo_opts"
    using 0(1) by (auto simp: engine_open_def Let_def split: if_splits sum.splits manifest_error.splits prod.splits option.splits)
  obtain e1 where 1: "engine_put [1] [10] Write_ok True e0 = (None, e1)"
    using demo_write [OF _ o0, of "[1]" "[10]"] 0(2) by (auto simp: session_inv_def)
  then have w1: "engine_write [1] (Some [10]) Write_ok True e0 = (None, e1)" by (simp add: engine_write_def)
  have s1: "session_inv 1 (Map.empty([1] \<mapsto> [10])) e1" using session_write [OF 0(2) w1] by simp
  have i1: "engine_inv e1" using s1 by (simp add: session_inv_def)
  have i0: "engine_inv e0" using 0(2) by (simp add: session_inv_def)
  have o1: "en_opts e1 = effective_options demo_opts" using engine_write_ok(3) [OF i0 w1] o0 by simp
  obtain e2 where 2: "engine_put [2] [20] Write_ok True e1 = (None, e2)"
    using demo_write [OF i1 o1, of "[2]" "[20]"] by auto
  then have w2: "engine_write [2] (Some [20]) Write_ok True e1 = (None, e2)" by (simp add: engine_write_def)
  have s2: "session_inv 2 (Map.empty([1] \<mapsto> [10], [2] \<mapsto> [20])) e2"
    using session_write [OF s1 w2] by (simp add: numeral_2_eq_2)
  have i2: "engine_inv e2" using s2 by (simp add: session_inv_def)
  have o2: "en_opts e2 = effective_options demo_opts" using engine_write_ok(3) [OF i1 w2] o1 by simp
  have m2: "mt_get (en_mem e2) = [[1] \<mapsto> write_entry [1] (Some [10]) (en_next_seq e0), [2] \<mapsto> write_entry [2] (Some [20]) (en_next_seq e1)]"
    using engine_write_ok(8) [OF i1 w2] engine_write_ok(8) [OF i0 w1] 0(3) by (simp add: mt_get_upsert)
  have n2: "mt_len (en_mem e2) = 2"
  proof -
    have inv: "mt_inv (en_mem e2)" using i2 by (simp add: engine_inv_def)
    have "mt_entries (en_mem e2) = mt_get (en_mem e2)" using mt_get_entries [OF inv] by (intro ext) simp
    then have "set (mt_keys (en_mem e2)) = {[1], [2]}" using inv m2 by (auto simp: mt_inv_def)
    moreover have "distinct (mt_keys (en_mem e2))" using inv by (simp add: mt_inv_def strictly_sorted_distinct)
    ultimately have "length (mt_keys (en_mem e2)) = card {[1 :: byte], [2]}" by (metis distinct_card)
    then show ?thesis by (simp add: mt_len_def)
  qed
  have big: "17 + length k + length (e_value x) \<le> unat (sst_eff_max (eo_sst_max (en_opts e2)))"
    if "mt_get (en_mem e2) k = Some x" for k x
    using that by (auto simp: m2 o2 demo_opts_ok(4) write_entry_def split: if_splits)
  obtain bf0 where b0: "bloom_new demo_bits demo_hashes (word_of_nat (mt_len (en_mem e2))) (eo_fpr (en_opts e2)) = Inr bf0"
    by (simp add: n2 o2 demo_opts_ok(5) bloom_new_def calc_params_def demo_bits_def demo_hashes_def fpr_valid_def
        default_bloom_fpr_def max_bits_def max_words_def Let_def)
  have small: "mt_len (en_mem e2) \<noteq> 0" "mt_len (en_mem e2) \<le> 2 ^ 29" by (simp_all add: n2)
  obtain e3 where 3: "engine_flush demo_bits demo_hashes None e2 = (None, e3)"
    using engine_flush_succeeds [OF i2 small _ b0] big by blast
  have nz: "en_next_file e2 + 1 \<noteq> 0" "en_next_seq e2 \<noteq> 0"
    using s2 small_Suc [of "en_next_file e2"] by (simp_all add: session_inv_def)
  have p3: "preserved e2 e3" "\<not> en_closed e3" using engine_flush_preserved [OF i2 small(2) nz 3] by auto
  have s3: "session_inv 3 (Map.empty([1] \<mapsto> [10], [2] \<mapsto> [20])) e3"
    using session_reorganise [OF s2 _ disjI1 [OF 3] p3(2)] by simp
  have i3: "engine_inv e3" and o3: "en_opts e3 = effective_options demo_opts"
    using p3 o2 by (simp_all add: preserved_def)
  obtain e4 where 4: "engine_put [2] [30] Write_ok True e3 = (None, e4)"
    using demo_write [OF i3 o3, of "[2]" "[30]"] by auto
  then have w4: "engine_write [2] (Some [30]) Write_ok True e3 = (None, e4)" by (simp add: engine_write_def)
  have s4: "session_inv 4 (Map.empty([1] \<mapsto> [10], [2] \<mapsto> [30])) e4"
    using session_write [OF s3 w4] by simp
  obtain e5 where "reopen e4 = Inr e5" using reopen_ok [of e4] s4 by (auto simp: session_inv_def)
  then show ?thesis using 0 1 2 3 4 s1 s2 s3 s4 by blast
qed

theorem engine_reorganise_fault_safe_witness:
  "\<exists>e. engine_inv e \<and> engine_view e [2] = Some [20] \<and>
     recovers (en_opts e) (directory (snd (engine_flush demo_bits demo_hashes (Some Io_save) e))) (engine_view e)"
proof -
  obtain e where e: "session_inv 2 (Map.empty([1] \<mapsto> [10], [2] \<mapsto> [20])) e" using demo_run by blast
  then have i: "engine_inv e" "layered e" "total_entries e \<le> 2 ^ 29" "en_next_file e + 1 \<noteq> 0" "en_next_seq e \<noteq> 0"
    using small_Suc [of "en_next_file e"] by (simp_all add: session_inv_def)
  obtain res e' where f: "engine_flush demo_bits demo_hashes (Some Io_save) e = (res, e')" by fastforce
  then show ?thesis
    using engine_reorganise_fault_safe [OF i disjI1 [OF f]] e i(1) by (auto simp: session_inv_def)
qed

theorem engine_flush_crash_before_log_reset_witness:
  "\<exists>e. engine_inv e \<and> engine_view e [2] = Some [20] \<and>
     recovers (en_opts e) (crash_before_log_reset e (snd (engine_flush demo_bits demo_hashes None e))) (engine_view e)"
proof -
  obtain e where e: "session_inv 2 (Map.empty([1] \<mapsto> [10], [2] \<mapsto> [20])) e" using demo_run by blast
  then have i: "engine_inv e" "mt_len (en_mem e) \<le> 2 ^ 29" "en_next_file e + 1 \<noteq> 0" "en_next_seq e \<noteq> 0"
    using small_Suc [of "en_next_file e"] by (simp_all add: session_inv_def total_entries_def)
  obtain res e' where f: "engine_flush demo_bits demo_hashes None e = (res, e')" by fastforce
  then show ?thesis
    using engine_flush_crash_before_log_reset [OF i f] e i(1) by (auto simp: session_inv_def)
qed

theorem engine_get_durable_witness:
  "\<exists>e0 d e. engine_open None demo_opts fresh_disk = (Inr e0, d)
    \<and> life_run demo_bits demo_hashes [Step_op (Put_op [1] [10]), Reopen_op] e0 = Some e
    \<and> fst (engine_get [1] e) = Inr (Some [10])"
proof -
  obtain e0 d e1 where 0: "engine_open None demo_opts fresh_disk = (Inr e0, d)"
    "engine_put [1] [10] Write_ok True e0 = (None, e1)" "session_inv 0 Map.empty e0" "session_inv 1 (Map.empty([1] \<mapsto> [10])) e1"
    using demo_run by blast
  obtain e where "reopen e1 = Inr e" using reopen_ok [of e1] 0(4) by (auto simp: session_inv_def)
  moreover have "counters_ok e0"
    using 0(3) small_Suc [of "en_next_file e0"] by (simp add: session_inv_def counters_ok_def)
  ultimately have r: "life_run demo_bits demo_hashes [Step_op (Put_op [1] [10]), Reopen_op] e0 = Some e"
    using 0(2) by simp
  have "fst (engine_get [1] e) = Inr (fold life_map [Step_op (Put_op [1] [10]), Reopen_op] Map.empty [1])"
    using engine_get_durable [OF demo_opts_ok(1,2) 0(1) r, of "[1]"] by simp
  then have "fst (engine_get [1] e) = Inr (Some [10])" by simp
  with r 0(1) show ?thesis by blast
qed

theorem engine_stale_after_flush_and_reopen_witness:
  "\<exists>e4 e5. reopen e4 = Inr e5 \<and> fst (engine_get [2] e4) = Inr (Some [30]) \<and> fst (engine_get [2] e5) = Inr (Some [30])
    \<and> (\<exists>res. engine_scan [] [] e5 = Inr res \<and> ([2], [20]) \<in> (\<lambda>kv. (kv_key kv, kv_value kv)) ` set res)"
proof -
  obtain e0 d e1 e2 e3 e4 e5 where r: "engine_open None demo_opts fresh_disk = (Inr e0, d)"
    "engine_put [1] [10] Write_ok True e0 = (None, e1)" "engine_put [2] [20] Write_ok True e1 = (None, e2)"
    "engine_flush demo_bits demo_hashes None e2 = (None, e3)" "engine_put [2] [30] Write_ok True e3 = (None, e4)"
    "reopen e4 = Inr e5" "session_inv 4 (Map.empty([1] \<mapsto> [10], [2] \<mapsto> [30])) e4"
    using demo_run by blast
  have "fst (engine_get [2] e4) = Inr (Some [30])"
    using engine_get_correct(1) [of e4 "[2]"] r(7) by (simp add: session_inv_def engine_inv_def)
  moreover have ne: "[1 :: byte] \<noteq> [2]" by simp
  note stale = engine_stale_after_flush_and_reopen [OF demo_opts_ok(1,2) r(1) ne r(2-6)]
  obtain res where s: "engine_scan [] [] e5 = Inr res"
      and i: "\<forall>x. ([2], x) \<in> (\<lambda>kv. (kv_key kv, kv_value kv)) ` set res \<longleftrightarrow> x = [20]"
    using conjunct1 [OF conjunct2 [OF stale]] by (elim exE conjE)
  have "([2], [20]) \<in> (\<lambda>kv. (kv_key kv, kv_value kv)) ` set res" by (rule iffD2 [OF spec [OF i]]) (rule refl)
  with s have "\<exists>res. engine_scan [] [] e5 = Inr res \<and> ([2], [20]) \<in> (\<lambda>kv. (kv_key kv, kv_value kv)) ` set res" by blast
  moreover have "fst (engine_get [2] e5) = Inr (Some [30])" by (rule conjunct1 [OF stale])
  ultimately show ?thesis using r(6) by blast
qed

theorem engine_session_refines_map_witness:
  "\<exists>e0 d e. engine_open None demo_opts fresh_disk = (Inr e0, d)
    \<and> engine_run demo_bits demo_hashes [Put_op [1] [10], Put_op [2] [20], Flush_op None, Put_op [2] [30]] e0 = Some e
    \<and> fst (engine_get [2] e) = Inr (Some [30])"
proof -
  obtain e0 d e1 e2 e3 e4 where r: "engine_open None demo_opts fresh_disk = (Inr e0, d)"
    "engine_put [1] [10] Write_ok True e0 = (None, e1)" "engine_put [2] [20] Write_ok True e1 = (None, e2)"
    "engine_flush demo_bits demo_hashes None e2 = (None, e3)" "engine_put [2] [30] Write_ok True e3 = (None, e4)"
    "session_inv 4 (Map.empty([1] \<mapsto> [10], [2] \<mapsto> [30])) e4"
    using demo_run by blast
  let ?ops = "[Put_op [1] [10], Put_op [2] [20], Flush_op None, Put_op [2] [30]]"
  have run: "engine_run demo_bits demo_hashes ?ops e0 = Some e4" by (simp add: r(2-5))
  have "\<not> en_closed e4" using r(6) by (simp add: session_inv_def engine_inv_def)
  then have "fst (engine_get [2] e4) = Inr (fold map_step ?ops Map.empty [2])"
    using engine_session_refines_map [OF demo_opts_ok(1,2) r(1) run, of "[2]"] by (simp only: list.size) simp
  then have "fst (engine_get [2] e4) = Inr (Some [30])" by simp
  with r(1) run show ?thesis by blast
qed


end
