(* ===== verification/Kv.thy ===== *)
theory Kv
  imports EngineRecovery
begin

text \<open>
  The key-value contract that clients of the engine (the sharded store, the replicated store, a node) rely
  on, as a locale, and its interpretation on the engine's model. Inside the locale: what an array of
  stores with keys routed to its members promises.
\<close>

text \<open>
  \<open>ok n m s\<close>: the state \<open>s\<close> stands for the map \<open>m\<close> after at most \<open>n\<close> operations. \<open>tidy\<close> relates the states
  before and after a reorganisation (a flush or a compaction, failing or not).
\<close>

definition scan_result :: "bytes \<Rightarrow> bytes \<Rightarrow> (bytes \<rightharpoonup> bytes) \<Rightarrow> kv_entry list \<Rightarrow> bool" where
  "scan_result lo hi m res \<longleftrightarrow> strictly_sorted (map kv_key res)
     \<and> (\<forall>k v. (k, v) \<in> (\<lambda>e. (kv_key e, kv_value e)) ` set res \<longleftrightarrow> in_range lo hi k \<and> m k = Some v)"

locale kv_updates =
  fixes ok :: "nat \<Rightarrow> (bytes \<Rightarrow> bytes option) \<Rightarrow> 's \<Rightarrow> bool"
    and upd :: "bytes \<Rightarrow> bytes option \<Rightarrow> 's \<Rightarrow> 'e option \<times> 's"
    and get :: "bytes \<Rightarrow> 's \<Rightarrow> ('e + bytes option) \<times> 's"
  assumes ok_mono: "ok n m s \<Longrightarrow> n \<le> n' \<Longrightarrow> ok n' m s"
    and upd_ok: "ok n m s \<Longrightarrow> n \<le> 2 ^ 29 \<Longrightarrow> upd k v s = (None, s') \<Longrightarrow> ok (n + 1) (m(k := v)) s'"
    and upd_err: "ok n m s \<Longrightarrow> upd k v s = (Some er, s') \<Longrightarrow> ok n m s'"
    and get_ok: "ok n m s \<Longrightarrow> \<exists>s'. get k s = (Inr (m k), s') \<and> ok n m s'"

text \<open>With scans and reorganisations.\<close>

locale kv_store = kv_updates +
  fixes scan :: "bytes \<Rightarrow> bytes \<Rightarrow> 's \<Rightarrow> 'e + kv_entry list"
    and tidy :: "'s \<Rightarrow> 's \<Rightarrow> bool"
  assumes scan_ok: "ok n m s \<Longrightarrow> \<exists>res. scan lo hi s = Inr res \<and> scan_result lo hi m res"
    and tidy_ok: "ok n m s \<Longrightarrow> n \<le> 2 ^ 29 \<Longrightarrow> tidy s s' \<Longrightarrow> ok (n + 1) m s'"
begin

text \<open>An array of stores, the key \<open>k\<close> in the store \<open>route k\<close>.\<close>

definition part :: "(bytes \<Rightarrow> nat) \<Rightarrow> nat \<Rightarrow> (bytes \<rightharpoonup> bytes) \<Rightarrow> bytes \<rightharpoonup> bytes" where
  "part route i m k = (if route k = i then m k else None)"

definition array_ok :: "(bytes \<Rightarrow> nat) \<Rightarrow> nat \<Rightarrow> (bytes \<Rightarrow> bytes option) \<Rightarrow> 's list \<Rightarrow> bool" where
  "array_ok route n m ss \<longleftrightarrow> (\<forall>k. route k < length ss) \<and> (\<forall>i < length ss. ok n (part route i m) (ss ! i))"

lemma part_upd: "part route i (m(k := v)) = (if route k = i then (part route i m)(k := v) else part route i m)"
  by (auto simp: part_def fun_eq_iff)

lemma array_upd:
  assumes "array_ok route n m ss" "n \<le> 2 ^ 29" "upd k v (ss ! route k) = (None, s')"
  shows "array_ok route (n + 1) (m(k := v)) (ss[route k := s'])"
  using assms(1) upd_ok [OF _ assms(2,3)] ok_mono [of n _ _ "n + 1"]
  by (auto simp: array_ok_def part_upd nth_list_update)

lemma array_upd_err:
  assumes "array_ok route n m ss" "upd k v (ss ! route k) = (Some er, s')"
  shows "array_ok route n m (ss[route k := s'])"
  using assms(1) upd_err [OF _ assms(2)] by (auto simp: array_ok_def nth_list_update)

lemma array_get:
  assumes "array_ok route n m ss"
  shows "\<exists>s'. get k (ss ! route k) = (Inr (m k), s') \<and> array_ok route n m (ss[route k := s'])"
proof -
  have "ok n (part route (route k) m) (ss ! route k)" using assms by (simp add: array_ok_def)
  then obtain s' where "get k (ss ! route k) = (Inr (m k), s')" "ok n (part route (route k) m) s'"
    using get_ok [of n "part route (route k) m" "ss ! route k" k] by (auto simp: part_def)
  then show ?thesis using assms by (auto simp: array_ok_def nth_list_update)
qed

lemma array_tidy:
  assumes "array_ok route n m ss" "n \<le> 2 ^ 29" "length ss' = length ss"
    and "\<And>i. i < length ss \<Longrightarrow> ss' ! i = ss ! i \<or> tidy (ss ! i) (ss' ! i)"
  shows "array_ok route (n + 1) m ss'"
  unfolding array_ok_def
proof (intro conjI allI impI)
  show "route k < length ss'" for k using assms(1,3) by (simp add: array_ok_def)
  fix i assume "i < length ss'"
  then have "ok n (part route i m) (ss ! i)" "i < length ss" using assms(1,3) by (simp_all add: array_ok_def)
  then show "ok (n + 1) (part route i m) (ss' ! i)"
    using assms(4) [of i] tidy_ok [OF _ assms(2)] ok_mono [of n _ _ "n + 1"] by fastforce
qed

text \<open>Scanning every member: together the range of the map, and no key twice.\<close>

lemma array_scan:
  assumes "array_ok route n m ss"
  obtains rs where "map (scan lo hi) ss = map Inr rs" "distinct (map kv_key (concat rs))"
    "\<forall>k v. (k, v) \<in> (\<lambda>e. (kv_key e, kv_value e)) ` set (concat rs) \<longleftrightarrow> in_range lo hi k \<and> m k = Some v"
proof -
  have "\<exists>res. scan lo hi (ss ! i) = Inr res \<and> scan_result lo hi (part route i m) res" if "i < length ss" for i
    using scan_ok [of n "part route i m" "ss ! i" lo hi] assms that by (simp add: array_ok_def)
  then obtain f where f: "scan lo hi (ss ! i) = Inr (f i)" "scan_result lo hi (part route i m) (f i)"
    if "i < length ss" for i by metis
  let ?rs = "map f [0..<length ss]"
  have "map (scan lo hi) ss = map Inr ?rs" by (rule nth_equalityI) (simp_all add: f)
  moreover have mem: "(k, v) \<in> (\<lambda>e. (kv_key e, kv_value e)) ` set (f i) \<longleftrightarrow> in_range lo hi k \<and> m k = Some v \<and> route k = i"
    if "i < length ss" for i k v
    using f(2) [OF that] by (auto simp: scan_result_def part_def)
  have keys: "route (kv_key e) = i" if "i < length ss" "e \<in> set (f i)" for i e
    using mem [OF that(1), of "kv_key e" "kv_value e"] that(2) by force
  have "distinct (map kv_key (concat (map f [0..<j])))" if "j \<le> length ss" for j
    using that
  proof (induction j)
    case (Suc j)
    then have "distinct (map kv_key (f j))" using f(2) [of j] by (simp add: scan_result_def strictly_sorted_distinct)
    moreover have "kv_key ` set (f i) \<inter> kv_key ` set (f j) = {}" if "i < j" for i
      using keys [of i] keys [of j] that Suc.prems by fastforce
    then have "kv_key ` set (concat (map f [0..<j])) \<inter> kv_key ` set (f j) = {}" by (fastforce simp: image_UN)
    ultimately show ?case using Suc by simp
  qed simp
  moreover have "(k, v) \<in> (\<lambda>e. (kv_key e, kv_value e)) ` set (concat ?rs) \<longleftrightarrow> in_range lo hi k \<and> m k = Some v" for k v
  proof -
    have "(k, v) \<in> (\<lambda>e. (kv_key e, kv_value e)) ` set (concat ?rs)
        \<longleftrightarrow> (\<exists>i < length ss. (k, v) \<in> (\<lambda>e. (kv_key e, kv_value e)) ` set (f i))"
      by (auto simp: image_iff)
    also have "\<dots> \<longleftrightarrow> in_range lo hi k \<and> m k = Some v"
      using mem assms by (auto simp: array_ok_def)
    finally show ?thesis .
  qed
  ultimately show thesis using that by blast
qed

end

section \<open>The engine keeps the contract\<close>

definition engine_tidy :: "engine \<Rightarrow> engine \<Rightarrow> bool" where
  "engine_tidy e e' \<longleftrightarrow> \<not> en_closed e'
     \<and> (\<exists>c r f. e' = snd (engine_flush c r f e) \<or> e' = snd (engine_compact c r f e))"

definition engine_ok :: "nat \<Rightarrow> (bytes \<rightharpoonup> bytes) \<Rightarrow> engine \<Rightarrow> bool" where
  "engine_ok n m e \<longleftrightarrow> session_inv n m e \<and> \<not> en_closed e"

lemma engine_write_refused:
  "engine_write k v Write_ok True e = (Some er, e') \<Longrightarrow> e' = e"
  by (auto simp: engine_write_eq wal_append_def Let_def file_write_outcome_def split: if_splits option.splits sum.splits prod.splits)

lemma session_inv_mono: "session_inv n m e \<Longrightarrow> n \<le> n' \<Longrightarrow> session_inv n' m e"
  by (auto simp: session_inv_def)

lemma session_counters: "same_but_counters e e' \<Longrightarrow> session_inv n m e \<Longrightarrow> session_inv n m e'"
proof -
  assume a: "same_but_counters e e'" "session_inv n m e"
  then obtain c s where e': "e' = e\<lparr>en_checks := c, en_skips := s\<rparr>" unfolding same_but_counters_def by blast
  have "layers e' = layers e" by (simp add: e' layers_def)
  then have "engine_view e' = engine_view e" by (simp add: engine_view_def [abs_def])
  with a(2) show ?thesis
    by (simp add: session_inv_def e' engine_inv_def layered_def seq_below_def total_entries_def layers_def)
qed

lemma engine_get_ok:
  assumes "engine_ok n m e"
  shows "\<exists>e'. engine_get k e = (Inr (m k), e') \<and> engine_ok n m e'"
proof -
  have inv: "session_inv n m e" "\<not> en_closed e" "engine_inv e" "engine_view e = m"
    using assms by (auto simp: engine_ok_def session_inv_def)
  have g: "fst (engine_get k e) = Inr (m k)" "same_but_counters e (snd (engine_get k e))"
    using engine_get_correct [of e k] inv(2-4) by (auto simp: engine_inv_def)
  have "\<not> en_closed (snd (engine_get k e))" using g(2) inv(2) by (metis engine.select_convs(13) engine.surjective engine.update_convs(11,12) same_but_counters_def)
  then show ?thesis using g session_counters [OF g(2) inv(1)] by (metis engine_ok_def prod.collapse)
qed

interpretation engine_kv: kv_store engine_ok "\<lambda>k v. engine_write k v Write_ok True" engine_get engine_scan engine_tidy
proof
  fix n n' m s s' k v er lo hi
  show "engine_ok n m s \<Longrightarrow> n \<le> n' \<Longrightarrow> engine_ok n' m s"
    by (auto simp: engine_ok_def intro: session_inv_mono)
  show "engine_ok n m s \<Longrightarrow> n \<le> 2 ^ 29 \<Longrightarrow> engine_write k v Write_ok True s = (None, s')
      \<Longrightarrow> engine_ok (n + 1) (m(k := v)) s'"
    using session_write [of n m s k v s'] by (auto simp: engine_ok_def session_inv_def engine_inv_def)
  show "engine_ok n m s \<Longrightarrow> engine_write k v Write_ok True s = (Some er, s') \<Longrightarrow> engine_ok n m s'"
    using engine_write_refused by blast
  show "engine_ok n m s \<Longrightarrow> \<exists>s'. engine_get k s = (Inr (m k), s') \<and> engine_ok n m s'"
    using engine_get_ok by blast
  show "engine_ok n m s \<Longrightarrow> \<exists>res. engine_scan lo hi s = Inr res \<and> scan_result lo hi m res"
    using engine_scan_correct [of s lo hi] by (auto simp: engine_ok_def session_inv_def engine_inv_def scan_result_def)
  show "engine_ok n m s \<Longrightarrow> n \<le> 2 ^ 29 \<Longrightarrow> engine_tidy s s' \<Longrightarrow> engine_ok (n + 1) m s'"
    unfolding engine_tidy_def engine_ok_def using session_reorganise [of n m s _ _ _ _ s'] by (metis prod.collapse)
qed

text \<open>After a reopening the numbers may start again, so scans are not covered; updates and lookups are.\<close>

definition engine_life_ok :: "nat \<Rightarrow> (bytes \<rightharpoonup> bytes) \<Rightarrow> engine \<Rightarrow> bool" where
  "engine_life_ok n m e \<longleftrightarrow> engine_inv e \<and> engine_view e = m"

interpretation engine_life: kv_updates engine_life_ok "\<lambda>k v. engine_write k v Write_ok True" engine_get
proof
  fix n n' m s s' k v er
  show "engine_life_ok n m s \<Longrightarrow> n \<le> n' \<Longrightarrow> engine_life_ok n' m s" by (simp add: engine_life_ok_def)
  show "engine_life_ok n m s \<Longrightarrow> n \<le> 2 ^ 29 \<Longrightarrow> engine_write k v Write_ok True s = (None, s')
      \<Longrightarrow> engine_life_ok (n + 1) (m(k := v)) s'"
    using engine_write_ok(1,2) [of s k v Write_ok True s'] by (simp add: engine_life_ok_def)
  show "engine_life_ok n m s \<Longrightarrow> engine_write k v Write_ok True s = (Some er, s') \<Longrightarrow> engine_life_ok n m s'"
    using engine_write_refused by blast
  show "engine_life_ok n m s \<Longrightarrow> \<exists>s'. engine_get k s = (Inr (m k), s') \<and> engine_life_ok n m s'"
  proof -
    assume a: "engine_life_ok n m s"
    then have inv: "\<not> en_closed s" "tables_ok (en_tables s)" "mt_inv (en_mem s)" "engine_inv s" "engine_view s = m"
      by (auto simp: engine_life_ok_def engine_inv_def)
    note g = engine_get_correct [OF inv(1-3), of k]
    from g(2) obtain c d where s': "snd (engine_get k s) = s\<lparr>en_checks := c, en_skips := d\<rparr>"
      unfolding same_but_counters_def by blast
    have "layers (snd (engine_get k s)) = layers s" by (simp add: s' layers_def)
    then have "engine_view (snd (engine_get k s)) = m" using inv(5) by (simp add: engine_view_def [abs_def])
    moreover have "engine_inv (snd (engine_get k s))" using inv(4) by (simp add: s' engine_inv_def)
    ultimately show ?thesis using g(1) inv(5) by (metis engine_life_ok_def prod.collapse)
  qed
qed

section \<open>Histories of writes\<close>

text \<open>The map a sequence of writes leaves; a deletion writes \<open>None\<close>.\<close>

definition play :: "(bytes \<times> bytes option) list \<Rightarrow> (bytes \<rightharpoonup> bytes) \<Rightarrow> bytes \<rightharpoonup> bytes" where
  "play ws m = foldl (\<lambda>m (k, v). m(k := v)) m ws"

lemma play_simps [simp]: "play [] m = m" "play (w # ws) m = play ws (m(fst w := snd w))"
  by (simp_all add: play_def case_prod_beta)

lemma play_append [simp]: "play (vs @ ws) m = play ws (play vs m)"
  by (simp add: play_def)

lemma play_lookup: "play ws m k = (case map_of (rev ws) k of None \<Rightarrow> m k | Some v \<Rightarrow> v)"
  by (induction ws arbitrary: m) (auto simp: map_add_def split: option.splits)

text \<open>Replaying from an earlier point of a history ends in the same map: the later writes win again.\<close>

lemma play_again:
  assumes "play ws m' = play (vs @ ws) m"
  shows "play (vs @ ws) m' = play (vs @ ws) m"
proof
  fix k
  have "play ws m' k = play (vs @ ws) m k" by (simp only: assms)
  then show "play (vs @ ws) m' k = play (vs @ ws) m k"
    unfolding play_lookup rev_append by (auto simp: map_add_def split: option.splits)
qed

end
