(* ===== verification/Files.thy ===== *)
theory Files
  imports Manifest
begin

text \<open>
  What the components that keep small JSON files share: the file as the value its JSON decodes to, and
  Go's \<open>filepath.Clean\<close> and \<open>filepath.Join\<close> on Unix paths.
\<close>

text \<open>A JSON file: missing, there but not readable (\<open>os.ReadFile\<close> fails with another error), not decodable, or decoded to
  a value.\<close>

datatype 'a json_file = No_file | Unreadable_file | Bad_file | Json_file 'a

text \<open>The bytes of a string, and \<open>%d\<close> of an \<open>int\<close>.\<close>

definition ascii :: "string \<Rightarrow> bytes" where "ascii = map of_char"

definition signed_decimal :: "int \<Rightarrow> string" where
  "signed_decimal i = (if i < 0 then ''-'' @ decimal (nat (- i)) else decimal (nat i))"

section \<open>\<open>filepath.Clean\<close>\<close>

text \<open>\<open>out\<close> holds the elements kept so far, last first.\<close>

fun clean_parts :: "bool \<Rightarrow> string list \<Rightarrow> string list \<Rightarrow> string list" where
  "clean_parts rooted out [] = rev out"
| "clean_parts rooted out (c # cs) =
     (if c = [] \<or> c = ''.'' then clean_parts rooted out cs
      else if c = ''..'' then
        (case out of
           [] \<Rightarrow> clean_parts rooted (if rooted then [] else [c]) cs
         | a # as \<Rightarrow> clean_parts rooted (if a = ''..'' then c # out else as) cs)
      else clean_parts rooted (c # out) cs)"

fun join_slash :: "string list \<Rightarrow> string" where
  "join_slash [] = []"
| "join_slash [p] = p"
| "join_slash (p # q # ps) = p @ ''/'' @ join_slash (q # ps)"

definition is_abs :: "path \<Rightarrow> bool" where
  "is_abs p \<longleftrightarrow> p \<noteq> [] \<and> hd p = CHR ''/''"

definition clean_path :: "path \<Rightarrow> path" where
  "clean_path p =
     (let body = join_slash (clean_parts (is_abs p) [] (split_path [] p)) in
      if is_abs p then ''/'' @ body else if body = [] then ''.'' else body)"

definition path_join :: "path list \<Rightarrow> path" where
  "path_join ps = (let qs = filter (\<lambda>p. p \<noteq> []) ps in if qs = [] then [] else clean_path (join_slash qs))"

lemma split_path_append:
  "\<forall>c \<in> set p. c \<noteq> CHR ''/'' \<Longrightarrow> split_path acc (p @ CHR ''/'' # q) = (acc @ p) # split_path [] q"
  by (induction p arbitrary: acc) auto

text \<open>A path of two plain elements is clean.\<close>

definition plain_element :: "string \<Rightarrow> bool" where
  "plain_element p \<longleftrightarrow> p \<noteq> [] \<and> p \<noteq> ''.'' \<and> p \<noteq> ''..'' \<and> (\<forall>c \<in> set p. c \<noteq> CHR ''/'')"

lemma clean_two:
  assumes "plain_element p" "plain_element q"
  shows "clean_path (p @ ''/'' @ q) = p @ ''/'' @ q"
proof -
  have s: "split_path [] (p @ ''/'' @ q) = [p, q]"
    using assms split_path_append [of p "[]" q] split_path_plain [of q "[]"] by (simp add: plain_element_def)
  have "\<not> is_abs (p @ ''/'' @ q)" using assms(1) by (cases p) (auto simp: is_abs_def plain_element_def)
  then show ?thesis using assms by (simp add: clean_path_def s [simplified] plain_element_def Let_def)
qed

section \<open>Numbered directories\<close>

text \<open>A relative path that stays below its directory, and names with \<open>%04d\<close>.\<close>

definition path_climbs :: "path \<Rightarrow> bool" where
  "path_climbs p \<longleftrightarrow> p = ''..'' \<or> take 3 p = ''../''"

definition rel_path_ok :: "path \<Rightarrow> bool" where
  "rel_path_ok p \<longleftrightarrow> p \<noteq> [] \<and> \<not> is_abs p \<and> \<not> path_climbs p \<and> clean_path p = p"

definition pad4 :: "nat \<Rightarrow> string" where
  "pad4 n = replicate (4 - length (decimal n)) (CHR ''0'') @ decimal n"

lemma pad4_inj: "pad4 i = pad4 j \<Longrightarrow> i = j"
  by (metis decimal_value_decimal decimal_value_zeros pad4_def)

lemma pad4_plain: "c \<in> set (pad4 i) \<Longrightarrow> c \<noteq> CHR ''/''"
  using decimal_plain by (auto simp: pad4_def)

lemma numbered_plain: "\<forall>c \<in> set prefix. c \<noteq> CHR ''/'' \<Longrightarrow> plain_element (prefix @ ''-'' @ pad4 i)"
proof -
  assume a: "\<forall>c \<in> set prefix. c \<noteq> CHR ''/''"
  let ?p = "prefix @ ''-'' @ pad4 i"
  have "4 \<le> length (pad4 i)" by (simp add: pad4_def)
  then have "5 \<le> length ?p" by simp
  moreover have "5 \<le> length q \<Longrightarrow> q \<noteq> [] \<and> q \<noteq> ''.'' \<and> q \<noteq> ''..''" for q :: string by auto
  ultimately have "?p \<noteq> [] \<and> ?p \<noteq> ''.'' \<and> ?p \<noteq> ''..''" by blast
  then show "plain_element ?p" using a pad4_plain by (auto simp: plain_element_def)
qed

section \<open>A number in a text file\<close>

text \<open>
  \<open>strings.TrimSpace\<close> on the bytes of a string: the encodings of the runes with \<open>unicode.IsSpace\<close> are
  removed at both ends. The encodings are prefix free and suffix free, so at most one matches.
\<close>

definition space_encodings :: "bytes list" where
  "space_encodings = [[9], [10], [11], [12], [13], [32], [0xC2, 0x85], [0xC2, 0xA0], [0xE1, 0x9A, 0x80]]
     @ map (\<lambda>b. [0xE2, 0x80, b]) [0x80, 0x81, 0x82, 0x83, 0x84, 0x85, 0x86, 0x87, 0x88, 0x89, 0x8A, 0xA8, 0xA9, 0xAF]
     @ [[0xE2, 0x81, 0x9F], [0xE3, 0x80, 0x80]]"

function trim_front :: "bytes list \<Rightarrow> bytes \<Rightarrow> bytes" where
  "trim_front encs s =
     (case List.find (\<lambda>w. w \<noteq> [] \<and> take (length w) s = w) encs of
        None \<Rightarrow> s
      | Some w \<Rightarrow> trim_front encs (drop (length w) s))"
  by pat_completeness auto
termination
proof (relation "measure (\<lambda>(encs, s). length s)")
  fix encs :: "bytes list" and s w :: bytes
  assume "List.find (\<lambda>w. w \<noteq> [] \<and> take (length w) s = w) encs = Some w"
  then have "w \<noteq> []" "take (length w) s = w" by (auto simp: find_Some_iff)
  then have "0 < length w" "0 < length s" by auto
  then show "((encs, drop (length w) s), encs, s) \<in> measure (\<lambda>(encs, s). length s)" by simp
qed simp

declare trim_front.simps [simp del]

definition trim_space :: "bytes \<Rightarrow> bytes" where
  "trim_space s = rev (trim_front (map rev space_encodings) (rev (trim_front space_encodings s)))"

text \<open>\<open>strconv.ParseUint(s, 10, 64)\<close>; \<open>None\<close> is an error (no digits, another character, out of range).\<close>

fun parse_digits :: "nat \<Rightarrow> bytes \<Rightarrow> nat option" where
  "parse_digits n [] = Some n"
| "parse_digits n (b # bs) =
     (if 48 \<le> b \<and> b \<le> 57 then
        let n1 = 10 * n + unat (b - 48) in if n1 \<ge> 2 ^ 64 then None else parse_digits n1 bs
      else None)"

definition parse_uint :: "bytes \<Rightarrow> u64 option" where
  "parse_uint s = (if s = [] then None else map_option word_of_nat (parse_digits 0 s))"

text \<open>An index file: the number with a newline; anything unreadable is 0.\<close>

definition index_text :: "u64 \<Rightarrow> bytes" where
  "index_text n = ascii (decimal (unat n)) @ [10]"

definition load_index :: "bytes option \<Rightarrow> u64" where
  "load_index f =
     (case f of
        None \<Rightarrow> 0
      | Some bs \<Rightarrow> (case parse_uint (trim_space bs) of None \<Rightarrow> 0 | Some n \<Rightarrow> n))"

lemma parse_digits_append: "parse_digits n (s @ t) = Option.bind (parse_digits n s) (\<lambda>m. parse_digits m t)"
  by (induction s arbitrary: n) (auto simp: Let_def)

lemma digit_char_byte:
  assumes "d < 10"
  shows "unat (of_char (digit_char d) :: byte) = 48 + d"
proof -
  have "of_char (digit_char d) = (48 + d :: nat)" using assms by (simp add: digit_char_def)
  then have "(of_char (digit_char d) :: byte) = word_of_nat (48 + d)" by (metis of_nat_of_char)
  then show ?thesis using assms by (simp only: unat_of_nat) (simp add: take_bit_nat_eq_self)
qed

lemma digit_byte:
  assumes "b \<in> set (ascii (decimal n))"
  shows "48 \<le> b \<and> b \<le> 57"
proof -
  have "\<forall>c \<in> set (decimal n). \<exists>d < 10. c = digit_char d"
  proof (induction n rule: decimal.induct)
    case (1 n)
    have "n mod 10 < 10" by simp
    then have "\<exists>d < 10. digit_char (n mod 10) = digit_char d" by blast
    with 1 show ?case by (subst decimal.simps) auto
  qed
  then obtain d where "d < 10" "b = of_char (digit_char d)" using assms by (auto simp: ascii_def)
  then have "unat b = 48 + d" using digit_char_byte by blast
  then show ?thesis using \<open>d < 10\<close> by (simp add: word_le_nat_alt)
qed

lemma parse_digits_decimal: "n < 2 ^ 64 \<Longrightarrow> parse_digits 0 (ascii (decimal n)) = Some n"
proof (induction n rule: decimal.induct)
  case (1 n)
  have d: "d < 10 \<Longrightarrow> unat (of_char (digit_char d) - 48 :: byte) = d \<and> (48 :: byte) \<le> of_char (digit_char d) \<and> (of_char (digit_char d) :: byte) \<le> 57" for d
  proof -
    assume "d < 10"
    note u = digit_char_byte [OF this]
    have "(48 :: byte) \<le> of_char (digit_char d)" "(of_char (digit_char d) :: byte) \<le> 57"
      using u \<open>d < 10\<close> by (simp_all add: word_le_nat_alt)
    then show ?thesis using u by (simp add: unat_sub)
  qed
  show ?case
  proof (cases "n < 10")
    case True
    then show ?thesis using d [OF True] by (subst decimal.simps) (simp add: ascii_def)
  next
    case False
    then have "parse_digits 0 (ascii (decimal (n div 10))) = Some (n div 10)" using 1 by simp
    then show ?thesis
      using False d [of "n mod 10"] "1.prems" by (subst decimal.simps) (simp add: ascii_def parse_digits_append)
  qed
qed

lemma trim_front_digit:
  "48 \<le> b \<Longrightarrow> b \<le> 57 \<Longrightarrow> trim_front space_encodings (b # s) = b # s"
  "48 \<le> b \<Longrightarrow> b \<le> 57 \<Longrightarrow> trim_front (map rev space_encodings) (b # s) = b # s"
proof -
  assume b: "48 \<le> b" "b \<le> 57"
  have hd: "b \<noteq> hd w" if "w \<in> set space_encodings \<union> set (map rev space_encodings)" for w
    using that b by (auto simp: space_encodings_def)
  then have no: "take (length w) (b # s) \<noteq> w \<or> w = []" if "w \<in> set space_encodings \<union> set (map rev space_encodings)" for w
  proof (cases w)
    case (Cons c w')
    then show ?thesis using hd [OF that] by simp
  qed simp
  have "List.find (\<lambda>w. w \<noteq> [] \<and> take (length w) (b # s) = w) space_encodings = None"
    "List.find (\<lambda>w. w \<noteq> [] \<and> take (length w) (b # s) = w) (map rev space_encodings) = None"
    unfolding find_None_iff using no by blast+
  then show "trim_front space_encodings (b # s) = b # s" "trim_front (map rev space_encodings) (b # s) = b # s"
    by (subst trim_front.simps, simp)+
qed

text \<open>What is saved is loaded back.\<close>

lemma load_index_text [simp]: "load_index (Some (index_text n)) = n"
proof -
  let ?s = "ascii (decimal (unat n))"
  have ne: "?s \<noteq> []" by (subst decimal.simps) (auto simp: ascii_def)
  note dig = digit_byte [of _ "unat n"]
  have "trim_front space_encodings (index_text n) = index_text n"
    using ne dig trim_front_digit(1) [of "hd ?s" "tl ?s @ [10]"]
    by (metis append_Cons hd_in_set index_text_def list.collapse)
  moreover have "trim_front (map rev space_encodings) (rev (index_text n)) = trim_front (map rev space_encodings) (rev ?s)"
    by (subst trim_front.simps) (simp add: index_text_def space_encodings_def)
  moreover have "trim_front (map rev space_encodings) (rev ?s) = rev ?s"
    using ne dig trim_front_digit(2) [of "last ?s" "tl (rev ?s)"]
    by (metis (no_types, lifting) hd_rev last_in_set list.collapse rev_is_Nil_conv)
  ultimately have t: "trim_space (index_text n) = ?s" by (simp add: trim_space_def)
  have "unat n < 2 ^ 64" using unsigned_less [of n] by simp
  then show ?thesis using parse_digits_decimal [of "unat n"] ne by (simp add: load_index_def t parse_uint_def)
qed

end
