(* ===== verification/EngineDirs.thy ===== *)
theory EngineDirs
  imports Kv Files
begin

text \<open>
  An engine in a directory below a store's: \<open>engine.Open\<close> with a directory and otherwise default options,
  as the sharded and the replicated store call it. A fresh directory opens as an empty map, and a
  directory an engine left opens as its map.
\<close>

definition engine_opts_for :: "path \<Rightarrow> path \<Rightarrow> engine_options" where
  "engine_opts_for dir rel =
     \<lparr>eo_dir = path_join [dir, rel], eo_mem_max = 0, eo_sync = False, eo_wal_max = 0, eo_sst_max = 0, eo_fpr = 0\<rparr>"

definition engine_opts_at :: "path \<Rightarrow> path \<Rightarrow> engine_options" where
  "engine_opts_at dir rel = effective_options (engine_opts_for dir rel)"

lemma path_join_nonempty: "dir \<noteq> [] \<Longrightarrow> path_join [dir, rel] \<noteq> []"
  by (auto simp: path_join_def clean_path_def Let_def)

lemma engine_opts_at_ok: "dir \<noteq> [] \<Longrightarrow> opts_ok (engine_opts_at dir rel)"
  using path_join_nonempty
  by (simp add: opts_ok_def engine_opts_at_def effective_options_def engine_opts_for_def default_mem_bytes_def
      default_bloom_fpr_def float_zero_def fpr_valid_def)

lemma engine_open_opts: "engine_open f o' d = (Inr e, d') \<Longrightarrow> en_opts e = effective_options o'"
  by (auto simp: engine_open_def Let_def split: if_splits sum.splits manifest_error.splits prod.splits option.splits)

lemma open_engine_fresh:
  assumes "dir \<noteq> []"
  shows "\<exists>e d. engine_open None (engine_opts_for dir rel) fresh_disk = (Inr e, d) \<and> engine_ok 0 Map.empty e
    \<and> en_opts e = engine_opts_at dir rel"
proof -
  have o: "eo_dir (engine_opts_for dir rel) \<noteq> []" "fpr_valid (eo_fpr (effective_options (engine_opts_for dir rel)))"
    using path_join_nonempty [OF assms] engine_opts_at_ok [OF assms, of rel]
    by (simp_all add: engine_opts_for_def opts_ok_def engine_opts_at_def)
  obtain e d where e: "engine_open None (engine_opts_for dir rel) fresh_disk = (Inr e, d)" "session_inv 0 Map.empty e"
    using open_fresh [OF o] by blast
  moreover have "en_opts e = engine_opts_at dir rel"
    using engine_open_opts [OF e(1)] by (simp add: engine_opts_at_def)
  ultimately show ?thesis by (auto simp: engine_ok_def session_inv_def engine_inv_def)
qed

lemma engine_open_effective:
  "eo_dir o' \<noteq> [] \<Longrightarrow> effective_options (effective_options o') = effective_options o'
   \<Longrightarrow> engine_open f (effective_options o') d = engine_open f o' d"
  by (simp add: engine_open_def Let_def) (simp add: effective_options_def)

lemma reopen_engine:
  assumes "dir \<noteq> []" "engine_inv e" "en_opts e = engine_opts_at dir rel"
  shows "\<exists>e' d. engine_open None (engine_opts_for dir rel) (directory e) = (Inr e', d) \<and> engine_inv e'
    \<and> engine_view e' = engine_view e \<and> en_opts e' = engine_opts_at dir rel"
proof -
  have "effective_options (engine_opts_at dir rel) = engine_opts_at dir rel"
    using engine_opts_at_ok [OF assms(1)] by simp
  then have "engine_open None (engine_opts_at dir rel) (directory e) = engine_open None (engine_opts_for dir rel) (directory e)"
    unfolding engine_opts_at_def
    by (intro engine_open_effective) (simp_all add: engine_opts_for_def path_join_nonempty [OF assms(1)])
  moreover obtain e' d where "engine_open None (engine_opts_at dir rel) (directory e) = (Inr e', d)" "engine_inv e'"
      "engine_view e' = engine_view e"
    using inv_recovers [OF assms(2)] assms(3) unfolding recovers_def by (metis prod.collapse)
  ultimately show ?thesis using engine_open_opts [of None "engine_opts_for dir rel"] by (metis engine_opts_at_def)
qed

lemma engine_step_opts: "en_opts (snd (engine_step c r op e)) = en_opts e"
  by (cases op) (auto simp: engine_put_def engine_delete_def engine_flush_def engine_compact_def compact_done_def Let_def
      split: if_splits option.splits sum.splits prod.splits)

text \<open>A write that succeeds needs no more of the I/O than that it works, and fits the log's record limit.\<close>

lemma engine_write_good:
  "engine_write k v wo s e = (None, e') \<Longrightarrow> engine_write k v Write_ok True e = (None, e')"
  by (auto simp: engine_write_eq wal_append_def Let_def split: if_splits option.splits sum.splits prod.splits)

lemma engine_write_fits:
  assumes "engine_inv e" "engine_write k v wo s e = (None, e')"
  shows "k \<noteq> []" "17 + length k + length (case v of None \<Rightarrow> [] | Some x \<Rightarrow> x) \<le> unat (eff_max (wal_opts_of (en_opts e)))"
  using assms
  by (auto simp: engine_write_eq wal_append_def write_record_def Let_def engine_inv_def
      split: if_splits option.splits sum.splits prod.splits)

definition engine_record_limit :: nat where "engine_record_limit = 2 ^ 26"

lemma record_limit_at [simp]: "unat (eff_max (wal_opts_of (engine_opts_at dir rel))) = engine_record_limit"
  by (simp add: engine_opts_at_def effective_options_def engine_opts_for_def wal_opts_of_def eff_max_def wal_default_max_def
      engine_record_limit_def)

definition limit_ok :: "engine \<Rightarrow> bool" where
  "limit_ok e \<longleftrightarrow> unat (eff_max (wal_opts_of (en_opts e))) = engine_record_limit"

lemma engine_ok_inv: "engine_ok n m e \<Longrightarrow> engine_inv e"
  by (simp add: engine_ok_def session_inv_def)

lemma engine_write_opts: "en_opts (snd (engine_write k v wo s e)) = en_opts e"
  by (auto simp: engine_write_eq split: sum.splits prod.splits)

text \<open>An operation on several engines that stops at the first failure, as both stores do it.\<close>

fun each_engine :: "(nat \<Rightarrow> engine \<Rightarrow> engine_error option \<times> engine) \<Rightarrow> nat \<Rightarrow> engine list \<Rightarrow> engine_error option \<times> engine list" where
  "each_engine f i [] = (None, [])"
| "each_engine f i (e # es) =
     (case f i e of
        (Some er, e') \<Rightarrow> (Some er, e' # es)
      | (None, e') \<Rightarrow> (case each_engine f (i + 1) es of (res, es') \<Rightarrow> (res, e' # es')))"

lemma each_engine_props:
  assumes "each_engine f i es = (res, es')"
  shows "length es' = length es \<and> (\<forall>j < length es. es' ! j = es ! j \<or> es' ! j = snd (f (i + j) (es ! j)))"
  using assms
proof (induction es arbitrary: i res es')
  case (Cons e es)
  obtain er e1 where f: "f i e = (er, e1)" by fastforce
  show ?case
  proof (cases er)
    case None
    obtain res1 es1 where r: "each_engine f (i + 1) es = (res1, es1)" by fastforce
    have es': "es' = e1 # es1" using Cons.prems f None r by simp
    have "es' ! j = (e # es) ! j \<or> es' ! j = snd (f (i + j) ((e # es) ! j))" if "j < length (e # es)" for j
      using that Cons.IH [OF r] f by (cases j) (auto simp: es')
    then show ?thesis using Cons.IH [OF r] by (simp add: es')
  next
    case (Some x)
    then have es': "es' = e1 # es" using Cons.prems f by simp
    have "es' ! j = (e # es) ! j \<or> es' ! j = snd (f (i + j) ((e # es) ! j))" for j
      using f by (cases j) (auto simp: es')
    then show ?thesis by (simp add: es')
  qed
qed simp

lemma engine_get_opts: "en_opts (snd (engine_get k e)) = en_opts e"
  by (auto simp: engine_get_def split: option.split prod.split)

end
