(* ===== verification/Ring.thy ===== *)
theory Ring
  imports Files "HOL-Library.Product_Lexorder"
begin

text \<open>
  Consistent hashing: the token ring of the local shards (\<open>internal/shard/ring.go\<close>) and the point ring
  of the client gateway (\<open>internal/gateway/ring.go\<close>, \<open>internal/gateway/types.go\<close>). Both place labels on
  the 64-bit FNV-1a circle, sort them and answer a key with the owner of the first position at or after
  the key's hash. The locale \<open>consistent_ring\<close> states that contract; what consistent hashing is
  for, that removing an owner moves only the keys it owned, is proved once in it and used by both.
\<close>

section \<open>Clockwise successor\<close>

definition successor :: "('t \<Rightarrow> u64) \<Rightarrow> u64 \<Rightarrow> 't list \<Rightarrow> 't" where
  "successor pos h ts = (case find (\<lambda>t. h \<le> pos t) ts of Some t \<Rightarrow> t | None \<Rightarrow> hd ts)"

text \<open>\<open>t\<close> is first at or after \<open>h\<close> on the circle: no position lies between, going clockwise.\<close>

definition clockwise_first :: "('t \<Rightarrow> u64) \<Rightarrow> u64 \<Rightarrow> 't set \<Rightarrow> 't \<Rightarrow> bool" where
  "clockwise_first pos h T t \<longleftrightarrow> t \<in> T \<and>
     (if \<exists>s \<in> T. h \<le> pos s then h \<le> pos t \<and> (\<forall>s \<in> T. h \<le> pos s \<longrightarrow> pos t \<le> pos s)
      else \<forall>s \<in> T. pos t \<le> pos s)"

lemma find_sorted_least:
  "sorted (map pos ts) \<Longrightarrow> find (\<lambda>t. h \<le> pos t) ts = Some t
   \<Longrightarrow> t \<in> set ts \<and> h \<le> pos t \<and> (\<forall>s \<in> set ts. h \<le> pos s \<longrightarrow> pos t \<le> (pos s :: u64))"
  by (induction ts) (auto split: if_splits)

lemma successor_clockwise:
  assumes "sorted (map pos ts)" "ts \<noteq> []"
  shows "clockwise_first pos h (set ts) (successor pos h ts)"
proof (cases "find (\<lambda>t. h \<le> pos t) ts")
  case None
  then have "\<not> (\<exists>s \<in> set ts. h \<le> pos s)" by (simp add: find_None_iff)
  moreover have "\<forall>s \<in> set ts. pos (hd ts) \<le> pos s" using assms by (cases ts) auto
  ultimately show ?thesis using None assms by (simp add: successor_def clockwise_first_def)
next
  case (Some t)
  show ?thesis
    using find_sorted_least [OF assms(1) Some] Some by (auto simp: successor_def clockwise_first_def)
qed

lemma successor_in: "ts \<noteq> [] \<Longrightarrow> successor pos h ts \<in> set ts"
  by (auto simp: successor_def find_Some_iff split: option.splits)

lemma find_filter: "find P ts = Some t \<Longrightarrow> Q t \<Longrightarrow> find P (filter Q ts) = Some t"
  by (induction ts) (auto split: if_splits)

lemma successor_filter:
  assumes "Q (successor pos h ts)" "ts \<noteq> []"
  shows "successor pos h (filter Q ts) = successor pos h ts"
proof (cases "find (\<lambda>t. h \<le> pos t) ts")
  case None
  then have "find (\<lambda>t. h \<le> pos t) (filter Q ts) = None" by (auto simp: find_None_iff)
  moreover have "hd (filter Q ts) = hd ts" using assms None by (cases ts) (simp_all add: successor_def)
  ultimately show ?thesis using None by (simp add: successor_def)
next
  case (Some t)
  then have "Q t" using assms(1) by (simp add: successor_def)
  then show ?thesis using find_filter [OF Some] Some by (simp add: successor_def)
qed

text \<open>What both files compute: the binary search, and index 0 when it runs off the end.\<close>

definition ring_search :: "('t \<Rightarrow> u64) \<Rightarrow> 't list \<Rightarrow> u64 \<Rightarrow> nat" where
  "ring_search pos ts h = sort_search (length ts) (\<lambda>i. h \<le> pos (ts ! i))"

lemma ring_search_successor:
  fixes h :: u64
  assumes s: "sorted (map pos ts)" and ne: "ts \<noteq> []"
  defines "i \<equiv> ring_search pos ts h"
  shows "ts ! (if i = length ts then 0 else i) = successor pos h ts" "i \<le> length ts"
proof -
  have mono: "h \<le> pos (ts ! a) \<Longrightarrow> a \<le> b \<Longrightarrow> b < length ts \<Longrightarrow> h \<le> pos (ts ! b)" for a b
    using sorted_nth_mono [OF s, of a b] by simp
  let ?p = "\<lambda>i. h \<le> pos (ts ! i)"
  have le: "i \<le> length ts"
    unfolding i_def ring_search_def by (rule sort_search_spec(1)) (rule mono)
  have lo: "\<not> ?p k" if "k < i" for k
    by (rule sort_search_spec(2) [where n = "length ts" and p = ?p])
       (use mono that in \<open>auto simp: i_def ring_search_def\<close>)
  have hi: "?p k" if "i \<le> k" "k < length ts" for k
    by (rule sort_search_spec(3) [where n = "length ts" and p = ?p])
       (use mono that in \<open>auto simp: i_def ring_search_def\<close>)
  show "i \<le> length ts" by (rule le)
  show "ts ! (if i = length ts then 0 else i) = successor pos h ts"
  proof (cases "i = length ts")
    case True
    then have "find (\<lambda>t. h \<le> pos t) ts = None"
      using lo by (auto simp: find_None_iff in_set_conv_nth)
    with True ne show ?thesis by (simp add: successor_def hd_conv_nth)
  next
    case False
    then have "i < length ts" using le by simp
    then have "find (\<lambda>t. h \<le> pos t) ts = Some (ts ! i)"
      unfolding find_Some_iff by (intro exI [of _ i]) (use lo hi in auto)
    with False show ?thesis by (simp add: successor_def)
  qed
qed

section \<open>The contract of a ring\<close>

locale consistent_ring =
  fixes pos :: "'t \<Rightarrow> u64" and own :: "'t \<Rightarrow> 'o" and lookup :: "'t list \<Rightarrow> bytes \<Rightarrow> 'o option"
  assumes lookup_successor:
    "sorted (map pos ts) \<Longrightarrow> ts \<noteq> [] \<Longrightarrow> lookup ts k = Some (own (successor pos (fnv1a64 k) ts))"
begin

lemma lookup_clockwise:
  "sorted (map pos ts) \<Longrightarrow> ts \<noteq> [] \<Longrightarrow>
   \<exists>t. lookup ts k = Some (own t) \<and> clockwise_first pos (fnv1a64 k) (set ts) t"
  using successor_clockwise lookup_successor by blast

lemma lookup_owner:
  "sorted (map pos ts) \<Longrightarrow> ts \<noteq> [] \<Longrightarrow> \<exists>t \<in> set ts. lookup ts k = Some (own t)"
  using successor_in lookup_successor by blast

lemma lookup_restrict:
  assumes s: "sorted (map pos ts)" and l: "lookup ts k = Some w" "P w" and ne: "ts \<noteq> []"
  shows "lookup (filter (\<lambda>t. P (own t)) ts) k = Some w"
proof -
  let ?Q = "\<lambda>t. P (own t)" and ?t = "successor pos (fnv1a64 k) ts"
  have w: "w = own ?t" using lookup_successor [OF s ne] l(1) by simp
  have "filter ?Q ts \<noteq> []" using successor_in [OF ne] l(2) w by (auto simp: filter_empty_conv)
  moreover have "sorted (map pos (filter ?Q ts))" by (rule sorted_filter [OF s])
  ultimately show ?thesis
    using lookup_successor successor_filter [of ?Q pos "fnv1a64 k" ts] ne l(2) w by simp
qed

text \<open>Adding owners: a key keeps its owner or moves to an added one.\<close>

lemma lookup_extend:
  assumes "sorted (map pos ts)" "filter (\<lambda>t. P (own t)) ts \<noteq> []"
  shows "lookup ts k = lookup (filter (\<lambda>t. P (own t)) ts) k \<or> (\<exists>w. lookup ts k = Some w \<and> \<not> P w)"
proof -
  have "ts \<noteq> []" using assms(2) by auto
  then obtain w where w: "lookup ts k = Some w" using lookup_owner [OF assms(1)] by blast
  show ?thesis
  proof (cases "P w")
    case True
    then show ?thesis using lookup_restrict [of ts k w P] assms(1) True \<open>ts \<noteq> []\<close> w by simp
  qed (use w in blast)
qed

end

section \<open>The shard ring\<close>

record ring_token =
  rt_hash :: u64
  rt_shard :: nat
  rt_vnode :: nat

definition token_label :: "nat \<Rightarrow> nat \<Rightarrow> string" where
  "token_label i v = ''shard-'' @ pad4 i @ ''#vnode-'' @ pad4 v"

definition ring_token_of :: "nat \<Rightarrow> nat \<Rightarrow> ring_token" where
  "ring_token_of i v = \<lparr>rt_hash = fnv1a64 (ascii (token_label i v)), rt_shard = i, rt_vnode = v\<rparr>"

definition token_order :: "ring_token \<Rightarrow> u64 \<times> nat \<times> nat" where
  "token_order t = (rt_hash t, rt_shard t, rt_vnode t)"

definition new_ring :: "int \<Rightarrow> int \<Rightarrow> ring_token list" where
  "new_ring shard_count virtual_nodes =
     sort_key token_order
       (concat (map (\<lambda>i. map (ring_token_of i) [0..<nat virtual_nodes]) [0..<nat shard_count]))"

text \<open>\<open>newRing\<close> allocates its tokens at once, 24 bytes each: \<open>make([]ringToken, 0, shardCount*virtualNodes)\<close> panics when
  the product, wrapped to 64 bits, is negative or needs more than the address space of 2^48 bytes.\<close>

definition ring_fits :: "int \<Rightarrow> int \<Rightarrow> bool" where
  "ring_fits shard_count virtual_nodes =
     (let c = wrap64 (shard_count * virtual_nodes) in 0 \<le> c \<and> 24 * c \<le> 2 ^ 48)"

text \<open>\<open>None\<close> is the index panic on a ring without tokens.\<close>

definition shard_index :: "ring_token list \<Rightarrow> bytes \<Rightarrow> nat option" where
  "shard_index r key =
     (let h = fnv1a64 key; n = length r;
          idx = sort_search n (\<lambda>i. h \<le> rt_hash (r ! i));
          idx = (if idx = n then 0 else idx)
      in if idx < n then Some (rt_shard (r ! idx)) else None)"

lemma shard_index_successor:
  assumes "sorted (map rt_hash r)" "r \<noteq> []"
  shows "shard_index r k = Some (rt_shard (successor rt_hash (fnv1a64 k) r))"
proof -
  let ?i = "ring_search rt_hash r (fnv1a64 k)"
  let ?j = "if ?i = length r then 0 else ?i"
  note s = ring_search_successor [OF assms, of "fnv1a64 k"]
  have j: "?j < length r" using s(2) assms(2) by simp
  have "shard_index r k = (if ?j < length r then Some (rt_shard (r ! ?j)) else None)"
    by (simp only: shard_index_def Let_def ring_search_def)
  also have "\<dots> = Some (rt_shard (r ! ?j))" using j by (simp only: if_True)
  finally show ?thesis by (simp only: s(1))
qed

interpretation shard: consistent_ring rt_hash rt_shard shard_index
  by unfold_locales (rule shard_index_successor)

lemma sorted_fst: "sorted (map f xs) \<Longrightarrow> sorted (map (fst \<circ> f) xs)"
  by (induction xs) (auto simp: less_eq_prod_def)

lemma new_ring_sorted: "sorted (map rt_hash (new_ring n v))"
proof -
  have "sorted (map token_order (new_ring n v))" by (simp add: new_ring_def)
  then have "sorted (map (fst \<circ> token_order) (new_ring n v))" by (rule sorted_fst)
  then show ?thesis by (simp add: comp_def token_order_def)
qed

lemma set_new_ring:
  "set (new_ring n v) = {ring_token_of i j |i j. int i < n \<and> int j < v}"
proof (intro set_eqI)
  fix t
  have "t \<in> set (new_ring n v) \<longleftrightarrow> (\<exists>i < nat n. \<exists>j < nat v. t = ring_token_of i j)"
    by (simp add: new_ring_def image_iff Bex_def atLeast0LessThan) blast
  then show "t \<in> set (new_ring n v) \<longleftrightarrow> t \<in> {ring_token_of i j |i j. int i < n \<and> int j < v}"
    by (auto simp: zless_nat_eq_int_zless)
qed

lemma new_ring_nonempty: "0 < n \<Longrightarrow> 0 < v \<Longrightarrow> new_ring n v \<noteq> []"
proof
  assume "0 < n" "0 < v" "new_ring n v = []"
  then have "ring_token_of 0 0 \<notin> set (new_ring n v)" "int 0 < n" "int 0 < v" by simp_all
  then show False unfolding set_new_ring by blast
qed

text \<open>The ring of fewer shards is the ring of more shards without the tokens of the others.\<close>

lemma new_ring_restrict:
  assumes "n \<le> m"
  shows "filter (\<lambda>t. int (rt_shard t) < n) (new_ring m v) = new_ring n v"
proof -
  let ?row = "\<lambda>i. map (ring_token_of i) [0..<nat v]"
  have row: "filter (\<lambda>t. int (rt_shard t) < n) (?row i) = (if int i < n then ?row i else [])" for i
    by (simp add: ring_token_of_def filter_map comp_def)
  have parts: "[0..<nat m] = [0..<nat n] @ [nat n..<nat m]"
    using assms by (metis le0 nat_mono upt_add_eq_append le_add_diff_inverse)
  have low: "concat (map (\<lambda>i. if int i < n then ?row i else []) [0..<nat n]) = concat (map ?row [0..<nat n])"
    by (intro arg_cong [where f = concat] map_cong refl) (auto simp: zless_nat_eq_int_zless)
  have high: "concat (map (\<lambda>i. if int i < n then ?row i else []) [nat n..<nat m]) = []"
    by (auto simp: zless_nat_eq_int_zless)
  have "filter (\<lambda>t. int (rt_shard t) < n) (new_ring m v)
      = sort_key token_order (concat (map (\<lambda>i. if int i < n then ?row i else []) [0..<nat m]))"
    by (simp add: new_ring_def filter_sort filter_concat comp_def row)
  then show ?thesis by (simp only: parts map_append concat_append low high append_Nil2 new_ring_def)
qed

lemma new_ring_lookup:
  assumes "0 < n" "0 < v"
  obtains t where "shard_index (new_ring n v) k = Some (rt_shard t)" "int (rt_shard t) < n"
    "clockwise_first rt_hash (fnv1a64 k) {ring_token_of i j |i j. int i < n \<and> int j < v} t"
proof -
  obtain t where t: "shard_index (new_ring n v) k = Some (rt_shard t)"
      "clockwise_first rt_hash (fnv1a64 k) (set (new_ring n v)) t"
    using shard.lookup_clockwise [OF new_ring_sorted new_ring_nonempty [OF assms]] by blast
  then have "t \<in> set (new_ring n v)" by (simp add: clockwise_first_def)
  then have "int (rt_shard t) < n" by (auto simp: set_new_ring ring_token_of_def)
  with t that show thesis unfolding set_new_ring by blast
qed

text \<open>The ring of \<open>n\<close> shards answers every key with one of its shards, and with the shard of the
  first token clockwise from the key's hash: no token lies between the hash and the chosen one, and
  only if no token is at or after the hash is it the first of the circle.\<close>

theorem shard_index_clockwise:
  assumes "0 < n" "0 < v"
  shows "\<exists>t. shard_index (new_ring n v) k = Some (rt_shard t) \<and> int (rt_shard t) < n
    \<and> clockwise_first rt_hash (fnv1a64 k) {ring_token_of i j |i j. int i < n \<and> int j < v} t"
  by (rule new_ring_lookup [OF assms, of k]) blast

theorem shard_index_clockwise_witness:
  "\<exists>t. shard_index (new_ring 3 2) (ascii ''user:1'') = Some (rt_shard t) \<and> int (rt_shard t) < 3
    \<and> clockwise_first rt_hash (fnv1a64 (ascii ''user:1''))
        {ring_token_of i j |i j. int i < 3 \<and> int j < 2} t"
  by (rule shard_index_clockwise) simp_all

text \<open>C38: Growing the ring from \<open>n\<close> to \<open>m\<close> shards moves a key only to a new shard: a key is answered
  with the shard it had, or with one of the shards \<open>n, ..., m - 1\<close>.\<close>

theorem shard_ring_growth:
  assumes "0 < n" "n \<le> m" "0 < v"
  shows "shard_index (new_ring m v) k = shard_index (new_ring n v) k
    \<or> (\<exists>i. shard_index (new_ring m v) k = Some i \<and> n \<le> int i \<and> int i < m)"
proof -
  have ne: "filter (\<lambda>t. int (rt_shard t) < n) (new_ring m v) \<noteq> []"
    using new_ring_restrict [OF assms(2)] new_ring_nonempty assms by metis
  obtain i where i: "shard_index (new_ring m v) k = Some i" "int i < m"
    using new_ring_lookup [of m v k] assms by force
  show ?thesis
    using shard.lookup_extend [OF new_ring_sorted ne] i new_ring_restrict [OF assms(2)]
    by (metis linorder_not_less option.inject)
qed

theorem shard_ring_growth_witness:
  "shard_index (new_ring 4 128) (ascii ''user:1'') = shard_index (new_ring 3 128) (ascii ''user:1'')
    \<or> (\<exists>i. shard_index (new_ring 4 128) (ascii ''user:1'') = Some i \<and> 3 \<le> int i \<and> int i < 4)"
  by (rule shard_ring_growth) simp_all

end
