(* ===== verification/ShardStore.thy ===== *)
theory ShardStore
  imports EngineDirs Ring
begin

text \<open>
  The sharded store (\<open>internal/shard/manifest.go\<close>, \<open>internal/shard/store.go\<close>): the sharding manifest with
  its validation, and a store that routes every key through the shard ring to one of several engines,
  scans by fan-out and merge, and flushes, compacts and closes all of them. Below the store's directory
  lie the manifest and one engine directory per relative shard path. The reader-writer lock makes every
  operation atomic.
\<close>

section \<open>The sharding manifest\<close>

record shard_entry =
  se_id :: int
  se_name :: string
  se_path :: string

record sharding_manifest =
  sm_version :: int
  sm_shard_count :: int
  sm_virtual_nodes :: int
  sm_hash :: string
  sm_prefix :: string
  sm_shards :: "shard_entry list"

definition sharding_version :: int where "sharding_version = 1"
definition hash_algorithm :: string where "hash_algorithm = ''fnv64a''"
definition default_virtual_nodes :: int where "default_virtual_nodes = 128"
definition default_shard_prefix :: string where "default_shard_prefix = ''shard''"

text \<open>Every failed check is \<open>ErrCorruptManifest\<close>, so the checks are a Boolean.\<close>

fun check_shards :: "int \<Rightarrow> int set \<Rightarrow> string set \<Rightarrow> string set \<Rightarrow> shard_entry list \<Rightarrow> int set option" where
  "check_shards n ids names paths [] = Some ids"
| "check_shards n ids names paths (s # ss) =
     (if se_id s < 0 \<or> se_id s \<ge> n then None
      else if se_id s \<in> ids then None
      else if se_name s = [] then None
      else if se_name s \<in> names then None
      else if se_path s = [] then None
      else if is_abs (se_path s) then None
      else if path_climbs (clean_path (se_path s)) then None
      else if clean_path (se_path s) \<noteq> se_path s then None
      else if se_path s \<in> paths then None
      else check_shards n (insert (se_id s) ids) (insert (se_name s) names) (insert (se_path s) paths) ss)"

definition validate_sharding :: "sharding_manifest \<Rightarrow> bool" where
  "validate_sharding m =
     (if sm_version m \<noteq> sharding_version then False
      else if sm_hash m \<noteq> hash_algorithm then False
      else if sm_shard_count m \<le> 0 then False
      else if sm_virtual_nodes m \<le> 0 then False
      else if int (length (sm_shards m)) \<noteq> sm_shard_count m then False
      else
        (case check_shards (sm_shard_count m) {} {} {} (sm_shards m) of
           None \<Rightarrow> False
         | Some ids \<Rightarrow> list_all (\<lambda>i. int i \<in> ids) [0..<nat (sm_shard_count m)]))"

section \<open>The store\<close>

datatype shard_error = SErrClosed | SErrInvalidOptions | SErrInvalidKey | SErrCorruptManifest | SErrMismatch
  | SErrIO | SErrEngine engine_error | SErrPanic

record store_options =
  so_dir :: path
  so_shard_count :: int
  so_virtual_nodes :: int
  so_prefix :: string

record shard_info =
  si_id :: int
  si_name :: string
  si_path :: string

record shard_handle =
  sh_info :: shard_info
  sh_engine :: engine

record store =
  ss_opts :: store_options
  ss_ring :: "ring_token list"
  ss_shards :: "shard_handle list"
  ss_closed :: bool

text \<open>The tree below the store's directory; an engine directory that does not exist yet is a fresh one.\<close>

record store_disk =
  sd_manifest :: "sharding_manifest json_file"
  sd_engines :: "path \<Rightarrow> disk"

datatype store_fault = Sf_mkdir | Sf_manifest | Sf_shard_dir nat | Sf_engine nat io_fault

definition write_sharding :: "bool \<Rightarrow> sharding_manifest \<Rightarrow> store_disk \<Rightarrow> shard_error option \<times> store_disk" where
  "write_sharding io_fails m d =
     (if \<not> validate_sharding m then (Some SErrCorruptManifest, d)
      else if io_fails then (Some SErrIO, d)
      else (None, d\<lparr>sd_manifest := Json_file m\<rparr>))"

definition read_sharding :: "store_disk \<Rightarrow> shard_error + sharding_manifest option" where
  "read_sharding d =
     (case sd_manifest d of
        No_file \<Rightarrow> Inr None
      | Unreadable_file \<Rightarrow> Inl SErrCorruptManifest
      | Bad_file \<Rightarrow> Inl SErrCorruptManifest
      | Json_file m \<Rightarrow> if validate_sharding m then Inr (Some m) else Inl SErrCorruptManifest)"

subsection \<open>Open\<close>

definition fresh_entry :: "string \<Rightarrow> nat \<Rightarrow> shard_entry" where
  "fresh_entry prefix i =
     (let name = prefix @ ''-'' @ pad4 i in
      \<lparr>se_id = int i, se_name = name, se_path = path_join [''shards'', name]\<rparr>)"

definition fresh_sharding :: "int \<Rightarrow> int \<Rightarrow> string \<Rightarrow> sharding_manifest" where
  "fresh_sharding n v prefix =
     \<lparr>sm_version = sharding_version, sm_shard_count = n, sm_virtual_nodes = v, sm_hash = hash_algorithm,
      sm_prefix = prefix, sm_shards = map (fresh_entry prefix) [0..<nat n]\<rparr>"

definition engine_fault :: "store_fault option \<Rightarrow> nat \<Rightarrow> io_fault option" where
  "engine_fault ft i = (case ft of Some (Sf_engine j f) \<Rightarrow> if i = j then Some f else None | _ \<Rightarrow> None)"

text \<open>The engines open in manifest order; when one fails the others are closed, which leaves their files.\<close>

fun open_shards ::
    "store_fault option \<Rightarrow> path \<Rightarrow> nat \<Rightarrow> shard_entry list \<Rightarrow> (path \<Rightarrow> disk)
     \<Rightarrow> (shard_error + shard_handle list) \<times> (path \<Rightarrow> disk)" where
  "open_shards ft dir i [] D = (Inr [], D)"
| "open_shards ft dir i (s # ss) D =
     (if ft = Some (Sf_shard_dir i) then (Inl SErrIO, D)
      else
        (case engine_open (engine_fault ft i) (engine_opts_for dir (se_path s)) (D (se_path s)) of
           (Inl er, d) \<Rightarrow> (Inl (SErrEngine er), D(se_path s := d))
         | (Inr e, d) \<Rightarrow>
             (case open_shards ft dir (i + 1) ss (D(se_path s := d)) of
                (Inl er, D') \<Rightarrow> (Inl er, D')
              | (Inr hs, D') \<Rightarrow>
                  (Inr (\<lparr>sh_info = \<lparr>si_id = se_id s, si_name = se_name s, si_path = se_path s\<rparr>, sh_engine = e\<rparr> # hs), D'))))"

definition open_with :: "store_fault option \<Rightarrow> store_options \<Rightarrow> sharding_manifest \<Rightarrow> store_disk
    \<Rightarrow> (shard_error + store) \<times> store_disk" where
  "open_with ft o' m d =
     (if \<not> ring_fits (so_shard_count o') (so_virtual_nodes o') then (Inl SErrPanic, d)
      else
      let ring = new_ring (so_shard_count o') (so_virtual_nodes o') in
      (case open_shards ft (so_dir o') 0 (sm_shards m) (sd_engines d) of
         (Inl er, D) \<Rightarrow> (Inl er, d\<lparr>sd_engines := D\<rparr>)
       | (Inr hs, D) \<Rightarrow>
           (Inr \<lparr>ss_opts = o', ss_ring = ring, ss_shards = hs, ss_closed = False\<rparr>, d\<lparr>sd_engines := D\<rparr>)))"

text \<open>A first opening makes a slice of \<open>shardCount\<close> entries of 40 bytes, which panics beyond 2^48 bytes.\<close>

definition store_open :: "store_fault option \<Rightarrow> store_options \<Rightarrow> store_disk \<Rightarrow> (shard_error + store) \<times> store_disk" where
  "store_open ft o0 d =
     (if so_dir o0 = [] then (Inl SErrInvalidOptions, d)
      else
        let o1 = (if so_prefix o0 = [] then o0\<lparr>so_prefix := default_shard_prefix\<rparr> else o0) in
        if sd_manifest d \<noteq> No_file then
          (case read_sharding d of
             Inl er \<Rightarrow> (Inl er, d)
           | Inr None \<Rightarrow> (Inl SErrPanic, d)
           | Inr (Some m) \<Rightarrow>
               if so_shard_count o1 \<noteq> 0 \<and> so_shard_count o1 \<noteq> sm_shard_count m then (Inl SErrMismatch, d)
               else if so_virtual_nodes o1 \<noteq> 0 \<and> so_virtual_nodes o1 \<noteq> sm_virtual_nodes m then (Inl SErrMismatch, d)
               else open_with ft (o1\<lparr>so_shard_count := sm_shard_count m, so_virtual_nodes := sm_virtual_nodes m,
                                     so_prefix := sm_prefix m\<rparr>) m d)
        else if so_shard_count o1 \<le> 0 then (Inl SErrInvalidOptions, d)
        else if 40 * so_shard_count o1 > 2 ^ 48 then (Inl SErrPanic, d)
        else
          let o2 = (if so_virtual_nodes o1 \<le> 0 then o1\<lparr>so_virtual_nodes := default_virtual_nodes\<rparr> else o1);
              m = fresh_sharding (so_shard_count o2) (so_virtual_nodes o2) (so_prefix o2) in
          if ft = Some Sf_mkdir then (Inl SErrIO, d)
          else
            (case write_sharding (ft = Some Sf_manifest) m d of
               (Some er, d') \<Rightarrow> (Inl er, d')
             | (None, d') \<Rightarrow> open_with ft o2 m d'))"

subsection \<open>Operations on one shard\<close>

text \<open>\<open>s.shards[s.ring.shardIndex(key)]\<close>, where an index out of range panics.\<close>

definition shard_of :: "store \<Rightarrow> bytes \<Rightarrow> nat option" where
  "shard_of st key =
     (case shard_index (ss_ring st) key of
        None \<Rightarrow> None
      | Some i \<Rightarrow> if i < length (ss_shards st) then Some i else None)"

definition set_engine :: "nat \<Rightarrow> engine \<Rightarrow> store \<Rightarrow> store" where
  "set_engine i e st = st\<lparr>ss_shards := (ss_shards st)[i := (ss_shards st ! i)\<lparr>sh_engine := e\<rparr>]\<rparr>"

definition store_put :: "bytes \<Rightarrow> bytes \<Rightarrow> write_outcome \<Rightarrow> bool \<Rightarrow> store \<Rightarrow> shard_error option \<times> store" where
  "store_put key val wo sync_ok st =
     (if length key = 0 then (Some SErrInvalidKey, st)
      else if ss_closed st then (Some SErrClosed, st)
      else
        (case shard_of st key of
           None \<Rightarrow> (Some SErrPanic, st)
         | Some i \<Rightarrow>
             (case engine_put key val wo sync_ok (sh_engine (ss_shards st ! i)) of
                (er, e) \<Rightarrow> (map_option SErrEngine er, set_engine i e st))))"

definition store_delete :: "bytes \<Rightarrow> write_outcome \<Rightarrow> bool \<Rightarrow> store \<Rightarrow> shard_error option \<times> store" where
  "store_delete key wo sync_ok st =
     (if length key = 0 then (Some SErrInvalidKey, st)
      else if ss_closed st then (Some SErrClosed, st)
      else
        (case shard_of st key of
           None \<Rightarrow> (Some SErrPanic, st)
         | Some i \<Rightarrow>
             (case engine_delete key wo sync_ok (sh_engine (ss_shards st ! i)) of
                (er, e) \<Rightarrow> (map_option SErrEngine er, set_engine i e st))))"

definition store_get :: "bytes \<Rightarrow> store \<Rightarrow> (shard_error + bytes option) \<times> store" where
  "store_get key st =
     (if length key = 0 then (Inl SErrInvalidKey, st)
      else if ss_closed st then (Inl SErrClosed, st)
      else
        (case shard_of st key of
           None \<Rightarrow> (Inl SErrPanic, st)
         | Some i \<Rightarrow>
             (case engine_get key (sh_engine (ss_shards st ! i)) of
                (res, e) \<Rightarrow> (case res of Inl er \<Rightarrow> Inl (SErrEngine er) | Inr v \<Rightarrow> Inr v, set_engine i e st))))"

definition store_shard_for_key :: "bytes \<Rightarrow> store \<Rightarrow> shard_error + shard_info" where
  "store_shard_for_key key st =
     (if length key = 0 then Inl SErrInvalidKey
      else if ss_closed st then Inl SErrClosed
      else (case shard_of st key of None \<Rightarrow> Inl SErrPanic | Some i \<Rightarrow> Inr (sh_info (ss_shards st ! i))))"

subsection \<open>Scan\<close>

fun scan_shards :: "bytes \<Rightarrow> bytes \<Rightarrow> shard_handle list \<Rightarrow> shard_error + kv_entry list" where
  "scan_shards lo hi [] = Inr []"
| "scan_shards lo hi (h # hs) =
     (case engine_scan lo hi (sh_engine h) of
        Inl er \<Rightarrow> Inl (SErrEngine er)
      | Inr es \<Rightarrow> (case scan_shards lo hi hs of Inl er \<Rightarrow> Inl er | Inr rest \<Rightarrow> Inr (es @ rest)))"

text \<open>The map \<open>best\<close>: an entry replaces a candidate of a lower number only.\<close>

definition merge_scanned :: "(bytes \<times> kv_entry) list \<Rightarrow> kv_entry \<Rightarrow> (bytes \<times> kv_entry) list" where
  "merge_scanned best e =
     (case map_of best (kv_key e) of
        Some c \<Rightarrow> if kv_seq e \<le> kv_seq c then best else AList.update (kv_key e) e best
      | None \<Rightarrow> AList.update (kv_key e) e best)"

definition store_scan :: "bytes \<Rightarrow> bytes \<Rightarrow> store \<Rightarrow> shard_error + kv_entry list" where
  "store_scan lo hi st =
     (if ss_closed st then Inl SErrClosed
      else
        (case scan_shards lo hi (ss_shards st) of
           Inl er \<Rightarrow> Inl er
         | Inr raw \<Rightarrow> Inr (sort_key kv_key (map snd (foldl merge_scanned [] raw)))))"

subsection \<open>Operations on every shard\<close>

text \<open>\<open>Flush\<close> and \<open>Compact\<close> stop at the first shard that fails.\<close>

fun each_shard ::
    "(nat \<Rightarrow> engine \<Rightarrow> engine_error option \<times> engine) \<Rightarrow> nat \<Rightarrow> shard_handle list \<Rightarrow> shard_error option \<times> shard_handle list" where
  "each_shard f i [] = (None, [])"
| "each_shard f i (h # hs) =
     (case f i (sh_engine h) of
        (Some er, e) \<Rightarrow> (Some (SErrEngine er), h\<lparr>sh_engine := e\<rparr> # hs)
      | (None, e) \<Rightarrow> (case each_shard f (i + 1) hs of (res, hs') \<Rightarrow> (res, h\<lparr>sh_engine := e\<rparr> # hs')))"

definition store_flush ::
    "(u64 \<Rightarrow> float64 \<Rightarrow> u64) \<Rightarrow> (u64 \<Rightarrow> u64 \<Rightarrow> int) \<Rightarrow> (nat \<Rightarrow> io_fault option) \<Rightarrow> store \<Rightarrow> shard_error option \<times> store" where
  "store_flush c r faults st =
     (if ss_closed st then (Some SErrClosed, st)
      else (case each_shard (\<lambda>i. engine_flush c r (faults i)) 0 (ss_shards st) of
        (res, hs) \<Rightarrow> (res, st\<lparr>ss_shards := hs\<rparr>)))"

definition store_compact ::
    "(u64 \<Rightarrow> float64 \<Rightarrow> u64) \<Rightarrow> (u64 \<Rightarrow> u64 \<Rightarrow> int) \<Rightarrow> (nat \<Rightarrow> io_fault option) \<Rightarrow> store \<Rightarrow> shard_error option \<times> store" where
  "store_compact c r faults st =
     (if ss_closed st then (Some SErrClosed, st)
      else (case each_shard (\<lambda>i. engine_compact c r (faults i)) 0 (ss_shards st) of
        (res, hs) \<Rightarrow> (res, st\<lparr>ss_shards := hs\<rparr>)))"

record shard_stats =
  sh_st_info :: shard_info
  sh_st_mem_entries :: nat
  sh_st_mem_bytes :: u64
  sh_st_tables :: nat
  sh_st_flushes :: u64
  sh_st_compactions :: u64

record store_stats =
  st_shard_count :: nat
  st_virtual_nodes :: int
  st_mem_entries :: nat
  st_mem_bytes :: u64
  st_tables :: nat
  st_flushes :: u64
  st_compactions :: u64
  st_shards :: "shard_stats list"

definition shard_stats_of :: "shard_handle \<Rightarrow> shard_stats" where
  "shard_stats_of h =
     (let es = engine_stats_of (sh_engine h) in
      \<lparr>sh_st_info = sh_info h, sh_st_mem_entries = es_mem_entries es, sh_st_mem_bytes = es_mem_bytes es,
       sh_st_tables = es_tables es, sh_st_flushes = es_flushes es, sh_st_compactions = es_compactions es\<rparr>)"

definition add_shard_stats :: "store_stats \<Rightarrow> shard_handle \<Rightarrow> store_stats" where
  "add_shard_stats st h =
     (let ss = shard_stats_of h in
      st\<lparr>st_shards := st_shards st @ [ss],
         st_mem_entries := st_mem_entries st + sh_st_mem_entries ss,
         st_mem_bytes := st_mem_bytes st + sh_st_mem_bytes ss,
         st_tables := st_tables st + sh_st_tables ss,
         st_flushes := st_flushes st + sh_st_flushes ss,
         st_compactions := st_compactions st + sh_st_compactions ss\<rparr>)"

definition store_stats_of :: "store \<Rightarrow> store_stats" where
  "store_stats_of st =
     foldl add_shard_stats
       \<lparr>st_shard_count = length (ss_shards st), st_virtual_nodes = so_virtual_nodes (ss_opts st), st_mem_entries = 0,
        st_mem_bytes = 0, st_tables = 0, st_flushes = 0, st_compactions = 0, st_shards = []\<rparr>
       (ss_shards st)"

text \<open>\<open>Close\<close> closes every engine and keeps the first error.\<close>

fun close_shards :: "shard_error option \<Rightarrow> shard_handle list \<Rightarrow> shard_error option \<times> shard_handle list" where
  "close_shards first [] = (first, [])"
| "close_shards first (h # hs) =
     (case engine_close (sh_engine h) of
        (er, e) \<Rightarrow>
          (case close_shards (if er \<noteq> None \<and> first = None then map_option SErrEngine er else first) hs of
             (res, hs') \<Rightarrow> (res, h\<lparr>sh_engine := e\<rparr> # hs')))"

definition store_close :: "store \<Rightarrow> shard_error option \<times> store" where
  "store_close st =
     (if ss_closed st then (None, st)
      else (case close_shards None (ss_shards st) of
        (res, hs) \<Rightarrow> (res, st\<lparr>ss_closed := True, ss_shards := hs\<rparr>)))"

end
