(* ===== verification/ShardSpec.thy ===== *)
theory ShardSpec
  imports ShardStore "HOL-Library.Multiset"
begin

text \<open>
  The sharded store against its specification: what its manifest validation accepts, a session of
  operations against one finite map, and recovery after a close. The engine enters only through the
  contract \<open>kv_store\<close>, and the ring through \<open>consistent_ring\<close>.
\<close>

section \<open>Manifest validation\<close>

lemma ball_notin_insert: "(\<forall>x \<in> A. f x \<notin> insert y B) \<longleftrightarrow> (\<forall>x \<in> A. f x \<notin> B) \<and> y \<notin> f ` A"
  by auto

lemma check_shards_Some:
  "check_shards n ids names paths ss = Some ids' \<longleftrightarrow>
     ids' = ids \<union> se_id ` set ss
     \<and> (\<forall>s \<in> set ss. 0 \<le> se_id s \<and> se_id s < n \<and> se_name s \<noteq> [] \<and> rel_path_ok (se_path s))
     \<and> (\<forall>s \<in> set ss. se_id s \<notin> ids) \<and> (\<forall>s \<in> set ss. se_name s \<notin> names) \<and> (\<forall>s \<in> set ss. se_path s \<notin> paths)
     \<and> distinct (map se_id ss) \<and> distinct (map se_name ss) \<and> distinct (map se_path ss)"
proof (induction ss arbitrary: ids names paths)
  case (Cons s ss)
  let ?good = "0 \<le> se_id s \<and> se_id s < n \<and> se_name s \<noteq> [] \<and> rel_path_ok (se_path s)
      \<and> se_id s \<notin> ids \<and> se_name s \<notin> names \<and> se_path s \<notin> paths"
  have step: "check_shards n ids names paths (s # ss) = (if ?good then
      check_shards n (insert (se_id s) ids) (insert (se_name s) names) (insert (se_path s) paths) ss else None)"
    by (simp add: rel_path_ok_def linorder_not_less not_le)
  show ?case
  proof (cases ?good)
    case True
    have "insert (se_id s) ids \<union> se_id ` set ss = ids \<union> se_id ` set (s # ss)" by simp
    then show ?thesis
      unfolding step if_P [OF True] Cons.IH ball_notin_insert using True
      by (simp only: list.set ball_simps distinct.simps list.map set_map image_insert) blast
  next
    case False
    then show ?thesis unfolding step by auto
  qed
qed auto

lemma ids_complete:
  assumes "distinct (map se_id ss)" "int (length ss) = n" "\<forall>s \<in> set ss. 0 \<le> se_id s \<and> se_id s < n"
  shows "se_id ` set ss = {0..<n}"
proof (rule card_subset_eq)
  show "card (se_id ` set ss) = card {0..<n}"
    using assms(1,2) distinct_card [OF assms(1)] by simp
qed (use assms(3) in auto)

lemma fresh_entry_ok:
  assumes "plain_element (prefix @ ''-'' @ pad4 i)"
  shows "rel_path_ok (se_path (fresh_entry prefix i))"
    "se_path (fresh_entry prefix i) = ''shards/'' @ se_name (fresh_entry prefix i)" "se_name (fresh_entry prefix i) \<noteq> []"
proof -
  let ?n = "prefix @ ''-'' @ pad4 i"
  have "plain_element ''shards''" by (simp add: plain_element_def)
  from clean_two [OF this assms] have c: "clean_path (''shards/'' @ ?n) = ''shards/'' @ ?n" by simp
  have p: "se_path (fresh_entry prefix i) = ''shards/'' @ ?n"
    using c assms by (simp add: fresh_entry_def path_join_def plain_element_def Let_def)
  show "rel_path_ok (se_path (fresh_entry prefix i))"
    unfolding p using c by (simp add: rel_path_ok_def is_abs_def path_climbs_def)
  show "se_path (fresh_entry prefix i) = ''shards/'' @ se_name (fresh_entry prefix i)"
    unfolding p by (simp add: fresh_entry_def Let_def)
  show "se_name (fresh_entry prefix i) \<noteq> []" by (simp add: fresh_entry_def Let_def)
qed

lemma fresh_valid:
  assumes "0 < n" "0 < v" "\<forall>c \<in> set prefix. c \<noteq> CHR ''/''"
  shows "validate_sharding (fresh_sharding n v prefix)"
proof -
  let ?f = "fresh_entry prefix" and ?is = "[0..<nat n]"
  note ok = fresh_entry_ok [OF numbered_plain [OF assms(3)]]
  have ids: "map se_id (map ?f ?is) = map int ?is" by (simp add: fresh_entry_def Let_def)
  have name: "se_name (?f i) = se_name (?f j) \<Longrightarrow> i = j" for i j
    using pad4_inj by (simp add: fresh_entry_def Let_def)
  have "distinct (map se_name (map ?f ?is))" using name by (auto simp: distinct_map inj_on_def)
  moreover have "distinct (map se_path (map ?f ?is))" using name ok(2) by (auto simp: distinct_map inj_on_def)
  moreover have "distinct (map se_id (map ?f ?is))" unfolding ids by (simp add: distinct_map inj_on_def)
  moreover have "\<forall>s \<in> set (map ?f ?is). 0 \<le> se_id s \<and> se_id s < n \<and> se_name s \<noteq> [] \<and> rel_path_ok (se_path s)"
    using ok(1,3) by (auto simp: fresh_entry_def Let_def)
  ultimately have "check_shards n {} {} {} (map ?f ?is) = Some (se_id ` set (map ?f ?is))"
    unfolding check_shards_Some by auto
  moreover have "se_id ` set (map ?f ?is) = int ` {0..<nat n}" by (simp add: fresh_entry_def Let_def image_image)
  ultimately show ?thesis using assms by (simp add: validate_sharding_def fresh_sharding_def list_all_iff)
qed

lemma sharding_valid_paths: "validate_sharding m \<Longrightarrow> distinct (map se_path (sm_shards m))"
  unfolding validate_sharding_def
  by (auto simp: check_shards_Some split: if_splits option.splits)

text \<open>The validation of \<open>SHARDING.json\<close> accepts exactly the manifests of version 1 and the FNV hash with
  positive counts whose shard identities are \<open>0, ..., n - 1\<close> once each, in any order, with distinct names
  and distinct, relative, clean paths that do not climb; and it accepts what a first \<open>Open\<close> writes when
  the prefix has no slash.\<close>

theorem sharding_manifest_validation:
  "(validate_sharding m \<longleftrightarrow> sm_version m = 1 \<and> sm_hash m = ''fnv64a'' \<and> 0 < sm_shard_count m \<and> 0 < sm_virtual_nodes m
      \<and> mset (map se_id (sm_shards m)) = mset (map int [0..<nat (sm_shard_count m)])
      \<and> distinct (map se_name (sm_shards m)) \<and> [] \<notin> se_name ` set (sm_shards m)
      \<and> distinct (map se_path (sm_shards m)) \<and> Ball (se_path ` set (sm_shards m)) rel_path_ok)
   \<and> (0 < n \<longrightarrow> 0 < v \<longrightarrow> CHR ''/'' \<notin> set prefix \<longrightarrow> validate_sharding (fresh_sharding n v prefix))"
proof (intro conjI impI)
  let ?ss = "sm_shards m" and ?n = "sm_shard_count m"
  have perm: "mset (map se_id ?ss) = mset (map int [0..<nat ?n]) \<longleftrightarrow>
      int (length ?ss) = ?n \<and> distinct (map se_id ?ss) \<and> (\<forall>s \<in> set ?ss. 0 \<le> se_id s \<and> se_id s < ?n)" if "0 < ?n"
  proof
    assume a: "mset (map se_id ?ss) = mset (map int [0..<nat ?n])"
    have "distinct (map se_id ?ss)" using mset_eq_imp_distinct_iff [OF a, THEN iffD2] by (simp add: distinct_map inj_on_def)
    moreover have "length ?ss = nat ?n" using mset_eq_length [OF a] by simp
    moreover have "se_id ` set ?ss = int ` {0..<nat ?n}" using mset_eq_setD [OF a] by simp
    then have "\<forall>s \<in> set ?ss. se_id s \<in> int ` {0..<nat ?n}" by blast
    then have "\<forall>s \<in> set ?ss. 0 \<le> se_id s \<and> se_id s < ?n" by (force simp: zless_nat_eq_int_zless)
    ultimately show "int (length ?ss) = ?n \<and> distinct (map se_id ?ss) \<and> (\<forall>s \<in> set ?ss. 0 \<le> se_id s \<and> se_id s < ?n)"
      using that by simp
  next
    assume a: "int (length ?ss) = ?n \<and> distinct (map se_id ?ss) \<and> (\<forall>s \<in> set ?ss. 0 \<le> se_id s \<and> se_id s < ?n)"
    have "int ` {0..<nat ?n} = {0..<?n}" using that by (simp add: image_int_atLeastLessThan)
    then show "mset (map se_id ?ss) = mset (map int [0..<nat ?n])"
      using a ids_complete [of ?ss ?n] by (intro set_eq_iff_mset_eq_distinct [THEN iffD1]) (auto simp: distinct_map inj_on_def)
  qed
  have complete: "list_all (\<lambda>i. int i \<in> se_id ` set ?ss) [0..<nat ?n]"
    if "distinct (map se_id ?ss)" "int (length ?ss) = ?n" "\<forall>s \<in> set ?ss. 0 \<le> se_id s \<and> se_id s < ?n"
    using ids_complete [OF that] by (auto simp: list_all_iff)
  show "validate_sharding m \<longleftrightarrow> sm_version m = 1 \<and> sm_hash m = ''fnv64a'' \<and> 0 < ?n \<and> 0 < sm_virtual_nodes m
      \<and> mset (map se_id ?ss) = mset (map int [0..<nat ?n]) \<and> distinct (map se_name ?ss) \<and> [] \<notin> se_name ` set ?ss
      \<and> distinct (map se_path ?ss) \<and> Ball (se_path ` set ?ss) rel_path_ok"
  proof (cases "sm_version m = 1 \<and> sm_hash m = ''fnv64a'' \<and> 0 < ?n \<and> 0 < sm_virtual_nodes m \<and> int (length ?ss) = ?n")
    case True
    then have "validate_sharding m \<longleftrightarrow> (\<exists>ids. check_shards ?n {} {} {} ?ss = Some ids \<and> list_all (\<lambda>i. int i \<in> ids) [0..<nat ?n])"
      by (simp add: validate_sharding_def sharding_version_def hash_algorithm_def split: option.splits)
    then have v: "validate_sharding m \<longleftrightarrow> (\<forall>s \<in> set ?ss. 0 \<le> se_id s \<and> se_id s < ?n \<and> se_name s \<noteq> [] \<and> rel_path_ok (se_path s))
        \<and> distinct (map se_id ?ss) \<and> distinct (map se_name ?ss) \<and> distinct (map se_path ?ss)
        \<and> list_all (\<lambda>i. int i \<in> se_id ` set ?ss) [0..<nat ?n]"
      unfolding check_shards_Some by simp
    have names: "[] \<notin> se_name ` set ?ss \<longleftrightarrow> (\<forall>s \<in> set ?ss. se_name s \<noteq> [])" by force
    have p: "0 < ?n" using True by blast
    show ?thesis unfolding v names perm [OF p] using True complete by blast
  next
    case False
    then show ?thesis
      using perm by (auto simp: validate_sharding_def sharding_version_def hash_algorithm_def)
  qed
qed (use fresh_valid in auto)

theorem sharding_manifest_validation_witness:
  "validate_sharding (fresh_sharding 2 128 ''shard'')"
  by (rule sharding_manifest_validation [of "fresh_sharding 2 128 ''shard''", THEN conjunct2, rule_format]) simp_all

section \<open>The store as an array of engines\<close>

abbreviation engines :: "store \<Rightarrow> engine list" where
  "engines st \<equiv> map sh_engine (ss_shards st)"

definition store_route :: "store \<Rightarrow> bytes \<Rightarrow> nat" where
  "store_route st k = the (shard_index (ss_ring st) k)"

definition store_inv :: "nat \<Rightarrow> (bytes \<rightharpoonup> bytes) \<Rightarrow> store \<Rightarrow> bool" where
  "store_inv n m st \<longleftrightarrow> \<not> ss_closed st \<and> (\<forall>k. shard_index (ss_ring st) k \<noteq> None)
     \<and> engine_kv.array_ok (store_route st) n m (engines st)"

lemma store_inv_shard:
  assumes "store_inv n m st"
  shows "shard_of st k = Some (store_route st k)" "store_route st k < length (ss_shards st)"
proof -
  obtain i where i: "shard_index (ss_ring st) k = Some i" using assms by (auto simp: store_inv_def)
  show "store_route st k < length (ss_shards st)" using assms by (simp add: store_inv_def engine_kv.array_ok_def)
  with i show "shard_of st k = Some (store_route st k)" by (simp add: shard_of_def store_route_def)
qed

lemma set_engine_simps [simp]:
  "ss_ring (set_engine i e st) = ss_ring st" "ss_closed (set_engine i e st) = ss_closed st"
  "store_route (set_engine i e st) = store_route st" "ss_opts (set_engine i e st) = ss_opts st"
  "engines (set_engine i e st) = (engines st)[i := e]"
  by (auto simp: set_engine_def store_route_def [abs_def] map_update list_update_beyond not_less
      intro: nth_equalityI simp: nth_list_update)

lemma store_inv_set:
  "store_inv n m st \<Longrightarrow> engine_kv.array_ok (store_route st) n' m' ((engines st)[i := e])
   \<Longrightarrow> store_inv n' m' (set_engine i e st)"
  by (simp add: store_inv_def)

definition store_write :: "bytes \<Rightarrow> bytes option \<Rightarrow> store \<Rightarrow> shard_error option \<times> store" where
  "store_write k v st = (case v of None \<Rightarrow> store_delete k Write_ok True st | Some x \<Rightarrow> store_put k x Write_ok True st)"

lemma store_write_eq:
  assumes "store_inv n m st" "k \<noteq> []"
  shows "store_write k v st = (case engine_write k v Write_ok True (engines st ! store_route st k) of
      (er, e) \<Rightarrow> (map_option SErrEngine er, set_engine (store_route st k) e st))"
  using assms store_inv_shard [OF assms(1), of k]
  by (cases v) (simp_all add: store_write_def store_put_def store_delete_def engine_write_def store_inv_def)

lemma store_write_ok:
  assumes "store_inv n m st" "n \<le> 2 ^ 29" "store_write k v st = (None, st')"
  shows "store_inv (n + 1) (m(k := v)) st'"
proof -
  have k: "k \<noteq> []"
    using assms(3) by (auto simp: store_write_def store_put_def store_delete_def split: option.splits)
  obtain e where e: "engine_write k v Write_ok True (engines st ! store_route st k) = (None, e)"
      "st' = set_engine (store_route st k) e st"
    using assms(3) by (auto simp: store_write_eq [OF assms(1) k] split: prod.splits)
  have "engine_kv.array_ok (store_route st) n m (engines st)" using assms(1) by (simp add: store_inv_def)
  from engine_kv.array_upd [OF this assms(2) e(1)] show ?thesis
    unfolding e(2) by (rule store_inv_set [OF assms(1)])
qed

lemma store_get_ok:
  assumes "store_inv n m st" "k \<noteq> []"
  shows "\<exists>st'. store_get k st = (Inr (m k), st') \<and> store_inv n m st'"
proof -
  have "engine_kv.array_ok (store_route st) n m (engines st)" using assms(1) by (simp add: store_inv_def)
  then obtain e where e: "engine_get k (engines st ! store_route st k) = (Inr (m k), e)"
      "engine_kv.array_ok (store_route st) n m ((engines st)[store_route st k := e])"
    using engine_kv.array_get by blast
  have "store_get k st = (Inr (m k), set_engine (store_route st k) e st)"
    using assms e(1) store_inv_shard [OF assms(1), of k] by (simp add: store_get_def store_inv_def)
  then show ?thesis using store_inv_set [OF assms(1) e(2)] by blast
qed

subsection \<open>Scan\<close>

lemma scan_shards_concat:
  "map (engine_scan lo hi) (map sh_engine hs) = map Inr rs \<Longrightarrow> scan_shards lo hi hs = Inr (concat rs)"
proof (induction hs arbitrary: rs)
  case (Cons h hs)
  then obtain r rs' where "rs = r # rs'" by (cases rs) auto
  with Cons show ?case by auto
qed simp

lemma merge_distinct:
  assumes "distinct (map kv_key es)" "kv_key ` set es \<inter> fst ` set best = {}"
  shows "foldl merge_scanned best es = best @ map (\<lambda>e. (kv_key e, e)) es"
  using assms
proof (induction es arbitrary: best)
  case (Cons e es)
  have n: "kv_key e \<notin> fst ` set best" using Cons.prems(2) by auto
  then have "map_of best (kv_key e) = None" by (simp add: map_of_eq_None_iff)
  moreover have "AList.update (kv_key e) e best = best @ [(kv_key e, e)]" using n by (induction best) auto
  ultimately have "merge_scanned best e = best @ [(kv_key e, e)]" by (simp add: merge_scanned_def)
  moreover have "foldl merge_scanned (best @ [(kv_key e, e)]) es
      = (best @ [(kv_key e, e)]) @ map (\<lambda>e. (kv_key e, e)) es"
    by (rule Cons.IH) (use Cons.prems in \<open>auto simp: image_iff\<close>)
  ultimately show ?case by simp
qed simp

lemma store_scan_ok:
  assumes "store_inv n m st"
  shows "\<exists>res. store_scan lo hi st = Inr res \<and> scan_result lo hi m res"
proof -
  have "engine_kv.array_ok (store_route st) n m (engines st)" using assms by (simp add: store_inv_def)
  then obtain rs where rs: "map (engine_scan lo hi) (engines st) = map Inr rs" "distinct (map kv_key (concat rs))"
      "\<forall>k v. (k, v) \<in> (\<lambda>e. (kv_key e, kv_value e)) ` set (concat rs) \<longleftrightarrow> in_range lo hi k \<and> m k = Some v"
    by (rule engine_kv.array_scan)
  have "map snd (foldl merge_scanned [] (concat rs)) = concat rs"
    using merge_distinct [OF rs(2), of "[]"] by (simp add: comp_def)
  then have "store_scan lo hi st = Inr (sort_key kv_key (concat rs))"
    using assms scan_shards_concat [OF rs(1)] by (simp add: store_scan_def store_inv_def)
  moreover have "distinct (map kv_key (sort_key kv_key (concat rs)))"
    using rs(2) by (simp add: distinct_map)
  then have "strictly_sorted (map kv_key (sort_key kv_key (concat rs)))"
    by (simp add: strictly_sorted_def strict_sorted_iff)
  ultimately show ?thesis using rs(3) by (auto simp: scan_result_def)
qed

subsection \<open>Flush and Compact\<close>

lemma each_shard_engines:
  "each_shard f i hs = (res, hs') \<Longrightarrow> map sh_info hs' = map sh_info hs
   \<and> (\<exists>er. each_engine f i (map sh_engine hs) = (er, map sh_engine hs'))"
  by (induction hs arbitrary: i res hs') (fastforce split: prod.splits option.splits)+

lemma each_shard_props:
  assumes "each_shard f i hs = (res, hs')"
  shows "length hs' = length hs \<and> map sh_info hs' = map sh_info hs
    \<and> (\<forall>j < length hs. sh_engine (hs' ! j) = sh_engine (hs ! j)
         \<or> sh_engine (hs' ! j) = snd (f (i + j) (sh_engine (hs ! j))))"
proof -
  obtain er where e: "map sh_info hs' = map sh_info hs" "each_engine f i (map sh_engine hs) = (er, map sh_engine hs')"
    using each_shard_engines [OF assms] by blast
  then have "length hs' = length hs" by (metis length_map)
  then show ?thesis using e each_engine_props [OF e(2)] by simp
qed

lemma store_tidy_ok:
  assumes "store_inv n m st" "n \<le> 2 ^ 29" "\<forall>e \<in> set (engines st'). \<not> en_closed e"
    and "store_flush c r faults st = (res, st') \<or> store_compact c r faults st = (res, st')"
  shows "store_inv (n + 1) m st'"
proof -
  have open_st: "\<not> ss_closed st" using assms(1) by (simp add: store_inv_def)
  obtain hs where hs: "st' = st\<lparr>ss_shards := hs\<rparr>"
      "each_shard (\<lambda>i. engine_flush c r (faults i)) 0 (ss_shards st) = (res, hs)
       \<or> each_shard (\<lambda>i. engine_compact c r (faults i)) 0 (ss_shards st) = (res, hs)"
    using assms(4) open_st by (auto simp: store_flush_def store_compact_def split: prod.splits)
  have len: "length (map sh_engine hs) = length (engines st)"
    using hs(2) each_shard_props by fastforce
  have cl: "\<not> en_closed (map sh_engine hs ! j)" if "j < length (engines st)" for j
    using assms(3) that len by (auto simp: hs(1))
  have step: "map sh_engine hs ! j = engines st ! j \<or> engine_tidy (engines st ! j) (map sh_engine hs ! j)"
    if "j < length (engines st)" for j
    using hs(2) each_shard_props [of _ 0 "ss_shards st" res hs] cl [OF that] that len
    unfolding engine_tidy_def by fastforce
  have "engine_kv.array_ok (store_route st) n m (engines st)" using assms(1) by (simp add: store_inv_def)
  from engine_kv.array_tidy [OF this assms(2) len step]
  show ?thesis using assms(1) by (simp add: store_inv_def hs(1) store_route_def [abs_def])
qed

section \<open>Sessions\<close>

datatype store_op = S_put bytes bytes | S_delete bytes | S_flush "nat \<Rightarrow> io_fault option" | S_compact "nat \<Rightarrow> io_fault option"

fun store_step ::
    "(u64 \<Rightarrow> float64 \<Rightarrow> u64) \<Rightarrow> (u64 \<Rightarrow> u64 \<Rightarrow> int) \<Rightarrow> store_op \<Rightarrow> store \<Rightarrow> shard_error option \<times> store" where
  "store_step c r (S_put k v) st = store_put k v Write_ok True st"
| "store_step c r (S_delete k) st = store_delete k Write_ok True st"
| "store_step c r (S_flush fs) st = store_flush c r fs st"
| "store_step c r (S_compact fs) st = store_compact c r fs st"

fun store_is_write :: "store_op \<Rightarrow> bool" where
  "store_is_write (S_put k v) = True" | "store_is_write (S_delete k) = True" | "store_is_write _ = False"

text \<open>The writes succeed; flushes and compactions may fail, shard by shard.\<close>

fun store_run ::
    "(u64 \<Rightarrow> float64 \<Rightarrow> u64) \<Rightarrow> (u64 \<Rightarrow> u64 \<Rightarrow> int) \<Rightarrow> store_op list \<Rightarrow> store \<Rightarrow> store option" where
  "store_run c r [] st = Some st"
| "store_run c r (op # ops) st =
     (case store_step c r op st of
        (res, st') \<Rightarrow> if store_is_write op \<and> res \<noteq> None then None else store_run c r ops st')"

fun store_map_step :: "store_op \<Rightarrow> (bytes \<rightharpoonup> bytes) \<Rightarrow> (bytes \<rightharpoonup> bytes)" where
  "store_map_step (S_put k v) m = m(k \<mapsto> v)"
| "store_map_step (S_delete k) m = m(k := None)"
| "store_map_step _ m = m"

definition engines_open :: "store \<Rightarrow> bool" where
  "engines_open st \<longleftrightarrow> (\<forall>e \<in> set (engines st). \<not> en_closed e)"

lemma engines_open_nth: "engines_open st \<longleftrightarrow> (\<forall>j < length (ss_shards st). \<not> en_closed (sh_engine (ss_shards st ! j)))"
  by (simp add: engines_open_def all_set_conv_all_nth)

text \<open>What a step does to each engine: nothing, or one engine operation.\<close>

lemma store_step_engines:
  assumes "store_step c r op st = (res, st')"
  shows "length (ss_shards st') = length (ss_shards st) \<and> map sh_info (ss_shards st') = map sh_info (ss_shards st)
    \<and> ss_ring st' = ss_ring st \<and> ss_closed st' = ss_closed st
    \<and> (\<forall>j < length (ss_shards st). sh_engine (ss_shards st' ! j) = sh_engine (ss_shards st ! j)
        \<or> (\<exists>eop. sh_engine (ss_shards st' ! j) = snd (engine_step c r eop (sh_engine (ss_shards st ! j)))))"
    (is "?P st'")
proof -
  have one: "?P (set_engine i e st)" if "e = snd (engine_step c r eop (sh_engine (ss_shards st ! i)))" for i e eop
    using that by (cases "i < length (ss_shards st)")
      (auto simp: set_engine_def nth_list_update map_update list_update_same_conv intro!: exI [of _ eop] nth_equalityI)
  have all: "?P (st\<lparr>ss_shards := hs\<rparr>)" if "each_shard f 0 (ss_shards st) = (res, hs)"
      "\<And>i e. \<exists>eop. snd (f i e) = snd (engine_step c r eop e)" for f hs
    using each_shard_props [OF that(1)] that(2) by simp metis
  have same: "?P st" by simp
  show ?thesis
  proof (cases op)
    case (S_put k v)
    then consider "st' = st" | i where "st' = set_engine i (snd (engine_step c r (Put_op k v) (sh_engine (ss_shards st ! i)))) st"
      using assms by (auto simp: store_put_def case_prod_beta split: if_splits option.splits)
    then show ?thesis using same one [OF refl] by cases blast+
  next
    case (S_delete k)
    then consider "st' = st" | i where "st' = set_engine i (snd (engine_step c r (Delete_op k) (sh_engine (ss_shards st ! i)))) st"
      using assms by (auto simp: store_delete_def case_prod_beta split: if_splits option.splits)
    then show ?thesis using same one [OF refl] by cases blast+
  next
    case (S_flush fs)
    have f: "\<exists>eop. snd (engine_flush c r (fs i) e) = snd (engine_step c r eop e)" for i e
      by (rule exI [of _ "Flush_op (fs i)"]) simp
    show ?thesis
    proof (cases "ss_closed st")
      case False
      obtain hs where "each_shard (\<lambda>i. engine_flush c r (fs i)) 0 (ss_shards st) = (res, hs)" "st' = st\<lparr>ss_shards := hs\<rparr>"
        using assms S_flush False by (auto simp: store_flush_def split: prod.splits)
      then show ?thesis using all [where f = "\<lambda>i. engine_flush c r (fs i)"] f by blast
    qed (use assms S_flush same in \<open>simp add: store_flush_def\<close>)
  next
    case (S_compact fs)
    have f: "\<exists>eop. snd (engine_compact c r (fs i) e) = snd (engine_step c r eop e)" for i e
      by (rule exI [of _ "Compact_op (fs i)"]) simp
    show ?thesis
    proof (cases "ss_closed st")
      case False
      obtain hs where "each_shard (\<lambda>i. engine_compact c r (fs i)) 0 (ss_shards st) = (res, hs)" "st' = st\<lparr>ss_shards := hs\<rparr>"
        using assms S_compact False by (auto simp: store_compact_def split: prod.splits)
      then show ?thesis using all [where f = "\<lambda>i. engine_compact c r (fs i)"] f by blast
    qed (use assms S_compact same in \<open>simp add: store_compact_def\<close>)
  qed
qed

lemma store_step_open:
  assumes "store_step c r op st = (res, st')" "engines_open st'"
  shows "engines_open st"
proof -
  have cl: "en_closed e \<Longrightarrow> en_closed (snd (engine_step c r eop e))" for e eop
    using closed_step [of e c r eop] by (metis prod.collapse)
  show ?thesis
    using store_step_engines [OF assms(1)] assms(2) cl unfolding engines_open_nth by metis
qed

lemma store_run_open: "store_run c r ops st = Some st' \<Longrightarrow> engines_open st' \<Longrightarrow> engines_open st"
proof (induction ops arbitrary: st)
  case (Cons op ops)
  obtain res st1 where s: "store_step c r op st = (res, st1)" by fastforce
  then have "store_run c r ops st1 = Some st'" using Cons.prems(1) by (auto split: if_splits)
  then have "engines_open st1" using Cons by blast
  then show ?case by (rule store_step_open [OF s])
qed simp

lemma store_step_inv:
  assumes "store_inv n m st" "n \<le> 2 ^ 29" "store_step c r op st = (res, st')" "store_is_write op \<longrightarrow> res = None" "engines_open st'"
  shows "store_inv (n + 1) (store_map_step op m) st'"
proof (cases op)
  case (S_put k v)
  then show ?thesis using store_write_ok [OF assms(1,2), of k "Some v" st'] assms by (simp add: store_write_def)
next
  case (S_delete k)
  then show ?thesis using store_write_ok [OF assms(1,2), of k None st'] assms by (simp add: store_write_def)
next
  case (S_flush fs)
  then show ?thesis
    using store_tidy_ok [OF assms(1,2), of st' c r fs res] assms(3,5) by (simp add: engines_open_def)
next
  case (S_compact fs)
  then show ?thesis
    using store_tidy_ok [OF assms(1,2), of st' c r fs res] assms(3,5) by (simp add: engines_open_def)
qed

lemma store_run_inv:
  assumes "store_inv n m st" "n + length ops \<le> 2 ^ 29" "store_run c r ops st = Some st'" "engines_open st'"
  shows "store_inv (n + length ops) (fold store_map_step ops m) st'"
  using assms
proof (induction ops arbitrary: n m st)
  case (Cons op ops)
  obtain res st1 where s: "store_step c r op st = (res, st1)" by fastforce
  then have r: "store_is_write op \<longrightarrow> res = None" "store_run c r ops st1 = Some st'"
    using Cons.prems(3) by (auto split: if_splits)
  have "store_inv (n + 1) (store_map_step op m) st1"
    using store_step_inv [OF Cons.prems(1) _ s r(1) store_run_open [OF r(2) Cons.prems(4)]] Cons.prems(2) by simp
  then show ?case using Cons.IH [OF _ _ r(2)] Cons.prems(2,4) by fastforce
qed simp

section \<open>A first opening\<close>

definition empty_store_disk :: store_disk where
  "empty_store_disk = \<lparr>sd_manifest = No_file, sd_engines = (\<lambda>_. fresh_disk)\<rparr>"

text \<open>The handle of a manifest entry.\<close>

definition handle_of :: "path \<Rightarrow> shard_entry \<Rightarrow> shard_handle \<Rightarrow> bool" where
  "handle_of dir s h \<longleftrightarrow> sh_info h = \<lparr>si_id = se_id s, si_name = se_name s, si_path = se_path s\<rparr>
     \<and> en_opts (sh_engine h) = engine_opts_at dir (se_path s)"

lemma open_shards_fresh:
  assumes "dir \<noteq> []" "distinct (map se_path ss)" "\<forall>s \<in> set ss. D (se_path s) = fresh_disk"
  shows "\<exists>hs D'. open_shards None dir i ss D = (Inr hs, D') \<and> list_all2 (handle_of dir) ss hs
    \<and> (\<forall>h \<in> set hs. engine_ok 0 Map.empty (sh_engine h))"
  using assms
proof (induction ss arbitrary: i D)
  case (Cons s ss)
  obtain e d where e: "engine_open None (engine_opts_for dir (se_path s)) fresh_disk = (Inr e, d)" "engine_ok 0 Map.empty e"
      "en_opts e = engine_opts_at dir (se_path s)"
    using open_engine_fresh [OF assms(1)] by blast
  have "\<forall>t \<in> set ss. (D(se_path s := d)) (se_path t) = fresh_disk" using Cons.prems(2,3) by (auto simp: image_iff)
  then have "\<exists>hs D'. open_shards None dir (i + 1) ss (D(se_path s := d)) = (Inr hs, D') \<and> list_all2 (handle_of dir) ss hs
      \<and> (\<forall>h \<in> set hs. engine_ok 0 Map.empty (sh_engine h))"
    using Cons.prems(2) by (intro Cons.IH [OF assms(1)]) simp_all
  then obtain hs D' where "open_shards None dir (i + 1) ss (D(se_path s := d)) = (Inr hs, D')"
      "list_all2 (handle_of dir) ss hs" "\<forall>h \<in> set hs. engine_ok 0 Map.empty (sh_engine h)"
    by blast
  moreover have "handle_of dir s \<lparr>sh_info = \<lparr>si_id = se_id s, si_name = se_name s, si_path = se_path s\<rparr>, sh_engine = e\<rparr>"
    using e(3) by (simp add: handle_of_def)
  ultimately show ?case using e Cons.prems(3) by (simp add: engine_fault_def)
qed simp

lemma new_ring_route:
  assumes "0 < n" "0 < v"
  shows "shard_index (new_ring n v) k \<noteq> None" "the (shard_index (new_ring n v) k) < nat n"
proof -
  obtain t where "shard_index (new_ring n v) k = Some (rt_shard t)" "int (rt_shard t) < n"
      "clockwise_first rt_hash (fnv1a64 k) {ring_token_of i j |i j. int i < n \<and> int j < v} t"
    by (rule new_ring_lookup [OF assms])
  then show "shard_index (new_ring n v) k \<noteq> None" "the (shard_index (new_ring n v) k) < nat n"
    by (simp_all add: zless_nat_eq_int_zless)
qed

text \<open>The options and the manifest of a first opening.\<close>

definition first_options :: "store_options \<Rightarrow> store_options" where
  "first_options o' = o'\<lparr>so_prefix := (if so_prefix o' = [] then default_shard_prefix else so_prefix o'),
     so_virtual_nodes := (if so_virtual_nodes o' \<le> 0 then default_virtual_nodes else so_virtual_nodes o')\<rparr>"

definition first_manifest :: "store_options \<Rightarrow> sharding_manifest" where
  "first_manifest o' = fresh_sharding (so_shard_count o') (so_virtual_nodes (first_options o')) (so_prefix (first_options o'))"

lemma store_open_first:
  assumes "store_open None o' empty_store_disk = (Inr st, d)"
  shows "store_inv 0 Map.empty st" "sd_manifest d = Json_file (first_manifest o')" "validate_sharding (first_manifest o')"
    "ss_ring st = new_ring (so_shard_count o') (so_virtual_nodes (first_options o'))"
    "list_all2 (handle_of (so_dir o')) (sm_shards (first_manifest o')) (ss_shards st)" "so_dir o' \<noteq> []"
    "so_shard_count o' > 0" "ring_fits (so_shard_count o') (so_virtual_nodes (first_options o'))"
proof -
  let ?m = "first_manifest o'" and ?o = "first_options o'"
  have o: "so_dir o' \<noteq> []" "so_shard_count o' > 0"
    using assms by (auto simp: store_open_def empty_store_disk_def Let_def split: if_splits)
  have w: "write_sharding False ?m empty_store_disk = (None, empty_store_disk\<lparr>sd_manifest := Json_file ?m\<rparr>)"
    and valid: "validate_sharding ?m" and ow: "open_with None ?o ?m (empty_store_disk\<lparr>sd_manifest := Json_file ?m\<rparr>) = (Inr st, d)"
    using assms o by (auto simp: store_open_def empty_store_disk_def first_manifest_def first_options_def write_sharding_def Let_def
        split: if_splits prod.splits option.splits)
  show "so_dir o' \<noteq> []" "so_shard_count o' > 0" "validate_sharding ?m" by (rule o valid)+
  have v: "0 < so_virtual_nodes ?o" by (simp add: first_options_def default_virtual_nodes_def)
  have dis: "distinct (map se_path (sm_shards ?m))" using valid sharding_valid_paths by blast
  obtain hs D' where hs: "open_shards None (so_dir o') 0 (sm_shards ?m) (\<lambda>_. fresh_disk) = (Inr hs, D')"
      "list_all2 (handle_of (so_dir o')) (sm_shards ?m) hs" "\<forall>h \<in> set hs. engine_ok 0 Map.empty (sh_engine h)"
    using open_shards_fresh [OF o(1) dis, of "\<lambda>_. fresh_disk" 0] by auto
  have sd: "so_dir ?o = so_dir o'" "so_shard_count ?o = so_shard_count o'" by (simp_all add: first_options_def)
  have st: "st = \<lparr>ss_opts = ?o, ss_ring = new_ring (so_shard_count o') (so_virtual_nodes ?o), ss_shards = hs, ss_closed = False\<rparr>"
    "sd_manifest d = Json_file ?m"
    using ow hs(1) sd by (auto simp: open_with_def empty_store_disk_def Let_def split: if_splits)
  show "ring_fits (so_shard_count o') (so_virtual_nodes ?o)" using ow sd by (auto simp: open_with_def split: if_splits)
  show "sd_manifest d = Json_file ?m" by (rule st(2))
  show "ss_ring st = new_ring (so_shard_count o') (so_virtual_nodes ?o)" by (simp add: st(1))
  show "list_all2 (handle_of (so_dir o')) (sm_shards ?m) (ss_shards st)" using hs(2) by (simp add: st(1))
  have len: "length hs = nat (so_shard_count o')"
    using list_all2_lengthD [OF hs(2)] by (simp add: first_manifest_def fresh_sharding_def)
  have "engine_kv.part r i Map.empty = Map.empty" for r i by (simp add: engine_kv.part_def [abs_def])
  then show "store_inv 0 Map.empty st"
    using hs(3) new_ring_route [OF o(2) v] len
    by (simp add: store_inv_def st(1) store_route_def [abs_def] engine_kv.array_ok_def)
qed

text \<open>C3: the sharded store refines one finite map. From a first \<open>Open\<close>, run any writes that succeed, with flushes
  and compactions of all shards in between that may fail in any shard at any I/O step: while no shard's
  engine has been closed by such a failure, \<open>Get\<close> of a key is the value of its last write and \<open>Scan\<close> is the
  map's part in the range in strictly increasing key order, though the keys are spread over the shards.\<close>

theorem store_session_refines_map:
  assumes "store_open None o' empty_store_disk = (Inr st0, d)" "store_run c r ops st0 = Some st" "engines_open st"
    and "length ops \<le> 2 ^ 29" "k \<noteq> []"
  shows "fst (store_get k st) = Inr (fold store_map_step ops Map.empty k)
    \<and> (\<exists>res. store_scan lo hi st = Inr res \<and> scan_result lo hi (fold store_map_step ops Map.empty) res)"
proof -
  have "store_inv (0 + length ops) (fold store_map_step ops Map.empty) st"
    using store_run_inv [OF store_open_first(1) [OF assms(1)] _ assms(2,3)] assms(4) by simp
  then show ?thesis using store_get_ok [OF _ assms(5)] store_scan_ok by fastforce
qed

section \<open>Reopening\<close>

lemma store_step_handles:
  assumes "store_step c r op st = (res, st')" "list_all2 (handle_of dir) ss (ss_shards st)"
  shows "list_all2 (handle_of dir) ss (ss_shards st')"
proof (rule list_all2_all_nthI)
  note se = store_step_engines [OF assms(1)]
  show "length ss = length (ss_shards st')" using se list_all2_lengthD [OF assms(2)] by simp
  fix j assume j: "j < length ss"
  then have h: "handle_of dir (ss ! j) (ss_shards st ! j)" "j < length (ss_shards st)"
    using assms(2) by (auto simp: list_all2_conv_all_nth)
  have "sh_info (ss_shards st' ! j) = sh_info (ss_shards st ! j)"
    using se h(2) by (metis nth_map)
  moreover have "en_opts (sh_engine (ss_shards st' ! j)) = en_opts (sh_engine (ss_shards st ! j))"
    using se h(2) engine_step_opts by metis
  ultimately show "handle_of dir (ss ! j) (ss_shards st' ! j)" using h(1) by (simp add: handle_of_def)
qed

lemma store_run_static:
  "store_run c r ops st = Some st' \<Longrightarrow> list_all2 (handle_of dir) ss (ss_shards st)
   \<Longrightarrow> list_all2 (handle_of dir) ss (ss_shards st') \<and> ss_ring st' = ss_ring st"
proof (induction ops arbitrary: st)
  case (Cons op ops)
  obtain res st1 where s: "store_step c r op st = (res, st1)" by fastforce
  then have "store_run c r ops st1 = Some st'" using Cons.prems(1) by (auto split: if_splits)
  then show ?case
    using Cons.IH store_step_handles [OF s Cons.prems(2)] store_step_engines [OF s] by simp
qed simp

text \<open>The directory a store leaves behind.\<close>

definition store_directory :: "store_disk \<Rightarrow> store \<Rightarrow> store_disk" where
  "store_directory d st =
     d\<lparr>sd_engines := foldl (\<lambda>D h. D(si_path (sh_info h) := directory (sh_engine h))) (sd_engines d) (ss_shards st)\<rparr>"

lemma foldl_upd_distinct:
  assumes "distinct (map f hs)" "j < length hs"
  shows "foldl (\<lambda>D h. D(f h := g h)) D hs (f (hs ! j)) = g (hs ! j)"
  using assms
proof (induction hs arbitrary: j rule: rev_induct)
  case (snoc h hs)
  show ?case
  proof (cases "j = length hs")
    case False
    then have j: "j < length hs" "hs ! j \<in> set hs" using snoc.prems(2) by auto
    have "f h \<notin> f ` set hs" using snoc.prems(1) by simp
    then have ne: "f (hs ! j) \<noteq> f h" using imageI [OF j(2), of f] by metis
    have d: "distinct (map f hs)" using snoc.prems(1) by simp
    show ?thesis using snoc.IH [OF d j(1)] ne j(1) by (simp add: nth_append)
  qed simp
qed simp

lemma open_shards_again:
  assumes "dir \<noteq> []" "distinct (map se_path ss)" "list_all2 (handle_of dir) ss hs"
    and "\<forall>h \<in> set hs. engine_inv (sh_engine h) \<and> D (si_path (sh_info h)) = directory (sh_engine h)"
  shows "\<exists>hs' D'. open_shards None dir i ss D = (Inr hs', D') \<and>
    list_all2 (\<lambda>h h'. engine_inv (sh_engine h') \<and> engine_view (sh_engine h') = engine_view (sh_engine h)) hs hs'"
  using assms
proof (induction ss arbitrary: i D hs)
  case (Cons s ss)
  obtain h hs1 where hs: "hs = h # hs1" "handle_of dir s h" "list_all2 (handle_of dir) ss hs1"
    using Cons.prems(3) by (auto simp: list_all2_Cons1)
  have h: "se_path s = si_path (sh_info h)" "en_opts (sh_engine h) = engine_opts_at dir (se_path s)"
    using hs(2) by (simp_all add: handle_of_def)
  obtain e d where e: "engine_open None (engine_opts_for dir (se_path s)) (directory (sh_engine h)) = (Inr e, d)"
      "engine_inv e" "engine_view e = engine_view (sh_engine h)"
    using reopen_engine [OF assms(1) _ h(2)] Cons.prems(4) hs(1) by auto
  have paths: "map (\<lambda>h. si_path (sh_info h)) hs1 = map se_path ss"
    using hs(3) by (auto simp: handle_of_def list_all2_conv_all_nth intro: nth_equalityI)
  have "si_path (sh_info h') \<noteq> se_path s" if "h' \<in> set hs1" for h'
  proof -
    have "si_path (sh_info h') \<in> set (map se_path ss)" using that paths by (metis image_eqI list.set_map)
    then show ?thesis using Cons.prems(2) by auto
  qed
  then have "\<forall>h' \<in> set hs1. engine_inv (sh_engine h') \<and> (D(se_path s := d)) (si_path (sh_info h')) = directory (sh_engine h')"
    using Cons.prems(4) hs(1) by simp
  then have "\<exists>hs' D'. open_shards None dir (i + 1) ss (D(se_path s := d)) = (Inr hs', D') \<and>
      list_all2 (\<lambda>h h'. engine_inv (sh_engine h') \<and> engine_view (sh_engine h') = engine_view (sh_engine h)) hs1 hs'"
    using Cons.prems(2) by (intro Cons.IH [OF assms(1) _ hs(3)]) simp_all
  then obtain hs' D' where "open_shards None dir (i + 1) ss (D(se_path s := d)) = (Inr hs', D')"
      "list_all2 (\<lambda>h h'. engine_inv (sh_engine h') \<and> engine_view (sh_engine h') = engine_view (sh_engine h)) hs1 hs'"
    by blast
  moreover have "D (se_path s) = directory (sh_engine h)" using Cons.prems(4) hs(1) h(1) by simp
  ultimately show ?case using e by (simp add: engine_fault_def hs(1))
qed auto

lemma close_shards_handles:
  "close_shards first hs = (res, hs') \<Longrightarrow>
   map sh_info hs' = map sh_info hs \<and> map (\<lambda>h. directory (sh_engine h)) hs' = map (\<lambda>h. directory (sh_engine h)) hs"
proof (induction hs arbitrary: first res hs')
  case (Cons h hs)
  obtain er e where c: "engine_close (sh_engine h) = (er, e)" by fastforce
  have "directory e = directory (sh_engine h)" using directory_close [of "sh_engine h"] c by simp
  then show ?case using Cons c by (fastforce split: prod.splits)
qed simp

lemma store_directory_close: "store_directory d (snd (store_close st)) = store_directory d st"
proof -
  have fold: "foldl (\<lambda>D h. D(si_path (sh_info h) := directory (sh_engine h))) D hs
      = foldl (\<lambda>D (p, x). D(p := x)) D (zip (map (\<lambda>h. si_path (sh_info h)) hs) (map (\<lambda>h. directory (sh_engine h)) hs))" for D hs
    by (induction hs arbitrary: D) simp_all
  obtain res hs' where c: "close_shards None (ss_shards st) = (res, hs')" by fastforce
  have "map sh_info hs' = map sh_info (ss_shards st)" using close_shards_handles [OF c] by blast
  then have "map (si_path \<circ> sh_info) hs' = map (si_path \<circ> sh_info) (ss_shards st)" by (metis map_map)
  then show ?thesis
    using close_shards_handles [OF c] c by (simp add: store_directory_def store_close_def fold comp_def)
qed

text \<open>Options that a reopening accepts: a count is 0 or the one of the manifest.\<close>

definition reopen_options_ok :: "store_options \<Rightarrow> store_options \<Rightarrow> bool" where
  "reopen_options_ok o' o'' \<longleftrightarrow> so_dir o'' = so_dir o' \<and> so_shard_count o'' \<in> {0, so_shard_count o'}
     \<and> so_virtual_nodes o'' \<in> {0, so_virtual_nodes (first_options o')}"

text \<open>C4: the sharded store is durable. From a first \<open>Open\<close>, run any successful writes with flushes and
  compactions that may fail, close the store, and open its directory again with counts that are 0 or those
  of the first \<open>Open\<close>: the reopening succeeds, and \<open>Get\<close> of every key is the value of its last write; with
  any other count the reopening is refused and touches nothing.\<close>

theorem store_reopen_durable:
  assumes "store_open None o' empty_store_disk = (Inr st0, d)" "store_run c r ops st0 = Some st" "engines_open st"
    and "length ops \<le> 2 ^ 29" "k \<noteq> []" "so_dir o'' = so_dir o'"
  shows "if reopen_options_ok o' o''
    then \<exists>st' d'. store_open None o'' (store_directory d (snd (store_close st))) = (Inr st', d')
      \<and> fst (store_get k st') = Inr (fold store_map_step ops Map.empty k)
    else store_open None o'' (store_directory d st) = (Inl SErrMismatch, store_directory d st)"
proof -
  let ?m = "first_manifest o'" and ?d = "store_directory d st" and ?map = "fold store_map_step ops Map.empty"
  note first = store_open_first [OF assms(1)]
  have man: "sd_manifest ?d = Json_file ?m" by (simp add: store_directory_def first(2))
  have counts: "sm_shard_count ?m = so_shard_count o'" "sm_virtual_nodes ?m = so_virtual_nodes (first_options o')"
    by (simp_all add: first_manifest_def fresh_sharding_def)
  show ?thesis
  proof (cases "reopen_options_ok o' o''")
    case False
    then show ?thesis
      using assms(6) man first(3,6) counts
      by (auto simp: store_open_def read_sharding_def Let_def reopen_options_ok_def)
  next
    case True
    have inv: "store_inv (length ops) ?map st"
      using store_run_inv [OF first(1) _ assms(2,3)] assms(4) by simp
    have st: "list_all2 (handle_of (so_dir o')) (sm_shards ?m) (ss_shards st)" "ss_ring st = ss_ring st0"
      using store_run_static [OF assms(2) first(5)] by auto
    have len: "length (ss_shards st) = length (sm_shards ?m)" using list_all2_lengthD [OF st(1)] by simp
    have dis: "distinct (map se_path (sm_shards ?m))" by (rule sharding_valid_paths [OF first(3)])
    have paths: "map (\<lambda>h. si_path (sh_info h)) (ss_shards st) = map se_path (sm_shards ?m)"
      using st(1) by (auto simp: handle_of_def list_all2_conv_all_nth intro: nth_equalityI)
    have eng: "engine_inv (sh_engine (ss_shards st ! j))" if "j < length (ss_shards st)" for j
      using inv that by (auto simp: store_inv_def engine_kv.array_ok_def engine_ok_def session_inv_def)
    have "\<forall>h \<in> set (ss_shards st). engine_inv (sh_engine h) \<and> sd_engines ?d (si_path (sh_info h)) = directory (sh_engine h)"
      using foldl_upd_distinct [of "\<lambda>h. si_path (sh_info h)" "ss_shards st" _ "\<lambda>h. directory (sh_engine h)"] dis eng paths
      by (auto simp: store_directory_def in_set_conv_nth)
    then obtain hs' D' where hs': "open_shards None (so_dir o') 0 (sm_shards ?m) (sd_engines ?d) = (Inr hs', D')"
      "list_all2 (\<lambda>h h'. engine_inv (sh_engine h') \<and> engine_view (sh_engine h') = engine_view (sh_engine h)) (ss_shards st) hs'"
      using open_shards_again [OF first(6) dis st(1), of "sd_engines ?d" 0] by blast
    let ?o = "o''\<lparr>so_shard_count := so_shard_count o', so_virtual_nodes := so_virtual_nodes (first_options o'), so_prefix := sm_prefix ?m\<rparr>"
    let ?st = "\<lparr>ss_opts = ?o, ss_ring = ss_ring st, ss_shards = hs', ss_closed = False\<rparr>"
    have op: "store_open None o'' ?d = (Inr ?st, ?d\<lparr>sd_engines := D'\<rparr>)"
      using True assms(6) man first(3,4,6,8) counts hs'(1) st(2)
      by (auto simp: store_open_def read_sharding_def Let_def reopen_options_ok_def open_with_def)
    let ?i = "store_route st k"
    have i: "shard_of st k = Some ?i" "?i < length (ss_shards st)" using store_inv_shard [OF inv] by auto
    have "shard_of ?st k = Some ?i"
      using i list_all2_lengthD [OF hs'(2)] by (simp add: shard_of_def split: option.splits if_splits)
    moreover have "engine_inv (sh_engine (hs' ! ?i)) \<and> engine_view (sh_engine (hs' ! ?i)) = engine_view (sh_engine (ss_shards st ! ?i))"
      using hs'(2) i(2) by (simp add: list_all2_conv_all_nth)
    moreover have "engine_view (sh_engine (ss_shards st ! ?i)) k = ?map k"
      using inv i(2) by (simp add: store_inv_def engine_kv.array_ok_def engine_ok_def session_inv_def engine_kv.part_def)
    ultimately have "fst (store_get k ?st) = Inr (?map k)"
      using engine_get_correct(1) [of "sh_engine (hs' ! ?i)" k] assms(5)
      by (auto simp: store_get_def engine_inv_def split: prod.splits)
    then show ?thesis using op True by (simp add: store_directory_close)
  qed
qed

section \<open>Concrete runs\<close>

lemma store_open_succeeds:
  assumes "so_dir o' \<noteq> []" "0 < so_shard_count o'" "CHR ''/'' \<notin> set (so_prefix o')"
    and fit: "40 * so_shard_count o' \<le> 2 ^ 48" "ring_fits (so_shard_count o') (so_virtual_nodes (first_options o'))"
  shows "\<exists>st d. store_open None o' empty_store_disk = (Inr st, d)"
proof -
  let ?m = "first_manifest o'" and ?o = "first_options o'"
  have valid: "validate_sharding ?m"
    unfolding first_manifest_def
    by (rule fresh_valid) (use assms in \<open>auto simp: first_options_def default_virtual_nodes_def default_shard_prefix_def\<close>)
  obtain hs D' where "open_shards None (so_dir o') 0 (sm_shards ?m) (\<lambda>_. fresh_disk) = (Inr hs, D')"
    using open_shards_fresh [OF assms(1) sharding_valid_paths [OF valid], of "\<lambda>_. fresh_disk" 0] by auto
  then have "open_with None ?o ?m (empty_store_disk\<lparr>sd_manifest := Json_file ?m\<rparr>) =
      (Inr \<lparr>ss_opts = ?o, ss_ring = new_ring (so_shard_count o') (so_virtual_nodes ?o), ss_shards = hs, ss_closed = False\<rparr>,
       empty_store_disk\<lparr>sd_manifest := Json_file ?m, sd_engines := D'\<rparr>)"
    using fit(2) by (simp add: open_with_def empty_store_disk_def first_options_def)
  moreover have "store_open None o' empty_store_disk = open_with None ?o ?m (empty_store_disk\<lparr>sd_manifest := Json_file ?m\<rparr>)"
    using assms(1,2) fit(1) valid
    by (auto simp: store_open_def empty_store_disk_def write_sharding_def first_manifest_def first_options_def Let_def)
  ultimately show ?thesis by simp
qed

lemma store_write_succeeds:
  assumes "store_inv n m st" "list_all2 (handle_of dir) ss (ss_shards st)" "k \<noteq> []" "length k + length x \<le> 1000"
  shows "\<exists>st'. store_put k x Write_ok True st = (None, st')"
proof -
  let ?i = "store_route st k" and ?e = "engines st ! store_route st k"
  have i: "?i < length (ss_shards st)" using store_inv_shard [OF assms(1)] by blast
  then have e: "engine_inv ?e"
    using assms(1) by (simp add: store_inv_def engine_kv.array_ok_def engine_ok_def session_inv_def)
  obtain rel where "en_opts ?e = engine_opts_at dir rel"
    using assms(2) i by (auto simp: list_all2_conv_all_nth handle_of_def)
  then have "unat (eff_max (wal_opts_of (en_opts ?e))) \<ge> 2000"
    by (simp add: engine_opts_at_def effective_options_def engine_opts_for_def wal_opts_of_def eff_max_def wal_default_max_def)
  then obtain e' where "engine_write k (Some x) Write_ok True ?e = (None, e')"
    using engine_write_succeeds [OF e assms(3), of "Some x"] assms(4) by auto
  then show ?thesis
    using store_write_eq [OF assms(1,3), of "Some x"] by (simp add: store_write_def)
qed

definition demo_store_opts :: store_options where
  "demo_store_opts = \<lparr>so_dir = ''data'', so_shard_count = 4, so_virtual_nodes = 0, so_prefix = []\<rparr>"

lemma demo_store_run:
  obtains st0 d st where "store_open None demo_store_opts empty_store_disk = (Inr st0, d)"
    "store_run (\<lambda>_ _. 1) (\<lambda>_ _. 1) [S_put [107] [1]] st0 = Some st" "engines_open st"
proof -
  obtain st0 d where op: "store_open None demo_store_opts empty_store_disk = (Inr st0, d)"
    using store_open_succeeds [of demo_store_opts]
    by (auto simp: demo_store_opts_def first_options_def default_virtual_nodes_def ring_fits_def wrap64_def)
  note first = store_open_first [OF op]
  obtain st where st: "store_put [107] [1] Write_ok True st0 = (None, st)"
    using store_write_succeeds [OF first(1,5), of "[107]" "[1]"] by auto
  have "store_inv (0 + 1) (Map.empty([107] := Some [1])) st"
    by (rule store_write_ok [OF first(1)]) (simp_all add: store_write_def st)
  then have "engines_open st"
    by (auto simp: engines_open_def store_inv_def engine_kv.array_ok_def engine_ok_def all_set_conv_all_nth)
  with op st show thesis by (intro that [of st0 d st]) simp_all
qed

theorem store_session_refines_map_witness:
  "\<exists>st0 d st. store_open None demo_store_opts empty_store_disk = (Inr st0, d)
    \<and> store_run (\<lambda>_ _. 1) (\<lambda>_ _. 1) [S_put [107] [1]] st0 = Some st
    \<and> fst (store_get [107] st) = Inr (Some [1]) \<and> fst (store_get [108] st) = Inr None"
proof -
  obtain st0 d st where r: "store_open None demo_store_opts empty_store_disk = (Inr st0, d)"
    "store_run (\<lambda>_ _. 1) (\<lambda>_ _. 1) [S_put [107] [1]] st0 = Some st" "engines_open st" by (rule demo_store_run)
  have "fst (store_get [107] st) = Inr (Some [1])" "fst (store_get [108] st) = Inr None"
    using store_session_refines_map [OF r, of "[107]" "[]" "[]"] store_session_refines_map [OF r, of "[108]" "[]" "[]"]
    by simp_all
  with r show ?thesis by blast
qed

theorem store_reopen_durable_witness:
  "\<exists>st0 d st. store_open None demo_store_opts empty_store_disk = (Inr st0, d)
    \<and> store_run (\<lambda>_ _. 1) (\<lambda>_ _. 1) [S_put [107] [1]] st0 = Some st
    \<and> (\<exists>st' d'. store_open None (demo_store_opts\<lparr>so_shard_count := 0\<rparr>) (store_directory d (snd (store_close st))) = (Inr st', d')
        \<and> fst (store_get [107] st') = Inr (Some [1]))
    \<and> fst (store_open None (demo_store_opts\<lparr>so_shard_count := 5\<rparr>) (store_directory d st)) = Inl SErrMismatch"
proof -
  obtain st0 d st where r: "store_open None demo_store_opts empty_store_disk = (Inr st0, d)"
    "store_run (\<lambda>_ _. 1) (\<lambda>_ _. 1) [S_put [107] [1]] st0 = Some st" "engines_open st" by (rule demo_store_run)
  let ?ok = "demo_store_opts\<lparr>so_shard_count := 0\<rparr>" and ?bad = "demo_store_opts\<lparr>so_shard_count := 5\<rparr>"
  have o: "reopen_options_ok demo_store_opts ?ok" "\<not> reopen_options_ok demo_store_opts ?bad"
    by (simp_all add: reopen_options_ok_def demo_store_opts_def)
  have "\<exists>st' d'. store_open None ?ok (store_directory d (snd (store_close st))) = (Inr st', d')
      \<and> fst (store_get [107] st') = Inr (Some [1])"
    using store_reopen_durable [OF r, of "[107]" ?ok] o(1) by (simp add: demo_store_opts_def)
  moreover have "store_open None ?bad (store_directory d st) = (Inl SErrMismatch, store_directory d st)"
    using store_reopen_durable [OF r, of "[107]" ?bad] o(2) by (simp add: demo_store_opts_def)
  ultimately show ?thesis using r by auto
qed

end
