(* ===== verification/Journal.thy ===== *)
theory Journal
  imports Framing Files
begin

text \<open>
  The replication logs of a primary: the in-memory log (\<open>internal/replnet/log.go\<close>), the durable journal
  (\<open>internal/replnet/durable_log.go\<close>) and the baseline a promoted primary starts its journal from
  (\<open>internal/replnet/journal_baseline.go\<close>). An operation is its string, a timestamp its Unix
  nanoseconds. Every file operation of the journal that can fail is an argument.
\<close>

section \<open>Entries\<close>

definition op_put :: string where "op_put = ''put''"
definition op_delete :: string where "op_delete = ''delete''"

record rep_entry =
  re_seq :: u64
  re_op :: string
  re_key :: bytes
  re_value :: bytes
  re_time :: u64

datatype rep_error = JErrInvalidEntry | JErrClosed | JErrPoisoned | JErrCorrupt | JErrIO | JErrOverflow
  | JErrRollback rep_error | JErrBaselineCorrupt | JErrBaselineConflict | JErrBaselineMax | JErrIncompatible | JErrPanic

definition default_entries_limit :: nat where "default_entries_limit = 1000"

definition effective_limit :: "int \<Rightarrow> nat" where
  "effective_limit limit = (if limit \<le> 0 then default_entries_limit else nat limit)"

text \<open>\<open>EntriesAfter\<close> allocates its result at once, \<open>make([]Entry, 0, limit)\<close>. An \<open>Entry\<close> takes 80 bytes (a number, three
  string headers, a time), and the runtime panics when the buffer is larger than its address space of 2^48
  bytes; below that the process is taken to have the memory.\<close>

definition page_fits :: "int \<Rightarrow> bool" where
  "page_fits limit \<longleftrightarrow> 80 * effective_limit limit \<le> 2 ^ 48"

definition valid_entry :: "string \<Rightarrow> bytes \<Rightarrow> bool" where
  "valid_entry op key = (if op \<noteq> op_put \<and> op \<noteq> op_delete then False else if key = [] then False else True)"

section \<open>The in-memory log\<close>

record mem_log =
  ml_entries :: "rep_entry list"
  ml_next :: u64
  ml_closed :: bool

record log_stats =
  ls_count :: nat
  ls_last :: u64

definition new_log :: mem_log where
  "new_log = \<lparr>ml_entries = [], ml_next = 1, ml_closed = False\<rparr>"

definition log_append :: "string \<Rightarrow> bytes \<Rightarrow> bytes \<Rightarrow> u64 \<Rightarrow> mem_log \<Rightarrow> (rep_error + rep_entry) \<times> mem_log" where
  "log_append op key val now l =
     (if \<not> valid_entry op key then (Inl JErrInvalidEntry, l)
      else if ml_closed l then (Inl JErrClosed, l)
      else
        let e = \<lparr>re_seq = ml_next l, re_op = op, re_key = key, re_value = val, re_time = now\<rparr> in
        (Inr e, l\<lparr>ml_entries := ml_entries l @ [e], ml_next := ml_next l + 1\<rparr>))"

text \<open>The loop with its break; \<open>limit\<close> is positive.\<close>

fun collect_after :: "u64 \<Rightarrow> nat \<Rightarrow> rep_entry list \<Rightarrow> rep_entry list \<Rightarrow> rep_entry list" where
  "collect_after after limit acc [] = acc"
| "collect_after after limit acc (e # es) =
     (if re_seq e > after then
        let acc' = acc @ [e] in if length acc' \<ge> limit then acc' else collect_after after limit acc' es
      else collect_after after limit acc es)"

definition log_entries_after :: "u64 \<Rightarrow> int \<Rightarrow> mem_log \<Rightarrow> rep_error + rep_entry list" where
  "log_entries_after after limit l =
     (if ml_closed l then Inl JErrClosed
      else if \<not> page_fits limit then Inl JErrPanic
      else Inr (collect_after after (effective_limit limit) [] (ml_entries l)))"

definition log_stats_of :: "mem_log \<Rightarrow> rep_error + log_stats" where
  "log_stats_of l =
     (if ml_closed l then Inl JErrClosed
      else Inr \<lparr>ls_count = length (ml_entries l),
                ls_last = (if ml_entries l = [] then 0 else re_seq (last (ml_entries l)))\<rparr>)"

definition log_close :: "mem_log \<Rightarrow> mem_log" where
  "log_close l = l\<lparr>ml_closed := True\<rparr>"

section \<open>The journal's records\<close>

definition journal_op_put :: byte where "journal_op_put = 1"
definition journal_op_delete :: byte where "journal_op_delete = 2"

definition journal_payload :: "u64 \<Rightarrow> string \<Rightarrow> bytes \<Rightarrow> bytes \<Rightarrow> u64 \<Rightarrow> bytes" where
  "journal_payload seq op key val ts =
     put_u64 seq @ [if op = op_put then journal_op_put else journal_op_delete]
     @ put_u32 (len32 key) @ put_u32 (len32 val) @ put_u64 ts
     @ take (unat (len32 key)) key @ take (unat (len32 val)) val"

text \<open>
  The lengths are computed in 32 bits; when their sum wraps around the slices of the buffer are out of
  range and the code panics (\<open>None\<close>).
\<close>

definition encode_journal_record :: "u64 \<Rightarrow> string \<Rightarrow> bytes \<Rightarrow> bytes \<Rightarrow> u64 \<Rightarrow> bytes option" where
  "encode_journal_record seq op key val ts =
     (let keyLen = len32 key; valLen = len32 val; payloadLen = 29 + keyLen + valLen;
          payload = journal_payload seq op key val ts in
      if unat keyLen + unat valLen + 33 \<ge> 2 ^ 32 then None
      else Some (put_u32 payloadLen @ put_u32 (crc32 payload) @ payload))"

definition decode_journal_payload :: "bytes \<Rightarrow> rep_error + rep_entry" where
  "decode_journal_payload payload =
     (if length payload < 25 then Inl JErrCorrupt
      else
        let seq = get_u64 (slice 0 8 payload); opByte = payload ! 8;
            keyLen = unat (get_u32 (slice 9 13 payload)); valLen = unat (get_u32 (slice 13 17 payload));
            ts = get_u64 (slice 17 25 payload) in
        if length payload < 25 + keyLen + valLen then Inl JErrCorrupt
        else
          let key = slice 25 (25 + keyLen) payload; val = slice (25 + keyLen) (25 + keyLen + valLen) payload in
          if opByte = journal_op_put then
            Inr \<lparr>re_seq = seq, re_op = op_put, re_key = key, re_value = val, re_time = ts\<rparr>
          else if opByte = journal_op_delete then
            Inr \<lparr>re_seq = seq, re_op = op_delete, re_key = key, re_value = val, re_time = ts\<rparr>
          else Inl JErrCorrupt)"

section \<open>Replay\<close>

record index_row =
  ix_seq :: u64
  ix_offset :: nat

text \<open>
  One turn of the loop reads a frame: \<open>Torn\<close> is the end of the file or a partial record, \<open>Bad 0\<close> the
  \<open>io.EOF\<close> that \<open>io.ReadFull\<close> returns when the file ends right after a length field (it is not
  \<open>io.ErrUnexpectedEOF\<close>), \<open>Bad 1\<close> a corrupt record. The frame is the payload.
\<close>

definition journal_read :: "bytes \<Rightarrow> bytes frame" where
  "journal_read bs =
     (if length bs < 4 then Torn
      else
        let recLen = unat (get_u32 (slice 0 4 bs)) in
        if length bs - 4 < recLen then (if length bs = 4 then Bad 0 else Torn)
        else
          let body = slice 4 (4 + recLen) bs in
          if recLen < 4 then Bad 1
          else if get_u32 (slice 0 4 body) \<noteq> crc32 (drop 4 body) then Bad 1
          else if length (drop 4 body) < 25 then Bad 1
          else Frame (drop 4 body) (drop (4 + recLen) bs))"

lemma journal_read_decreases: "journal_read bs = Frame p rest \<Longrightarrow> length rest < length bs"
  by (auto simp: journal_read_def Let_def split: if_splits)

definition seq_check :: "u64 \<Rightarrow> index_row list \<Rightarrow> u64 \<Rightarrow> bool" where
  "seq_check base index seq =
     (if seq = 0 then False
      else if (if index = [] then seq \<noteq> base + 1
               else seq \<le> ix_seq (last index) \<or> seq \<noteq> ix_seq (last index) + 1) then False
      else seq \<noteq> - 1)"

datatype journal_end = Jn_end | Jn_torn nat | Jn_error rep_error

function journal_replay :: "u64 \<Rightarrow> nat \<Rightarrow> bytes \<Rightarrow> index_row list \<Rightarrow> u64 \<Rightarrow> journal_end \<times> index_row list \<times> u64" where
  "journal_replay base off bs index next =
     (case journal_read bs of
        Torn \<Rightarrow> ((if bs = [] then Jn_end else Jn_torn off), index, next)
      | Bad n \<Rightarrow> (Jn_error (if n = 0 then JErrIO else JErrCorrupt), index, next)
      | Frame payload rest \<Rightarrow>
          let seq = get_u64 (slice 0 8 payload) in
          if \<not> seq_check base index seq then (Jn_error JErrCorrupt, index, next)
          else journal_replay base (off + (length bs - length rest)) rest
                 (index @ [\<lparr>ix_seq = seq, ix_offset = off\<rparr>]) (seq + 1))"
  by pat_completeness auto
termination
  by (relation "measure (\<lambda>(base, off, bs, index, next). length bs)") (auto dest: journal_read_decreases)

declare journal_replay.simps [simp del]

section \<open>The baseline\<close>

record journal_baseline =
  jb_version :: int
  jb_base :: u64
  jb_checksum :: u32

record journal_dir =
  jd_journal :: "bytes option"
  jd_baseline :: "journal_baseline json_file"

definition baseline_version :: int where "baseline_version = 1"

text \<open>What \<open>json.Marshal\<close> gives for a baseline.\<close>

definition baseline_json :: "journal_baseline \<Rightarrow> bytes" where
  "baseline_json b = ascii (CHR ''{'' # CHR 0x22 # ''version'' @ CHR 0x22 # CHR '':'' # signed_decimal (jb_version b)
     @ CHR '','' # CHR 0x22 # ''base_seq'' @ CHR 0x22 # CHR '':'' # decimal (unat (jb_base b))
     @ CHR '','' # CHR 0x22 # ''checksum'' @ CHR 0x22 # CHR '':'' # decimal (unat (jb_checksum b)) @ ''}'')"

definition baseline_checksum :: "journal_baseline \<Rightarrow> u32" where
  "baseline_checksum b = crc32 (baseline_json (b\<lparr>jb_checksum := 0\<rparr>))"

definition load_baseline :: "journal_dir \<Rightarrow> rep_error + journal_baseline option" where
  "load_baseline d =
     (case jd_baseline d of
        No_file \<Rightarrow> Inr None
      | Unreadable_file \<Rightarrow> Inl JErrIO
      | Bad_file \<Rightarrow> Inl JErrBaselineCorrupt
      | Json_file b \<Rightarrow>
          if jb_version b \<noteq> baseline_version then Inl JErrBaselineCorrupt
          else if jb_checksum b \<noteq> baseline_checksum b then Inl JErrBaselineCorrupt
          else Inr (Some b))"

text \<open>The temp-file protocol is one step: it fails and changes nothing, or it replaces the file.\<close>

definition save_baseline :: "bool \<Rightarrow> journal_baseline \<Rightarrow> journal_dir \<Rightarrow> rep_error option \<times> journal_dir" where
  "save_baseline io_ok b d =
     (if \<not> io_ok then (Some JErrIO, d)
      else (None, d\<lparr>jd_baseline := Json_file (b\<lparr>jb_checksum := baseline_checksum b\<rparr>)\<rparr>))"

section \<open>The durable log\<close>

record durable_log =
  dl_file :: gofile
  dl_index :: "index_row list"
  dl_next :: u64
  dl_base :: u64
  dl_closed :: bool
  dl_poisoned :: bool

datatype journal_open_fault = Jf_open | Jf_tail_truncate | Jf_tail_sync

definition opened_log :: "u64 \<Rightarrow> bytes \<Rightarrow> index_row list \<Rightarrow> u64 \<Rightarrow> durable_log" where
  "opened_log base bs index next =
     \<lparr>dl_file = \<lparr>f_bytes = bs, f_pos = length bs\<rparr>, dl_index = index,
      dl_next = (if index = [] \<and> base > 0 then if base = - 1 then - 1 else base + 1 else next),
      dl_base = base, dl_closed = False, dl_poisoned = False\<rparr>"

definition open_durable_log :: "journal_open_fault option \<Rightarrow> journal_dir \<Rightarrow> (rep_error + durable_log) \<times> journal_dir" where
  "open_durable_log fault d =
     (if fault = Some Jf_open then (Inl JErrIO, d)
      else
        let bs = (case jd_journal d of None \<Rightarrow> [] | Some b \<Rightarrow> b); d1 = d\<lparr>jd_journal := Some bs\<rparr> in
        (case load_baseline d of
           Inl e \<Rightarrow> (Inl e, d1)
         | Inr b \<Rightarrow>
             let base = (case b of None \<Rightarrow> 0 | Some b' \<Rightarrow> if jb_base b' > 0 then jb_base b' else 0) in
             (case journal_replay base 0 bs [] 1 of
                (Jn_error e, _, _) \<Rightarrow> (Inl e, d1)
              | (Jn_end, index, next) \<Rightarrow> (Inr (opened_log base bs index next), d1)
              | (Jn_torn off, index, next) \<Rightarrow>
                  if fault = Some Jf_tail_truncate then (Inl JErrIO, d1)
                  else
                    let d2 = d\<lparr>jd_journal := Some (take off bs)\<rparr> in
                    if fault = Some Jf_tail_sync then (Inl JErrIO, d2)
                    else (Inr (opened_log base (take off bs) index next), d2))))"

text \<open>What the file operations of one \<open>Append\<close> do; the last three are those of its rollback.\<close>

record append_io =
  ai_seek :: bool
  ai_write :: write_outcome
  ai_sync :: bool
  ai_rb_truncate :: bool
  ai_rb_seek :: bool
  ai_rb_sync :: bool

definition good_io :: append_io where
  "good_io = \<lparr>ai_seek = True, ai_write = Write_ok, ai_sync = True, ai_rb_truncate = True, ai_rb_seek = True, ai_rb_sync = True\<rparr>"

definition journal_rollback :: "append_io \<Rightarrow> nat \<Rightarrow> rep_error \<Rightarrow> durable_log \<Rightarrow> rep_error \<times> durable_log" where
  "journal_rollback io off orig dl =
     (if \<not> ai_rb_truncate io then (JErrRollback orig, dl\<lparr>dl_poisoned := True\<rparr>)
      else
        let f1 = file_truncate off (dl_file dl) in
        if \<not> ai_rb_seek io then (JErrRollback orig, dl\<lparr>dl_file := f1, dl_poisoned := True\<rparr>)
        else
          let f2 = file_seek off f1 in
          if \<not> ai_rb_sync io then (JErrRollback orig, dl\<lparr>dl_file := f2, dl_poisoned := True\<rparr>)
          else (orig, dl\<lparr>dl_file := f2\<rparr>))"

definition durable_append ::
    "string \<Rightarrow> bytes \<Rightarrow> bytes \<Rightarrow> u64 \<Rightarrow> append_io \<Rightarrow> durable_log \<Rightarrow> (rep_error + rep_entry) \<times> durable_log" where
  "durable_append op key val now io dl =
     (if \<not> valid_entry op key then (Inl JErrInvalidEntry, dl)
      else if dl_closed dl then (Inl JErrClosed, dl)
      else if dl_poisoned dl then (Inl JErrPoisoned, dl)
      else if dl_next dl = - 1 then (Inl JErrOverflow, dl)
      else
        let seq = dl_next dl in
        (case encode_journal_record seq op key val now of
           None \<Rightarrow> (Inl JErrPanic, dl)
         | Some rec \<Rightarrow>
             if \<not> ai_seek io then (Inl JErrIO, dl)
             else
               let off = f_pos (dl_file dl);
                   dl1 = dl\<lparr>dl_file := file_write_outcome (ai_write io) rec (dl_file dl)\<rparr> in
               if ai_write io \<noteq> Write_ok \<or> \<not> ai_sync io then
                 (case journal_rollback io off JErrIO dl1 of (e, dl2) \<Rightarrow> (Inl e, dl2))
               else
                 (Inr \<lparr>re_seq = seq, re_op = op, re_key = key, re_value = val, re_time = now\<rparr>,
                  dl1\<lparr>dl_index := dl_index dl @ [\<lparr>ix_seq = seq, ix_offset = off\<rparr>], dl_next := seq + 1\<rparr>)))"

definition read_record_at :: "bytes \<Rightarrow> nat \<Rightarrow> rep_error + rep_entry" where
  "read_record_at bs off =
     (if length bs < off + 4 then Inl JErrIO
      else
        let recLen = unat (get_u32 (slice off (off + 4) bs)) in
        if length bs < off + 4 + recLen then Inl JErrIO
        else if recLen < 4 then Inl JErrCorrupt
        else
          let body = slice (off + 4) (off + 4 + recLen) bs in
          if get_u32 (slice 0 4 body) \<noteq> crc32 (drop 4 body) then Inl JErrCorrupt
          else decode_journal_payload (drop 4 body))"

fun read_rows :: "bytes \<Rightarrow> nat \<Rightarrow> index_row list \<Rightarrow> rep_error + rep_entry list" where
  "read_rows bs 0 rows = Inr []"
| "read_rows bs (Suc n) [] = Inr []"
| "read_rows bs (Suc n) (row # rows) =
     (case read_record_at bs (ix_offset row) of
        Inl e \<Rightarrow> Inl e
      | Inr en \<Rightarrow> (case read_rows bs n rows of Inl e \<Rightarrow> Inl e | Inr ens \<Rightarrow> Inr (en # ens)))"

definition index_search :: "u64 \<Rightarrow> index_row list \<Rightarrow> nat" where
  "index_search after index = sort_search (length index) (\<lambda>mid. \<not> ix_seq (index ! mid) \<le> after)"

definition durable_entries_after :: "u64 \<Rightarrow> int \<Rightarrow> durable_log \<Rightarrow> rep_error + rep_entry list" where
  "durable_entries_after after limit dl =
     (if dl_closed dl then Inl JErrClosed
      else if \<not> page_fits limit then Inl JErrPanic
      else read_rows (f_bytes (dl_file dl)) (effective_limit limit) (drop (index_search after (dl_index dl)) (dl_index dl)))"

definition first_available_seq :: "durable_log \<Rightarrow> u64" where
  "first_available_seq dl = (if dl_index dl = [] then 0 else ix_seq (hd (dl_index dl)))"

definition latest_seq :: "durable_log \<Rightarrow> u64" where
  "latest_seq dl = (if dl_index dl \<noteq> [] then ix_seq (last (dl_index dl)) else dl_base dl)"

record durable_stats =
  ds_count :: nat
  ds_last :: u64
  ds_first :: u64
  ds_bytes :: nat
  ds_durable :: bool

definition durable_stats_of :: "bool \<Rightarrow> durable_log \<Rightarrow> rep_error + durable_stats" where
  "durable_stats_of stat_ok dl =
     (if dl_closed dl then Inl JErrClosed
      else
        Inr \<lparr>ds_count = length (dl_index dl),
             ds_last = (if dl_index dl \<noteq> [] then ix_seq (last (dl_index dl)) else if dl_base dl > 0 then dl_base dl else 0),
             ds_first = (if dl_index dl \<noteq> [] then ix_seq (hd (dl_index dl)) else 0),
             ds_bytes = (if stat_ok then length (f_bytes (dl_file dl)) else 0), ds_durable = True\<rparr>)"

definition durable_close :: "durable_log \<Rightarrow> durable_log" where
  "durable_close dl = (if dl_closed dl then dl else dl\<lparr>dl_closed := True\<rparr>)"

section \<open>Creating a baseline\<close>

text \<open>The check opens the journal, which may cut a torn tail off.\<close>

definition journal_compatibility_check :: "journal_open_fault option \<Rightarrow> u64 \<Rightarrow> journal_dir \<Rightarrow> rep_error option \<times> journal_dir" where
  "journal_compatibility_check fault base d =
     (if jd_journal d = None then (None, d)
      else
        (case open_durable_log fault d of
           (Inl e, d') \<Rightarrow> (Some e, d')
         | (Inr dl, d') \<Rightarrow>
             if first_available_seq dl = 0 then (None, d')
             else if first_available_seq dl \<noteq> base + 1 then (Some JErrIncompatible, d')
             else (None, d')))"

definition create_baseline :: "journal_open_fault option \<Rightarrow> bool \<Rightarrow> u64 \<Rightarrow> journal_dir \<Rightarrow> rep_error option \<times> journal_dir" where
  "create_baseline fault io_ok base d =
     (if base = - 1 then (Some JErrBaselineMax, d)
      else
        (case load_baseline d of
           Inl e \<Rightarrow> (Some e, d)
         | Inr (Some b) \<Rightarrow>
             if jb_base b = base then journal_compatibility_check fault base d
             else (Some JErrBaselineConflict, d)
         | Inr None \<Rightarrow>
             (case journal_compatibility_check fault base d of
                (Some e, d') \<Rightarrow> (Some e, d')
              | (None, d') \<Rightarrow>
                  save_baseline io_ok \<lparr>jb_version = baseline_version, jb_base = base, jb_checksum = 0\<rparr> d')))"

end
