(* ===== verification/JournalSpec.thy ===== *)
theory JournalSpec
  imports Journal
begin

text \<open>
  The journal against its specification: the record round trip, the state a sequence of appends with
  faults leaves, what reopening recovers after a crash, what replay accepts of arbitrary bytes, and the
  agreement of the durable log with the in-memory log through the interface \<open>mutation_log\<close>.
\<close>

section \<open>Records\<close>

text \<open>The payloads that fit a record.\<close>

definition payload_ok :: "bytes \<Rightarrow> bool" where
  "payload_ok p \<longleftrightarrow> 25 \<le> length p \<and> length p + 4 < 2 ^ 32"

lemma journal_read_record:
  assumes "payload_ok p"
  shows "journal_read (payload_record p @ t) = Frame p t"
proof -
  have l: "length p + 4 < 2 ^ 32" "25 \<le> length p" using assms by (simp_all add: payload_ok_def)
  note s = payload_record_slices [OF l(1), of t]
  have b: "get_u32 (slice 0 4 (put_u32 (crc32 p) @ p)) = crc32 p" "drop 4 (put_u32 (crc32 p) @ p) = p"
    by (simp_all add: slice_def)
  have n: "\<not> length (payload_record p @ t) < 4" "\<not> length (payload_record p @ t) - 4 < length p + 4" by simp_all
  show ?thesis
    using n l(2) unfolding journal_read_def Let_def by (simp only: s b if_False) simp
qed

lemma journal_read_nil: "journal_read [] = Torn"
  by (simp add: journal_read_def)

interpretation journal_log: framed_records payload_record journal_read payload_ok
  by unfold_locales (rule journal_read_record journal_read_nil | assumption)+

text \<open>A cut inside a record: a torn tail, but for the cut right after the length field.\<close>

lemma journal_read_cut:
  assumes "payload_ok p" "n < length (payload_record p)"
  shows "journal_read (take n (payload_record p)) = (if n = 4 then Bad 0 else Torn)"
proof (cases "n < 4")
  case False
  then have s: "unat (get_u32 (slice 0 4 (take n (payload_record p)))) = length p + 4"
    using payload_record_prefix [of p n] assms by (simp add: payload_ok_def)
  have n: "length (take n (payload_record p)) = n" "n - 4 < length p + 4" using assms(2) False by simp_all
  show ?thesis using False n(2) by (simp add: journal_read_def s n(1) Let_def)
qed (use assms(2) in \<open>simp add: journal_read_def\<close>)

text \<open>Whatever the reader takes for a record is one.\<close>

lemma journal_read_Frame:
  assumes "journal_read bs = Frame p rest"
  shows "bs = payload_record p @ rest" "payload_ok p"
proof -
  let ?n = "get_u32 (slice 0 4 bs)"
  let ?body = "slice 4 (4 + unat ?n) bs"
  have b: "4 \<le> length bs" "unat ?n \<le> length bs - 4" "4 \<le> unat ?n" "get_u32 (slice 0 4 ?body) = crc32 (drop 4 ?body)"
      "25 \<le> length (drop 4 ?body)" "p = drop 4 ?body" "rest = drop (4 + unat ?n) bs"
    using assms by (auto simp: journal_read_def Let_def split: if_splits)
  note r = payload_record_exists [OF b(1-4)]
  show "bs = payload_record p @ rest" using r(1) b(6,7) by simp
  have "unat ?n < 2 ^ 32" using unsigned_less [of ?n] by simp
  then show "payload_ok p" using b(5,6) r(2) by (simp add: payload_ok_def)
qed

section \<open>Entries\<close>

definition entry_fits_journal :: "rep_entry \<Rightarrow> bool" where
  "entry_fits_journal e \<longleftrightarrow> valid_entry (re_op e) (re_key e) \<and> length (re_key e) + length (re_value e) + 33 < 2 ^ 32"

definition entry_payload :: "rep_entry \<Rightarrow> bytes" where
  "entry_payload e = journal_payload (re_seq e) (re_op e) (re_key e) (re_value e) (re_time e)"

definition entry_record :: "rep_entry \<Rightarrow> bytes" where
  "entry_record e = payload_record (entry_payload e)"

lemma entry_lens:
  assumes "entry_fits_journal e"
  shows "unat (len32 (re_key e)) = length (re_key e)" "unat (len32 (re_value e)) = length (re_value e)"
  using assms by (simp_all add: entry_fits_journal_def unat_len32)

lemma length_entry_payload:
  "entry_fits_journal e \<Longrightarrow> length (entry_payload e) = 25 + length (re_key e) + length (re_value e)"
  by (simp add: entry_payload_def journal_payload_def entry_lens)

lemma entry_payload_ok: "entry_fits_journal e \<Longrightarrow> payload_ok (entry_payload e)"
  by (simp add: payload_ok_def length_entry_payload) (simp add: entry_fits_journal_def)

lemma encode_entry:
  assumes "entry_fits_journal e"
  shows "encode_journal_record (re_seq e) (re_op e) (re_key e) (re_value e) (re_time e) = Some (entry_record e)"
proof -
  have fit: "length (re_key e) + length (re_value e) + 33 < 2 ^ 32" using assms by (simp add: entry_fits_journal_def)
  have "29 + len32 (re_key e) + len32 (re_value e) = word_of_nat (length (entry_payload e) + 4)"
    by (simp add: len32_def length_entry_payload [OF assms])
  then show ?thesis
    using fit entry_lens [OF assms]
    by (simp add: encode_journal_record_def entry_record_def payload_record_def entry_payload_def Let_def)
qed

lemma payload_fields:
  fixes e :: rep_entry
  assumes "entry_fits_journal e"
  defines "p \<equiv> entry_payload e" and "k \<equiv> length (re_key e)" and "v \<equiv> length (re_value e)"
  shows "slice 0 8 p = put_u64 (re_seq e)" "p ! 8 = (if re_op e = op_put then journal_op_put else journal_op_delete)"
    "slice 9 13 p = put_u32 (len32 (re_key e))" "slice 13 17 p = put_u32 (len32 (re_value e))"
    "slice 17 25 p = put_u64 (re_time e)" "slice 25 (25 + k) p = re_key e" "slice (25 + k) (25 + k + v) p = re_value e"
proof -
  let ?h = "put_u64 (re_seq e) @ [if re_op e = op_put then journal_op_put else journal_op_delete]
      @ put_u32 (len32 (re_key e)) @ put_u32 (len32 (re_value e)) @ put_u64 (re_time e)"
  have p: "p = ?h @ re_key e @ re_value e"
    by (simp add: p_def entry_payload_def journal_payload_def entry_lens [OF assms(1)])
  show "slice 25 (25 + k) p = re_key e" unfolding p k_def by (rule slice_middle) simp_all
  have "slice (25 + k) (25 + k + v) ((?h @ re_key e) @ re_value e @ []) = re_value e"
    unfolding k_def v_def by (rule slice_middle) simp_all
  then show "slice (25 + k) (25 + k + v) p = re_value e" by (simp add: p)
qed (simp_all add: p_def entry_payload_def journal_payload_def slice_def nth_append entry_lens [OF assms(1)])

lemma decode_entry:
  assumes "entry_fits_journal e"
  shows "decode_journal_payload (entry_payload e) = Inr e"
proof -
  have op: "re_op e = op_put \<or> re_op e = op_delete"
    using assms by (auto simp: entry_fits_journal_def valid_entry_def split: if_splits)
  have d: "op_put \<noteq> op_delete" "journal_op_put \<noteq> journal_op_delete"
    by (simp_all add: op_put_def op_delete_def journal_op_put_def journal_op_delete_def)
  show ?thesis
    using op d
    by (auto simp: decode_journal_payload_def payload_fields [OF assms] length_entry_payload [OF assms]
        entry_lens [OF assms] Let_def)
qed

section \<open>Replay\<close>

text \<open>The index of records that start at \<open>off\<close>.\<close>

definition payload_seq :: "bytes \<Rightarrow> u64" where
  "payload_seq p = get_u64 (slice 0 8 p)"

fun rows_of :: "nat \<Rightarrow> bytes list \<Rightarrow> index_row list" where
  "rows_of off [] = []"
| "rows_of off (p # ps) = \<lparr>ix_seq = payload_seq p, ix_offset = off\<rparr> # rows_of (off + length (payload_record p)) ps"

lemma length_rows_of [simp]: "length (rows_of off ps) = length ps"
  by (induction ps arbitrary: off) simp_all

lemma rows_of_append:
  "rows_of off (ps @ qs) = rows_of off ps @ rows_of (off + length (concat (map payload_record ps))) qs"
  by (induction ps arbitrary: off) (simp_all add: add.assoc)

lemma map_ix_seq_rows_of [simp]: "map ix_seq (rows_of off ps) = map payload_seq ps"
  by (induction ps arbitrary: off) simp_all

lemma ix_seq_rows_of: "i < length ps \<Longrightarrow> ix_seq (rows_of off ps ! i) = payload_seq (ps ! i)"
  by (metis length_rows_of map_ix_seq_rows_of nth_map)

text \<open>The check accepts exactly the next number, unless it is the largest one.\<close>

lemma seq_check_iff:
  assumes "counts_from base (map ix_seq index)"
  shows "seq_check base index q \<longleftrightarrow> unat q = unat base + 1 + length index \<and> unat base + length index + 1 < 2 ^ 64 - 1"
proof -
  let ?n = "length index"
  define L where "L = (if index = [] then base else ix_seq (last index))"
  have b: "unat base + ?n < 2 ^ 64 - 1" using assms by (simp add: counts_from_def)
  have L: "unat L = unat base + ?n"
  proof (cases "index = []")
    case False
    then have "ix_seq (last index) = map ix_seq index ! (?n - 1)" "?n - 1 < ?n" by (simp_all add: last_conv_nth)
    then show ?thesis using assms False by (simp add: L_def counts_from_def)
  qed (simp add: L_def)
  then have L1: "unat (L + 1) = unat base + ?n + 1" using b by (simp add: unat_word_ariths)
  have eq: "q = L + 1 \<longleftrightarrow> unat q = unat base + 1 + ?n" unfolding word_unat_eq_iff L1 by auto
  have m: "unat (- 1 :: u64) = 2 ^ 64 - 1" by (simp add: unsigned_minus_1_eq_mask mask_eq_exp_minus_1)
  have max: "q = - 1 \<longleftrightarrow> unat q = 2 ^ 64 - 1" unfolding word_unat_eq_iff m by simp
  have "seq_check base index q \<longleftrightarrow> q = L + 1 \<and> q \<noteq> - 1"
  proof
    assume a: "q = L + 1 \<and> q \<noteq> - 1"
    then have "q \<noteq> 0" "\<not> q \<le> L" using L L1 by (auto simp: unat_eq_zero word_le_nat_alt)
    then show "seq_check base index q" using a by (auto simp: seq_check_def L_def split: if_splits)
  qed (auto simp: seq_check_def L_def split: if_splits)
  then show ?thesis using eq max b by auto
qed

text \<open>Replaying whole records with the next numbers, whatever follows them.\<close>

lemma journal_replay_records:
  assumes "\<forall>p \<in> set ps. payload_ok p" "counts_from base (map ix_seq index @ map payload_seq ps)"
  shows "journal_replay base off (concat (map payload_record ps) @ t) index next
    = journal_replay base (off + length (concat (map payload_record ps))) t (index @ rows_of off ps)
        (if ps = [] then next else next_seq base (length index + length ps))"
  using assms
proof (induction ps arbitrary: off index "next")
  case (Cons p ps)
  let ?rest = "concat (map payload_record ps) @ t" and ?q = "payload_seq p"
  let ?index = "index @ [\<lparr>ix_seq = ?q, ix_offset = off\<rparr>]"
  have r: "journal_read (payload_record p @ ?rest) = Frame p ?rest" using Cons.prems(1) by (simp add: journal_read_record)
  have c: "counts_from base (map ix_seq index @ [?q])"
    using counts_from_prefix [of base "map ix_seq index @ [?q]" "map payload_seq ps"] Cons.prems(2) by simp
  then have ci: "counts_from base (map ix_seq index)" and q: "unat ?q = unat base + 1 + length index"
      "unat base + length index + 1 < 2 ^ 64 - 1"
    by (simp_all add: counts_from_snoc)
  then have "seq_check base index ?q" by (simp add: seq_check_iff)
  then have "journal_replay base off (concat (map payload_record (p # ps)) @ t) index next
      = journal_replay base (off + length (payload_record p)) ?rest ?index (?q + 1)"
    using r by (subst journal_replay.simps) (simp add: payload_seq_def Let_def)
  moreover have "journal_replay base (off + length (payload_record p)) ?rest ?index (?q + 1)
      = journal_replay base (off + length (payload_record p) + length (concat (map payload_record ps))) t
      (?index @ rows_of (off + length (payload_record p)) ps)
      (if ps = [] then ?q + 1 else next_seq base (length ?index + length ps))"
    by (rule Cons.IH) (use Cons.prems in simp_all)
  moreover have "?q + 1 = next_seq base (length index + 1)"
    using q unat_next_seq [of base "length index"] by (simp add: word_unat_eq_iff [of "payload_seq p"] flip: next_seq_Suc)
  ultimately show ?case by (simp add: add.assoc)
qed simp

lemma journal_replay_sound:
  assumes "journal_replay base off bs index next = (e, index', next')" "counts_from base (map ix_seq index)"
  shows "\<exists>ps t. bs = concat (map payload_record ps) @ t \<and> (\<forall>p \<in> set ps. payload_ok p) \<and> index' = index @ rows_of off ps
    \<and> counts_from base (map ix_seq index @ map payload_seq ps)
    \<and> next' = (if ps = [] then next else next_seq base (length index + length ps))
    \<and> (e = Jn_end \<longrightarrow> t = []) \<and> (\<forall>p. e = Jn_torn p \<longrightarrow> p = off + length (concat (map payload_record ps)))"
  using assms
proof (induction base off bs index "next" rule: journal_replay.induct)
  case (1 base off bs index "next")
  have stop: ?case if "index' = index" "next' = next" "e = Jn_end \<longrightarrow> bs = []" "\<forall>p. e = Jn_torn p \<longrightarrow> p = off"
    using that "1.prems"(2) by (intro exI [of _ "[]"] exI [of _ bs]) simp
  show ?case
  proof (cases "journal_read bs")
    case Torn
    then show ?thesis using "1.prems"(1) by (intro stop) (auto simp: journal_replay.simps split: if_splits)
  next
    case (Bad n)
    then show ?thesis using "1.prems"(1) by (intro stop) (auto simp: journal_replay.simps)
  next
    case (Frame p rest)
    note f = journal_read_Frame [OF Frame]
    let ?q = "payload_seq p"
    show ?thesis
    proof (cases "seq_check base index ?q")
      case False
      then show ?thesis
        using "1.prems"(1) Frame by (intro stop) (auto simp: journal_replay.simps payload_seq_def)
    next
      case True
      let ?index = "index @ [\<lparr>ix_seq = ?q, ix_offset = off\<rparr>]"
      have q: "unat ?q = unat base + 1 + length index" "unat base + length index + 1 < 2 ^ 64 - 1"
        using True seq_check_iff [OF "1.prems"(2)] by auto
      then have c: "counts_from base (map ix_seq ?index)" using "1.prems"(2) by (simp add: counts_from_snoc)
      have len: "length bs - length rest = length (payload_record p)" using f(1) by simp
      have step: "journal_replay base (off + (length bs - length rest)) rest ?index (?q + 1) = (e, index', next')"
        using "1.prems"(1) Frame True by (subst (asm) journal_replay.simps) (simp add: payload_seq_def Let_def)
      have True': "\<not> \<not> seq_check base index (get_u64 (slice 0 8 p))" using True by (simp add: payload_seq_def)
      obtain ps t where ih: "rest = concat (map payload_record ps) @ t" "\<forall>p \<in> set ps. payload_ok p"
          "index' = ?index @ rows_of (off + (length bs - length rest)) ps"
          "counts_from base (map ix_seq ?index @ map payload_seq ps)"
          "next' = (if ps = [] then ?q + 1 else next_seq base (length ?index + length ps))"
          "e = Jn_end \<longrightarrow> t = []" "\<forall>p'. e = Jn_torn p' \<longrightarrow> p' = off + (length bs - length rest) + length (concat (map payload_record ps))"
        using "1.IH" [OF Frame refl True'] step c unfolding payload_seq_def by blast
      have "?q = next_seq base (length index)"
        using q unat_next_seq [of base "length index"] by (simp add: word_unat_eq_iff)
      then show ?thesis
        using ih f len by (intro exI [of _ "p # ps"] exI [of _ t]) (auto simp: next_seq_Suc)
    qed
  qed
qed

section \<open>Reading entries back\<close>

lemma entry_record_fold [simp]: "payload_record (entry_payload e) = entry_record e"
  by (simp add: entry_record_def)

lemma length_entry_record [simp]: "length (entry_record e) = 8 + length (entry_payload e)"
  by (simp add: entry_record_def del: entry_record_fold)

lemma payload_seq_entry: "entry_fits_journal e \<Longrightarrow> payload_seq (entry_payload e) = re_seq e"
  by (simp add: payload_seq_def payload_fields)

lemma read_record_at_entry:
  assumes "entry_fits_journal e"
  shows "read_record_at (pre @ entry_record e @ rest) (length pre) = Inr e"
proof -
  let ?p = "entry_payload e" and ?bs = "pre @ entry_record e @ rest"
  have l: "length ?p + 4 < 2 ^ 32" using entry_payload_ok [OF assms] by (simp add: payload_ok_def)
  note s = payload_record_slices [OF l, of rest]
  have off: "slice (length pre + a) (length pre + b) ?bs = slice a b (payload_record ?p @ rest)" for a b
    by (simp add: slice_def)
  have n: "unat (get_u32 (slice (length pre) (length pre + 4) ?bs)) = length ?p + 4"
    using off [of 0 4] s(1) by simp
  have b: "slice (length pre + 4) (length pre + 4 + (length ?p + 4)) ?bs = put_u32 (crc32 ?p) @ ?p"
    using off [of 4 "4 + (length ?p + 4)"] s(2) by (simp add: add.assoc)
  have c: "get_u32 (slice 0 4 (put_u32 (crc32 ?p) @ ?p)) = crc32 ?p" "drop 4 (put_u32 (crc32 ?p) @ ?p) = ?p"
    by (simp_all add: slice_def)
  have len: "\<not> length ?bs < length pre + 4" "\<not> length ?bs < length pre + 4 + (length ?p + 4)" "\<not> length ?p + 4 < 4"
    by simp_all
  show ?thesis
    unfolding read_record_at_def Let_def by (simp only: n b c len if_False decode_entry [OF assms]) simp
qed

lemma read_rows_entries:
  assumes "\<forall>e \<in> set es. entry_fits_journal e"
  shows "read_rows (pre @ concat (map entry_record es) @ t) n (rows_of (length pre) (map entry_payload es)) = Inr (take n es)"
  using assms
proof (induction es arbitrary: pre n)
  case Nil
  then show ?case by (cases n) simp_all
next
  case (Cons e es)
  show ?case
  proof (cases n)
    case (Suc m)
    let ?bs = "pre @ concat (map entry_record (e # es)) @ t"
    have r: "read_record_at ?bs (length pre) = Inr e"
      using read_record_at_entry [of e pre "concat (map entry_record es) @ t"] Cons.prems by simp
    have "read_rows ((pre @ entry_record e) @ concat (map entry_record es) @ t) m
        (rows_of (length (pre @ entry_record e)) (map entry_payload es)) = Inr (take m es)"
      by (rule Cons.IH) (use Cons.prems in simp)
    then show ?thesis using r Suc by simp
  qed simp
qed

lemma filter_split:
  assumes "\<And>k. k < m \<Longrightarrow> k < length xs \<Longrightarrow> \<not> P (xs ! k)" "\<And>k. m \<le> k \<Longrightarrow> k < length xs \<Longrightarrow> P (xs ! k)"
  shows "filter P xs = drop m xs"
proof -
  have "filter P (take m xs) = []" using assms(1) by (auto simp: filter_empty_conv in_set_conv_nth)
  moreover have "filter P (drop m xs) = drop m xs" using assms(2) by (auto simp: filter_id_conv in_set_conv_nth)
  ultimately show ?thesis by (metis append_Nil append_take_drop_id filter_append)
qed

lemma drop_rows_of: "drop m (rows_of off ps) = rows_of (off + length (concat (map payload_record (take m ps)))) (drop m ps)"
proof (induction ps arbitrary: off m)
  case (Cons p ps)
  then show ?case by (cases m) (simp_all add: add.assoc)
qed simp

lemma index_search_entries:
  assumes "\<forall>e \<in> set es. entry_fits_journal e" "counts_from base (map re_seq es)"
  shows "drop (index_search a (rows_of 0 (map entry_payload es))) es = filter (\<lambda>e. a < re_seq e) es"
proof -
  let ?ix = "rows_of 0 (map entry_payload es)" and ?m = "index_search a (rows_of 0 (map entry_payload es))"
  let ?p = "\<lambda>k. \<not> ix_seq (?ix ! k) \<le> a"
  have seq: "ix_seq (?ix ! k) = re_seq (es ! k)" if "k < length es" for k
    using that assms(1) by (simp add: ix_seq_rows_of payload_seq_entry)
  have le: "re_seq (es ! j) \<le> re_seq (es ! k)" if "j \<le> k" "k < length es" for j k
    using assms(2) that by (simp add: counts_from_def word_le_nat_alt)
  have mono: "?p j \<Longrightarrow> j \<le> k \<Longrightarrow> k < length ?ix \<Longrightarrow> ?p k" for j k
    using le [of j k] seq [of j] seq [of k] by simp
  have lo: "\<not> ?p k" if "k < ?m" for k
    by (rule sort_search_spec(2) [where p = ?p and n = "length ?ix"]) (use mono that in \<open>auto simp: index_search_def\<close>)
  have hi: "?p k" if "?m \<le> k" "k < length ?ix" for k
    by (rule sort_search_spec(3) [where p = ?p and n = "length ?ix"]) (use mono that in \<open>auto simp: index_search_def\<close>)
  have "filter (\<lambda>e. a < re_seq e) es = drop ?m es"
    by (rule filter_split) (use lo hi seq in \<open>fastforce simp: not_le\<close>)+
  then show ?thesis ..
qed

section \<open>Appending with faults\<close>

text \<open>The log holds the acknowledged entries \<open>es\<close>; a poisoned log may have more bytes after them.\<close>

definition durable_inv :: "u64 \<Rightarrow> rep_entry list \<Rightarrow> durable_log \<Rightarrow> bool" where
  "durable_inv base es dl \<longleftrightarrow> (\<forall>e \<in> set es. entry_fits_journal e) \<and> counts_from base (map re_seq es)
     \<and> dl_index dl = rows_of 0 (map entry_payload es) \<and> dl_base dl = base \<and> dl_next dl = next_seq base (length es)
     \<and> \<not> dl_closed dl
     \<and> (\<exists>t. f_bytes (dl_file dl) = concat (map entry_record es) @ t \<and> (\<not> dl_poisoned dl \<longrightarrow> t = [] \<and> at_end (dl_file dl)))"

text \<open>What \<open>EntriesAfter\<close> answers when the entries past the cursor are \<open>xs\<close>.\<close>

definition page_of :: "int \<Rightarrow> rep_entry list \<Rightarrow> rep_error + rep_entry list" where
  "page_of lim xs = (if page_fits lim then Inr (take (effective_limit lim) xs) else Inl JErrPanic)"

lemma page_of_fits: "page_fits lim \<Longrightarrow> page_of lim xs = Inr (take (effective_limit lim) xs)"
  by (simp add: page_of_def)

lemma durable_entries_after_eq:
  assumes "durable_inv base es dl"
  shows "durable_entries_after a lim dl = page_of lim (filter (\<lambda>e. a < re_seq e) es)"
proof -
  obtain t where inv: "\<forall>e \<in> set es. entry_fits_journal e" "counts_from base (map re_seq es)"
      "dl_index dl = rows_of 0 (map entry_payload es)" "\<not> dl_closed dl"
      "f_bytes (dl_file dl) = concat (map entry_record es) @ t"
    using assms by (auto simp: durable_inv_def)
  let ?m = "index_search a (dl_index dl)"
  have split: "concat (map entry_record es) @ t
      = concat (map entry_record (take ?m es)) @ concat (map entry_record (drop ?m es)) @ t"
    by (metis append.assoc append_take_drop_id concat_append map_append)
  have ix: "drop ?m (dl_index dl)
      = rows_of (length (concat (map entry_record (take ?m es)))) (map entry_payload (drop ?m es))"
    by (simp add: inv(3) drop_rows_of take_map drop_map comp_def)
  have fits: "\<forall>e \<in> set (drop ?m es). entry_fits_journal e" using inv(1) by (meson in_set_dropD)
  have "durable_entries_after a lim dl = page_of lim (drop ?m es)"
    unfolding durable_entries_after_def inv(5) split ix using inv(4) read_rows_entries [OF fits] by (simp add: page_of_def)
  then show ?thesis using index_search_entries [OF inv(1,2)] inv(3) by simp
qed

lemma durable_append_cases:
  assumes "durable_inv base es dl" "length key < 2 ^ 32" "length val < 2 ^ 32"
    and "durable_append op key val now io dl = (res, dl')"
  shows "(\<exists>e. res = Inr e \<and> e = \<lparr>re_seq = next_seq base (length es), re_op = op, re_key = key, re_value = val, re_time = now\<rparr>
        \<and> entry_fits_journal e \<and> \<not> dl_poisoned dl \<and> \<not> dl_poisoned dl' \<and> durable_inv base (es @ [e]) dl')
    \<or> (\<exists>er. res = Inl er \<and> durable_inv base es dl' \<and> (dl_poisoned dl \<longrightarrow> dl_poisoned dl')
        \<and> (dl_poisoned dl' \<longrightarrow> dl_poisoned dl \<or> (\<exists>er'. er = JErrRollback er')))"
proof -
  let ?q = "next_seq base (length es)" and ?file = "concat (map entry_record es)"
  let ?e = "\<lparr>re_seq = ?q, re_op = op, re_key = key, re_value = val, re_time = now\<rparr>"
  have inv: "\<forall>e \<in> set es. entry_fits_journal e" "counts_from base (map re_seq es)"
      "dl_index dl = rows_of 0 (map entry_payload es)" "dl_next dl = ?q" "\<not> dl_closed dl" "dl_base dl = base"
    using assms(1) by (auto simp: durable_inv_def)
  have b: "unat base + length es < 2 ^ 64 - 1" using inv(2) by (simp add: counts_from_def)
  note uq = unat_next_seq [OF b]
  consider (refused) er where "res = Inl er" "dl' = dl"
    | (io) rec where "valid_entry op key" "\<not> dl_poisoned dl" "?q \<noteq> - 1" "encode_journal_record ?q op key val now = Some rec" "ai_seek io"
    using assms(4) inv(4,5) by (auto simp: durable_append_def Let_def split: if_splits option.splits)
  then show ?thesis
  proof cases
    case refused
    then show ?thesis using assms(1) by auto
  next
    case io
    have fb: "f_bytes (dl_file dl) = ?file" "at_end (dl_file dl)"
      using assms(1) io(2) by (auto simp: durable_inv_def)
    then have off: "f_pos (dl_file dl) = length ?file" by (simp add: at_end_def)
    have "unat (len32 key) = length key" "unat (len32 val) = length val" using assms(2,3) by (simp_all add: unat_len32)
    then have fits: "entry_fits_journal ?e"
      using io(1,4) by (auto simp: entry_fits_journal_def encode_journal_record_def Let_def split: if_splits)
    then have rc: "rec = entry_record ?e" using encode_entry [OF fits] io(4) by simp
    have max: "unat base + length es + 1 < 2 ^ 64 - 1"
    proof (rule ccontr)
      assume "\<not> ?thesis"
      then have "unat ?q = unat (- 1 :: u64)"
        using uq b by (simp add: unsigned_minus_1_eq_mask mask_eq_exp_minus_1)
      then show False using io(3) by (simp add: word_unat_eq_iff)
    qed
    let ?f1 = "file_write_outcome (ai_write io) rec (dl_file dl)"
    show ?thesis
    proof (cases "ai_write io \<noteq> Write_ok \<or> \<not> ai_sync io")
      case False
      then have dl': "res = Inr ?e" "dl' = dl\<lparr>dl_file := file_write rec (dl_file dl),
          dl_index := dl_index dl @ [\<lparr>ix_seq = ?q, ix_offset = length ?file\<rparr>], dl_next := ?q + 1\<rparr>"
        using assms(4) io inv(4,5) off by (auto simp: durable_append_def Let_def file_write_outcome_def)
      have "dl_index dl' = rows_of 0 (map entry_payload (es @ [?e]))"
        using payload_seq_entry [OF fits] by (simp add: dl' inv(3) rows_of_append comp_def)
      moreover have "counts_from base (map re_seq (es @ [?e]))" using inv(2) uq max by (simp add: counts_from_snoc)
      moreover have "f_bytes (dl_file dl') = concat (map entry_record (es @ [?e]))" "at_end (dl_file dl')"
        using fb by (simp_all add: dl' rc file_write_at_end) (simp add: at_end_def)
      ultimately have "durable_inv base (es @ [?e]) dl'"
        using inv fits io(2) by (auto simp: durable_inv_def dl' next_seq_Suc)
      then show ?thesis using dl' fits io(2) by auto
    next
      case True
      then obtain er where r: "journal_rollback io (length ?file) JErrIO (dl\<lparr>dl_file := ?f1\<rparr>) = (er, dl')" "res = Inl er"
        using assms(4) io inv(4,5) off by (auto simp: durable_append_def Let_def split: prod.splits)
      obtain t where t: "f_bytes ?f1 = ?file @ t"
        using fb by (cases "ai_write io") (auto simp: file_write_outcome_def file_write_at_end)
      then have tr: "f_bytes (file_truncate (length ?file) ?f1) = ?file" by (simp add: file_truncate_def)
      have "durable_inv base es dl' \<and> (dl_poisoned dl' \<longrightarrow> (\<exists>er'. er = JErrRollback er'))"
        using r(1) inv t tr io(2)
        by (auto simp: journal_rollback_def Let_def durable_inv_def file_seek_def at_end_def split: if_splits)
      then show ?thesis using r(2) io(2) by auto
    qed
  qed
qed

text \<open>A run of appends, each with its own faults; the entries that were acknowledged.\<close>

record append_call =
  ac_op :: string
  ac_key :: bytes
  ac_value :: bytes
  ac_time :: u64

fun durable_run :: "(append_call \<times> append_io) list \<Rightarrow> durable_log \<Rightarrow> rep_entry list \<times> durable_log" where
  "durable_run [] dl = ([], dl)"
| "durable_run ((c, io) # cs) dl =
     (case durable_append (ac_op c) (ac_key c) (ac_value c) (ac_time c) io dl of
        (Inl er, dl') \<Rightarrow> durable_run cs dl'
      | (Inr e, dl') \<Rightarrow> (case durable_run cs dl' of (es, dl'') \<Rightarrow> (e # es, dl'')))"

definition call_fits :: "append_call \<Rightarrow> bool" where
  "call_fits c \<longleftrightarrow> length (ac_key c) < 2 ^ 32 \<and> length (ac_value c) < 2 ^ 32"

lemma durable_run_inv:
  assumes "durable_inv base es dl" "\<forall>(c, io) \<in> set cs. call_fits c" "durable_run cs dl = (acked, dl')"
  shows "durable_inv base (es @ acked) dl'"
  using assms
proof (induction cs arbitrary: es dl acked)
  case (Cons x cs)
  obtain c io where x: "x = (c, io)" by fastforce
  obtain res dl1 where a: "durable_append (ac_op c) (ac_key c) (ac_value c) (ac_time c) io dl = (res, dl1)" by fastforce
  have "call_fits c" using Cons.prems(2) x by auto
  then have fit: "length (ac_key c) < 2 ^ 32" "length (ac_value c) < 2 ^ 32" by (simp_all add: call_fits_def)
  have rest: "\<forall>(c, io) \<in> set cs. call_fits c" using Cons.prems(2) by simp
  from durable_append_cases [OF Cons.prems(1) fit a] show ?case
  proof
    assume "\<exists>e. res = Inr e \<and> e = \<lparr>re_seq = next_seq base (length es), re_op = ac_op c, re_key = ac_key c,
        re_value = ac_value c, re_time = ac_time c\<rparr> \<and> entry_fits_journal e \<and> \<not> dl_poisoned dl \<and> \<not> dl_poisoned dl1
        \<and> durable_inv base (es @ [e]) dl1"
    then obtain e where e: "res = Inr e" "durable_inv base (es @ [e]) dl1" by blast
    obtain acked' where "durable_run cs dl1 = (acked', dl')" "acked = e # acked'"
      using Cons.prems(3) x a e(1) by (auto split: prod.splits)
    then show ?thesis using Cons.IH [OF e(2) rest] by simp
  next
    assume "\<exists>er. res = Inl er \<and> durable_inv base es dl1 \<and> (dl_poisoned dl \<longrightarrow> dl_poisoned dl1)
        \<and> (dl_poisoned dl1 \<longrightarrow> dl_poisoned dl \<or> (\<exists>er'. er = JErrRollback er'))"
    then have "durable_inv base es dl1" "durable_run cs dl1 = (acked, dl')" using Cons.prems(3) x a by auto
    then show ?thesis using Cons.IH [OF _ rest] by blast
  qed
qed simp

text \<open>A directory with nothing in it, or with only a baseline.\<close>

definition fresh_journal :: "journal_baseline json_file \<Rightarrow> journal_dir" where
  "fresh_journal bl = \<lparr>jd_journal = None, jd_baseline = bl\<rparr>"

definition base_of :: "journal_dir \<Rightarrow> u64 option" where
  "base_of d = (case load_baseline d of Inl _ \<Rightarrow> None | Inr None \<Rightarrow> Some 0 | Inr (Some b) \<Rightarrow> Some (jb_base b))"

lemma open_fresh_journal:
  assumes "base_of (fresh_journal bl) = Some base" "base \<noteq> - 1" "open_durable_log None (fresh_journal bl) = (Inr dl, d)"
  shows "durable_inv base [] dl" "jd_baseline d = bl"
proof -
  have "unat base \<noteq> 2 ^ 64 - 1"
    using assms(2) unfolding word_unat_eq_iff by (simp add: unsigned_minus_1_eq_mask mask_eq_exp_minus_1)
  then have b: "unat base < 2 ^ 64 - 1" using unat_u64_bound [of base] by simp
  have z: "\<not> 0 < x \<longleftrightarrow> x = 0" for x :: u64 by (simp add: word_gt_0)
  obtain bo where "load_baseline (fresh_journal bl) = Inr bo" "base = (case bo of None \<Rightarrow> 0 | Some b' \<Rightarrow> jb_base b')"
    using assms(1) by (auto simp: base_of_def split: sum.splits option.splits)
  then have "dl = opened_log base [] [] 1" "d = (fresh_journal bl)\<lparr>jd_journal := Some []\<rparr>"
    using assms(3) z
    by (auto simp: open_durable_log_def fresh_journal_def journal_replay.simps journal_read_nil split: option.splits if_splits)
  then show "durable_inv base [] dl" "jd_baseline d = bl"
    using assms(2) b by (auto simp: durable_inv_def opened_log_def at_end_def next_seq_def fresh_journal_def z)
qed

text \<open>C27: whatever faults the appends of a journal meet (a short write, a failed sync, a failed rollback), the log
  serves exactly the acknowledged entries: \<open>EntriesAfter\<close> returns the first ones with a higher number, up to
  the limit (and panics when the runtime refuses the buffer of that many entries, \<open>page_fits\<close>), the numbers count on from the baseline without a gap, and \<open>LatestSeq\<close> is the last of them.\<close>

theorem durable_log_serves_acknowledged:
  assumes "base_of (fresh_journal bl) = Some base" "base \<noteq> - 1" "open_durable_log None (fresh_journal bl) = (Inr dl0, d)"
    and "\<forall>(c, io) \<in> set cs. call_fits c" "durable_run cs dl0 = (acked, dl)"
  shows "durable_entries_after a lim dl = page_of lim (filter (\<lambda>e. a < re_seq e) acked)
    \<and> map (\<lambda>e. unat (re_seq e)) acked = map (\<lambda>i. unat base + 1 + i) [0..<length acked]
    \<and> unat (latest_seq dl) = unat base + length acked
    \<and> first_available_seq dl = (if acked = [] then 0 else base + 1)"
proof -
  have inv: "durable_inv base acked dl"
    using durable_run_inv [OF open_fresh_journal(1) [OF assms(1-3)] assms(4,5)] by simp
  then have c: "counts_from base (map re_seq acked)" and fits: "\<forall>e \<in> set acked. entry_fits_journal e"
    and ix: "dl_index dl = rows_of 0 (map entry_payload acked)" "dl_base dl = base"
    by (auto simp: durable_inv_def)
  have nums: "map (\<lambda>e. unat (re_seq e)) acked = map (\<lambda>i. unat base + 1 + i) [0..<length acked]"
    using counts_from_nth [OF c] by (intro nth_equalityI) simp_all
  have seq: "ix_seq (dl_index dl ! i) = re_seq (acked ! i)" if "i < length acked" for i
    using that fits by (simp add: ix ix_seq_rows_of payload_seq_entry)
  have "unat (latest_seq dl) = unat base + length acked \<and> first_available_seq dl = (if acked = [] then 0 else base + 1)"
  proof (cases "acked = []")
    case True
    then show ?thesis by (simp add: latest_seq_def first_available_seq_def ix)
  next
    case False
    have len: "length (dl_index dl) = length acked" by (simp add: ix)
    then have ne: "dl_index dl \<noteq> []" "length (dl_index dl) = length acked" using False by (cases "dl_index dl"; simp)+
    have l: "ix_seq (last (dl_index dl)) = re_seq (acked ! (length acked - 1))" "ix_seq (hd (dl_index dl)) = re_seq (acked ! 0)"
      using ne False seq [of "length acked - 1"] seq [of 0] by (simp_all add: last_conv_nth hd_conv_nth)
    have "unat (re_seq (acked ! 0)) = unat base + 1" "unat base < 2 ^ 64 - 1"
      using counts_from_nth [OF c, of 0] counts_from_bound [OF c] False by simp_all
    then have "re_seq (acked ! 0) = base + 1"
      using unat_next_seq [of base 0] by (simp add: word_unat_eq_iff [of "re_seq (acked ! 0)"] next_seq_def)
    then show ?thesis
      using counts_from_nth [OF c, of "length acked - 1"] ne False l
      by (simp add: latest_seq_def first_available_seq_def)
  qed
  then show ?thesis using durable_entries_after_eq [OF inv] nums by blast
qed

section \<open>Recovery\<close>

lemma entry_records_payload:
  "concat (map entry_record es) = concat (map payload_record (map entry_payload es))"
  by (simp add: comp_def)

lemma open_holds:
  assumes "\<forall>e \<in> set es. entry_fits_journal e" "counts_from base (map re_seq es)"
    and "base_of d = Some base" "jd_journal d = Some (concat (map entry_record es) @ t)" "journal_read t = Torn"
  shows "\<exists>dl d'. open_durable_log None d = (Inr dl, d') \<and> durable_inv base es dl"
proof -
  let ?ps = "map entry_payload es" and ?file = "concat (map entry_record es)"
  have z: "\<not> 0 < x \<longleftrightarrow> x = 0" for x :: u64 by (simp add: word_gt_0)
  have ok: "\<forall>p \<in> set ?ps. payload_ok p" using assms(1) entry_payload_ok by auto
  have seqs: "map payload_seq ?ps = map re_seq es" using assms(1) by (simp add: payload_seq_entry)
  have rep: "journal_replay base 0 (?file @ t) [] 1
      = ((if t = [] then Jn_end else Jn_torn (length ?file)), rows_of 0 ?ps,
         if ?ps = [] then 1 else next_seq base (length ?ps))"
    using journal_replay_records [of ?ps base "[]" 0 t 1] ok assms(2,5) unfolding seqs entry_records_payload
    by (simp add: journal_replay.simps)
  have b: "base \<noteq> - 1"
  proof
    assume "base = - 1"
    then have "unat base = 2 ^ 64 - 1" by (simp add: unsigned_minus_1_eq_mask mask_eq_exp_minus_1)
    then show False using assms(2) by (simp add: counts_from_def)
  qed
  obtain bo where bo: "load_baseline d = Inr bo" "base = (case bo of None \<Rightarrow> 0 | Some b' \<Rightarrow> jb_base b')"
    using assms(3) by (auto simp: base_of_def split: sum.splits option.splits)
  then have base: "(case bo of None \<Rightarrow> 0 | Some b' \<Rightarrow> if 0 < jb_base b' then jb_base b' else 0) = base"
    using z by (auto split: option.splits)
  let ?dl = "opened_log base ?file (rows_of 0 ?ps) (if ?ps = [] then 1 else next_seq base (length ?ps))"
  have "\<exists>d'. open_durable_log None d = (Inr ?dl, d')"
    using rep bo(1) base assms(4) by (auto simp: open_durable_log_def Let_def)
  moreover have "durable_inv base es ?dl"
    using assms(1,2) b by (cases es) (auto simp: durable_inv_def opened_log_def at_end_def next_seq_def z)
  ultimately show ?thesis by blast
qed

lemma open_cut_after_length:
  assumes "\<forall>e \<in> set es. entry_fits_journal e" "counts_from base (map re_seq es)"
    and "base_of d = Some base" "jd_journal d = Some (concat (map entry_record es) @ t)" "journal_read t = Bad 0"
  shows "fst (open_durable_log None d) = Inl JErrIO"
proof -
  let ?ps = "map entry_payload es"
  have ok: "\<forall>p \<in> set ?ps. payload_ok p" using assms(1) entry_payload_ok by auto
  have seqs: "map payload_seq ?ps = map re_seq es" using assms(1) by (simp add: payload_seq_entry)
  have rep: "fst (journal_replay base 0 (concat (map entry_record es) @ t) [] 1) = Jn_error JErrIO"
    using journal_replay_records [of ?ps base "[]" 0 t 1] ok assms(2,5) unfolding seqs entry_records_payload
    by (simp add: journal_replay.simps)
  have z: "\<not> 0 < x \<longleftrightarrow> x = 0" for x :: u64 by (simp add: word_gt_0)
  obtain bo where bo: "load_baseline d = Inr bo" "base = (case bo of None \<Rightarrow> 0 | Some b' \<Rightarrow> jb_base b')"
    using assms(3) by (auto simp: base_of_def split: sum.splits option.splits)
  then have "(case bo of None \<Rightarrow> 0 | Some b' \<Rightarrow> if 0 < jb_base b' then jb_base b' else 0) = base"
    using z by (auto split: option.splits)
  then show ?thesis using rep bo(1) assms(4) by (auto simp: open_durable_log_def Let_def split: prod.splits)
qed

text \<open>C26: crash recovery of the journal. After appends with any faults that left the log usable, let the next
  append crash with \<open>n\<close> bytes of its record on disk. Reopening recovers every acknowledged entry, and the
  unacknowledged one only if its record is whole, as every page read afterwards shows; but if exactly the length field was written the journal
  cannot be opened at all, as the end of the file right after it is not taken for a torn record.\<close>

theorem journal_crash_recovery:
  assumes "base_of (fresh_journal bl) = Some base" "base \<noteq> - 1" "open_durable_log None (fresh_journal bl) = (Inr dl0, d)"
    and "\<forall>(c, io) \<in> set cs. call_fits c" "durable_run cs dl0 = (acked, dl)" "\<not> dl_poisoned dl"
    and "entry_fits_journal e" "re_seq e = dl_next dl" "dl_next dl \<noteq> - 1" "n \<le> length (entry_record e)"
  shows "let crashed = d\<lparr>jd_journal := Some (f_bytes (dl_file dl) @ take n (entry_record e))\<rparr> in
    if n = 4 then fst (open_durable_log None crashed) = Inl JErrIO
    else \<exists>dl' d'. open_durable_log None crashed = (Inr dl', d')
      \<and> durable_entries_after a lim dl' = page_of lim (filter (\<lambda>x. a < re_seq x)
          (acked @ (if n = length (entry_record e) then [e] else [])))"
proof -
  have inv: "durable_inv base acked dl"
    using durable_run_inv [OF open_fresh_journal(1) [OF assms(1-3)] assms(4,5)] by simp
  then have c: "counts_from base (map re_seq acked)" and fits: "\<forall>e \<in> set acked. entry_fits_journal e"
    and fb: "f_bytes (dl_file dl) = concat (map entry_record acked)" and nx: "dl_next dl = next_seq base (length acked)"
    using assms(6) by (auto simp: durable_inv_def)
  let ?t = "take n (entry_record e)"
  let ?d = "d\<lparr>jd_journal := Some (f_bytes (dl_file dl) @ ?t)\<rparr>"
  have base: "base_of ?d = Some base"
    using assms(1) open_fresh_journal(2) [OF assms(1-3)] by (simp add: base_of_def load_baseline_def fresh_journal_def)
  have cut: "journal_read ?t = (if n = 4 then Bad 0 else Torn)" if "n < length (entry_record e)"
    using journal_read_cut [OF entry_payload_ok [OF assms(7)], of n] that by simp
  have len: "\<not> length (entry_record e) \<le> 4" by simp
  show ?thesis
  proof (cases "n = length (entry_record e)")
    case False
    then have n: "n < length (entry_record e)" using assms(10) by simp
    show ?thesis
      using open_holds [OF fits c base, of ?t] open_cut_after_length [OF fits c base, of ?t] cut [OF n] fb False
        durable_entries_after_eq [of base acked _ a lim] by (auto simp: Let_def)
  next
    case True
    have b: "unat base + length acked < 2 ^ 64 - 1" using c by (simp add: counts_from_def)
    have "unat base + length acked + 1 < 2 ^ 64 - 1"
    proof (rule ccontr)
      assume "\<not> ?thesis"
      then have "unat (dl_next dl) = unat (- 1 :: u64)"
        using unat_next_seq [OF b] b nx by (simp add: unsigned_minus_1_eq_mask mask_eq_exp_minus_1)
      then show False using assms(9) by (simp add: word_unat_eq_iff)
    qed
    then have c': "counts_from base (map re_seq (acked @ [e]))"
      using c unat_next_seq [OF b] assms(8) nx by (simp add: counts_from_snoc)
    have fits': "\<forall>x \<in> set (acked @ [e]). entry_fits_journal x" using fits assms(7) by simp
    have "jd_journal ?d = Some (concat (map entry_record (acked @ [e])) @ [])" using fb True by simp
    then obtain dl' d' where "open_durable_log None ?d = (Inr dl', d')" "durable_inv base (acked @ [e]) dl'"
      using open_holds [OF fits' c' base _ journal_read_nil] by blast
    then show ?thesis using True len durable_entries_after_eq [of base "acked @ [e]" dl' a lim] by (simp add: Let_def)
  qed
qed

text \<open>Opening is sound on arbitrary bytes. Whatever the journal file holds, if it opens then the file is a
  sequence of records with correct checksums and consecutive numbers from the baseline on, the index lists
  exactly them, the file is cut to them, and the next number continues them without wrapping around.\<close>

theorem journal_open_sound:
  assumes "open_durable_log fault d = (Inr dl, d')" "base_of d = Some base" "base \<noteq> - 1"
  shows "\<exists>ps. f_bytes (dl_file dl) = concat (map payload_record ps) \<and> (\<forall>p \<in> set ps. payload_ok p)
    \<and> jd_journal d' = Some (f_bytes (dl_file dl)) \<and> at_end (dl_file dl)
    \<and> (\<exists>t. (case jd_journal d of None \<Rightarrow> [] | Some bs \<Rightarrow> bs) = f_bytes (dl_file dl) @ t)
    \<and> dl_index dl = rows_of 0 ps \<and> counts_from base (map payload_seq ps) \<and> unat (dl_next dl) = unat base + 1 + length ps"
proof -
  have z: "\<not> 0 < x \<longleftrightarrow> x = 0" for x :: u64 by (simp add: word_gt_0)
  define bs where "bs = (case jd_journal d of None \<Rightarrow> [] | Some b \<Rightarrow> b)"
  obtain bo where bo: "load_baseline d = Inr bo" "base = (case bo of None \<Rightarrow> 0 | Some b' \<Rightarrow> jb_base b')"
    using assms(2) by (auto simp: base_of_def split: sum.splits option.splits)
  then have base: "(case bo of None \<Rightarrow> 0 | Some b' \<Rightarrow> if 0 < jb_base b' then jb_base b' else 0) = base"
    using z by (auto split: option.splits)
  obtain e index "next" where rep: "journal_replay base 0 bs [] 1 = (e, index, next)" by (metis prod_cases3)
  have "unat base \<noteq> 2 ^ 64 - 1"
    using assms(3) unfolding word_unat_eq_iff by (simp add: unsigned_minus_1_eq_mask mask_eq_exp_minus_1)
  then have b: "unat base < 2 ^ 64 - 1" using unat_u64_bound [of base] by simp
  obtain ps t where ps: "bs = concat (map payload_record ps) @ t" "\<forall>p \<in> set ps. payload_ok p" "index = rows_of 0 ps"
      "counts_from base (map payload_seq ps)" "next = (if ps = [] then 1 else next_seq base (length ps))"
      "e = Jn_end \<longrightarrow> t = []" "\<forall>p. e = Jn_torn p \<longrightarrow> p = length (concat (map payload_record ps))"
    using journal_replay_sound [OF rep] b by (simp only: list.map append_Nil list.size add_0_left counts_from_nil) blast
  have res: "dl = opened_log base (concat (map payload_record ps)) index next"
    "jd_journal d' = Some (concat (map payload_record ps))"
    using assms(1) rep bo(1) base ps(1,6,7)
    by (auto simp: open_durable_log_def bs_def [symmetric] Let_def split: if_splits journal_end.splits)
  have "unat (dl_next dl) = unat base + 1 + length ps"
    using unat_next_seq [of base "length ps"] counts_from_bound [OF ps(4)] assms(3) unat_next_seq [of base 0] b
    by (cases ps) (auto simp: res(1) opened_log_def ps(3,5) next_seq_def z)
  then show ?thesis
    using ps res by (intro exI [of _ ps]) (auto simp: opened_log_def at_end_def bs_def)
qed

section \<open>The interface of a mutation log\<close>

text \<open>What a primary needs of its log, in memory or durable: \<open>holds es l\<close> says that \<open>l\<close> stores exactly \<open>es\<close>.\<close>

locale mutation_log =
  fixes holds :: "rep_entry list \<Rightarrow> 'l \<Rightarrow> bool"
    and append :: "string \<Rightarrow> bytes \<Rightarrow> bytes \<Rightarrow> u64 \<Rightarrow> 'l \<Rightarrow> (rep_error + rep_entry) \<times> 'l"
    and after :: "u64 \<Rightarrow> int \<Rightarrow> 'l \<Rightarrow> rep_error + rep_entry list"
  assumes append_ok: "holds es l \<Longrightarrow> valid_entry op key \<Longrightarrow> length key + length val + 33 < 2 ^ 32 \<Longrightarrow> length es < 2 ^ 62
      \<Longrightarrow> \<exists>l'. append op key val now l =
            (Inr \<lparr>re_seq = next_seq 0 (length es), re_op = op, re_key = key, re_value = val, re_time = now\<rparr>, l')
          \<and> holds (es @ [\<lparr>re_seq = next_seq 0 (length es), re_op = op, re_key = key, re_value = val, re_time = now\<rparr>]) l'"
    and append_invalid: "holds es l \<Longrightarrow> \<not> valid_entry op key \<Longrightarrow> append op key val now l = (Inl JErrInvalidEntry, l)"
    and after_ok: "holds es l \<Longrightarrow> after a lim l = page_of lim (filter (\<lambda>e. a < re_seq e) es)"
    and ascending: "holds es l \<Longrightarrow> sorted_wrt (\<lambda>x y. re_seq x < re_seq y) es"

text \<open>Running calls, and reading page by page from the last number seen.\<close>

fun run_calls ::
    "(string \<Rightarrow> bytes \<Rightarrow> bytes \<Rightarrow> u64 \<Rightarrow> 'l \<Rightarrow> (rep_error + rep_entry) \<times> 'l) \<Rightarrow> append_call list \<Rightarrow> 'l
     \<Rightarrow> (rep_error + rep_entry) list \<times> 'l" where
  "run_calls app [] l = ([], l)"
| "run_calls app (c # cs) l =
     (case app (ac_op c) (ac_key c) (ac_value c) (ac_time c) l of
        (r, l') \<Rightarrow> (case run_calls app cs l' of (rs, l'') \<Rightarrow> (r # rs, l'')))"

fun pull_pages :: "(u64 \<Rightarrow> int \<Rightarrow> 'l \<Rightarrow> rep_error + rep_entry list) \<Rightarrow> nat \<Rightarrow> u64 \<Rightarrow> int \<Rightarrow> 'l \<Rightarrow> rep_entry list" where
  "pull_pages after 0 a lim l = []"
| "pull_pages after (Suc n) a lim l =
     (case after a lim l of
        Inl _ \<Rightarrow> []
      | Inr page \<Rightarrow> if page = [] then [] else page @ pull_pages after n (re_seq (last page)) lim l)"

text \<open>The results a mutation log must give, by the calls alone.\<close>

fun spec_results :: "nat \<Rightarrow> append_call list \<Rightarrow> (rep_error + rep_entry) list" where
  "spec_results n [] = []"
| "spec_results n (c # cs) =
     (if valid_entry (ac_op c) (ac_key c) then
        Inr \<lparr>re_seq = next_seq 0 n, re_op = ac_op c, re_key = ac_key c, re_value = ac_value c, re_time = ac_time c\<rparr>
        # spec_results (n + 1) cs
      else Inl JErrInvalidEntry # spec_results n cs)"

definition acknowledged :: "(rep_error + rep_entry) list \<Rightarrow> rep_entry list" where
  "acknowledged rs = List.map_filter (\<lambda>r. case r of Inl _ \<Rightarrow> None | Inr e \<Rightarrow> Some e) rs"

lemma acknowledged_simps [simp]:
  "acknowledged [] = []" "acknowledged (Inl er # rs) = acknowledged rs" "acknowledged (Inr e # rs) = e # acknowledged rs"
  by (simp_all add: acknowledged_def map_filter_simps)

context mutation_log begin

lemma run_spec:
  assumes "holds es l" "\<forall>c \<in> set cs. length (ac_key c) + length (ac_value c) + 33 < 2 ^ 32" "length es + length cs < 2 ^ 62"
  shows "\<exists>l'. run_calls append cs l = (spec_results (length es) cs, l') \<and> holds (es @ acknowledged (spec_results (length es) cs)) l'"
  using assms
proof (induction cs arbitrary: es l)
  case (Cons c cs)
  have fit: "length (ac_key c) + length (ac_value c) + 33 < 2 ^ 32" using Cons.prems(2) by simp
  have rest: "\<forall>c \<in> set cs. length (ac_key c) + length (ac_value c) + 33 < 2 ^ 32" using Cons.prems(2) by simp
  show ?case
  proof (cases "valid_entry (ac_op c) (ac_key c)")
    case True
    let ?e = "\<lparr>re_seq = next_seq 0 (length es), re_op = ac_op c, re_key = ac_key c, re_value = ac_value c, re_time = ac_time c\<rparr>"
    obtain l1 where l1: "append (ac_op c) (ac_key c) (ac_value c) (ac_time c) l = (Inr ?e, l1)" "holds (es @ [?e]) l1"
      using append_ok [OF Cons.prems(1) True fit] Cons.prems(3) by fastforce
    obtain l' where "run_calls append cs l1 = (spec_results (length (es @ [?e])) cs, l')"
        "holds ((es @ [?e]) @ acknowledged (spec_results (length (es @ [?e])) cs)) l'"
      using Cons.IH [OF l1(2) rest] Cons.prems(3) by auto
    then show ?thesis using l1(1) True by auto
  next
    case False
    obtain l' where "run_calls append cs l = (spec_results (length es) cs, l')"
        "holds (es @ acknowledged (spec_results (length es) cs)) l'"
      using Cons.IH [OF Cons.prems(1) rest] Cons.prems(3) by auto
    then show ?thesis using append_invalid [OF Cons.prems(1) False] False by auto
  qed
qed simp

lemma filter_after_last:
  assumes "sorted_wrt (\<lambda>x y. re_seq x < re_seq y) es" "take (Suc m) es \<noteq> []"
  shows "filter (\<lambda>e. re_seq (last (take (Suc m) es)) < re_seq e) es = drop (Suc m) es"
  using assms
proof (induction es arbitrary: m)
  case (Cons e es)
  show ?case
  proof (cases "m = 0 \<or> es = []")
    case True
    then show ?thesis using Cons.prems by (auto simp: filter_id_conv)
  next
    case False
    then obtain m' where m: "m = Suc m'" by (cases m) auto
    have "last (take (Suc m') es) \<in> set es" using False by (metis in_set_takeD last_in_set take_eq_Nil nat.distinct(1))
    then have "\<not> re_seq (last (take (Suc m') es)) < re_seq e" using Cons.prems(1) by (auto simp: less_le_not_le)
    then show ?thesis using Cons False m by simp
  qed
qed simp

text \<open>Reading page by page gets every entry.\<close>

lemma pull_pages_complete:
  assumes "holds es l" "length (filter (\<lambda>e. a < re_seq e) es) \<le> n" and fits: "page_fits lim"
  shows "pull_pages after n a lim l = filter (\<lambda>e. a < re_seq e) es"
  using assms(2)
proof (induction n arbitrary: a)
  case (Suc n)
  let ?f = "filter (\<lambda>e. a < re_seq e) es"
  have page: "after c lim l = Inr (take (effective_limit lim) (filter (\<lambda>e. c < re_seq e) es))" for c
    by (simp add: after_ok [OF assms(1)] page_of_fits [OF fits])
  obtain m where m: "effective_limit lim = Suc m"
    by (cases "effective_limit lim") (auto simp: effective_limit_def default_entries_limit_def split: if_splits)
  have s: "sorted_wrt (\<lambda>x y. re_seq x < re_seq y) ?f" using ascending [OF assms(1)] by (rule sorted_wrt_filter)
  show ?case
  proof (cases "?f = []")
    case False
    let ?last = "last (take (Suc m) ?f)"
    have "?last \<in> set ?f" using False by (metis in_set_takeD last_in_set take_eq_Nil nat.distinct(1))
    then have "a < re_seq ?last" by simp
    then have "filter (\<lambda>e. re_seq ?last < re_seq e) es = filter (\<lambda>e. re_seq ?last < re_seq e) ?f"
      by (auto intro: filter_cong)
    also have "\<dots> = drop (Suc m) ?f" using filter_after_last [OF s] False by simp
    finally have rest: "filter (\<lambda>e. re_seq ?last < re_seq e) es = drop (Suc m) ?f" .
    have "pull_pages after n (re_seq ?last) lim l = drop (Suc m) ?f"
      using Suc.IH [of "re_seq ?last"] Suc.prems unfolding rest by simp
    then show ?thesis using page [of a] m False by simp
  qed (use page [of a] in simp)
qed simp

end

section \<open>Both logs keep the interface\<close>

definition mem_holds :: "rep_entry list \<Rightarrow> mem_log \<Rightarrow> bool" where
  "mem_holds es l \<longleftrightarrow> ml_entries l = es \<and> ml_next l = next_seq 0 (length es) \<and> \<not> ml_closed l
     \<and> counts_from 0 (map re_seq es)"

definition durable_holds :: "rep_entry list \<Rightarrow> durable_log \<Rightarrow> bool" where
  "durable_holds es dl \<longleftrightarrow> durable_inv 0 es dl \<and> \<not> dl_poisoned dl"

lemma counts_ascending: "counts_from base (map re_seq es) \<Longrightarrow> sorted_wrt (\<lambda>x y. re_seq x < re_seq y) es"
  using counts_from_nth [of base "map re_seq es"] by (auto simp: sorted_wrt_iff_nth_less word_less_nat_alt)

lemma collect_after_filter:
  "length acc < Suc m \<Longrightarrow> collect_after a (Suc m) acc es = acc @ take (Suc m - length acc) (filter (\<lambda>e. a < re_seq e) es)"
proof (induction es arbitrary: acc)
  case (Cons e es)
  show ?case
  proof (cases "a < re_seq e")
    case True
    show ?thesis
    proof (cases "length (acc @ [e]) < Suc m")
      case l: True
      then show ?thesis using True Cons.IH [OF l] by (simp add: Suc_diff_le)
    next
      case False
      then have "length acc = m" using Cons.prems by simp
      then show ?thesis using True by simp
    qed
  qed (use Cons in simp)
qed simp

lemma effective_limit_Suc: "\<exists>m. effective_limit lim = Suc m"
  by (cases "effective_limit lim") (auto simp: effective_limit_def default_entries_limit_def split: if_splits)

interpretation memory: mutation_log mem_holds log_append log_entries_after
proof
  fix es :: "rep_entry list" and l :: mem_log and op and key val :: bytes and now a lim
  let ?e = "\<lparr>re_seq = next_seq 0 (length es), re_op = op, re_key = key, re_value = val, re_time = now\<rparr>"
  assume h: "mem_holds es l"
  show "\<exists>l'. log_append op key val now l = (Inr ?e, l') \<and> mem_holds (es @ [?e]) l'"
    if "valid_entry op key" "length es < 2 ^ 62"
  proof -
    have "unat (next_seq 0 (length es)) = 1 + length es" using unat_next_seq [of 0 "length es"] that(2) by simp
    then show ?thesis
      using h that by (simp add: mem_holds_def log_append_def Let_def next_seq_Suc counts_from_snoc)
  qed
  show "\<not> valid_entry op key \<Longrightarrow> log_append op key val now l = (Inl JErrInvalidEntry, l)"
    by (simp add: log_append_def)
  show "sorted_wrt (\<lambda>x y. re_seq x < re_seq y) es" using h by (auto simp: mem_holds_def intro: counts_ascending)
  obtain m where "effective_limit lim = Suc m" using effective_limit_Suc by blast
  then show "log_entries_after a lim l = page_of lim (filter (\<lambda>e. a < re_seq e) es)"
    using h collect_after_filter [of "[]" m a es] by (simp add: mem_holds_def log_entries_after_def page_of_def)
qed

lemma durable_append_good:
  assumes "durable_holds es dl" "valid_entry op key" "length key + length val + 33 < 2 ^ 32" "length es < 2 ^ 62"
  shows "\<exists>dl'. durable_append op key val now good_io dl =
      (Inr \<lparr>re_seq = next_seq 0 (length es), re_op = op, re_key = key, re_value = val, re_time = now\<rparr>, dl')
    \<and> durable_holds (es @ [\<lparr>re_seq = next_seq 0 (length es), re_op = op, re_key = key, re_value = val, re_time = now\<rparr>]) dl'"
proof -
  let ?q = "next_seq 0 (length es)"
  have inv: "durable_inv 0 es dl" "\<not> dl_poisoned dl" "\<not> dl_closed dl" "dl_next dl = ?q"
    using assms(1) by (auto simp: durable_holds_def durable_inv_def)
  have l: "length key < 2 ^ 32" "length val < 2 ^ 32" using assms(3) by simp_all
  then have "encode_journal_record ?q op key val now \<noteq> None"
    using assms(3) by (simp add: encode_journal_record_def unat_len32 Let_def)
  moreover have "?q \<noteq> - 1"
  proof
    assume "?q = - 1"
    then have "unat ?q = 2 ^ 64 - 1" by (simp add: unsigned_minus_1_eq_mask mask_eq_exp_minus_1)
    then show False using unat_next_seq [of 0 "length es"] assms(4) by simp
  qed
  ultimately obtain e dl' where a: "durable_append op key val now good_io dl = (Inr e, dl')"
    using inv assms(2) by (auto simp: durable_append_def good_io_def Let_def)
  then show ?thesis
    using durable_append_cases [OF inv(1) l a] by (auto simp: durable_holds_def)
qed

interpretation durable: mutation_log durable_holds "\<lambda>op key val now. durable_append op key val now good_io" durable_entries_after
proof
  fix es :: "rep_entry list" and l op and key val :: bytes and now a lim
  assume h: "durable_holds es l"
  then show "\<not> valid_entry op key \<Longrightarrow> durable_append op key val now good_io l = (Inl JErrInvalidEntry, l)"
    by (simp add: durable_append_def)
  show "durable_entries_after a lim l = page_of lim (filter (\<lambda>e. a < re_seq e) es)"
    using h by (intro durable_entries_after_eq [of 0]) (simp add: durable_holds_def)
  show "sorted_wrt (\<lambda>x y. re_seq x < re_seq y) es"
    using h by (auto simp: durable_holds_def durable_inv_def intro: counts_ascending)
qed (rule durable_append_good)

lemma new_log_holds: "mem_holds [] new_log"
  by (simp add: mem_holds_def new_log_def next_seq_def)

lemma open_empty_journal:
  "\<exists>dl d. open_durable_log None (fresh_journal No_file) = (Inr dl, d) \<and> durable_holds [] dl"
proof -
  have b: "base_of (fresh_journal No_file) = Some 0" by (simp add: base_of_def load_baseline_def fresh_journal_def)
  obtain dl d where o: "open_durable_log None (fresh_journal No_file) = (Inr dl, d)" "\<not> dl_poisoned dl"
    by (auto simp: open_durable_log_def load_baseline_def fresh_journal_def journal_replay.simps journal_read_nil opened_log_def)
  show ?thesis using o open_fresh_journal(1) [OF b _ o(1)] by (auto simp: durable_holds_def)
qed

text \<open>C28: the durable log is equivalent to the in-memory log. From empty logs, any calls whose keys and values fit
  a record get the same results from both, error for error and entry for entry, and afterwards
  \<open>EntriesAfter\<close> agrees for every cursor and limit, also on the limits at which it panics.\<close>

theorem durable_log_equals_memory_log:
  assumes "open_durable_log None (fresh_journal No_file) = (Inr dl, d)" "length cs < 2 ^ 62"
    and "\<forall>c \<in> set cs. length (ac_key c) + length (ac_value c) + 33 < 2 ^ 32"
  shows "fst (run_calls (\<lambda>op key val now. durable_append op key val now good_io) cs dl) = fst (run_calls log_append cs new_log)
    \<and> durable_entries_after a lim (snd (run_calls (\<lambda>op key val now. durable_append op key val now good_io) cs dl))
      = log_entries_after a lim (snd (run_calls log_append cs new_log))"
proof -
  have h: "durable_holds [] dl" using open_empty_journal assms(1) by auto
  obtain dl' where d: "run_calls (\<lambda>op key val now. durable_append op key val now good_io) cs dl = (spec_results 0 cs, dl')"
      "durable_holds (acknowledged (spec_results 0 cs)) dl'"
    using durable.run_spec [OF h assms(3)] assms(2) by auto
  obtain l' where l: "run_calls log_append cs new_log = (spec_results 0 cs, l')" "mem_holds (acknowledged (spec_results 0 cs)) l'"
    using memory.run_spec [OF new_log_holds assms(3)] assms(2) by auto
  show ?thesis using d l durable.after_ok [OF d(2)] memory.after_ok [OF l(2)] by simp
qed

text \<open>C29: a reader catches up. Pulling pages from a durable log with any limit whose page buffer the runtime accepts (a
  limit of 0 or less means 1000; 80 bytes an entry, at most 2^48 bytes, and the process has that memory), each
  page after the last number of the one before, ends with every acknowledged entry after the start, in
  order and once, in at most as many pages as there are such entries. With a larger limit \<open>EntriesAfter\<close>
  panics at every cursor.\<close>

theorem journal_pull_complete:
  assumes "open_durable_log None (fresh_journal No_file) = (Inr dl, d)" "length cs < 2 ^ 62"
    and "\<forall>c \<in> set cs. length (ac_key c) + length (ac_value c) + 33 < 2 ^ 32"
    and "run_calls (\<lambda>op key val now. durable_append op key val now good_io) cs dl = (rs, dl')"
    and "length (filter (\<lambda>e. a < re_seq e) (acknowledged rs)) \<le> n"
  shows "if page_fits lim then pull_pages durable_entries_after n a lim dl' = filter (\<lambda>e. a < re_seq e) (acknowledged rs)
    else \<forall>c. durable_entries_after c lim dl' = Inl JErrPanic"
proof -
  have h: "durable_holds [] dl" using open_empty_journal assms(1) by auto
  then have "durable_holds (acknowledged rs) dl'"
    using durable.run_spec [OF h assms(3)] assms(2,4) by auto
  then show ?thesis using durable.pull_pages_complete [OF _ assms(5)] durable.after_ok by (simp add: page_of_def)
qed

section \<open>Baselines\<close>

text \<open>The baseline of a promoted primary. \<open>CreateJournalBaseline\<close> on a directory without journal and without
  baseline makes a journal that opens with the next number \<open>base + 1\<close>; asking again for the same number
  changes nothing, asking for another is a conflict; the largest number is refused at once.\<close>

theorem journal_baseline_created:
  "if base = - 1 then create_baseline None True base (fresh_journal No_file) = (Some JErrBaselineMax, fresh_journal No_file)
   else \<exists>d. create_baseline None True base (fresh_journal No_file) = (None, d)
     \<and> create_baseline None True base d = (None, d)
     \<and> (other \<noteq> base \<longrightarrow> other \<noteq> - 1 \<longrightarrow> create_baseline None True other d = (Some JErrBaselineConflict, d))
     \<and> (\<exists>dl d'. open_durable_log None d = (Inr dl, d') \<and> dl_next dl = base + 1 \<and> latest_seq dl = base \<and> dl_index dl = [])"
proof (cases "base = - 1")
  case False
  let ?b = "\<lparr>jb_version = baseline_version, jb_base = base, jb_checksum = 0\<rparr>"
  let ?b' = "?b\<lparr>jb_checksum := baseline_checksum ?b\<rparr>"
  let ?d = "fresh_journal (Json_file ?b')"
  have sum: "baseline_checksum ?b' = baseline_checksum ?b" by (simp add: baseline_checksum_def)
  then have load: "load_baseline ?d = Inr (Some ?b')" by (simp add: load_baseline_def fresh_journal_def)
  have create: "create_baseline None True base (fresh_journal No_file) = (None, ?d)"
    using False by (simp add: create_baseline_def load_baseline_def fresh_journal_def journal_compatibility_check_def save_baseline_def)
  moreover have "create_baseline None True base ?d = (None, ?d)"
    using False load by (simp add: create_baseline_def journal_compatibility_check_def) (simp add: fresh_journal_def)
  moreover have "other \<noteq> base \<Longrightarrow> other \<noteq> - 1 \<Longrightarrow> create_baseline None True other ?d = (Some JErrBaselineConflict, ?d)"
    using load by (simp add: create_baseline_def)
  moreover have "\<exists>dl d'. open_durable_log None ?d = (Inr dl, d') \<and> dl_next dl = base + 1 \<and> latest_seq dl = base \<and> dl_index dl = []"
    using load False
    by (auto simp: open_durable_log_def Let_def journal_replay.simps journal_read_nil opened_log_def latest_seq_def word_gt_0)
       (simp_all add: fresh_journal_def journal_replay.simps journal_read_nil)
  ultimately show ?thesis using False by auto
qed (simp add: create_baseline_def)

theorem journal_baseline_created_witness:
  "\<exists>d. create_baseline None True 7 (fresh_journal No_file) = (None, d) \<and> create_baseline None True 7 d = (None, d)
    \<and> create_baseline None True 8 d = (Some JErrBaselineConflict, d)"
  using journal_baseline_created [of 7 8] by auto

section \<open>Concrete runs\<close>

definition demo_calls :: "append_call list" where
  "demo_calls = [\<lparr>ac_op = op_put, ac_key = [107], ac_value = [1], ac_time = 5\<rparr>,
     \<lparr>ac_op = ''mul'', ac_key = [107], ac_value = [], ac_time = 6\<rparr>,
     \<lparr>ac_op = op_delete, ac_key = [107], ac_value = [], ac_time = 7\<rparr>]"

definition demo_first :: rep_entry where
  "demo_first = \<lparr>re_seq = 1, re_op = op_put, re_key = [107], re_value = [1], re_time = 5\<rparr>"

definition demo_second :: rep_entry where
  "demo_second = \<lparr>re_seq = 2, re_op = op_delete, re_key = [107], re_value = [], re_time = 7\<rparr>"

lemma demo_calls_fit:
  "\<forall>c \<in> set demo_calls. length (ac_key c) + length (ac_value c) + 33 < 2 ^ 32"
  "length demo_calls < 2 ^ 62" "spec_results 0 demo_calls = [Inr demo_first, Inl JErrInvalidEntry, Inr demo_second]"
  by (simp_all add: demo_calls_def demo_first_def demo_second_def valid_entry_def op_put_def op_delete_def next_seq_def)

text \<open>One append, then one whose sync fails and whose rollback succeeds.\<close>

definition faulty_run :: "(append_call \<times> append_io) list" where
  "faulty_run = [(demo_calls ! 0, good_io), (demo_calls ! 2, good_io\<lparr>ai_sync := False\<rparr>)]"

lemma faulty_run_result:
  obtains dl0 d dl where "open_durable_log None (fresh_journal No_file) = (Inr dl0, d)"
    "durable_run faulty_run dl0 = ([demo_first], dl)" "\<not> dl_poisoned dl" "dl_next dl = 2"
proof -
  obtain dl0 d where o: "open_durable_log None (fresh_journal No_file) = (Inr dl0, d)" "durable_holds [] dl0"
    using open_empty_journal by blast
  let ?c = "demo_calls ! 0" and ?c2 = "demo_calls ! 2"
  have c: "?c = \<lparr>ac_op = op_put, ac_key = [107], ac_value = [1], ac_time = 5\<rparr>"
    "?c2 = \<lparr>ac_op = op_delete, ac_key = [107], ac_value = [], ac_time = 7\<rparr>"
    by (simp_all add: demo_calls_def numeral_2_eq_2)
  have v: "valid_entry op_put [107]" "valid_entry op_delete [107]"
    by (simp_all add: valid_entry_def op_put_def op_delete_def)
  obtain dl1 where a1: "durable_append op_put [107] [1] 5 good_io dl0 = (Inr demo_first, dl1)" "durable_holds [demo_first] dl1"
    using durable_append_good [OF o(2) v(1), of "[1]" 5] by (auto simp: demo_first_def next_seq_def)
  have h1: "\<not> dl_closed dl1" "\<not> dl_poisoned dl1" "dl_next dl1 = 2"
    using a1(2) by (auto simp: durable_holds_def durable_inv_def next_seq_def)
  obtain dl where a2: "durable_append op_delete [107] [] 7 (good_io\<lparr>ai_sync := False\<rparr>) dl1 = (Inl JErrIO, dl)"
      "\<not> dl_poisoned dl" "dl_next dl = 2"
    using h1 v(2)
    by (auto simp: durable_append_def good_io_def journal_rollback_def encode_journal_record_def len32_def Let_def)
  have "durable_run faulty_run dl0 = ([demo_first], dl)"
    using a1(1) a2(1) by (simp add: faulty_run_def c)
  then show thesis using that o(1) a2 by blast
qed

lemma demo_base: "base_of (fresh_journal No_file) = Some 0"
  by (simp add: base_of_def load_baseline_def fresh_journal_def)

lemma faulty_run_fits: "\<forall>(c, io) \<in> set faulty_run. call_fits c"
proof -
  have "call_fits (demo_calls ! 0)" "call_fits (demo_calls ! 2)" by (simp_all add: demo_calls_def call_fits_def)
  then show ?thesis by (simp add: faulty_run_def)
qed

theorem durable_log_serves_acknowledged_witness:
  "\<exists>dl0 d dl. open_durable_log None (fresh_journal No_file) = (Inr dl0, d)
    \<and> durable_run faulty_run dl0 = ([demo_first], dl)
    \<and> durable_entries_after 0 10 dl = Inr [demo_first] \<and> unat (latest_seq dl) = 1"
proof -
  obtain dl0 d dl where r: "open_durable_log None (fresh_journal No_file) = (Inr dl0, d)"
    "durable_run faulty_run dl0 = ([demo_first], dl)" by (rule faulty_run_result)
  have "durable_entries_after 0 10 dl = Inr [demo_first] \<and> unat (latest_seq dl) = 1"
    using durable_log_serves_acknowledged [OF demo_base _ r(1) faulty_run_fits r(2), of 0 10]
    by (simp add: page_of_def page_fits_def effective_limit_def demo_first_def)
  with r show ?thesis by blast
qed

theorem journal_crash_recovery_witness:
  "\<exists>dl0 d dl. open_durable_log None (fresh_journal No_file) = (Inr dl0, d) \<and> durable_run faulty_run dl0 = ([demo_first], dl)
    \<and> (\<exists>dl' d'. open_durable_log None (d\<lparr>jd_journal := Some (f_bytes (dl_file dl) @ take 7 (entry_record demo_second))\<rparr>) = (Inr dl', d')
        \<and> durable_entries_after 0 10 dl' = Inr [demo_first])
    \<and> fst (open_durable_log None (d\<lparr>jd_journal := Some (f_bytes (dl_file dl) @ take 4 (entry_record demo_second))\<rparr>)) = Inl JErrIO"
proof -
  obtain dl0 d dl where r: "open_durable_log None (fresh_journal No_file) = (Inr dl0, d)"
    "durable_run faulty_run dl0 = ([demo_first], dl)" "\<not> dl_poisoned dl" "dl_next dl = 2" by (rule faulty_run_result)
  have e: "entry_fits_journal demo_second" "re_seq demo_second = dl_next dl" "dl_next dl \<noteq> - 1"
    by (simp_all add: demo_second_def entry_fits_journal_def valid_entry_def op_delete_def op_put_def r(4))
  have len: "length (entry_record demo_second) = 34"
    using length_entry_payload [OF e(1)] by (simp add: demo_second_def)
  have crash: "let crashed = d\<lparr>jd_journal := Some (f_bytes (dl_file dl) @ take n (entry_record demo_second))\<rparr> in
      if n = 4 then fst (open_durable_log None crashed) = Inl JErrIO
      else \<exists>dl' d'. open_durable_log None crashed = (Inr dl', d')
        \<and> durable_entries_after 0 10 dl' = page_of 10 (filter (\<lambda>x. 0 < re_seq x)
            ([demo_first] @ (if n = length (entry_record demo_second) then [demo_second] else [])))" if "n \<le> 34" for n
    by (rule journal_crash_recovery [OF demo_base _ r(1) faulty_run_fits r(2,3) e]) (use len that in simp_all)
  have "\<exists>dl' d'. open_durable_log None (d\<lparr>jd_journal := Some (f_bytes (dl_file dl) @ take 7 (entry_record demo_second))\<rparr>) = (Inr dl', d')
        \<and> durable_entries_after 0 10 dl' = Inr [demo_first]"
    using crash [of 7] by (simp add: len page_of_def page_fits_def effective_limit_def demo_first_def Let_def)
  moreover have "fst (open_durable_log None (d\<lparr>jd_journal := Some (f_bytes (dl_file dl) @ take 4 (entry_record demo_second))\<rparr>)) = Inl JErrIO"
    using crash [of 4] by (simp add: Let_def)
  ultimately show ?thesis using r(1,2) by blast
qed

theorem journal_open_sound_witness:
  "\<exists>dl d. open_durable_log None (fresh_journal No_file) = (Inr dl, d)
    \<and> (\<exists>ps. f_bytes (dl_file dl) = concat (map payload_record ps) \<and> dl_index dl = rows_of 0 ps)"
proof -
  obtain dl d where o: "open_durable_log None (fresh_journal No_file) = (Inr dl, d)" using open_empty_journal by blast
  show ?thesis using journal_open_sound [OF o demo_base] o by auto
qed

theorem durable_log_equals_memory_log_witness:
  "\<exists>dl d. open_durable_log None (fresh_journal No_file) = (Inr dl, d)
    \<and> fst (run_calls (\<lambda>op key val now. durable_append op key val now good_io) demo_calls dl)
      = fst (run_calls log_append demo_calls new_log)"
proof -
  obtain dl d where o: "open_durable_log None (fresh_journal No_file) = (Inr dl, d)" using open_empty_journal by blast
  show ?thesis using durable_log_equals_memory_log [OF o demo_calls_fit(2,1)] o by blast
qed

theorem journal_pull_complete_witness:
  "\<exists>dl d dl'. open_durable_log None (fresh_journal No_file) = (Inr dl, d)
    \<and> run_calls (\<lambda>op key val now. durable_append op key val now good_io) demo_calls dl
      = ([Inr demo_first, Inl JErrInvalidEntry, Inr demo_second], dl')
    \<and> pull_pages durable_entries_after 2 0 1 dl' = [demo_first, demo_second]
    \<and> durable_entries_after 0 (2 ^ 62) dl' = Inl JErrPanic"
proof -
  obtain dl d where o: "open_durable_log None (fresh_journal No_file) = (Inr dl, d)" "durable_holds [] dl"
    using open_empty_journal by blast
  obtain dl' where r: "run_calls (\<lambda>op key val now. durable_append op key val now good_io) demo_calls dl
      = ([Inr demo_first, Inl JErrInvalidEntry, Inr demo_second], dl')"
    using durable.run_spec [OF o(2) demo_calls_fit(1)] demo_calls_fit(2,3) by auto
  have n: "length (filter (\<lambda>e. 0 < re_seq e) (acknowledged [Inr demo_first, Inl JErrInvalidEntry, Inr demo_second])) \<le> 2"
    by (simp add: demo_first_def demo_second_def)
  have "page_fits 1" "\<not> page_fits (2 ^ 62)" by (simp_all add: page_fits_def effective_limit_def)
  then have "pull_pages durable_entries_after 2 0 1 dl'
      = filter (\<lambda>e. 0 < re_seq e) (acknowledged [Inr demo_first, Inl JErrInvalidEntry, Inr demo_second])
    \<and> durable_entries_after 0 (2 ^ 62) dl' = Inl JErrPanic"
    using journal_pull_complete [OF o(1) demo_calls_fit(2,1) r n, of 1]
      journal_pull_complete [OF o(1) demo_calls_fit(2,1) r n, of "2 ^ 62"] by (auto simp del: power_numeral)
  then show ?thesis using o(1) r by (simp add: demo_first_def demo_second_def)
qed

end
