(* ===== verification/OpLog.thy ===== *)
theory OpLog
  imports Framing
begin

text \<open>
  The operation log of the replicated store (\<open>internal/replica/log.go\<close>): a header, then one record per
  operation, kept in memory as a list as well. Definitions first, then the record round trip, the
  state a sequence of appends leaves, what a reopening finds after it, after a crash and after a changed
  byte, and what \<open>openLog\<close> accepts of arbitrary bytes.
\<close>

section \<open>Operations and their records\<close>

definition op_type_put :: byte where "op_type_put = 1"
definition op_type_delete :: byte where "op_type_delete = 2"

record operation =
  op_index :: u64
  op_type :: byte
  op_key :: bytes
  op_value :: bytes

definition op_log_magic :: bytes where "op_log_magic = map of_char ''SHARDREP''"
definition op_log_version :: u16 where "op_log_version = 1"

definition op_log_header :: bytes where
  "op_log_header = op_log_magic @ put_u16 op_log_version"

text \<open>The bytes the checksum covers.\<close>

definition op_inner :: "operation \<Rightarrow> bytes" where
  "op_inner op =
     put_u64 (op_index op) @ [op_type op] @ put_u32 (len32 (op_key op)) @ put_u32 (len32 (op_value op))
     @ take (unat (len32 (op_key op))) (op_key op) @ take (unat (len32 (op_value op))) (op_value op)"

text \<open>
  \<open>recordLen\<close> is computed in 32 bits; when it wraps around the slices of the buffer are out of range and
  the code panics (\<open>None\<close>).
\<close>

definition op_encode :: "operation \<Rightarrow> bytes option" where
  "op_encode op =
     (let keyLen = len32 (op_key op); valLen = len32 (op_value op); recordLen = 21 + keyLen + valLen; inner = op_inner op in
      if 21 + unat keyLen + unat valLen \<ge> 2 ^ 32 then None
      else Some (put_u32 recordLen @ put_u32 (crc32 inner) @ inner))"

text \<open>
  One turn of the loop of \<open>replayInto\<close>. \<open>Torn\<close>: the file ends, or ends inside a record; \<open>Bad 0\<close>: a corrupt
  record; \<open>Bad 1\<close>: the lengths add up only modulo \<open>2^32\<close>, and slicing the body panics.
\<close>

definition op_read :: "bytes \<Rightarrow> operation frame" where
  "op_read bs =
     (if length bs < 4 then Torn
      else
        let recordLen = get_u32 (slice 0 4 bs) in
        if recordLen < 21 then Bad 0
        else if length bs - 4 < unat recordLen then Torn
        else
          let body = slice 4 (4 + unat recordLen) bs in
          if get_u32 (slice 0 4 body) \<noteq> crc32 (drop 4 body) then Bad 0
          else
            let index = get_u64 (slice 4 12 body); opType = body ! 12;
                keyLen = get_u32 (slice 13 17 body); valLen = get_u32 (slice 17 21 body) in
            if recordLen \<noteq> 21 + keyLen + valLen then Bad 0
            else if unat recordLen < 21 + unat keyLen + unat valLen then Bad 1
            else
              let key = slice 21 (21 + unat keyLen) body;
                  val = slice (21 + unat keyLen) (21 + unat keyLen + unat valLen) body in
              Frame \<lparr>op_index = index, op_type = opType, op_key = key, op_value = val\<rparr> (drop (4 + unat recordLen) bs))"

section \<open>The log\<close>

datatype op_log_error = OlErrCorrupt | OlErrVersion | OlErrTruncated | OlErrIO | OlErrPanic

record op_log =
  ol_file :: gofile
  ol_last :: u64
  ol_ops :: "operation list"
  ol_closed :: bool

definition check_header :: "bytes \<Rightarrow> op_log_error option" where
  "check_header bs =
     (if length bs < 10 then Some OlErrCorrupt
      else if slice 0 8 bs \<noteq> op_log_magic then Some OlErrCorrupt
      else if get_u16 (slice 8 10 bs) \<noteq> op_log_version then Some OlErrVersion
      else None)"

text \<open>The whole loop with its callback, which collects the operations and follows the last index.\<close>

definition replay_ops :: "bytes \<Rightarrow> op_log_error + operation list" where
  "replay_ops bs =
     (case frames op_read 0 bs of
        (ops, _, End_torn n) \<Rightarrow> if n = 0 then Inr ops else Inl OlErrTruncated
      | (ops, _, End_bad n) \<Rightarrow> if n = 0 then Inl OlErrCorrupt else Inl OlErrPanic)"

datatype op_log_fault = Olf_open | Olf_stat | Olf_header nat | Olf_seek

definition last_op_index :: "operation list \<Rightarrow> u64" where
  "last_op_index ops = (if ops = [] then 0 else op_index (last ops))"

definition open_op_log :: "op_log_fault option \<Rightarrow> bytes option \<Rightarrow> (op_log_error + op_log) \<times> bytes option" where
  "open_op_log fault f =
     (if fault = Some Olf_open then (Inl OlErrIO, f)
      else
        let bs = (case f of None \<Rightarrow> [] | Some b \<Rightarrow> b) in
        if fault = Some Olf_stat then (Inl OlErrIO, Some bs)
        else if bs = [] then
          (case fault of
             Some (Olf_header n) \<Rightarrow> (Inl OlErrIO, Some (take n op_log_header))
           | _ \<Rightarrow> (Inr \<lparr>ol_file = \<lparr>f_bytes = op_log_header, f_pos = length op_log_header\<rparr>, ol_last = 0, ol_ops = [],
                        ol_closed = False\<rparr>, Some op_log_header))
        else
          (case check_header bs of
             Some e \<Rightarrow> (Inl e, Some bs)
           | None \<Rightarrow>
               (case replay_ops (drop 10 bs) of
                  Inl e \<Rightarrow> (Inl e, Some bs)
                | Inr ops \<Rightarrow>
                    if fault = Some Olf_seek then (Inl OlErrIO, Some bs)
                    else (Inr \<lparr>ol_file = \<lparr>f_bytes = bs, f_pos = length bs\<rparr>, ol_last = last_op_index ops,
                               ol_ops = ops, ol_closed = False\<rparr>, Some bs))))"

text \<open>A write to the closed file fails before anything reaches the disk.\<close>

definition op_append :: "write_outcome \<Rightarrow> byte \<Rightarrow> bytes \<Rightarrow> bytes \<Rightarrow> op_log \<Rightarrow> (op_log_error + u64) \<times> op_log" where
  "op_append wo t key val ol =
     (let idx = ol_last ol + 1; op = \<lparr>op_index = idx, op_type = t, op_key = key, op_value = val\<rparr> in
      case op_encode op of
        None \<Rightarrow> (Inl OlErrPanic, ol)
      | Some r \<Rightarrow>
          if ol_closed ol then (Inl OlErrIO, ol)
          else
            let ol1 = ol\<lparr>ol_file := file_write_outcome wo r (ol_file ol)\<rparr> in
            if wo \<noteq> Write_ok then (Inl OlErrIO, ol1)
            else (Inr idx, ol1\<lparr>ol_last := idx, ol_ops := ol_ops ol @ [op]\<rparr>))"

fun collect_ops :: "u64 \<Rightarrow> int \<Rightarrow> operation list \<Rightarrow> operation list \<Rightarrow> operation list" where
  "collect_ops after limit result [] = result"
| "collect_ops after limit result (op # ops) =
     (if op_index op \<le> after then collect_ops after limit result ops
      else
        let result' = result @ [op] in
        if limit > 0 \<and> int (length result') \<ge> limit then result' else collect_ops after limit result' ops)"

definition operations_after :: "u64 \<Rightarrow> int \<Rightarrow> op_log \<Rightarrow> operation list" where
  "operations_after after limit ol = collect_ops after limit [] (ol_ops ol)"

definition op_log_replay :: "(operation \<Rightarrow> 's \<Rightarrow> 'e option \<times> 's) \<Rightarrow> op_log \<Rightarrow> 's \<Rightarrow> 'e option \<times> 's" where
  "op_log_replay fn ol s = run_records fn (ol_ops ol) s"

definition op_log_close :: "op_log \<Rightarrow> op_log_error option \<times> op_log" where
  "op_log_close ol = (if ol_closed ol then Some OlErrIO else None, ol\<lparr>ol_closed := True\<rparr>)"

section \<open>The record round trip\<close>

definition op_fits :: "operation \<Rightarrow> bool" where
  "op_fits op \<longleftrightarrow> length (op_key op) + length (op_value op) + 21 < 2 ^ 32"

definition op_record :: "operation \<Rightarrow> bytes" where
  "op_record op = payload_record (op_inner op)"

lemma op_lens:
  assumes "op_fits op"
  shows "unat (len32 (op_key op)) = length (op_key op)" "unat (len32 (op_value op)) = length (op_value op)"
  using assms by (simp_all add: op_fits_def unat_len32)

lemma length_op_inner: "op_fits op \<Longrightarrow> length (op_inner op) = 17 + length (op_key op) + length (op_value op)"
  by (simp add: op_inner_def op_lens)

lemma op_encode_record:
  assumes "op_fits op"
  shows "op_encode op = Some (op_record op)"
proof -
  have "(word_of_nat (length (op_inner op) + 4) :: u32) = 21 + len32 (op_key op) + len32 (op_value op)"
    by (simp add: length_op_inner [OF assms] len32_def)
  moreover have "\<not> 21 + length (op_key op) + length (op_value op) \<ge> 2 ^ 32" using assms by (simp add: op_fits_def)
  ultimately show ?thesis using assms by (simp add: op_encode_def op_lens op_record_def payload_record_def Let_def)
qed

lemma op_read_record:
  assumes "op_fits op"
  shows "op_read (op_record op @ t) = Frame op t"
proof -
  let ?p = "op_inner op" and ?k = "op_key op" and ?v = "op_value op"
  let ?body = "put_u32 (crc32 ?p) @ ?p"
  have p: "length ?p = 17 + length ?k + length ?v" by (rule length_op_inner [OF assms])
  then have l: "length ?p + 4 < 2 ^ 32" using assms by (simp add: op_fits_def)
  note s = payload_record_slices [OF l, of t]
  define n where "n = get_u32 (slice 0 4 (payload_record ?p @ t))"
  have n: "unat n = 21 + length ?k + length ?v" using s(1) p by (simp add: n_def)
  have body: "slice 4 (4 + unat n) (payload_record ?p @ t) = ?body" "drop (4 + unat n) (payload_record ?p @ t) = t"
    using s(2,3) p n by simp_all
  have inner: "?p = put_u64 (op_index op) @ [op_type op] @ put_u32 (len32 ?k) @ put_u32 (len32 ?v) @ ?k @ ?v"
    using op_lens [OF assms] by (simp add: op_inner_def)
  have f: "get_u32 (slice 0 4 ?body) = crc32 ?p" "drop 4 ?body = ?p" "get_u64 (slice 4 12 ?body) = op_index op"
    "?body ! 12 = op_type op" "get_u32 (slice 13 17 ?body) = len32 ?k" "get_u32 (slice 17 21 ?body) = len32 ?v"
    "slice 21 (21 + length ?k) ?body = ?k"
    by (simp_all add: slice_def inner nth_append)
  have v: "slice (21 + length ?k) (21 + length ?k + length ?v) ?body = ?v"
  proof -
    let ?h = "put_u32 (crc32 ?p) @ put_u64 (op_index op) @ [op_type op] @ put_u32 (len32 ?k) @ put_u32 (len32 ?v) @ ?k"
    have "slice (21 + length ?k) (21 + length ?k + length ?v) (?h @ ?v @ []) = ?v"
      by (rule slice_middle) simp_all
    then show ?thesis by (simp add: inner)
  qed
  have nn: "n = 21 + len32 ?k + len32 ?v"
  proof -
    have "n = word_of_nat (unat n)" by simp
    then have "n = word_of_nat (21 + length ?k + length ?v)" unfolding n .
    then show ?thesis by (simp add: len32_def)
  qed
  have big: "\<not> n < 21" using n by (simp add: word_less_nat_alt)
  have len: "\<not> length (payload_record ?p @ t) < 4" "\<not> length (payload_record ?p @ t) - 4 < unat n"
    using n p by simp_all
  have wrap: "\<not> unat n < 21 + unat (len32 ?k) + unat (len32 ?v)" using n op_lens [OF assms] by simp
  show ?thesis
    using len big wrap unfolding op_read_def op_record_def Let_def n_def [symmetric]
    by (simp only: body f v op_lens [OF assms] nn [symmetric] if_False if_True simp_thms) simp
qed

lemma op_read_prefix:
  assumes "op_fits op" "n < length (op_record op)"
  shows "op_read (take n (op_record op)) = Torn"
proof (cases "n < 4")
  case False
  have l: "length (op_inner op) + 4 < 2 ^ 32" using assms(1) length_op_inner [OF assms(1)] by (simp add: op_fits_def)
  have s: "unat (get_u32 (slice 0 4 (take n (op_record op)))) = length (op_inner op) + 4"
    using payload_record_prefix [OF l, of n] assms(2) False by (simp add: op_record_def)
  have "\<not> get_u32 (slice 0 4 (take n (op_record op))) < 21"
    unfolding word_less_nat_alt s using length_op_inner [OF assms(1)] by simp
  moreover have "length (take n (op_record op)) = n" "n - 4 < length (op_inner op) + 4"
    using assms(2) False by (simp_all add: op_record_def)
  ultimately show ?thesis using False by (simp add: op_read_def s Let_def)
qed (use assms(2) in \<open>simp add: op_read_def\<close>)

lemma op_read_nil: "op_read [] = Torn"
  by (simp add: op_read_def)

interpretation op_frames: framed_log op_record op_read op_fits
  by unfold_locales (rule op_read_record op_read_prefix op_read_nil | assumption)+

text \<open>Whatever the reader takes for a record is one.\<close>

lemma inner_parts:
  assumes "length p = 17 + k + v"
  shows "p = slice 0 8 p @ [p ! 8] @ slice 9 13 p @ slice 13 17 p @ slice 17 (17 + k) p @ slice (17 + k) (17 + k + v) p"
proof -
  have "[p ! 8] = slice 8 9 p" using assms by (simp add: slice_def take_Suc_conv_app_nth hd_drop_conv_nth take_Suc)
  then show ?thesis using assms slice_all [of p] by (simp add: slice_join)
qed

lemma op_read_Frame:
  assumes "op_read bs = Frame op rest"
  shows "bs = op_record op @ rest" "op_fits op"
proof -
  let ?n = "get_u32 (slice 0 4 bs)"
  let ?body = "slice 4 (4 + unat ?n) bs"
  let ?p = "drop 4 ?body"
  let ?k = "get_u32 (slice 13 17 ?body)" and ?v = "get_u32 (slice 17 21 ?body)"
  have b: "4 \<le> length bs" "\<not> ?n < 21" "unat ?n \<le> length bs - 4" "get_u32 (slice 0 4 ?body) = crc32 ?p"
      "?n = 21 + ?k + ?v" "21 + unat ?k + unat ?v \<le> unat ?n" "rest = drop (4 + unat ?n) bs"
      "op = \<lparr>op_index = get_u64 (slice 4 12 ?body), op_type = ?body ! 12, op_key = slice 21 (21 + unat ?k) ?body,
        op_value = slice (21 + unat ?k) (21 + unat ?k + unat ?v) ?body\<rparr>"
    using assms by (auto simp: op_read_def Let_def not_less split: if_splits)
  have n: "21 \<le> unat ?n" using b(2) by (simp add: word_less_nat_alt)
  note r = payload_record_exists [OF b(1,3) _ b(4)]
  have "unat ?n = (21 + unat ?k + unat ?v) mod 2 ^ 32" by (subst b(5)) (simp add: unat_word_ariths mod_simps)
  then have un: "unat ?n = 21 + unat ?k + unat ?v" using b(6) by (metis le_antisym mod_less_eq_dividend)
  have len: "length ?p = 17 + unat ?k + unat ?v" "length ?body = 21 + unat ?k + unat ?v"
    using r(2) n un by simp_all
  have sl: "slice a c ?p = slice (a + 4) (c + 4) ?body" for a c by (simp add: slice_def add.commute)
  have s: "slice 0 8 ?p = slice 4 12 ?body" "slice 9 13 ?p = slice 13 17 ?body" "slice 13 17 ?p = slice 17 21 ?body"
    "slice 17 (17 + unat ?k) ?p = op_key op" "slice (17 + unat ?k) (17 + unat ?k + unat ?v) ?p = op_value op"
    "?p ! 8 = op_type op"
    unfolding sl using len by (simp_all add: b(8) add.commute add.left_commute)
  have kv: "length (op_key op) = unat ?k" "length (op_value op) = unat ?v" using len(2) by (simp_all add: b(8))
  then have l32: "len32 (op_key op) = ?k" "len32 (op_value op) = ?v" by (simp_all add: len32_def)
  have "put_u64 (op_index op) = slice 4 12 ?body" "put_u32 ?k = slice 13 17 ?body" "put_u32 ?v = slice 17 21 ?body"
    using put_get len(2) by (simp_all add: b(8))
  then have "op_inner op = ?p"
    using inner_parts [OF len(1)] s kv by (simp add: op_inner_def l32)
  then show "bs = op_record op @ rest" using r(1) n b(7) by (simp add: op_record_def)
  have "unat ?n < 2 ^ 32" using unsigned_less [of ?n] by simp
  then show "op_fits op" using kv un by (simp add: op_fits_def)
qed

lemma op_read_changed:
  assumes "op_fits op" "4 \<le> i" "i < length (op_record op)" "b \<noteq> op_record op ! i"
  shows "op_read ((op_record op)[i := b] @ t) = Bad 0"
proof -
  let ?p = "op_inner op" and ?q = "(payload_record (op_inner op))[i := b] @ t"
  have l: "length ?p + 4 < 2 ^ 32" using assms(1) length_op_inner [OF assms(1)] by (simp add: op_fits_def)
  note c = payload_record_changed [OF l assms(2), of b t, folded op_record_def, OF assms(3,4)]
  have "\<not> get_u32 (slice 0 4 ((op_record op)[i := b] @ t)) < 21"
    unfolding word_less_nat_alt c(1) using length_op_inner [OF assms(1)] by simp
  moreover have "\<not> length ((op_record op)[i := b] @ t) < 4" "\<not> length ((op_record op)[i := b] @ t) - 4 < length ?p + 4"
    by (simp_all add: op_record_def)
  ultimately show ?thesis using c(2) unfolding op_read_def Let_def by (simp only: c(1) if_False if_True not_False_eq_True simp_thms)
qed

section \<open>The state of an open log\<close>

text \<open>In memory: the operations are numbered from 1. On disk: exactly their records.\<close>

definition ops_numbered :: "op_log \<Rightarrow> bool" where
  "ops_numbered ol \<longleftrightarrow> counts_from 0 (map op_index (ol_ops ol)) \<and> unat (ol_last ol) = length (ol_ops ol)"

definition op_log_bytes :: "operation list \<Rightarrow> bytes" where
  "op_log_bytes ops = op_log_header @ concat (map op_record ops)"

definition op_log_whole :: "op_log \<Rightarrow> bool" where
  "op_log_whole ol \<longleftrightarrow> f_bytes (ol_file ol) = op_log_bytes (ol_ops ol) \<and> at_end (ol_file ol) \<and> (\<forall>op \<in> set (ol_ops ol). op_fits op)"

lemma length_op_log_header [simp]: "length op_log_header = 10"
  by (simp add: op_log_header_def op_log_magic_def)

lemma op_log_header_ne [simp]: "op_log_header \<noteq> []"
  by (simp add: op_log_header_def op_log_magic_def)

lemma check_header_ok [simp]: "check_header (op_log_header @ bs) = None"
  by (simp add: check_header_def slice_def op_log_header_def op_log_magic_def op_log_version_def)

lemma op_log_fresh:
  assumes "open_op_log None None = (Inr ol, f)"
  shows "ol_ops ol = []" "ops_numbered ol" "op_log_whole ol" "\<not> ol_closed ol" "ol_last ol = 0"
  using assms by (auto simp: open_op_log_def ops_numbered_def op_log_whole_def op_log_bytes_def at_end_def)

lemma op_append_ok:
  assumes "ops_numbered ol" "Suc (length (ol_ops ol)) < 2 ^ 64 - 1" "op_append wo t k v ol = (Inr idx, ol')"
  shows "ol_ops ol' = ol_ops ol @ [\<lparr>op_index = idx, op_type = t, op_key = k, op_value = v\<rparr>]" "ops_numbered ol'"
    "unat idx = Suc (length (ol_ops ol))" "ol_closed ol' = ol_closed ol" "idx = ol_last ol + 1"
    "wo = Write_ok" "op_log_whole ol \<Longrightarrow> length k + length v + 21 < 2 ^ 32 \<Longrightarrow> op_log_whole ol'"
proof -
  let ?op = "\<lparr>op_index = ol_last ol + 1, op_type = t, op_key = k, op_value = v\<rparr>"
  obtain r where r: "op_encode ?op = Some r" "wo = Write_ok" "idx = ol_last ol + 1"
    "ol' = ol\<lparr>ol_file := file_write r (ol_file ol), ol_last := idx, ol_ops := ol_ops ol @ [?op]\<rparr>"
    using assms(3) by (auto simp: op_append_def Let_def file_write_outcome_def split: option.splits if_splits)
  show "ol_ops ol' = ol_ops ol @ [\<lparr>op_index = idx, op_type = t, op_key = k, op_value = v\<rparr>]"
    "ol_closed ol' = ol_closed ol" "idx = ol_last ol + 1" "wo = Write_ok" by (simp_all add: r)
  have "unat (ol_last ol) + 1 < 2 ^ 64" using assms(1,2) by (simp add: ops_numbered_def)
  then show u: "unat idx = Suc (length (ol_ops ol))"
    using assms(1) by (simp add: r(3) ops_numbered_def unat_word_ariths)
  then show "ops_numbered ol'"
    using assms(1,2) by (simp add: r(4) ops_numbered_def counts_from_snoc r(3) [symmetric])
  assume w: "op_log_whole ol" and "length k + length v + 21 < 2 ^ 32"
  then have f: "op_fits ?op" by (simp add: op_fits_def)
  then have "r = op_record ?op" using op_encode_record r(1) by (metis option.inject)
  then show "op_log_whole ol'" using w f by (simp add: op_log_whole_def op_log_bytes_def r(4) file_write_at_end at_end_def)
qed

text \<open>A failing append keeps the operations; without a write fault it keeps the file too.\<close>

lemma op_append_fails:
  assumes "op_append wo t k v ol = (Inl er, ol')"
  shows "ol_ops ol' = ol_ops ol" "ol_last ol' = ol_last ol" "ol_closed ol' = ol_closed ol"
    "wo = Write_ok \<Longrightarrow> ol' = ol"
  using assms by (auto simp: op_append_def Let_def split: option.splits if_splits)

lemma op_append_succeeds:
  assumes "\<not> ol_closed ol" "length k + length v + 21 < 2 ^ 32"
  shows "\<exists>ol'. op_append Write_ok t k v ol = (Inr (ol_last ol + 1), ol')"
  using assms op_encode_record [of "\<lparr>op_index = ol_last ol + 1, op_type = t, op_key = k, op_value = v\<rparr>"]
  by (simp add: op_append_def op_fits_def Let_def)

section \<open>Reopening\<close>

lemma replay_ops_whole: "\<forall>op \<in> set ops. op_fits op \<Longrightarrow> replay_ops (concat (map op_record ops)) = Inr ops"
  using op_frames.frames_all [of ops 0] by (simp add: replay_ops_def)

lemma ops_numbered_last: "ops_numbered ol \<Longrightarrow> last_op_index (ol_ops ol) = ol_last ol"
proof -
  assume n: "ops_numbered ol"
  show ?thesis
  proof (cases "ol_ops ol = []")
    case True
    then show ?thesis using n by (simp add: last_op_index_def ops_numbered_def unat_eq_zero)
  next
    case False
    then have i: "length (ol_ops ol) - 1 < length (map op_index (ol_ops ol))" by simp
    have "unat (map op_index (ol_ops ol) ! (length (ol_ops ol) - 1)) = unat 0 + 1 + (length (ol_ops ol) - 1)"
      using counts_from_nth [OF _ i, of 0] n by (simp add: ops_numbered_def)
    then have "unat (op_index (last (ol_ops ol))) = unat (ol_last ol)"
      using n False by (simp add: ops_numbered_def last_conv_nth)
    then show ?thesis using False by (simp add: last_op_index_def word_unat_eq_iff)
  qed
qed

lemma open_op_log_whole:
  assumes "\<forall>op \<in> set ops. op_fits op"
  shows "open_op_log None (Some (op_log_bytes ops)) =
    (Inr \<lparr>ol_file = \<lparr>f_bytes = op_log_bytes ops, f_pos = length (op_log_bytes ops)\<rparr>, ol_last = last_op_index ops,
      ol_ops = ops, ol_closed = False\<rparr>, Some (op_log_bytes ops))"
proof -
  have "op_log_bytes ops \<noteq> []" "drop 10 (op_log_bytes ops) = concat (map op_record ops)"
    "check_header (op_log_bytes ops) = None" by (simp_all add: op_log_bytes_def)
  then show ?thesis using replay_ops_whole [OF assms] by (simp add: open_op_log_def Let_def)
qed

lemma reopen_op_log:
  assumes "ops_numbered ol" "op_log_whole ol"
  shows "open_op_log None (Some (f_bytes (ol_file ol))) = (Inr (ol\<lparr>ol_closed := False\<rparr>), Some (f_bytes (ol_file ol)))"
  using assms open_op_log_whole [of "ol_ops ol"] ops_numbered_last [OF assms(1)]
  by (simp add: op_log_whole_def at_end_def)

text \<open>Appending operations one after the other; \<open>None\<close> when one fails.\<close>

fun op_append_all :: "(byte \<times> bytes \<times> bytes) list \<Rightarrow> op_log \<Rightarrow> op_log option" where
  "op_append_all [] ol = Some ol"
| "op_append_all ((t, k, v) # rs) ol =
     (case op_append Write_ok t k v ol of (Inl _, _) \<Rightarrow> None | (Inr _, ol') \<Rightarrow> op_append_all rs ol')"

definition op_content :: "operation \<Rightarrow> byte \<times> bytes \<times> bytes" where
  "op_content op = (op_type op, op_key op, op_value op)"

lemma op_append_all_ok:
  assumes "op_append_all rs ol = Some ol'" "ops_numbered ol" "op_log_whole ol" "\<not> ol_closed ol"
    and "\<forall>(t, k, v) \<in> set rs. length k + length v + 21 < 2 ^ 32" "length (ol_ops ol) + length rs < 2 ^ 64 - 1"
  shows "ops_numbered ol' \<and> op_log_whole ol' \<and> \<not> ol_closed ol' \<and> map op_content (ol_ops ol') = map op_content (ol_ops ol) @ rs"
  using assms
proof (induction rs arbitrary: ol)
  case (Cons r rs)
  obtain t k v where r: "r = (t, k, v)" by (cases r)
  obtain idx ol1 where a: "op_append Write_ok t k v ol = (Inr idx, ol1)" "op_append_all rs ol1 = Some ol'"
    using Cons.prems(1) by (auto simp: r split: prod.splits sum.splits)
  have "Suc (length (ol_ops ol)) < 2 ^ 64 - 1" using Cons.prems(6) by simp
  note o = op_append_ok [OF Cons.prems(2) this a(1)]
  have "length k + length v + 21 < 2 ^ 32" using Cons.prems(5) r by auto
  then show ?case
    using Cons.IH [OF a(2) o(2) o(7)] Cons.prems o(1,4) by (simp add: r op_content_def)
qed simp

text \<open>The end of the \<open>j\<close>-th record in the file.\<close>

definition record_end :: "operation list \<Rightarrow> nat \<Rightarrow> nat" where
  "record_end ops j = length (op_log_bytes (take j ops))"

lemma open_op_log_cut:
  assumes "\<forall>op \<in> set ops. op_fits op" "10 \<le> n" "n \<le> length (op_log_bytes ops)"
  shows "(\<exists>j \<le> length ops. n = record_end ops j \<and> take n (op_log_bytes ops) = op_log_bytes (take j ops)) \<or>
    (\<forall>j \<le> length ops. n \<noteq> record_end ops j) \<and> fst (open_op_log None (Some (take n (op_log_bytes ops)))) = Inl OlErrTruncated"
proof (cases "\<exists>j \<le> length ops. n = record_end ops j")
  case True
  then obtain j where j: "j \<le> length ops" "n = record_end ops j" by blast
  have "op_log_bytes ops = op_log_bytes (take j ops) @ concat (map op_record (drop j ops))"
    by (simp add: op_log_bytes_def flip: concat_append map_append)
  then have "take n (op_log_bytes ops) = op_log_bytes (take j ops)" by (simp add: j(2) record_end_def)
  then show ?thesis using j by blast
next
  case False
  let ?f = "concat (map op_record ops)"
  have t: "take n (op_log_bytes ops) = op_log_header @ take (n - 10) ?f" using assms(2) by (simp add: op_log_bytes_def)
  have "n - 10 \<le> length ?f" using assms(3) by (simp add: op_log_bytes_def)
  then obtain k m where k: "k \<le> length ops" "take (n - 10) ?f =
      concat (map op_record (take k ops)) @ (if k < length ops then take m (op_record (ops ! k)) else [])"
      "k < length ops \<longrightarrow> m < length (op_record (ops ! k))"
    using op_frames.cut_split [of "n - 10" ops] assms(1) by blast
  have len: "n - 10 = length (concat (map op_record (take k ops))) + (if k < length ops then m else 0)"
  proof -
    have "n - 10 = length (take (n - 10) ?f)" using \<open>n - 10 \<le> length ?f\<close> by simp
    then show ?thesis unfolding k(2) using k(3) by (simp del: length_concat split: if_splits)
  qed
  have "n \<noteq> record_end ops k" using False k(1) by blast
  then have km: "k < length ops" "0 < m"
    using len assms(2) by (auto simp: record_end_def op_log_bytes_def simp del: length_concat split: if_splits)
  have ok: "\<forall>op \<in> set (take k ops). op_fits op" "op_fits (ops ! k)" using assms(1) km(1) by (meson in_set_takeD, simp)
  have "replay_ops (take (n - 10) ?f) = Inl OlErrTruncated"
    using op_frames.frames_torn_tail [OF ok(1) ok(2), of m 0] k(2,3) km by (simp add: replay_ops_def)
  then have "fst (open_op_log None (Some (take n (op_log_bytes ops)))) = Inl OlErrTruncated"
    by (simp add: t open_op_log_def Let_def)
  then show ?thesis using False by blast
qed

lemma open_op_log_changed:
  assumes "\<forall>op \<in> set ops. op_fits op" "j < length ops" "4 \<le> i" "i < length (op_record (ops ! j))"
    and "b \<noteq> op_record (ops ! j) ! i"
  shows "fst (open_op_log None (Some ((op_log_bytes ops)[record_end ops j + i := b]))) = Inl OlErrCorrupt"
proof -
  let ?r = "op_record (ops ! j)" and ?t = "concat (map op_record (drop (Suc j) ops))" and ?h = "concat (map op_record (take j ops))"
  have "ops = take j ops @ ops ! j # drop (Suc j) ops" using assms(2) by (rule id_take_nth_drop)
  then have "map op_record ops = map op_record (take j ops) @ ?r # map op_record (drop (Suc j) ops)"
    by (metis list.simps(9) map_append)
  then have "op_log_bytes ops = op_log_header @ ?h @ ?r @ ?t" by (simp add: op_log_bytes_def)
  then have e: "(op_log_bytes ops)[record_end ops j + i := b] = op_log_header @ ?h @ ?r[i := b] @ ?t"
    using assms(4) by (simp add: record_end_def op_log_bytes_def list_update_append del: length_concat)
  have ok: "\<forall>op \<in> set (take j ops). op_fits op" "op_fits (ops ! j)" using assms(1,2) by (meson in_set_takeD, simp)
  have "frames op_read 0 (?h @ ?r[i := b] @ ?t) = (take j ops, length ?h, End_bad 0)"
    using op_frames.frames_bad_end [OF ok(1) op_read_changed [OF ok(2) assms(3-5), of ?t], of 0] by simp
  then show ?thesis unfolding e by (simp add: open_op_log_def replay_ops_def Let_def)
qed

text \<open>The operation log survives a reopening, and \<open>openLog\<close> refuses what a crash or corruption leaves.
  After any successful appends to a fresh log, the operations are the appended ones numbered from 1 and
  opening the file again gives exactly the same log. A file cut at the end of a record opens as the log
  of the records before the cut; cut anywhere else after the header it is refused as truncated, so a
  crash in the middle of an append leaves a log that no longer opens. One changed byte after the length
  field of any record is refused as corruption.\<close>

theorem op_log_recovery:
  assumes "open_op_log None None = (Inr ol0, f)" "op_append_all rs ol0 = Some ol"
    and "\<forall>(t, k, v) \<in> set rs. length k + length v + 21 < 2 ^ 32" "length rs < 2 ^ 64 - 1"
  defines "bs \<equiv> f_bytes (ol_file ol)" and "ops \<equiv> ol_ops ol"
  shows "map op_content ops = rs \<and> map (\<lambda>op. unat (op_index op)) ops = [1..<Suc (length rs)]
    \<and> open_op_log None (Some bs) = (Inr ol, Some bs)
    \<and> (\<forall>n. 10 \<le> n \<longrightarrow> n \<le> length bs \<longrightarrow>
        (case fst (open_op_log None (Some (take n bs))) of
           Inl e \<Rightarrow> e = OlErrTruncated \<and> (\<forall>j \<le> length ops. n \<noteq> record_end ops j)
         | Inr ol' \<Rightarrow> \<exists>j \<le> length ops. n = record_end ops j \<and> ol_ops ol' = take j ops))
    \<and> (\<forall>j < length ops. \<forall>i < length (op_record (ops ! j)). \<forall>b. 4 \<le> i \<longrightarrow> b \<noteq> op_record (ops ! j) ! i \<longrightarrow>
        fst (open_op_log None (Some (bs[record_end ops j + i := b]))) = Inl OlErrCorrupt)"
proof (intro conjI allI impI)
  note fresh = op_log_fresh [OF assms(1)]
  have ok: "ops_numbered ol" "op_log_whole ol" "\<not> ol_closed ol" "map op_content ops = rs"
    using op_append_all_ok [OF assms(2) fresh(2,3,4) assms(3)] assms(4) fresh(1) by (simp_all add: ops_def)
  then have b: "bs = op_log_bytes ops" "\<forall>op \<in> set ops. op_fits op" by (auto simp: op_log_whole_def bs_def ops_def)
  show "map op_content ops = rs" by (rule ok(4))
  have len: "length ops = length rs" using ok(4) by (metis length_map)
  have "unat (op_index (ops ! i)) = Suc i" if "i < length ops" for i
    using counts_from_nth [of 0 "map op_index ops" i] ok(1) that by (simp add: ops_numbered_def ops_def)
  then show "map (\<lambda>op. unat (op_index op)) ops = [1..<Suc (length rs)]"
    by (intro nth_equalityI) (simp_all add: len del: upt_Suc)
  show "open_op_log None (Some bs) = (Inr ol, Some bs)" using reopen_op_log [OF ok(1,2)] ok(3) by (simp add: bs_def)
  show "case fst (open_op_log None (Some (take n bs))) of
           Inl e \<Rightarrow> e = OlErrTruncated \<and> (\<forall>j \<le> length ops. n \<noteq> record_end ops j)
         | Inr ol' \<Rightarrow> \<exists>j \<le> length ops. n = record_end ops j \<and> ol_ops ol' = take j ops"
    if n: "10 \<le> n" "n \<le> length bs" for n
    using open_op_log_cut [OF b(2) n(1) n(2) [unfolded b(1)]]
  proof (elim disjE exE conjE)
    fix j assume j: "j \<le> length ops" "n = record_end ops j" "take n (op_log_bytes ops) = op_log_bytes (take j ops)"
    have "\<forall>op \<in> set (take j ops). op_fits op" using b(2) by (meson in_set_takeD)
    from open_op_log_whole [OF this] show ?thesis using j by (auto simp: b(1))
  qed (simp add: b(1))
  show "fst (open_op_log None (Some (bs[record_end ops j + i := b]))) = Inl OlErrCorrupt"
    if "j < length ops" "i < length (op_record (ops ! j))" "4 \<le> i" "b \<noteq> op_record (ops ! j) ! i" for j i b
    using open_op_log_changed [OF b(2)] that by (simp add: b(1))
qed

theorem op_log_recovery_witness:
  "\<exists>ol0 f ol. open_op_log None None = (Inr ol0, f) \<and> op_append_all [(1, [7], [8]), (2, [7], [])] ol0 = Some ol
    \<and> open_op_log None (Some (f_bytes (ol_file ol))) = (Inr ol, Some (f_bytes (ol_file ol)))
    \<and> map op_content (ol_ops ol) = [(1, [7], [8]), (2, [7], [])]"
proof -
  obtain ol0 f where o: "open_op_log None None = (Inr ol0, f)" by (simp add: open_op_log_def)
  then have c: "\<not> ol_closed ol0" by (rule op_log_fresh)
  obtain ol1 where 1: "op_append Write_ok 1 [7] [8] ol0 = (Inr (ol_last ol0 + 1), ol1)"
    using op_append_succeeds [OF c, of "[7]" "[8]"] by auto
  then have c1: "\<not> ol_closed ol1" using c by (auto simp: op_append_def Let_def split: option.splits if_splits)
  obtain ol where 2: "op_append Write_ok 2 [7] [] ol1 = (Inr (ol_last ol1 + 1), ol)"
    using op_append_succeeds [OF c1, of "[7]" "[]"] by auto
  have a: "op_append_all [(1, [7], [8]), (2, [7], [])] ol0 = Some ol" by (simp add: 1 2)
  show ?thesis using op_log_recovery [OF o a] o a by simp
qed

end
