(* ===== verification/Replica.thy ===== *)
theory Replica
  imports EngineDirs OpLog
begin

text \<open>
  The replicated store (\<open>internal/replica/types.go\<close>, \<open>manifest.go\<close>, \<open>store.go\<close>): one leader and several
  followers, each an engine in its own directory. A write is appended to the operation log, applied to
  the leader's engine, recorded in the \<open>COMMIT\<close> file and only then acknowledged; followers apply committed
  operations when \<open>ReplicateOnce\<close> or \<open>ReplicateAll\<close> is called, and every replica keeps the index of the
  last operation it applied in its \<open>APPLIED\<close> file. The lock makes every operation atomic. While a store is
  open its files live in its state: the log in \<open>rs_log\<close>, \<open>COMMIT\<close> in \<open>rs_commit_file\<close>, an engine's directory in
  the engine and \<open>APPLIED\<close> in \<open>rh_applied_file\<close>.
\<close>

section \<open>The manifest\<close>

definition role_leader :: string where "role_leader = ''leader''"
definition role_follower :: string where "role_follower = ''follower''"

record replica_entry =
  rpe_id :: int
  rpe_role :: string
  rpe_name :: string
  rpe_path :: string

record replication_manifest =
  rm_version :: int
  rm_count :: int
  rm_leader :: int
  rm_prefix :: string
  rm_replicas :: "replica_entry list"

definition replication_version :: int where "replication_version = 1"
definition default_replica_prefix :: string where "default_replica_prefix = ''replica''"

text \<open>Every failed check is \<open>ErrCorruptManifest\<close>. The loop over the replicas gives the identities seen and the
  number of leaders.\<close>

fun check_replicas ::
    "int \<Rightarrow> int set \<Rightarrow> string set \<Rightarrow> string set \<Rightarrow> nat \<Rightarrow> replica_entry list \<Rightarrow> (int set \<times> nat) option" where
  "check_replicas n ids names paths leaders [] = Some (ids, leaders)"
| "check_replicas n ids names paths leaders (r # rs) =
     (if rpe_id r < 0 \<or> rpe_id r \<ge> n then None
      else if rpe_id r \<in> ids then None
      else if rpe_name r = [] then None
      else if rpe_name r \<in> names then None
      else if rpe_path r = [] then None
      else if is_abs (rpe_path r) then None
      else if path_climbs (clean_path (rpe_path r)) then None
      else if clean_path (rpe_path r) \<noteq> rpe_path r then None
      else if rpe_path r \<in> paths then None
      else check_replicas n (insert (rpe_id r) ids) (insert (rpe_name r) names) (insert (rpe_path r) paths)
             (if rpe_role r = role_leader then leaders + 1 else leaders) rs)"

definition validate_replication :: "replication_manifest \<Rightarrow> bool" where
  "validate_replication m =
     (if rm_version m \<noteq> replication_version then False
      else if rm_count m \<le> 0 then False
      else if int (length (rm_replicas m)) \<noteq> rm_count m then False
      else
        (case check_replicas (rm_count m) {} {} {} 0 (rm_replicas m) of
           None \<Rightarrow> False
         | Some (ids, leaders) \<Rightarrow>
             if \<not> list_all (\<lambda>i. int i \<in> ids) [0..<nat (rm_count m)] then False
             else if leaders = 0 then False
             else if leaders > 1 then False
             else if \<not> list_all (\<lambda>r. rpe_id r = rm_leader m \<longrightarrow> rpe_role r = role_leader) (rm_replicas m) then False
             else list_ex (\<lambda>r. rpe_id r = rm_leader m) (rm_replicas m)))"

section \<open>The store\<close>

datatype replica_error = RpErrClosed | RpErrInvalidOptions | RpErrInvalidKey | RpErrInvalidReplica | RpErrInvalidReadMode
  | RpErrCorruptManifest | RpErrMismatch | RpErrIO | RpErrUnknownOp | RpErrLog op_log_error | RpErrEngine engine_error | RpErrPanic

record replica_options =
  ro_dir :: path
  ro_count :: int
  ro_leader :: int
  ro_prefix :: string

record replica_info =
  ri_id :: int
  ri_role :: string
  ri_name :: string
  ri_path :: string

record replica_handle =
  rh_info :: replica_info
  rh_engine :: engine
  rh_applied :: u64
  rh_paused :: bool
  rh_max_apply :: int
  rh_applied_file :: "bytes option"

record replica_store =
  rs_opts :: replica_options
  rs_replicas :: "replica_handle list"
  rs_log :: op_log
  rs_leader :: int
  rs_commit :: u64
  rs_closed :: bool
  rs_commit_file :: "bytes option"

text \<open>The tree below the store's directory.\<close>

record replica_disk =
  rd_manifest :: "replication_manifest json_file"
  rd_log :: "bytes option"
  rd_commit :: "bytes option"
  rd_engines :: "path \<Rightarrow> disk"
  rd_applied :: "path \<Rightarrow> bytes option"

datatype replica_fault = Rf_mkdir | Rf_manifest | Rf_log op_log_fault | Rf_replica_dir nat | Rf_engine nat io_fault

definition write_replication :: "bool \<Rightarrow> replication_manifest \<Rightarrow> replica_disk \<Rightarrow> replica_error option \<times> replica_disk" where
  "write_replication io_fails m d =
     (if \<not> validate_replication m then (Some RpErrCorruptManifest, d)
      else if io_fails then (Some RpErrIO, d)
      else (None, d\<lparr>rd_manifest := Json_file m\<rparr>))"

definition read_replication :: "replica_disk \<Rightarrow> replica_error + replication_manifest option" where
  "read_replication d =
     (case rd_manifest d of
        No_file \<Rightarrow> Inr None
      | Unreadable_file \<Rightarrow> Inl RpErrCorruptManifest
      | Bad_file \<Rightarrow> Inl RpErrCorruptManifest
      | Json_file m \<Rightarrow> if validate_replication m then Inr (Some m) else Inl RpErrCorruptManifest)"

subsection \<open>Open\<close>

definition fresh_replica :: "string \<Rightarrow> int \<Rightarrow> nat \<Rightarrow> replica_entry" where
  "fresh_replica prefix leader i =
     (let name = prefix @ ''-'' @ pad4 i in
      \<lparr>rpe_id = int i, rpe_role = (if int i = leader then role_leader else role_follower), rpe_name = name,
       rpe_path = path_join [''replicas'', name]\<rparr>)"

definition fresh_replication :: "int \<Rightarrow> int \<Rightarrow> string \<Rightarrow> replication_manifest" where
  "fresh_replication n leader prefix =
     \<lparr>rm_version = replication_version, rm_count = n, rm_leader = leader, rm_prefix = prefix,
      rm_replicas = map (fresh_replica prefix leader) [0..<nat n]\<rparr>"

definition replica_engine_fault :: "replica_fault option \<Rightarrow> nat \<Rightarrow> io_fault option" where
  "replica_engine_fault ft i = (case ft of Some (Rf_engine j f) \<Rightarrow> if i = j then Some f else None | _ \<Rightarrow> None)"

text \<open>When one engine fails to open the others and the log are closed, which leaves their files.\<close>

fun open_replicas ::
    "replica_fault option \<Rightarrow> path \<Rightarrow> nat \<Rightarrow> replica_entry list \<Rightarrow> (path \<Rightarrow> bytes option) \<Rightarrow> (path \<Rightarrow> disk)
     \<Rightarrow> (replica_error + replica_handle list) \<times> (path \<Rightarrow> disk)" where
  "open_replicas ft dir i [] A D = (Inr [], D)"
| "open_replicas ft dir i (r # rs) A D =
     (if ft = Some (Rf_replica_dir i) then (Inl RpErrIO, D)
      else
        (case engine_open (replica_engine_fault ft i) (engine_opts_for dir (rpe_path r)) (D (rpe_path r)) of
           (Inl er, d) \<Rightarrow> (Inl (RpErrEngine er), D(rpe_path r := d))
         | (Inr e, d) \<Rightarrow>
             (case open_replicas ft dir (i + 1) rs A (D(rpe_path r := d)) of
                (Inl er, D') \<Rightarrow> (Inl er, D')
              | (Inr hs, D') \<Rightarrow>
                  (Inr (\<lparr>rh_info = \<lparr>ri_id = rpe_id r, ri_role = rpe_role r, ri_name = rpe_name r, ri_path = rpe_path r\<rparr>,
                         rh_engine = e, rh_applied = load_index (A (rpe_path r)), rh_paused = False, rh_max_apply = 0,
                         rh_applied_file = A (rpe_path r)\<rparr> # hs), D'))))"

definition open_with_manifest ::
    "replica_fault option \<Rightarrow> replica_options \<Rightarrow> replication_manifest \<Rightarrow> replica_disk
     \<Rightarrow> (replica_error + replica_store) \<times> replica_disk" where
  "open_with_manifest ft o' m d =
     (case open_op_log (case ft of Some (Rf_log f) \<Rightarrow> Some f | _ \<Rightarrow> None) (rd_log d) of
        (Inl er, f) \<Rightarrow> (Inl (RpErrLog er), d\<lparr>rd_log := f\<rparr>)
      | (Inr ol, f) \<Rightarrow>
          (case open_replicas ft (ro_dir o') 0 (rm_replicas m) (rd_applied d) (rd_engines d) of
             (Inl er, D) \<Rightarrow> (Inl er, d\<lparr>rd_log := f, rd_engines := D\<rparr>)
           | (Inr hs, D) \<Rightarrow>
               (Inr \<lparr>rs_opts = o', rs_replicas = hs, rs_log = ol, rs_leader = ro_leader o',
                     rs_commit = load_index (rd_commit d), rs_closed = False, rs_commit_file = rd_commit d\<rparr>,
                d\<lparr>rd_log := f, rd_engines := D\<rparr>)))"

definition replica_open :: "replica_fault option \<Rightarrow> replica_options \<Rightarrow> replica_disk \<Rightarrow> (replica_error + replica_store) \<times> replica_disk" where
  "replica_open ft o0 d =
     (if ro_dir o0 = [] then (Inl RpErrInvalidOptions, d)
      else
        let o1 = (if ro_prefix o0 = [] then o0\<lparr>ro_prefix := default_replica_prefix\<rparr> else o0) in
        if rd_manifest d \<noteq> No_file then
          (case read_replication d of
             Inl er \<Rightarrow> (Inl er, d)
           | Inr None \<Rightarrow> (Inl RpErrPanic, d)
           | Inr (Some m) \<Rightarrow>
               if ro_count o1 \<noteq> 0 \<and> ro_count o1 \<noteq> rm_count m then (Inl RpErrMismatch, d)
               else if ro_leader o1 \<ge> 0 \<and> ro_leader o1 \<noteq> rm_leader m then (Inl RpErrMismatch, d)
               else open_with_manifest ft (o1\<lparr>ro_count := rm_count m, ro_leader := rm_leader m, ro_prefix := rm_prefix m\<rparr>) m d)
        else if ro_count o1 \<le> 0 then (Inl RpErrInvalidOptions, d)
        else
          let o2 = (if ro_leader o1 < 0 then o1\<lparr>ro_leader := 0\<rparr> else o1) in
          if ro_leader o2 \<ge> ro_count o2 then (Inl RpErrInvalidOptions, d)
          else
            let m = fresh_replication (ro_count o2) (ro_leader o2) (ro_prefix o2) in
            if ft = Some Rf_mkdir then (Inl RpErrIO, d)
            else
              (case write_replication (ft = Some Rf_manifest) m d of
                 (Some er, d') \<Rightarrow> (Inl er, d')
               | (None, d') \<Rightarrow> open_with_manifest ft o2 m d'))"

subsection \<open>Writes\<close>

text \<open>What the I/O of one write does: the log record, the leader's log, \<open>COMMIT\<close> and \<open>APPLIED\<close>.\<close>

record replica_write_io =
  wi_log :: write_outcome
  wi_engine :: write_outcome
  wi_sync :: bool
  wi_commit :: bool
  wi_applied :: bool

definition good_write_io :: replica_write_io where
  "good_write_io = \<lparr>wi_log = Write_ok, wi_engine = Write_ok, wi_sync = True, wi_commit = True, wi_applied = True\<rparr>"

definition set_replica :: "nat \<Rightarrow> (replica_handle \<Rightarrow> replica_handle) \<Rightarrow> replica_store \<Rightarrow> replica_store" where
  "set_replica i f st = st\<lparr>rs_replicas := (rs_replicas st)[i := f (rs_replicas st ! i)]\<rparr>"

text \<open>\<open>s.replicas[s.leaderID]\<close>; \<open>None\<close> is the panic of an index out of range.\<close>

definition leader_index :: "replica_store \<Rightarrow> nat option" where
  "leader_index st =
     (if 0 \<le> rs_leader st \<and> nat (rs_leader st) < length (rs_replicas st) then Some (nat (rs_leader st)) else None)"

definition save_applied :: "bool \<Rightarrow> u64 \<Rightarrow> replica_handle \<Rightarrow> replica_handle" where
  "save_applied io_ok idx h = (if io_ok then h\<lparr>rh_applied_file := Some (index_text idx)\<rparr> else h)"

text \<open>What \<open>Put\<close> and \<open>Delete\<close> do once the leader's engine has taken the write: \<open>COMMIT\<close>, then the state.\<close>

definition commit_write :: "replica_write_io \<Rightarrow> nat \<Rightarrow> u64 \<Rightarrow> replica_store \<Rightarrow> (replica_error + u64) \<times> replica_store" where
  "commit_write io i idx st =
     (if \<not> wi_commit io then (Inl RpErrIO, st)
      else
        (Inr idx,
         (set_replica i (\<lambda>h. save_applied (wi_applied io) idx (h\<lparr>rh_applied := idx\<rparr>)) st)
           \<lparr>rs_commit := idx, rs_commit_file := Some (index_text idx)\<rparr>))"

definition replica_put :: "bytes \<Rightarrow> bytes \<Rightarrow> replica_write_io \<Rightarrow> replica_store \<Rightarrow> (replica_error + u64) \<times> replica_store" where
  "replica_put key val io st =
     (if length key = 0 then (Inl RpErrInvalidKey, st)
      else if rs_closed st then (Inl RpErrClosed, st)
      else
        (case op_append (wi_log io) op_type_put key val (rs_log st) of
           (Inl er, ol) \<Rightarrow> (Inl (RpErrLog er), st\<lparr>rs_log := ol\<rparr>)
         | (Inr idx, ol) \<Rightarrow>
             let st1 = st\<lparr>rs_log := ol\<rparr> in
             (case leader_index st1 of
                None \<Rightarrow> (Inl RpErrPanic, st1)
              | Some i \<Rightarrow>
                  (case engine_put key val (wi_engine io) (wi_sync io) (rh_engine (rs_replicas st1 ! i)) of
                     (Some er, e) \<Rightarrow> (Inl (RpErrEngine er), set_replica i (\<lambda>h. h\<lparr>rh_engine := e\<rparr>) st1)
                   | (None, e) \<Rightarrow> commit_write io i idx (set_replica i (\<lambda>h. h\<lparr>rh_engine := e\<rparr>) st1)))))"

definition replica_delete :: "bytes \<Rightarrow> replica_write_io \<Rightarrow> replica_store \<Rightarrow> (replica_error + u64) \<times> replica_store" where
  "replica_delete key io st =
     (if length key = 0 then (Inl RpErrInvalidKey, st)
      else if rs_closed st then (Inl RpErrClosed, st)
      else
        (case op_append (wi_log io) op_type_delete key [] (rs_log st) of
           (Inl er, ol) \<Rightarrow> (Inl (RpErrLog er), st\<lparr>rs_log := ol\<rparr>)
         | (Inr idx, ol) \<Rightarrow>
             let st1 = st\<lparr>rs_log := ol\<rparr> in
             (case leader_index st1 of
                None \<Rightarrow> (Inl RpErrPanic, st1)
              | Some i \<Rightarrow>
                  (case engine_delete key (wi_engine io) (wi_sync io) (rh_engine (rs_replicas st1 ! i)) of
                     (Some er, e) \<Rightarrow> (Inl (RpErrEngine er), set_replica i (\<lambda>h. h\<lparr>rh_engine := e\<rparr>) st1)
                   | (None, e) \<Rightarrow> commit_write io i idx (set_replica i (\<lambda>h. h\<lparr>rh_engine := e\<rparr>) st1)))))"

subsection \<open>Reads\<close>

definition read_leader :: string where "read_leader = ''leader''"
definition read_follower :: string where "read_follower = ''follower''"
definition read_any :: string where "read_any = ''any''"

definition replica_at :: "int \<Rightarrow> replica_store \<Rightarrow> replica_error + nat" where
  "replica_at i st = (if 0 \<le> i \<and> nat i < length (rs_replicas st) then Inr (nat i) else Inl RpErrPanic)"

definition select_replica :: "string \<Rightarrow> int \<Rightarrow> replica_store \<Rightarrow> replica_error + nat" where
  "select_replica mode i st =
     (if mode = read_leader then replica_at (rs_leader st) st
      else if mode = read_follower then
        (if i < 0 \<or> i \<ge> int (length (rs_replicas st)) then Inl RpErrInvalidReplica
         else if i = rs_leader st then Inl RpErrInvalidReplica
         else replica_at i st)
      else if mode = read_any then
        (if i < 0 then replica_at (rs_leader st) st
         else if i \<ge> int (length (rs_replicas st)) then Inl RpErrInvalidReplica
         else replica_at i st)
      else Inl RpErrInvalidReadMode)"

definition replica_get :: "bytes \<Rightarrow> string \<Rightarrow> int \<Rightarrow> replica_store \<Rightarrow> (replica_error + bytes option) \<times> replica_store" where
  "replica_get key mode rid st =
     (if length key = 0 then (Inl RpErrInvalidKey, st)
      else if rs_closed st then (Inl RpErrClosed, st)
      else
        (case select_replica mode rid st of
           Inl er \<Rightarrow> (Inl er, st)
         | Inr i \<Rightarrow>
             (case engine_get key (rh_engine (rs_replicas st ! i)) of
                (res, e) \<Rightarrow> (case res of Inl er \<Rightarrow> Inl (RpErrEngine er) | Inr v \<Rightarrow> Inr v,
                             set_replica i (\<lambda>h. h\<lparr>rh_engine := e\<rparr>) st))))"

definition replica_scan :: "bytes \<Rightarrow> bytes \<Rightarrow> string \<Rightarrow> int \<Rightarrow> replica_store \<Rightarrow> replica_error + kv_entry list" where
  "replica_scan lo hi mode rid st =
     (if rs_closed st then Inl RpErrClosed
      else
        (case select_replica mode rid st of
           Inl er \<Rightarrow> Inl er
         | Inr i \<Rightarrow>
             (case engine_scan lo hi (rh_engine (rs_replicas st ! i)) of
                Inl er \<Rightarrow> Inl (RpErrEngine er)
              | Inr es \<Rightarrow> Inr es)))"

subsection \<open>Replication\<close>

text \<open>The I/O of one application: the follower's log and its \<open>APPLIED\<close>.\<close>

record apply_io =
  ap_engine :: write_outcome
  ap_sync :: bool
  ap_applied :: bool

definition good_apply :: apply_io where
  "good_apply = \<lparr>ap_engine = Write_ok, ap_sync = True, ap_applied = True\<rparr>"

definition apply_op :: "apply_io \<Rightarrow> operation \<Rightarrow> engine \<Rightarrow> replica_error option \<times> engine" where
  "apply_op io op e =
     (if op_type op = op_type_put then
        (case engine_put (op_key op) (op_value op) (ap_engine io) (ap_sync io) e of (er, e') \<Rightarrow> (map_option RpErrEngine er, e'))
      else if op_type op = op_type_delete then
        (case engine_delete (op_key op) (ap_engine io) (ap_sync io) e of (er, e') \<Rightarrow> (map_option RpErrEngine er, e'))
      else (Some RpErrUnknownOp, e))"

text \<open>The inner loop of \<open>replicateOnce\<close> over the pending operations of one follower.\<close>

fun apply_ops ::
    "(u64 \<Rightarrow> apply_io) \<Rightarrow> u64 \<Rightarrow> operation list \<Rightarrow> replica_handle \<Rightarrow> nat \<Rightarrow> replica_error option \<times> nat \<times> replica_handle" where
  "apply_ops io commit [] h cnt = (None, cnt, h)"
| "apply_ops io commit (op # ops) h cnt =
     (if op_index op > commit then (None, cnt, h)
      else
        (case apply_op (io (op_index op)) op (rh_engine h) of
           (Some er, e) \<Rightarrow> (Some er, cnt, h\<lparr>rh_engine := e\<rparr>)
         | (None, e) \<Rightarrow>
             apply_ops io commit ops
               (save_applied (ap_applied (io (op_index op))) (op_index op) (h\<lparr>rh_engine := e, rh_applied := op_index op\<rparr>))
               (cnt + 1)))"

definition apply_limit :: "replica_handle \<Rightarrow> int" where
  "apply_limit h = (if rh_max_apply h > 0 then rh_max_apply h else 1)"

fun replicate_handles ::
    "(nat \<Rightarrow> u64 \<Rightarrow> apply_io) \<Rightarrow> op_log \<Rightarrow> u64 \<Rightarrow> nat \<Rightarrow> replica_handle list \<Rightarrow> nat
     \<Rightarrow> replica_error option \<times> nat \<times> replica_handle list" where
  "replicate_handles io ol commit i [] cnt = (None, cnt, [])"
| "replicate_handles io ol commit i (h # hs) cnt =
     (if ri_role (rh_info h) = role_leader \<or> rh_paused h \<or> rh_applied h \<ge> commit then
        (case replicate_handles io ol commit (i + 1) hs cnt of (er, n, hs') \<Rightarrow> (er, n, h # hs'))
      else
        (case apply_ops (io i) commit (operations_after (rh_applied h) (apply_limit h) ol) h cnt of
           (Some er, n, h') \<Rightarrow> (Some er, n, h' # hs)
         | (None, n, h') \<Rightarrow>
             (case replicate_handles io ol commit (i + 1) hs n of (er, n', hs') \<Rightarrow> (er, n', h' # hs'))))"

definition replicate_once :: "(nat \<Rightarrow> u64 \<Rightarrow> apply_io) \<Rightarrow> replica_store \<Rightarrow> replica_error option \<times> nat \<times> replica_store" where
  "replicate_once io st =
     (if rs_closed st then (Some RpErrClosed, 0, st)
      else
        (case replicate_handles io (rs_log st) (rs_commit st) 0 (rs_replicas st) 0 of
           (er, n, hs) \<Rightarrow> (er, n, st\<lparr>rs_replicas := hs\<rparr>)))"

text \<open>Every pass that applies something moves a follower's index up, so the loop of \<open>ReplicateAll\<close> ends.\<close>

definition applied_room :: "replica_handle \<Rightarrow> nat" where
  "applied_room h = 2 ^ 64 - unat (rh_applied h)"

lemma collect_ops_above:
  "op \<in> set (collect_ops after limit acc ops) \<Longrightarrow> op \<in> set acc \<or> op \<in> set ops \<and> after < op_index op"
proof (induction ops arbitrary: acc)
  case (Cons a ops)
  show ?case using Cons.prems Cons.IH [of acc] Cons.IH [of "acc @ [a]"] by (auto simp: Let_def split: if_splits)
qed simp

lemma rh_applied_save [simp]: "rh_applied (save_applied io idx h) = rh_applied h" "rh_info (save_applied io idx h) = rh_info h"
  "rh_engine (save_applied io idx h) = rh_engine h" "rh_paused (save_applied io idx h) = rh_paused h"
  "rh_max_apply (save_applied io idx h) = rh_max_apply h"
  by (simp_all add: save_applied_def)

lemma apply_ops_progress:
  "apply_ops io commit ops h n = (er, n', h') \<Longrightarrow> \<forall>op \<in> set ops. a < op_index op \<Longrightarrow>
   n' = n \<and> rh_applied h' = rh_applied h \<or> n < n' \<and> a < rh_applied h'"
  by (induction ops arbitrary: h n) (fastforce split: if_splits prod.splits option.splits)+

lemma applied_room_less: "rh_applied h < rh_applied h' \<Longrightarrow> applied_room h' < applied_room h"
proof -
  assume a: "rh_applied h < rh_applied h'"
  have "unat (rh_applied h') < 2 ^ 64" using unsigned_less [of "rh_applied h'"] by simp
  then show ?thesis using a by (simp add: applied_room_def word_less_nat_alt)
qed

lemma replicate_handles_progress:
  "replicate_handles io ol commit i hs n = (er, n', hs') \<Longrightarrow>
   n' = n \<and> sum_list (map applied_room hs') = sum_list (map applied_room hs)
   \<or> n < n' \<and> sum_list (map applied_room hs') < sum_list (map applied_room hs)"
proof (induction hs arbitrary: i n er n' hs')
  case (Cons h hs)
  show ?case
  proof (cases "ri_role (rh_info h) = role_leader \<or> rh_paused h \<or> rh_applied h \<ge> commit")
    case True
    obtain er1 n1 hs1 where r: "replicate_handles io ol commit (i + 1) hs n = (er1, n1, hs1)"
      by (metis prod_cases3)
    then show ?thesis using Cons.IH [OF r] Cons.prems True by auto
  next
    case False
    let ?ops = "operations_after (rh_applied h) (apply_limit h) ol"
    obtain er1 n1 h1 where a: "apply_ops (io i) commit ?ops h n = (er1, n1, h1)" by (metis prod_cases3)
    have "\<forall>op \<in> set ?ops. rh_applied h < op_index op"
      using collect_ops_above by (fastforce simp: operations_after_def)
    from apply_ops_progress [OF a this]
    have step: "n1 = n \<and> applied_room h1 = applied_room h \<or> n < n1 \<and> applied_room h1 < applied_room h"
      using applied_room_less by (auto simp: applied_room_def)
    show ?thesis
    proof (cases er1)
      case None
      obtain er2 n2 hs2 where r: "replicate_handles io ol commit (i + 1) hs n1 = (er2, n2, hs2)"
        by (metis prod_cases3)
      then show ?thesis using Cons.IH [OF r] Cons.prems False None a step by auto
    next
      case (Some x)
      then show ?thesis using Cons.prems False a step by auto
    qed
  qed
qed simp

function replicate_loop ::
    "(nat \<Rightarrow> u64 \<Rightarrow> apply_io) \<Rightarrow> op_log \<Rightarrow> u64 \<Rightarrow> replica_handle list \<Rightarrow> replica_error option \<times> replica_handle list" where
  "replicate_loop io ol commit hs =
     (case replicate_handles io ol commit 0 hs 0 of
        (Some er, _, hs') \<Rightarrow> (Some er, hs')
      | (None, n, hs') \<Rightarrow> if n = 0 then (None, hs') else replicate_loop io ol commit hs')"
  by pat_completeness auto
termination
proof (relation "measure (\<lambda>(io, ol, commit, hs). sum_list (map applied_room hs))")
  fix io ol commit hs x y n hs'
  assume "(x, y) = replicate_handles io ol commit 0 hs 0" "x = None" "(n, hs') = y" "n \<noteq> 0"
  then have "replicate_handles io ol commit 0 hs 0 = (None, n, hs')" "n \<noteq> 0" by simp_all
  then show "((io, ol, commit, hs'), io, ol, commit, hs) \<in> measure (\<lambda>(io, ol, commit, hs). sum_list (map applied_room hs))"
    using replicate_handles_progress by fastforce
qed simp

declare replicate_loop.simps [simp del]

definition replicate_all :: "(nat \<Rightarrow> u64 \<Rightarrow> apply_io) \<Rightarrow> replica_store \<Rightarrow> replica_error option \<times> replica_store" where
  "replicate_all io st =
     (if rs_closed st then (Some RpErrClosed, st)
      else (case replicate_loop io (rs_log st) (rs_commit st) (rs_replicas st) of (er, hs) \<Rightarrow> (er, st\<lparr>rs_replicas := hs\<rparr>)))"

subsection \<open>Pausing and lagging a follower\<close>

definition set_follower_paused :: "int \<Rightarrow> bool \<Rightarrow> replica_store \<Rightarrow> replica_error option \<times> replica_store" where
  "set_follower_paused i paused st =
     (if rs_closed st then (Some RpErrClosed, st)
      else if i < 0 \<or> i \<ge> int (length (rs_replicas st)) then (Some RpErrInvalidReplica, st)
      else if i = rs_leader st then (Some RpErrInvalidReplica, st)
      else (None, set_replica (nat i) (\<lambda>h. h\<lparr>rh_paused := paused\<rparr>) st))"

definition set_follower_lag :: "int \<Rightarrow> int \<Rightarrow> replica_store \<Rightarrow> replica_error option \<times> replica_store" where
  "set_follower_lag i limit st =
     (if rs_closed st then (Some RpErrClosed, st)
      else if i < 0 \<or> i \<ge> int (length (rs_replicas st)) then (Some RpErrInvalidReplica, st)
      else if i = rs_leader st then (Some RpErrInvalidReplica, st)
      else (None, set_replica (nat i) (\<lambda>h. h\<lparr>rh_max_apply := limit\<rparr>) st))"

subsection \<open>Operations on every replica\<close>

fun each_replica ::
    "(nat \<Rightarrow> engine \<Rightarrow> engine_error option \<times> engine) \<Rightarrow> nat \<Rightarrow> replica_handle list \<Rightarrow> replica_error option \<times> replica_handle list" where
  "each_replica f i [] = (None, [])"
| "each_replica f i (h # hs) =
     (case f i (rh_engine h) of
        (Some er, e) \<Rightarrow> (Some (RpErrEngine er), h\<lparr>rh_engine := e\<rparr> # hs)
      | (None, e) \<Rightarrow> (case each_replica f (i + 1) hs of (res, hs') \<Rightarrow> (res, h\<lparr>rh_engine := e\<rparr> # hs')))"

definition replica_flush ::
    "(u64 \<Rightarrow> float64 \<Rightarrow> u64) \<Rightarrow> (u64 \<Rightarrow> u64 \<Rightarrow> int) \<Rightarrow> (nat \<Rightarrow> io_fault option) \<Rightarrow> replica_store \<Rightarrow> replica_error option \<times> replica_store" where
  "replica_flush c r faults st =
     (if rs_closed st then (Some RpErrClosed, st)
      else (case each_replica (\<lambda>i. engine_flush c r (faults i)) 0 (rs_replicas st) of
        (res, hs) \<Rightarrow> (res, st\<lparr>rs_replicas := hs\<rparr>)))"

definition replica_compact ::
    "(u64 \<Rightarrow> float64 \<Rightarrow> u64) \<Rightarrow> (u64 \<Rightarrow> u64 \<Rightarrow> int) \<Rightarrow> (nat \<Rightarrow> io_fault option) \<Rightarrow> replica_store \<Rightarrow> replica_error option \<times> replica_store" where
  "replica_compact c r faults st =
     (if rs_closed st then (Some RpErrClosed, st)
      else (case each_replica (\<lambda>i. engine_compact c r (faults i)) 0 (rs_replicas st) of
        (res, hs) \<Rightarrow> (res, st\<lparr>rs_replicas := hs\<rparr>)))"

record replica_stats =
  rst_info :: replica_info
  rst_applied :: u64
  rst_tables :: nat
  rst_flushes :: u64
  rst_compactions :: u64

record replica_store_stats =
  rss_count :: nat
  rss_leader :: int
  rss_commit :: u64
  rss_applied :: u64
  rss_replicas :: "replica_stats list"

definition replica_stats_of :: "replica_store \<Rightarrow> replica_store_stats" where
  "replica_stats_of st =
     (let row = (\<lambda>h. let es = engine_stats_of (rh_engine h) in
            \<lparr>rst_info = rh_info h, rst_applied = rh_applied h, rst_tables = es_tables es, rst_flushes = es_flushes es,
             rst_compactions = es_compactions es\<rparr>);
          minApplied = foldl (\<lambda>m h. if rh_applied h < m then rh_applied h else m) (- 1) (rs_replicas st) in
      \<lparr>rss_count = length (rs_replicas st), rss_leader = rs_leader st, rss_commit = rs_commit st,
       rss_applied = (if minApplied = - 1 then 0 else minApplied),
       rss_replicas = sort_key (\<lambda>r. ri_id (rst_info r)) (map row (rs_replicas st))\<rparr>)"

definition replica_infos :: "replica_store \<Rightarrow> replica_info list" where
  "replica_infos st = map rh_info (rs_replicas st)"

fun close_replicas :: "replica_error option \<Rightarrow> replica_handle list \<Rightarrow> replica_error option \<times> replica_handle list" where
  "close_replicas first [] = (first, [])"
| "close_replicas first (h # hs) =
     (case engine_close (rh_engine h) of
        (er, e) \<Rightarrow>
          (case close_replicas (if er \<noteq> None \<and> first = None then map_option RpErrEngine er else first) hs of
             (res, hs') \<Rightarrow> (res, h\<lparr>rh_engine := e\<rparr> # hs')))"

definition replica_close :: "replica_store \<Rightarrow> replica_error option \<times> replica_store" where
  "replica_close st =
     (if rs_closed st then (None, st)
      else
        (case close_replicas None (rs_replicas st) of
           (first, hs) \<Rightarrow>
             (case op_log_close (rs_log st) of
                (er, ol) \<Rightarrow>
                  (if er \<noteq> None \<and> first = None then map_option RpErrLog er else first,
                   st\<lparr>rs_closed := True, rs_replicas := hs, rs_log := ol\<rparr>))))"

text \<open>The tree below the store's directory while the store is open, as a later \<open>Open\<close> finds it.\<close>

definition replica_directory :: "replica_disk \<Rightarrow> replica_store \<Rightarrow> replica_disk" where
  "replica_directory d st =
     d\<lparr>rd_log := Some (f_bytes (ol_file (rs_log st))), rd_commit := rs_commit_file st,
       rd_engines := foldl (\<lambda>D h. D(ri_path (rh_info h) := directory (rh_engine h))) (rd_engines d) (rs_replicas st),
       rd_applied := foldl (\<lambda>A h. A(ri_path (rh_info h) := rh_applied_file h)) (rd_applied d) (rs_replicas st)\<rparr>"

end
