(* ===== verification/ReplicaInv.thy ===== *)
theory ReplicaInv
  imports Replica ShardSpec
begin

text \<open>
  The invariant of the replicated store: every follower holds the map of a prefix of the operation log, the
  leader the map of all its writes. What replication needs of a claim about a follower is the locale
  \<open>follower_claim\<close>; the engine enters through the contracts \<open>kv_store\<close> and \<open>kv_updates\<close>.
\<close>

section \<open>The log as a history\<close>

definition op_write :: "operation \<Rightarrow> bytes \<times> bytes option" where
  "op_write op = (op_key op, if op_type op = op_type_put then Some (op_value op) else None)"

definition op_kind_ok :: "operation \<Rightarrow> bool" where
  "op_kind_ok op \<longleftrightarrow> op_type op = op_type_put \<or> op_type op = op_type_delete \<and> op_value op = []"

lemma apply_op_write:
  "op_kind_ok op \<Longrightarrow> apply_op io op e = (case engine_write (fst (op_write op)) (snd (op_write op)) (ap_engine io) (ap_sync io) e of
     (er, e') \<Rightarrow> (map_option RpErrEngine er, e'))"
  by (auto simp: apply_op_def op_write_def engine_write_def op_kind_ok_def op_type_put_def op_type_delete_def)

lemma collect_ops_take:
  "limit > 0 \<Longrightarrow> length acc < nat limit \<Longrightarrow> \<forall>op \<in> set ops. after < op_index op \<Longrightarrow>
   collect_ops after limit acc ops = acc @ take (nat limit - length acc) ops"
proof (induction ops arbitrary: acc)
  case (Cons op ops)
  have "\<not> op_index op \<le> after" using Cons.prems(3) by (simp add: not_le)
  moreover have "int (length acc + 1) \<ge> limit \<longleftrightarrow> nat limit - length acc = 1" using Cons.prems(1,2) by linarith
  moreover have "nat limit - length acc = Suc (nat limit - Suc (length acc))" using Cons.prems(2) by simp
  ultimately show ?case using Cons.IH [of "acc @ [op]"] Cons.prems by (auto simp: Let_def)
qed simp

lemma collect_ops_skip:
  "\<forall>op \<in> set xs. op_index op \<le> after \<Longrightarrow> collect_ops after limit acc (xs @ ys) = collect_ops after limit acc ys"
  by (induction xs) auto

text \<open>On a numbered log the operations after \<open>a\<close> are those from position \<open>a\<close> on.\<close>

lemma numbered_index: "ops_numbered ol \<Longrightarrow> i < length (ol_ops ol) \<Longrightarrow> unat (op_index (ol_ops ol ! i)) = Suc i"
  using counts_from_nth [of 0 "map op_index (ol_ops ol)" i] by (simp add: ops_numbered_def)

lemma operations_after_numbered:
  assumes "ops_numbered ol" "limit > 0" "unat after \<le> length (ol_ops ol)"
  shows "operations_after after limit ol = take (nat limit) (drop (unat after) (ol_ops ol))"
proof -
  let ?L = "ol_ops ol" and ?a = "unat after"
  have "op_index op \<le> after" if "op \<in> set (take ?a ?L)" for op
  proof -
    obtain i where "i < ?a" "i < length ?L" "op = ?L ! i" using \<open>op \<in> _\<close> by (auto simp: in_set_conv_nth)
    then show ?thesis using numbered_index [OF assms(1), of i] by (simp add: word_le_nat_alt)
  qed
  then have "collect_ops after limit [] (take ?a ?L @ drop ?a ?L) = collect_ops after limit [] (drop ?a ?L)"
    by (intro collect_ops_skip) blast
  moreover have "after < op_index op" if "op \<in> set (drop ?a ?L)" for op
  proof -
    obtain i where "i < length ?L - ?a" "op = drop ?a ?L ! i" using \<open>op \<in> _\<close> by (auto simp: in_set_conv_nth)
    then have "?a + i < length ?L" "op = ?L ! (?a + i)" using assms(3) by simp_all
    then show ?thesis using numbered_index [OF assms(1), of "?a + i"] by (simp add: word_less_nat_alt)
  qed
  ultimately show ?thesis using collect_ops_take [of limit "[]" "drop ?a ?L" after] assms(2) by (simp add: operations_after_def)
qed

section \<open>Followers\<close>

text \<open>
  What replication needs of a claim \<open>fok\<close> about a follower and the log: it bounds the follower's index, holds
  an engine that works, and survives the application of the next operation. The claim is that the
  follower holds a prefix of the history (in a session), or that the rest of the log leads to the leader's
  map (after a reopening).
\<close>

locale follower_claim =
  fixes fok :: "operation list \<Rightarrow> replica_handle \<Rightarrow> bool"
  assumes fok_bound: "fok L h \<Longrightarrow> unat (rh_applied h) \<le> length L"
    and fok_inv: "fok L h \<Longrightarrow> engine_inv (rh_engine h)"
    and fok_next: "fok L h \<Longrightarrow> unat (rh_applied h) < length L \<Longrightarrow> op = L ! unat (rh_applied h)
      \<Longrightarrow> unat (op_index op) = Suc (unat (rh_applied h))
      \<Longrightarrow> engine_write (fst (op_write op)) (snd (op_write op)) Write_ok True (rh_engine h) = (None, e)
      \<Longrightarrow> rh_engine h' = e \<Longrightarrow> rh_applied h' = op_index op \<Longrightarrow> fok L h'"

text \<open>What replication may do to a handle.\<close>

definition file_behind :: "replica_handle \<Rightarrow> bool" where
  "file_behind h \<longleftrightarrow> load_index (rh_applied_file h) \<le> rh_applied h"

definition advanced :: "(operation list \<Rightarrow> replica_handle \<Rightarrow> bool) \<Rightarrow> operation list \<Rightarrow> replica_handle \<Rightarrow> replica_handle \<Rightarrow> bool" where
  "advanced fok L h h' \<longleftrightarrow> rh_info h' = rh_info h \<and> rh_paused h' = rh_paused h \<and> rh_max_apply h' = rh_max_apply h
     \<and> en_opts (rh_engine h') = en_opts (rh_engine h) \<and> rh_applied h \<le> rh_applied h' \<and> (file_behind h \<longrightarrow> file_behind h')
     \<and> (fok L h \<longrightarrow> fok L h') \<and> (ri_role (rh_info h) = role_leader \<or> rh_paused h \<longrightarrow> h' = h)"

lemma advanced_refl [simp]: "advanced fok L h h"
  by (simp add: advanced_def)

lemma advanced_trans: "advanced fok L h h' \<Longrightarrow> advanced fok L h' h'' \<Longrightarrow> advanced fok L h h''"
  by (auto simp: advanced_def)

lemma advanced_list_trans:
  "list_all2 (advanced fok L) hs hs1 \<Longrightarrow> list_all2 (advanced fok L) hs1 hs2 \<Longrightarrow> list_all2 (advanced fok L) hs hs2"
  unfolding list_all2_conv_all_nth using advanced_trans by metis

text \<open>The I/O of an application that works, with \<open>APPLIED\<close> saved or not.\<close>

definition apply_with :: "(nat \<Rightarrow> u64 \<Rightarrow> bool) \<Rightarrow> nat \<Rightarrow> u64 \<Rightarrow> apply_io" where
  "apply_with A i idx = \<lparr>ap_engine = Write_ok, ap_sync = True, ap_applied = A i idx\<rparr>"

lemma apply_op_refused:
  "op_kind_ok op \<Longrightarrow> apply_op (apply_with A i idx) op e = (Some er, e') \<Longrightarrow> e' = e"
  using engine_write_refused [of "fst (op_write op)" "snd (op_write op)" e _ e']
  by (auto simp: apply_op_write apply_with_def split: prod.splits)

text \<open>A pass that applies nothing and fails nowhere leaves no unpaused follower behind.\<close>

definition settled :: "u64 \<Rightarrow> replica_handle \<Rightarrow> bool" where
  "settled commit h \<longleftrightarrow> ri_role (rh_info h) = role_leader \<or> rh_paused h \<or> rh_applied h \<ge> commit"

lemma apply_ops_some:
  "apply_ops io commit ops h n = (er, n', h') \<Longrightarrow> n \<le> n' \<and> (ops \<noteq> [] \<longrightarrow> op_index (hd ops) \<le> commit \<longrightarrow> er = None \<longrightarrow> n < n')"
proof (induction ops arbitrary: h n)
  case (Cons op ops)
  show ?case
  proof (cases "op_index op > commit")
    case False
    obtain er1 e where ap: "apply_op (io (op_index op)) op (rh_engine h) = (er1, e)" by fastforce
    show ?thesis
    proof (cases er1)
      case None
      then show ?thesis using Cons.prems False ap Cons.IH by fastforce
    next
      case (Some x)
      then show ?thesis using Cons.prems False ap by auto
    qed
  qed (use Cons.prems in auto)
qed simp

lemma replicate_handles_none:
  assumes "replicate_handles io ol commit i hs n = (None, n', hs')" "ops_numbered ol" "unat commit \<le> length (ol_ops ol)"
  shows "n \<le> n' \<and> (n' = n \<longrightarrow> hs' = hs \<and> (\<forall>h \<in> set hs. settled commit h))"
  using assms(1)
proof (induction hs arbitrary: i n n' hs')
  case (Cons h hs)
  show ?case
  proof (cases "settled commit h")
    case True
    then show ?thesis using Cons unfolding settled_def by (auto split: prod.splits)
  next
    case False
    let ?a = "unat (rh_applied h)"
    let ?ops = "operations_after (rh_applied h) (apply_limit h) ol"
    have a: "?a < unat commit" using False by (auto simp: settled_def word_le_nat_alt)
    obtain n1 h1 hs1 where r: "apply_ops (io i) commit ?ops h n = (None, n1, h1)"
        "replicate_handles io ol commit (i + 1) hs n1 = (None, n', hs1)"
      using Cons.prems False by (auto simp: settled_def split: prod.splits option.splits)
    have "?ops = take (nat (apply_limit h)) (drop ?a (ol_ops ol))"
      using a assms(3) by (intro operations_after_numbered [OF assms(2)]) (simp_all add: apply_limit_def)
    moreover have "nat (apply_limit h) \<noteq> 0" by (simp add: apply_limit_def)
    moreover have "drop ?a (ol_ops ol) \<noteq> []" "hd (drop ?a (ol_ops ol)) = ol_ops ol ! ?a"
      using a assms(3) by (simp_all add: hd_drop_conv_nth)
    ultimately have "?ops \<noteq> []" "hd ?ops = ol_ops ol ! ?a" by simp_all
    moreover have "unat (op_index (ol_ops ol ! ?a)) = Suc ?a" using numbered_index [OF assms(2)] a assms(3) by simp
    ultimately have "n < n1" using apply_ops_some [OF r(1)] a by (simp add: word_le_nat_alt)
    then show ?thesis using Cons.IH [OF r(2)] by simp
  qed
qed simp

lemma replicate_loop_none:
  assumes "replicate_loop io ol commit hs = (None, hs')" "ops_numbered ol" "unat commit \<le> length (ol_ops ol)"
  shows "\<forall>h \<in> set hs'. settled commit h"
  using assms
proof (induction io ol commit hs arbitrary: hs' rule: replicate_loop.induct)
  case (1 io ol commit hs)
  obtain er1 n1 hs1 where r: "replicate_handles io ol commit 0 hs 0 = (er1, n1, hs1)" by (metis prod_cases3)
  have e: "er1 = None" using "1.prems"(1) r by (subst (asm) replicate_loop.simps) (auto split: option.splits)
  show ?case
  proof (cases "n1 = 0")
    case True
    then have "hs' = hs1" using "1.prems"(1) r e by (subst (asm) replicate_loop.simps) simp
    then show ?thesis using replicate_handles_none [OF r [unfolded e] "1.prems"(2,3)] True by simp
  next
    case False
    then have "replicate_loop io ol commit hs1 = (None, hs')"
      using "1.prems"(1) r e by (subst (asm) replicate_loop.simps) simp
    then show ?thesis using 1 r e False by simp
  qed
qed

text \<open>When the engines accept every operation no application fails.\<close>

definition op_accepted :: "operation \<Rightarrow> bool" where
  "op_accepted op \<longleftrightarrow> op_key op \<noteq> [] \<and> 17 + length (op_key op) + length (op_value op) \<le> engine_record_limit"

lemma apply_op_accepted:
  assumes "engine_inv e" "limit_ok e" "op_kind_ok op" "op_accepted op"
  shows "\<exists>e'. apply_op (apply_with A i idx) op e = (None, e')"
proof -
  have "length (case snd (op_write op) of None \<Rightarrow> [] | Some x \<Rightarrow> x) \<le> length (op_value op)"
    using assms(3) by (auto simp: op_write_def)
  then obtain e' where "engine_write (op_key op) (snd (op_write op)) Write_ok True e = (None, e')"
    using engine_write_succeeds [OF assms(1), of "op_key op" "snd (op_write op)"] assms(2,4)
    by (auto simp: op_accepted_def limit_ok_def)
  then show ?thesis by (simp add: apply_op_write [OF assms(3)] apply_with_def) (simp add: op_write_def)
qed

section \<open>Replication keeps the claim\<close>

context follower_claim
begin

lemma apply_next:
  assumes "fok (ol_ops ol) h" "ops_numbered ol"
    and "unat (rh_applied h) < length (ol_ops ol)" "op = ol_ops ol ! unat (rh_applied h)" "op_kind_ok op"
    and "apply_op (apply_with A i (op_index op)) op (rh_engine h) = (None, e)"
  defines "h' \<equiv> save_applied (ap_applied (apply_with A i (op_index op))) (op_index op) (h\<lparr>rh_engine := e, rh_applied := op_index op\<rparr>)"
  shows "fok (ol_ops ol) h'" "unat (rh_applied h') = unat (rh_applied h) + 1" "en_opts e = en_opts (rh_engine h)"
    "file_behind h \<Longrightarrow> file_behind h'"
proof -
  let ?a = "unat (rh_applied h)" and ?L = "ol_ops ol"
  have a: "rh_applied h' = op_index op" "rh_engine h' = e" by (simp_all add: h'_def)
  have idx: "unat (op_index op) = Suc ?a" using numbered_index [OF assms(2,3)] assms(4) by simp
  then show "unat (rh_applied h') = ?a + 1" by (simp add: a)
  have w: "engine_write (fst (op_write op)) (snd (op_write op)) Write_ok True (rh_engine h) = (None, e)"
    using assms(6) apply_op_write [OF assms(5)] by (auto simp: apply_with_def split: prod.splits)
  then show "en_opts e = en_opts (rh_engine h)" using engine_write_opts by (metis snd_conv)
  show "fok ?L h'" by (rule fok_next [OF assms(1,3,4) idx w a(2,1)])
  assume "file_behind h"
  moreover have "rh_applied h \<le> op_index op" using idx by (simp add: word_le_nat_alt)
  ultimately show "file_behind h'" by (auto simp: file_behind_def h'_def save_applied_def)
qed

lemma apply_ops_advanced:
  assumes "apply_ops (apply_with A i) commit ops h n = (er, n', h')" "ops_numbered ol"
    and "fok (ol_ops ol) h" "ops = take m (drop (unat (rh_applied h)) (ol_ops ol))"
    and "\<forall>op \<in> set (ol_ops ol). op_kind_ok op" "ri_role (rh_info h) \<noteq> role_leader" "\<not> rh_paused h"
  shows "advanced fok (ol_ops ol) h h'"
  using assms
proof (induction ops arbitrary: h n m)
  case (Cons op ops)
  let ?a = "unat (rh_applied h)" and ?L = "ol_ops ol"
  have "take m (drop ?a ?L) \<noteq> []" using Cons.prems(4) by (metis list.distinct(1))
  then have "m \<noteq> 0" "?a < length ?L" by auto
  then obtain m' where m: "m = Suc m'" by (metis not0_implies_Suc)
  have d: "drop ?a ?L = ?L ! ?a # drop (Suc ?a) ?L" using \<open>?a < length ?L\<close> by (simp add: Cons_nth_drop_Suc)
  have op: "op = ?L ! ?a" "ops = take m' (drop (Suc ?a) ?L)" using Cons.prems(4) unfolding m d by simp_all
  then have k: "op_kind_ok op" using Cons.prems(5) \<open>?a < length ?L\<close> by simp
  show ?case
  proof (cases "op_index op > commit")
    case True
    then show ?thesis using Cons.prems(1) by simp
  next
    case False
    obtain er1 e where ap: "apply_op (apply_with A i (op_index op)) op (rh_engine h) = (er1, e)" by fastforce
    show ?thesis
    proof (cases er1)
      case (Some x)
      then have "e = rh_engine h" using apply_op_refused [OF k] ap by blast
      then show ?thesis using Cons.prems(1) False ap Some by simp
    next
      case None
      define h1 where "h1 = save_applied (ap_applied (apply_with A i (op_index op))) (op_index op) (h\<lparr>rh_engine := e, rh_applied := op_index op\<rparr>)"
      note nx = apply_next [OF Cons.prems(3,2) \<open>?a < length ?L\<close> op(1) k ap [unfolded None], folded h1_def]
      have r: "apply_ops (apply_with A i) commit ops h1 (n + 1) = (er, n', h')"
        using Cons.prems(1) False ap None by (simp add: h1_def)
      have "advanced fok ?L h1 h'"
        by (rule Cons.IH [OF r Cons.prems(2) nx(1) _ Cons.prems(5)])
           (use op(2) nx(2) Cons.prems(6,7) in \<open>simp_all add: h1_def\<close>)
      moreover have "advanced fok ?L h h1"
        using nx Cons.prems(3,6,7) by (auto simp: advanced_def h1_def word_le_nat_alt)
      ultimately show ?thesis using advanced_trans by blast
    qed
  qed
qed simp

lemma replicate_handles_advanced:
  assumes "replicate_handles (apply_with A) ol commit i hs n = (er, n', hs')" "ops_numbered ol"
    and "\<forall>op \<in> set (ol_ops ol). op_kind_ok op" "\<forall>h \<in> set hs. ri_role (rh_info h) \<noteq> role_leader \<longrightarrow> fok (ol_ops ol) h"
  shows "list_all2 (advanced fok (ol_ops ol)) hs hs'"
  using assms(1,4)
proof (induction hs arbitrary: i n er n' hs')
  case (Cons h hs)
  show ?case
  proof (cases "ri_role (rh_info h) = role_leader \<or> rh_paused h \<or> rh_applied h \<ge> commit")
    case True
    then show ?thesis using Cons by (auto split: prod.splits)
  next
    case False
    then have fo: "fok (ol_ops ol) h" using Cons.prems(2) by simp
    let ?ops = "operations_after (rh_applied h) (apply_limit h) ol"
    obtain er1 n1 h1 where a: "apply_ops (apply_with A i) commit ?ops h n = (er1, n1, h1)" by (metis prod_cases3)
    have "?ops = take (nat (apply_limit h)) (drop (unat (rh_applied h)) (ol_ops ol))"
      using operations_after_numbered [OF assms(2)] fok_bound [OF fo] by (simp add: apply_limit_def)
    then have "advanced fok (ol_ops ol) h h1"
      using apply_ops_advanced [OF a assms(2) fo _ assms(3)] False by simp
    then show ?thesis using Cons False a by (auto simp: list_all2_refl split: option.splits prod.splits)
  qed
qed simp

lemma advanced_followers:
  "list_all2 (advanced fok L) hs hs' \<Longrightarrow> \<forall>h \<in> set hs. ri_role (rh_info h) \<noteq> role_leader \<longrightarrow> fok L h
   \<Longrightarrow> \<forall>h \<in> set hs'. ri_role (rh_info h) \<noteq> role_leader \<longrightarrow> fok L h"
  by (induction rule: list_all2_induct) (auto simp: advanced_def)

lemma replicate_loop_advanced:
  assumes "replicate_loop (apply_with A) ol commit hs = (er, hs')" "ops_numbered ol"
    and "\<forall>op \<in> set (ol_ops ol). op_kind_ok op" "\<forall>h \<in> set hs. ri_role (rh_info h) \<noteq> role_leader \<longrightarrow> fok (ol_ops ol) h"
  shows "list_all2 (advanced fok (ol_ops ol)) hs hs'"
  using assms
proof (induction "apply_with A" ol commit hs arbitrary: er hs' rule: replicate_loop.induct)
  case (1 ol commit hs)
  obtain er1 n1 hs1 where r: "replicate_handles (apply_with A) ol commit 0 hs 0 = (er1, n1, hs1)" by (metis prod_cases3)
  have step: "list_all2 (advanced fok (ol_ops ol)) hs hs1"
    by (rule replicate_handles_advanced [OF r "1.prems"(2-4)])
  show ?case
  proof (cases "er1 = None \<and> n1 \<noteq> 0")
    case True
    then have "replicate_loop (apply_with A) ol commit hs1 = (er, hs')"
      using "1.prems"(1) r by (subst (asm) replicate_loop.simps) simp
    then have "list_all2 (advanced fok (ol_ops ol)) hs1 hs'"
      using "1.hyps" [OF r [symmetric] _ refl _ _ "1.prems"(2,3) advanced_followers [OF step "1.prems"(4)]] True by simp
    then show ?thesis using step advanced_list_trans by blast
  next
    case False
    then have "hs' = hs1" using "1.prems"(1) r by (subst (asm) replicate_loop.simps) (auto split: option.splits if_splits)
    then show ?thesis using step by simp
  qed
qed

lemma apply_ops_accepted:
  assumes "ops_numbered ol" "fok (ol_ops ol) h"
    and "ops = take m (drop (unat (rh_applied h)) (ol_ops ol))" "limit_ok (rh_engine h)"
    and "\<forall>op \<in> set (ol_ops ol). op_kind_ok op \<and> op_accepted op"
  shows "fst (apply_ops (apply_with A i) commit ops h n) = None"
  using assms
proof (induction ops arbitrary: h n m)
  case (Cons op ops)
  let ?a = "unat (rh_applied h)" and ?L = "ol_ops ol"
  have "take m (drop ?a ?L) \<noteq> []" using Cons.prems(3) by (metis list.distinct(1))
  then have "m \<noteq> 0" and a: "?a < length ?L" by auto
  then obtain m' where m: "m = Suc m'" by (metis not0_implies_Suc)
  have d: "drop ?a ?L = ?L ! ?a # drop (Suc ?a) ?L" using a by (simp add: Cons_nth_drop_Suc)
  have op: "op = ?L ! ?a" "ops = take m' (drop (Suc ?a) ?L)" using Cons.prems(3) unfolding m d by simp_all
  then have k: "op_kind_ok op" "op_accepted op" using Cons.prems(5) a by simp_all
  have "engine_inv (rh_engine h)" using fok_inv Cons.prems(2) by blast
  then obtain e where ap: "apply_op (apply_with A i (op_index op)) op (rh_engine h) = (None, e)"
    using apply_op_accepted [OF _ Cons.prems(4) k] by blast
  define h1 where "h1 = save_applied (ap_applied (apply_with A i (op_index op))) (op_index op) (h\<lparr>rh_engine := e, rh_applied := op_index op\<rparr>)"
  note nx = apply_next [OF Cons.prems(2,1) a op(1) k(1) ap, folded h1_def]
  have "limit_ok (rh_engine h1)" using Cons.prems(4) nx(3) by (simp add: h1_def limit_ok_def)
  then have "fst (apply_ops (apply_with A i) commit ops h1 (n + 1)) = None"
    using Cons.IH [OF Cons.prems(1) nx(1) _ _ Cons.prems(5), of m' "n + 1"] op(2) nx(2) by simp
  then show ?case using ap by (simp add: h1_def)
qed simp

lemma replicate_handles_accepted:
  assumes "ops_numbered ol" "\<forall>op \<in> set (ol_ops ol). op_kind_ok op \<and> op_accepted op"
    and "\<forall>h \<in> set hs. ri_role (rh_info h) \<noteq> role_leader \<longrightarrow> fok (ol_ops ol) h \<and> limit_ok (rh_engine h)"
  shows "fst (replicate_handles (apply_with A) ol commit i hs n) = None"
  using assms(3)
proof (induction hs arbitrary: i n)
  case (Cons h hs)
  show ?case
  proof (cases "ri_role (rh_info h) = role_leader \<or> rh_paused h \<or> rh_applied h \<ge> commit")
    case True
    obtain er1 n1 hs1 where r: "replicate_handles (apply_with A) ol commit (i + 1) hs n = (er1, n1, hs1)" by (metis prod_cases3)
    moreover have "fst (replicate_handles (apply_with A) ol commit (i + 1) hs n) = None" using Cons by simp
    ultimately show ?thesis using True by simp
  next
    case False
    then have fo: "fok (ol_ops ol) h" "limit_ok (rh_engine h)" using Cons.prems by simp_all
    let ?ops = "operations_after (rh_applied h) (apply_limit h) ol"
    have "?ops = take (nat (apply_limit h)) (drop (unat (rh_applied h)) (ol_ops ol))"
      using operations_after_numbered [OF assms(1)] fok_bound [OF fo(1)] by (simp add: apply_limit_def)
    then have "fst (apply_ops (apply_with A i) commit ?ops h n) = None"
      using apply_ops_accepted [OF assms(1) fo(1) _ fo(2) assms(2)] by blast
    then obtain n1 h1 where "apply_ops (apply_with A i) commit ?ops h n = (None, n1, h1)" by (metis prod.collapse)
    moreover have "fst (replicate_handles (apply_with A) ol commit (i + 1) hs n1) = None" using Cons by simp
    ultimately show ?thesis using False by (auto split: prod.splits)
  qed
qed simp

lemma replicate_loop_accepted:
  assumes "ops_numbered ol" "\<forall>op \<in> set (ol_ops ol). op_kind_ok op \<and> op_accepted op"
    and "\<forall>h \<in> set hs. ri_role (rh_info h) \<noteq> role_leader \<longrightarrow> fok (ol_ops ol) h \<and> limit_ok (rh_engine h)"
  shows "fst (replicate_loop (apply_with A) ol commit hs) = None"
  using assms
proof (induction "apply_with A" ol commit hs rule: replicate_loop.induct)
  case (1 ol commit hs)
  have n: "fst (replicate_handles (apply_with A) ol commit 0 hs 0) = None" by (rule replicate_handles_accepted [OF "1.prems"])
  then obtain n1 hs1 where r: "replicate_handles (apply_with A) ol commit 0 hs 0 = (None, n1, hs1)" by (metis prod.collapse)
  show ?case
  proof (cases "n1 = 0")
    case True
    then show ?thesis using r by (subst replicate_loop.simps) simp
  next
    case False
    have "list_all2 (advanced fok (ol_ops ol)) hs hs1"
      by (rule replicate_handles_advanced [OF r]) (use "1.prems" in simp_all)
    then have "\<forall>h \<in> set hs1. ri_role (rh_info h) \<noteq> role_leader \<longrightarrow> fok (ol_ops ol) h \<and> limit_ok (rh_engine h)"
      using "1.prems"(3) by (induction rule: list_all2_induct) (auto simp: advanced_def limit_ok_def)
    then have "fst (replicate_loop (apply_with A) ol commit hs1) = None" using 1 r False by simp
    then show ?thesis using r False by (subst replicate_loop.simps) simp
  qed
qed

end

text \<open>In a session a follower holds the map of the operations up to its index. \<open>F\<close> counts the reorganisations.\<close>

definition follower_ok :: "nat \<Rightarrow> operation list \<Rightarrow> replica_handle \<Rightarrow> bool" where
  "follower_ok F L h \<longleftrightarrow> F + length L \<le> 2 ^ 29 \<and> unat (rh_applied h) \<le> length L
     \<and> engine_ok (F + unat (rh_applied h)) (play (take (unat (rh_applied h)) (map op_write L)) Map.empty) (rh_engine h)"

interpretation session: follower_claim "follower_ok F" for F
proof
  fix L op e and h h' :: replica_handle
  show "follower_ok F L h \<Longrightarrow> unat (rh_applied h) \<le> length L" by (simp add: follower_ok_def)
  show "follower_ok F L h \<Longrightarrow> engine_inv (rh_engine h)" using engine_ok_inv by (auto simp: follower_ok_def)
  let ?a = "unat (rh_applied h)"
  assume f: "follower_ok F L h" and a: "?a < length L" "op = L ! ?a" "unat (op_index op) = Suc ?a"
    and w: "engine_write (fst (op_write op)) (snd (op_write op)) Write_ok True (rh_engine h) = (None, e)"
    and h': "rh_engine h' = e" "rh_applied h' = op_index op"
  have t: "take (Suc ?a) (map op_write L) = take ?a (map op_write L) @ [op_write op]"
    using a(1,2) by (simp add: take_Suc_conv_app_nth)
  have ok: "engine_ok (F + ?a) (play (take ?a (map op_write L)) Map.empty) (rh_engine h)" "F + ?a \<le> 2 ^ 29"
    using f a(1) by (simp_all add: follower_ok_def)
  then show "follower_ok F L h'"
    using engine_kv.upd_ok [OF ok w] f a(1,3) by (simp add: follower_ok_def h' t)
qed

text \<open>After a reopening the rest of the log leads from a follower's map to the leader's.\<close>

definition recovering :: "operation list \<Rightarrow> replica_handle \<Rightarrow> bool" where
  "recovering L h \<longleftrightarrow> unat (rh_applied h) \<le> length L \<and> engine_inv (rh_engine h)
     \<and> play (drop (unat (rh_applied h)) (map op_write L)) (engine_view (rh_engine h)) = play (map op_write L) Map.empty"

interpretation recovery: follower_claim recovering
proof
  fix L op e and h h' :: replica_handle
  show "recovering L h \<Longrightarrow> unat (rh_applied h) \<le> length L" "recovering L h \<Longrightarrow> engine_inv (rh_engine h)"
    by (simp_all add: recovering_def)
  let ?a = "unat (rh_applied h)"
  assume f: "recovering L h" and a: "?a < length L" "op = L ! ?a" "unat (op_index op) = Suc ?a"
    and w: "engine_write (fst (op_write op)) (snd (op_write op)) Write_ok True (rh_engine h) = (None, e)"
    and h': "rh_engine h' = e" "rh_applied h' = op_index op"
  have d: "drop ?a (map op_write L) = op_write op # drop (Suc ?a) (map op_write L)"
    using a(1,2) by (simp add: Cons_nth_drop_Suc [symmetric])
  have "engine_inv (rh_engine h)" using f by (simp add: recovering_def)
  from engine_write_ok(1,2) [OF this w] show "recovering L h'"
    using f a(1,3) by (simp add: recovering_def h' d)
qed

section \<open>The invariant of a session\<close>

text \<open>\<open>W\<close> is the history of the acknowledged writes; the log holds exactly them.\<close>

definition log_ok :: "(bytes \<times> bytes option) list \<Rightarrow> op_log \<Rightarrow> bool" where
  "log_ok W ol \<longleftrightarrow> ops_numbered ol \<and> \<not> ol_closed ol \<and> map op_write (ol_ops ol) = W
     \<and> (\<forall>op \<in> set (ol_ops ol). op_kind_ok op \<and> op_accepted op)"

definition leader_ok :: "nat \<Rightarrow> (bytes \<times> bytes option) list \<Rightarrow> replica_store \<Rightarrow> nat \<Rightarrow> bool" where
  "leader_ok F W st l \<longleftrightarrow> leader_index st = Some l
     \<and> (\<forall>i < length (rs_replicas st). ri_role (rh_info (rs_replicas st ! i)) = role_leader \<longleftrightarrow> i = l)
     \<and> engine_ok (F + length W) (play W Map.empty) (rh_engine (rs_replicas st ! l))
     \<and> unat (rh_applied (rs_replicas st ! l)) \<le> length W"

definition replica_inv :: "nat \<Rightarrow> (bytes \<times> bytes option) list \<Rightarrow> replica_store \<Rightarrow> bool" where
  "replica_inv F W st \<longleftrightarrow> \<not> rs_closed st \<and> log_ok W (rs_log st) \<and> unat (rs_commit st) = length W \<and> (\<exists>l. leader_ok F W st l)
     \<and> (\<forall>h \<in> set (rs_replicas st). (ri_role (rh_info h) \<noteq> role_leader \<longrightarrow> follower_ok F (ol_ops (rs_log st)) h)
          \<and> limit_ok (rh_engine h))"

lemma leader_index_bound: "leader_index st = Some l \<Longrightarrow> l < length (rs_replicas st)"
  by (auto simp: leader_index_def split: if_splits)

subsection \<open>Writes\<close>

definition replica_write :: "bytes \<Rightarrow> bytes option \<Rightarrow> replica_write_io \<Rightarrow> replica_store \<Rightarrow> (replica_error + u64) \<times> replica_store" where
  "replica_write k v io st = (case v of None \<Rightarrow> replica_delete k io st | Some x \<Rightarrow> replica_put k x io st)"

definition write_type :: "bytes option \<Rightarrow> byte" where
  "write_type v = (case v of None \<Rightarrow> op_type_delete | Some _ \<Rightarrow> op_type_put)"

definition write_value :: "bytes option \<Rightarrow> bytes" where
  "write_value v = (case v of None \<Rightarrow> [] | Some x \<Rightarrow> x)"

lemma replica_write_eq:
  "replica_write k v io st =
     (if k = [] then (Inl RpErrInvalidKey, st)
      else if rs_closed st then (Inl RpErrClosed, st)
      else
        (case op_append (wi_log io) (write_type v) k (write_value v) (rs_log st) of
           (Inl er, ol) \<Rightarrow> (Inl (RpErrLog er), st\<lparr>rs_log := ol\<rparr>)
         | (Inr idx, ol) \<Rightarrow>
             (case leader_index (st\<lparr>rs_log := ol\<rparr>) of
                None \<Rightarrow> (Inl RpErrPanic, st\<lparr>rs_log := ol\<rparr>)
              | Some i \<Rightarrow>
                  (case engine_write k v (wi_engine io) (wi_sync io) (rh_engine (rs_replicas st ! i)) of
                     (Some er, e) \<Rightarrow> (Inl (RpErrEngine er), set_replica i (\<lambda>h. h\<lparr>rh_engine := e\<rparr>) (st\<lparr>rs_log := ol\<rparr>))
                   | (None, e) \<Rightarrow> commit_write io i idx (set_replica i (\<lambda>h. h\<lparr>rh_engine := e\<rparr>) (st\<lparr>rs_log := ol\<rparr>))))))"
  by (cases v) (auto simp: replica_write_def replica_put_def replica_delete_def write_type_def write_value_def engine_write_def Let_def
      leader_index_def split: sum.splits prod.splits option.splits)

lemma leader_index_log [simp]: "leader_index (st\<lparr>rs_log := ol\<rparr>) = leader_index st"
  by (simp add: leader_index_def)

lemma set_replica_simps [simp]:
  "rs_log (set_replica i f st) = rs_log st" "rs_closed (set_replica i f st) = rs_closed st" "rs_commit (set_replica i f st) = rs_commit st"
  "rs_leader (set_replica i f st) = rs_leader st" "leader_index (set_replica i f st) = leader_index st"
  "rs_commit_file (set_replica i f st) = rs_commit_file st" "length (rs_replicas (set_replica i f st)) = length (rs_replicas st)"
  "rs_opts (set_replica i f st) = rs_opts st"
  by (simp_all add: set_replica_def leader_index_def)

lemma op_write_of: "op_write \<lparr>op_index = idx, op_type = write_type v, op_key = k, op_value = write_value v\<rparr> = (k, v)"
  by (cases v) (simp_all add: op_write_def write_type_def write_value_def op_type_put_def op_type_delete_def)

lemma op_kind_of: "op_kind_ok \<lparr>op_index = idx, op_type = write_type v, op_key = k, op_value = write_value v\<rparr>"
  by (cases v) (simp_all add: op_kind_ok_def write_type_def write_value_def)

lemma replica_write_Inr:
  assumes "replica_write k v io st = (Inr idx, st')" "leader_index st = Some l"
  obtains ol e where "k \<noteq> []" "op_append (wi_log io) (write_type v) k (write_value v) (rs_log st) = (Inr idx, ol)"
    "engine_write k v (wi_engine io) (wi_sync io) (rh_engine (rs_replicas st ! l)) = (None, e)"
    "commit_write io l idx (set_replica l (\<lambda>h. h\<lparr>rh_engine := e\<rparr>) (st\<lparr>rs_log := ol\<rparr>)) = (Inr idx, st')"
  using assms
  by (auto simp: replica_write_eq commit_write_def split: if_splits sum.splits prod.splits option.splits)

text \<open>An acknowledged write extends the history by itself.\<close>

lemma replica_write_inv:
  assumes "replica_inv F W st" "F + length W < 2 ^ 29" "replica_write k v io st = (Inr idx, st')"
  shows "replica_inv F (W @ [(k, v)]) st'" "unat idx = length W + 1" "rs_commit st' = idx"
proof -
  obtain l where l: "leader_ok F W st l" using assms(1) by (auto simp: replica_inv_def)
  then have li: "leader_index st = Some l" "l < length (rs_replicas st)"
    using leader_index_bound by (auto simp: leader_ok_def)
  obtain ol e where w: "k \<noteq> []" "op_append (wi_log io) (write_type v) k (write_value v) (rs_log st) = (Inr idx, ol)"
      "engine_write k v (wi_engine io) (wi_sync io) (rh_engine (rs_replicas st ! l)) = (None, e)"
      "commit_write io l idx (set_replica l (\<lambda>h. h\<lparr>rh_engine := e\<rparr>) (st\<lparr>rs_log := ol\<rparr>)) = (Inr idx, st')"
    by (rule replica_write_Inr [OF assms(3) li(1)])
  have log: "ops_numbered (rs_log st)" "map op_write (ol_ops (rs_log st)) = W" "\<not> ol_closed (rs_log st)"
      "length (ol_ops (rs_log st)) = length W"
    using assms(1) by (auto simp: replica_inv_def log_ok_def)
  have "Suc (length (ol_ops (rs_log st))) < 2 ^ 64 - 1" using log(4) assms(2) by simp
  note ap = op_append_ok [OF log(1) this w(2)]
  let ?op = "\<lparr>op_index = idx, op_type = write_type v, op_key = k, op_value = write_value v\<rparr>"
  let ?h = "rs_replicas st ! l"
  have inv_e: "engine_ok (F + length W) (play W Map.empty) (rh_engine ?h)" "limit_ok (rh_engine ?h)"
    using l assms(1) li(2) by (auto simp: leader_ok_def replica_inv_def)
  note fits = engine_write_fits [OF engine_ok_inv [OF inv_e(1)] w(3)]
  have acc: "op_accepted ?op"
    using fits inv_e(2) by (auto simp: op_accepted_def limit_ok_def write_value_def)
  have e: "engine_ok (F + length W + 1) ((play W Map.empty)(k := v)) e"
    using engine_kv.upd_ok [OF inv_e(1) _ engine_write_good [OF w(3)]] assms(2) by simp
  have lim: "limit_ok e" using inv_e(2) engine_write_opts [of k v "wi_engine io" "wi_sync io" "rh_engine ?h"] w(3) by (simp add: limit_ok_def)
  show idx: "unat idx = length W + 1" using ap(3) log(4) by simp
  define h' where "h' = save_applied (wi_applied io) idx (?h\<lparr>rh_engine := e, rh_applied := idx\<rparr>)"
  have st': "rs_replicas st' = (rs_replicas st)[l := h']" "rs_log st' = ol" "rs_closed st' = rs_closed st" "rs_leader st' = rs_leader st"
      "rs_commit st' = idx"
    using w(4) li(2) by (auto simp: commit_write_def set_replica_def h'_def split: if_splits)
  show "rs_commit st' = idx" by (rule st'(5))
  have "log_ok (W @ [(k, v)]) ol"
    using assms(1) ap(1,2,4) acc by (auto simp: log_ok_def replica_inv_def op_write_of op_kind_of)
  moreover have "leader_index st' = leader_index st" by (simp add: leader_index_def st')
  then have "leader_ok F (W @ [(k, v)]) st' l"
    using l e li(2) idx by (simp add: leader_ok_def st' nth_list_update h'_def)
  moreover have "follower_ok F (ol_ops ol) h" if "follower_ok F (ol_ops (rs_log st)) h" for h
    using that assms(2) log(4) by (simp add: follower_ok_def ap(1))
  ultimately show "replica_inv F (W @ [(k, v)]) st'"
    using assms(1) idx lim l li(2) unfolding replica_inv_def st'
    by (auto simp: h'_def leader_ok_def in_set_conv_nth nth_list_update) (metis nth_mem)+
qed

subsection \<open>Replication, pausing, lagging\<close>

lemma replica_inv_advanced:
  assumes "replica_inv F W st" "list_all2 (advanced (follower_ok F) (ol_ops (rs_log st))) (rs_replicas st) hs"
  shows "replica_inv F W (st\<lparr>rs_replicas := hs\<rparr>)"
proof -
  obtain l where l: "leader_ok F W st l" "l < length (rs_replicas st)"
    using assms(1) leader_index_bound by (auto simp: replica_inv_def leader_ok_def)
  have len: "length hs = length (rs_replicas st)" using assms(2) by (simp add: list_all2_lengthD)
  have adv: "advanced (follower_ok F) (ol_ops (rs_log st)) (rs_replicas st ! i) (hs ! i)" if "i < length hs" for i
    using assms(2) that by (simp add: list_all2_conv_all_nth)
  have "hs ! l = rs_replicas st ! l" using adv [of l] l len by (auto simp: advanced_def leader_ok_def)
  then have "leader_ok F W (st\<lparr>rs_replicas := hs\<rparr>) l"
    using l(1) len adv by (auto simp: leader_ok_def leader_index_def advanced_def split: if_splits)
  moreover have "(ri_role (rh_info h) \<noteq> role_leader \<longrightarrow> follower_ok F (ol_ops (rs_log st)) h) \<and> limit_ok (rh_engine h)"
    if "h \<in> set hs" for h
  proof -
    obtain i where i: "i < length hs" "h = hs ! i" using \<open>h \<in> set hs\<close> by (auto simp: in_set_conv_nth)
    then have "rs_replicas st ! i \<in> set (rs_replicas st)" using len by simp
    then show ?thesis using adv [OF i(1)] assms(1) i(2) by (auto simp: replica_inv_def advanced_def limit_ok_def)
  qed
  ultimately show ?thesis using assms(1) unfolding replica_inv_def by simp blast
qed

lemma replica_inv_log:
  assumes "replica_inv F W st"
  shows "ops_numbered (rs_log st)" "length (ol_ops (rs_log st)) = length W" "\<forall>op \<in> set (ol_ops (rs_log st)). op_kind_ok op \<and> op_accepted op"
    "\<forall>h \<in> set (rs_replicas st). ri_role (rh_info h) \<noteq> role_leader \<longrightarrow> follower_ok F (ol_ops (rs_log st)) h \<and> limit_ok (rh_engine h)"
    "unat (rs_commit st) = length W" "\<not> rs_closed st" "map op_write (ol_ops (rs_log st)) = W"
  using assms by (auto simp: replica_inv_def log_ok_def)

lemma replicate_once_inv:
  assumes "replica_inv F W st" "F + length W \<le> 2 ^ 29" "replicate_once (apply_with A) st = (er, n, st')"
  shows "replica_inv F W st'"
proof -
  note i = replica_inv_log [OF assms(1)]
  obtain hs where hs: "replicate_handles (apply_with A) (rs_log st) (rs_commit st) 0 (rs_replicas st) 0 = (er, n, hs)"
      "st' = st\<lparr>rs_replicas := hs\<rparr>"
    using assms(3) i(6) by (auto simp: replicate_once_def split: prod.splits)
  have "list_all2 (advanced (follower_ok F) (ol_ops (rs_log st))) (rs_replicas st) hs"
    by (rule session.replicate_handles_advanced [OF hs(1) i(1)]) (use i in simp_all)
  then show ?thesis unfolding hs(2) by (rule replica_inv_advanced [OF assms(1)])
qed

lemma replicate_all_inv:
  assumes "replica_inv F W st" "F + length W \<le> 2 ^ 29" "replicate_all (apply_with A) st = (er, st')"
  shows "replica_inv F W st'" "er = None" "\<forall>h \<in> set (rs_replicas st'). settled (rs_commit st) h"
    "list_all2 (advanced (follower_ok F) (ol_ops (rs_log st))) (rs_replicas st) (rs_replicas st')"
proof -
  note i = replica_inv_log [OF assms(1)]
  obtain hs where hs: "replicate_loop (apply_with A) (rs_log st) (rs_commit st) (rs_replicas st) = (er, hs)"
      "st' = st\<lparr>rs_replicas := hs\<rparr>"
    using assms(3) i(6) by (auto simp: replicate_all_def split: prod.splits)
  have adv: "list_all2 (advanced (follower_ok F) (ol_ops (rs_log st))) (rs_replicas st) hs"
    by (rule session.replicate_loop_advanced [OF hs(1) i(1)]) (use i in simp_all)
  then show "list_all2 (advanced (follower_ok F) (ol_ops (rs_log st))) (rs_replicas st) (rs_replicas st')" by (simp add: hs(2))
  show "replica_inv F W st'" unfolding hs(2) by (rule replica_inv_advanced [OF assms(1) adv])
  show er: "er = None" using session.replicate_loop_accepted [OF i(1,3,4), of A "rs_commit st"] hs(1) by simp
  show "\<forall>h \<in> set (rs_replicas st'). settled (rs_commit st) h"
    using replicate_loop_none [OF hs(1) [unfolded er] i(1)] i(2,5) by (simp add: hs(2))
qed

lemma replica_inv_handle:
  assumes "replica_inv F W st" "\<And>h. rh_info (f h) = rh_info h \<and> rh_engine (f h) = rh_engine h \<and> rh_applied (f h) = rh_applied h"
    and "i < length (rs_replicas st)"
  shows "replica_inv F W (set_replica i f st)"
proof -
  have fo: "follower_ok F L (f h) = follower_ok F L h" for h L using assms(2) [of h] by (simp add: follower_ok_def)
  have nth: "rh_info (rs_replicas (set_replica i f st) ! j) = rh_info (rs_replicas st ! j)"
    "rh_engine (rs_replicas (set_replica i f st) ! j) = rh_engine (rs_replicas st ! j)"
    "rh_applied (rs_replicas (set_replica i f st) ! j) = rh_applied (rs_replicas st ! j)" if "j < length (rs_replicas st)" for j
    using that assms(2) [of "rs_replicas st ! i"] by (cases "j = i"; simp add: set_replica_def)+
  have l: "leader_ok F W (set_replica i f st) l = leader_ok F W st l" for l
    using nth leader_index_bound by (auto simp: leader_ok_def)
  have "\<forall>h \<in> set (rs_replicas (set_replica i f st)).
      (ri_role (rh_info h) \<noteq> role_leader \<longrightarrow> follower_ok F (ol_ops (rs_log st)) h) \<and> limit_ok (rh_engine h)"
    using assms(1,3) fo assms(2) unfolding replica_inv_def set_replica_def
    by (auto dest!: set_update_subset_insert [THEN subsetD])
  then show ?thesis using assms(1) by (auto simp: replica_inv_def l)
qed

subsection \<open>Flush and Compact\<close>

lemma each_replica_engines:
  "each_replica f i hs = (res, hs') \<Longrightarrow> list_all2 (\<lambda>h h'. h' = h\<lparr>rh_engine := rh_engine h'\<rparr>) hs hs'
   \<and> (\<exists>er. each_engine f i (map rh_engine hs) = (er, map rh_engine hs'))"
  by (induction hs arbitrary: i res hs') (fastforce simp: list_all2_refl split: prod.splits option.splits)+

lemma replica_tidy_inv:
  assumes "replica_inv F W st" "F + length W < 2 ^ 29" "\<forall>h \<in> set (rs_replicas st'). \<not> en_closed (rh_engine h)"
    and "replica_flush c r faults st = (res, st') \<or> replica_compact c r faults st = (res, st')"
  shows "replica_inv (F + 1) W st'"
proof -
  note inv = replica_inv_log [OF assms(1)]
  let ?hs = "rs_replicas st"
  obtain hs f where hs: "st' = st\<lparr>rs_replicas := hs\<rparr>" "each_replica f 0 ?hs = (res, hs)"
      "f = (\<lambda>i. engine_flush c r (faults i)) \<or> f = (\<lambda>i. engine_compact c r (faults i))"
    using assms(4) inv(6) by (auto simp: replica_flush_def replica_compact_def split: prod.splits)
  obtain er where e: "list_all2 (\<lambda>h h'. h' = h\<lparr>rh_engine := rh_engine h'\<rparr>) ?hs hs"
      "each_engine f 0 (map rh_engine ?hs) = (er, map rh_engine hs)"
    using each_replica_engines [OF hs(2)] by blast
  have len: "length hs = length ?hs" using e(1) by (simp add: list_all2_lengthD)
  have h: "hs ! j = (?hs ! j)\<lparr>rh_engine := rh_engine (hs ! j)\<rparr>" if "j < length ?hs" for j
    using e(1) that by (simp add: list_all2_conv_all_nth)
  have info: "rh_info (hs ! j) = rh_info (?hs ! j)" "rh_applied (hs ! j) = rh_applied (?hs ! j)" if "j < length ?hs" for j
    by (subst h [OF that], simp)+
  have step: "rh_engine (hs ! j) = rh_engine (?hs ! j) \<or> engine_tidy (rh_engine (?hs ! j)) (rh_engine (hs ! j))"
    if "j < length ?hs" for j
  proof -
    have "\<not> en_closed (rh_engine (hs ! j))" using assms(3) that len by (simp add: hs(1))
    moreover have "rh_engine (hs ! j) = rh_engine (?hs ! j) \<or> rh_engine (hs ! j) = snd (f j (rh_engine (?hs ! j)))"
      using each_engine_props [OF e(2)] that len by auto
    ultimately show ?thesis using hs(3) unfolding engine_tidy_def by blast
  qed
  have ok: "engine_ok (F + 1 + n) m (rh_engine (hs ! j))" if "j < length ?hs" "engine_ok (F + n) m (rh_engine (?hs ! j))" "n \<le> length W" for j n m
  proof -
    have "engine_ok (F + n + 1) m (rh_engine (hs ! j))"
      using step [OF that(1)] engine_kv.tidy_ok [OF that(2)] engine_kv.ok_mono [OF that(2), of "F + n + 1"] that(2,3) assms(2)
      by auto
    then show ?thesis by (simp add: ac_simps)
  qed
  have opts: "limit_ok (rh_engine (hs ! j))" if "j < length ?hs" for j
  proof -
    have "en_opts (rh_engine (hs ! j)) = en_opts (rh_engine (?hs ! j))"
      using step [OF that] engine_step_opts [of c r "Flush_op f" "rh_engine (?hs ! j)" for c r f]
        engine_step_opts [of c r "Compact_op f" "rh_engine (?hs ! j)" for c r f] by (auto simp: engine_tidy_def)
    then show ?thesis using assms(1) that by (simp add: replica_inv_def limit_ok_def)
  qed
  obtain l where l: "leader_ok F W st l" "l < length ?hs"
    using assms(1) leader_index_bound by (auto simp: replica_inv_def leader_ok_def)
  have "leader_index st' = leader_index st" by (simp add: leader_index_def hs(1) len)
  then have "leader_ok (F + 1) W st' l"
    using l ok [of l "length W" "play W Map.empty"] info len by (auto simp: leader_ok_def hs(1))
  moreover have "(ri_role (rh_info (hs ! j)) \<noteq> role_leader \<longrightarrow> follower_ok (F + 1) (ol_ops (rs_log st)) (hs ! j)) \<and> limit_ok (rh_engine (hs ! j))"
    if "j < length ?hs" for j
  proof -
    have "?hs ! j \<in> set ?hs" using that by simp
    then have "ri_role (rh_info (?hs ! j)) \<noteq> role_leader \<longrightarrow> follower_ok F (ol_ops (rs_log st)) (?hs ! j)" using inv(4) by blast
    then show ?thesis using ok [OF that] opts [OF that] info [OF that] inv(2) assms(2) by (auto simp: follower_ok_def)
  qed
  ultimately show ?thesis
    using assms(1) len unfolding replica_inv_def hs(1) by (auto simp: in_set_conv_nth)
qed

subsection \<open>Runs\<close>

text \<open>The flag of a write says whether \<open>APPLIED\<close> could be saved, the function of a replication whether it could
  for a follower and an operation.\<close>

datatype replica_op = R_put bytes bytes bool | R_delete bytes bool | R_once "nat \<Rightarrow> u64 \<Rightarrow> bool" | R_all "nat \<Rightarrow> u64 \<Rightarrow> bool"
  | R_pause int bool | R_lag int int | R_flush "nat \<Rightarrow> io_fault option" | R_compact "nat \<Rightarrow> io_fault option"

definition write_error :: "(replica_error + u64) \<times> replica_store \<Rightarrow> replica_error option \<times> replica_store" where
  "write_error p = (case p of (Inl er, st) \<Rightarrow> (Some er, st) | (Inr _, st) \<Rightarrow> (None, st))"

fun replica_step ::
    "(u64 \<Rightarrow> float64 \<Rightarrow> u64) \<Rightarrow> (u64 \<Rightarrow> u64 \<Rightarrow> int) \<Rightarrow> replica_op \<Rightarrow> replica_store \<Rightarrow> replica_error option \<times> replica_store" where
  "replica_step c r (R_put k v s) st = write_error (replica_put k v (good_write_io\<lparr>wi_applied := s\<rparr>) st)"
| "replica_step c r (R_delete k s) st = write_error (replica_delete k (good_write_io\<lparr>wi_applied := s\<rparr>) st)"
| "replica_step c r (R_once A) st = (case replicate_once (apply_with A) st of (er, _, st') \<Rightarrow> (er, st'))"
| "replica_step c r (R_all A) st = replicate_all (apply_with A) st"
| "replica_step c r (R_pause i b) st = set_follower_paused i b st"
| "replica_step c r (R_lag i n) st = set_follower_lag i n st"
| "replica_step c r (R_flush fs) st = replica_flush c r fs st"
| "replica_step c r (R_compact fs) st = replica_compact c r fs st"

fun writes_of :: "replica_op \<Rightarrow> (bytes \<times> bytes option) list" where
  "writes_of (R_put k v s) = [(k, Some v)]"
| "writes_of (R_delete k s) = [(k, None)]"
| "writes_of _ = []"

text \<open>A run whose writes succeed and in which no failing flush or compaction closes an engine. The other
  operations may fail.\<close>

fun replica_run ::
    "(u64 \<Rightarrow> float64 \<Rightarrow> u64) \<Rightarrow> (u64 \<Rightarrow> u64 \<Rightarrow> int) \<Rightarrow> replica_op list \<Rightarrow> replica_store \<Rightarrow> replica_store option" where
  "replica_run c r [] st = Some st"
| "replica_run c r (op # ops) st =
     (case replica_step c r op st of
        (er, st') \<Rightarrow>
          if writes_of op \<noteq> [] \<and> er \<noteq> None \<or> list_ex (\<lambda>h. en_closed (rh_engine h)) (rs_replicas st') then None
          else replica_run c r ops st')"

lemma replica_step_inv:
  assumes "replica_inv F W st" "F + length W < 2 ^ 29" "replica_step c r op st = (er, st')" "writes_of op \<noteq> [] \<longrightarrow> er = None"
    and "\<forall>h \<in> set (rs_replicas st'). \<not> en_closed (rh_engine h)"
  shows "\<exists>F' \<ge> F. F' + length (W @ writes_of op) \<le> F + length W + 1 \<and> replica_inv F' (W @ writes_of op) st'"
proof (cases op)
  case (R_put k v s)
  then obtain idx where "replica_write k (Some v) (good_write_io\<lparr>wi_applied := s\<rparr>) st = (Inr idx, st')"
    using assms(3,4) by (auto simp: write_error_def replica_write_def split: prod.splits sum.splits)
  then show ?thesis using replica_write_inv(1) [OF assms(1,2)] R_put by (intro exI [of _ F]) auto
next
  case (R_delete k s)
  then obtain idx where "replica_write k None (good_write_io\<lparr>wi_applied := s\<rparr>) st = (Inr idx, st')"
    using assms(3,4) by (auto simp: write_error_def replica_write_def split: prod.splits sum.splits)
  then show ?thesis using replica_write_inv(1) [OF assms(1,2)] R_delete by (intro exI [of _ F]) auto
next
  case (R_once A)
  then obtain n where "replicate_once (apply_with A) st = (er, n, st')" using assms(3) by (auto split: prod.splits)
  then show ?thesis using replicate_once_inv [OF assms(1)] assms(2) R_once by (intro exI [of _ F]) auto
next
  case (R_all A)
  then show ?thesis using replicate_all_inv(1) [OF assms(1) less_imp_le [OF assms(2)]] assms(3) by (intro exI [of _ F]) auto
next
  case (R_pause i b)
  then have "st' = st \<or> nat i < length (rs_replicas st) \<and> st' = set_replica (nat i) (\<lambda>h. h\<lparr>rh_paused := b\<rparr>) st"
    using assms(3) by (auto simp: set_follower_paused_def split: if_splits)
  then have "replica_inv F W st'" using assms(1) replica_inv_handle [OF assms(1), of "\<lambda>h. h\<lparr>rh_paused := b\<rparr>"] by auto
  then show ?thesis using R_pause by (intro exI [of _ F]) auto
next
  case (R_lag i n)
  then have "st' = st \<or> nat i < length (rs_replicas st) \<and> st' = set_replica (nat i) (\<lambda>h. h\<lparr>rh_max_apply := n\<rparr>) st"
    using assms(3) by (auto simp: set_follower_lag_def split: if_splits)
  then have "replica_inv F W st'" using assms(1) replica_inv_handle [OF assms(1), of "\<lambda>h. h\<lparr>rh_max_apply := n\<rparr>"] by auto
  then show ?thesis using R_lag by (intro exI [of _ F]) auto
next
  case (R_flush fs)
  then show ?thesis using replica_tidy_inv [OF assms(1,2,5)] assms(3) by (intro exI [of _ "F + 1"]) auto
next
  case (R_compact fs)
  then show ?thesis using replica_tidy_inv [OF assms(1,2,5)] assms(3) by (intro exI [of _ "F + 1"]) auto
qed

lemma replica_run_bound:
  assumes "replica_inv F W st" "F + length W + length ops \<le> 2 ^ 29" "replica_run c r ops st = Some st'"
  shows "\<exists>F'. F' + length (W @ concat (map writes_of ops)) \<le> F + length W + length ops \<and> replica_inv F' (W @ concat (map writes_of ops)) st'"
  using assms
proof (induction ops arbitrary: F W st)
  case Nil
  then show ?case by auto
next
  case (Cons op ops)
  obtain er st1 where s: "replica_step c r op st = (er, st1)" by fastforce
  then have c: "writes_of op \<noteq> [] \<longrightarrow> er = None" "\<forall>h \<in> set (rs_replicas st1). \<not> en_closed (rh_engine h)"
      "replica_run c r ops st1 = Some st'"
    using Cons.prems(3) by (auto simp: list_ex_iff split: if_splits)
  have "F + length W < 2 ^ 29" using Cons.prems(2) by simp
  then obtain F1 where F1: "F1 + length (W @ writes_of op) \<le> F + length W + 1" "replica_inv F1 (W @ writes_of op) st1"
    using replica_step_inv [OF Cons.prems(1) _ s c(1,2)] by blast
  have "F1 + length (W @ writes_of op) + length ops \<le> 2 ^ 29" using F1(1) Cons.prems(2) by simp
  from Cons.IH [OF F1(2) this c(3)] obtain F' where
    "F' + length ((W @ writes_of op) @ concat (map writes_of ops)) \<le> F1 + length (W @ writes_of op) + length ops"
    "replica_inv F' ((W @ writes_of op) @ concat (map writes_of ops)) st'" by blast
  then show ?case using F1(1) by (intro exI [of _ F']) simp
qed

subsection \<open>Reads\<close>

lemma replica_reads:
  assumes "engine_ok n m (rh_engine (rs_replicas st ! i))" "select_replica mode rid st = Inr i" "\<not> rs_closed st"
  shows "k \<noteq> [] \<Longrightarrow> fst (replica_get k mode rid st) = Inr (m k)"
    "\<exists>res. replica_scan lo hi mode rid st = Inr res \<and> scan_result lo hi m res"
proof -
  show "fst (replica_get k mode rid st) = Inr (m k)" if "k \<noteq> []"
    using engine_kv.get_ok [OF assms(1), of k] assms(2,3) that by (auto simp: replica_get_def)
  show "\<exists>res. replica_scan lo hi mode rid st = Inr res \<and> scan_result lo hi m res"
    using engine_kv.scan_ok [OF assms(1), of lo hi] assms(2,3) by (auto simp: replica_scan_def)
qed

lemma select_leader: "leader_index st = Some l \<Longrightarrow> select_replica read_leader rid st = Inr l"
  by (auto simp: select_replica_def leader_index_def replica_at_def split: if_splits)

lemma select_follower:
  "i < length (rs_replicas st) \<Longrightarrow> int i \<noteq> rs_leader st \<Longrightarrow> select_replica read_follower (int i) st = Inr i"
  by (auto simp: select_replica_def replica_at_def read_leader_def read_follower_def)

lemma follower_role:
  assumes "replica_inv F W st" "i < length (rs_replicas st)" "int i \<noteq> rs_leader st"
  shows "ri_role (rh_info (rs_replicas st ! i)) \<noteq> role_leader" "follower_ok F (ol_ops (rs_log st)) (rs_replicas st ! i)"
proof -
  obtain l where l: "leader_ok F W st l" using assms(1) by (auto simp: replica_inv_def)
  then have "i \<noteq> l" using assms(3) by (auto simp: leader_ok_def leader_index_def split: if_splits)
  then show r: "ri_role (rh_info (rs_replicas st ! i)) \<noteq> role_leader" using l assms(2) by (simp add: leader_ok_def)
  then show "follower_ok F (ol_ops (rs_log st)) (rs_replicas st ! i)" using replica_inv_log(4) [OF assms(1)] assms(2) by simp
qed

lemma replica_inv_leader_reads:
  assumes "replica_inv F W st"
  shows "k \<noteq> [] \<Longrightarrow> fst (replica_get k read_leader rid st) = Inr (play W Map.empty k)"
    "\<exists>res. replica_scan lo hi read_leader rid st = Inr res \<and> scan_result lo hi (play W Map.empty) res"
proof -
  obtain l where l: "leader_ok F W st l" using assms by (auto simp: replica_inv_def)
  then have "engine_ok (F + length W) (play W Map.empty) (rh_engine (rs_replicas st ! l))" "select_replica read_leader rid st = Inr l"
    using select_leader by (auto simp: leader_ok_def)
  then show "k \<noteq> [] \<Longrightarrow> fst (replica_get k read_leader rid st) = Inr (play W Map.empty k)"
    "\<exists>res. replica_scan lo hi read_leader rid st = Inr res \<and> scan_result lo hi (play W Map.empty) res"
    using replica_reads replica_inv_log(6) [OF assms] by blast+
qed

lemma replica_inv_follower_reads:
  assumes "replica_inv F W st" "i < length (rs_replicas st)" "int i \<noteq> rs_leader st"
  defines "j \<equiv> unat (rh_applied (rs_replicas st ! i))"
  shows "j \<le> length W" "k \<noteq> [] \<Longrightarrow> fst (replica_get k read_follower (int i) st) = Inr (play (take j W) Map.empty k)"
    "\<exists>res. replica_scan lo hi read_follower (int i) st = Inr res \<and> scan_result lo hi (play (take j W) Map.empty) res"
proof -
  have f: "follower_ok F (ol_ops (rs_log st)) (rs_replicas st ! i)" by (rule follower_role(2) [OF assms(1-3)])
  then show "j \<le> length W" using replica_inv_log(2) [OF assms(1)] by (simp add: follower_ok_def j_def)
  have e: "engine_ok (F + j) (play (take j W) Map.empty) (rh_engine (rs_replicas st ! i))"
    using f replica_inv_log(7) [OF assms(1)] by (simp add: follower_ok_def j_def)
  show "k \<noteq> [] \<Longrightarrow> fst (replica_get k read_follower (int i) st) = Inr (play (take j W) Map.empty k)"
    "\<exists>res. replica_scan lo hi read_follower (int i) st = Inr res \<and> scan_result lo hi (play (take j W) Map.empty) res"
    using replica_reads [OF e select_follower [OF assms(2,3)]] replica_inv_log(6) [OF assms(1)] by blast+
qed

section \<open>Opening\<close>

text \<open>The checks of the replica manifest are those of the sharding manifest and a count of the leaders.\<close>

definition as_shard :: "replica_entry \<Rightarrow> shard_entry" where
  "as_shard r = \<lparr>se_id = rpe_id r, se_name = rpe_name r, se_path = rpe_path r\<rparr>"

lemma check_replicas_shards:
  "check_replicas n ids names paths c rs =
     map_option (\<lambda>ids'. (ids', c + length (filter (\<lambda>r. rpe_role r = role_leader) rs))) (check_shards n ids names paths (map as_shard rs))"
  by (induction rs arbitrary: ids names paths c) (simp_all add: as_shard_def)

lemma replication_valid_paths: "validate_replication m \<Longrightarrow> distinct (map rpe_path (rm_replicas m))"
  unfolding validate_replication_def
  by (auto simp: check_replicas_shards check_shards_Some comp_def as_shard_def split: if_splits option.splits)

text \<open>The handle a manifest entry opens to.\<close>

definition info_of :: "replica_entry \<Rightarrow> replica_info" where
  "info_of r = \<lparr>ri_id = rpe_id r, ri_role = rpe_role r, ri_name = rpe_name r, ri_path = rpe_path r\<rparr>"

definition handle_opened :: "(path \<Rightarrow> bytes option) \<Rightarrow> replica_entry \<Rightarrow> replica_handle \<Rightarrow> bool" where
  "handle_opened A r h \<longleftrightarrow> rh_info h = info_of r \<and> rh_applied h = load_index (A (rpe_path r)) \<and> \<not> rh_paused h
     \<and> rh_max_apply h = 0 \<and> rh_applied_file h = A (rpe_path r)"

lemma open_replicas_ok:
  assumes "distinct (map rpe_path rs)"
    and "\<forall>r \<in> set rs. \<exists>e d. engine_open None (engine_opts_for dir (rpe_path r)) (D (rpe_path r)) = (Inr e, d) \<and> P r e"
  shows "\<exists>hs D'. open_replicas None dir i rs A D = (Inr hs, D') \<and> list_all2 (\<lambda>r h. handle_opened A r h \<and> P r (rh_engine h)) rs hs"
  using assms
proof (induction rs arbitrary: i D)
  case (Cons r rs)
  obtain e d where e: "engine_open None (engine_opts_for dir (rpe_path r)) (D (rpe_path r)) = (Inr e, d)" "P r e"
    using Cons.prems(2) by auto
  have "(D(rpe_path r := d)) (rpe_path s) = D (rpe_path s)" if "s \<in> set rs" for s
    using Cons.prems(1) that by (auto simp: image_iff)
  then have "\<exists>hs D'. open_replicas None dir (i + 1) rs A (D(rpe_path r := d)) = (Inr hs, D')
      \<and> list_all2 (\<lambda>r h. handle_opened A r h \<and> P r (rh_engine h)) rs hs"
    using Cons.prems by (intro Cons.IH) (simp_all del: fun_upd_apply)
  then obtain hs D' where "open_replicas None dir (i + 1) rs A (D(rpe_path r := d)) = (Inr hs, D')"
      "list_all2 (\<lambda>r h. handle_opened A r h \<and> P r (rh_engine h)) rs hs" by blast
  then show ?case using e by (simp add: replica_engine_fault_def handle_opened_def info_of_def)
qed simp

subsection \<open>A first opening\<close>

definition empty_replica_disk :: replica_disk where
  "empty_replica_disk = \<lparr>rd_manifest = No_file, rd_log = None, rd_commit = None, rd_engines = (\<lambda>_. fresh_disk), rd_applied = (\<lambda>_. None)\<rparr>"

definition first_leader :: "replica_options \<Rightarrow> int" where
  "first_leader o' = (if ro_leader o' < 0 then 0 else ro_leader o')"

definition first_replication :: "replica_options \<Rightarrow> replication_manifest" where
  "first_replication o' = fresh_replication (ro_count o') (first_leader o') (if ro_prefix o' = [] then default_replica_prefix else ro_prefix o')"

text \<open>What stays fixed while a store is open, and what its small files promise.\<close>

definition replica_files_ok :: "path \<Rightarrow> replica_entry list \<Rightarrow> int \<Rightarrow> replica_store \<Rightarrow> bool" where
  "replica_files_ok dir rs l st \<longleftrightarrow> rs_leader st = l \<and> op_log_whole (rs_log st) \<and> load_index (rs_commit_file st) = rs_commit st
     \<and> list_all2 (\<lambda>r h. rh_info h = info_of r \<and> en_opts (rh_engine h) = engine_opts_at dir (rpe_path r) \<and> file_behind h) rs (rs_replicas st)"

lemma replica_open_first:
  assumes "replica_open None o' empty_replica_disk = (Inr st, d)"
  shows "replica_inv 0 [] st" "replica_files_ok (ro_dir o') (rm_replicas (first_replication o')) (first_leader o') st"
    "rd_manifest d = Json_file (first_replication o')" "validate_replication (first_replication o')" "ro_dir o' \<noteq> []"
    "\<forall>h \<in> set (rs_replicas st). \<not> rh_paused h" "first_leader o' < ro_count o'" "0 < ro_count o'"
proof -
  let ?m = "first_replication o'" and ?l = "first_leader o'"
  define o2 where "o2 = o'\<lparr>ro_prefix := (if ro_prefix o' = [] then default_replica_prefix else ro_prefix o'), ro_leader := ?l\<rparr>"
  have o: "ro_dir o' \<noteq> []" "ro_count o' > 0" "?l < ro_count o'"
    using assms by (auto simp: replica_open_def empty_replica_disk_def first_leader_def Let_def split: if_splits)
  then show "ro_dir o' \<noteq> []" "0 < ro_count o'" "?l < ro_count o'" by blast+
  let ?d1 = "empty_replica_disk\<lparr>rd_manifest := Json_file ?m\<rparr>"
  have "replica_open None o' empty_replica_disk = (case write_replication False ?m empty_replica_disk of
      (Some er, d') \<Rightarrow> (Inl er, d') | (None, d') \<Rightarrow> open_with_manifest None o2 ?m d')"
    using o unfolding replica_open_def Let_def
    by (cases "ro_prefix o' = []"; cases "ro_leader o' < 0")
      (simp_all add: empty_replica_disk_def first_replication_def first_leader_def o2_def cong: prod.case_cong option.case_cong)
  then have valid: "validate_replication ?m" and ow: "open_with_manifest None o2 ?m ?d1 = (Inr st, d)"
    using assms by (auto simp: write_replication_def split: if_splits)
  show "validate_replication ?m" by (rule valid)
  let ?P = "\<lambda>r e. engine_ok 0 Map.empty e \<and> en_opts e = engine_opts_at (ro_dir o') (rpe_path r)"
  have "\<forall>r \<in> set (rm_replicas ?m). \<exists>e d. engine_open None (engine_opts_for (ro_dir o') (rpe_path r)) fresh_disk = (Inr e, d) \<and> ?P r e"
    using open_engine_fresh [OF o(1)] by blast
  from open_replicas_ok [OF replication_valid_paths [OF valid], of "ro_dir o'" "\<lambda>_. fresh_disk", OF this, of 0 "\<lambda>_. None"]
  obtain hs D' where hs: "open_replicas None (ro_dir o') 0 (rm_replicas ?m) (\<lambda>_. None) (\<lambda>_. fresh_disk) = (Inr hs, D')"
      "list_all2 (\<lambda>r h. handle_opened (\<lambda>_. None) r h \<and> ?P r (rh_engine h)) (rm_replicas ?m) hs" by blast
  obtain ol f where ol: "open_op_log None None = (Inr ol, f)" by (simp add: open_op_log_def)
  have st: "rs_replicas st = hs" "rs_log st = ol" "rs_leader st = ?l" "rs_commit st = 0" "\<not> rs_closed st" "rs_commit_file st = None"
      "rd_manifest d = Json_file ?m"
    using ow hs(1) ol by (auto simp: open_with_manifest_def empty_replica_disk_def o2_def load_index_def)
  show "rd_manifest d = Json_file ?m" by (rule st(7))
  note log = op_log_fresh [OF ol]
  have len: "length hs = nat (ro_count o')"
    using list_all2_lengthD [OF hs(2)] by (simp add: first_replication_def fresh_replication_def)
  have h: "handle_opened (\<lambda>_. None) (rm_replicas ?m ! i) (hs ! i)" "?P (rm_replicas ?m ! i) (rh_engine (hs ! i))" if "i < length hs" for i
    using hs(2) that by (auto simp: list_all2_conv_all_nth)
  have role: "ri_role (rh_info (hs ! i)) = role_leader \<longleftrightarrow> int i = ?l" if "i < length hs" for i
    using h(1) [OF that] that len
    by (auto simp: handle_opened_def info_of_def first_replication_def fresh_replication_def fresh_replica_def Let_def
        role_leader_def role_follower_def)
  have l0: "0 \<le> ?l" by (simp add: first_leader_def)
  have li: "leader_index st = Some (nat ?l)" using l0 o len by (simp add: leader_index_def st)
  have "rh_applied (hs ! nat ?l) = 0"
    using h(1) [of "nat ?l"] leader_index_bound [OF li] by (simp add: st handle_opened_def load_index_def)
  then have "leader_ok 0 [] st (nat ?l)"
    using li h(2) leader_index_bound [OF li] role l0 by (auto simp: leader_ok_def st)
  moreover have "follower_ok 0 (ol_ops ol) h'" "limit_ok (rh_engine h')" if "h' \<in> set hs" for h'
    using that h by (auto simp: in_set_conv_nth follower_ok_def log(1) handle_opened_def load_index_def limit_ok_def)
  moreover have "log_ok [] ol" using log by (simp add: log_ok_def)
  ultimately show "replica_inv 0 [] st" by (auto simp: replica_inv_def st)
  show "\<forall>h \<in> set (rs_replicas st). \<not> rh_paused h" using h by (auto simp: st in_set_conv_nth handle_opened_def)
  show "replica_files_ok (ro_dir o') (rm_replicas ?m) ?l st"
    unfolding replica_files_ok_def using log(3)
    by (auto simp: st load_index_def handle_opened_def file_behind_def intro: list_all2_mono [OF hs(2)])
qed

section \<open>Sample sessions\<close>

lemma replica_open_succeeds:
  assumes "ro_dir o' \<noteq> []" "first_leader o' < ro_count o'" "validate_replication (first_replication o')"
  shows "\<exists>st d. replica_open None o' empty_replica_disk = (Inr st, d)"
proof -
  let ?m = "first_replication o'"
  let ?P = "\<lambda>r e. True"
  have "\<forall>r \<in> set (rm_replicas ?m). \<exists>e d. engine_open None (engine_opts_for (ro_dir o') (rpe_path r)) fresh_disk = (Inr e, d) \<and> ?P r e"
    using open_engine_fresh [OF assms(1)] by blast
  from open_replicas_ok [OF replication_valid_paths [OF assms(3)], of "ro_dir o'" "\<lambda>_. fresh_disk", OF this, of 0 "\<lambda>_. None"]
  obtain hs D' where hs: "open_replicas None (ro_dir o') 0 (rm_replicas ?m) (\<lambda>_. None) (\<lambda>_. fresh_disk) = (Inr hs, D')" by blast
  obtain ol f where ol: "open_op_log None None = (Inr ol, f)" by (simp add: open_op_log_def)
  have ow: "\<exists>st d. open_with_manifest None o2 ?m (empty_replica_disk\<lparr>rd_manifest := Json_file ?m\<rparr>) = (Inr st, d)"
    if "ro_dir o2 = ro_dir o'" for o2
    using hs ol by (simp add: open_with_manifest_def empty_replica_disk_def that)
  have c: "0 < ro_count o'" "ro_leader o' < ro_count o'" using assms(2) by (auto simp: first_leader_def split: if_splits)
  show ?thesis
    using assms(1,2,3) c ow unfolding replica_open_def Let_def
    by (cases "ro_prefix o' = []"; cases "ro_leader o' < 0")
      (simp_all add: empty_replica_disk_def first_replication_def first_leader_def write_replication_def
        cong: prod.case_cong option.case_cong)
qed

lemma replica_put_succeeds:
  assumes "replica_inv F W st" "k \<noteq> []" "length k + length x \<le> 1000"
  shows "\<exists>st'. replica_put k x (good_write_io\<lparr>wi_applied := s\<rparr>) st = (Inr (ol_last (rs_log st) + 1), st')"
proof -
  obtain l where l: "leader_ok F W st l" using assms(1) by (auto simp: replica_inv_def)
  then have li: "leader_index st = Some l" "l < length (rs_replicas st)" using leader_index_bound by (auto simp: leader_ok_def)
  have e: "engine_inv (rh_engine (rs_replicas st ! l))" "limit_ok (rh_engine (rs_replicas st ! l))"
    using l assms(1) li(2) engine_ok_inv by (auto simp: leader_ok_def replica_inv_def)
  have c: "\<not> rs_closed st" "\<not> ol_closed (rs_log st)" using assms(1) by (auto simp: replica_inv_def log_ok_def)
  obtain ol where ol: "op_append Write_ok (write_type (Some x)) k (write_value (Some x)) (rs_log st) = (Inr (ol_last (rs_log st) + 1), ol)"
    using op_append_succeeds [OF c(2), of k "write_value (Some x)" "write_type (Some x)"] assms(3) by (auto simp: write_value_def)
  obtain e' where "engine_write k (Some x) Write_ok True (rh_engine (rs_replicas st ! l)) = (None, e')"
    using engine_write_succeeds [OF e(1) assms(2), of "Some x"] e(2) assms(3) by (auto simp: limit_ok_def engine_record_limit_def)
  then have "\<exists>st'. replica_write k (Some x) (good_write_io\<lparr>wi_applied := s\<rparr>) st = (Inr (ol_last (rs_log st) + 1), st')"
    using ol li(1) c(1) assms(2) by (simp add: replica_write_eq good_write_io_def commit_write_def)
  then show ?thesis by (simp add: replica_write_def)
qed

lemma replica_inv_open:
  assumes "replica_inv F W st" "h \<in> set (rs_replicas st)"
  shows "engine_inv (rh_engine h)"
proof -
  obtain l where l: "leader_ok F W st l" using assms(1) by (auto simp: replica_inv_def)
  obtain i where i: "i < length (rs_replicas st)" "h = rs_replicas st ! i" using assms(2) by (auto simp: in_set_conv_nth)
  show ?thesis
  proof (cases "i = l")
    case True
    then show ?thesis using l i engine_ok_inv by (auto simp: leader_ok_def)
  next
    case False
    then have "ri_role (rh_info h) \<noteq> role_leader" using l i by (simp add: leader_ok_def)
    then show ?thesis using assms engine_ok_inv by (auto simp: replica_inv_def follower_ok_def)
  qed
qed

definition demo_replica_opts :: replica_options where
  "demo_replica_opts = \<lparr>ro_dir = ''data'', ro_count = 3, ro_leader = - 1, ro_prefix = []\<rparr>"

lemma demo_replication_valid: "validate_replication (fresh_replication 3 0 ''replica'')"
  by code_simp

lemma demo_replica_run:
  obtains st0 d st where "replica_open None demo_replica_opts empty_replica_disk = (Inr st0, d)"
    "replica_run (\<lambda>_ _. 1) (\<lambda>_ _. 1) [R_put [107] [1] False] st0 = Some st" "replica_inv 0 [([107], Some [1])] st"
    "length (rs_replicas st) = 3" "rs_leader st = 0" "\<forall>h \<in> set (rs_replicas st). \<not> rh_paused h"
proof -
  have m: "first_leader demo_replica_opts = 0" "first_replication demo_replica_opts = fresh_replication 3 0 ''replica''"
    by (simp_all add: demo_replica_opts_def first_leader_def first_replication_def default_replica_prefix_def)
  obtain st0 d where op: "replica_open None demo_replica_opts empty_replica_disk = (Inr st0, d)"
    using replica_open_succeeds [of demo_replica_opts] m demo_replication_valid by (auto simp: demo_replica_opts_def)
  note first = replica_open_first [OF op, unfolded m]
  obtain st where st: "replica_put [107] [1] (good_write_io\<lparr>wi_applied := False\<rparr>) st0 = (Inr (ol_last (rs_log st0) + 1), st)"
    using replica_put_succeeds [OF first(1), of "[107]" "[1]" False] by auto
  have inv: "replica_inv 0 ([] @ [([107], Some [1])]) st"
    by (rule replica_write_inv(1) [OF first(1)]) (use st in \<open>simp_all add: replica_write_def\<close>)
  have "length (rs_replicas st0) = 3" "rs_leader st0 = 0"
    using first(2) list_all2_lengthD by (fastforce simp: replica_files_ok_def fresh_replication_def)+
  moreover have "length (rs_replicas st) = length (rs_replicas st0)" "rs_leader st = rs_leader st0"
      "\<forall>h \<in> set (rs_replicas st0). \<not> rh_paused h \<Longrightarrow> \<forall>h \<in> set (rs_replicas st). \<not> rh_paused h"
    using st by (auto simp: replica_put_def commit_write_def set_replica_def save_applied_def Let_def leader_index_def
        split: if_splits sum.splits prod.splits option.splits dest!: set_update_subset_insert [THEN subsetD])
  moreover have "engine_inv (rh_engine h)" if "h \<in> set (rs_replicas st)" for h
    using replica_inv_open [OF inv that] .
  then have "\<not> list_ex (\<lambda>h. en_closed (rh_engine h)) (rs_replicas st)" by (auto simp: list_ex_iff engine_inv_def)
  then have "replica_run (\<lambda>_ _. 1) (\<lambda>_ _. 1) [R_put [107] [1] False] st0 = Some st"
    by (simp add: st write_error_def)
  ultimately show thesis using op inv first(6) by (intro that [of st0 d st]) simp_all
qed


end
