(* ===== verification/ReplicaSpec.thy ===== *)
theory ReplicaSpec
  imports ReplicaInv
begin

text \<open>
  The replicated store against its specification: sessions refine a history of writes, \<open>ReplicateAll\<close> brings
  the followers level, also after a reopening that lost the latest \<open>APPLIED\<close> files.
\<close>

section \<open>Sessions\<close>

lemma replica_session_inv:
  assumes "replica_open None o' empty_replica_disk = (Inr st0, d)" "replica_run c r ops st0 = Some st" "length ops \<le> 2 ^ 29"
  shows "\<exists>F. F + length (concat (map writes_of ops)) \<le> length ops \<and> replica_inv F (concat (map writes_of ops)) st"
proof -
  have "0 + length ([] :: (bytes \<times> bytes option) list) + length ops \<le> 2 ^ 29" using assms(3) by simp
  from replica_run_bound [OF replica_open_first(1) [OF assms(1)] this assms(2)] show ?thesis by simp
qed

text \<open>C17: the replicated store refines a history of writes. From a first \<open>Open\<close>, run writes that succeed with
  replication passes, pauses, lag limits, flushes and compactions in between that may fail: a read from
  the leader answers from the map of all the writes, in order, and a read from a follower from the map
  of the writes up to the follower's applied index, so a follower may lag but never shows a state the
  leader has not had; the commit index counts the writes.\<close>

theorem replica_session_refines_history:
  assumes "replica_open None o' empty_replica_disk = (Inr st0, d)" "replica_run c r ops st0 = Some st" "length ops \<le> 2 ^ 29"
    and "k \<noteq> []"
  defines "W \<equiv> concat (map writes_of ops)"
  shows "fst (replica_get k read_leader rid st) = Inr (play W Map.empty k)
    \<and> (\<exists>res. replica_scan lo hi read_leader rid st = Inr res \<and> scan_result lo hi (play W Map.empty) res)
    \<and> unat (rs_commit st) = length W
    \<and> (\<forall>i < length (rs_replicas st). int i \<noteq> rs_leader st \<longrightarrow>
        (let j = unat (rh_applied (rs_replicas st ! i)) in
          j \<le> length W \<and> fst (replica_get k read_follower (int i) st) = Inr (play (take j W) Map.empty k)
          \<and> (\<exists>res. replica_scan lo hi read_follower (int i) st = Inr res \<and> scan_result lo hi (play (take j W) Map.empty) res)))"
proof -
  obtain F where inv: "replica_inv F W st" using replica_session_inv [OF assms(1-3)] by (auto simp: W_def)
  show ?thesis
    using replica_inv_leader_reads [OF inv] replica_inv_log(5) [OF inv] replica_inv_follower_reads [OF inv] assms(4)
    by (simp add: Let_def)
qed

text \<open>C18: followers catch up. After such a run \<open>ReplicateAll\<close> returns without an error, and then every follower
  that is not paused answers exactly as the leader, whatever its lag limit; a paused one is left alone.\<close>

theorem replica_followers_catch_up:
  assumes "replica_open None o' empty_replica_disk = (Inr st0, d)" "replica_run c r ops st0 = Some st" "length ops \<le> 2 ^ 29"
    and "k \<noteq> []"
  shows "\<exists>st'. replicate_all (apply_with A) st = (None, st')
    \<and> fst (replica_get k read_leader rid st') = fst (replica_get k read_leader rid st)
    \<and> (\<forall>i < length (rs_replicas st). int i \<noteq> rs_leader st \<longrightarrow>
        fst (replica_get k read_follower (int i) st') =
          (if rh_paused (rs_replicas st ! i) then fst (replica_get k read_follower (int i) st)
           else fst (replica_get k read_leader rid st)))"
proof -
  let ?W = "concat (map writes_of ops)"
  obtain F where inv: "F + length ?W \<le> 2 ^ 29" "replica_inv F ?W st"
    using replica_session_inv [OF assms(1-3)] assms(3) le_trans by blast
  obtain er st' where r: "replicate_all (apply_with A) st = (er, st')" by fastforce
  note a = replicate_all_inv [OF inv(2,1) r]
  have st': "rs_leader st' = rs_leader st" "rs_closed st' = rs_closed st" "rs_commit st' = rs_commit st"
    using r by (auto simp: replicate_all_def split: if_splits prod.splits)
  have len: "length (rs_replicas st') = length (rs_replicas st)" using a(4) by (simp add: list_all2_lengthD)
  note leader = replica_inv_leader_reads(1) [OF inv(2) assms(4)] replica_inv_leader_reads(1) [OF a(1) assms(4)]
  have "fst (replica_get k read_follower (int i) st') = (if rh_paused (rs_replicas st ! i)
      then fst (replica_get k read_follower (int i) st) else fst (replica_get k read_leader rid st))"
    if i: "i < length (rs_replicas st)" "int i \<noteq> rs_leader st" for i
  proof -
    have i': "i < length (rs_replicas st')" "int i \<noteq> rs_leader st'" using i len st'(1) by simp_all
    note f = replica_inv_follower_reads [OF a(1) i']
    have adv: "advanced (follower_ok F) (ol_ops (rs_log st)) (rs_replicas st ! i) (rs_replicas st' ! i)"
      using a(4) i(1) by (simp add: list_all2_conv_all_nth)
    show ?thesis
    proof (cases "rh_paused (rs_replicas st ! i)")
      case True
      then have "rs_replicas st' ! i = rs_replicas st ! i" using adv by (simp add: advanced_def)
      then show ?thesis using True f(2) [OF assms(4)] replica_inv_follower_reads(2) [OF inv(2) i assms(4)] by simp
    next
      case False
      have "settled (rs_commit st) (rs_replicas st' ! i)" using a(3) i'(1) by simp
      moreover have "\<not> rh_paused (rs_replicas st' ! i)" using False adv by (simp add: advanced_def)
      ultimately have "rs_commit st \<le> rh_applied (rs_replicas st' ! i)"
        using follower_role(1) [OF a(1) i'] by (simp add: settled_def)
      then have "length ?W \<le> unat (rh_applied (rs_replicas st' ! i))"
        using replica_inv_log(5) [OF inv(2)] by (simp add: word_le_nat_alt)
      then show ?thesis using False f(2) [OF assms(4)] leader(1) by simp
    qed
  qed
  then show ?thesis using r a(2) leader by auto
qed

section \<open>Reopening\<close>

lemma files_ok_replicas:
  assumes "replica_files_ok dir rs l st"
    and "\<And>i. i < length hs \<Longrightarrow> rh_info (hs ! i) = rh_info (rs_replicas st ! i) \<and> en_opts (rh_engine (hs ! i)) = en_opts (rh_engine (rs_replicas st ! i))
      \<and> (file_behind (rs_replicas st ! i) \<longrightarrow> file_behind (hs ! i))" "length hs = length (rs_replicas st)"
  shows "replica_files_ok dir rs l (st\<lparr>rs_replicas := hs\<rparr>)"
  using assms by (auto simp: replica_files_ok_def list_all2_conv_all_nth)

lemma files_ok_write:
  assumes "replica_files_ok dir rs l st" "replica_inv F W st" "F + length W < 2 ^ 29" "replica_write k v io st = (Inr idx, st')"
  shows "replica_files_ok dir rs l st'"
proof -
  obtain i where i: "leader_ok F W st i" using assms(2) by (auto simp: replica_inv_def)
  then have li: "leader_index st = Some i" "i < length (rs_replicas st)"
    using leader_index_bound by (auto simp: leader_ok_def)
  obtain ol e where w: "op_append (wi_log io) (write_type v) k (write_value v) (rs_log st) = (Inr idx, ol)"
      "engine_write k v (wi_engine io) (wi_sync io) (rh_engine (rs_replicas st ! i)) = (None, e)"
      "commit_write io i idx (set_replica i (\<lambda>h. h\<lparr>rh_engine := e\<rparr>) (st\<lparr>rs_log := ol\<rparr>)) = (Inr idx, st')"
    by (rule replica_write_Inr [OF assms(4) li(1)])
  let ?h = "rs_replicas st ! i"
  have log: "ops_numbered (rs_log st)" "length (ol_ops (rs_log st)) = length W" by (rule replica_inv_log [OF assms(2)])+
  then have "Suc (length (ol_ops (rs_log st))) < 2 ^ 64 - 1" using assms(3) by simp
  note ap = op_append_ok [OF log(1) this w(1)]
  have h: "engine_inv (rh_engine ?h)" "limit_ok (rh_engine ?h)"
    using i assms(2) li(2) engine_ok_inv by (auto simp: leader_ok_def replica_inv_def)
  have "length k + length (write_value v) + 21 < 2 ^ 32"
    using engine_write_fits(2) [OF h(1) w(2)] h(2) by (simp add: limit_ok_def engine_record_limit_def write_value_def)
  then have whole: "op_log_whole ol" using ap(7) assms(1) by (simp add: replica_files_ok_def)
  define h' where "h' = save_applied (wi_applied io) idx (?h\<lparr>rh_engine := e, rh_applied := idx\<rparr>)"
  have st': "rs_replicas st' = (rs_replicas st)[i := h']" "rs_log st' = ol" "rs_leader st' = rs_leader st"
      "rs_commit st' = idx" "rs_commit_file st' = Some (index_text idx)"
    using w(3) li(2) by (auto simp: commit_write_def set_replica_def h'_def split: if_splits)
  have "rh_applied ?h \<le> idx" using i ap(3) log(2) by (simp add: leader_ok_def word_le_nat_alt)
  then have "file_behind ?h \<Longrightarrow> file_behind h'" by (auto simp: file_behind_def h'_def save_applied_def)
  moreover have "en_opts e = en_opts (rh_engine ?h)" using engine_write_opts w(2) by (metis snd_conv)
  ultimately show ?thesis
    using assms(1) whole li(2) unfolding replica_files_ok_def st'
    by (auto simp: list_all2_conv_all_nth nth_list_update h'_def)
qed

lemma advanced_files:
  "replica_files_ok dir rs l st \<Longrightarrow> list_all2 (advanced fok L) (rs_replicas st) hs \<Longrightarrow> replica_files_ok dir rs l (st\<lparr>rs_replicas := hs\<rparr>)"
  by (rule files_ok_replicas) (auto simp: list_all2_conv_all_nth advanced_def)

lemma files_ok_step:
  assumes "replica_files_ok dir rs l st" "replica_inv F W st" "F + length W < 2 ^ 29" "replica_step c r op st = (er, st')"
    and "writes_of op \<noteq> [] \<longrightarrow> er = None"
  shows "replica_files_ok dir rs l st'"
proof -
  note inv = replica_inv_log [OF assms(2)]
  have handle: "replica_files_ok dir rs l (set_replica i f st)"
    if "\<And>h. rh_info (f h) = rh_info h \<and> rh_engine (f h) = rh_engine h \<and> file_behind (f h) = file_behind h" for i f
    unfolding set_replica_def
  proof (rule files_ok_replicas [OF assms(1)])
    fix j assume "j < length ((rs_replicas st)[i := f (rs_replicas st ! i)])"
    then show "rh_info ((rs_replicas st)[i := f (rs_replicas st ! i)] ! j) = rh_info (rs_replicas st ! j)
        \<and> en_opts (rh_engine ((rs_replicas st)[i := f (rs_replicas st ! i)] ! j)) = en_opts (rh_engine (rs_replicas st ! j))
        \<and> (file_behind (rs_replicas st ! j) \<longrightarrow> file_behind ((rs_replicas st)[i := f (rs_replicas st ! i)] ! j))"
      using that [of "rs_replicas st ! i"] by (cases "i = j") simp_all
  qed simp
  have tidy: "replica_files_ok dir rs l st'"
    if f: "each_replica f 0 (rs_replicas st) = (res, hs)" "st' = st\<lparr>rs_replicas := hs\<rparr>"
      "\<And>i e. en_opts (snd (f i e)) = en_opts e" for f res hs
  proof -
    obtain er where e: "list_all2 (\<lambda>h h'. h' = h\<lparr>rh_engine := rh_engine h'\<rparr>) (rs_replicas st) hs"
        "each_engine f 0 (map rh_engine (rs_replicas st)) = (er, map rh_engine hs)"
      using each_replica_engines [OF f(1)] by blast
    have len: "length hs = length (rs_replicas st)" using e(1) by (simp add: list_all2_lengthD)
    have "rh_info (hs ! i) = rh_info (rs_replicas st ! i)" "file_behind (hs ! i) = file_behind (rs_replicas st ! i)"
      if "i < length hs" for i
    proof -
      have "hs ! i = (rs_replicas st ! i)\<lparr>rh_engine := rh_engine (hs ! i)\<rparr>" using e(1) \<open>i < _\<close> len by (simp add: list_all2_conv_all_nth)
      then show "rh_info (hs ! i) = rh_info (rs_replicas st ! i)" "file_behind (hs ! i) = file_behind (rs_replicas st ! i)"
        unfolding file_behind_def by (metis replica_handle.select_convs(1) replica_handle.surjective replica_handle.update_convs(2),
          metis replica_handle.select_convs(3,6) replica_handle.surjective replica_handle.update_convs(2))
    qed
    moreover have "en_opts (rh_engine (hs ! i)) = en_opts (rh_engine (rs_replicas st ! i))" if "i < length hs" for i
      using each_engine_props [OF e(2)] that len f(3) by auto
    ultimately show ?thesis unfolding f(2) using len by (intro files_ok_replicas [OF assms(1)]) simp_all
  qed
  show ?thesis
  proof (cases op)
    case (R_put k v s)
    then obtain idx where "replica_write k (Some v) (good_write_io\<lparr>wi_applied := s\<rparr>) st = (Inr idx, st')"
      using assms(4,5) by (auto simp: write_error_def replica_write_def split: prod.splits sum.splits)
    then show ?thesis by (rule files_ok_write [OF assms(1-3)])
  next
    case (R_delete k s)
    then obtain idx where "replica_write k None (good_write_io\<lparr>wi_applied := s\<rparr>) st = (Inr idx, st')"
      using assms(4,5) by (auto simp: write_error_def replica_write_def split: prod.splits sum.splits)
    then show ?thesis by (rule files_ok_write [OF assms(1-3)])
  next
    case (R_once A)
    then obtain n hs where "replicate_handles (apply_with A) (rs_log st) (rs_commit st) 0 (rs_replicas st) 0 = (er, n, hs)"
        "st' = st\<lparr>rs_replicas := hs\<rparr>"
      using assms(4) inv(6) by (auto simp: replicate_once_def split: prod.splits)
    then show ?thesis
      using session.replicate_handles_advanced [OF _ inv(1), of A _ 0 "rs_replicas st" 0 er n hs F] inv(3,4) advanced_files [OF assms(1)]
      by blast
  next
    case (R_all A)
    then have r: "replicate_all (apply_with A) st = (er, st')" using assms(4) by simp
    then obtain hs where hs: "st' = st\<lparr>rs_replicas := hs\<rparr>" using inv(6) by (auto simp: replicate_all_def split: prod.splits)
    have "F + length W \<le> 2 ^ 29" using assms(3) by simp
    from replicate_all_inv(4) [OF assms(2) this r] show ?thesis using advanced_files [OF assms(1)] by (simp add: hs)
  next
    case (R_pause i b)
    then show ?thesis
      using assms(1,4) handle [of "\<lambda>h. h\<lparr>rh_paused := b\<rparr>"] by (auto simp: set_follower_paused_def file_behind_def split: if_splits)
  next
    case (R_lag i n)
    then show ?thesis
      using assms(1,4) handle [of "\<lambda>h. h\<lparr>rh_max_apply := n\<rparr>"] by (auto simp: set_follower_lag_def file_behind_def split: if_splits)
  next
    case (R_flush fs)
    then obtain hs where "each_replica (\<lambda>i. engine_flush c r (fs i)) 0 (rs_replicas st) = (er, hs)" "st' = st\<lparr>rs_replicas := hs\<rparr>"
      using assms(4) inv(6) by (auto simp: replica_flush_def split: prod.splits)
    then show ?thesis by (rule tidy) (use engine_step_opts [of c r "Flush_op f" for f] in simp)
  next
    case (R_compact fs)
    then obtain hs where "each_replica (\<lambda>i. engine_compact c r (fs i)) 0 (rs_replicas st) = (er, hs)" "st' = st\<lparr>rs_replicas := hs\<rparr>"
      using assms(4) inv(6) by (auto simp: replica_compact_def split: prod.splits)
    then show ?thesis by (rule tidy) (use engine_step_opts [of c r "Compact_op f" for f] in simp)
  qed
qed

lemma replica_run_files:
  assumes "replica_files_ok dir rs l st" "replica_inv F W st" "F + length W + length ops \<le> 2 ^ 29" "replica_run c r ops st = Some st'"
  shows "replica_files_ok dir rs l st'"
  using assms
proof (induction ops arbitrary: F W st)
  case (Cons op ops)
  obtain er st1 where s: "replica_step c r op st = (er, st1)" by fastforce
  then have c: "writes_of op \<noteq> [] \<longrightarrow> er = None" "\<forall>h \<in> set (rs_replicas st1). \<not> en_closed (rh_engine h)"
      "replica_run c r ops st1 = Some st'"
    using Cons.prems(4) by (auto simp: list_ex_iff split: if_splits)
  have b: "F + length W < 2 ^ 29" using Cons.prems(3) by simp
  then obtain F1 where F1: "F1 + length (W @ writes_of op) \<le> F + length W + 1" "replica_inv F1 (W @ writes_of op) st1"
    using replica_step_inv [OF Cons.prems(2) _ s c(1,2)] by blast
  have "F1 + length (W @ writes_of op) + length ops \<le> 2 ^ 29" using F1(1) Cons.prems(3) by simp
  from Cons.IH [OF files_ok_step [OF Cons.prems(1,2) b s c(1)] F1(2) this c(3)] show ?case .
qed simp

subsection \<open>The files of a closed store\<close>

lemma close_replicas_files:
  "close_replicas first hs = (res, hs') \<Longrightarrow>
   map (\<lambda>h. (ri_path (rh_info h), directory (rh_engine h), rh_applied_file h)) hs'
   = map (\<lambda>h. (ri_path (rh_info h), directory (rh_engine h), rh_applied_file h)) hs"
proof (induction hs arbitrary: first res hs')
  case (Cons h hs)
  obtain er e where c: "engine_close (rh_engine h) = (er, e)" by fastforce
  have "directory e = directory (rh_engine h)" using directory_close [of "rh_engine h"] c by simp
  then show ?case using Cons c by (fastforce split: prod.splits)
qed simp

lemma replica_directory_close: "replica_directory d (snd (replica_close st)) = replica_directory d st"
proof -
  let ?f = "\<lambda>h. (ri_path (rh_info h), directory (rh_engine h), rh_applied_file h)"
  have fold: "foldl (\<lambda>D h. D(ri_path (rh_info h) := directory (rh_engine h))) D hs = foldl (\<lambda>D (p, x, y). D(p := x)) D (map ?f hs)"
    "foldl (\<lambda>A h. A(ri_path (rh_info h) := rh_applied_file h)) A hs = foldl (\<lambda>A (p, x, y). A(p := y)) A (map ?f hs)" for D A hs
    by (induction hs arbitrary: D A) simp_all
  obtain res hs' where c: "close_replicas None (rs_replicas st) = (res, hs')" by fastforce
  then show ?thesis
    using close_replicas_files [OF c]
    by (simp add: replica_directory_def replica_close_def op_log_close_def fold split: prod.splits)
qed

lemma replica_directory_at:
  assumes "distinct (map (\<lambda>h. ri_path (rh_info h)) (rs_replicas st))" "j < length (rs_replicas st)"
  shows "rd_engines (replica_directory d st) (ri_path (rh_info (rs_replicas st ! j))) = directory (rh_engine (rs_replicas st ! j))"
    "rd_applied (replica_directory d st) (ri_path (rh_info (rs_replicas st ! j))) = rh_applied_file (rs_replicas st ! j)"
  using foldl_upd_distinct [OF assms, where g = "\<lambda>h. directory (rh_engine h)"] foldl_upd_distinct [OF assms, where g = rh_applied_file]
  by (simp_all add: replica_directory_def)

text \<open>An older index leaves more of the history to replay, with the same end.\<close>

lemma play_older:
  assumes "a' \<le> a" "play (drop a W) m = play W m0"
  shows "play (drop a' W) m = play W m0"
proof -
  let ?s = "take (a - a') (drop a' W)"
  have s: "drop a' W = ?s @ drop a W" using assms(1) by (metis append_take_drop_id drop_drop le_add_diff_inverse2)
  have W: "play W m0 = play (?s @ drop a W) (play (take a' W) m0)" by (metis append_take_drop_id play_append s)
  have "play (?s @ drop a W) m = play (?s @ drop a W) (play (take a' W) m0)"
    by (rule play_again) (use assms(2) W in simp)
  then show ?thesis using s W by simp
qed

subsection \<open>Opening again\<close>

definition replica_options_again :: "replica_options \<Rightarrow> replica_options \<Rightarrow> bool" where
  "replica_options_again o' o'' \<longleftrightarrow> ro_dir o'' = ro_dir o' \<and> ro_count o'' \<in> {0, ro_count o'} \<and> (ro_leader o'' < 0 \<or> ro_leader o'' = first_leader o')"

lemma replica_open_again:
  assumes m: "m = first_replication o'" "validate_replication m" "rd_manifest d = Json_file m" "ro_dir o' \<noteq> []" "replica_options_again o' o''"
    and st: "replica_inv F W st" "replica_files_ok (ro_dir o') (rm_replicas m) (first_leader o') st"
  shows "\<exists>st1 d1. replica_open None o'' (replica_directory d st) = (Inr st1, d1) \<and> rs_log st1 = rs_log st \<and> rs_commit st1 = rs_commit st
    \<and> rs_leader st1 = rs_leader st \<and> \<not> rs_closed st1
    \<and> list_all2 (\<lambda>h h1. rh_info h1 = rh_info h \<and> rh_applied h1 \<le> rh_applied h \<and> \<not> rh_paused h1 \<and> engine_inv (rh_engine h1)
         \<and> engine_view (rh_engine h1) = engine_view (rh_engine h) \<and> limit_ok (rh_engine h1)) (rs_replicas st) (rs_replicas st1)"
proof -
  let ?hs = "rs_replicas st" and ?d = "replica_directory d st" and ?rs = "rm_replicas m"
  have counts: "rm_count m = ro_count o'" "rm_leader m = first_leader o'" by (simp_all add: m(1) first_replication_def fresh_replication_def)
  have files: "rs_leader st = first_leader o'" "op_log_whole (rs_log st)" "load_index (rs_commit_file st) = rs_commit st"
      "length ?rs = length ?hs"
      "\<And>i. i < length ?hs \<Longrightarrow> rh_info (?hs ! i) = info_of (?rs ! i) \<and> en_opts (rh_engine (?hs ! i)) = engine_opts_at (ro_dir o') (rpe_path (?rs ! i))
        \<and> file_behind (?hs ! i)"
    using st(2) by (auto simp: replica_files_ok_def list_all2_conv_all_nth)
  have path: "ri_path (rh_info (?hs ! i)) = rpe_path (?rs ! i)" if "i < length ?hs" for i using files(5) [OF that] by (simp add: info_of_def)
  have paths: "map (\<lambda>h. ri_path (rh_info h)) ?hs = map rpe_path ?rs" by (rule nth_equalityI) (simp_all add: files(4) path)
  have dis: "distinct (map rpe_path ?rs)" by (rule replication_valid_paths [OF m(2)])
  note at = replica_directory_at [of st, unfolded paths, OF dis]
  have ninv: "engine_inv (rh_engine (?hs ! i))" if "i < length ?hs" for i
  proof (cases "ri_role (rh_info (?hs ! i)) = role_leader")
    case True
    then show ?thesis using st(1) that engine_ok_inv by (auto simp: replica_inv_def leader_ok_def)
  next
    case False
    then show ?thesis using replica_inv_log(4) [OF st(1)] that session.fok_inv by auto
  qed
  let ?P = "\<lambda>r e. \<exists>h \<in> set ?hs. ri_path (rh_info h) = rpe_path r \<and> engine_inv e \<and> engine_view e = engine_view (rh_engine h)
      \<and> en_opts e = engine_opts_at (ro_dir o') (rpe_path r)"
  have "\<forall>r \<in> set ?rs. \<exists>e d'. engine_open None (engine_opts_for (ro_dir o') (rpe_path r)) (rd_engines ?d (rpe_path r)) = (Inr e, d') \<and> ?P r e"
  proof
    fix r assume "r \<in> set ?rs"
    then obtain i where i: "i < length ?hs" "r = ?rs ! i" by (auto simp: in_set_conv_nth files(4))
    then show "\<exists>e d'. engine_open None (engine_opts_for (ro_dir o') (rpe_path r)) (rd_engines ?d (rpe_path r)) = (Inr e, d') \<and> ?P r e"
      using reopen_engine [OF m(4) ninv [OF i(1)], of "rpe_path r"] files(5) [OF i(1)] at(1) [OF i(1), of d] path [OF i(1)] nth_mem [OF i(1)]
      by metis
  qed
  from open_replicas_ok [OF dis this, of 0 "rd_applied ?d"] obtain hs D' where hs:
      "open_replicas None (ro_dir o') 0 ?rs (rd_applied ?d) (rd_engines ?d) = (Inr hs, D')"
      "list_all2 (\<lambda>r h. handle_opened (rd_applied ?d) r h \<and> ?P r (rh_engine h)) ?rs hs" by blast
  have len: "length hs = length ?hs" using list_all2_lengthD [OF hs(2)] files(4) by simp
  have h: "rh_info (hs ! i) = rh_info (?hs ! i) \<and> rh_applied (hs ! i) \<le> rh_applied (?hs ! i) \<and> \<not> rh_paused (hs ! i) \<and> engine_inv (rh_engine (hs ! i))
      \<and> engine_view (rh_engine (hs ! i)) = engine_view (rh_engine (?hs ! i)) \<and> limit_ok (rh_engine (hs ! i))" if i: "i < length ?hs" for i
  proof -
    have o: "handle_opened (rd_applied ?d) (?rs ! i) (hs ! i)" "?P (?rs ! i) (rh_engine (hs ! i))"
      using hs(2) i len by (auto simp: list_all2_conv_all_nth)
    obtain j where j: "j < length ?hs" "ri_path (rh_info (?hs ! j)) = rpe_path (?rs ! i)" "engine_inv (rh_engine (hs ! i))"
        "engine_view (rh_engine (hs ! i)) = engine_view (rh_engine (?hs ! j))" "limit_ok (rh_engine (hs ! i))"
      using o(2) by (auto simp: in_set_conv_nth limit_ok_def)
    have "map rpe_path ?rs ! j = map rpe_path ?rs ! i" using j(1,2) path [OF j(1)] i files(4) by simp
    then have "j = i" using dis j(1) i files(4) by (metis length_map nth_eq_iff_index_eq)
    then show ?thesis
      using o(1) j files(5) [OF i] at(2) [OF i, of d] path [OF i] by (simp add: handle_opened_def file_behind_def)
  qed
  have log: "open_op_log None (rd_log ?d) = (Inr (rs_log st), rd_log ?d)"
    using reopen_op_log [OF replica_inv_log(1) [OF st(1)] files(2)] st(1) by (simp add: replica_directory_def replica_inv_def log_ok_def)
  have man: "rd_manifest ?d = Json_file m" "load_index (rd_commit ?d) = rs_commit st" by (simp_all add: replica_directory_def m(3) files(3))
  define o3 where "o3 = (if ro_prefix o'' = [] then o''\<lparr>ro_prefix := default_replica_prefix\<rparr> else o'')
      \<lparr>ro_count := rm_count m, ro_leader := rm_leader m, ro_prefix := rm_prefix m\<rparr>"
  have o3: "ro_dir o3 = ro_dir o'" "ro_leader o3 = first_leader o'" using m(5) counts by (simp_all add: o3_def replica_options_again_def)
  have "replica_open None o'' ?d = open_with_manifest None o3 m ?d"
    using m(2,4,5) man(1) counts by (auto simp: replica_open_def read_replication_def replica_options_again_def o3_def Let_def)
  then have "replica_open None o'' ?d = (Inr \<lparr>rs_opts = o3, rs_replicas = hs, rs_log = rs_log st, rs_leader = rs_leader st,
      rs_commit = rs_commit st, rs_closed = False, rs_commit_file = rd_commit ?d\<rparr>, ?d\<lparr>rd_log := rd_log ?d, rd_engines := D'\<rparr>)"
    using log hs(1) o3 man(2) files(1) by (simp add: open_with_manifest_def)
  then show ?thesis using h len by (auto simp: list_all2_conv_all_nth)
qed

lemma recovered_loop:
  assumes "ops_numbered ol" "\<forall>op \<in> set (ol_ops ol). op_kind_ok op \<and> op_accepted op" "unat commit = length (ol_ops ol)"
    and "\<forall>h \<in> set hs. (ri_role (rh_info h) \<noteq> role_leader \<longrightarrow> recovering (ol_ops ol) h) \<and> limit_ok (rh_engine h) \<and> \<not> rh_paused h"
  shows "\<exists>hs'. replicate_loop (apply_with A) ol commit hs = (None, hs')
    \<and> list_all2 (\<lambda>h h'. if ri_role (rh_info h) = role_leader then h' = h
         else engine_life_ok 0 (play (map op_write (ol_ops ol)) Map.empty) (rh_engine h')) hs hs'"
proof -
  let ?L = "ol_ops ol"
  have fol: "\<forall>h \<in> set hs. ri_role (rh_info h) \<noteq> role_leader \<longrightarrow> recovering ?L h \<and> limit_ok (rh_engine h)"
    using assms(4) by blast
  obtain er hs' where r: "replicate_loop (apply_with A) ol commit hs = (er, hs')" by fastforce
  have er: "er = None" using recovery.replicate_loop_accepted [OF assms(1,2) fol, of A commit] r by simp
  have adv: "list_all2 (advanced recovering ?L) hs hs'"
    by (rule recovery.replicate_loop_advanced [OF r assms(1)]) (use assms(2) fol in simp_all)
  have set': "\<forall>h \<in> set hs'. settled commit h" using replicate_loop_none [OF r [unfolded er] assms(1)] assms(3) by simp
  have "if ri_role (rh_info (hs ! i)) = role_leader then hs' ! i = hs ! i
      else engine_life_ok 0 (play (map op_write ?L) Map.empty) (rh_engine (hs' ! i))" if i: "i < length hs" for i
  proof (cases "ri_role (rh_info (hs ! i)) = role_leader")
    case False
    have a: "advanced recovering ?L (hs ! i) (hs' ! i)" "recovering ?L (hs ! i)" "\<not> rh_paused (hs ! i)" "i < length hs'"
      using adv assms(4) i False by (auto simp: list_all2_conv_all_nth)
    then have "settled commit (hs' ! i)" using set' by simp
    then have "length ?L \<le> unat (rh_applied (hs' ! i))" "recovering ?L (hs' ! i)"
      using a False assms(3) by (auto simp: settled_def advanced_def word_le_nat_alt)
    then show ?thesis using False by (simp add: recovering_def engine_life_ok_def)
  qed (use adv i in \<open>auto simp: advanced_def list_all2_conv_all_nth\<close>)
  then show ?thesis using r er list_all2_lengthD [OF adv] by (auto simp: list_all2_conv_all_nth)
qed

text \<open>C19: a reopened store converges although \<open>APPLIED\<close> is saved at best effort. After any such run, with the saves
  of \<open>APPLIED\<close> failing as they like, close the store and open its directory again: the opening succeeds
  with the same commit index and the leader's reads are those of all the writes; \<open>ReplicateAll\<close> then
  replays what the followers' files do not account for, a second time if need be, returns without an error,
  and every follower answers as the leader.\<close>

theorem replica_reopen_catches_up:
  assumes "replica_open None o' empty_replica_disk = (Inr st0, d)" "replica_run c r ops st0 = Some st" "length ops \<le> 2 ^ 29"
    and "replica_options_again o' o''" "k \<noteq> []"
  defines "W \<equiv> concat (map writes_of ops)"
  shows "\<exists>st1 d1 st2. replica_open None o'' (replica_directory d (snd (replica_close st))) = (Inr st1, d1)
    \<and> rs_commit st1 = rs_commit st \<and> fst (replica_get k read_leader rid st1) = Inr (play W Map.empty k)
    \<and> replicate_all (apply_with A) st1 = (None, st2) \<and> fst (replica_get k read_leader rid st2) = Inr (play W Map.empty k)
    \<and> (\<forall>i < length (rs_replicas st). int i \<noteq> rs_leader st \<longrightarrow>
          fst (replica_get k read_follower (int i) st2) = Inr (play W Map.empty k))"
proof -
  note first = replica_open_first [OF assms(1)]
  obtain F where inv: "F + length W \<le> 2 ^ 29" "replica_inv F W st"
    using replica_session_inv [OF assms(1-3)] assms(3) le_trans unfolding W_def by blast
  have files: "replica_files_ok (ro_dir o') (rm_replicas (first_replication o')) (first_leader o') st"
    by (rule replica_run_files [OF first(2,1) _ assms(2)]) (use assms(3) in simp)
  obtain st1 d1 where o: "replica_open None o'' (replica_directory d st) = (Inr st1, d1)" "rs_log st1 = rs_log st" "rs_commit st1 = rs_commit st"
      "rs_leader st1 = rs_leader st" "\<not> rs_closed st1"
      "list_all2 (\<lambda>h h1. rh_info h1 = rh_info h \<and> rh_applied h1 \<le> rh_applied h \<and> \<not> rh_paused h1 \<and> engine_inv (rh_engine h1)
         \<and> engine_view (rh_engine h1) = engine_view (rh_engine h) \<and> limit_ok (rh_engine h1)) (rs_replicas st) (rs_replicas st1)"
    using replica_open_again [OF refl first(4,3,5) assms(4) inv(2) files] by blast
  note log = replica_inv_log [OF inv(2)]
  have len: "length (rs_replicas st1) = length (rs_replicas st)" using list_all2_lengthD [OF o(6)] by simp
  let ?L = "ol_ops (rs_log st)"
  obtain l where l: "leader_ok F W st l" using inv(2) by (auto simp: replica_inv_def)
  then have li: "leader_index st = Some l" "l < length (rs_replicas st)" using leader_index_bound by (auto simp: leader_ok_def)
  have li1: "leader_index st1 = Some l" using li(1) by (simp add: leader_index_def o(4) len split: if_splits)
  have h1: "rh_info (rs_replicas st1 ! i) = rh_info (rs_replicas st ! i)" "rh_applied (rs_replicas st1 ! i) \<le> rh_applied (rs_replicas st ! i)"
    "\<not> rh_paused (rs_replicas st1 ! i)" "engine_inv (rh_engine (rs_replicas st1 ! i))" "limit_ok (rh_engine (rs_replicas st1 ! i))"
    "engine_view (rh_engine (rs_replicas st1 ! i)) = engine_view (rh_engine (rs_replicas st ! i))" if "i < length (rs_replicas st)" for i
    using o(6) that by (simp_all add: list_all2_conv_all_nth)
  have rec: "recovering ?L (rs_replicas st1 ! i)" if i: "i < length (rs_replicas st)" "ri_role (rh_info (rs_replicas st1 ! i)) \<noteq> role_leader" for i
  proof -
    let ?a = "unat (rh_applied (rs_replicas st ! i))"
    have f: "follower_ok F ?L (rs_replicas st ! i)" using log(4) i h1(1) [OF i(1)] by auto
    then have v: "engine_view (rh_engine (rs_replicas st ! i)) = play (take ?a W) Map.empty" "?a \<le> length W"
      using log(2,7) by (simp_all add: follower_ok_def engine_ok_def session_inv_def)
    let ?a1 = "unat (rh_applied (rs_replicas st1 ! i))"
    have a1: "?a1 \<le> ?a" using h1(2) [OF i(1)] by (simp add: word_le_nat_alt)
    have "play (drop ?a W) (play (take ?a W) Map.empty) = play W Map.empty" by (metis append_take_drop_id play_append)
    then have "play (drop ?a1 W) (play (take ?a W) Map.empty) = play W Map.empty" by (rule play_older [OF a1])
    then show ?thesis using a1 h1(4,6) [OF i(1)] v log(2,7) by (simp add: recovering_def)
  qed
  have fol: "\<forall>h \<in> set (rs_replicas st1). (ri_role (rh_info h) \<noteq> role_leader \<longrightarrow> recovering ?L h) \<and> limit_ok (rh_engine h) \<and> \<not> rh_paused h"
    using rec h1(3,5) len by (auto simp: in_set_conv_nth)
  have "unat (rs_commit st) = length ?L" using log(2,5) by simp
  from recovered_loop [OF log(1,3) this fol, of A] obtain hs where
    r: "replicate_loop (apply_with A) (rs_log st) (rs_commit st) (rs_replicas st1) = (None, hs)" and
    hs2: "list_all2 (\<lambda>h h'. if ri_role (rh_info h) = role_leader then h' = h
         else engine_life_ok 0 (play (map op_write ?L) Map.empty) (rh_engine h')) (rs_replicas st1) hs" by blast
  have len2: "length hs = length (rs_replicas st)" using list_all2_lengthD [OF hs2] len by simp
  have hs: "if ri_role (rh_info (rs_replicas st1 ! i)) = role_leader then hs ! i = rs_replicas st1 ! i
      else engine_life_ok 0 (play W Map.empty) (rh_engine (hs ! i))" if "i < length (rs_replicas st)" for i
    using list_all2_nthD [OF hs2, of i, unfolded log(7)] that len by simp
  let ?st2 = "st1\<lparr>rs_replicas := hs\<rparr>"
  have all: "replicate_all (apply_with A) st1 = (None, ?st2)" using r o(2,3,5) by (simp add: replicate_all_def)
  have "ri_role (rh_info (rs_replicas st1 ! l)) = role_leader" using l li(2) h1(1) [OF li(2)] by (simp add: leader_ok_def)
  then have lead: "engine_life_ok 0 (play W Map.empty) (rh_engine (rs_replicas st1 ! l))" "hs ! l = rs_replicas st1 ! l"
    using l hs [OF li(2)] h1(4,6) [OF li(2)] by (simp_all add: leader_ok_def engine_life_ok_def engine_ok_def session_inv_def)
  have get: "fst (replica_get k mode rd s) = Inr (play W Map.empty k)"
    if "engine_life_ok 0 (play W Map.empty) (rh_engine (rs_replicas s ! i))" "select_replica mode rd s = Inr i" "\<not> rs_closed s" for s mode rd i
    using engine_life.get_ok [OF that(1), of k] that(2,3) assms(5) by (auto simp: replica_get_def)
  have g1: "fst (replica_get k read_leader rid st1) = Inr (play W Map.empty k)"
    by (rule get [OF lead(1) select_leader [OF li1] o(5)])
  have "leader_index ?st2 = Some l" using li1 by (simp add: leader_index_def len len2 split: if_splits)
  then have g2: "fst (replica_get k read_leader rid ?st2) = Inr (play W Map.empty k)"
    using lead o(5) by (intro get [of ?st2 l]) (simp_all add: select_leader)
  have "fst (replica_get k read_follower (int i) ?st2) = Inr (play W Map.empty k)"
    if i: "i < length (rs_replicas st)" "int i \<noteq> rs_leader st" for i
  proof -
    have "engine_life_ok 0 (play W Map.empty) (rh_engine (hs ! i))"
      using hs [OF i(1)] follower_role(1) [OF inv(2) i] h1(1) [OF i(1)] by simp
    moreover have "select_replica read_follower (int i) ?st2 = Inr i"
      by (rule select_follower) (use i len2 o(4) in simp_all)
    ultimately show ?thesis using o(5) by (intro get [of ?st2 i]) simp_all
  qed
  then show ?thesis using o(1,3) g1 g2 all by (simp add: replica_directory_close)
qed


theorem replica_session_refines_history_witness:
  "\<exists>st0 d st. replica_open None demo_replica_opts empty_replica_disk = (Inr st0, d)
    \<and> replica_run (\<lambda>_ _. 1) (\<lambda>_ _. 1) [R_put [107] [1] False] st0 = Some st
    \<and> fst (replica_get [107] read_leader 0 st) = Inr (Some [1]) \<and> unat (rs_commit st) = 1"
proof -
  obtain st0 d st where r: "replica_open None demo_replica_opts empty_replica_disk = (Inr st0, d)"
    "replica_run (\<lambda>_ _. 1) (\<lambda>_ _. 1) [R_put [107] [1] False] st0 = Some st" by (rule demo_replica_run)
  show ?thesis using replica_session_refines_history [OF r, of "[107]" 0 "[]" "[]"] r by auto
qed

theorem replica_followers_catch_up_witness:
  "\<exists>st0 d st st'. replica_open None demo_replica_opts empty_replica_disk = (Inr st0, d)
    \<and> replica_run (\<lambda>_ _. 1) (\<lambda>_ _. 1) [R_put [107] [1] False] st0 = Some st
    \<and> replicate_all (apply_with (\<lambda>_ _. False)) st = (None, st')
    \<and> fst (replica_get [107] read_follower 1 st') = fst (replica_get [107] read_leader 0 st)"
proof -
  obtain st0 d st where r: "replica_open None demo_replica_opts empty_replica_disk = (Inr st0, d)"
    "replica_run (\<lambda>_ _. 1) (\<lambda>_ _. 1) [R_put [107] [1] False] st0 = Some st"
    "length (rs_replicas st) = 3" "rs_leader st = 0" "\<forall>h \<in> set (rs_replicas st). \<not> rh_paused h" by (rule demo_replica_run)
  have p: "\<not> rh_paused (rs_replicas st ! 1)" using r(3,5) by simp
  obtain st' where "replicate_all (apply_with (\<lambda>_ _. False)) st = (None, st')"
      "\<forall>i < length (rs_replicas st). int i \<noteq> rs_leader st \<longrightarrow> fst (replica_get [107] read_follower (int i) st') =
          (if rh_paused (rs_replicas st ! i) then fst (replica_get [107] read_follower (int i) st)
           else fst (replica_get [107] read_leader 0 st))"
    using replica_followers_catch_up [OF r(1,2), of "[107]" "\<lambda>_ _. False" 0] by auto
  moreover from this(2) have "fst (replica_get [107] read_follower (int 1) st') = fst (replica_get [107] read_leader 0 st)"
    by (rule allE [where x = 1]) (use p r(3,4) in simp)
  ultimately show ?thesis using r(1,2) by auto
qed

theorem replica_reopen_catches_up_witness:
  "\<exists>st0 d st st1 d1 st2. replica_open None demo_replica_opts empty_replica_disk = (Inr st0, d)
    \<and> replica_run (\<lambda>_ _. 1) (\<lambda>_ _. 1) [R_put [107] [1] False] st0 = Some st
    \<and> replica_open None (demo_replica_opts\<lparr>ro_count := 0\<rparr>) (replica_directory d (snd (replica_close st))) = (Inr st1, d1)
    \<and> replicate_all (apply_with (\<lambda>_ _. True)) st1 = (None, st2)
    \<and> fst (replica_get [107] read_follower 1 st2) = Inr (Some [1])"
proof -
  obtain st0 d st where r: "replica_open None demo_replica_opts empty_replica_disk = (Inr st0, d)"
    "replica_run (\<lambda>_ _. 1) (\<lambda>_ _. 1) [R_put [107] [1] False] st0 = Some st"
    "length (rs_replicas st) = 3" "rs_leader st = 0" by (rule demo_replica_run)
  have o: "replica_options_again demo_replica_opts (demo_replica_opts\<lparr>ro_count := 0\<rparr>)"
    by (simp add: replica_options_again_def demo_replica_opts_def)
  obtain st1 d1 st2 where s: "replica_open None (demo_replica_opts\<lparr>ro_count := 0\<rparr>) (replica_directory d (snd (replica_close st))) = (Inr st1, d1)"
      "replicate_all (apply_with (\<lambda>_ _. True)) st1 = (None, st2)"
      "\<forall>i < length (rs_replicas st). int i \<noteq> rs_leader st \<longrightarrow>
          fst (replica_get [107] read_follower (int i) st2) = Inr (play [([107], Some [1])] Map.empty [107])"
    using replica_reopen_catches_up [OF r(1,2) _ o, of "[107]" 0 "\<lambda>_ _. True"] by auto
  from s(3) [rule_format, of 1] have "fst (replica_get [107] read_follower 1 st2) = Inr (Some [1])" using r(3,4) by simp
  then show ?thesis using r(1,2) s(1,2) by blast
qed

end
