(* ===== verification/ReplicaRefused.thy ===== *)
theory ReplicaRefused
  imports ReplicaSpec
begin

text \<open>
  A write that the leader's engine refuses stays in the operation log; the next acknowledged write commits past
  it, and no follower can apply it: the followers are blocked for good.
\<close>

section \<open>A refused write\<close>

lemma engine_write_too_large:
  assumes "engine_inv e" "limit_ok e" "k \<noteq> []" "17 + length k + length x > engine_record_limit"
  shows "engine_write k (Some x) wo s e = (Some (EErrWal WErrRecordTooLarge), e)"
  using assms
  by (auto simp: engine_write_eq wal_append_def write_record_def validate_record_def limit_ok_def engine_inv_def Let_def)

text \<open>The claim that holds of followers while the operation at \<open>p\<close> is one their engines refuse.\<close>

definition blocked_at :: "nat \<Rightarrow> nat \<Rightarrow> operation list \<Rightarrow> replica_handle \<Rightarrow> bool" where
  "blocked_at F p L h \<longleftrightarrow> follower_ok F L h \<and> unat (rh_applied h) \<le> p \<and> limit_ok (rh_engine h)
     \<and> op_type (L ! p) = op_type_put \<and> 17 + length (op_key (L ! p)) + length (op_value (L ! p)) > engine_record_limit"

interpretation blocked: follower_claim "blocked_at F p" for F p
proof
  fix L op e and h h' :: replica_handle
  show "blocked_at F p L h \<Longrightarrow> unat (rh_applied h) \<le> length L" "blocked_at F p L h \<Longrightarrow> engine_inv (rh_engine h)"
    using session.fok_inv by (auto simp: blocked_at_def follower_ok_def)
  let ?a = "unat (rh_applied h)"
  assume f: "blocked_at F p L h" and a: "?a < length L" "op = L ! ?a" "unat (op_index op) = Suc ?a"
    and w: "engine_write (fst (op_write op)) (snd (op_write op)) Write_ok True (rh_engine h) = (None, e)"
    and h': "rh_engine h' = e" "rh_applied h' = op_index op"
  have inv: "engine_inv (rh_engine h)" using f session.fok_inv by (auto simp: blocked_at_def)
  have "?a \<noteq> p"
  proof
    assume "?a = p"
    then have "op_write op = (op_key op, Some (op_value op))" "17 + length (op_key op) + length (op_value op) > engine_record_limit"
      using f a(2) by (simp_all add: blocked_at_def op_write_def)
    then show False using engine_write_fits(2) [OF inv w] f by (simp add: blocked_at_def limit_ok_def)
  qed
  moreover have "follower_ok F L h'" using f by (intro session.fok_next [OF _ a w h']) (simp add: blocked_at_def)
  moreover have "en_opts e = en_opts (rh_engine h)" using engine_write_opts w by (metis snd_conv)
  ultimately show "blocked_at F p L h'" using f a(3) by (simp add: blocked_at_def h' limit_ok_def)
qed

text \<open>\<open>blocked_store\<close>: the log holds such an operation below the commit index, and no follower is past it.\<close>

definition blocked_store :: "nat \<Rightarrow> nat \<Rightarrow> replica_store \<Rightarrow> bool" where
  "blocked_store F p st \<longleftrightarrow> \<not> rs_closed st \<and> ops_numbered (rs_log st) \<and> (\<forall>op \<in> set (ol_ops (rs_log st)). op_kind_ok op)
     \<and> p < unat (rs_commit st) \<and> unat (rs_commit st) \<le> length (ol_ops (rs_log st))
     \<and> (\<forall>h \<in> set (rs_replicas st). ri_role (rh_info h) \<noteq> role_leader \<longrightarrow> blocked_at F p (ol_ops (rs_log st)) h)"

lemma blocked_replicate_all:
  assumes "blocked_store F p st" "replicate_all (apply_with A) st = (er, st')"
  shows "blocked_store F p st'" "rs_log st' = rs_log st" "rs_leader st' = rs_leader st"
    "list_all2 (advanced (blocked_at F p) (ol_ops (rs_log st))) (rs_replicas st) (rs_replicas st')"
    "\<exists>h \<in> set (rs_replicas st). ri_role (rh_info h) \<noteq> role_leader \<and> \<not> rh_paused h \<Longrightarrow> er \<noteq> None"
proof -
  let ?L = "ol_ops (rs_log st)"
  have st: "\<not> rs_closed st" "ops_numbered (rs_log st)" "\<forall>op \<in> set ?L. op_kind_ok op" "p < unat (rs_commit st)" "unat (rs_commit st) \<le> length ?L"
    "\<forall>h \<in> set (rs_replicas st). ri_role (rh_info h) \<noteq> role_leader \<longrightarrow> blocked_at F p ?L h"
    using assms(1) by (auto simp: blocked_store_def)
  obtain hs where r: "replicate_loop (apply_with A) (rs_log st) (rs_commit st) (rs_replicas st) = (er, hs)" and st': "st' = st\<lparr>rs_replicas := hs\<rparr>"
    using assms(2) st(1) by (auto simp: replicate_all_def split: prod.splits)
  have adv: "list_all2 (advanced (blocked_at F p) ?L) (rs_replicas st) hs"
    by (rule blocked.replicate_loop_advanced [OF r st(2,3,6)])
  then show "list_all2 (advanced (blocked_at F p) ?L) (rs_replicas st) (rs_replicas st')" by (simp add: st')
  show "rs_log st' = rs_log st" "rs_leader st' = rs_leader st" by (simp_all add: st')
  have fol: "\<forall>h \<in> set hs. ri_role (rh_info h) \<noteq> role_leader \<longrightarrow> blocked_at F p ?L h"
    by (rule blocked.advanced_followers [OF adv st(6)])
  then show "blocked_store F p st'" using st by (simp add: blocked_store_def st')
  show "er \<noteq> None" if ex: "\<exists>h \<in> set (rs_replicas st). ri_role (rh_info h) \<noteq> role_leader \<and> \<not> rh_paused h"
  proof
    assume "er = None"
    then have s: "\<forall>h \<in> set hs. settled (rs_commit st) h" using replicate_loop_none r st(2,5) by blast
    obtain i where i: "i < length (rs_replicas st)" "ri_role (rh_info (rs_replicas st ! i)) \<noteq> role_leader" "\<not> rh_paused (rs_replicas st ! i)"
      using ex by (auto simp: in_set_conv_nth)
    then have "advanced (blocked_at F p) ?L (rs_replicas st ! i) (hs ! i)" "hs ! i \<in> set hs"
      using adv by (auto simp: list_all2_conv_all_nth)
    then show False
      using s fol i st(4) by (fastforce simp: settled_def advanced_def blocked_at_def word_le_nat_alt)
  qed
qed

lemma refused_put:
  assumes "replica_inv F W st" "k \<noteq> []" "length k + length v + 21 < 2 ^ 32" "17 + length k + length v > engine_record_limit"
  shows "\<exists>ol. op_append Write_ok op_type_put k v (rs_log st) = (Inr (ol_last (rs_log st) + 1), ol)
    \<and> replica_put k v good_write_io st = (Inl (RpErrEngine (EErrWal WErrRecordTooLarge)), st\<lparr>rs_log := ol\<rparr>)"
proof -
  obtain l where l: "leader_ok F W st l" using assms(1) by (auto simp: replica_inv_def)
  then have li: "leader_index st = Some l" "l < length (rs_replicas st)" using leader_index_bound by (auto simp: leader_ok_def)
  have e: "engine_inv (rh_engine (rs_replicas st ! l))" "limit_ok (rh_engine (rs_replicas st ! l))"
    using l assms(1) li(2) engine_ok_inv by (auto simp: leader_ok_def replica_inv_def)
  have c: "\<not> rs_closed st" "\<not> ol_closed (rs_log st)" using assms(1) by (auto simp: replica_inv_def log_ok_def)
  obtain ol where ol: "op_append Write_ok op_type_put k v (rs_log st) = (Inr (ol_last (rs_log st) + 1), ol)"
    using op_append_succeeds [OF c(2) assms(3)] by blast
  have "set_replica l (\<lambda>h. h\<lparr>rh_engine := rh_engine (rs_replicas st ! l)\<rparr>) (st\<lparr>rs_log := ol\<rparr>) = st\<lparr>rs_log := ol\<rparr>"
    by (simp add: set_replica_def)
  then have "replica_write k (Some v) good_write_io st = (Inl (RpErrEngine (EErrWal WErrRecordTooLarge)), st\<lparr>rs_log := ol\<rparr>)"
    using ol li(1) c(1) assms(2) engine_write_too_large [OF e assms(2,4)]
    by (simp add: replica_write_eq good_write_io_def write_type_def write_value_def)
  then show ?thesis using ol by (simp add: replica_write_def)
qed

lemma write_after_refused:
  assumes "replica_inv F W st" "F + length W + 2 \<le> 2 ^ 29" "op_append Write_ok op_type_put k v (rs_log st) = (Inr j, ol)"
    and "k \<noteq> []" "17 + length k + length v > engine_record_limit"
    and "replica_write k' v' good_write_io (st\<lparr>rs_log := ol\<rparr>) = (Inr idx, st2)"
  shows "blocked_store F (length W) st2" "rs_leader st2 = rs_leader st" "unat idx = length W + 2"
    "map op_write (ol_ops (rs_log st2)) = W @ [(k, Some v), (k', v')]"
    "\<exists>l e. l < length (rs_replicas st) \<and> leader_ok F W st l \<and> rs_replicas st2 = (rs_replicas st)[l := (rs_replicas st ! l)
        \<lparr>rh_engine := e, rh_applied := idx, rh_applied_file := Some (index_text idx)\<rparr>]
      \<and> engine_ok (F + length W + 1) (play (W @ [(k', v')]) Map.empty) e"
proof -
  let ?L = "ol_ops (rs_log st)" and ?st1 = "st\<lparr>rs_log := ol\<rparr>"
  note log = replica_inv_log [OF assms(1)]
  obtain l where l: "leader_ok F W st l" using assms(1) by (auto simp: replica_inv_def)
  then have li: "leader_index st = Some l" "l < length (rs_replicas st)" using leader_index_bound by (auto simp: leader_ok_def)
  have "Suc (length ?L) < 2 ^ 64 - 1" using assms(2) log(2) by simp
  note ap = op_append_ok [OF log(1) this assms(3)]
  obtain ol2 e where w: "op_append Write_ok (write_type v') k' (write_value v') ol = (Inr idx, ol2)"
      "engine_write k' v' Write_ok True (rh_engine (rs_replicas st ! l)) = (None, e)"
      "commit_write good_write_io l idx (set_replica l (\<lambda>h. h\<lparr>rh_engine := e\<rparr>) (?st1\<lparr>rs_log := ol2\<rparr>)) = (Inr idx, st2)"
  proof (rule replica_write_Inr [OF assms(6)])
    show "leader_index ?st1 = Some l" using li(1) by simp
  qed (rule that; simp add: good_write_io_def)
  have "Suc (length (ol_ops ol)) < 2 ^ 64 - 1" using assms(2) log(2) by (simp add: ap(1))
  note ap2 = op_append_ok [OF ap(2) this w(1)]
  let ?bad = "\<lparr>op_index = j, op_type = op_type_put, op_key = k, op_value = v\<rparr>"
  let ?op = "\<lparr>op_index = idx, op_type = write_type v', op_key = k', op_value = write_value v'\<rparr>"
  have L: "ol_ops ol2 = ?L @ [?bad, ?op]" using ap(1) ap2(1) by simp
  show idx: "unat idx = length W + 2" using ap2(3) log(2) by (simp add: ap(1))
  have st2: "rs_replicas st2 = (rs_replicas st)[l := (rs_replicas st ! l)\<lparr>rh_engine := e, rh_applied := idx, rh_applied_file := Some (index_text idx)\<rparr>]"
      "rs_log st2 = ol2" "rs_leader st2 = rs_leader st" "rs_commit st2 = idx" "\<not> rs_closed st2"
    using w(3) li(2) log(6) by (auto simp: commit_write_def set_replica_def save_applied_def good_write_io_def)
  show "rs_leader st2 = rs_leader st" by (rule st2)
  show "map op_write (ol_ops (rs_log st2)) = W @ [(k, Some v), (k', v')]"
    using log(7) by (simp add: st2 L op_write_of) (simp add: op_write_def)
  have bad: "op_kind_ok ?bad" by (simp add: op_kind_ok_def)
  have "engine_ok (F + length W + 1) ((play W Map.empty)(k' := v')) e"
    using engine_kv.upd_ok [OF _ _ w(2)] l assms(2) by (simp add: leader_ok_def)
  then show "\<exists>l e. l < length (rs_replicas st) \<and> leader_ok F W st l \<and> rs_replicas st2 = (rs_replicas st)[l := (rs_replicas st ! l)
        \<lparr>rh_engine := e, rh_applied := idx, rh_applied_file := Some (index_text idx)\<rparr>]
      \<and> engine_ok (F + length W + 1) (play (W @ [(k', v')]) Map.empty) e"
    using li(2) l st2(1) by (intro exI [of _ l] exI [of _ e]) simp
  have "blocked_at F (length W) (ol_ops ol2) h" if "follower_ok F ?L h" "limit_ok (rh_engine h)" for h
    using that assms(2,5) log(2) by (simp add: blocked_at_def follower_ok_def L nth_append)
  then have "\<forall>h \<in> set (rs_replicas st2). ri_role (rh_info h) \<noteq> role_leader \<longrightarrow> blocked_at F (length W) (ol_ops ol2) h"
    using li(2) l log(4) by (force simp: st2(1) leader_ok_def dest!: set_update_subset_insert [THEN subsetD])
  then show "blocked_store F (length W) st2"
    using log(2,3) ap2(2) bad idx by (simp add: blocked_store_def st2 L op_kind_of)
qed

text \<open>Repeated passes.\<close>

definition passes :: "(nat \<Rightarrow> u64 \<Rightarrow> bool) \<Rightarrow> nat \<Rightarrow> replica_store \<Rightarrow> replica_store" where
  "passes A n st = ((\<lambda>s. snd (replicate_all (apply_with A) s)) ^^ n) st"

lemma blocked_passes:
  assumes "blocked_store F p st"
  shows "blocked_store F p (passes A n st) \<and> rs_log (passes A n st) = rs_log st \<and> rs_leader (passes A n st) = rs_leader st
    \<and> list_all2 (advanced (blocked_at F p) (ol_ops (rs_log st))) (rs_replicas st) (rs_replicas (passes A n st))"
proof (induction n)
  case (Suc n)
  obtain er st' where r: "replicate_all (apply_with A) (passes A n st) = (er, st')" by fastforce
  then have "passes A (Suc n) st = st'" by (simp add: passes_def)
  then show ?case
    using blocked_replicate_all(1-4) [OF conjunct1 [OF Suc] r] Suc advanced_list_trans by auto
qed (use assms in \<open>simp add: passes_def list_all2_refl\<close>)

text \<open>C22: a refused write blocks the followers. A \<open>Put\<close> too large for the engine's log returns an error, and
  the code takes its log record to be invisible; but the next acknowledged write commits past it, and from
  then on every \<open>ReplicateAll\<close> fails as long as some follower is not paused, and no follower ever shows
  the new write, however often the passes are repeated, though the leader does.\<close>

theorem replica_refused_write_blocks_followers:
  assumes "replica_open None o' empty_replica_disk = (Inr st0, d)" "replica_run c r ops st0 = Some st" "length ops + 2 \<le> 2 ^ 29"
    and "k \<noteq> []" "length k + length v + 21 < 2 ^ 32" "17 + length k + length v > 2 ^ 26"
    and "replica_put k v good_write_io st = (res, st1)" "replica_put k' v' good_write_io st1 = (Inr idx, st2)" "x \<noteq> []"
  defines "W \<equiv> concat (map writes_of ops)"
  shows "res = Inl (RpErrEngine (EErrWal WErrRecordTooLarge))
    \<and> fst (replica_get x read_leader rid st2) = Inr (play (W @ [(k', Some v')]) Map.empty x)
    \<and> ((\<exists>i < length (rs_replicas st). int i \<noteq> rs_leader st \<and> \<not> rh_paused (rs_replicas st ! i)) \<longrightarrow>
        fst (replicate_all (apply_with A) (passes A n st2)) \<noteq> None)
    \<and> (\<forall>i < length (rs_replicas st). int i \<noteq> rs_leader st \<longrightarrow>
        (\<exists>j \<le> length W. fst (replica_get x read_follower (int i) (passes A n st2)) = Inr (play (take j W) Map.empty x)))"
proof -
  have "length ops \<le> 2 ^ 29" using assms(3) by simp
  then obtain F where inv: "replica_inv F W st" "F + length W \<le> length ops"
    using replica_session_inv [OF assms(1,2)] unfolding W_def by blast
  then have F: "F + length W + 2 \<le> 2 ^ 29" using assms(3) by simp
  have big: "17 + length k + length v > engine_record_limit" using assms(6) by (simp add: engine_record_limit_def)
  obtain ol where ol: "op_append Write_ok op_type_put k v (rs_log st) = (Inr (ol_last (rs_log st) + 1), ol)"
      "res = Inl (RpErrEngine (EErrWal WErrRecordTooLarge))" "st1 = st\<lparr>rs_log := ol\<rparr>"
    using refused_put [OF inv(1) assms(4,5) big] assms(7) by auto
  have "replica_write k' (Some v') good_write_io (st\<lparr>rs_log := ol\<rparr>) = (Inr idx, st2)"
    using assms(8) by (simp add: replica_write_def ol(3))
  note w = write_after_refused [OF inv(1) F ol(1) assms(4) big this]
  obtain l e where l: "l < length (rs_replicas st)" "leader_ok F W st l" "rs_replicas st2 = (rs_replicas st)[l := (rs_replicas st ! l)
        \<lparr>rh_engine := e, rh_applied := idx, rh_applied_file := Some (index_text idx)\<rparr>]"
      "engine_ok (F + length W + 1) (play (W @ [(k', Some v')]) Map.empty) e" using w(5) by blast
  let ?p = "passes A n st2"
  note pa = blocked_passes [OF w(1), of A n]
  have ll: "rs_leader st = int l" using l(2) by (auto simp: leader_ok_def leader_index_def split: if_splits)
  have len: "length (rs_replicas ?p) = length (rs_replicas st)" using pa l(3) by (metis length_list_update list_all2_lengthD)
  have l2: "leader_index st2 = Some l" using ll l(1) by (simp add: leader_index_def w(2) l(3))
  have e: "rh_engine (rs_replicas st2 ! l) = e" using l(1) by (simp add: l(3))
  have "\<not> rs_closed st2" using w(1) by (simp add: blocked_store_def)
  then have "fst (replica_get x read_leader rid st2) = Inr (play (W @ [(k', Some v')]) Map.empty x)"
    by (intro replica_reads(1) [OF l(4) [folded e] select_leader [OF l2] _ assms(9)])
  moreover have h: "rh_info (rs_replicas ?p ! i) = rh_info (rs_replicas st ! i)" "rh_paused (rs_replicas ?p ! i) = rh_paused (rs_replicas st ! i)"
      "ri_role (rh_info (rs_replicas st ! i)) \<noteq> role_leader" if "i < length (rs_replicas st)" "int i \<noteq> rs_leader st" for i
    using pa that l ll len by (auto simp: list_all2_conv_all_nth advanced_def nth_list_update leader_ok_def)
  moreover have "\<exists>j \<le> length W. fst (replica_get x read_follower (int i) ?p) = Inr (play (take j W) Map.empty x)"
    if i: "i < length (rs_replicas st)" "int i \<noteq> rs_leader st" for i
  proof -
    have b: "blocked_at F (length W) (ol_ops (rs_log st2)) (rs_replicas ?p ! i)"
      using pa h(1,3) [OF i] i(1) len by (auto simp: blocked_store_def)
    let ?j = "unat (rh_applied (rs_replicas ?p ! i))"
    have "engine_ok (F + ?j) (play (take ?j W) Map.empty) (rh_engine (rs_replicas ?p ! i))" "?j \<le> length W"
      using b w(4) by (auto simp: blocked_at_def follower_ok_def)
    then show ?thesis
      using replica_reads(1) [OF _ select_follower, of _ _ ?p i x] i pa w(1,2) len assms(9) by (auto simp: blocked_store_def)
  qed
  moreover have "fst (replicate_all (apply_with A) ?p) \<noteq> None"
    if "i < length (rs_replicas st)" "int i \<noteq> rs_leader st" "\<not> rh_paused (rs_replicas st ! i)" for i
  proof -
    obtain er st' where r: "replicate_all (apply_with A) ?p = (er, st')" by fastforce
    have "rs_replicas ?p ! i \<in> set (rs_replicas ?p)" using that(1) len by simp
    moreover have "ri_role (rh_info (rs_replicas ?p ! i)) \<noteq> role_leader \<and> \<not> rh_paused (rs_replicas ?p ! i)"
      using h [OF that(1,2)] that(3) by simp
    ultimately show ?thesis using blocked_replicate_all(5) [OF conjunct1 [OF pa] r] by (simp add: r) blast
  qed
  ultimately show ?thesis using ol(2) by blast
qed

lemma op_append_closed: "ol_closed (snd (op_append w t k v ol)) = ol_closed ol"
  by (simp add: op_append_def Let_def split: option.split)

lemma put_after_log:
  assumes "replica_inv F W st" "k \<noteq> []" "length k + length x \<le> 1000" "ol_closed ol = ol_closed (rs_log st)"
  shows "\<exists>idx st'. replica_put k x good_write_io (st\<lparr>rs_log := ol\<rparr>) = (Inr idx, st')"
proof -
  obtain l where l: "leader_ok F W st l" using assms(1) by (auto simp: replica_inv_def)
  have li: "leader_index st = Some l" using l by (simp add: leader_ok_def)
  have e: "engine_inv (rh_engine (rs_replicas st ! l))" "limit_ok (rh_engine (rs_replicas st ! l))"
    using assms(1) leader_index_bound [OF li] replica_inv_open by (auto simp: replica_inv_def)
  have "\<not> ol_closed ol" using assms(1,4) by (auto simp: replica_inv_def log_ok_def)
  then obtain ol' where ol: "op_append Write_ok op_type_put k x ol = (Inr (ol_last ol + 1), ol')"
    using op_append_succeeds assms(3) by fastforce
  obtain e' where "engine_write k (Some x) Write_ok True (rh_engine (rs_replicas st ! l)) = (None, e')"
    using engine_write_succeeds [OF e(1) assms(2), of "Some x"] e(2) assms(3) by (auto simp: limit_ok_def engine_record_limit_def)
  then have "\<exists>st'. replica_write k (Some x) good_write_io (st\<lparr>rs_log := ol\<rparr>) = (Inr (ol_last ol + 1), st')"
    using ol li assms(1,2)
    by (simp add: replica_write_eq good_write_io_def commit_write_def write_type_def write_value_def replica_inv_def)
  then show ?thesis by (auto simp: replica_write_def)
qed

theorem replica_refused_write_blocks_followers_witness:
  "\<exists>st0 d st st1 idx st2. replica_open None demo_replica_opts empty_replica_disk = (Inr st0, d)
    \<and> replica_run (\<lambda>_ _. 1) (\<lambda>_ _. 1) [R_put [107] [1] False] st0 = Some st
    \<and> replica_put [107] (replicate (2 ^ 26) 0) good_write_io st = (Inl (RpErrEngine (EErrWal WErrRecordTooLarge)), st1)
    \<and> replica_put [107] [2] good_write_io st1 = (Inr idx, st2)
    \<and> fst (replica_get [107] read_leader 0 st2) = Inr (Some [2])
    \<and> fst (replicate_all (apply_with (\<lambda>_ _. True)) (passes (\<lambda>_ _. True) 5 st2)) \<noteq> None"
proof -
  obtain st0 d st where r: "replica_open None demo_replica_opts empty_replica_disk = (Inr st0, d)"
    "replica_run (\<lambda>_ _. 1) (\<lambda>_ _. 1) [R_put [107] [1] False] st0 = Some st" "replica_inv 0 [([107], Some [1])] st"
    "length (rs_replicas st) = 3" "rs_leader st = 0" "\<forall>h \<in> set (rs_replicas st). \<not> rh_paused h" by (rule demo_replica_run)
  let ?v = "replicate (2 ^ 26) (0 :: 8 word)"
  obtain ol where p: "op_append Write_ok op_type_put [107] ?v (rs_log st) = (Inr (ol_last (rs_log st) + 1), ol)"
      "replica_put [107] ?v good_write_io st = (Inl (RpErrEngine (EErrWal WErrRecordTooLarge)), st\<lparr>rs_log := ol\<rparr>)"
    using refused_put [OF r(3), of "[107]" ?v] by (auto simp: engine_record_limit_def)
  define st1 where "st1 = st\<lparr>rs_log := ol\<rparr>"
  have p1: "replica_put [107] ?v good_write_io st = (Inl (RpErrEngine (EErrWal WErrRecordTooLarge)), st1)"
    using p(2) by (simp add: st1_def)
  have "ol_closed ol = ol_closed (rs_log st)" using op_append_closed [of Write_ok op_type_put "[107]" ?v "rs_log st"] p(1) by simp
  from put_after_log [OF r(3) _ _ this, of "[107]" "[2]"] obtain idx st2 where
    p2: "replica_put [107] [2] good_write_io st1 = (Inr idx, st2)" by (auto simp: st1_def)
  have "\<not> rh_paused (rs_replicas st ! 1)" using r(4,6) by simp
  then have x: "\<exists>i < length (rs_replicas st). int i \<noteq> rs_leader st \<and> \<not> rh_paused (rs_replicas st ! i)"
    using r(4,5) by (intro exI [of _ 1]) simp
  have a: "length [R_put [107] [1] False] + 2 \<le> 2 ^ 29" "[107] \<noteq> ([] :: bytes)" "length [107 :: 8 word] + length ?v + 21 < 2 ^ 32"
      "17 + length [107 :: 8 word] + length ?v > 2 ^ 26" by simp_all
  note t = replica_refused_write_blocks_followers [OF r(1,2) a p1 p2 a(2), of 0 "\<lambda>_ _. True" 5]
  then have "fst (replica_get [107] read_leader 0 st2) = Inr (Some [2])" by simp
  moreover have "fst (replicate_all (apply_with (\<lambda>_ _. True)) (passes (\<lambda>_ _. True) 5 st2)) \<noteq> None" using t x by blast
  ultimately show ?thesis using r(1,2) p1 p2 by blast
qed

end
