(* ===== verification/Explain.thy ===== *)
theory Explain
  imports EngineRecovery
begin

text \<open>
  The traced operations of the engine (\<open>internal/engine/explain.go\<close>) and the trace they build
  (\<open>internal/trace/trace.go\<close>, the clock readings left out). They repeat the code of \<open>Put\<close>, \<open>Get\<close>, \<open>Delete\<close>
  and \<open>Scan\<close>; that they do the same is the equivalence proved here, with what the steps of a trace say.
\<close>

section \<open>Traces\<close>

record trace_step =
  ts_component :: string
  ts_type :: string
  ts_status :: string
  ts_detail :: string

record trace =
  tr_op :: string
  tr_key :: bytes
  tr_steps :: "trace_step list"
  tr_err :: "engine_error option"

definition new_trace :: "string \<Rightarrow> bytes \<Rightarrow> trace" where
  "new_trace op key = \<lparr>tr_op = op, tr_key = key, tr_steps = [], tr_err = None\<rparr>"

definition add_step :: "string \<Rightarrow> string \<Rightarrow> string \<Rightarrow> string \<Rightarrow> trace \<Rightarrow> trace" where
  "add_step component stepType status detail t =
     t\<lparr>tr_steps := tr_steps t @ [\<lparr>ts_component = component, ts_type = stepType, ts_status = status, ts_detail = detail\<rparr>]\<rparr>"

definition finish :: "engine_error option \<Rightarrow> trace \<Rightarrow> trace" where
  "finish err t = (if err = None then t else t\<lparr>tr_err := err\<rparr>)"

definition steps_with_status :: "string \<Rightarrow> trace \<Rightarrow> trace_step list" where
  "steps_with_status s t = filter (\<lambda>step. ts_status step = s) (tr_steps t)"

definition steps_for_component :: "string \<Rightarrow> trace \<Rightarrow> trace_step list" where
  "steps_for_component c t = filter (\<lambda>step. ts_component step = c) (tr_steps t)"

text \<open>\<open>name=%d\<close>, and such fields separated by blanks.\<close>

definition field :: "string \<Rightarrow> nat \<Rightarrow> string" where
  "field name n = name @ ''='' @ decimal n"

definition status_of :: "'a option \<Rightarrow> string" where
  "status_of err = (case err of None \<Rightarrow> ''OK'' | Some _ \<Rightarrow> ''ERROR'')"

section \<open>Writes\<close>

definition explain_put ::
    "bytes \<Rightarrow> bytes \<Rightarrow> write_outcome \<Rightarrow> bool \<Rightarrow> engine \<Rightarrow> trace \<times> engine_error option \<times> engine" where
  "explain_put key val wo sync_ok e =
     (let t = new_trace ''PUT'' key; klen = field ''key_len'' (length key); vlen = field ''value_len'' (length val) in
      if length key = 0 then
        (finish (Some EErrInvalidKey) (add_step ''ENGINE'' ''KEY_VALIDATED'' ''ERROR'' ''key_len=0 empty=true'' t), Some EErrInvalidKey, e)
      else
        let t1 = add_step ''ENGINE'' ''KEY_VALIDATED'' ''OK'' (klen @ '' '' @ vlen) t in
        if en_closed e then (finish (Some EErrClosed) t1, Some EErrClosed, e)
        else
          let seq = en_next_seq e; sq = field ''seq'' (unat seq); e1 = e\<lparr>en_next_seq := en_next_seq e + 1\<rparr> in
          (case wal_append (en_wal e1) \<lparr>wr_type = record_put, wr_key = key, wr_value = val, wr_seq = seq\<rparr> wo sync_ok of
             (Inl er, w) \<Rightarrow>
               (finish (Some (EErrWal er)) (add_step ''WAL'' ''WAL_APPEND'' ''ERROR'' (sq @ '' '' @ klen) t1), Some (EErrWal er),
                e1\<lparr>en_wal := w, en_next_seq := en_next_seq e1 - 1\<rparr>)
           | (Inr _, w) \<Rightarrow>
               let t2 = add_step ''WAL'' ''WAL_APPEND'' ''OK'' (sq @ '' '' @ klen @ '' '' @ vlen) t1 in
               (case mt_put key val seq (en_mem e1) of
                  (er, m) \<Rightarrow>
                    let err = map_option EErrMem er in
                    (finish err (add_step ''MEMTABLE'' ''MEMTABLE_PUT'' (status_of er) (sq @ '' '' @ klen) t2), err,
                     e1\<lparr>en_wal := w, en_mem := m\<rparr>))))"

definition explain_delete ::
    "bytes \<Rightarrow> write_outcome \<Rightarrow> bool \<Rightarrow> engine \<Rightarrow> trace \<times> engine_error option \<times> engine" where
  "explain_delete key wo sync_ok e =
     (let t = new_trace ''DELETE'' key; klen = field ''key_len'' (length key) in
      if length key = 0 then
        (finish (Some EErrInvalidKey) (add_step ''ENGINE'' ''KEY_VALIDATED'' ''ERROR'' ''key_len=0 empty=true'' t), Some EErrInvalidKey, e)
      else
        let t1 = add_step ''ENGINE'' ''KEY_VALIDATED'' ''OK'' klen t in
        if en_closed e then (finish (Some EErrClosed) t1, Some EErrClosed, e)
        else
          let seq = en_next_seq e; sq = field ''seq'' (unat seq); e1 = e\<lparr>en_next_seq := en_next_seq e + 1\<rparr>;
              wal = (\<lambda>st. add_step ''WAL'' ''WAL_APPEND'' st (sq @ '' '' @ klen @ '' tombstone=true'') t1) in
          (case wal_append (en_wal e1) \<lparr>wr_type = record_delete, wr_key = key, wr_value = [], wr_seq = seq\<rparr> wo sync_ok of
             (Inl er, w) \<Rightarrow>
               (finish (Some (EErrWal er)) (wal ''ERROR''), Some (EErrWal er), e1\<lparr>en_wal := w, en_next_seq := en_next_seq e1 - 1\<rparr>)
           | (Inr _, w) \<Rightarrow>
               (case mt_delete key seq (en_mem e1) of
                  (er, m) \<Rightarrow>
                    let err = map_option EErrMem er in
                    (finish err (add_step ''MEMTABLE'' ''MEMTABLE_DELETE'' (status_of er) (sq @ '' '' @ klen) (wal ''OK'')), err,
                     e1\<lparr>en_wal := w, en_mem := m\<rparr>))))"

section \<open>Get\<close>

text \<open>The loop over the tables, newest first; \<open>n\<close> is their number, for the last step.\<close>

fun explain_tables ::
    "bytes \<Rightarrow> nat \<Rightarrow> table_handle list \<Rightarrow> trace \<Rightarrow> u64 \<Rightarrow> u64 \<Rightarrow> trace \<times> (engine_error + bytes option) \<times> u64 \<times> u64" where
  "explain_tables key n [] t checks skips =
     (finish None (add_step ''ENGINE'' ''NOT_FOUND'' ''OK''
        (field ''key_len'' (length key) @ '' '' @ field ''sstables_checked'' n) t), Inr None, checks, skips)"
| "explain_tables key n (th # ths) t checks skips =
     (let sid = field ''sstable_id'' (unat (th_id th)) in
      if length (th_min th) > 0 \<and> key < th_min th then
        explain_tables key n ths (add_step ''SSTABLE'' ''BOUNDS_SKIP'' ''SKIPPED'' (sid @ '' reason=below_min'') t) checks skips
      else if length (th_max th) > 0 \<and> key > th_max th then
        explain_tables key n ths (add_step ''SSTABLE'' ''BOUNDS_SKIP'' ''SKIPPED'' (sid @ '' reason=above_max'') t) checks skips
      else
        (case bloom_might_contain (th_bloom th) key of
           None \<Rightarrow> (t, Inl EErrPanic, checks + 1, skips)
         | Some False \<Rightarrow> explain_tables key n ths (add_step ''BLOOM'' ''BLOOM_SKIP'' ''SKIPPED'' sid t) (checks + 1) (skips + 1)
         | Some True \<Rightarrow>
             let t1 = add_step ''BLOOM'' ''BLOOM_CHECK'' ''OK'' sid t in
             (case reader_get (th_reader th) key of
                Inl er \<Rightarrow> (finish (Some (EErrSst er)) t1, Inl (EErrSst er), checks + 1, skips)
              | Inr None \<Rightarrow> explain_tables key n ths (add_step ''SSTABLE'' ''SSTABLE_MISS'' ''OK'' sid t1) (checks + 1) skips
              | Inr (Some en) \<Rightarrow>
                  if e_kind en = entry_put then
                    (finish None (add_step ''SSTABLE'' ''SSTABLE_HIT'' ''OK'' (sid @ '' '' @ field ''value_len'' (length (e_value en))) t1),
                     Inr (Some (e_value en)), checks + 1, skips)
                  else
                    (finish None (add_step ''SSTABLE'' ''SSTABLE_HIT'' ''OK'' (sid @ '' tombstone=true'') t1),
                     Inr None, checks + 1, skips))))"

definition explain_get :: "bytes \<Rightarrow> engine \<Rightarrow> trace \<times> (engine_error + bytes option) \<times> engine" where
  "explain_get key e =
     (let t = new_trace ''GET'' key; klen = field ''key_len'' (length key) in
      if length key = 0 then
        (finish None (add_step ''ENGINE'' ''KEY_VALIDATED'' ''OK'' ''key_len=0 empty=true'' t), Inr None, e)
      else
        let t1 = add_step ''ENGINE'' ''KEY_VALIDATED'' ''OK'' klen t in
        if en_closed e then (finish (Some EErrClosed) t1, Inl EErrClosed, e)
        else
          (case mt_get (en_mem e) key of
             Some en \<Rightarrow>
               if e_kind en = entry_put then
                 (finish None (add_step ''MEMTABLE'' ''MEMTABLE_HIT'' ''OK'' (klen @ '' '' @ field ''value_len'' (length (e_value en))) t1),
                  Inr (Some (e_value en)), e)
               else (finish None (add_step ''MEMTABLE'' ''MEMTABLE_HIT'' ''OK'' (klen @ '' tombstone=true'') t1), Inr None, e)
           | None \<Rightarrow>
               (case explain_tables key (length (en_tables e)) (rev (en_tables e))
                       (add_step ''MEMTABLE'' ''MEMTABLE_MISS'' ''OK'' klen t1) (en_checks e) (en_skips e) of
                  (t2, res, checks, skips) \<Rightarrow> (t2, res, e\<lparr>en_checks := checks, en_skips := skips\<rparr>))))"

section \<open>Scan\<close>

fun explain_scan_tables ::
    "bytes \<Rightarrow> bytes \<Rightarrow> table_handle list \<Rightarrow> candidates \<Rightarrow> trace \<Rightarrow> trace \<times> (engine_error + candidates)" where
  "explain_scan_tables start end' [] best t = (t, Inr best)"
| "explain_scan_tables start end' (th # ths) best t =
     (case reader_scan (th_reader th) start end' of
        Inl er \<Rightarrow> (finish (Some (EErrSst er)) t, Inl (EErrSst er))
      | Inr es \<Rightarrow>
          explain_scan_tables start end' ths (foldl merge_entry best (map scan_kind es))
            (add_step ''SSTABLE'' ''SCAN_SOURCE'' ''OK''
              (''source=sstable '' @ field ''sstable_id'' (unat (th_id th)) @ '' '' @ field ''entry_count'' (length es)) t))"

definition explain_scan :: "bytes \<Rightarrow> bytes \<Rightarrow> engine \<Rightarrow> trace \<times> (engine_error + kv_entry list)" where
  "explain_scan start end' e =
     (let t = new_trace ''SCAN'' [] in
      if en_closed e then (finish (Some EErrClosed) t, Inl EErrClosed)
      else
        let ms = mt_scan (en_mem e) start end';
            t1 = add_step ''MEMTABLE'' ''SCAN_SOURCE'' ''OK'' (''source=memtable '' @ field ''entry_count'' (length ms)) t in
        (case explain_scan_tables start end' (en_tables e) (foldl merge_entry [] (map scan_kind ms)) t1 of
           (t2, Inl er) \<Rightarrow> (t2, Inl er)
         | (t2, Inr best) \<Rightarrow>
             let live = live_sorted best; dead = length (filter (\<lambda>(k, c). e_kind c \<noteq> entry_put) best) in
             (finish None (add_step ''ENGINE'' ''SCAN_MERGE'' ''OK''
                (field ''total_keys'' (length best) @ '' '' @ field ''live'' (length live) @ '' '' @ field ''tombstones_suppressed'' dead) t2),
              Inr (map (\<lambda>c. \<lparr>kv_key = e_key c, kv_value = e_value c, kv_seq = e_seq c\<rparr>) live))))"

section \<open>Equivalence with the operations they explain\<close>

lemmas trace_simps = new_trace_def add_step_def finish_def

lemma explain_put_same: "snd (explain_put key val wo s e) = engine_put key val wo s e"
  by (auto simp: explain_put_def engine_put_def Let_def split: sum.splits prod.splits)

lemma explain_delete_same: "snd (explain_delete key wo s e) = engine_delete key wo s e"
  by (auto simp: explain_delete_def engine_delete_def Let_def split: sum.splits prod.splits)

lemma explain_tables_same: "snd (explain_tables key n ths t c s) = get_tables key ths c s"
  by (induction ths arbitrary: t c s) (simp_all add: Let_def split: option.split bool.split sum.split)

lemma explain_get_same: "snd (explain_get key e) = engine_get key e"
proof -
  obtain t2 res c s where x: "explain_tables key (length (en_tables e)) (rev (en_tables e))
      (add_step ''MEMTABLE'' ''MEMTABLE_MISS'' ''OK'' (field ''key_len'' (length key))
        (add_step ''ENGINE'' ''KEY_VALIDATED'' ''OK'' (field ''key_len'' (length key)) (new_trace ''GET'' key)))
      (en_checks e) (en_skips e) = (t2, res, c, s)" by (metis prod_cases4)
  have "get_tables key (rev (en_tables e)) (en_checks e) (en_skips e) = (res, c, s)"
    using explain_tables_same [of key "length (en_tables e)" "rev (en_tables e)"] x by (metis snd_conv)
  then show ?thesis using x by (auto simp: explain_get_def engine_get_def Let_def split: option.splits)
qed

lemma explain_scan_tables_same: "snd (explain_scan_tables lo hi ths best t) = scan_tables lo hi ths best"
  by (induction ths arbitrary: best t) (auto split: sum.splits)

lemma explain_scan_same: "snd (explain_scan lo hi e) = engine_scan lo hi e"
proof -
  let ?ms = "mt_scan (en_mem e) lo hi"
  obtain t2 res where x: "explain_scan_tables lo hi (en_tables e) (foldl merge_entry [] (map scan_kind ?ms))
      (add_step ''MEMTABLE'' ''SCAN_SOURCE'' ''OK'' (''source=memtable '' @ field ''entry_count'' (length ?ms)) (new_trace ''SCAN'' [])) = (t2, res)"
    by fastforce
  then have "scan_tables lo hi (en_tables e) (foldl merge_entry [] (map scan_kind ?ms)) = res"
    using explain_scan_tables_same by (metis snd_conv)
  then show ?thesis using x by (auto simp: explain_scan_def engine_scan_def Let_def split: sum.splits)
qed

text \<open>What the steps of a \<open>Get\<close> say: which tables were asked, and where the value came from.\<close>

definition count_steps :: "string \<Rightarrow> trace \<Rightarrow> nat" where
  "count_steps ty t = length (filter (\<lambda>s. ts_type s = ty) (tr_steps t))"

lemma count_steps_add: "count_steps ty (add_step c ty' st d t) = count_steps ty t + (if ty' = ty then 1 else 0)"
  by (simp add: count_steps_def add_step_def)

lemma count_steps_new [simp]: "count_steps ty (new_trace op k) = 0"
  by (simp add: count_steps_def new_trace_def)

lemma count_steps_finish [simp]: "count_steps ty (finish er t) = count_steps ty t"
  by (simp add: count_steps_def finish_def)

lemma tr_err_simps [simp]: "tr_err (add_step c ty st d t) = tr_err t" "tr_err (new_trace op k) = None"
  by (simp_all add: trace_simps)

definition last_type :: "trace \<Rightarrow> string" where
  "last_type t = ts_type (last (tr_steps t))"

lemma last_type_simps [simp]: "last_type (add_step c ty st d t) = ty" "last_type (finish er t) = last_type t"
  by (simp_all add: last_type_def trace_simps)

definition traced :: "trace \<Rightarrow> u64 \<Rightarrow> u64 \<Rightarrow> trace \<times> (engine_error + bytes option) \<times> u64 \<times> u64 \<Rightarrow> bool" where
  "traced t checks skips out = (case out of (t', res, checks', skips') \<Rightarrow>
     res \<noteq> Inl EErrPanic \<longrightarrow> (\<exists>a b. checks' = checks + of_nat (a + b) \<and> skips' = skips + of_nat b
       \<and> count_steps ''BLOOM_CHECK'' t' = count_steps ''BLOOM_CHECK'' t + a
       \<and> count_steps ''BLOOM_SKIP'' t' = count_steps ''BLOOM_SKIP'' t + b
       \<and> tr_err t' = (case res of Inl er \<Rightarrow> Some er | Inr _ \<Rightarrow> None)
       \<and> (case res of Inr (Some _) \<Rightarrow> last_type t' = ''SSTABLE_HIT''
          | Inr None \<Rightarrow> last_type t' \<in> {''SSTABLE_HIT'', ''NOT_FOUND''} | Inl _ \<Rightarrow> True)))"

lemma tr_err_finish [simp]: "tr_err (finish er t) = (if er = None then tr_err t else er)"
  by (simp add: finish_def)

lemma traced_step:
  assumes "traced t1 (checks + of_nat (a + b)) (skips + of_nat b) out"
    and "count_steps ''BLOOM_CHECK'' t1 = count_steps ''BLOOM_CHECK'' t + a" "count_steps ''BLOOM_SKIP'' t1 = count_steps ''BLOOM_SKIP'' t + b"
  shows "traced t checks skips out"
proof -
  obtain t' res c' s' where o: "out = (t', res, c', s')" by (metis prod_cases4)
  show ?thesis
  proof (cases "res = Inl EErrPanic")
    case False
    then obtain a' b' where x: "c' = checks + of_nat (a + b) + of_nat (a' + b')" "s' = skips + of_nat b + of_nat b'"
        "count_steps ''BLOOM_CHECK'' t' = count_steps ''BLOOM_CHECK'' t1 + a'" "count_steps ''BLOOM_SKIP'' t' = count_steps ''BLOOM_SKIP'' t1 + b'"
        "tr_err t' = (case res of Inl er \<Rightarrow> Some er | Inr _ \<Rightarrow> None)"
        "case res of Inr (Some _) \<Rightarrow> last_type t' = ''SSTABLE_HIT''
          | Inr None \<Rightarrow> last_type t' \<in> {''SSTABLE_HIT'', ''NOT_FOUND''} | Inl _ \<Rightarrow> True"
      using assms(1) unfolding traced_def o by auto
    show ?thesis unfolding traced_def o using x assms(2,3) by (auto intro!: exI [of _ "a + a'"] exI [of _ "b + b'"])
  qed (simp add: traced_def o)
qed

lemma traced_skip:
  "traced (add_step c ty st d t) checks skips out \<Longrightarrow> ty \<noteq> ''BLOOM_CHECK'' \<Longrightarrow> ty \<noteq> ''BLOOM_SKIP'' \<Longrightarrow> traced t checks skips out"
  using traced_step [of "add_step c ty st d t" checks 0 0 skips out t] by (simp add: count_steps_add)

lemma traced_bloom_skip:
  "traced (add_step c ''BLOOM_SKIP'' st d t) (checks + 1) (skips + 1) out \<Longrightarrow> traced t checks skips out"
  using traced_step [of "add_step c ''BLOOM_SKIP'' st d t" checks 0 1 skips out t] by (simp add: count_steps_add)

lemma traced_bloom_check:
  "traced (add_step c ''BLOOM_CHECK'' st d t) (checks + 1) skips out \<Longrightarrow> traced t checks skips out"
  using traced_step [of "add_step c ''BLOOM_CHECK'' st d t" checks 1 0 skips out t] by (simp add: count_steps_add)

lemma traced_end:
  assumes "tr_err t' = (case res of Inl er \<Rightarrow> Some er | Inr _ \<Rightarrow> None)"
    "case res of Inr (Some _) \<Rightarrow> last_type t' = ''SSTABLE_HIT''
       | Inr None \<Rightarrow> last_type t' \<in> {''SSTABLE_HIT'', ''NOT_FOUND''} | Inl _ \<Rightarrow> True"
    "count_steps ''BLOOM_CHECK'' t' = count_steps ''BLOOM_CHECK'' t" "count_steps ''BLOOM_SKIP'' t' = count_steps ''BLOOM_SKIP'' t"
  shows "traced t checks skips (t', res, checks, skips)"
  unfolding traced_def prod.case using assms by (intro impI exI [of _ 0]) simp

lemma traced_hit:
  assumes "tr_err t = None"
  shows "traced t checks skips (finish None (add_step c ''SSTABLE_HIT'' st d t), Inr v, checks, skips)"
  by (rule traced_end) (use assms in \<open>auto simp: count_steps_add split: option.split\<close>)

lemma explain_tables_trace:
  "tr_err t = None \<Longrightarrow> traced t checks skips (explain_tables key n ths t checks skips)"
proof (induction ths arbitrary: t checks skips)
  case Nil
  show ?case unfolding explain_tables.simps by (rule traced_end) (simp_all add: Nil count_steps_add)
next
  case (Cons th ths)
  let ?sid = "field ''sstable_id'' (unat (th_id th))"
  have skip: "traced t checks skips (explain_tables key n ths (add_step ''SSTABLE'' ''BOUNDS_SKIP'' ''SKIPPED'' d t) checks skips)" for d
    by (rule traced_skip [OF Cons.IH]) (simp_all add: Cons.prems)
  have bskip: "traced t checks skips (explain_tables key n ths (add_step ''BLOOM'' ''BLOOM_SKIP'' ''SKIPPED'' ?sid t) (checks + 1) (skips + 1))"
    by (rule traced_bloom_skip [OF Cons.IH]) (simp add: Cons.prems)
  note check = traced_bloom_check [where c = "''BLOOM''" and st = "''OK''" and d = ?sid and t = t and checks = checks and skips = skips]
  have miss: "traced t checks skips (explain_tables key n ths (add_step ''SSTABLE'' ''SSTABLE_MISS'' ''OK'' ?sid
      (add_step ''BLOOM'' ''BLOOM_CHECK'' ''OK'' ?sid t)) (checks + 1) skips)"
    by (rule check, rule traced_skip [OF Cons.IH]) (simp_all add: Cons.prems)
  have hit: "traced t checks skips (finish None (add_step ''SSTABLE'' ''SSTABLE_HIT'' ''OK'' d
      (add_step ''BLOOM'' ''BLOOM_CHECK'' ''OK'' ?sid t)), Inr v, checks + 1, skips)" for d v
    by (rule check, rule traced_hit) (simp add: Cons.prems)
  have err: "traced t checks skips (finish (Some (EErrSst er)) (add_step ''BLOOM'' ''BLOOM_CHECK'' ''OK'' ?sid t),
      Inl (EErrSst er), checks + 1, skips)" for er
    by (rule check, rule traced_end) (simp_all)
  have panic: "traced t checks skips (t, Inl EErrPanic, checks + 1, skips)" by (simp add: traced_def)
  show ?case
    using skip bskip miss hit err panic unfolding explain_tables.simps Let_def
    by (simp split: option.split bool.split sum.split)
qed

lemma explain_get_trace:
  assumes "explain_get key e = (t, res, e')"
  shows "res = Inl EErrPanic \<or>
    en_checks e' = en_checks e + of_nat (count_steps ''BLOOM_CHECK'' t + count_steps ''BLOOM_SKIP'' t)
    \<and> en_skips e' = en_skips e + of_nat (count_steps ''BLOOM_SKIP'' t)
    \<and> tr_err t = (case res of Inl er \<Rightarrow> Some er | Inr _ \<Rightarrow> None)
    \<and> (case res of Inr (Some _) \<Rightarrow> last_type t \<in> {''MEMTABLE_HIT'', ''SSTABLE_HIT''} | _ \<Rightarrow> True)"
proof (cases "key = [] \<or> en_closed e \<or> mt_get (en_mem e) key \<noteq> None")
  case True
  then show ?thesis
    using assms by (auto simp: explain_get_def Let_def count_steps_add split: if_splits option.splits)
next
  case False
  let ?t = "add_step ''MEMTABLE'' ''MEMTABLE_MISS'' ''OK'' (field ''key_len'' (length key))
    (add_step ''ENGINE'' ''KEY_VALIDATED'' ''OK'' (field ''key_len'' (length key)) (new_trace ''GET'' key))"
  obtain c s where x: "explain_tables key (length (en_tables e)) (rev (en_tables e)) ?t (en_checks e) (en_skips e) = (t, res, c, s)"
      "e' = e\<lparr>en_checks := c, en_skips := s\<rparr>"
    using assms False by (auto simp: explain_get_def Let_def split: prod.splits)
  have "traced ?t (en_checks e) (en_skips e) (t, res, c, s)"
    using explain_tables_trace [of ?t "en_checks e" "en_skips e" key] x(1) by (metis tr_err_simps)
  moreover have "count_steps ''BLOOM_CHECK'' ?t = 0" "count_steps ''BLOOM_SKIP'' ?t = 0"
    by (simp_all add: count_steps_add)
  ultimately show ?thesis unfolding traced_def x(2) by (auto split: sum.splits option.splits)
qed

lemma explain_put_err: "tr_err (fst (explain_put key val wo s e)) = fst (engine_put key val wo s e)"
  by (auto simp: explain_put_def engine_put_def Let_def split: sum.splits prod.splits)

lemma explain_delete_err: "tr_err (fst (explain_delete key wo s e)) = fst (engine_delete key wo s e)"
  by (auto simp: explain_delete_def engine_delete_def Let_def split: sum.splits prod.splits)

text \<open>C39: an explained operation is the operation. Each \<open>Explain\<close> method returns the result of the plain
  operation and leaves the engine as it does, on every branch and whatever the I/O does; the trace of a
  write records the operation's error; and the steps of an explained \<open>Get\<close> are true to it (unless a filter
  panics): every Bloom filter asked is one step and counted once, and a value found comes with a hit as
  the last step.\<close>

theorem explain_equivalent:
  "snd (explain_put key val wo s e) = engine_put key val wo s e \<and> tr_err (fst (explain_put key val wo s e)) = fst (engine_put key val wo s e)
   \<and> snd (explain_delete key wo s e) = engine_delete key wo s e \<and> tr_err (fst (explain_delete key wo s e)) = fst (engine_delete key wo s e)
   \<and> snd (explain_scan lo hi e) = engine_scan lo hi e
   \<and> snd (explain_get key e) = engine_get key e
   \<and> (case explain_get key e of (t, res, e') \<Rightarrow> res = Inl EErrPanic \<or>
        en_checks e' = en_checks e + of_nat (count_steps ''BLOOM_CHECK'' t + count_steps ''BLOOM_SKIP'' t)
        \<and> en_skips e' = en_skips e + of_nat (count_steps ''BLOOM_SKIP'' t)
        \<and> tr_err t = (case res of Inl er \<Rightarrow> Some er | Inr _ \<Rightarrow> None)
        \<and> (case res of Inr (Some _) \<Rightarrow> last_type t \<in> {''MEMTABLE_HIT'', ''SSTABLE_HIT''} | _ \<Rightarrow> True))"
proof -
  obtain t res e' where g: "explain_get key e = (t, res, e')" by (metis prod_cases3)
  show ?thesis
    unfolding explain_put_same explain_delete_same explain_scan_same explain_get_same explain_put_err explain_delete_err
    using explain_get_trace [OF g] unfolding g prod.case by blast
qed

end
