(* ===== verification/Json.thy ===== *)
theory Json
  imports Files
begin

text \<open>
  Strings in JSON, and timestamps. \<open>encoding/json\<close> writes a string that is not valid UTF-8 with the
  replacement character for every stray byte, so what a reader gets back is \<open>json_text\<close> of what the writer
  had; the escapes are those of Go 1.21, the version the module names. \<open>rfc3339_ok\<close> is what
  \<open>time.Parse(time.RFC3339Nano, ...)\<close> accepts.
\<close>

section \<open>UTF-8\<close>

text \<open>The length of the encoded character a string begins with, 0 for a stray byte (\<open>utf8.DecodeRune\<close>).\<close>

definition trail_byte :: "byte \<Rightarrow> byte \<Rightarrow> byte \<Rightarrow> bool" where
  "trail_byte lo hi b \<longleftrightarrow> lo \<le> b \<and> b \<le> hi"

definition rune_length :: "bytes \<Rightarrow> nat" where
  "rune_length bs =
     (let at = (\<lambda>i lo hi. i < length bs \<and> trail_byte lo hi (bs ! i)); b = bs ! 0 in
      if bs = [] then 0
      else if b < 0x80 then 1
      else if trail_byte 0xC2 0xDF b then (if at 1 0x80 0xBF then 2 else 0)
      else if trail_byte 0xE0 0xEF b then
        (if at 1 (if b = 0xE0 then 0xA0 else 0x80) (if b = 0xED then 0x9F else 0xBF) \<and> at 2 0x80 0xBF then 3 else 0)
      else if trail_byte 0xF0 0xF4 b then
        (if at 1 (if b = 0xF0 then 0x90 else 0x80) (if b = 0xF4 then 0x8F else 0xBF) \<and> at 2 0x80 0xBF \<and> at 3 0x80 0xBF then 4 else 0)
      else 0)"

lemma rune_length_bound: "rune_length bs \<le> length bs"
  by (cases bs) (auto simp: rune_length_def Let_def simp flip: length_greater_0_conv)

function json_text :: "bytes \<Rightarrow> bytes" where
  "json_text [] = []"
| "json_text (b # bs) =
     (let n = rune_length (b # bs) in
      if n = 0 then [0xEF, 0xBF, 0xBD] @ json_text bs
      else take n (b # bs) @ json_text (drop n (b # bs)))"
  by pat_completeness auto
termination
  by (relation "measure length") (auto simp: Let_def)

declare json_text.simps(2) [simp del]

definition json_valid :: "bytes \<Rightarrow> bool" where
  "json_valid bs \<longleftrightarrow> json_text bs = bs"

lemma json_valid_ascii: "\<forall>b \<in> set bs. b < 0x80 \<Longrightarrow> json_valid bs"
proof (induction bs)
  case (Cons b bs)
  then have "rune_length (b # bs) = 1" by (simp add: rune_length_def)
  then show ?case using Cons by (simp add: json_valid_def json_text.simps(2))
qed (simp add: json_valid_def)

lemma rune_length_agree:
  assumes "rune_length bs = n" "n \<noteq> 0" "n \<le> length cs" "\<And>i. i < n \<Longrightarrow> cs ! i = bs ! i"
  shows "rune_length cs = n"
proof -
  let ?b = "bs ! 0"
  have n: "n \<le> length bs" using rune_length_bound assms(1) by blast
  have ne: "bs \<noteq> []" "cs \<noteq> []" "cs ! 0 = ?b" using assms(2-4) n by auto
  have at: "i < length cs" "i < length bs" "cs ! i = bs ! i" if "i < n" for i using that assms(3,4) n by auto
  consider (one) "?b < 0x80" | (two) "\<not> ?b < 0x80" "trail_byte 0xC2 0xDF ?b"
    | (three) "\<not> ?b < 0x80" "\<not> trail_byte 0xC2 0xDF ?b" "trail_byte 0xE0 0xEF ?b"
    | (four) "\<not> ?b < 0x80" "\<not> trail_byte 0xC2 0xDF ?b" "\<not> trail_byte 0xE0 0xEF ?b" "trail_byte 0xF0 0xF4 ?b"
    | (none) "\<not> ?b < 0x80" "\<not> trail_byte 0xC2 0xDF ?b" "\<not> trail_byte 0xE0 0xEF ?b" "\<not> trail_byte 0xF0 0xF4 ?b"
    by blast
  then show ?thesis
  proof cases
    case one
    then show ?thesis using assms(1) ne unfolding rune_length_def Let_def by (simp only: if_True if_False)
  next
    case two
    have "n = 2" using assms(1,2) two ne unfolding rune_length_def Let_def by (simp only: if_True if_False split: if_splits)
    then show ?thesis using assms(1) two ne at [of 1] unfolding rune_length_def Let_def by simp
  next
    case three
    have "n = 3" using assms(1,2) three ne unfolding rune_length_def Let_def by (simp only: if_True if_False split: if_splits)
    then show ?thesis using assms(1) three ne at [of 1] at [of 2] unfolding rune_length_def Let_def by simp
  next
    case four
    have "n = 4" using assms(1,2) four ne unfolding rune_length_def Let_def by (simp only: if_True if_False split: if_splits)
    then show ?thesis using assms(1) four ne at [of 1] at [of 2] at [of 3] unfolding rune_length_def Let_def
      by simp
  next
    case none
    then show ?thesis using assms(1,2) ne unfolding rune_length_def Let_def by (simp only: if_False)
  qed
qed

lemma rune_length_prefix:
  assumes "rune_length bs = n" "n \<noteq> 0"
  shows "rune_length (take n bs @ ds) = n"
proof (rule rune_length_agree [OF assms])
  have "n \<le> length bs" using rune_length_bound assms(1) by blast
  then show "n \<le> length (take n bs @ ds)" "\<And>i. i < n \<Longrightarrow> (take n bs @ ds) ! i = bs ! i"
    by (simp_all add: nth_append)
qed

text \<open>What was read once is written unchanged.\<close>

lemma json_text_run:
  assumes "rune_length cs = n" "n \<noteq> 0"
  shows "json_text cs = take n cs @ json_text (drop n cs)"
  using assms by (cases cs) (simp_all add: json_text.simps(2) Let_def rune_length_def)

lemma json_text_valid [simp]: "json_valid (json_text bs)"
proof (induction bs rule: json_text.induct)
  case 1
  then show ?case by (simp add: json_valid_def)
next
  case (2 b bs)
  let ?n = "rune_length (b # bs)"
  show ?case
  proof (cases "?n = 0")
    case True
    then have e: "json_text (b # bs) = [0xEF, 0xBF, 0xBD] @ json_text bs" by (simp add: json_text.simps(2))
    have r: "rune_length ([0xEF, 0xBF, 0xBD] @ json_text bs) = 3"
      by (simp add: rune_length_def trail_byte_def)
    show ?thesis
      using 2(1) [OF refl True] json_text_run [OF r] unfolding json_valid_def e by simp
  next
    case False
    then have e: "json_text (b # bs) = take ?n (b # bs) @ json_text (drop ?n (b # bs))" by (simp add: json_text.simps(2) Let_def)
    have r: "rune_length (take ?n (b # bs) @ json_text (drop ?n (b # bs))) = ?n"
      by (rule rune_length_prefix [OF refl False])
    have "length (take ?n (b # bs)) = ?n" using rune_length_bound [of "b # bs"] by simp
    then show ?thesis
      using 2(2) [OF refl False] json_text_run [OF r False] unfolding json_valid_def e by simp
  qed
qed

lemma json_text_fixed [simp]: "json_valid bs \<Longrightarrow> json_text bs = bs"
  by (simp add: json_valid_def)

section \<open>Writing JSON\<close>

definition hex_digit :: "byte \<Rightarrow> byte" where
  "hex_digit n = (if n < 10 then 48 + n else 87 + n)"

text \<open>One ASCII character inside a string.\<close>

definition json_escape :: "byte \<Rightarrow> bytes" where
  "json_escape b =
     (if b = 0x5C \<or> b = 0x22 then [0x5C, b]
      else if b = 0x0A then [0x5C, 0x6E]
      else if b = 0x0D then [0x5C, 0x72]
      else if b = 0x09 then [0x5C, 0x74]
      else if b < 0x20 \<or> b = 0x3C \<or> b = 0x3E \<or> b = 0x26 then
        [0x5C, 0x75, 0x30, 0x30, hex_digit (drop_bit 4 b), hex_digit (b AND 0xF)]
      else [b])"

function json_chars :: "bytes \<Rightarrow> bytes" where
  "json_chars [] = []"
| "json_chars (b # bs) =
     (let n = rune_length (b # bs); c = take n (b # bs) in
      if n = 0 then ascii [CHR 0x5C] @ ascii ''ufffd'' @ json_chars bs
      else if n = 1 then json_escape b @ json_chars bs
      else if c = [0xE2, 0x80, 0xA8] \<or> c = [0xE2, 0x80, 0xA9] then
        ascii [CHR 0x5C] @ ascii ''u202'' @ [hex_digit (last c AND 0xF)] @ json_chars (drop n (b # bs))
      else c @ json_chars (drop n (b # bs)))"
  by pat_completeness auto
termination
  by (relation "measure length") (auto simp: Let_def)

definition json_quote :: "bytes \<Rightarrow> bytes" where
  "json_quote s = [0x22] @ json_chars s @ [0x22]"

definition json_nat :: "nat \<Rightarrow> bytes" where "json_nat n = ascii (decimal n)"
definition json_int :: "int \<Rightarrow> bytes" where "json_int i = ascii (signed_decimal i)"

fun json_fields :: "(string \<times> bytes) list \<Rightarrow> bytes" where
  "json_fields [] = []"
| "json_fields [(n, v)] = json_quote (ascii n) @ ascii '':'' @ v"
| "json_fields ((n, v) # f # fs) = json_quote (ascii n) @ ascii '':'' @ v @ ascii '','' @ json_fields (f # fs)"

definition json_object :: "(string \<times> bytes) list \<Rightarrow> bytes" where
  "json_object fs = [0x7B] @ json_fields fs @ [0x7D]"

section \<open>Timestamps\<close>

definition digit :: "byte \<Rightarrow> bool" where "digit b \<longleftrightarrow> 48 \<le> b \<and> b \<le> 57"

text \<open>One or two digits and the rest; two when \<open>fixed\<close>.\<close>

definition get_num :: "bool \<Rightarrow> bytes \<Rightarrow> (nat \<times> bytes) option" where
  "get_num fixed bs =
     (case bs of
        a # b # rest \<Rightarrow>
          if \<not> digit a then None
          else if \<not> digit b then (if fixed then None else Some (unat (a - 48), b # rest))
          else Some (unat (a - 48) * 10 + unat (b - 48), rest)
      | [a] \<Rightarrow> if digit a \<and> \<not> fixed then Some (unat (a - 48), []) else None
      | [] \<Rightarrow> None)"

definition skip_byte :: "byte \<Rightarrow> bytes \<Rightarrow> bytes option" where
  "skip_byte c bs = (case bs of [] \<Rightarrow> None | b # rest \<Rightarrow> if b = c then Some rest else None)"

definition days_in :: "nat \<Rightarrow> nat \<Rightarrow> nat" where
  "days_in month year =
     (if month = 2 then (if year mod 4 = 0 \<and> (year mod 100 \<noteq> 0 \<or> year mod 400 = 0) then 29 else 28)
      else if month \<in> {4, 6, 9, 11} then 30 else 31)"

definition zone_ok :: "bytes \<Rightarrow> bool" where
  "zone_ok bs =
     (if bs = [0x5A] then True
      else length bs = 6 \<and> (bs ! 0 = 0x2B \<or> bs ! 0 = 0x2D) \<and> bs ! 3 = 0x3A
        \<and> (case get_num True (slice 1 3 bs) of None \<Rightarrow> False | Some (h, _) \<Rightarrow> h \<le> 24)
        \<and> (case get_num True (slice 4 6 bs) of None \<Rightarrow> False | Some (m, _) \<Rightarrow> m \<le> 60))"

definition skip_fraction :: "bytes \<Rightarrow> bytes" where
  "skip_fraction bs =
     (if length bs \<ge> 2 \<and> (bs ! 0 = 0x2E \<or> bs ! 0 = 0x2C) \<and> digit (bs ! 1) then dropWhile digit (tl bs) else bs)"

definition clock_ok :: "bytes \<Rightarrow> bool" where
  "clock_ok bs =
     (case get_num False bs of
        None \<Rightarrow> False
      | Some (h, r1) \<Rightarrow>
          h < 24 \<and>
          (case skip_byte 0x3A r1 of
             None \<Rightarrow> False
           | Some r2 \<Rightarrow>
               (case get_num True r2 of
                  None \<Rightarrow> False
                | Some (m, r3) \<Rightarrow>
                    m < 60 \<and>
                    (case skip_byte 0x3A r3 of
                       None \<Rightarrow> False
                     | Some r4 \<Rightarrow>
                         (case get_num True r4 of
                            None \<Rightarrow> False
                          | Some (sec, r5) \<Rightarrow> sec < 60 \<and> zone_ok (skip_fraction r5))))))"

definition rfc3339_ok :: "bytes \<Rightarrow> bool" where
  "rfc3339_ok bs =
     (if length bs < 4 \<or> \<not> list_all digit (take 4 bs) then False
      else
        let year = foldl (\<lambda>n b. n * 10 + unat (b - 48)) 0 (take 4 bs) in
        (case skip_byte 0x2D (drop 4 bs) of
           None \<Rightarrow> False
         | Some r1 \<Rightarrow>
             (case get_num True r1 of
                None \<Rightarrow> False
              | Some (month, r2) \<Rightarrow>
                  1 \<le> month \<and> month \<le> 12 \<and>
                  (case skip_byte 0x2D r2 of
                     None \<Rightarrow> False
                   | Some r3 \<Rightarrow>
                       (case get_num True r3 of
                          None \<Rightarrow> False
                        | Some (day, r4) \<Rightarrow>
                            1 \<le> day \<and> day \<le> days_in month year \<and>
                            (case skip_byte 0x54 r4 of None \<Rightarrow> False | Some r5 \<Rightarrow> clock_ok r5))))))"

lemma rfc3339_sample:
  "rfc3339_ok (ascii ''2024-02-29T12:30:00.123456789Z'')" "\<not> rfc3339_ok (ascii ''2023-02-29T12:30:00Z'')"
  "rfc3339_ok (ascii ''2024-01-01T00:00:00+05:30'')" "\<not> rfc3339_ok (ascii ''2024-01-01 00:00:00Z'')"
  by code_simp+

end
