(* ===== verification/Records.thy ===== *)
theory Records
  imports Json Journal
begin

text \<open>
  The small durable records of a node: the final quiesce record and the intent written before it
  (\<open>internal/replnet/quiesce_store.go\<close>, \<open>quiesce_intent.go\<close>), the promotion record (\<open>promotion_store.go\<close>)
  and the follower's cursor (\<open>state_store.go\<close>). A file is the value its JSON decodes to; every save writes a
  temporary file and renames it, one step that fails or replaces the file. Saving stores what decoding the
  written text gives, so a string that is not valid UTF-8 comes back changed. Names, addresses and
  timestamps are byte strings; the clock is an argument.
\<close>

section \<open>The records\<close>

record quiesce_record =
  qr_version :: int
  qr_id :: bytes
  qr_node :: bytes
  qr_url :: bytes
  qr_seq :: u64
  qr_at :: bytes
  qr_checksum :: u32

record quiesce_intent =
  qi_version :: int
  qi_id :: bytes
  qi_node :: bytes
  qi_url :: bytes
  qi_at :: bytes
  qi_checksum :: u32

record promotion_record =
  pr_version :: int
  pr_node :: bytes
  pr_role :: bytes
  pr_source :: bytes
  pr_source_url :: bytes
  pr_quiesce :: bytes
  pr_seq :: u64
  pr_at :: bytes
  pr_checksum :: u32

record persisted_state =
  ps_version :: int
  ps_node :: bytes
  ps_url :: bytes
  ps_seq :: u64
  ps_at :: bytes
  ps_checksum :: u32

record record_files =
  rf_quiesce :: "quiesce_record json_file"
  rf_intent :: "quiesce_intent json_file"
  rf_promotion :: "promotion_record json_file"
  rf_state :: "persisted_state json_file"

datatype record_error = RcNotFound | RcCorrupt | RcIO | RcVersion | RcFollowerMismatch | RcPrimaryMismatch | RcRegression

section \<open>The final quiesce record\<close>

definition quiesce_version :: int where "quiesce_version = 1"

definition quiesce_json :: "quiesce_record \<Rightarrow> bytes" where
  "quiesce_json r = json_object
     [(''version'', json_int (qr_version r)), (''quiesce_id'', json_quote (qr_id r)), (''primary_node_id'', json_quote (qr_node r)),
      (''primary_base_url'', json_quote (qr_url r)), (''primary_latest_seq'', json_nat (unat (qr_seq r))),
      (''quiesced_at'', json_quote (qr_at r)), (''checksum'', json_nat (unat (qr_checksum r)))]"

definition quiesce_checksum :: "quiesce_record \<Rightarrow> u32" where
  "quiesce_checksum r = crc32 (quiesce_json (r\<lparr>qr_checksum := 0\<rparr>))"

definition quiesce_decoded :: "quiesce_record \<Rightarrow> quiesce_record" where
  "quiesce_decoded r = r\<lparr>qr_id := json_text (qr_id r), qr_node := json_text (qr_node r), qr_url := json_text (qr_url r),
     qr_at := json_text (qr_at r)\<rparr>"

text \<open>The checksum is set in the caller's record too, whether or not the file can be written.\<close>

definition save_quiesce :: "bool \<Rightarrow> quiesce_record \<Rightarrow> record_files \<Rightarrow> record_error option \<times> quiesce_record \<times> record_files" where
  "save_quiesce io_ok r fs =
     (let r' = r\<lparr>qr_checksum := quiesce_checksum r\<rparr> in
      if \<not> io_ok then (Some RcIO, r', fs) else (None, r', fs\<lparr>rf_quiesce := Json_file (quiesce_decoded r')\<rparr>))"

definition load_quiesce :: "record_files \<Rightarrow> record_error + quiesce_record" where
  "load_quiesce fs =
     (case rf_quiesce fs of
        No_file \<Rightarrow> Inl RcNotFound
      | Unreadable_file \<Rightarrow> Inl RcIO
      | Bad_file \<Rightarrow> Inl RcCorrupt
      | Json_file r \<Rightarrow>
          if qr_version r \<noteq> quiesce_version then Inl RcCorrupt
          else if qr_checksum r \<noteq> quiesce_checksum r then Inl RcCorrupt
          else Inr r)"

section \<open>The intent\<close>

definition intent_version :: int where "intent_version = 1"

definition intent_json :: "quiesce_intent \<Rightarrow> bytes" where
  "intent_json r = json_object
     [(''version'', json_int (qi_version r)), (''quiesce_id'', json_quote (qi_id r)), (''primary_node_id'', json_quote (qi_node r)),
      (''primary_base_url'', json_quote (qi_url r)), (''intent_at'', json_quote (qi_at r)), (''checksum'', json_nat (unat (qi_checksum r)))]"

definition intent_checksum :: "quiesce_intent \<Rightarrow> u32" where
  "intent_checksum r = crc32 (intent_json (r\<lparr>qi_checksum := 0\<rparr>))"

definition intent_decoded :: "quiesce_intent \<Rightarrow> quiesce_intent" where
  "intent_decoded r = r\<lparr>qi_id := json_text (qi_id r), qi_node := json_text (qi_node r), qi_url := json_text (qi_url r),
     qi_at := json_text (qi_at r)\<rparr>"

definition save_intent :: "bool \<Rightarrow> quiesce_intent \<Rightarrow> record_files \<Rightarrow> record_error option \<times> record_files" where
  "save_intent io_ok r fs =
     (if \<not> io_ok then (Some RcIO, fs)
      else (None, fs\<lparr>rf_intent := Json_file (intent_decoded (r\<lparr>qi_checksum := intent_checksum r\<rparr>))\<rparr>))"

definition load_intent :: "record_files \<Rightarrow> record_error + quiesce_intent" where
  "load_intent fs =
     (case rf_intent fs of
        No_file \<Rightarrow> Inl RcNotFound
      | Unreadable_file \<Rightarrow> Inl RcIO
      | Bad_file \<Rightarrow> Inl RcCorrupt
      | Json_file r \<Rightarrow>
          if qi_version r \<noteq> intent_version then Inl RcCorrupt
          else if qi_checksum r \<noteq> intent_checksum r then Inl RcCorrupt
          else Inr r)"

definition remove_intent :: "bool \<Rightarrow> record_files \<Rightarrow> record_error option \<times> record_files" where
  "remove_intent io_ok fs =
     (if rf_intent fs = No_file then (None, fs) else if \<not> io_ok then (Some RcIO, fs) else (None, fs\<lparr>rf_intent := No_file\<rparr>))"

section \<open>The promotion record\<close>

definition promotion_version :: int where "promotion_version = 1"

definition promotion_json :: "promotion_record \<Rightarrow> bytes" where
  "promotion_json r = json_object
     [(''version'', json_int (pr_version r)), (''node_id'', json_quote (pr_node r)), (''new_role'', json_quote (pr_role r)),
      (''source_primary_node_id'', json_quote (pr_source r)), (''source_primary_base_url'', json_quote (pr_source_url r)),
      (''quiesce_id'', json_quote (pr_quiesce r)), (''inherited_last_seq'', json_nat (unat (pr_seq r))),
      (''promoted_at'', json_quote (pr_at r)), (''checksum'', json_nat (unat (pr_checksum r)))]"

definition promotion_checksum :: "promotion_record \<Rightarrow> u32" where
  "promotion_checksum r = crc32 (promotion_json (r\<lparr>pr_checksum := 0\<rparr>))"

definition promotion_decoded :: "promotion_record \<Rightarrow> promotion_record" where
  "promotion_decoded r = r\<lparr>pr_node := json_text (pr_node r), pr_role := json_text (pr_role r), pr_source := json_text (pr_source r),
     pr_source_url := json_text (pr_source_url r), pr_quiesce := json_text (pr_quiesce r), pr_at := json_text (pr_at r)\<rparr>"

definition new_promotion :: "bytes \<Rightarrow> bytes \<Rightarrow> bytes \<Rightarrow> bytes \<Rightarrow> u64 \<Rightarrow> bytes \<Rightarrow> promotion_record" where
  "new_promotion node src url qid seq now =
     \<lparr>pr_version = promotion_version, pr_node = node, pr_role = ascii ''primary'', pr_source = src, pr_source_url = url,
      pr_quiesce = qid, pr_seq = seq, pr_at = now, pr_checksum = 0\<rparr>"

definition save_promotion ::
    "bool \<Rightarrow> promotion_record \<Rightarrow> record_files \<Rightarrow> record_error option \<times> promotion_record \<times> record_files" where
  "save_promotion io_ok r fs =
     (let r' = r\<lparr>pr_checksum := promotion_checksum r\<rparr> in
      if \<not> io_ok then (Some RcIO, r', fs) else (None, r', fs\<lparr>rf_promotion := Json_file (promotion_decoded r')\<rparr>))"

definition load_promotion :: "record_files \<Rightarrow> record_error + promotion_record" where
  "load_promotion fs =
     (case rf_promotion fs of
        No_file \<Rightarrow> Inl RcNotFound
      | Unreadable_file \<Rightarrow> Inl RcIO
      | Bad_file \<Rightarrow> Inl RcCorrupt
      | Json_file r \<Rightarrow>
          if pr_version r \<noteq> promotion_version then Inl RcCorrupt
          else if pr_checksum r \<noteq> promotion_checksum r then Inl RcCorrupt
          else Inr r)"

section \<open>The follower's cursor\<close>

definition state_version :: int where "state_version = 1"

definition state_checksum :: "int \<Rightarrow> bytes \<Rightarrow> bytes \<Rightarrow> u64 \<Rightarrow> bytes \<Rightarrow> u32" where
  "state_checksum version node url seq at = crc32 (put_u64 (word_of_int version) @ node @ url @ put_u64 seq @ at)"

record state_store =
  ss_node :: bytes
  ss_url :: bytes
  ss_seq :: u64

definition open_state_store :: "bool \<Rightarrow> bytes \<Rightarrow> bytes \<Rightarrow> record_files \<Rightarrow> record_error + state_store" where
  "open_state_store mkdir_ok node url fs =
     (if \<not> mkdir_ok then Inl RcIO
      else
        (case rf_state fs of
           No_file \<Rightarrow> Inr \<lparr>ss_node = node, ss_url = url, ss_seq = 0\<rparr>
         | Unreadable_file \<Rightarrow> Inl RcIO
         | Bad_file \<Rightarrow> Inl RcCorrupt
         | Json_file p \<Rightarrow>
             if ps_version p \<noteq> state_version then Inl RcVersion
             else if ps_node p \<noteq> node then Inl RcFollowerMismatch
             else if ps_url p \<noteq> url then Inl RcPrimaryMismatch
             else if ps_checksum p \<noteq> state_checksum (ps_version p) (ps_node p) (ps_url p) (ps_seq p) (ps_at p) then Inl RcCorrupt
             else Inr \<lparr>ss_node = node, ss_url = url, ss_seq = ps_seq p\<rparr>))"

definition advance_to ::
    "bool \<Rightarrow> bytes \<Rightarrow> u64 \<Rightarrow> state_store \<Rightarrow> record_files \<Rightarrow> record_error option \<times> state_store \<times> record_files" where
  "advance_to io_ok now seq ss fs =
     (if seq < ss_seq ss then (Some RcRegression, ss, fs)
      else if seq = ss_seq ss then (None, ss, fs)
      else if \<not> io_ok then (Some RcIO, ss, fs)
      else
        (None, ss\<lparr>ss_seq := seq\<rparr>,
         fs\<lparr>rf_state := Json_file
              \<lparr>ps_version = state_version, ps_node = json_text (ss_node ss), ps_url = json_text (ss_url ss), ps_seq = seq,
               ps_at = json_text now, ps_checksum = state_checksum state_version (ss_node ss) (ss_url ss) seq now\<rparr>\<rparr>))"

section \<open>What is saved is loaded\<close>

lemma quiesce_checksum_upd [simp]: "quiesce_checksum (r\<lparr>qr_checksum := c\<rparr>) = quiesce_checksum r"
  by (simp add: quiesce_checksum_def)

lemma intent_checksum_upd [simp]: "intent_checksum (r\<lparr>qi_checksum := c\<rparr>) = intent_checksum r"
  by (simp add: intent_checksum_def)

lemma promotion_checksum_upd [simp]: "promotion_checksum (r\<lparr>pr_checksum := c\<rparr>) = promotion_checksum r"
  by (simp add: promotion_checksum_def)

definition quiesce_valid :: "quiesce_record \<Rightarrow> bool" where
  "quiesce_valid r \<longleftrightarrow> qr_version r = quiesce_version \<and> json_valid (qr_id r) \<and> json_valid (qr_node r) \<and> json_valid (qr_url r) \<and> json_valid (qr_at r)"

definition intent_valid :: "quiesce_intent \<Rightarrow> bool" where
  "intent_valid r \<longleftrightarrow> qi_version r = intent_version \<and> json_valid (qi_id r) \<and> json_valid (qi_node r) \<and> json_valid (qi_url r) \<and> json_valid (qi_at r)"

definition promotion_valid :: "promotion_record \<Rightarrow> bool" where
  "promotion_valid r \<longleftrightarrow> pr_version r = promotion_version \<and> json_valid (pr_node r) \<and> json_valid (pr_role r) \<and> json_valid (pr_source r)
     \<and> json_valid (pr_source_url r) \<and> json_valid (pr_quiesce r) \<and> json_valid (pr_at r)"

lemma quiesce_decoded_valid: "quiesce_valid r \<Longrightarrow> quiesce_decoded r = r"
  by (simp add: quiesce_decoded_def quiesce_valid_def)

lemma intent_decoded_valid: "intent_valid r \<Longrightarrow> intent_decoded r = r"
  by (simp add: intent_decoded_def intent_valid_def)

lemma promotion_decoded_valid: "promotion_valid r \<Longrightarrow> promotion_decoded r = r"
  by (simp add: promotion_decoded_def promotion_valid_def)

lemma save_load_quiesce:
  "quiesce_valid r \<Longrightarrow> save_quiesce True r fs = (None, r', fs') \<Longrightarrow> load_quiesce fs' = Inr r' \<and> r' = r\<lparr>qr_checksum := quiesce_checksum r\<rparr>"
  using quiesce_decoded_valid [of "r\<lparr>qr_checksum := quiesce_checksum r\<rparr>"]
  by (auto simp: save_quiesce_def load_quiesce_def quiesce_valid_def Let_def)

lemma save_load_intent:
  "intent_valid r \<Longrightarrow> save_intent True r fs = (None, fs') \<Longrightarrow> load_intent fs' = Inr (r\<lparr>qi_checksum := intent_checksum r\<rparr>)"
  using intent_decoded_valid [of "r\<lparr>qi_checksum := intent_checksum r\<rparr>"]
  by (auto simp: save_intent_def load_intent_def intent_valid_def)

lemma save_load_promotion:
  "promotion_valid r \<Longrightarrow> save_promotion True r fs = (None, r', fs')
   \<Longrightarrow> load_promotion fs' = Inr r' \<and> r' = r\<lparr>pr_checksum := promotion_checksum r\<rparr>"
  using promotion_decoded_valid [of "r\<lparr>pr_checksum := promotion_checksum r\<rparr>"]
  by (auto simp: save_promotion_def load_promotion_def promotion_valid_def Let_def)

lemma advance_reopen:
  assumes "advance_to io_ok now seq ss fs = (er, ss', fs')" "open_state_store True (ss_node ss) (ss_url ss) fs = Inr ss"
    and "json_valid (ss_node ss)" "json_valid (ss_url ss)" "json_valid now"
  shows "open_state_store True (ss_node ss') (ss_url ss') fs' = Inr ss'" "ss_seq ss \<le> ss_seq ss'"
    "er = None \<Longrightarrow> ss_seq ss' = seq" "er \<noteq> None \<Longrightarrow> ss' = ss \<and> fs' = fs" "ss_node ss' = ss_node ss" "ss_url ss' = ss_url ss"
  using assms by (auto simp: advance_to_def open_state_store_def not_less split: if_splits)

end
