(* ===== verification/BackgroundSync.thy ===== *)
theory BackgroundSync
  imports Bloom
begin

text \<open>
  The background pull worker of a follower (\<open>internal/node/background_sync.go\<close>) and the checks of its
  configuration (\<open>internal/node/config.go\<close>). Durations and instants are nanoseconds as Go keeps them, signed
  64-bit numbers (\<open>wrap64\<close>). The worker is a state machine: its goroutine attempts a synchronisation, waits
  for the interval or the back-off, and attempts again until it is cancelled; a replication gap blocks it
  for good. What an attempt brings (\<open>sync_outcome\<close>), the clock and the jitter are inputs of a step.
\<close>

section \<open>Configuration\<close>

record bg_config =
  bc_enabled :: bool
  bc_interval :: int
  bc_timeout :: int
  bc_initial :: int
  bc_max :: int
  bc_jitter :: float64

text \<open>\<open>NaN\<close> and infinities are above the bits of 1.0; of the numbers with a sign bit only minus zero is not
  negative.\<close>

definition fraction_ok :: "float64 \<Rightarrow> bool" where
  "fraction_ok f \<longleftrightarrow> f \<le> 0x3FF0000000000000 \<or> f = 0x8000000000000000"

definition bg_config_ok :: "bg_config \<Rightarrow> bool" where
  "bg_config_ok c =
     (if \<not> bc_enabled c then True
      else if bc_interval c \<le> 0 then False
      else if bc_timeout c \<le> 0 then False
      else if bc_initial c \<le> 0 then False
      else if bc_max c < bc_initial c then False
      else fraction_ok (bc_jitter c))"

section \<open>The status\<close>

datatype worker_state = W_disabled | W_starting | W_running | W_backing_off | W_blocked | W_stopping | W_stopped

record gap_error =
  ge_after :: u64
  ge_first :: u64
  ge_latest :: u64

record sync_success =
  sy_fetched :: nat
  sy_applied :: nat
  sy_last :: u64
  sy_primary :: u64
  sy_known :: bool

text \<open>What \<open>syncFn\<close> returns: a result, \<open>ErrSyncInProgress\<close>, a gap, or another error.\<close>

datatype sync_outcome = So_ok sync_success | So_busy | So_gap gap_error | So_error

record bg_status =
  bs_enabled :: bool
  bs_running :: bool
  bs_state :: worker_state
  bs_last_attempt :: "int option"
  bs_last_success :: "int option"
  bs_last_failure :: "int option"
  bs_fetched :: nat
  bs_applied :: nat
  bs_attempts :: int
  bs_successes :: int
  bs_failures :: int
  bs_skipped :: int
  bs_consecutive :: int
  bs_backoff_ms :: int
  bs_next_retry :: "int option"
  bs_has_error :: bool
  bs_follower_seq :: u64
  bs_primary_seq :: u64
  bs_lag :: int
  bs_lag_known :: bool
  bs_lag_at :: "int option"
  bs_blocked_reason :: string
  bs_gap :: "gap_error option"

text \<open>\<open>int64(a - b)\<close> of two sequence numbers.\<close>

definition seq_lag :: "u64 \<Rightarrow> u64 \<Rightarrow> int" where
  "seq_lag a b = sint (a - b)"

section \<open>The worker\<close>

text \<open>Where the goroutine is: not launched, about to attempt, waiting for a timer, blocked for good, exited.\<close>

datatype bg_phase = P_idle | P_attempt | P_wait int | P_blocked | P_exited

record bg_worker =
  bw_cfg :: bg_config
  bw_started :: bool
  bw_cancelled :: bool
  bw_phase :: bg_phase
  bw_backoff :: int
  bw_status :: bg_status

definition new_worker :: "bg_config \<Rightarrow> bg_worker" where
  "new_worker cfg =
     \<lparr>bw_cfg = cfg, bw_started = False, bw_cancelled = False, bw_phase = P_idle, bw_backoff = 0,
      bw_status = \<lparr>bs_enabled = bc_enabled cfg, bs_running = False, bs_state = W_disabled, bs_last_attempt = None,
        bs_last_success = None, bs_last_failure = None, bs_fetched = 0, bs_applied = 0, bs_attempts = 0, bs_successes = 0,
        bs_failures = 0, bs_skipped = 0, bs_consecutive = 0, bs_backoff_ms = 0, bs_next_retry = None, bs_has_error = False,
        bs_follower_seq = 0, bs_primary_seq = 0, bs_lag = 0, bs_lag_known = False, bs_lag_at = None, bs_blocked_reason = [],
        bs_gap = None\<rparr>\<rparr>"

text \<open>\<open>start\<close>, with the first lines of \<open>run\<close>; \<open>True\<close> is \<open>ErrAlreadyStarted\<close>.\<close>

definition worker_start :: "bg_worker \<Rightarrow> bool \<times> bg_worker" where
  "worker_start w =
     (if bw_started w then (True, w)
      else (False, w\<lparr>bw_started := True, bw_phase := P_attempt,
                     bw_status := (bw_status w)\<lparr>bs_state := W_running, bs_running := True\<rparr>\<rparr>))"

text \<open>Cancelling; the goroutine then leaves at its next step (\<open>worker_exit\<close>).\<close>

definition worker_cancel :: "bg_worker \<Rightarrow> bg_worker" where
  "worker_cancel w =
     (if \<not> bw_started w then w
      else w\<lparr>bw_cancelled := True,
             bw_status := (if bs_state (bw_status w) \<in> {W_blocked, W_stopped, W_stopping} then bw_status w
                           else (bw_status w)\<lparr>bs_state := W_stopping\<rparr>)\<rparr>)"

definition worker_exit :: "bg_worker \<Rightarrow> bg_worker" where
  "worker_exit w = w\<lparr>bw_phase := P_exited, bw_status := (bw_status w)\<lparr>bs_state := W_stopped, bs_running := False\<rparr>\<rparr>"

text \<open>\<open>stop\<close> waits for the goroutine.\<close>

definition worker_stop :: "bg_worker \<Rightarrow> bg_worker" where
  "worker_stop w =
     (if \<not> bw_started w then w
      else if bw_phase w = P_exited then worker_cancel w
      else worker_exit (worker_cancel w))"

text \<open>One \<open>doSync\<close>: \<open>now\<close> before and \<open>after\<close> after the call, whose outcome is \<open>out\<close>; \<open>cancelled\<close> says whether the
  worker's context is cancelled by then. The result is whether the worker is blocked.\<close>

definition next_backoff :: "bg_config \<Rightarrow> int \<Rightarrow> int" where
  "next_backoff cfg b =
     (let b' = (if b \<le> 0 then bc_initial cfg else wrap64 (b * 2)) in if b' > bc_max cfg then bc_max cfg else b')"

definition do_sync :: "int \<Rightarrow> int \<Rightarrow> sync_outcome \<Rightarrow> bool \<Rightarrow> bg_worker \<Rightarrow> bool \<times> bg_worker" where
  "do_sync now after out cancelled w =
     (let st0 = bw_status w;
          st1 = (if bs_state st0 \<noteq> W_blocked then st0\<lparr>bs_state := W_running\<rparr> else st0)
                  \<lparr>bs_last_attempt := Some now, bs_attempts := bs_attempts st0 + 1\<rparr> in
      if out = So_busy then
        (False, w\<lparr>bw_backoff := 0, bw_status := st1\<lparr>bs_attempts := bs_attempts st1 - 1, bs_skipped := bs_skipped st1 + 1\<rparr>\<rparr>)
      else if cancelled then (False, w\<lparr>bw_status := st1\<lparr>bs_attempts := bs_attempts st1 - 1\<rparr>\<rparr>)
      else
        (case out of
           So_gap g \<Rightarrow>
             (True, w\<lparr>bw_status := st1\<lparr>bs_failures := bs_failures st1 + 1, bs_consecutive := bs_consecutive st1 + 1,
                bs_last_failure := Some after, bs_has_error := True, bs_state := W_blocked, bs_running := False,
                bs_blocked_reason := ''replication_gap'', bs_gap := Some g, bs_lag_known := False, bs_backoff_ms := 0,
                bs_next_retry := None\<rparr>\<rparr>)
         | So_ok r \<Rightarrow>
             let st2 = st1\<lparr>bs_successes := bs_successes st1 + 1, bs_consecutive := 0, bs_last_success := Some after,
                   bs_has_error := False, bs_fetched := sy_fetched r, bs_applied := sy_applied r, bs_state := W_running,
                   bs_backoff_ms := 0, bs_next_retry := None, bs_blocked_reason := [], bs_gap := None,
                   bs_follower_seq := sy_last r, bs_primary_seq := sy_primary r, bs_lag_known := sy_known r,
                   bs_lag := (if sy_known r \<and> sy_primary r \<ge> sy_last r then seq_lag (sy_primary r) (sy_last r) else 0)\<rparr> in
             (False, w\<lparr>bw_backoff := 0, bw_status := (if sy_known r then st2\<lparr>bs_lag_at := Some after\<rparr> else st2)\<rparr>)
         | _ \<Rightarrow>
             (False, w\<lparr>bw_backoff := next_backoff (bw_cfg w) (bw_backoff w),
                bw_status := st1\<lparr>bs_failures := bs_failures st1 + 1, bs_consecutive := bs_consecutive st1 + 1,
                  bs_last_failure := Some after, bs_has_error := True, bs_lag_known := False\<rparr>\<rparr>)))"

text \<open>What \<open>run\<close> does between two attempts; \<open>jit\<close> is what \<open>jitterFn\<close> returns.\<close>

definition prepare_wait :: "int \<Rightarrow> int \<Rightarrow> bg_worker \<Rightarrow> bg_worker" where
  "prepare_wait now jit w =
     (if bw_backoff w > 0 then
        let d = wrap64 (bw_backoff w + jit) in
        w\<lparr>bw_phase := P_wait d,
          bw_status := (bw_status w)\<lparr>bs_state := W_backing_off, bs_backoff_ms := bw_backoff w div 1000000,
                                      bs_next_retry := Some (now + d)\<rparr>\<rparr>
      else
        w\<lparr>bw_phase := P_wait (bc_interval (bw_cfg w)),
          bw_status := (bw_status w)\<lparr>bs_state := W_running, bs_backoff_ms := 0, bs_next_retry := None\<rparr>\<rparr>)"

text \<open>The inputs of one attempt: the three clock readings, the outcome and the jitter.\<close>

record attempt_input =
  at_now :: int
  at_after :: int
  at_wait :: int
  at_outcome :: sync_outcome
  at_jitter :: int

definition attempt :: "attempt_input \<Rightarrow> bg_worker \<Rightarrow> bg_worker" where
  "attempt a w =
     (case do_sync (at_now a) (at_after a) (at_outcome a) (bw_cancelled w) w of
        (True, w') \<Rightarrow> w'\<lparr>bw_phase := P_blocked\<rparr>
      | (False, w') \<Rightarrow> prepare_wait (at_wait a) (at_jitter a) w')"

text \<open>The steps of the goroutine (an attempt, a timer that fires, leaving once cancelled) and of \<open>stop\<close>, which
  cancels and then waits for the goroutine. \<open>jitterFn\<close> returns at most the back-off.\<close>

definition jitter_ok :: "attempt_input \<Rightarrow> bg_worker \<Rightarrow> bool" where
  "jitter_ok a w \<longleftrightarrow>
     0 \<le> at_jitter a \<and> at_jitter a \<le> max 0 (bw_backoff (snd (do_sync (at_now a) (at_after a) (at_outcome a) (bw_cancelled w) w)))"

inductive bg_move :: "bg_worker \<Rightarrow> bg_worker \<Rightarrow> bool" where
  bg_timer: "bw_phase w = P_wait d \<Longrightarrow> bg_move w (w\<lparr>bw_phase := P_attempt\<rparr>)"
| bg_cancel: "bg_move w (worker_cancel w)"
| bg_leave: "bw_cancelled w \<Longrightarrow> bw_phase w = P_wait d \<or> bw_phase w = P_blocked \<Longrightarrow> bg_move w (worker_exit w)"

inductive bg_step :: "bg_worker \<Rightarrow> bg_worker \<Rightarrow> bool" where
  bg_attempt: "bw_phase w = P_attempt \<Longrightarrow> jitter_ok a w \<Longrightarrow> bg_step w (attempt a w)"
| bg_other: "bg_move w w' \<Longrightarrow> bg_step w w'"

text \<open>The attempts of a run, the latest first: the outcome of each and whether the worker was cancelled by then.
  \<open>bg_history cfg evs w\<close> says that \<open>w\<close> is a state some run of the worker is in after the attempts \<open>evs\<close>.\<close>

type_synonym bg_event = "sync_outcome \<times> bool"

inductive bg_history :: "bg_config \<Rightarrow> bg_event list \<Rightarrow> bg_worker \<Rightarrow> bool" for cfg where
  bg_init: "bg_history cfg [] (snd (worker_start (new_worker cfg)))"
| bg_tried: "bg_history cfg evs w \<Longrightarrow> bw_phase w = P_attempt \<Longrightarrow> jitter_ok a w
     \<Longrightarrow> bg_history cfg ((at_outcome a, bw_cancelled w) # evs) (attempt a w)"
| bg_moved: "bg_history cfg evs w \<Longrightarrow> bg_move w w' \<Longrightarrow> bg_history cfg evs w'"

text \<open>The failures since the last attempt that ended the back-off, by succeeding or by finding another synchronisation
  under way. A cancelled attempt and one that meets a gap leave it as it is.\<close>

primrec failure_streak :: "bg_event list \<Rightarrow> nat" where
  "failure_streak [] = 0"
| "failure_streak (e # evs) =
     (case e of (out, cancelled) \<Rightarrow>
        if out = So_busy then 0 else if cancelled then failure_streak evs
        else (case out of So_ok r \<Rightarrow> 0 | So_gap g \<Rightarrow> failure_streak evs | _ \<Rightarrow> Suc (failure_streak evs)))"

inductive_cases bg_moveE: "bg_move w w'"

inductive_cases bg_stepE: "bg_step w w'"

section \<open>The back-off\<close>

text \<open>The back-off after \<open>n\<close> failures in a row.\<close>

definition backoff_of :: "bg_config \<Rightarrow> nat \<Rightarrow> int" where
  "backoff_of cfg n = (if n = 0 then 0 else min (bc_max cfg) (bc_initial cfg * 2 ^ (n - 1)))"

definition bg_times_ok :: "bg_config \<Rightarrow> bool" where
  "bg_times_ok cfg \<longleftrightarrow> bg_config_ok cfg \<and> bc_enabled cfg \<and> bc_max cfg < 2 ^ 62"

lemma bg_times: "bg_times_ok cfg \<Longrightarrow> 0 < bc_interval cfg \<and> 0 < bc_initial cfg \<and> bc_initial cfg \<le> bc_max cfg \<and> bc_max cfg < 2 ^ 62"
  by (auto simp: bg_times_ok_def bg_config_ok_def split: if_splits)

lemma next_backoff_of:
  assumes "bg_times_ok cfg"
  shows "next_backoff cfg (backoff_of cfg n) = backoff_of cfg (Suc n)" "0 \<le> backoff_of cfg n" "backoff_of cfg n \<le> bc_max cfg"
    "n \<noteq> 0 \<Longrightarrow> 0 < backoff_of cfg n"
proof -
  note t = bg_times [OF assms]
  have pos: "0 < bc_initial cfg * 2 ^ m" for m using t by simp
  show b: "0 \<le> backoff_of cfg n" "backoff_of cfg n \<le> bc_max cfg" "n \<noteq> 0 \<Longrightarrow> 0 < backoff_of cfg n"
    using t pos [of "n - 1"] by (auto simp: backoff_of_def)
  show "next_backoff cfg (backoff_of cfg n) = backoff_of cfg (Suc n)"
  proof (cases n)
    case 0
    then show ?thesis using t by (simp add: next_backoff_def backoff_of_def)
  next
    case (Suc m)
    let ?x = "bc_initial cfg * 2 ^ m"
    have e: "backoff_of cfg n = min (bc_max cfg) ?x" "backoff_of cfg (Suc n) = min (bc_max cfg) (2 * ?x)"
      using Suc by (simp_all add: backoff_of_def)
    have p: "0 < backoff_of cfg n" using b(3) Suc by simp
    have w: "wrap64 (backoff_of cfg n * 2) = 2 * backoff_of cfg n"
      using p b(2) t by (subst wrap64_small) auto
    have "next_backoff cfg (backoff_of cfg n) = min (bc_max cfg) (2 * backoff_of cfg n)"
      using p w by (simp add: next_backoff_def Let_def min_def)
    also have "\<dots> = backoff_of cfg (Suc n)" unfolding e using pos [of m] t by (auto simp: min_def)
    finally show ?thesis .
  qed
qed

section \<open>The invariant of the worker\<close>

text \<open>The configuration is fixed, the back-off is that of the \<open>n\<close> failures in a row, the counters agree, a wait is the interval or the back-off with its jitter, and a blocked worker shows its gap.\<close>

definition bg_counts :: "bg_status \<Rightarrow> bool" where
  "bg_counts st \<longleftrightarrow> 0 \<le> bs_successes st \<and> 0 \<le> bs_failures st \<and> 0 \<le> bs_skipped st \<and> 0 \<le> bs_consecutive st \<and>
     bs_consecutive st \<le> bs_failures st \<and> bs_attempts st = bs_successes st + bs_failures st"

definition bg_wait_ok :: "bg_worker \<Rightarrow> bool" where
  "bg_wait_ok w \<longleftrightarrow>
     (case bw_phase w of
        P_wait d \<Rightarrow> if bw_backoff w > 0 then bw_backoff w \<le> d \<and> d \<le> 2 * bw_backoff w else d = bc_interval (bw_cfg w)
      | P_blocked \<Rightarrow> bs_gap (bw_status w) \<noteq> None \<and> \<not> bs_running (bw_status w)
      | _ \<Rightarrow> True)"

definition bg_inv :: "bg_config \<Rightarrow> nat \<Rightarrow> bg_worker \<Rightarrow> bool" where
  "bg_inv cfg n w \<longleftrightarrow> bw_cfg w = cfg \<and> bw_started w \<and> bg_counts (bw_status w) \<and>
     int n \<le> bs_consecutive (bw_status w) \<and> bw_backoff w = backoff_of cfg n \<and> bg_wait_ok w"

lemma backoff_zero [simp]: "backoff_of cfg 0 = 0"
  by (simp add: backoff_of_def)

lemma bg_inv_start: "bg_inv cfg 0 (snd (worker_start (new_worker cfg)))"
  by (auto simp: bg_inv_def worker_start_def new_worker_def bg_counts_def bg_wait_ok_def)

text \<open>An attempt keeps everything but the wait, and moves the back-off as the history says, whatever it brings.\<close>

lemma do_sync_keeps:
  assumes t: "bg_times_ok cfg" and i: "bg_inv cfg (failure_streak evs) w" and d: "do_sync now after out c w = (b, w')"
  shows "bw_cfg w' = cfg \<and> bw_started w' \<and> bg_counts (bw_status w') \<and>
     int (failure_streak ((out, c) # evs)) \<le> bs_consecutive (bw_status w') \<and>
     bw_backoff w' = backoff_of cfg (failure_streak ((out, c) # evs)) \<and>
     (b \<longrightarrow> bs_gap (bw_status w') \<noteq> None \<and> \<not> bs_running (bw_status w'))"
proof -
  have n: "int (failure_streak evs) \<le> bs_consecutive (bw_status w)" "bw_backoff w = backoff_of cfg (failure_streak evs)"
    and s: "bw_cfg w = cfg" "bw_started w" "bg_counts (bw_status w)"
    using i by (auto simp: bg_inv_def)
  note nb = next_backoff_of(1) [OF t, of "failure_streak evs"]
  show ?thesis
    using d s n nb by (cases out; cases c) (auto simp: do_sync_def Let_def bg_counts_def)
qed

lemma prepare_wait_keeps:
  "bw_cfg (prepare_wait now j w) = bw_cfg w" "bw_started (prepare_wait now j w) = bw_started w"
  "bw_backoff (prepare_wait now j w) = bw_backoff w"
  "bs_consecutive (bw_status (prepare_wait now j w)) = bs_consecutive (bw_status w)"
  "bg_counts (bw_status (prepare_wait now j w)) = bg_counts (bw_status w)"
  by (auto simp: prepare_wait_def bg_counts_def Let_def)

lemma prepare_wait_wait:
  assumes "bg_times_ok cfg" "bw_cfg w = cfg" "bw_backoff w = backoff_of cfg n" "0 \<le> j" "j \<le> max 0 (bw_backoff w)"
  shows "bg_wait_ok (prepare_wait now j w)"
proof (cases "bw_backoff w > 0")
  case True
  have "wrap64 (bw_backoff w + j) = bw_backoff w + j"
    using True assms(4,5) next_backoff_of(3) [OF assms(1), of n] bg_times [OF assms(1)] assms(3) by (intro wrap64_small) auto
  then show ?thesis using True assms(4,5) by (simp add: bg_wait_ok_def prepare_wait_def Let_def)
next
  case False
  then show ?thesis by (simp add: bg_wait_ok_def prepare_wait_def)
qed

lemma bg_inv_attempt:
  assumes t: "bg_times_ok cfg" and i: "bg_inv cfg (failure_streak evs) w" and j: "jitter_ok a w"
  shows "bg_inv cfg (failure_streak ((at_outcome a, bw_cancelled w) # evs)) (attempt a w)"
proof -
  obtain b w' where d: "do_sync (at_now a) (at_after a) (at_outcome a) (bw_cancelled w) w = (b, w')"
    by (cases "do_sync (at_now a) (at_after a) (at_outcome a) (bw_cancelled w) w") auto
  note k = do_sync_keeps [OF t i d]
  show ?thesis
  proof (cases b)
    case True
    then show ?thesis using d k by (simp add: attempt_def bg_inv_def bg_wait_ok_def)
  next
    case False
    have "bg_wait_ok (prepare_wait (at_wait a) (at_jitter a) w')"
      using k j d by (intro prepare_wait_wait [OF t]) (auto simp: jitter_ok_def)
    then show ?thesis using False d k by (simp add: attempt_def bg_inv_def prepare_wait_keeps)
  qed
qed

lemma bg_inv_cancel: "bg_inv cfg n w \<Longrightarrow> bg_inv cfg n (worker_cancel w)"
  by (auto simp: bg_inv_def worker_cancel_def bg_counts_def bg_wait_ok_def split: bg_phase.splits)

lemma bg_inv_exit: "bg_inv cfg n w \<Longrightarrow> bg_inv cfg n (worker_exit w)"
  by (auto simp: bg_inv_def worker_exit_def bg_counts_def bg_wait_ok_def)

lemma bg_inv_timer: "bg_inv cfg n w \<Longrightarrow> bg_inv cfg n (w\<lparr>bw_phase := P_attempt\<rparr>)"
  by (auto simp: bg_inv_def bg_counts_def bg_wait_ok_def)

lemma bg_inv_move: "bg_move w w' \<Longrightarrow> bg_inv cfg n w \<Longrightarrow> bg_inv cfg n w'"
  by (induction rule: bg_move.induct) (rule bg_inv_timer bg_inv_cancel bg_inv_exit, assumption)+

lemma bg_inv_history: "bg_history cfg evs w \<Longrightarrow> bg_times_ok cfg \<Longrightarrow> bg_inv cfg (failure_streak evs) w"
  by (induction rule: bg_history.induct) (auto simp del: failure_streak.simps intro: bg_inv_attempt bg_inv_move
    simp: failure_streak.simps(1) bg_inv_start)

text \<open>Every step leads to a state with a history.\<close>

lemma bg_history_step: "bg_history cfg evs w \<Longrightarrow> bg_step w w' \<Longrightarrow> \<exists>evs'. bg_history cfg evs' w'"
proof (erule bg_stepE)
  fix a
  assume "bg_history cfg evs w" "w' = attempt a w" "bw_phase w = P_attempt" "jitter_ok a w"
  then show ?thesis using bg_tried by blast
next
  assume "bg_history cfg evs w" "bg_move w w'"
  then show ?thesis using bg_moved by blast
qed

text \<open>A blocked worker only leaves.\<close>

lemma bg_blocked_step:
  assumes "bg_step w w'" "bw_phase w = P_blocked"
  shows "bw_phase w' \<in> {P_blocked, P_exited} \<and> bs_attempts (bw_status w') = bs_attempts (bw_status w) \<and>
     bs_gap (bw_status w') = bs_gap (bw_status w)"
  using assms by (auto simp: worker_cancel_def worker_exit_def elim!: bg_stepE bg_moveE)

text \<open>C40: Take a background worker whose configuration is valid and enabled with a largest back-off below 2^62
  nanoseconds, in any state it reaches, and the attempts it has made (each with its outcome and whether the worker was
  cancelled by then). The back-off is a function of that history alone: let k be the number of failures other than a
  replication gap since the last attempt that succeeded or found another synchronisation under way, not counting
  attempts that ended after the cancellation. The back-off is zero when k is zero, and otherwise the initial one doubled
  k - 1 times, capped at the largest one. A wait is the interval when the back-off is zero, and else the back-off plus at
  most as much jitter, so never zero or negative; every counted attempt is one success or one failure; and a worker blocked
  by a replication gap shows the gap, does not count as running and never attempts again.\<close>

theorem bg_worker_backoff:
  assumes "bg_times_ok cfg" "bg_history cfg evs w"
  shows "bw_backoff w =
       (if failure_streak evs = 0 then 0 else min (bc_max cfg) (bc_initial cfg * 2 ^ (failure_streak evs - 1))) \<and>
     int (failure_streak evs) \<le> bs_consecutive (bw_status w) \<and>
     0 \<le> bw_backoff w \<and> bw_backoff w \<le> bc_max cfg \<and>
     (\<forall>d. bw_phase w = P_wait d \<longrightarrow> 0 < d \<and>
        (if failure_streak evs = 0 then d = bc_interval cfg else bw_backoff w \<le> d \<and> d \<le> 2 * bw_backoff w)) \<and>
     bs_attempts (bw_status w) = bs_successes (bw_status w) + bs_failures (bw_status w) \<and>
     (bw_phase w = P_blocked \<longrightarrow> bs_gap (bw_status w) \<noteq> None \<and> \<not> bs_running (bw_status w) \<and>
        (\<forall>w'. bg_step w w' \<longrightarrow> bw_phase w' \<in> {P_blocked, P_exited} \<and>
           bs_attempts (bw_status w') = bs_attempts (bw_status w)))"
proof -
  note i = bg_inv_history [OF assms(2,1)] and t = bg_times [OF assms(1)]
  let ?n = "failure_streak evs"
  note b = next_backoff_of(2-4) [OF assms(1), of ?n]
  have e: "bw_backoff w = backoff_of cfg ?n" "int ?n \<le> bs_consecutive (bw_status w)" using i by (simp_all add: bg_inv_def)
  have d: "0 < d \<and> (if ?n = 0 then d = bc_interval cfg else bw_backoff w \<le> d \<and> d \<le> 2 * bw_backoff w)"
    if "bw_phase w = P_wait d" for d
    using i t b that by (auto simp: bg_inv_def bg_wait_ok_def split: if_splits)
  have c: "bs_attempts (bw_status w) = bs_successes (bw_status w) + bs_failures (bw_status w)"
    using i by (simp add: bg_inv_def bg_counts_def)
  have l: "bs_gap (bw_status w) \<noteq> None \<and> \<not> bs_running (bw_status w)" if "bw_phase w = P_blocked"
    using i that by (simp add: bg_inv_def bg_wait_ok_def)
  have e': "bw_backoff w = (if ?n = 0 then 0 else min (bc_max cfg) (bc_initial cfg * 2 ^ (?n - 1)))"
    using e(1) by (simp add: backoff_of_def)
  have r: "0 \<le> bw_backoff w" "bw_backoff w \<le> bc_max cfg" using b e(1) by simp_all
  show ?thesis by (intro conjI impI allI) (use e' e(2) r d c l bg_blocked_step in blast)+
qed

definition demo_bg :: bg_config where
  "demo_bg = \<lparr>bc_enabled = True, bc_interval = 1000000000, bc_timeout = 2000000000, bc_initial = 100000000,
     bc_max = 150000000, bc_jitter = 0x3FC999999999999A\<rparr>"

definition demo_attempt :: "sync_outcome \<Rightarrow> attempt_input" where
  "demo_attempt out = \<lparr>at_now = 1, at_after = 2, at_wait = 3, at_outcome = out, at_jitter = 10\<rparr>"

text \<open>Two failures in a row: the second back-off is capped.\<close>

definition demo_worker :: bg_worker where
  "demo_worker = attempt (demo_attempt So_error) ((attempt (demo_attempt So_error) (snd (worker_start (new_worker demo_bg))))\<lparr>bw_phase := P_attempt\<rparr>)"

lemma demo_worker_history: "bg_history demo_bg [(So_error, False), (So_error, False)] demo_worker"
proof -
  let ?w0 = "snd (worker_start (new_worker demo_bg))" and ?a = "demo_attempt So_error"
  let ?w1 = "(attempt ?a ?w0)\<lparr>bw_phase := P_attempt\<rparr>"
  have o: "at_outcome ?a = So_error" "bw_cancelled ?w0 = False" "bw_cancelled ?w1 = False" by code_simp+
  have s1: "bw_phase ?w0 = P_attempt" "jitter_ok ?a ?w0" by code_simp+
  have s2: "bw_phase ?w1 = P_attempt" "jitter_ok ?a ?w1" by code_simp+
  have p1: "bw_phase (attempt ?a ?w0) = P_wait 100000010" by code_simp
  show ?thesis
    using bg_tried [OF bg_moved [OF bg_tried [OF bg_init s1] bg_timer [OF p1]] s2] by (simp add: o demo_worker_def)
qed

theorem bg_worker_backoff_witness:
  "bw_phase demo_worker = P_wait 150000010 \<and> bw_backoff demo_worker = min 150000000 (100000000 * 2 ^ 1) \<and>
   bs_attempts (bw_status demo_worker) = 2 \<and> bw_backoff demo_worker \<le> bc_max demo_bg"
proof -
  have p: "bw_phase demo_worker = P_wait 150000010" "bs_attempts (bw_status demo_worker) = 2" "bg_times_ok demo_bg"
    by code_simp+
  have k: "bc_max demo_bg = 150000000" "bc_initial demo_bg = 100000000" by (simp_all add: demo_bg_def)
  show ?thesis using bg_worker_backoff [OF p(3) demo_worker_history] p k by simp
qed

end
