(* ===== verification/Node.thy ===== *)
theory Node
  imports Explain Records BackgroundSync
begin

text \<open>
  A networked node (\<open>internal/node/server.go\<close>, \<open>config.go\<close>, \<open>quiesce.go\<close>, \<open>types.go\<close>): one engine, the journal of
  a primary or the cursor of a follower, the write gate, and the quiesce and promotion state. This theory
  holds the state, \<open>Open\<close> with the resolution of the role from the durable records, \<open>Start\<close> and \<open>Close\<close>, and the
  replication operations below the handlers. An operation between two lock acquisitions is one function;
  where the code waits (for the primary's answer, for the lock of a promotion) it is split in two. I/O
  results, clock readings and what the network brings are arguments; error texts are left out.
\<close>

section \<open>Options\<close>

record node_options =
  no_id :: bytes
  no_addr :: bytes
  no_dir :: path
  no_sync :: bool
  no_mem_max :: u64
  no_role :: string
  no_primary_url :: bytes
  no_bg :: bg_config

datatype node_error = NErrOptions | NErrClosed | NErrAlreadyStarted | NErrListen | NErrEngine engine_error
  | NErrRecord record_error | NErrJournal rep_error | NErrCorruptRole | NErrPromotionInProgress | NErrNotFollower
  | NErrNoReplicator | NErrSyncInProgress | NErrInvalidEntry | NErrGap gap_error | NErrPull | NErrConfirm
  | NErrRecordInvalid | NErrSourceMismatch | NErrSequenceMismatch | NErrNotReady

definition role_primary :: string where "role_primary = ''primary''"
definition role_follow :: string where "role_follow = ''follower''"
definition role_standalone :: string where "role_standalone = ''standalone''"

lemmas role_defs = role_primary_def role_follow_def role_standalone_def

definition node_options_ok :: "bool \<Rightarrow> node_options \<Rightarrow> bool" where
  "node_options_ok mkdir_ok opts =
     (if no_id opts = [] then False
      else if no_addr opts = [] then False
      else if no_dir opts = [] then False
      else if \<not> mkdir_ok then False
      else if no_role opts = [] \<or> no_role opts = role_primary then \<not> bc_enabled (no_bg opts)
      else if no_role opts = role_follow then no_primary_url opts \<noteq> [] \<and> bg_config_ok (no_bg opts)
      else False)"

definition node_engine_options :: "node_options \<Rightarrow> engine_options" where
  "node_engine_options opts =
     \<lparr>eo_dir = no_dir opts, eo_mem_max = (if no_mem_max opts = 0 then push_bit 20 64 else no_mem_max opts),
      eo_sync = no_sync opts, eo_wal_max = 0, eo_sst_max = 0, eo_fpr = 0\<rparr>"

section \<open>State\<close>

text \<open>The data directory: the engine's files, the journal with its baseline, and the records.\<close>

record node_disk =
  nd_engine :: disk
  nd_journal :: journal_dir
  nd_records :: record_files

datatype quiesce_phase = Q_none | Q_active | Q_failed_fenced | Q_quiesced
datatype promotion_phase = Pm_none | Pm_promoting | Pm_promoted
datatype role_source = From_config | From_promotion

text \<open>\<open>nn_gate\<close> is the write gate (\<open>Some True\<close> once quiesced); \<open>nn_syncing\<close> and \<open>nn_barrier\<close> are the two atomic flags.
  \<open>nn_journal\<close> is the journal's directory as it was when the journal was opened.\<close>

record node =
  nn_opts :: node_options
  nn_eng :: engine
  nn_log :: "durable_log option"
  nn_cursor :: "state_store option"
  nn_replicator :: bool
  nn_applied :: u64
  nn_syncing :: bool
  nn_worker :: "bg_worker option"
  nn_gate :: "bool option"
  nn_barrier :: bool
  nn_qstate :: quiesce_phase
  nn_qrec :: "quiesce_record option"
  nn_pending :: "quiesce_record option"
  nn_intent_active :: bool
  nn_pstate :: promotion_phase
  nn_prec :: "promotion_record option"
  nn_role :: string
  nn_source :: role_source
  nn_started :: bool
  nn_closed :: bool
  nn_bound :: "bytes option"
  nn_journal :: journal_dir
  nn_files :: record_files

definition fresh_node :: "node_options \<Rightarrow> engine \<Rightarrow> journal_dir \<Rightarrow> record_files \<Rightarrow> node" where
  "fresh_node opts e jd fs =
     \<lparr>nn_opts = opts, nn_eng = e, nn_log = None, nn_cursor = None, nn_replicator = False, nn_applied = 0, nn_syncing = False,
      nn_worker = None, nn_gate = None, nn_barrier = False, nn_qstate = Q_none, nn_qrec = None, nn_pending = None,
      nn_intent_active = False, nn_pstate = Pm_none, nn_prec = None, nn_role = [], nn_source = From_config,
      nn_started = False, nn_closed = False, nn_bound = None, nn_journal = jd, nn_files = fs\<rparr>"

text \<open>The directory as a later \<open>Open\<close> finds it, whether the node was closed or has crashed between two calls.\<close>

definition node_journal_dir :: "node \<Rightarrow> journal_dir" where
  "node_journal_dir n =
     (case nn_log n of None \<Rightarrow> nn_journal n | Some dl \<Rightarrow> (nn_journal n)\<lparr>jd_journal := Some (f_bytes (dl_file dl))\<rparr>)"

definition node_directory :: "node \<Rightarrow> node_disk" where
  "node_directory n = \<lparr>nd_engine = directory (nn_eng n), nd_journal = node_journal_dir n, nd_records = nn_files n\<rparr>"

section \<open>The role\<close>

record open_io =
  oi_mkdir :: bool
  oi_engine :: "io_fault option"
  oi_state :: bool
  oi_journal :: "journal_open_fault option"
  oi_remove :: bool

definition good_open :: open_io where
  "good_open = \<lparr>oi_mkdir = True, oi_engine = None, oi_state = True, oi_journal = None, oi_remove = True\<rparr>"

text \<open>The cross-checks of a promotion record.\<close>

definition check_promotion :: "bool \<Rightarrow> promotion_record \<Rightarrow> node \<Rightarrow> node_error option" where
  "check_promotion state_ok rec n =
     (if pr_node rec \<noteq> no_id (nn_opts n) then Some NErrCorruptRole
      else if pr_role rec \<noteq> ascii role_primary then Some NErrCorruptRole
      else if pr_source rec = [] then Some NErrCorruptRole
      else if pr_source_url rec = [] then Some NErrCorruptRole
      else if pr_quiesce rec = [] then Some NErrCorruptRole
      else if pr_seq rec = - 1 then Some NErrCorruptRole
      else
        (case load_baseline (nn_journal n) of
           Inl e \<Rightarrow> Some (NErrJournal e)
         | Inr None \<Rightarrow> Some NErrCorruptRole
         | Inr (Some b) \<Rightarrow>
             if jb_base b \<noteq> pr_seq rec then Some NErrCorruptRole
             else
               (case open_state_store state_ok (pr_node rec) (pr_source_url rec) (nn_files n) of
                  Inl e \<Rightarrow> Some (NErrRecord e)
                | Inr ss \<Rightarrow> if pr_seq rec > 0 \<and> ss_seq ss \<noteq> pr_seq rec then Some NErrCorruptRole else None)))"

definition open_node_log :: "journal_open_fault option \<Rightarrow> node \<Rightarrow> node_error option \<times> node" where
  "open_node_log fault n =
     (case open_durable_log fault (nn_journal n) of
        (Inl e, d) \<Rightarrow> (Some (NErrJournal e), n\<lparr>nn_journal := d\<rparr>)
      | (Inr dl, d) \<Rightarrow> (None, n\<lparr>nn_journal := d, nn_log := Some dl\<rparr>))"

definition resolve_promoted :: "open_io \<Rightarrow> promotion_record \<Rightarrow> node \<Rightarrow> node_error option \<times> node" where
  "resolve_promoted io rec n =
     (case check_promotion (oi_state io) rec n of
        Some e \<Rightarrow> (Some e, n)
      | None \<Rightarrow>
          open_node_log (oi_journal io)
            (n\<lparr>nn_role := role_primary, nn_source := From_promotion, nn_prec := Some rec, nn_pstate := Pm_promoted,
               nn_gate := Some False, nn_qstate := Q_active\<rparr>))"

text \<open>A record that may be missing: \<open>Inr None\<close>; any other error is one.\<close>

definition maybe_record :: "record_error + 'a \<Rightarrow> record_error + 'a option" where
  "maybe_record x = (case x of Inl RcNotFound \<Rightarrow> Inr None | Inl e \<Rightarrow> Inl e | Inr r \<Rightarrow> Inr (Some r))"

definition pending_of :: "quiesce_intent \<Rightarrow> quiesce_record" where
  "pending_of i =
     (let r = \<lparr>qr_version = 1, qr_id = qi_id i, qr_node = qi_node i, qr_url = qi_url i, qr_seq = 0, qr_at = qi_at i, qr_checksum = 0\<rparr>
      in r\<lparr>qr_checksum := quiesce_checksum r\<rparr>)"

text \<open>The fence of a primary, from the intent and the final record.\<close>

definition resolve_fence :: "bool \<Rightarrow> node \<Rightarrow> node_error option \<times> node" where
  "resolve_fence remove_ok n =
     (case maybe_record (load_intent (nn_files n)) of
        Inl e \<Rightarrow> (Some (NErrRecord e), n)
      | Inr intent \<Rightarrow>
          (case maybe_record (load_quiesce (nn_files n)) of
             Inl e \<Rightarrow> (Some (NErrRecord e), n)
           | Inr final \<Rightarrow>
               (case (intent, final) of
                  (None, None) \<Rightarrow> (None, n)
                | (None, Some f) \<Rightarrow> (None, n\<lparr>nn_qrec := Some f, nn_qstate := Q_quiesced, nn_gate := Some True\<rparr>)
                | (Some i, None) \<Rightarrow>
                    (None, n\<lparr>nn_gate := Some True, nn_qstate := Q_failed_fenced, nn_pending := Some (pending_of i)\<rparr>)
                | (Some i, Some f) \<Rightarrow>
                    if qi_id i \<noteq> qr_id f then (Some NErrCorruptRole, n)
                    else
                      (case remove_intent remove_ok (nn_files n) of
                         (Some e, fs) \<Rightarrow> (Some (NErrRecord e), n\<lparr>nn_files := fs\<rparr>)
                       | (None, fs) \<Rightarrow>
                           (None, n\<lparr>nn_files := fs, nn_qrec := Some f, nn_qstate := Q_quiesced, nn_gate := Some True\<rparr>)))))"

definition resolve_config :: "open_io \<Rightarrow> node \<Rightarrow> node_error option \<times> node" where
  "resolve_config io n =
     (let role = (if no_role (nn_opts n) = [] then role_standalone else no_role (nn_opts n));
          n1 = n\<lparr>nn_role := role, nn_source := From_config\<rparr>;
          n2 = (if role = role_primary \<or> role = role_standalone then n1\<lparr>nn_gate := Some False, nn_qstate := Q_active\<rparr> else n1) in
      if role = role_primary then resolve_fence (oi_remove io) n2 else (None, n2))"

definition resolve_role :: "open_io \<Rightarrow> node \<Rightarrow> node_error option \<times> node" where
  "resolve_role io n =
     (case load_promotion (nn_files n) of
        Inr rec \<Rightarrow> resolve_promoted io rec n
      | Inl RcNotFound \<Rightarrow> resolve_config io n
      | Inl e \<Rightarrow> (Some (NErrRecord e), n))"

section \<open>Open, Start and Close\<close>

text \<open>After the role: the journal of a primary and the number of a pending fence, or the cursor and the
  worker of a follower.\<close>

definition stamp_pending :: "node \<Rightarrow> node" where
  "stamp_pending n =
     (case (nn_qstate n, nn_pending n, nn_log n) of
        (Q_failed_fenced, Some r, Some dl) \<Rightarrow>
          if qr_seq r = 0 then
            let r' = r\<lparr>qr_seq := latest_seq dl\<rparr> in n\<lparr>nn_pending := Some (r'\<lparr>qr_checksum := quiesce_checksum r'\<rparr>)\<rparr>
          else n
      | _ \<Rightarrow> n)"

definition open_replication :: "open_io \<Rightarrow> node \<Rightarrow> node_error option \<times> node" where
  "open_replication io n =
     (if nn_role n = role_primary then
        (case (if nn_log n = None then open_node_log (oi_journal io) n else (None, n)) of
           (Some e, n') \<Rightarrow> (Some e, n')
         | (None, n') \<Rightarrow> (None, stamp_pending n'))
      else if nn_role n = role_follow then
        (case open_state_store (oi_state io) (no_id (nn_opts n)) (no_primary_url (nn_opts n)) (nn_files n) of
           Inl e \<Rightarrow> (Some (NErrRecord e), n)
         | Inr ss \<Rightarrow>
             (None, n\<lparr>nn_cursor := Some ss, nn_applied := ss_seq ss, nn_replicator := True,
                      nn_worker := (if bc_enabled (no_bg (nn_opts n)) then Some (new_worker (no_bg (nn_opts n))) else None)\<rparr>))
      else (None, n))"

definition node_open :: "open_io \<Rightarrow> node_options \<Rightarrow> node_disk \<Rightarrow> (node_error + node) \<times> node_disk" where
  "node_open io opts d =
     (if \<not> node_options_ok (oi_mkdir io) opts then (Inl NErrOptions, d)
      else
        (case engine_open (oi_engine io) (node_engine_options opts) (nd_engine d) of
           (Inl e, de) \<Rightarrow> (Inl (NErrEngine e), d\<lparr>nd_engine := de\<rparr>)
         | (Inr eng, de) \<Rightarrow>
             (case resolve_role io (fresh_node opts eng (nd_journal d) (nd_records d)) of
                (Some e, n) \<Rightarrow> (Inl e, node_directory n)
              | (None, n) \<Rightarrow>
                  (case open_replication io n of
                     (Some e, n') \<Rightarrow> (Inl e, node_directory n')
                   | (None, n') \<Rightarrow> (Inr n', node_directory n')))))"

definition node_addr :: "node \<Rightarrow> bytes" where
  "node_addr n = (case nn_bound n of Some a \<Rightarrow> a | None \<Rightarrow> no_addr (nn_opts n))"

text \<open>What \<open>Start\<close> and \<open>StartBackground\<close> share; \<open>bound\<close> is what \<open>net.Listen\<close> gives.\<close>

definition node_start :: "bytes option \<Rightarrow> node \<Rightarrow> node_error option \<times> node" where
  "node_start bound n =
     (if nn_closed n then (Some NErrClosed, n)
      else if nn_started n then (Some NErrAlreadyStarted, n)
      else
        (case bound of
           None \<Rightarrow> (Some NErrListen, n)
         | Some a \<Rightarrow>
             let n1 = n\<lparr>nn_bound := Some a, nn_started := True\<rparr> in
             (case nn_worker n of
                None \<Rightarrow> (None, n1)
              | Some w \<Rightarrow>
                  (case worker_start w of
                     (True, _) \<Rightarrow> (Some NErrAlreadyStarted, n1)
                   | (False, w') \<Rightarrow> (None, n1\<lparr>nn_worker := Some w'\<rparr>)))))"

definition node_close :: "node \<Rightarrow> node_error option \<times> node" where
  "node_close n =
     (if nn_closed n then (None, n)
      else
        (case engine_close (nn_eng n) of
           (er, e') \<Rightarrow>
             (map_option NErrEngine er,
              n\<lparr>nn_closed := True, nn_worker := map_option worker_stop (nn_worker n),
                nn_log := map_option durable_close (nn_log n), nn_eng := e'\<rparr>)))"

section \<open>Status\<close>

record replica_status =
  nst_role :: string
  nst_url :: bytes
  nst_local :: u64
  nst_applied :: u64
  nst_durable :: bool
  nst_persistent :: bool

definition no_status :: replica_status where
  "no_status = \<lparr>nst_role = [], nst_url = [], nst_local = 0, nst_applied = 0, nst_durable = False, nst_persistent = False\<rparr>"

text \<open>\<open>LastSeq\<close> of the journal's statistics, 0 without a journal or when it is closed.\<close>

definition journal_last :: "node \<Rightarrow> u64" where
  "journal_last n =
     (case nn_log n of
        None \<Rightarrow> 0
      | Some dl \<Rightarrow> (case durable_stats_of True dl of Inl _ \<Rightarrow> 0 | Inr st \<Rightarrow> ds_last st))"

definition replication_status :: "node \<Rightarrow> replica_status" where
  "replication_status n =
     (if nn_role n = role_primary then no_status\<lparr>nst_role := role_primary, nst_local := journal_last n, nst_durable := True\<rparr>
      else if nn_role n = role_follow then
        no_status\<lparr>nst_role := role_follow, nst_url := no_primary_url (nn_opts n), nst_applied := nn_applied n,
                  nst_durable := True, nst_persistent := True\<rparr>
      else no_status)"

definition background_status :: "node \<Rightarrow> bg_status" where
  "background_status n =
     (case nn_worker n of
        None \<Rightarrow> (bw_status (new_worker (no_bg (nn_opts n))))\<lparr>bs_enabled := False\<rparr>
      | Some w \<Rightarrow> bw_status w)"

section \<open>Serving the journal\<close>

definition replication_entries :: "u64 \<Rightarrow> int \<Rightarrow> node \<Rightarrow> node_error + rep_entry list" where
  "replication_entries after limit n =
     (case nn_log n of
        None \<Rightarrow> Inr []
      | Some dl \<Rightarrow>
          let first = first_available_seq dl in
          if first > 0 \<and> after + 1 < first then
            Inl (NErrGap \<lparr>ge_after = after, ge_first = first, ge_latest = journal_last n\<rparr>)
          else (case durable_entries_after after limit dl of Inl e \<Rightarrow> Inl (NErrJournal e) | Inr es \<Rightarrow> Inr es))"

section \<open>Applying entries\<close>

record sync_io =
  si_engine :: "(write_outcome \<times> bool) list"
  si_state :: bool
  si_now :: bytes

text \<open>The log outcomes of the engine's writes come from a list; when it is used up, writes succeed.\<close>

definition next_outcome :: "(write_outcome \<times> bool) list \<Rightarrow> write_outcome \<times> bool" where
  "next_outcome ios = (case ios of [] \<Rightarrow> (Write_ok, True) | io # _ \<Rightarrow> io)"

definition apply_entry :: "write_outcome \<times> bool \<Rightarrow> rep_entry \<Rightarrow> engine \<Rightarrow> node_error option \<times> engine" where
  "apply_entry io en e =
     (if re_op en = op_put then
        (case engine_put (re_key en) (re_value en) (fst io) (snd io) e of (er, e') \<Rightarrow> (map_option NErrEngine er, e'))
      else if re_op en = op_delete then
        (case engine_delete (re_key en) (fst io) (snd io) e of (er, e') \<Rightarrow> (map_option NErrEngine er, e'))
      else (Some NErrInvalidEntry, e))"

fun apply_entries ::
    "(write_outcome \<times> bool) list \<Rightarrow> rep_entry list \<Rightarrow> u64 \<Rightarrow> engine \<Rightarrow> node_error option \<times> u64 \<times> engine" where
  "apply_entries ios [] lst e = (None, lst, e)"
| "apply_entries ios (en # ens) lst e =
     (if re_seq en \<le> lst then apply_entries ios ens lst e
      else if re_seq en \<noteq> lst + 1 then (Some NErrInvalidEntry, lst, e)
      else
        (case apply_entry (next_outcome ios) en e of
           (Some er, e') \<Rightarrow> (Some er, lst, e')
         | (None, e') \<Rightarrow> apply_entries (tl ios) ens (re_seq en) e'))"

definition apply_locked :: "sync_io \<Rightarrow> rep_entry list \<Rightarrow> node \<Rightarrow> node_error option \<times> u64 \<times> node" where
  "apply_locked io ens n =
     (case apply_entries (si_engine io) ens (nn_applied n) (nn_eng n) of
        (er, lst, e') \<Rightarrow>
          let n1 = n\<lparr>nn_eng := e', nn_applied := lst\<rparr> in
          (case er of
             Some x \<Rightarrow> (Some x, lst, n1)
           | None \<Rightarrow>
               (case nn_cursor n of
                  None \<Rightarrow> (None, lst, n1)
                | Some ss \<Rightarrow>
                    if lst > 0 then
                      (case advance_to (si_state io) (si_now io) lst ss (nn_files n) of
                         (er', ss', fs) \<Rightarrow> (map_option NErrRecord er', lst, n1\<lparr>nn_cursor := Some ss', nn_files := fs\<rparr>))
                    else (None, lst, n1))))"

definition apply_replication_entries :: "sync_io \<Rightarrow> rep_entry list \<Rightarrow> node \<Rightarrow> node_error option \<times> u64 \<times> node" where
  "apply_replication_entries io ens n =
     (if nn_barrier n then (Some NErrPromotionInProgress, nn_applied n, n)
      else if nn_role n \<noteq> role_follow then (Some NErrNotFollower, nn_applied n, n)
      else apply_locked io ens n)"

section \<open>Pulling from the primary\<close>

text \<open>What the exchange with the primary gives: no answer, a 409 (whose body may not decode, or may lack the
  gap), another status, a 200 whose body does not decode, or the decoded page.\<close>

datatype wire_answer = Wa_none | Wa_conflict "gap_error option option" | Wa_status nat | Wa_bad_body
  | Wa_log "rep_entry list" "u64 option"

record pull_result =
  pl_entries :: "rep_entry list"
  pl_latest :: u64
  pl_known :: bool

definition pull_entries :: "wire_answer \<Rightarrow> node_error + pull_result" where
  "pull_entries a =
     (case a of
        Wa_none \<Rightarrow> Inl NErrPull
      | Wa_conflict (Some (Some g)) \<Rightarrow> Inl (NErrGap g)
      | Wa_conflict _ \<Rightarrow> Inl NErrPull
      | Wa_status _ \<Rightarrow> Inl NErrPull
      | Wa_bad_body \<Rightarrow> Inl NErrPull
      | Wa_log ens latest \<Rightarrow>
          Inr \<lparr>pl_entries = ens, pl_latest = (case latest of None \<Rightarrow> 0 | Some s \<Rightarrow> s), pl_known = latest \<noteq> None\<rparr>)"

record sync_result =
  sr_source :: bytes
  sr_follower :: bytes
  sr_fetched :: nat
  sr_applied :: nat
  sr_last :: u64
  sr_latest :: u64
  sr_lag :: int
  sr_known :: bool
  sr_background :: bool
  sr_status :: replica_status
  sr_gap :: "gap_error option"

definition empty_result :: sync_result where
  "empty_result = \<lparr>sr_source = [], sr_follower = [], sr_fetched = 0, sr_applied = 0, sr_last = 0, sr_latest = 0, sr_lag = 0,
     sr_known = False, sr_background = False, sr_status = no_status, sr_gap = None\<rparr>"

text \<open>Up to the read lock, where the cursor is read: the flag whether a worker exists, and the cursor.\<close>

definition sync_begin :: "node \<Rightarrow> (node_error + bool \<times> u64) \<times> node" where
  "sync_begin n =
     (if nn_barrier n then (Inl NErrPromotionInProgress, n)
      else if nn_closed n then (Inl NErrClosed, n)
      else if nn_role n \<noteq> role_follow then (Inl NErrNotFollower, n)
      else if \<not> nn_replicator n then (Inl NErrNoReplicator, n)
      else if nn_syncing n then (Inl NErrSyncInProgress, n)
      else (Inr (nn_worker n \<noteq> None, nn_applied n), n\<lparr>nn_syncing := True\<rparr>))"

definition partial_result :: "bool \<Rightarrow> u64 \<Rightarrow> node \<Rightarrow> sync_result" where
  "partial_result bg lst n =
     empty_result\<lparr>sr_source := no_primary_url (nn_opts n), sr_follower := no_id (nn_opts n), sr_last := lst,
                  sr_background := bg, sr_status := replication_status n\<rparr>"

definition sync_finish :: "wire_answer \<Rightarrow> sync_io \<Rightarrow> bool \<Rightarrow> u64 \<Rightarrow> node \<Rightarrow> (node_error option \<times> sync_result) \<times> node" where
  "sync_finish answer io bg before n0 =
     (let n = n0\<lparr>nn_syncing := False\<rparr> in
      (case pull_entries answer of
         Inl (NErrGap g) \<Rightarrow> ((Some (NErrGap g), (partial_result bg before n)\<lparr>sr_gap := Some g\<rparr>), n)
       | Inl _ \<Rightarrow> ((Some NErrPull, partial_result bg before n), n)
       | Inr pr \<Rightarrow>
           (case apply_locked io (pl_entries pr) n of
              (Some er, lst, n') \<Rightarrow>
                ((Some er, (partial_result bg lst n')\<lparr>sr_fetched := length (pl_entries pr), sr_latest := pl_latest pr\<rparr>), n')
            | (None, lst, n') \<Rightarrow>
                ((None, (partial_result bg lst n')\<lparr>sr_fetched := length (pl_entries pr),
                    sr_applied := length (filter (\<lambda>en. re_seq en > before) (pl_entries pr)), sr_latest := pl_latest pr,
                    sr_lag := (if pl_known pr \<and> pl_latest pr \<ge> lst then seq_lag (pl_latest pr) lst else 0),
                    sr_known := pl_known pr\<rparr>), n'))))"

definition sync_from_primary :: "wire_answer \<Rightarrow> sync_io \<Rightarrow> node \<Rightarrow> (node_error option \<times> sync_result) \<times> node" where
  "sync_from_primary answer io n =
     (case sync_begin n of
        (Inl e, n') \<Rightarrow> ((Some e, empty_result), n')
      | (Inr (bg, before), n') \<Rightarrow> sync_finish answer io bg before n')"

section \<open>The worker of a follower\<close>

text \<open>What the worker's attempt sees of a synchronisation.\<close>

definition worker_outcome :: "node_error option \<times> sync_result \<Rightarrow> sync_outcome" where
  "worker_outcome x =
     (case x of
        (None, r) \<Rightarrow> So_ok \<lparr>sy_fetched = sr_fetched r, sy_applied = sr_applied r, sy_last = sr_last r,
                           sy_primary = sr_latest r, sy_known = sr_known r\<rparr>
      | (Some NErrSyncInProgress, _) \<Rightarrow> So_busy
      | (Some (NErrGap g), _) \<Rightarrow> So_gap g
      | _ \<Rightarrow> So_error)"

definition restart_worker :: "node \<Rightarrow> node" where
  "restart_worker n =
     (if \<not> bc_enabled (no_bg (nn_opts n)) then n
      else if nn_closed n \<or> nn_role n \<noteq> role_follow \<or> nn_barrier n then n
      else
        (case nn_worker n of
           Some w \<Rightarrow>
             if bs_state (bw_status w) = W_stopped \<or> bs_state (bw_status w) = W_disabled
             then n\<lparr>nn_worker := Some (snd (worker_start (new_worker (no_bg (nn_opts n)))))\<rparr>
             else n
         | None \<Rightarrow> n\<lparr>nn_worker := Some (snd (worker_start (new_worker (no_bg (nn_opts n)))))\<rparr>))"

end
