(* ===== verification/Handlers.thy ===== *)
theory Handlers
  imports Node
begin

text \<open>
  The HTTP handlers of a node (\<open>internal/node/handlers.go\<close>), one function per endpoint from the method, the
  decoded query or body and the I/O results to the reply and the new state. A body is the value its JSON
  decodes to (\<open>None\<close> when it does not decode); a reply is its status with the fields of its JSON body, less the
  node id and the error texts. \<open>Aborted\<close> is a handler that panics: \<open>net/http\<close> drops the connection.
\<close>

section \<open>Replies\<close>

record node_status =
  ns_id :: bytes
  ns_addr :: bytes
  ns_dir :: path
  ns_mem_entries :: nat
  ns_mem_bytes :: u64
  ns_tables :: nat
  ns_next_seq :: u64
  ns_flushes :: u64
  ns_compactions :: u64
  ns_replication :: replica_status

record replication_view =
  rv_status :: replica_status
  rv_background :: bg_status
  rv_role :: string
  rv_source :: role_source
  rv_write_state :: string
  rv_quiesced :: bool
  rv_qstate :: quiesce_phase
  rv_quiesce_id :: bytes
  rv_quiesced_at :: bytes
  rv_quiesced_seq :: u64
  rv_pstate :: promotion_phase
  rv_source_node :: bytes
  rv_source_url :: bytes
  rv_inherited :: u64
  rv_promoted_at :: bytes
  rv_committed :: bool
  rv_pending_id :: bytes
  rv_pending_seq :: u64
  rv_intent :: string

record quiesce_response =
  qs_id :: bytes
  qs_seq :: u64
  qs_at :: bytes
  qs_idempotent :: bool

record promote_response =
  po_quiesce :: bytes
  po_seq :: u64
  po_at :: bytes
  po_idempotent :: bool

record explained =
  xp_op :: string
  xp_key :: bytes
  xp_value :: "bytes option"
  xp_count :: nat
  xp_trace :: trace
  xp_failed :: bool

datatype reply_body = Bd_error | Bd_code string | Bd_health | Bd_status node_status | Bd_put | Bd_get "bytes option" | Bd_delete
  | Bd_scan "(bytes \<times> bytes) list" | Bd_op bool | Bd_replication replication_view | Bd_log u64 "rep_entry list" u64
  | Bd_gap gap_error | Bd_applied nat u64 | Bd_sync bool sync_result | Bd_explain explained
  | Bd_quiesced quiesce_response | Bd_promoted promote_response

datatype reply = Reply nat reply_body | Aborted

definition not_allowed :: reply where "not_allowed = Reply 405 Bd_error"

section \<open>Health and status\<close>

definition handle_healthz :: "string \<Rightarrow> node \<Rightarrow> reply" where
  "handle_healthz m n = (if m \<noteq> ''GET'' then not_allowed else Reply 200 Bd_health)"

definition status_of_node :: "node \<Rightarrow> node_status" where
  "status_of_node n =
     (let st = engine_stats_of (nn_eng n) in
      \<lparr>ns_id = no_id (nn_opts n), ns_addr = node_addr n, ns_dir = no_dir (nn_opts n), ns_mem_entries = es_mem_entries st,
       ns_mem_bytes = es_mem_bytes st, ns_tables = es_tables st, ns_next_seq = es_next_seq st, ns_flushes = es_flushes st,
       ns_compactions = es_compactions st, ns_replication = replication_status n\<rparr>)"

definition handle_status :: "string \<Rightarrow> node \<Rightarrow> reply" where
  "handle_status m n = (if m \<noteq> ''GET'' then not_allowed else Reply 200 (Bd_status (status_of_node n)))"

section \<open>Keys and values\<close>

record kv_io =
  ki_write :: write_outcome
  ki_sync :: bool
  ki_journal :: append_io
  ki_now :: u64

text \<open>\<open>Enter\<close> of the write gate, after the role: the reply of a refused write.\<close>

definition write_refused :: "node \<Rightarrow> reply option" where
  "write_refused n =
     (if nn_role n = role_follow then Some (Reply 403 Bd_error)
      else if nn_gate n = Some True then Some (Reply 409 (Bd_code ''node_quiesced''))
      else None)"

text \<open>The append to the journal after the engine's write; its result is not looked at.\<close>

definition journal_write :: "string \<Rightarrow> bytes \<Rightarrow> bytes \<Rightarrow> kv_io \<Rightarrow> node \<Rightarrow> reply \<Rightarrow> reply \<times> node" where
  "journal_write op key val io n ok =
     (case nn_log n of
        None \<Rightarrow> (ok, n)
      | Some dl \<Rightarrow>
          (case durable_append op key val (ki_now io) (ki_journal io) dl of
             (res, dl') \<Rightarrow> (if res = Inl JErrPanic then Aborted else ok, n\<lparr>nn_log := Some dl'\<rparr>)))"

definition handle_kv_put :: "bytes option \<Rightarrow> kv_io \<Rightarrow> bytes \<Rightarrow> node \<Rightarrow> reply \<times> node" where
  "handle_kv_put body io key n =
     (case write_refused n of
        Some r \<Rightarrow> (r, n)
      | None \<Rightarrow>
          (case body of
             None \<Rightarrow> (Reply 400 Bd_error, n)
           | Some val \<Rightarrow>
               (case engine_put key val (ki_write io) (ki_sync io) (nn_eng n) of
                  (Some _, e') \<Rightarrow> (Reply 500 Bd_error, n\<lparr>nn_eng := e'\<rparr>)
                | (None, e') \<Rightarrow> journal_write op_put key val io (n\<lparr>nn_eng := e'\<rparr>) (Reply 200 Bd_put))))"

definition handle_kv_delete :: "kv_io \<Rightarrow> bytes \<Rightarrow> node \<Rightarrow> reply \<times> node" where
  "handle_kv_delete io key n =
     (case write_refused n of
        Some r \<Rightarrow> (r, n)
      | None \<Rightarrow>
          (case engine_delete key (ki_write io) (ki_sync io) (nn_eng n) of
             (Some _, e') \<Rightarrow> (Reply 500 Bd_error, n\<lparr>nn_eng := e'\<rparr>)
           | (None, e') \<Rightarrow> journal_write op_delete key [] io (n\<lparr>nn_eng := e'\<rparr>) (Reply 200 Bd_delete)))"

definition handle_kv_get :: "bytes \<Rightarrow> node \<Rightarrow> reply \<times> node" where
  "handle_kv_get key n =
     (case engine_get key (nn_eng n) of
        (Inl EErrPanic, e') \<Rightarrow> (Aborted, n\<lparr>nn_eng := e'\<rparr>)
      | (Inl _, e') \<Rightarrow> (Reply 500 Bd_error, n\<lparr>nn_eng := e'\<rparr>)
      | (Inr v, e') \<Rightarrow> (Reply 200 (Bd_get v), n\<lparr>nn_eng := e'\<rparr>))"

definition trim_prefix :: "bytes \<Rightarrow> bytes \<Rightarrow> bytes" where
  "trim_prefix p s = (if take (length p) s = p then drop (length p) s else s)"

definition handle_kv :: "string \<Rightarrow> bytes \<Rightarrow> bytes option \<Rightarrow> kv_io \<Rightarrow> node \<Rightarrow> reply \<times> node" where
  "handle_kv m path body io n =
     (let key = trim_prefix (ascii ''/kv/'') path in
      if key = [] then (Reply 400 Bd_error, n)
      else if m = ''GET'' then handle_kv_get key n
      else if m = ''PUT'' then handle_kv_put body io key n
      else if m = ''DELETE'' then handle_kv_delete io key n
      else (not_allowed, n))"

definition handle_scan :: "string \<Rightarrow> bytes \<Rightarrow> bytes \<Rightarrow> node \<Rightarrow> reply" where
  "handle_scan m start end' n =
     (if m \<noteq> ''GET'' then not_allowed
      else
        (case engine_scan start end' (nn_eng n) of
           Inl _ \<Rightarrow> Reply 500 Bd_error
         | Inr es \<Rightarrow> Reply 200 (Bd_scan (map (\<lambda>e. (kv_key e, kv_value e)) es))))"

definition handle_flush ::
    "(u64 \<Rightarrow> float64 \<Rightarrow> u64) \<Rightarrow> (u64 \<Rightarrow> u64 \<Rightarrow> int) \<Rightarrow> string \<Rightarrow> io_fault option \<Rightarrow> node \<Rightarrow> reply \<times> node" where
  "handle_flush c r m fault n =
     (if m \<noteq> ''POST'' then (not_allowed, n)
      else
        (case engine_flush c r fault (nn_eng n) of
           (Some _, e') \<Rightarrow> (Reply 500 (Bd_op False), n\<lparr>nn_eng := e'\<rparr>)
         | (None, e') \<Rightarrow> (Reply 200 (Bd_op True), n\<lparr>nn_eng := e'\<rparr>)))"

definition handle_compact ::
    "(u64 \<Rightarrow> float64 \<Rightarrow> u64) \<Rightarrow> (u64 \<Rightarrow> u64 \<Rightarrow> int) \<Rightarrow> string \<Rightarrow> io_fault option \<Rightarrow> node \<Rightarrow> reply \<times> node" where
  "handle_compact c r m fault n =
     (if m \<noteq> ''POST'' then (not_allowed, n)
      else
        (case engine_compact c r fault (nn_eng n) of
           (Some _, e') \<Rightarrow> (Reply 500 (Bd_op False), n\<lparr>nn_eng := e'\<rparr>)
         | (None, e') \<Rightarrow> (Reply 200 (Bd_op True), n\<lparr>nn_eng := e'\<rparr>)))"

section \<open>Replication\<close>

definition write_state_name :: "quiesce_phase \<Rightarrow> string" where
  "write_state_name q = (case q of Q_quiesced \<Rightarrow> ''quiesced'' | Q_failed_fenced \<Rightarrow> ''quiesce_failed_fenced'' | _ \<Rightarrow> ''active'')"

definition empty_view :: "node \<Rightarrow> replication_view" where
  "empty_view n =
     \<lparr>rv_status = replication_status n, rv_background = background_status n, rv_role = nn_role n, rv_source = nn_source n,
      rv_write_state = [], rv_quiesced = False, rv_qstate = Q_none, rv_quiesce_id = [], rv_quiesced_at = [], rv_quiesced_seq = 0,
      rv_pstate = nn_pstate n, rv_source_node = [], rv_source_url = [], rv_inherited = 0, rv_promoted_at = [],
      rv_committed = False, rv_pending_id = [], rv_pending_seq = 0, rv_intent = []\<rparr>"

definition quiesce_view :: "node \<Rightarrow> replication_view \<Rightarrow> replication_view" where
  "quiesce_view n v0 =
     (let v1 = v0\<lparr>rv_write_state := write_state_name (nn_qstate n), rv_quiesced := nn_qstate n = Q_quiesced, rv_qstate := nn_qstate n\<rparr>;
          v2 = (case nn_qrec n of None \<Rightarrow> v1
                | Some r \<Rightarrow> v1\<lparr>rv_quiesce_id := qr_id r, rv_quiesced_at := qr_at r, rv_quiesced_seq := qr_seq r\<rparr>);
          v3 = (case nn_pending n of None \<Rightarrow> v2 | Some r \<Rightarrow> v2\<lparr>rv_pending_id := qr_id r, rv_pending_seq := qr_seq r\<rparr>) in
      if nn_intent_active n then v3\<lparr>rv_intent := (if nn_qstate n = Q_quiesced then ''cleanup_pending'' else ''active'')\<rparr> else v3)"

definition replication_view_of :: "node \<Rightarrow> replication_view" where
  "replication_view_of n =
     (let v = (if nn_role n = role_primary \<or> nn_role n = role_standalone then quiesce_view n (empty_view n) else empty_view n) in
      (case (nn_pstate n, nn_prec n) of
         (Pm_promoted, Some r) \<Rightarrow>
           v\<lparr>rv_source_node := pr_source r, rv_source_url := pr_source_url r, rv_inherited := pr_seq r,
             rv_promoted_at := pr_at r, rv_committed := True\<rparr>
       | _ \<Rightarrow> v))"

definition handle_replication_status :: "string \<Rightarrow> node \<Rightarrow> reply" where
  "handle_replication_status m n =
     (if m \<noteq> ''GET'' then not_allowed else Reply 200 (Bd_replication (replication_view_of n)))"

text \<open>\<open>strconv.Atoi\<close>, and a query parameter that may be absent (the empty string).\<close>

definition atoi :: "bytes \<Rightarrow> int option" where
  "atoi s =
     (let neg = s \<noteq> [] \<and> hd s = 45; t = (if s \<noteq> [] \<and> (hd s = 45 \<or> hd s = 43) then tl s else s) in
      if t = [] then None
      else
        (case parse_digits 0 t of
           None \<Rightarrow> None
         | Some v \<Rightarrow>
             if neg then (if v \<le> 2 ^ 63 then Some (- int v) else None)
             else if v < 2 ^ 63 then Some (int v) else None))"

definition handle_replication_log :: "string \<Rightarrow> bytes \<Rightarrow> bytes \<Rightarrow> node \<Rightarrow> reply" where
  "handle_replication_log m after_text limit_text n =
     (if m \<noteq> ''GET'' then not_allowed
      else if nn_role n \<noteq> role_primary then Reply 403 Bd_error
      else
        (case (if after_text = [] then Some 0 else parse_uint after_text) of
           None \<Rightarrow> Reply 400 Bd_error
         | Some after \<Rightarrow>
             (case (if limit_text = [] then Some 0 else atoi limit_text) of
                None \<Rightarrow> Reply 400 Bd_error
              | Some limit \<Rightarrow>
                  (case replication_entries after limit n of
                     Inl (NErrGap g) \<Rightarrow> Reply 409 (Bd_gap g)
                   | Inl (NErrJournal JErrPanic) \<Rightarrow> Aborted
                   | Inl _ \<Rightarrow> Reply 500 Bd_error
                   | Inr ens \<Rightarrow> Reply 200 (Bd_log after ens (journal_last n))))))"

definition handle_replication_apply :: "string \<Rightarrow> rep_entry list option \<Rightarrow> sync_io \<Rightarrow> node \<Rightarrow> reply \<times> node" where
  "handle_replication_apply m body io n =
     (if m \<noteq> ''POST'' then (not_allowed, n)
      else if nn_role n \<noteq> role_follow then (Reply 403 Bd_error, n)
      else
        (case body of
           None \<Rightarrow> (Reply 400 Bd_error, n)
         | Some ens \<Rightarrow>
             (case apply_replication_entries io ens n of
                (Some NErrPromotionInProgress, _, n') \<Rightarrow> (Reply 409 (Bd_code ''promotion_in_progress''), n')
              | (Some _, _, n') \<Rightarrow> (Reply 422 Bd_error, n')
              | (None, lst, n') \<Rightarrow> (Reply 200 (Bd_applied (length ens) lst), n'))))"

definition sync_reply :: "node_error option \<times> sync_result \<Rightarrow> reply" where
  "sync_reply x =
     (case x of
        (None, r) \<Rightarrow> Reply 200 (Bd_sync True r)
      | (Some NErrPromotionInProgress, _) \<Rightarrow> Reply 409 (Bd_code ''promotion_in_progress'')
      | (Some NErrSyncInProgress, _) \<Rightarrow> Reply 409 (Bd_code ''sync_in_progress'')
      | (Some (NErrGap _), r) \<Rightarrow> Reply 409 (Bd_sync False r)
      | (Some _, r) \<Rightarrow> Reply 502 (Bd_sync False r))"

definition handle_replication_sync :: "string \<Rightarrow> wire_answer \<Rightarrow> sync_io \<Rightarrow> node \<Rightarrow> reply \<times> node" where
  "handle_replication_sync m answer io n =
     (if m \<noteq> ''POST'' then (not_allowed, n)
      else if nn_role n \<noteq> role_follow then (Reply 400 Bd_error, n)
      else (case sync_from_primary answer io n of (x, n') \<Rightarrow> (sync_reply x, n')))"

text \<open>The page as the follower's decoder sees it: strings that are not UTF-8 come back changed. A 409 without a gap
  has no \<open>gap\<close> field, a 200 with another body no entries and no latest number.\<close>

definition wire_entry :: "rep_entry \<Rightarrow> rep_entry" where
  "wire_entry en = en\<lparr>re_key := json_text (re_key en), re_value := json_text (re_value en)\<rparr>"

definition wire_of :: "reply \<Rightarrow> wire_answer" where
  "wire_of r =
     (case r of
        Aborted \<Rightarrow> Wa_none
      | Reply s b \<Rightarrow>
          if s = 409 then Wa_conflict (Some (case b of Bd_gap g \<Rightarrow> Some g | _ \<Rightarrow> None))
          else if s \<noteq> 200 then Wa_status s
          else (case b of Bd_log _ ens latest \<Rightarrow> Wa_log (map wire_entry ens) (Some latest) | _ \<Rightarrow> Wa_log [] None))"

text \<open>The request \<open>PullEntries\<close> sends, answered by a primary.\<close>

definition pull_answer :: "u64 \<Rightarrow> node \<Rightarrow> wire_answer" where
  "pull_answer after primary =
     wire_of (handle_replication_log ''GET'' (ascii (decimal (unat after))) (ascii (decimal default_entries_limit)) primary)"

section \<open>Explained operations\<close>

definition handle_explain_put :: "string \<Rightarrow> (bytes \<times> bytes) option \<Rightarrow> write_outcome \<Rightarrow> bool \<Rightarrow> node \<Rightarrow> reply \<times> node" where
  "handle_explain_put m body wo sync_ok n =
     (if m \<noteq> ''POST'' then (not_allowed, n)
      else
        (case write_refused n of
           Some r \<Rightarrow> (r, n)
         | None \<Rightarrow>
             (case body of
                None \<Rightarrow> (Reply 400 Bd_error, n)
              | Some (key, val) \<Rightarrow>
                  (case explain_put key val wo sync_ok (nn_eng n) of
                     (t, er, e') \<Rightarrow>
                       (Reply (if er = None then 200 else 422)
                          (Bd_explain \<lparr>xp_op = ''PUT'', xp_key = [], xp_value = None, xp_count = 0, xp_trace = t, xp_failed = er \<noteq> None\<rparr>),
                        n\<lparr>nn_eng := e'\<rparr>)))))"

definition handle_explain_get :: "string \<Rightarrow> bytes \<Rightarrow> node \<Rightarrow> reply \<times> node" where
  "handle_explain_get m key n =
     (if m \<noteq> ''GET'' then (not_allowed, n)
      else if key = [] then (Reply 400 Bd_error, n)
      else
        (case explain_get key (nn_eng n) of
           (t, res, e') \<Rightarrow>
             (if res = Inl EErrPanic then (Aborted, n\<lparr>nn_eng := e'\<rparr>)
              else
                (Reply (case res of Inl _ \<Rightarrow> 422 | Inr _ \<Rightarrow> 200)
                   (Bd_explain \<lparr>xp_op = ''GET'', xp_key = key, xp_value = (case res of Inl _ \<Rightarrow> None | Inr v \<Rightarrow> v), xp_count = 0,
                      xp_trace = t, xp_failed = (case res of Inl _ \<Rightarrow> True | Inr _ \<Rightarrow> False)\<rparr>),
                 n\<lparr>nn_eng := e'\<rparr>))))"

definition handle_explain_delete :: "string \<Rightarrow> bytes \<Rightarrow> write_outcome \<Rightarrow> bool \<Rightarrow> node \<Rightarrow> reply \<times> node" where
  "handle_explain_delete m key wo sync_ok n =
     (if m \<noteq> ''DELETE'' then (not_allowed, n)
      else
        (case write_refused n of
           Some r \<Rightarrow> (r, n)
         | None \<Rightarrow>
             if key = [] then (Reply 400 Bd_error, n)
             else
               (case explain_delete key wo sync_ok (nn_eng n) of
                  (t, er, e') \<Rightarrow>
                    (Reply (if er = None then 200 else 422)
                       (Bd_explain \<lparr>xp_op = ''DELETE'', xp_key = key, xp_value = None, xp_count = 0, xp_trace = t, xp_failed = er \<noteq> None\<rparr>),
                     n\<lparr>nn_eng := e'\<rparr>))))"

definition handle_explain_scan :: "string \<Rightarrow> bytes \<Rightarrow> bytes \<Rightarrow> node \<Rightarrow> reply" where
  "handle_explain_scan m start end' n =
     (if m \<noteq> ''GET'' then not_allowed
      else
        (case explain_scan start end' (nn_eng n) of
           (t, res) \<Rightarrow>
             Reply (case res of Inl _ \<Rightarrow> 422 | Inr _ \<Rightarrow> 200)
               (Bd_explain \<lparr>xp_op = ''SCAN'', xp_key = [], xp_value = None, xp_count = (case res of Inl _ \<Rightarrow> 0 | Inr es \<Rightarrow> length es),
                  xp_trace = t, xp_failed = (case res of Inl _ \<Rightarrow> True | Inr _ \<Rightarrow> False)\<rparr>)))"

end
