(* ===== verification/Failover.thy ===== *)
theory Failover
  imports Handlers
begin

text \<open>
  Controlled failover (\<open>handleQuiesce\<close> and \<open>handlePromote\<close> in \<open>internal/node/handlers.go\<close>). The steps of an operation that
  a crash may separate are functions of their own; the handler composes them. A mutex serialises each handler.
\<close>

section \<open>Quiesce\<close>

record quiesce_io =
  qz_id :: "bytes option"
  qz_intent_at :: bytes
  qz_intent_ok :: bool
  qz_at :: bytes
  qz_record_ok :: bool
  qz_remove_ok :: bool

definition quiesce_reply :: "bool \<Rightarrow> quiesce_record \<Rightarrow> reply" where
  "quiesce_reply idem r = Reply 200 (Bd_quiesced \<lparr>qs_id = qr_id r, qs_seq = qr_seq r, qs_at = qr_at r, qs_idempotent = idem\<rparr>)"

definition has_suffix :: "bytes \<Rightarrow> bytes \<Rightarrow> bool" where
  "has_suffix suffix s \<longleftrightarrow> length suffix \<le> length s \<and> drop (length s - length suffix) s = suffix"

text \<open>Step 2: the intent, before the gate closes.\<close>

definition quiesce_intent_step :: "quiesce_io \<Rightarrow> bytes \<Rightarrow> node \<Rightarrow> record_error option \<times> node" where
  "quiesce_intent_step io qid n =
     (case save_intent (qz_intent_ok io)
         \<lparr>qi_version = 1, qi_id = qid, qi_node = no_id (nn_opts n), qi_url = ascii ''http://'' @ node_addr n,
          qi_at = qz_intent_at io, qi_checksum = 0\<rparr> (nn_files n) of
        (Some e, fs) \<Rightarrow> (Some e, n\<lparr>nn_files := fs\<rparr>)
      | (None, fs) \<Rightarrow> (None, n\<lparr>nn_files := fs, nn_intent_active := True\<rparr>))"

text \<open>Step 3: \<open>Quiesce\<close> of the write gate, once no write is in flight.\<close>

definition quiesce_gate_step :: "node \<Rightarrow> node" where
  "quiesce_gate_step n = n\<lparr>nn_gate := Some True\<rparr>"

text \<open>Steps 4 and 5: the final number and the record.\<close>

definition quiesce_record_of :: "quiesce_io \<Rightarrow> bytes \<Rightarrow> node \<Rightarrow> quiesce_record" where
  "quiesce_record_of io qid n =
     (let r = \<lparr>qr_version = 1, qr_id = qid, qr_node = no_id (nn_opts n), qr_url = ascii ''http://'' @ node_addr n,
               qr_seq = (case nn_log n of None \<Rightarrow> 0 | Some dl \<Rightarrow> latest_seq dl), qr_at = qz_at io, qr_checksum = 0\<rparr>
      in r\<lparr>qr_checksum := quiesce_checksum r\<rparr>)"

definition quiesce_commit_step :: "quiesce_io \<Rightarrow> bytes \<Rightarrow> node \<Rightarrow> record_error option \<times> quiesce_record \<times> node" where
  "quiesce_commit_step io qid n =
     (case save_quiesce (qz_record_ok io) (quiesce_record_of io qid n) (nn_files n) of
        (Some e, r, fs) \<Rightarrow> (Some e, r, n\<lparr>nn_files := fs, nn_qstate := Q_failed_fenced, nn_pending := Some r\<rparr>)
      | (None, r, fs) \<Rightarrow> (None, r, n\<lparr>nn_files := fs\<rparr>))"

text \<open>Step 6: the intent is removed, as well as possible, and the state set.\<close>

definition quiesce_finish_step :: "bool \<Rightarrow> quiesce_record \<Rightarrow> node \<Rightarrow> node" where
  "quiesce_finish_step remove_ok r n =
     (case remove_intent remove_ok (nn_files n) of
        (er, fs) \<Rightarrow> n\<lparr>nn_files := fs, nn_qrec := Some r, nn_qstate := Q_quiesced,
                       nn_intent_active := (if er = None then False else nn_intent_active n)\<rparr>)"

definition quiesce_active :: "quiesce_io \<Rightarrow> node \<Rightarrow> reply \<times> node" where
  "quiesce_active io n =
     (case qz_id io of
        None \<Rightarrow> (Reply 500 (Bd_code ''internal_error''), n)
      | Some qid \<Rightarrow>
          if has_suffix (ascii '':0'') (node_addr n) then (Reply 500 (Bd_code ''internal_error''), n)
          else
            (case quiesce_intent_step io qid n of
               (Some _, n1) \<Rightarrow> (Reply 500 (Bd_code ''quiesce_persistence_failed''), n1)
             | (None, n1) \<Rightarrow>
                 (case quiesce_commit_step io qid (quiesce_gate_step n1) of
                    (Some _, r, n2) \<Rightarrow> (Reply 500 (Bd_code ''quiesce_persistence_failed''), n2)
                  | (None, r, n2) \<Rightarrow> (quiesce_reply False r, quiesce_finish_step (qz_remove_ok io) r n2))))"

text \<open>The retry of a fence whose record could not be written.\<close>

definition quiesce_retry :: "quiesce_io \<Rightarrow> node \<Rightarrow> reply \<times> node" where
  "quiesce_retry io n =
     (case nn_pending n of
        None \<Rightarrow> (Reply 500 (Bd_code ''internal_error''), n)
      | Some p \<Rightarrow>
          (case save_quiesce (qz_record_ok io) p (nn_files n) of
             (Some _, p', fs) \<Rightarrow> (Reply 500 (Bd_code ''quiesce_persistence_failed''), n\<lparr>nn_files := fs, nn_pending := Some p'\<rparr>)
           | (None, p', fs) \<Rightarrow>
               (quiesce_reply False p', (quiesce_finish_step (qz_remove_ok io) p' (n\<lparr>nn_files := fs\<rparr>))\<lparr>nn_pending := None\<rparr>)))"

definition handle_quiesce :: "string \<Rightarrow> quiesce_io \<Rightarrow> node \<Rightarrow> reply \<times> node" where
  "handle_quiesce m io n =
     (if m \<noteq> ''POST'' then (not_allowed, n)
      else if nn_closed n then (Reply 503 (Bd_code ''node_closing''), n)
      else if nn_role n \<noteq> role_primary then (Reply 400 (Bd_code ''wrong_role''), n)
      else
        (case (nn_qstate n, nn_qrec n) of
           (Q_quiesced, Some r) \<Rightarrow> (quiesce_reply True r, n)
         | _ \<Rightarrow>
             if nn_qstate n = Q_failed_fenced then quiesce_retry io n
             else if nn_gate n = None then (Reply 500 (Bd_code ''internal_error''), n)
             else quiesce_active io n))"

section \<open>Promote\<close>

record promote_request =
  pq_record :: quiesce_record
  pq_confirm :: bool

record promote_io =
  pi_check :: "journal_open_fault option"
  pi_baseline_ok :: bool
  pi_now :: bytes
  pi_record_ok :: bool
  pi_journal :: "journal_open_fault option"

definition promote_reply :: "bool \<Rightarrow> promotion_record \<Rightarrow> reply" where
  "promote_reply idem r = Reply 200 (Bd_promoted \<lparr>po_quiesce = pr_quiesce r, po_seq = pr_seq r, po_at = pr_at r, po_idempotent = idem\<rparr>)"

definition promotion_code :: "node_error \<Rightarrow> string" where
  "promotion_code e =
     (case e of
        NErrRecordInvalid \<Rightarrow> ''promotion_record_invalid''
      | NErrSequenceMismatch \<Rightarrow> ''promotion_sequence_mismatch''
      | NErrSourceMismatch \<Rightarrow> ''promotion_source_mismatch''
      | NErrNotReady \<Rightarrow> ''promotion_not_ready''
      | _ \<Rightarrow> ''promotion_failed'')"

definition promotion_static :: "promote_request \<Rightarrow> node \<Rightarrow> node_error option" where
  "promotion_static req n =
     (let qr = pq_record req in
      if \<not> pq_confirm req then Some NErrConfirm
      else if qr_version qr \<noteq> 1 then Some NErrRecordInvalid
      else if qr_checksum qr \<noteq> quiesce_checksum qr then Some NErrRecordInvalid
      else if qr_node qr = [] then Some NErrRecordInvalid
      else if qr_url qr \<noteq> no_primary_url (nn_opts n) then Some NErrSourceMismatch
      else if qr_id qr = [] then Some NErrRecordInvalid
      else if qr_seq qr = - 1 then Some NErrRecordInvalid
      else if \<not> rfc3339_ok (qr_at qr) then Some NErrRecordInvalid
      else if no_id (nn_opts n) = [] then Some NErrNotReady
      else None)"

definition promotion_locked :: "promote_request \<Rightarrow> node \<Rightarrow> node_error option" where
  "promotion_locked req n =
     (let qr = pq_record req in
      if nn_closed n then Some NErrNotReady
      else if nn_role n \<noteq> role_follow then Some NErrNotReady
      else if nn_applied n \<noteq> qr_seq qr then Some NErrSequenceMismatch
      else
        (case nn_cursor n of
           None \<Rightarrow> None
         | Some ss \<Rightarrow> if ss_seq ss \<noteq> qr_seq qr then Some NErrSequenceMismatch else None))"

text \<open>What is decided before the barrier; \<open>None\<close> goes on.\<close>

definition promote_early :: "promote_request \<Rightarrow> node \<Rightarrow> reply option" where
  "promote_early req n =
     (if nn_closed n then Some (Reply 503 (Bd_code ''node_closing''))
      else
        (case (nn_pstate n, nn_prec n) of
           (Pm_promoted, Some r) \<Rightarrow>
             if pr_quiesce r = qr_id (pq_record req) then Some (promote_reply True r)
             else Some (Reply 409 (Bd_code ''already_promoted''))
         | _ \<Rightarrow>
             if nn_role n \<noteq> role_follow then Some (Reply 400 (Bd_code ''wrong_role''))
             else if nn_pstate n = Pm_promoting then Some (Reply 409 (Bd_code ''promotion_in_progress''))
             else map_option (\<lambda>e. Reply 400 (Bd_code (promotion_code e))) (promotion_static req n)))"

text \<open>The barrier goes up, the state changes and the worker stops; then the handler waits for the lock.\<close>

definition promote_raise :: "node \<Rightarrow> node" where
  "promote_raise n = n\<lparr>nn_barrier := True, nn_pstate := Pm_promoting, nn_worker := map_option worker_stop (nn_worker n)\<rparr>"

definition promote_revert :: "node \<Rightarrow> node" where
  "promote_revert n = restart_worker (n\<lparr>nn_barrier := False, nn_pstate := Pm_none\<rparr>)"

text \<open>Phase 1 writes the baseline, phase 2 the record, the commit point; then the journal opens and the role
  changes.\<close>

definition promote_baseline :: "promote_io \<Rightarrow> u64 \<Rightarrow> node \<Rightarrow> rep_error option \<times> node" where
  "promote_baseline io seq n =
     (case create_baseline (pi_check io) (pi_baseline_ok io) seq (nn_journal n) of
        (er, d) \<Rightarrow> (er, n\<lparr>nn_journal := d\<rparr>))"

definition promote_record :: "promote_io \<Rightarrow> quiesce_record \<Rightarrow> node \<Rightarrow> record_error option \<times> promotion_record \<times> node" where
  "promote_record io qr n =
     (case save_promotion (pi_record_ok io)
         (new_promotion (no_id (nn_opts n)) (qr_node qr) (qr_url qr) (qr_id qr) (qr_seq qr) (pi_now io)) (nn_files n) of
        (er, r, fs) \<Rightarrow> (er, r, n\<lparr>nn_files := fs\<rparr>))"

definition promote_switch :: "promote_io \<Rightarrow> promotion_record \<Rightarrow> node \<Rightarrow> node_error option \<times> node" where
  "promote_switch io r n =
     (case open_durable_log (pi_journal io) (nn_journal n) of
        (Inl e, d) \<Rightarrow> (Some (NErrJournal e), n\<lparr>nn_journal := d\<rparr>)
      | (Inr dl, d) \<Rightarrow>
          (None, n\<lparr>nn_journal := d, nn_role := role_primary, nn_source := From_promotion, nn_prec := Some r,
                   nn_pstate := Pm_promoted, nn_log := Some dl, nn_gate := Some False, nn_qstate := Q_active,
                   nn_replicator := False\<rparr>))"

definition execute_promotion :: "promote_io \<Rightarrow> quiesce_record \<Rightarrow> node \<Rightarrow> (node_error + promotion_record) \<times> node" where
  "execute_promotion io qr n =
     (case promote_baseline io (qr_seq qr) n of
        (Some e, n1) \<Rightarrow> (Inl (NErrJournal e), n1)
      | (None, n1) \<Rightarrow>
          (case promote_record io qr n1 of
             (Some e, _, n2) \<Rightarrow> (Inl (NErrRecord e), n2)
           | (None, r, n2) \<Rightarrow>
               (case promote_switch io r n2 of
                  (Some e, n3) \<Rightarrow> (Inl e, n3)
                | (None, n3) \<Rightarrow> (Inr r, n3))))"

text \<open>Under the lock.\<close>

definition promote_commit :: "promote_io \<Rightarrow> promote_request \<Rightarrow> node \<Rightarrow> reply \<times> node" where
  "promote_commit io req n =
     (case promotion_locked req n of
        Some e \<Rightarrow> (Reply 400 (Bd_code (promotion_code e)), promote_revert n)
      | None \<Rightarrow>
          (case execute_promotion io (pq_record req) n of
             (Inr r, n') \<Rightarrow> (promote_reply False r, n')
           | (Inl _, n') \<Rightarrow>
               if rf_promotion (nn_files n') \<noteq> No_file then (Reply 500 (Bd_code ''promotion_failed_post_commit''), n')
               else (Reply 500 (Bd_code ''promotion_failed''), promote_revert n')))"

definition handle_promote :: "string \<Rightarrow> promote_request option \<Rightarrow> promote_io \<Rightarrow> node \<Rightarrow> reply \<times> node" where
  "handle_promote m body io n =
     (if m \<noteq> ''POST'' then (not_allowed, n)
      else
        (case body of
           None \<Rightarrow> (Reply 400 Bd_error, n)
         | Some req \<Rightarrow>
             (case promote_early req n of
                Some r \<Rightarrow> (r, n)
              | None \<Rightarrow> promote_commit io req (promote_raise n))))"

section \<open>The routes\<close>

text \<open>The requests a node serves, each with what its handler reads of it and the results of its I/O.\<close>

datatype request = Rq_health string | Rq_status string | Rq_kv string bytes "bytes option" kv_io | Rq_scan string bytes bytes
  | Rq_flush string "io_fault option" | Rq_compact string "io_fault option" | Rq_replication string
  | Rq_log string bytes bytes | Rq_apply string "rep_entry list option" sync_io | Rq_sync string wire_answer sync_io
  | Rq_explain_put string "(bytes \<times> bytes) option" write_outcome bool | Rq_explain_get string bytes
  | Rq_explain_delete string bytes write_outcome bool | Rq_explain_scan string bytes bytes
  | Rq_quiesce string quiesce_io | Rq_promote string "promote_request option" promote_io

fun serve :: "(u64 \<Rightarrow> float64 \<Rightarrow> u64) \<Rightarrow> (u64 \<Rightarrow> u64 \<Rightarrow> int) \<Rightarrow> request \<Rightarrow> node \<Rightarrow> reply \<times> node" where
  "serve c r (Rq_health m) n = (handle_healthz m n, n)"
| "serve c r (Rq_status m) n = (handle_status m n, n)"
| "serve c r (Rq_kv m path body io) n = handle_kv m path body io n"
| "serve c r (Rq_scan m start end') n = (handle_scan m start end' n, n)"
| "serve c r (Rq_flush m fault) n = handle_flush c r m fault n"
| "serve c r (Rq_compact m fault) n = handle_compact c r m fault n"
| "serve c r (Rq_replication m) n = (handle_replication_status m n, n)"
| "serve c r (Rq_log m after limit) n = (handle_replication_log m after limit n, n)"
| "serve c r (Rq_apply m body io) n = handle_replication_apply m body io n"
| "serve c r (Rq_sync m answer io) n = handle_replication_sync m answer io n"
| "serve c r (Rq_explain_put m body wo s) n = handle_explain_put m body wo s n"
| "serve c r (Rq_explain_get m key) n = handle_explain_get m key n"
| "serve c r (Rq_explain_delete m key wo s) n = handle_explain_delete m key wo s n"
| "serve c r (Rq_explain_scan m start end') n = (handle_explain_scan m start end' n, n)"
| "serve c r (Rq_quiesce m io) n = handle_quiesce m io n"
| "serve c r (Rq_promote m body io) n = handle_promote m body io n"

end
