(* ===== verification/NodeSync.thy ===== *)
theory NodeSync
  imports Handlers JournalSpec EngineDirs
begin

text \<open>
  Replication between two nodes: a primary serving writes and a follower pulling pages of its journal, as
  the handlers do it. A run is any sequence of requests to the two nodes; the history is the list of the
  writes the primary acknowledged.
\<close>

section \<open>Pages\<close>

text \<open>The write of an entry, and a write as the follower receives it.\<close>

definition entry_upd :: "rep_entry \<Rightarrow> bytes \<times> bytes option" where
  "entry_upd en = (re_key en, if re_op en = op_put then Some (re_value en) else None)"

definition wire_upd :: "bytes \<times> bytes option \<Rightarrow> bytes \<times> bytes option" where
  "wire_upd w = (json_text (fst w), map_option json_text (snd w))"

definition upd_valid :: "bytes \<times> bytes option \<Rightarrow> bool" where
  "upd_valid w \<longleftrightarrow> json_valid (fst w) \<and> (case snd w of None \<Rightarrow> True | Some v \<Rightarrow> json_valid v)"

lemma wire_upd_valid [simp]: "upd_valid w \<Longrightarrow> wire_upd w = w"
  by (cases w) (auto simp: upd_valid_def wire_upd_def split: option.splits)

lemma entry_upd_wire: "entry_upd (wire_entry en) = wire_upd (entry_upd en)"
  by (simp add: entry_upd_def wire_entry_def wire_upd_def)

definition entry_kind_ok :: "rep_entry \<Rightarrow> bool" where
  "entry_kind_ok en \<longleftrightarrow> re_op en = op_put \<or> re_op en = op_delete"

lemma ops_differ [simp]: "op_put \<noteq> op_delete" "op_delete \<noteq> op_put"
  by (simp_all add: op_put_def op_delete_def)

lemma apply_entry_write:
  "entry_kind_ok en \<Longrightarrow> apply_entry io en e =
     (case engine_write (fst (entry_upd en)) (snd (entry_upd en)) (fst io) (snd io) e of (er, e') \<Rightarrow> (map_option NErrEngine er, e'))"
  by (auto simp: apply_entry_def entry_upd_def engine_write_def entry_kind_ok_def)

lemma next_outcome_nil [simp]: "next_outcome [] = (Write_ok, True)"
  by (simp add: next_outcome_def)

text \<open>What a journal's entries satisfy: numbered from one, each a put or a delete.\<close>

definition page_ok :: "rep_entry list \<Rightarrow> bool" where
  "page_ok es \<longleftrightarrow> counts_from 0 (map re_seq es) \<and> (\<forall>en \<in> set es. entry_kind_ok en)"

lemma page_nth: "page_ok es \<Longrightarrow> i < length es \<Longrightarrow> unat (re_seq (es ! i)) = Suc i \<and> entry_kind_ok (es ! i)"
  using counts_from_nth [of 0 "map re_seq es" i] by (simp add: page_ok_def)

lemma page_bound: "page_ok es \<Longrightarrow> length es < 2 ^ 64 - 1"
  using counts_from_bound [of 0 "map re_seq es"] by (simp add: page_ok_def)

text \<open>A follower that holds the first \<open>a\<close> entries and applies the next \<open>m\<close> ends holding the first \<open>b\<close>, all \<open>m\<close>
  when nothing is refused.\<close>

definition prefix_engine :: "nat \<Rightarrow> rep_entry list \<Rightarrow> nat \<Rightarrow> engine \<Rightarrow> bool" where
  "prefix_engine F es a e \<longleftrightarrow> a \<le> length es \<and> engine_ok (F + a) (play (map wire_upd (map entry_upd (take a es))) Map.empty) e"

lemma prefix_next:
  assumes "prefix_engine F es a e" "a < length es" "F + a \<le> 2 ^ 29"
    and "engine_write (fst (wire_upd (entry_upd (es ! a)))) (snd (wire_upd (entry_upd (es ! a)))) Write_ok True e = (None, e')"
  shows "prefix_engine F es (Suc a) e'"
proof -
  have t: "take (Suc a) es = take a es @ [es ! a]" using assms(2) by (simp add: take_Suc_conv_app_nth)
  have "play (map wire_upd (map entry_upd (take (Suc a) es))) Map.empty
      = (play (map wire_upd (map entry_upd (take a es))) Map.empty) (fst (wire_upd (entry_upd (es ! a))) := snd (wire_upd (entry_upd (es ! a))))"
    by (simp add: t play_def case_prod_beta)
  then show ?thesis
    using engine_kv.upd_ok [OF _ assms(3,4)] assms(1,2) by (auto simp: prefix_engine_def)
qed

lemma apply_entries_page:
  assumes "page_ok es" "prefix_engine F es (unat lst) e" "F + length es \<le> 2 ^ 29"
    and "apply_entries [] (map wire_entry (take m (drop (unat lst) es))) lst e = (er, lst', e')"
  shows "prefix_engine F es (unat lst') e'" "unat lst \<le> unat lst'" "en_opts e' = en_opts e"
    "er = None \<Longrightarrow> unat lst' = min (unat lst + m) (length es)"
proof -
  have "prefix_engine F es (unat lst') e' \<and> unat lst \<le> unat lst' \<and> en_opts e' = en_opts e \<and>
      (er = None \<longrightarrow> unat lst' = min (unat lst + m) (length es))"
    using assms(2,4)
  proof (induction m arbitrary: lst e)
    case 0
    then show ?case by (auto simp: prefix_engine_def)
  next
    case (Suc m)
    let ?a = "unat lst"
    have al: "?a \<le> length es" using Suc.prems(1) by (simp add: prefix_engine_def)
    show ?case
    proof (cases "?a < length es")
      case False
      then show ?thesis using Suc.prems al by auto
    next
      case True
      let ?en = "es ! ?a"
      have d: "drop ?a es = ?en # drop (Suc ?a) es" using True by (simp add: Cons_nth_drop_Suc)
      have s: "unat (re_seq ?en) = Suc ?a" "entry_kind_ok ?en" using page_nth [OF assms(1) True] by simp_all
      have nx: "re_seq ?en = lst + 1"
        using s(1) True page_bound [OF assms(1)] by (intro word_unat_eq_iff [THEN iffD2]) (simp add: unat_word_ariths)
      have gt: "\<not> re_seq ?en \<le> lst" using s(1) by (simp add: word_le_nat_alt)
      have k: "entry_kind_ok (wire_entry ?en)" "re_seq (wire_entry ?en) = re_seq ?en"
        using s(2) by (simp_all add: entry_kind_ok_def wire_entry_def)
      obtain wr e1 where w: "engine_write (fst (wire_upd (entry_upd ?en))) (snd (wire_upd (entry_upd ?en))) Write_ok True e = (wr, e1)"
        by (cases "engine_write (fst (wire_upd (entry_upd ?en))) (snd (wire_upd (entry_upd ?en))) Write_ok True e") auto
      have a1: "apply_entry (Write_ok, True) (wire_entry ?en) e = (map_option NErrEngine wr, e1)"
        using w by (simp add: apply_entry_write [OF k(1)] entry_upd_wire)
      have o1: "en_opts e1 = en_opts e" using engine_write_opts w by (metis snd_conv)
      show ?thesis
      proof (cases wr)
        case (Some x)
        then have "e1 = e" using engine_write_refused w by blast
        then show ?thesis using Suc.prems a1 Some gt nx k(2) by (auto simp: d)
      next
        case None
        have p: "prefix_engine F es (unat (re_seq ?en)) e1"
          using prefix_next [OF Suc.prems(1) True] w None assms(3) True s(1) by simp
        have r: "apply_entries [] (map wire_entry (take m (drop (unat (re_seq ?en)) es))) (re_seq ?en) e1 = (er, lst', e')"
          using Suc.prems(2) a1 None gt nx k(2) s(1) by (simp add: d)
        show ?thesis using Suc.IH [OF p r] s(1) o1 by auto
      qed
    qed
  qed
  then show "prefix_engine F es (unat lst') e'" "unat lst \<le> unat lst'" "en_opts e' = en_opts e"
    "er = None \<Longrightarrow> unat lst' = min (unat lst + m) (length es)" by simp_all
qed

text \<open>Nothing is refused when the entries arrive unchanged and the engine takes their size.\<close>

definition entry_accepted :: "rep_entry \<Rightarrow> bool" where
  "entry_accepted en \<longleftrightarrow> re_key en \<noteq> [] \<and> 17 + length (re_key en) + length (re_value en) \<le> engine_record_limit"

lemma apply_entries_accepted:
  assumes "page_ok es" "prefix_engine F es (unat lst) e" "F + length es \<le> 2 ^ 29" "limit_ok e"
    and "\<forall>en \<in> set es. entry_accepted en \<and> upd_valid (entry_upd en)"
  shows "fst (apply_entries [] (map wire_entry (take m (drop (unat lst) es))) lst e) = None"
  using assms(2,4)
proof (induction m arbitrary: lst e)
  case (Suc m)
  let ?a = "unat lst"
  show ?case
  proof (cases "?a < length es")
    case True
    let ?en = "es ! ?a"
    have d: "drop ?a es = ?en # drop (Suc ?a) es" using True by (simp add: Cons_nth_drop_Suc)
    have s: "unat (re_seq ?en) = Suc ?a" "entry_kind_ok ?en" using page_nth [OF assms(1) True] by simp_all
    have nx: "re_seq ?en = lst + 1"
      using s(1) True page_bound [OF assms(1)] by (intro word_unat_eq_iff [THEN iffD2]) (simp add: unat_word_ariths)
    have gt: "\<not> re_seq ?en \<le> lst" using s(1) by (simp add: word_le_nat_alt)
    have k: "entry_kind_ok (wire_entry ?en)" "re_seq (wire_entry ?en) = re_seq ?en"
      using s(2) by (simp_all add: entry_kind_ok_def wire_entry_def)
    have v: "entry_accepted ?en" "wire_upd (entry_upd ?en) = entry_upd ?en" using assms(5) True by simp_all
    have inv: "engine_inv e" using Suc.prems(1) engine_ok_inv by (auto simp: prefix_engine_def)
    have "17 + length (fst (entry_upd ?en)) + length (case snd (entry_upd ?en) of None \<Rightarrow> [] | Some x \<Rightarrow> x) \<le> engine_record_limit"
      using v(1) by (auto simp: entry_accepted_def entry_upd_def)
    then obtain e1 where w: "engine_write (fst (entry_upd ?en)) (snd (entry_upd ?en)) Write_ok True e = (None, e1)"
      using engine_write_succeeds [OF inv, of "fst (entry_upd ?en)" "snd (entry_upd ?en)"] v(1) Suc.prems(2)
      by (auto simp: limit_ok_def entry_accepted_def entry_upd_def)
    have a1: "apply_entry (Write_ok, True) (wire_entry ?en) e = (None, e1)"
      using w v(2) by (simp add: apply_entry_write [OF k(1)] entry_upd_wire)
    have p: "prefix_engine F es (unat (re_seq ?en)) e1"
      using prefix_next [OF Suc.prems(1) True] w v(2) assms(3) True s(1) by simp
    have "limit_ok e1" using Suc.prems(2) engine_write_opts w by (metis limit_ok_def snd_conv)
    then show ?thesis using Suc.IH [OF p] a1 gt nx k(2) s(1) by (simp add: d)
  qed simp
qed simp

section \<open>The primary\<close>

definition good_kv :: "u64 \<Rightarrow> kv_io" where
  "good_kv now = \<lparr>ki_write = Write_ok, ki_sync = True, ki_journal = good_io, ki_now = now\<rparr>"

definition kv_path :: "bytes \<Rightarrow> bytes" where "kv_path k = ascii ''/kv/'' @ k"

lemma trim_kv_path [simp]: "trim_prefix (ascii ''/kv/'') (kv_path k) = k"
  by (simp add: trim_prefix_def kv_path_def)

text \<open>A primary that serves: its engine holds the writes \<open>W\<close>, its journal exactly their entries. \<open>F\<close> counts the
  reorganisations.\<close>

definition primary_ok :: "nat \<Rightarrow> rep_entry list \<Rightarrow> node \<Rightarrow> bool" where
  "primary_ok F es p \<longleftrightarrow> nn_role p = role_primary \<and> nn_gate p = Some False \<and> (\<exists>dl. nn_log p = Some dl \<and> durable_holds es dl)
     \<and> (\<forall>en \<in> set es. entry_accepted en \<and> entry_kind_ok en) \<and> limit_ok (nn_eng p)
     \<and> engine_ok (F + length es) (play (map entry_upd es) Map.empty) (nn_eng p)"

lemma roles_differ [simp]:
  "role_primary \<noteq> role_follow" "role_follow \<noteq> role_primary" "role_primary \<noteq> role_standalone" "role_standalone \<noteq> role_primary"
  "role_follow \<noteq> role_standalone" "role_standalone \<noteq> role_follow" "role_primary \<noteq> []" "role_follow \<noteq> []"
  by (simp_all add: role_defs)

lemma primary_page: "primary_ok F es p \<Longrightarrow> page_ok es"
  by (auto simp: primary_ok_def page_ok_def durable_holds_def durable_inv_def)

definition upd_op :: "bytes option \<Rightarrow> string" where
  "upd_op v = (if v = None then op_delete else op_put)"

definition upd_value :: "bytes option \<Rightarrow> bytes" where
  "upd_value v = (case v of None \<Rightarrow> [] | Some x \<Rightarrow> x)"

definition handle_write :: "bytes \<Rightarrow> bytes option \<Rightarrow> kv_io \<Rightarrow> node \<Rightarrow> reply \<times> node" where
  "handle_write k v io n =
     (case v of None \<Rightarrow> handle_kv ''DELETE'' (kv_path k) None io n | Some x \<Rightarrow> handle_kv ''PUT'' (kv_path k) (Some x) io n)"

lemma handle_write_eq:
  "handle_write k v io n =
     (if k = [] then (Reply 400 Bd_error, n)
      else
        (case write_refused n of
           Some r \<Rightarrow> (r, n)
         | None \<Rightarrow>
             (case engine_write k v (ki_write io) (ki_sync io) (nn_eng n) of
                (Some _, e') \<Rightarrow> (Reply 500 Bd_error, n\<lparr>nn_eng := e'\<rparr>)
              | (None, e') \<Rightarrow> journal_write (upd_op v) k (upd_value v) io (n\<lparr>nn_eng := e'\<rparr>)
                               (Reply 200 (if v = None then Bd_delete else Bd_put)))))"
  by (cases v) (auto simp: handle_write_def handle_kv_def handle_kv_put_def handle_kv_delete_def engine_write_def upd_op_def
      upd_value_def split: option.split prod.split)

text \<open>A write that is acknowledged is in the engine and in the journal; a write that is refused changes nothing.\<close>

lemma primary_write:
  assumes p: "primary_ok F es p" and n: "F + length es \<le> 2 ^ 29" and h: "handle_write k v (good_kv now) p = (rep, p')"
  shows "(\<exists>b. rep = Reply 200 b) \<and> k \<noteq> [] \<and> (\<exists>en. entry_upd en = (k, v) \<and> primary_ok F (es @ [en]) p')
    \<or> (\<nexists>b. rep = Reply 200 b) \<and> p' = p"
proof (cases "k = []")
  case True
  then show ?thesis using h by (auto simp: handle_write_eq)
next
  case k: False
  obtain dl where dl: "nn_log p = Some dl" "durable_holds es dl" using p by (auto simp: primary_ok_def)
  have wr: "write_refused p = None" using p by (simp add: write_refused_def primary_ok_def)
  obtain er e1 where w: "engine_write k v Write_ok True (nn_eng p) = (er, e1)"
    by (cases "engine_write k v Write_ok True (nn_eng p)") auto
  show ?thesis
  proof (cases er)
    case (Some x)
    then have "e1 = nn_eng p" using engine_write_refused w by blast
    then show ?thesis using h k wr w Some by (auto simp: handle_write_eq good_kv_def)
  next
    case None
    have eo: "engine_ok (F + length es) (play (map entry_upd es) Map.empty) (nn_eng p)" "limit_ok (nn_eng p)"
      using p by (simp_all add: primary_ok_def)
    have e1: "engine_ok (F + length es + 1) ((play (map entry_upd es) Map.empty)(k := v)) e1"
      using engine_kv.upd_ok [OF eo(1) n] w None by simp
    have l: "17 + length k + length (case v of None \<Rightarrow> [] | Some x \<Rightarrow> x) \<le> engine_record_limit"
      using engine_write_fits(2) [OF engine_ok_inv [OF eo(1)]] w None eo(2) by (auto simp: limit_ok_def)
    let ?en = "\<lparr>re_seq = next_seq 0 (length es), re_op = upd_op v, re_key = k, re_value = upd_value v, re_time = now\<rparr>"
    have ve: "valid_entry (upd_op v) k" using k by (auto simp: valid_entry_def upd_op_def)
    have fit: "length k + length (upd_value v) + 33 < 2 ^ 32"
      using l by (simp add: upd_value_def engine_record_limit_def)
    have "length es < 2 ^ 62" using n by simp
    then obtain dl' where a: "durable_append (upd_op v) k (upd_value v) now good_io dl = (Inr ?en, dl')" "durable_holds (es @ [?en]) dl'"
      using durable_append_good [OF dl(2) ve fit] by blast
    have en: "entry_upd ?en = (k, v)" "entry_kind_ok ?en" "entry_accepted ?en"
      using k l by (auto simp: entry_upd_def upd_op_def upd_value_def entry_kind_ok_def entry_accepted_def split: option.splits)
    have r: "rep = Reply 200 (if v = None then Bd_delete else Bd_put)" "p' = p\<lparr>nn_eng := e1, nn_log := Some dl'\<rparr>"
      using h k wr w None a(1) dl(1) by (auto simp: handle_write_eq good_kv_def journal_write_def)
    have "play (map entry_upd (es @ [?en])) Map.empty = (play (map entry_upd es) Map.empty)(k := v)"
      using en(1) by (simp add: play_def)
    moreover have "limit_ok e1" using eo(2) engine_write_opts w by (metis limit_ok_def snd_conv)
    ultimately have "primary_ok F (es @ [?en]) p'"
      using p e1 en a(2) by (simp add: primary_ok_def r(2))
    then show ?thesis using r(1) k en(1) by blast
  qed
qed

text \<open>The page the primary answers with.\<close>

lemma decimal_nonempty: "decimal n \<noteq> []"
  by (subst decimal.simps) simp

lemma parse_uint_decimal: "n < 2 ^ 64 \<Longrightarrow> parse_uint (ascii (decimal n)) = Some (word_of_nat n)"
  using parse_digits_decimal [of n] decimal_nonempty [of n] by (simp add: parse_uint_def ascii_def)

lemma limit_digits: "ascii (decimal default_entries_limit) = [49, 48, 48, 48]"
proof -
  have d: "(of_char (digit_char 0) :: byte) = 48" "(of_char (digit_char 1) :: byte) = 49"
    using digit_char_byte [of 0] digit_char_byte [of 1] by (simp_all add: word_unat_eq_iff)
  have "decimal default_entries_limit = [digit_char 1, digit_char 0, digit_char 0, digit_char 0]"
    by (simp add: default_entries_limit_def decimal.simps)
  then show ?thesis using d by (simp add: ascii_def)
qed

lemma atoi_limit: "atoi (ascii (decimal default_entries_limit)) = Some 1000"
  unfolding limit_digits by (simp add: atoi_def)

lemma journal_last_holds:
  assumes "nn_log p = Some dl" "durable_holds es dl"
  shows "unat (journal_last p) = length es"
proof -
  have i: "durable_inv 0 es dl" "dl_base dl = 0" "\<not> dl_closed dl" "dl_index dl = rows_of 0 (map entry_payload es)"
    using assms(2) by (auto simp: durable_holds_def durable_inv_def)
  have q: "counts_from 0 (map re_seq es)" "\<forall>e \<in> set es. entry_fits_journal e" using i(1) by (auto simp: durable_inv_def)
  show ?thesis
  proof (cases "es = []")
    case True
    then show ?thesis using i assms(1) by (simp add: journal_last_def durable_stats_of_def)
  next
    case False
    then have ne: "dl_index dl \<noteq> []" using i(4) by (metis length_0_conv length_map length_rows_of)
    have "ix_seq (last (dl_index dl)) = last (map ix_seq (dl_index dl))" using ne by (simp add: last_map)
    also have "\<dots> = last (map payload_seq (map entry_payload es))" by (simp add: i(4) del: map_map)
    also have "\<dots> = re_seq (last es)" using False q(2) by (simp add: last_map payload_seq_entry)
    finally have "journal_last p = re_seq (last es)" using i(3) ne assms(1) by (simp add: journal_last_def durable_stats_of_def)
    then show ?thesis
      using counts_from_nth [OF q(1), of "length es - 1"] False by (simp add: last_conv_nth)
  qed
qed

lemma first_available_holds:
  assumes "durable_holds es dl"
  shows "first_available_seq dl = (if es = [] then 0 else 1)"
proof (cases es)
  case Nil
  then show ?thesis using assms by (auto simp: first_available_seq_def durable_holds_def durable_inv_def)
next
  case (Cons e es')
  have i: "dl_index dl = rows_of 0 (map entry_payload es)" "counts_from 0 (map re_seq es)" "entry_fits_journal e"
    using assms Cons by (auto simp: durable_holds_def durable_inv_def)
  have "unat (re_seq e) = 1" using counts_from_nth [OF i(2), of 0] Cons by simp
  then have "re_seq e = 1" by (metis unat_1 word_unat_eq_iff)
  then show ?thesis using i(1,3) Cons by (simp add: first_available_seq_def payload_seq_entry)
qed

lemma page_filter:
  assumes "page_ok es" "unat a \<le> length es"
  shows "filter (\<lambda>e. a < re_seq e) es = drop (unat a) es"
proof (rule filter_split)
  show "\<not> a < re_seq (es ! k)" if "k < unat a" "k < length es" for k
    using page_nth [OF assms(1) that(2)] that by (simp add: word_less_nat_alt)
  show "a < re_seq (es ! k)" if "unat a \<le> k" "k < length es" for k
    using page_nth [OF assms(1) that(2)] that by (simp add: word_less_nat_alt)
qed

lemma primary_serves:
  assumes p: "primary_ok F es p" and a: "unat a \<le> length es" and n: "F + length es \<le> 2 ^ 29"
  shows "pull_answer a p = Wa_log (map wire_entry (take 1000 (drop (unat a) es))) (Some (journal_last p))"
proof -
  obtain dl where dl: "nn_log p = Some dl" "durable_holds es dl" using p by (auto simp: primary_ok_def)
  have i: "durable_inv 0 es dl" using dl(2) by (simp add: durable_holds_def)
  have gap: "\<not> a + 1 < first_available_seq dl" if "first_available_seq dl > 0"
  proof -
    have "unat (a + 1) = unat a + 1" using a n by (simp add: unat_word_ariths)
    then show ?thesis using that first_available_holds [OF dl(2)] by (simp add: word_less_nat_alt)
  qed
  have ent: "durable_entries_after a 1000 dl = Inr (take 1000 (drop (unat a) es))"
    using durable_entries_after_eq [OF i, of a 1000] page_filter [OF primary_page [OF p] a] by (simp add: page_of_def page_fits_def effective_limit_def)
  have "replication_entries a 1000 p = Inr (take 1000 (drop (unat a) es))"
    using dl(1) gap ent by (auto simp: replication_entries_def Let_def)
  moreover have "parse_uint (ascii (decimal (unat a))) = Some a" using parse_uint_decimal [of "unat a"] unat_u64_bound [of a] by simp
  moreover have "ascii (decimal (unat a)) \<noteq> []" "ascii (decimal default_entries_limit) \<noteq> []"
    using decimal_nonempty by (simp_all add: ascii_def)
  moreover have "nn_role p = role_primary" using p by (simp add: primary_ok_def)
  ultimately show ?thesis
    by (simp add: pull_answer_def handle_replication_log_def atoi_limit wire_of_def)
qed

section \<open>The follower\<close>

definition follower_ready :: "node \<Rightarrow> bool" where
  "follower_ready f \<longleftrightarrow> nn_role f = role_follow \<and> \<not> nn_barrier f \<and> \<not> nn_closed f \<and> \<not> nn_syncing f \<and> nn_replicator f
     \<and> limit_ok (nn_eng f) \<and> (\<forall>ss. nn_cursor f = Some ss \<longrightarrow> ss_seq ss \<le> nn_applied f)"

text \<open>A follower that holds the entries up to its cursor.\<close>

definition replica_ok :: "nat \<Rightarrow> rep_entry list \<Rightarrow> node \<Rightarrow> bool" where
  "replica_ok F es f \<longleftrightarrow> follower_ready f \<and> prefix_engine F es (unat (nn_applied f)) (nn_eng f)"

definition good_sync :: "bool \<Rightarrow> bytes \<Rightarrow> sync_io" where
  "good_sync saved now = \<lparr>si_engine = [], si_state = saved, si_now = now\<rparr>"

lemma apply_locked_page:
  assumes "replica_ok F es f" "page_ok es" "F + length es \<le> 2 ^ 29"
    and "apply_locked (good_sync saved now) (map wire_entry (take m (drop (unat (nn_applied f)) es))) f = (er, lst, f')"
  shows "replica_ok F es f'" "lst = nn_applied f'" "unat (nn_applied f) \<le> unat (nn_applied f')"
    "er = None \<Longrightarrow> unat (nn_applied f') = min (unat (nn_applied f) + m) (length es)"
    "saved \<Longrightarrow> fst (apply_entries [] (map wire_entry (take m (drop (unat (nn_applied f)) es))) (nn_applied f) (nn_eng f)) = None
       \<Longrightarrow> er = None"
proof -
  let ?page = "map wire_entry (take m (drop (unat (nn_applied f)) es))"
  obtain r1 l1 e1 where a: "apply_entries [] ?page (nn_applied f) (nn_eng f) = (r1, l1, e1)" by (metis prod_cases3)
  have p: "prefix_engine F es (unat (nn_applied f)) (nn_eng f)" and r: "follower_ready f" using assms(1) by (simp_all add: replica_ok_def)
  note k = apply_entries_page [OF assms(2) p assms(3) a]
  have lim: "limit_ok e1" using r k(3) by (simp add: follower_ready_def limit_ok_def)
  have le: "nn_applied f \<le> l1" using k(2) by (simp add: word_le_nat_alt)
  have st: "advance_to saved now l1 ss fs = (er', ss', fs') \<Longrightarrow> ss_seq ss \<le> nn_applied f \<Longrightarrow> ss_seq ss' \<le> l1 \<and> (saved \<longrightarrow> er' = None)"
    for ss fs er' ss' fs'
    using le by (auto simp: advance_to_def split: if_splits)
  have f': "nn_eng f' = e1 \<and> nn_applied f' = l1 \<and> lst = l1 \<and> follower_ready f' \<and> (er = None \<longrightarrow> r1 = None)
      \<and> (saved \<longrightarrow> r1 = None \<longrightarrow> er = None)"
  proof (cases "nn_cursor f")
    case None
    then show ?thesis using assms(4) a r lim
      by (cases r1) (auto simp: apply_locked_def good_sync_def Let_def follower_ready_def)
  next
    case (Some ss)
    obtain er' ss' fs' where ad: "advance_to saved now l1 ss (nn_files f) = (er', ss', fs')" by (metis prod_cases3)
    have ssl: "ss_seq ss \<le> nn_applied f" using r Some by (simp add: follower_ready_def)
    note st = st [OF ad ssl]
    show ?thesis
    proof (cases "r1 = None \<and> l1 > 0")
      case True
      then show ?thesis using assms(4) a r lim Some ad st
        by (auto simp: apply_locked_def good_sync_def Let_def follower_ready_def)
    next
      case False
      then show ?thesis using assms(4) a r lim Some ssl le
        by (cases r1) (auto simp: apply_locked_def good_sync_def Let_def follower_ready_def)
    qed
  qed
  show "replica_ok F es f'" using f' k(1) by (simp add: replica_ok_def)
  show "lst = nn_applied f'" "unat (nn_applied f) \<le> unat (nn_applied f')" using f' k(2) by simp_all
  show "er = None \<Longrightarrow> unat (nn_applied f') = min (unat (nn_applied f) + m) (length es)" using f' k(4) by simp
  show "saved \<Longrightarrow> fst (apply_entries [] ?page (nn_applied f) (nn_eng f)) = None \<Longrightarrow> er = None" using f' a by simp
qed

lemma replica_syncing [simp]: "replica_ok F es f \<Longrightarrow> f\<lparr>nn_syncing := False\<rparr> = f"
  by (simp add: replica_ok_def follower_ready_def)

lemma sync_ready:
  "follower_ready f \<Longrightarrow> sync_from_primary answer io f =
     sync_finish answer io (nn_worker f \<noteq> None) (nn_applied f) (f\<lparr>nn_syncing := True\<rparr>)"
  by (simp add: sync_from_primary_def sync_begin_def follower_ready_def)

text \<open>A synchronisation with the primary, and one whose exchange fails.\<close>

lemma sync_pulled:
  assumes f: "replica_ok F es f" and p: "primary_ok G es p" and n: "F + length es \<le> 2 ^ 29" "G + length es \<le> 2 ^ 29"
    and s: "sync_from_primary (pull_answer (nn_applied f) p) (good_sync saved now) f = ((er, res), f')"
  shows "replica_ok F es f'" "unat (nn_applied f) \<le> unat (nn_applied f')"
    "saved \<Longrightarrow> \<forall>en \<in> set es. upd_valid (entry_upd en) \<Longrightarrow> er = None \<and> unat (nn_applied f') = min (unat (nn_applied f) + 1000) (length es)"
proof -
  let ?a = "nn_applied f" and ?page = "map wire_entry (take 1000 (drop (unat (nn_applied f)) es))"
  have r: "follower_ready f" and pe: "prefix_engine F es (unat ?a) (nn_eng f)" using f by (simp_all add: replica_ok_def)
  have al: "unat ?a \<le> length es" using pe by (simp add: prefix_engine_def)
  have pg: "page_ok es" using p by (rule primary_page)
  obtain x lst f1 where ap: "apply_locked (good_sync saved now) ?page f = (x, lst, f1)" by (metis prod_cases3)
  have e: "er = x" "f' = f1"
    using s ap f by (auto simp: sync_ready [OF r] primary_serves [OF p al n(2)] sync_finish_def pull_entries_def Let_def split: option.splits)
  note k = apply_locked_page [OF f pg n(1) ap]
  show "replica_ok F es f'" "unat ?a \<le> unat (nn_applied f')" using k(1,3) e by simp_all
  assume sv: "saved" "\<forall>en \<in> set es. upd_valid (entry_upd en)"
  have "\<forall>en \<in> set es. entry_accepted en \<and> upd_valid (entry_upd en)" using sv(2) p by (simp add: primary_ok_def)
  then have "x = None"
    using k(5) [OF sv(1)] apply_entries_accepted [OF pg pe n(1)] r by (simp add: follower_ready_def)
  then show "er = None \<and> unat (nn_applied f') = min (unat ?a + 1000) (length es)" using k(4) e by simp
qed

lemma sync_failed:
  assumes f: "replica_ok F es f" and a: "pull_entries answer = Inl g" and s: "sync_from_primary answer io f = ((er, res), f')"
  shows "f' = f"
  using s a f sync_ready [of f answer io]
  by (auto simp: replica_ok_def sync_finish_def Let_def follower_ready_def split: node_error.splits)

section \<open>Runs of the pair\<close>

text \<open>A request to the primary (\<open>True\<close>) or the follower, or a synchronisation of the follower whose exchange either
  reaches the primary or brings a failure. Files behave; the follower's cursor may fail to be saved.\<close>

datatype pair_op = Pr_write bytes "bytes option" u64 | Pr_get bool bytes | Pr_flush bool "io_fault option"
  | Pr_compact bool "io_fault option" | Pr_sync "wire_answer option" bool bytes

definition on_side :: "bool \<Rightarrow> (node \<Rightarrow> reply \<times> node) \<Rightarrow> node \<times> node \<Rightarrow> reply \<times> node \<times> node" where
  "on_side primary h pf =
     (if primary then (case h (fst pf) of (rep, p') \<Rightarrow> (rep, p', snd pf))
      else (case h (snd pf) of (rep, f') \<Rightarrow> (rep, fst pf, f')))"

fun pair_step ::
    "(u64 \<Rightarrow> float64 \<Rightarrow> u64) \<Rightarrow> (u64 \<Rightarrow> u64 \<Rightarrow> int) \<Rightarrow> pair_op \<Rightarrow> node \<times> node \<Rightarrow> reply \<times> node \<times> node" where
  "pair_step c r (Pr_write k v now) pf = on_side True (handle_write k v (good_kv now)) pf"
| "pair_step c r (Pr_get side k) pf = on_side side (handle_kv ''GET'' (kv_path k) None (good_kv 0)) pf"
| "pair_step c r (Pr_flush side fault) pf = on_side side (handle_flush c r ''POST'' fault) pf"
| "pair_step c r (Pr_compact side fault) pf = on_side side (handle_compact c r ''POST'' fault) pf"
| "pair_step c r (Pr_sync failure saved now) pf =
     on_side False (handle_replication_sync ''POST''
       (case failure of None \<Rightarrow> pull_answer (nn_applied (snd pf)) (fst pf) | Some a \<Rightarrow> a) (good_sync saved now)) pf"

text \<open>The writes of a step when its reply is 200, and the steps that count: no engine closed by a failed
  flush, and only failures given for failed exchanges.\<close>

fun pair_writes :: "pair_op \<Rightarrow> reply \<Rightarrow> (bytes \<times> bytes option) list" where
  "pair_writes (Pr_write k v now) (Reply s b) = (if s = 200 then [(k, v)] else [])"
| "pair_writes _ _ = []"

fun pair_allowed :: "pair_op \<Rightarrow> bool" where
  "pair_allowed (Pr_sync (Some a) saved now) = (case pull_entries a of Inl _ \<Rightarrow> True | Inr _ \<Rightarrow> False)"
| "pair_allowed _ = True"

fun pair_run ::
    "(u64 \<Rightarrow> float64 \<Rightarrow> u64) \<Rightarrow> (u64 \<Rightarrow> u64 \<Rightarrow> int) \<Rightarrow> pair_op list \<Rightarrow> node \<times> node
     \<Rightarrow> ((bytes \<times> bytes option) list \<times> node \<times> node) option" where
  "pair_run c r [] pf = Some ([], pf)"
| "pair_run c r (op # ops) pf =
     (if \<not> pair_allowed op then None
      else
        (case pair_step c r op pf of
           (rep, pf') \<Rightarrow>
             if en_closed (nn_eng (fst pf')) \<or> en_closed (nn_eng (snd pf')) then None
             else (case pair_run c r ops pf' of None \<Rightarrow> None | Some (W, pf'') \<Rightarrow> Some (pair_writes op rep @ W, pf''))))"

definition pair_ok :: "nat \<Rightarrow> rep_entry list \<Rightarrow> node \<times> node \<Rightarrow> bool" where
  "pair_ok F es pf \<longleftrightarrow> primary_ok F es (fst pf) \<and> replica_ok F es (snd pf)"

lemma engine_ok_weaken: "engine_ok n m e \<Longrightarrow> n \<le> n' \<Longrightarrow> engine_ok n' m e"
  by (rule engine_kv.ok_mono)

lemma primary_ok_mono: "primary_ok F es p \<Longrightarrow> F \<le> F' \<Longrightarrow> primary_ok F' es p"
  by (auto simp: primary_ok_def intro: engine_ok_weaken)

lemma replica_ok_mono: "replica_ok F es f \<Longrightarrow> F \<le> F' \<Longrightarrow> replica_ok F' es f"
  by (auto simp: replica_ok_def prefix_engine_def intro: engine_ok_weaken)

lemma replica_ok_snoc: "replica_ok F es f \<Longrightarrow> replica_ok F (es @ [en]) f"
  by (auto simp: replica_ok_def prefix_engine_def)

text \<open>A step that changes only the engine, to one that stands for the same map.\<close>

definition same_map :: "nat \<Rightarrow> engine \<Rightarrow> engine \<Rightarrow> bool" where
  "same_map d e e' \<longleftrightarrow> en_opts e' = en_opts e \<and> (\<forall>n m. n \<le> 2 ^ 29 \<longrightarrow> engine_ok n m e \<longrightarrow> engine_ok (n + d) m e')"

lemma primary_same_map:
  "primary_ok F es p \<Longrightarrow> same_map d (nn_eng p) e' \<Longrightarrow> F + length es \<le> 2 ^ 29 \<Longrightarrow> primary_ok (F + d) es (p\<lparr>nn_eng := e'\<rparr>)"
  by (auto simp: primary_ok_def same_map_def limit_ok_def add.assoc add.commute [of d])

lemma replica_same_map:
  "replica_ok F es f \<Longrightarrow> same_map d (nn_eng f) e' \<Longrightarrow> F + length es \<le> 2 ^ 29 \<Longrightarrow> replica_ok (F + d) es (f\<lparr>nn_eng := e'\<rparr>)"
  (is "_ \<Longrightarrow> _ \<Longrightarrow> _ \<Longrightarrow> ?thesis")
proof -
  assume a: "replica_ok F es f" "same_map d (nn_eng f) e'" "F + length es \<le> 2 ^ 29"
  let ?m = "play (map wire_upd (map entry_upd (take (unat (nn_applied f)) es))) Map.empty"
  have p: "unat (nn_applied f) \<le> length es" "engine_ok (F + unat (nn_applied f)) ?m (nn_eng f)"
    using a(1) by (simp_all add: replica_ok_def prefix_engine_def)
  have "F + unat (nn_applied f) \<le> 2 ^ 29" using p(1) a(3) by linarith
  then have "engine_ok (F + unat (nn_applied f) + d) ?m e'" using a(2) p(2) unfolding same_map_def by blast
  then have "engine_ok (F + d + unat (nn_applied f)) ?m e'" by (simp only: add.assoc add.commute [of d])
  then show ?thesis using a(1,2) p(1) by (simp add: replica_ok_def same_map_def limit_ok_def prefix_engine_def follower_ready_def)
qed

lemma tidy_same_map: "engine_tidy e e' \<Longrightarrow> en_opts e' = en_opts e \<Longrightarrow> same_map 1 e e'"
  unfolding same_map_def using engine_kv.tidy_ok by blast

lemma get_same_map: "engine_get k e = (res, e') \<Longrightarrow> same_map 0 e e'"
  (is "_ \<Longrightarrow> ?thesis")
proof -
  assume g: "engine_get k e = (res, e')"
  have "engine_ok n m e \<Longrightarrow> engine_ok n m e'" for n m using engine_kv.get_ok [of n m e k] g by auto
  moreover have "en_opts e' = en_opts e" using engine_get_opts [of k e] g by simp
  ultimately show ?thesis by (simp add: same_map_def)
qed

lemma engine_tidy_opts: "engine_flush c r fault e = (x, e') \<or> engine_compact c r fault e = (x, e') \<Longrightarrow> en_opts e' = en_opts e"
  using engine_step_opts [of c r "Flush_op fault" e] engine_step_opts [of c r "Compact_op fault" e] by auto

lemma pair_same_map:
  assumes "pair_ok F es pf" "F + length es \<le> 2 ^ 29"
    and "\<And>n rep n'. h n = (rep, n') \<Longrightarrow> n' = n \<or> (\<exists>e'. n' = n\<lparr>nn_eng := e'\<rparr> \<and> (en_closed e' \<or> same_map d (nn_eng n) e'))"
    and "on_side side h pf = (rep, pf')" "\<not> en_closed (nn_eng (fst pf'))" "\<not> en_closed (nn_eng (snd pf'))"
  shows "pair_ok (F + d) es pf'"
proof -
  have m: "primary_ok (F + d) es (fst pf)" "replica_ok (F + d) es (snd pf)"
    using assms(1) primary_ok_mono [of F es _ "F + d"] replica_ok_mono [of F es _ "F + d"] by (auto simp: pair_ok_def)
  show ?thesis
  proof (cases side)
    case True
    then obtain p' where h: "h (fst pf) = (rep, p')" "pf' = (p', snd pf)" using assms(4) by (auto simp: on_side_def split: prod.splits)
    then have "primary_ok (F + d) es p'"
      using assms(3) [OF h(1)] m(1) primary_same_map [OF _ _ assms(2)] assms(1,5) by (auto simp: pair_ok_def)
    then show ?thesis using h(2) m(2) by (simp add: pair_ok_def)
  next
    case False
    then obtain f' where h: "h (snd pf) = (rep, f')" "pf' = (fst pf, f')" using assms(4) by (auto simp: on_side_def split: prod.splits)
    then have "replica_ok (F + d) es f'"
      using assms(3) [OF h(1)] m(2) replica_same_map [OF _ _ assms(2)] assms(1,6) by (auto simp: pair_ok_def)
    then show ?thesis using h(2) m(1) by (simp add: pair_ok_def)
  qed
qed

lemma kv_get_eq:
  "handle_kv ''GET'' (kv_path k) b io n =
     (if k = [] then (Reply 400 Bd_error, n)
      else (case engine_get k (nn_eng n) of
              (Inl EErrPanic, e') \<Rightarrow> (Aborted, n\<lparr>nn_eng := e'\<rparr>)
            | (Inl _, e') \<Rightarrow> (Reply 500 Bd_error, n\<lparr>nn_eng := e'\<rparr>)
            | (Inr v, e') \<Rightarrow> (Reply 200 (Bd_get v), n\<lparr>nn_eng := e'\<rparr>)))"
  by (simp add: handle_kv_def handle_kv_get_def)

lemma pair_step_ok:
  assumes ok: "pair_ok F es pf" and n: "F + length es \<le> 2 ^ 29" and al: "pair_allowed op"
    and st: "pair_step c r op pf = (rep, pf')" and op: "\<not> en_closed (nn_eng (fst pf'))" "\<not> en_closed (nn_eng (snd pf'))"
  shows "\<exists>F' es'. pair_ok F' (es @ es') pf' \<and> map entry_upd es' = pair_writes op rep \<and> F' + length es' \<le> F + 1"
proof (cases op)
  case (Pr_write k v now)
  then obtain p' where h: "handle_write k v (good_kv now) (fst pf) = (rep, p')" "pf' = (p', snd pf)"
    using st by (auto simp: on_side_def split: prod.splits)
  have p: "primary_ok F es (fst pf)" "replica_ok F es (snd pf)" using ok by (simp_all add: pair_ok_def)
  from primary_write [OF p(1) n h(1)] show ?thesis
  proof
    assume "(\<exists>b. rep = Reply 200 b) \<and> k \<noteq> [] \<and> (\<exists>en. entry_upd en = (k, v) \<and> primary_ok F (es @ [en]) p')"
    then obtain b en where e: "rep = Reply 200 b" "entry_upd en = (k, v)" "primary_ok F (es @ [en]) p'" by blast
    have "pair_ok F (es @ [en]) pf'" using e(3) replica_ok_snoc [OF p(2)] h(2) by (simp add: pair_ok_def)
    then show ?thesis using e(1,2) Pr_write by (intro exI [of _ F] exI [of _ "[en]"]) simp
  next
    assume e: "(\<nexists>b. rep = Reply 200 b) \<and> p' = fst pf"
    have "pair_writes op rep = []" using e Pr_write by (cases rep) auto
    then show ?thesis using e ok h(2) by (intro exI [of _ F] exI [of _ "[]"]) simp
  qed
next
  case (Pr_get side k)
  have "pair_ok (F + 0) es pf'"
  proof (rule pair_same_map [OF ok n _ _ op])
    show "on_side side (handle_kv ''GET'' (kv_path k) None (good_kv 0)) pf = (rep, pf')" using st Pr_get by simp
    show "n' = n \<or> (\<exists>e'. n' = n\<lparr>nn_eng := e'\<rparr> \<and> (en_closed e' \<or> same_map 0 (nn_eng n) e'))"
      if "handle_kv ''GET'' (kv_path k) None (good_kv 0) n = (rep, n')" for n rep n'
    proof -
      obtain res e' where g: "engine_get k (nn_eng n) = (res, e')" by (cases "engine_get k (nn_eng n)") auto
      have "n' = n \<or> n' = n\<lparr>nn_eng := e'\<rparr>" using that g by (auto simp: kv_get_eq split: sum.splits engine_error.splits if_splits)
      then show ?thesis using get_same_map [OF g] by blast
    qed
  qed
  then show ?thesis using Pr_get by (intro exI [of _ F] exI [of _ "[]"]) simp
next
  case (Pr_flush side fault)
  have "pair_ok (F + 1) es pf'"
  proof (rule pair_same_map [OF ok n _ _ op])
    show "on_side side (handle_flush c r ''POST'' fault) pf = (rep, pf')" using st Pr_flush by simp
    show "n' = n \<or> (\<exists>e'. n' = n\<lparr>nn_eng := e'\<rparr> \<and> (en_closed e' \<or> same_map 1 (nn_eng n) e'))"
      if "handle_flush c r ''POST'' fault n = (rep, n')" for n rep n'
    proof -
      obtain x e' where g: "engine_flush c r fault (nn_eng n) = (x, e')" by (cases "engine_flush c r fault (nn_eng n)") auto
      have "n' = n\<lparr>nn_eng := e'\<rparr>" using that g by (auto simp: handle_flush_def split: option.splits)
      moreover have "\<not> en_closed e' \<Longrightarrow> same_map 1 (nn_eng n) e'"
        using tidy_same_map [of "nn_eng n" e'] engine_tidy_opts [of c r fault "nn_eng n" x e'] g
        by (metis engine_tidy_def snd_conv)
      ultimately show ?thesis by blast
    qed
  qed
  then show ?thesis using Pr_flush by (intro exI [of _ "F + 1"] exI [of _ "[]"]) simp
next
  case (Pr_compact side fault)
  have "pair_ok (F + 1) es pf'"
  proof (rule pair_same_map [OF ok n _ _ op])
    show "on_side side (handle_compact c r ''POST'' fault) pf = (rep, pf')" using st Pr_compact by simp
    show "n' = n \<or> (\<exists>e'. n' = n\<lparr>nn_eng := e'\<rparr> \<and> (en_closed e' \<or> same_map 1 (nn_eng n) e'))"
      if "handle_compact c r ''POST'' fault n = (rep, n')" for n rep n'
    proof -
      obtain x e' where g: "engine_compact c r fault (nn_eng n) = (x, e')" by (cases "engine_compact c r fault (nn_eng n)") auto
      have "n' = n\<lparr>nn_eng := e'\<rparr>" using that g by (auto simp: handle_compact_def split: option.splits)
      moreover have "\<not> en_closed e' \<Longrightarrow> same_map 1 (nn_eng n) e'"
        using tidy_same_map [of "nn_eng n" e'] engine_tidy_opts [of c r fault "nn_eng n" x e'] g
        by (metis engine_tidy_def snd_conv)
      ultimately show ?thesis by blast
    qed
  qed
  then show ?thesis using Pr_compact by (intro exI [of _ "F + 1"] exI [of _ "[]"]) simp
next
  case (Pr_sync failure saved now)
  let ?a = "case failure of None \<Rightarrow> pull_answer (nn_applied (snd pf)) (fst pf) | Some a \<Rightarrow> a"
  have p: "primary_ok F es (fst pf)" "replica_ok F es (snd pf)" "nn_role (snd pf) = role_follow"
    using ok by (simp_all add: pair_ok_def replica_ok_def follower_ready_def)
  obtain er res f' where s: "sync_from_primary ?a (good_sync saved now) (snd pf) = ((er, res), f')"
    by (metis prod_cases3 prod.collapse)
  have pf': "pf' = (fst pf, f')" using st Pr_sync s p(3) by (simp add: on_side_def handle_replication_sync_def)
  have "replica_ok F es f'"
  proof (cases failure)
    case None
    then show ?thesis using sync_pulled(1) [OF p(2,1) n n] s by simp
  next
    case (Some a)
    then obtain g where "pull_entries a = Inl g" using al Pr_sync by (cases "pull_entries a") auto
    moreover have "sync_from_primary a (good_sync saved now) (snd pf) = ((er, res), f')" using s Some by simp
    ultimately have "f' = snd pf" by (rule sync_failed [OF p(2)])
    then show ?thesis using p(2) by simp
  qed
  then show ?thesis using pf' p(1) Pr_sync by (intro exI [of _ F] exI [of _ "[]"]) (simp add: pair_ok_def)
qed

lemma pair_run_ok:
  assumes "pair_ok F es pf" "F + length es + length ops \<le> 2 ^ 29" "pair_run c r ops pf = Some (W, pf')"
  shows "\<exists>F' es'. pair_ok F' (es @ es') pf' \<and> map entry_upd es' = W \<and> F' + length es' \<le> F + length ops"
  using assms
proof (induction ops arbitrary: F es pf W)
  case Nil
  then show ?case by (intro exI [of _ F] exI [of _ "[]"]) simp
next
  case (Cons op ops)
  obtain rep pf1 where s: "pair_step c r op pf = (rep, pf1)" by (cases "pair_step c r op pf") auto
  then obtain W2 where w: "pair_allowed op" "\<not> en_closed (nn_eng (fst pf1))" "\<not> en_closed (nn_eng (snd pf1))"
      "pair_run c r ops pf1 = Some (W2, pf')" "W = pair_writes op rep @ W2"
    using Cons.prems(3) by (auto split: if_splits option.splits)
  obtain F1 es1 where k: "pair_ok F1 (es @ es1) pf1" "map entry_upd es1 = pair_writes op rep" "F1 + length es1 \<le> F + 1"
    using pair_step_ok [OF Cons.prems(1) _ w(1) s w(2,3)] Cons.prems(2) by auto
  obtain F2 es2 where k2: "pair_ok F2 ((es @ es1) @ es2) pf'" "map entry_upd es2 = W2" "F2 + length es2 \<le> F1 + length ops"
    using Cons.IH [OF k(1) _ w(4)] k(3) Cons.prems(2) by auto
  show ?case
    using k2 k w(5) by (intro exI [of _ F2] exI [of _ "es1 @ es2"]) auto
qed

text \<open>Rounds of synchronisation bring the follower to the end of the journal.\<close>

lemma sync_rounds:
  assumes "pair_ok F es (p, f)" "F + length es \<le> 2 ^ 29" "\<forall>en \<in> set es. upd_valid (entry_upd en)"
    and "length es \<le> unat (nn_applied f) + 1000 * j"
  shows "\<exists>f'. pair_run c r (replicate j (Pr_sync None True now)) (p, f) = Some ([], p, f') \<and> replica_ok F es f'
    \<and> unat (nn_applied f') = length es"
  using assms(1,4)
proof (induction j arbitrary: f)
  case 0
  then have "replica_ok F es f" "unat (nn_applied f) = length es" by (auto simp: pair_ok_def replica_ok_def prefix_engine_def)
  then show ?case by simp
next
  case (Suc j)
  have p: "primary_ok F es p" "replica_ok F es f" using Suc.prems(1) by (simp_all add: pair_ok_def)
  obtain er res f1 where s: "sync_from_primary (pull_answer (nn_applied f) p) (good_sync True now) f = ((er, res), f1)"
    by (metis prod_cases3 prod.collapse)
  note k = sync_pulled [OF p(2,1) assms(2,2) s]
  have ro: "nn_role f = role_follow" using p(2) by (simp add: replica_ok_def follower_ready_def)
  have st: "pair_step c r (Pr_sync None True now) (p, f) = (sync_reply (er, res), p, f1)"
    using s ro by (simp add: on_side_def handle_replication_sync_def)
  have op: "\<not> en_closed (nn_eng p)" "\<not> en_closed (nn_eng f1)"
    using p(1) k(1) by (auto simp: primary_ok_def replica_ok_def prefix_engine_def engine_ok_def)
  have ap: "unat (nn_applied f1) = min (unat (nn_applied f) + 1000) (length es)" using k(3) assms(3) by simp
  have "pair_ok F es (p, f1)" using p(1) k(1) by (simp add: pair_ok_def)
  moreover have "length es \<le> unat (nn_applied f1) + 1000 * j" using ap Suc.prems(2) by auto
  ultimately obtain f' where "pair_run c r (replicate j (Pr_sync None True now)) (p, f1) = Some ([], p, f')"
      "replica_ok F es f'" "unat (nn_applied f') = length es" using Suc.IH by blast
  then show ?case using st op by (cases "sync_reply (er, res)") (auto simp del: pair_step.simps)
qed

section \<open>A fresh pair\<close>

definition fresh_node_disk :: node_disk where
  "fresh_node_disk = \<lparr>nd_engine = fresh_disk, nd_journal = fresh_journal No_file,
     nd_records = \<lparr>rf_quiesce = No_file, rf_intent = No_file, rf_promotion = No_file, rf_state = No_file\<rparr>\<rparr>"

lemma node_engine_fresh:
  assumes "node_options_ok True opts"
  shows "\<exists>e d. engine_open None (node_engine_options opts) fresh_disk = (Inr e, d) \<and> engine_ok 0 Map.empty e \<and> limit_ok e"
proof -
  have dir: "eo_dir (node_engine_options opts) \<noteq> []"
    using assms by (auto simp: node_options_ok_def node_engine_options_def split: if_splits)
  have fp: "fpr_valid (eo_fpr (effective_options (node_engine_options opts)))"
    by (simp add: effective_options_def node_engine_options_def float_zero_def default_bloom_fpr_def fpr_valid_def)
  obtain e where e: "engine_open None (node_engine_options opts) fresh_disk = (Inr e, fresh_disk\<lparr>d_manifest := Decoded new_manifest\<rparr>)"
      "session_inv 0 Map.empty e" using open_fresh [OF dir fp] by blast
  have "en_opts e = effective_options (node_engine_options opts)" using engine_open_opts [OF e(1)] .
  then have "limit_ok e"
    by (simp add: limit_ok_def effective_options_def node_engine_options_def wal_opts_of_def eff_max_def wal_default_max_def
        engine_record_limit_def)
  moreover have "\<not> en_closed e" using e(2) by (simp add: session_inv_def engine_inv_def)
  ultimately show ?thesis using e by (auto simp: engine_ok_def)
qed

lemmas open_defs = node_open_def good_open_def resolve_role_def load_promotion_def fresh_node_disk_def fresh_node_def
  resolve_config_def resolve_fence_def load_intent_def load_quiesce_def maybe_record_def open_replication_def
  open_node_log_def open_state_store_def stamp_pending_def

lemma node_open_primary:
  assumes "node_options_ok True opts" "no_role opts = role_primary"
  shows "\<exists>n d. node_open good_open opts fresh_node_disk = (Inr n, d) \<and> primary_ok 0 [] n"
proof -
  obtain e d where e: "engine_open None (node_engine_options opts) fresh_disk = (Inr e, d)" "engine_ok 0 Map.empty e" "limit_ok e"
    using node_engine_fresh [OF assms(1)] by blast
  obtain dl jd where j: "open_durable_log None (fresh_journal No_file) = (Inr dl, jd)" "durable_holds [] dl"
    using open_empty_journal by blast
  show ?thesis using assms e j by (simp add: open_defs primary_ok_def Let_def)
qed

lemma node_open_follower:
  assumes "node_options_ok True opts" "no_role opts = role_follow"
  shows "\<exists>n d. node_open good_open opts fresh_node_disk = (Inr n, d) \<and> replica_ok 0 [] n"
proof -
  obtain e d where e: "engine_open None (node_engine_options opts) fresh_disk = (Inr e, d)" "engine_ok 0 Map.empty e" "limit_ok e"
    using node_engine_fresh [OF assms(1)] by blast
  show ?thesis using assms e by (simp add: open_defs replica_ok_def prefix_engine_def follower_ready_def Let_def)
qed

lemma primary_reads:
  assumes "primary_ok F es p" "k \<noteq> []"
  shows "fst (handle_kv ''GET'' (kv_path k) b io p) = Reply 200 (Bd_get (play (map entry_upd es) Map.empty k))"
proof -
  have "engine_ok (F + length es) (play (map entry_upd es) Map.empty) (nn_eng p)" using assms(1) by (simp add: primary_ok_def)
  from engine_kv.get_ok [OF this, of k] show ?thesis using assms(2) by (auto simp: kv_get_eq)
qed

lemma follower_reads:
  assumes "replica_ok F es f" "k \<noteq> []"
  shows "fst (handle_kv ''GET'' (kv_path k) b io f)
    = Reply 200 (Bd_get (play (map wire_upd (map entry_upd (take (unat (nn_applied f)) es))) Map.empty k))"
proof -
  have "engine_ok (F + unat (nn_applied f)) (play (map wire_upd (map entry_upd (take (unat (nn_applied f)) es))) Map.empty) (nn_eng f)"
    using assms(1) by (simp add: replica_ok_def prefix_engine_def)
  from engine_kv.get_ok [OF this, of k] show ?thesis using assms(2) by (auto simp: kv_get_eq)
qed

text \<open>C5: A primary and a follower opened on empty directories run any sequence of at most 2^29 of these: \<open>PUT\<close> and \<open>DELETE\<close>
  requests to the primary whose engine and journal I/O succeeds (they may still be refused), \<open>GET\<close> requests,
  flushes and compactions of either, which may fail at any I/O step as long as no engine closes, and
  synchronisations of the follower whose exchange with the primary or whose saving of the cursor may fail. (No
  other requests: the explain endpoints write without the journal.) Then the primary answers every \<open>GET\<close> from all
  the writes it acknowledged, the follower from those up to its cursor, as JSON carried them over. If all keys and
  values written are valid UTF-8, every 1000 of them take one successful round of synchronisation, and then the
  follower answers every key as the primary; other bytes do not survive JSON.\<close>

theorem node_replication_converges:
  assumes "node_open good_open po fresh_node_disk = (Inr p0, dp)" "no_role po = role_primary"
    and "node_open good_open fo fresh_node_disk = (Inr f0, df)" "no_role fo = role_follow"
    and "pair_run c r ops (p0, f0) = Some (W, p, f)" "length ops \<le> 2 ^ 29"
  shows "unat (nn_applied f) \<le> length W
    \<and> (\<forall>k b io. k \<noteq> [] \<longrightarrow> fst (handle_kv ''GET'' (kv_path k) b io p) = Reply 200 (Bd_get (play W Map.empty k))
        \<and> fst (handle_kv ''GET'' (kv_path k) b io f)
            = Reply 200 (Bd_get (play (map wire_upd (take (unat (nn_applied f)) W)) Map.empty k)))
    \<and> ((\<forall>w \<in> set W. upd_valid w) \<longrightarrow> length W \<le> unat (nn_applied f) + 1000 * j \<longrightarrow>
        (\<exists>f'. pair_run c r (replicate j (Pr_sync None True now)) (p, f) = Some ([], p, f')
          \<and> (\<forall>k b io. k \<noteq> [] \<longrightarrow> fst (handle_kv ''GET'' (kv_path k) b io f') = fst (handle_kv ''GET'' (kv_path k) b io p))))"
proof -
  have o: "node_options_ok True po" "node_options_ok True fo"
    using assms(1,3) by (auto simp: node_open_def good_open_def split: if_splits)
  have p0: "pair_ok 0 [] (p0, f0)"
    using node_open_primary [OF o(1) assms(2)] node_open_follower [OF o(2) assms(4)] assms(1,3) by (auto simp: pair_ok_def)
  obtain F es where k: "pair_ok F es (p, f)" "map entry_upd es = W" "F + length es \<le> length ops"
    using pair_run_ok [OF p0 _ assms(5)] assms(6) by auto
  have pf: "primary_ok F es p" "replica_ok F es f" "F + length es \<le> 2 ^ 29" using k assms(6) by (simp_all add: pair_ok_def)
  have len: "unat (nn_applied f) \<le> length W" using pf(2) k(2) by (auto simp: replica_ok_def prefix_engine_def)
  have tk: "map entry_upd (take n es) = take n W" for n using k(2) take_map [of n entry_upd es] by simp
  have reads: "fst (handle_kv ''GET'' (kv_path k) b io p) = Reply 200 (Bd_get (play W Map.empty k))
      \<and> fst (handle_kv ''GET'' (kv_path k) b io f) = Reply 200 (Bd_get (play (map wire_upd (take (unat (nn_applied f)) W)) Map.empty k))"
    if "k \<noteq> []" for k b io
    using primary_reads [OF pf(1) that] follower_reads [OF pf(2) that] k(2) tk by simp
  have catch: "\<exists>f'. pair_run c r (replicate j (Pr_sync None True now)) (p, f) = Some ([], p, f')
      \<and> (\<forall>k b io. k \<noteq> [] \<longrightarrow> fst (handle_kv ''GET'' (kv_path k) b io f') = fst (handle_kv ''GET'' (kv_path k) b io p))"
    if v: "\<forall>w \<in> set W. upd_valid w" and l: "length W \<le> unat (nn_applied f) + 1000 * j"
  proof -
    have ve: "\<forall>en \<in> set es. upd_valid (entry_upd en)" using v k(2) by auto
    have le: "length es \<le> unat (nn_applied f) + 1000 * j" using l k(2) by auto
    obtain f' where f': "pair_run c r (replicate j (Pr_sync None True now)) (p, f) = Some ([], p, f')" "replica_ok F es f'"
        "unat (nn_applied f') = length es" using sync_rounds [OF k(1) pf(3) ve le] by blast
    have "map wire_upd W = W" using v by (simp add: map_idI)
    then have "fst (handle_kv ''GET'' (kv_path k) b io f') = fst (handle_kv ''GET'' (kv_path k) b io p)" if "k \<noteq> []" for k b io
      using primary_reads [OF pf(1) that] follower_reads [OF f'(2) that] f'(3) k(2) by simp
    then show ?thesis using f'(1) by blast
  qed
  show ?thesis using len reads catch by blast
qed

section \<open>A concrete run\<close>

definition demo_options :: "string \<Rightarrow> node_options" where
  "demo_options role = \<lparr>no_id = ascii ''node-1'', no_addr = ascii ''127.0.0.1:9101'', no_dir = ''data'', no_sync = True, no_mem_max = 0,
     no_role = role, no_primary_url = ascii ''http://127.0.0.1:9101'',
     no_bg = \<lparr>bc_enabled = False, bc_interval = 0, bc_timeout = 0, bc_initial = 0, bc_max = 0, bc_jitter = 0\<rparr>\<rparr>"

lemma demo_options_ok: "role \<in> {role_primary, role_follow} \<Longrightarrow> node_options_ok True (demo_options role)"
  by (auto simp: demo_options_def node_options_ok_def bg_config_ok_def ascii_def)

lemma primary_accepts:
  assumes "primary_ok F es p" "F + length es \<le> 2 ^ 29" "k \<noteq> []"
    and "17 + length k + length (upd_value v) \<le> engine_record_limit"
  shows "\<exists>b p'. handle_write k v (good_kv now) p = (Reply 200 b, p') \<and> (\<exists>en. entry_upd en = (k, v) \<and> primary_ok F (es @ [en]) p')"
proof -
  have inv: "engine_inv (nn_eng p)" "limit_ok (nn_eng p)" "write_refused p = None"
    using assms(1) engine_ok_inv by (auto simp: primary_ok_def write_refused_def)
  obtain e1 where w: "engine_write k v Write_ok True (nn_eng p) = (None, e1)"
    using engine_write_succeeds [OF inv(1) assms(3), of v] assms(4) inv(2) by (auto simp: limit_ok_def upd_value_def)
  obtain rep p' where h: "handle_write k v (good_kv now) p = (rep, p')" by (cases "handle_write k v (good_kv now) p") auto
  have "p' \<noteq> p \<or> rep = Reply 200 (if v = None then Bd_delete else Bd_put) \<or> rep = Aborted"
    using h w inv(3) assms(3) by (auto simp: handle_write_eq good_kv_def journal_write_def split: option.splits prod.splits if_splits)
  moreover have "rep \<noteq> Aborted"
  proof
    assume r: "rep = Aborted"
    obtain dl where dl: "nn_log p = Some dl" "durable_holds es dl" using assms(1) by (auto simp: primary_ok_def)
    have "valid_entry (upd_op v) k" "length k + length (upd_value v) + 33 < 2 ^ 32" "length es < 2 ^ 62"
      using assms(2-4) by (auto simp: valid_entry_def upd_op_def engine_record_limit_def)
    from durable_append_good [OF dl(2) this, of now]
    show False using r h w inv(3) assms(3) dl(1) by (auto simp: handle_write_eq good_kv_def journal_write_def)
  qed
  ultimately show ?thesis using primary_write [OF assms(1,2) h] h by auto
qed

lemma demo_pair_run:
  obtains p0 dp f0 df p where "node_open good_open (demo_options role_primary) fresh_node_disk = (Inr p0, dp)"
    "node_open good_open (demo_options role_follow) fresh_node_disk = (Inr f0, df)"
    "pair_run c r [Pr_write [107] (Some [118]) 5] (p0, f0) = Some ([([107], Some [118])], p, f0)"
proof -
  have ro: "no_role (demo_options role) = role" for role by (simp add: demo_options_def)
  obtain p0 dp where p: "node_open good_open (demo_options role_primary) fresh_node_disk = (Inr p0, dp)" "primary_ok 0 [] p0"
    using node_open_primary [OF demo_options_ok ro] by auto
  obtain f0 df where f: "node_open good_open (demo_options role_follow) fresh_node_disk = (Inr f0, df)" "replica_ok 0 [] f0"
    using node_open_follower [OF demo_options_ok ro] by auto
  obtain b p1 en where w: "handle_write [107] (Some [118]) (good_kv 5) p0 = (Reply 200 b, p1)" "primary_ok 0 ([] @ [en]) p1"
    using primary_accepts [OF p(2), of "[107]" "Some [118]" 5] by (auto simp: engine_record_limit_def upd_value_def)
  have "\<not> en_closed (nn_eng p1)" "\<not> en_closed (nn_eng f0)"
    using w(2) f(2) by (auto simp: primary_ok_def replica_ok_def prefix_engine_def engine_ok_def)
  then have "pair_run c r [Pr_write [107] (Some [118]) 5] (p0, f0) = Some ([([107], Some [118])], p1, f0)"
    using w(1) by (simp add: on_side_def)
  then show thesis using that p(1) f(1) by blast
qed

theorem node_replication_converges_witness:
  "\<exists>p0 dp f0 df p f'. node_open good_open (demo_options role_primary) fresh_node_disk = (Inr p0, dp)
    \<and> node_open good_open (demo_options role_follow) fresh_node_disk = (Inr f0, df)
    \<and> pair_run (\<lambda>_ _. 1) (\<lambda>_ _. 1) [Pr_write [107] (Some [118]) 5] (p0, f0) = Some ([([107], Some [118])], p, f0)
    \<and> pair_run (\<lambda>_ _. 1) (\<lambda>_ _. 1) [Pr_sync None True []] (p, f0) = Some ([], p, f')
    \<and> fst (handle_kv ''GET'' (kv_path [107]) None (good_kv 0) f') = Reply 200 (Bd_get (Some [118]))"
proof -
  obtain p0 dp f0 df p where o: "node_open good_open (demo_options role_primary) fresh_node_disk = (Inr p0, dp)"
    "node_open good_open (demo_options role_follow) fresh_node_disk = (Inr f0, df)"
    "pair_run (\<lambda>_ _. 1) (\<lambda>_ _. 1) [Pr_write [107] (Some [118]) 5] (p0, f0) = Some ([([107], Some [118])], p, f0)"
    by (rule demo_pair_run)
  have ro: "no_role (demo_options role) = role" for role by (simp add: demo_options_def)
  have v: "upd_valid ([107], Some [118])" by (simp add: upd_valid_def json_valid_ascii)
  have t: "fst (handle_kv ''GET'' (kv_path [107]) None (good_kv 0) p) = Reply 200 (Bd_get (Some [118]))"
    "\<exists>f'. pair_run (\<lambda>_ _. 1) (\<lambda>_ _. 1) (replicate 1 (Pr_sync None True [])) (p, f0) = Some ([], p, f')
      \<and> (\<forall>k b io. k \<noteq> [] \<longrightarrow> fst (handle_kv ''GET'' (kv_path k) b io f') = fst (handle_kv ''GET'' (kv_path k) b io p))"
    using node_replication_converges [OF o(1) ro o(2) ro o(3), of 1 "[]"] v by auto
  then obtain f' where f': "pair_run (\<lambda>_ _. 1) (\<lambda>_ _. 1) [Pr_sync None True []] (p, f0) = Some ([], p, f')"
      "fst (handle_kv ''GET'' (kv_path [107]) None (good_kv 0) f') = fst (handle_kv ''GET'' (kv_path [107]) None (good_kv 0) p)"
    by (auto simp del: pair_run.simps)
  show ?thesis using o f' t(1) by (intro exI conjI) auto
qed

end
