(* ===== verification/FenceSpec.thy ===== *)
theory FenceSpec
  imports Failover NodeSync
begin

text \<open>
  The fence of a quiesced primary: once its intent is on disk, no restart, crash or later request makes the
  node accept a write again.
\<close>

section \<open>Journals and reopening\<close>

definition journal_ok :: "u64 \<Rightarrow> rep_entry list \<Rightarrow> node \<Rightarrow> bool" where
  "journal_ok base es n \<longleftrightarrow> (\<exists>dl. nn_log n = Some dl \<and> durable_inv base es dl \<and> \<not> dl_poisoned dl) \<and> base_of (nn_journal n) = Some base"

definition disk_journal_ok :: "u64 \<Rightarrow> rep_entry list \<Rightarrow> journal_dir \<Rightarrow> bool" where
  "disk_journal_ok base es d \<longleftrightarrow> (\<forall>e \<in> set es. entry_fits_journal e) \<and> counts_from base (map re_seq es) \<and> base_of d = Some base
     \<and> (case jd_journal d of None \<Rightarrow> [] | Some bs \<Rightarrow> bs) = concat (map entry_record es)"

lemma base_of_journal [simp]: "base_of (d\<lparr>jd_journal := x\<rparr>) = base_of d"
  by (simp add: base_of_def load_baseline_def)

lemma journal_directory: "journal_ok base es n \<Longrightarrow> disk_journal_ok base es (node_journal_dir n)"
  by (auto simp: journal_ok_def disk_journal_ok_def node_journal_dir_def durable_inv_def)

lemma durable_close_bytes [simp]: "dl_file (durable_close dl) = dl_file dl"
  by (simp add: durable_close_def)

lemma node_close_directory:
  "nd_records (node_directory (snd (node_close n))) = nd_records (node_directory n)"
  "nd_journal (node_directory (snd (node_close n))) = nd_journal (node_directory n)"
  by (auto simp: node_close_def node_directory_def node_journal_dir_def split: prod.splits option.splits)

lemma open_durable_fault:
  "open_durable_log fault d = (Inr dl, d') \<Longrightarrow> open_durable_log None d = (Inr dl, d')"
  by (auto simp: open_durable_log_def Let_def split: if_splits sum.splits option.splits prod.splits journal_end.splits)

lemma open_durable_disk:
  assumes "open_durable_log fault d = (Inr dl, d')" "disk_journal_ok base es d"
  shows "durable_inv base es dl \<and> \<not> dl_poisoned dl \<and> base_of d' = Some base"
proof -
  let ?bs = "concat (map entry_record es)"
  have b: "base_of d = Some base" and e: "\<forall>e \<in> set es. entry_fits_journal e" "counts_from base (map re_seq es)"
    and bs: "(case jd_journal d of None \<Rightarrow> [] | Some bs \<Rightarrow> bs) = ?bs" using assms(2) by (simp_all add: disk_journal_ok_def)
  note o = open_durable_fault [OF assms(1)]
  let ?d = "d\<lparr>jd_journal := Some ?bs\<rparr>"
  have same: "open_durable_log None d = open_durable_log None ?d"
    using bs by (simp add: open_durable_log_def load_baseline_def Let_def split: sum.split option.split prod.split journal_end.split)
  have "base_of ?d = Some base" using b by simp
  then obtain dl2 d2 where k: "open_durable_log None ?d = (Inr dl2, d2)" "durable_inv base es dl2"
    using open_holds [OF e, of ?d "[]"] journal_read_nil by auto
  have "dl = dl2" using o same k(1) by simp
  moreover have "\<not> dl_poisoned dl" "jd_baseline d' = jd_baseline d"
    using o by (auto simp: open_durable_log_def opened_log_def Let_def split: if_splits sum.splits option.splits prod.splits journal_end.splits)
  ultimately show ?thesis using k(2) b by (auto simp: base_of_def load_baseline_def)
qed

lemma latest_seq_inv:
  assumes "durable_inv base es dl"
  shows "unat (latest_seq dl) = unat base + length es"
proof -
  have i: "dl_index dl = rows_of 0 (map entry_payload es)" "dl_base dl = base" "counts_from base (map re_seq es)"
      "\<forall>e \<in> set es. entry_fits_journal e" using assms by (auto simp: durable_inv_def)
  show ?thesis
  proof (cases "es = []")
    case False
    then have ne: "dl_index dl \<noteq> []" using i(1) by (metis length_0_conv length_map length_rows_of)
    have "ix_seq (last (dl_index dl)) = last (map ix_seq (dl_index dl))" using ne by (simp add: last_map)
    also have "\<dots> = last (map payload_seq (map entry_payload es))" by (simp add: i(1) del: map_map)
    also have "\<dots> = re_seq (last es)" using False i(4) by (simp add: last_map payload_seq_entry)
    finally have "latest_seq dl = re_seq (last es)" using ne by (simp add: latest_seq_def)
    then show ?thesis using counts_from_nth [OF i(3), of "length es - 1"] False by (simp add: last_conv_nth)
  qed (simp add: i latest_seq_def)
qed

section \<open>Fenced nodes\<close>

text \<open>The records of a fence with the identifier \<open>qid\<close>: an intent, a final record, or both.\<close>

definition fence_files :: "bytes \<Rightarrow> record_files \<Rightarrow> bool" where
  "fence_files qid fs \<longleftrightarrow> load_promotion fs = Inl RcNotFound
     \<and> (load_intent fs = Inl RcNotFound \<or> (\<exists>i. load_intent fs = Inr i \<and> qi_id i = qid))
     \<and> (load_quiesce fs = Inl RcNotFound \<or> (\<exists>r. load_quiesce fs = Inr r \<and> qr_id r = qid))
     \<and> (load_intent fs = Inl RcNotFound \<longrightarrow> load_quiesce fs \<noteq> Inl RcNotFound)"

definition seq_fits :: "u64 \<Rightarrow> rep_entry list \<Rightarrow> u64 \<Rightarrow> bool" where
  "seq_fits base es q \<longleftrightarrow> unat q = unat base + length es"

text \<open>A record that comes back from its file as it was written.\<close>

definition quiesce_sealed :: "quiesce_record \<Rightarrow> bool" where
  "quiesce_sealed r \<longleftrightarrow> quiesce_valid r \<and> qr_checksum r = quiesce_checksum r"

definition fence_state :: "bytes \<Rightarrow> u64 \<Rightarrow> rep_entry list \<Rightarrow> node \<Rightarrow> bool" where
  "fence_state qid base es n \<longleftrightarrow>
     (nn_qstate n = Q_failed_fenced \<and> load_quiesce (nn_files n) = Inl RcNotFound
        \<and> (\<exists>r. nn_pending n = Some r \<and> qr_id r = qid \<and> seq_fits base es (qr_seq r) \<and> quiesce_sealed r))
   \<or> (nn_qstate n = Q_quiesced \<and> (\<exists>r. nn_qrec n = Some r \<and> qr_id r = qid \<and> seq_fits base es (qr_seq r)
        \<and> load_quiesce (nn_files n) = Inr r))"

definition fenced :: "bytes \<Rightarrow> u64 \<Rightarrow> rep_entry list \<Rightarrow> node \<Rightarrow> bool" where
  "fenced qid base es n \<longleftrightarrow> nn_role n = role_primary \<and> no_role (nn_opts n) = role_primary \<and> nn_pstate n = Pm_none
     \<and> nn_gate n = Some True \<and> journal_ok base es n \<and> fence_files qid (nn_files n) \<and> fence_state qid base es n"

text \<open>The intent keeps strings that survive the file.\<close>

definition intent_texts :: "record_files \<Rightarrow> bool" where
  "intent_texts fs \<longleftrightarrow> (\<forall>i. load_intent fs = Inr i \<longrightarrow>
     json_valid (qi_id i) \<and> json_valid (qi_node i) \<and> json_valid (qi_url i) \<and> json_valid (qi_at i))"

text \<open>The final record on disk tells the journal's end.\<close>

definition final_fits :: "u64 \<Rightarrow> rep_entry list \<Rightarrow> record_files \<Rightarrow> bool" where
  "final_fits base es fs \<longleftrightarrow> (\<forall>r. load_quiesce fs = Inr r \<longrightarrow> seq_fits base es (qr_seq r))"

lemma load_quiesce_remove: "remove_intent ok fs = (er, fs') \<Longrightarrow> load_quiesce fs' = load_quiesce fs \<and> load_promotion fs' = load_promotion fs
   \<and> (load_intent fs' = load_intent fs \<or> load_intent fs' = Inl RcNotFound)"
  by (auto simp: remove_intent_def load_quiesce_def load_promotion_def load_intent_def split: if_splits)

lemma pending_sealed:
  "intent_texts fs \<Longrightarrow> load_intent fs = Inr i \<Longrightarrow>
   quiesce_valid (pending_of i) \<and> qr_id (pending_of i) = qi_id i \<and> json_valid (qi_id i) \<and> qr_seq (pending_of i) = 0"
  by (simp add: intent_texts_def pending_of_def quiesce_valid_def quiesce_version_def Let_def)

text \<open>Opening a directory with a fence.\<close>

lemma open_fenced:
  assumes o: "node_open io opts d = (Inr n, d')" and role: "no_role opts = role_primary"
    and ff: "fence_files qid (nd_records d)" and tx: "intent_texts (nd_records d)" and fi: "final_fits base es (nd_records d)"
    and j: "disk_journal_ok base es (nd_journal d)"
  shows "fenced qid base es n \<and> intent_texts (nn_files n) \<and> nn_opts n = opts"
proof -
  let ?fs = "nd_records d"
  obtain eng de where e: "engine_open (oi_engine io) (node_engine_options opts) (nd_engine d) = (Inr eng, de)"
    using o by (auto simp: node_open_def split: if_splits sum.splits prod.splits)
  let ?n0 = "fresh_node opts eng (nd_journal d) ?fs"
  have pr: "load_promotion ?fs = Inl RcNotFound" using ff by (simp add: fence_files_def)
  obtain n1 where r1: "resolve_role io ?n0 = (None, n1)" "open_replication io n1 = (None, n)"
    using o e by (auto simp: node_open_def split: if_splits prod.splits option.splits)
  let ?n2 = "?n0\<lparr>nn_role := role_primary, nn_source := From_config, nn_gate := Some False, nn_qstate := Q_active\<rparr>"
  have rf: "resolve_fence (oi_remove io) ?n2 = (None, n1)"
    using r1(1) pr role by (simp add: resolve_role_def resolve_config_def fresh_node_def Let_def)
  have base: "nn_files ?n2 = ?fs" "nn_journal ?n2 = nd_journal d" "nn_opts ?n2 = opts" "nn_log ?n2 = None" "nn_pstate ?n2 = Pm_none"
    by (simp_all add: fresh_node_def)
  have n1: "nn_role n1 = role_primary \<and> nn_opts n1 = opts \<and> nn_pstate n1 = Pm_none \<and> nn_gate n1 = Some True \<and> nn_log n1 = None
      \<and> nn_journal n1 = nd_journal d \<and> load_quiesce (nn_files n1) = load_quiesce ?fs \<and> load_promotion (nn_files n1) = Inl RcNotFound
      \<and> (load_intent (nn_files n1) = load_intent ?fs \<or> load_intent (nn_files n1) = Inl RcNotFound)
      \<and> (case load_quiesce ?fs of Inr r \<Rightarrow> nn_qstate n1 = Q_quiesced \<and> nn_qrec n1 = Some r
         | Inl _ \<Rightarrow> nn_qstate n1 = Q_failed_fenced \<and> (\<exists>i. load_intent ?fs = Inr i \<and> nn_pending n1 = Some (pending_of i))
              \<and> load_intent (nn_files n1) = load_intent ?fs)"
  proof -
    consider (both) i f where "load_intent ?fs = Inr i" "load_quiesce ?fs = Inr f" "qi_id i = qid" "qr_id f = qid"
      | (intent) i where "load_intent ?fs = Inr i" "load_quiesce ?fs = Inl RcNotFound"
      | (final) f where "load_intent ?fs = Inl RcNotFound" "load_quiesce ?fs = Inr f"
      using ff by (auto simp: fence_files_def)
    then show ?thesis
    proof cases
      case both
      obtain er fs' where rm: "remove_intent (oi_remove io) ?fs = (er, fs')" by fastforce
      note k = load_quiesce_remove [OF rm]
      show ?thesis using rf both rm k pr base
        by (cases er) (auto simp: resolve_fence_def maybe_record_def fresh_node_def)
    next
      case intent
      then show ?thesis using rf pr base by (auto simp: resolve_fence_def maybe_record_def fresh_node_def)
    next
      case final
      then show ?thesis using rf pr base by (auto simp: resolve_fence_def maybe_record_def fresh_node_def)
    qed
  qed
  obtain dl jd where l: "open_durable_log (oi_journal io) (nd_journal d) = (Inr dl, jd)"
      "n = stamp_pending (n1\<lparr>nn_journal := jd, nn_log := Some dl\<rparr>)"
    using r1(2) n1 by (auto simp: open_replication_def open_node_log_def split: prod.splits sum.splits)
  have dl: "durable_inv base es dl" "\<not> dl_poisoned dl" "base_of jd = Some base" using open_durable_disk [OF l(1) j] by simp_all
  have st: "nn_role n = nn_role n1" "nn_opts n = opts" "nn_pstate n = Pm_none" "nn_gate n = Some True" "nn_files n = nn_files n1"
      "nn_log n = Some dl" "nn_journal n = jd" "nn_qstate n = nn_qstate n1" "nn_qrec n = nn_qrec n1"
    using n1 l(2) by (auto simp: stamp_pending_def Let_def split: quiesce_phase.splits option.splits)
  have jo: "journal_ok base es n" using dl st by (simp add: journal_ok_def)
  have fn: "fence_files qid (nn_files n)" using ff n1 st(5) by (auto simp: fence_files_def)
  have "fence_state qid base es n"
  proof (cases "load_quiesce ?fs")
    case (Inr r)
    then have "qr_id r = qid" using ff by (auto simp: fence_files_def)
    then show ?thesis using Inr n1 st fi by (auto simp: fence_state_def final_fits_def)
  next
    case (Inl x)
    then obtain i where i: "load_intent ?fs = Inr i" "nn_pending n1 = Some (pending_of i)" "nn_qstate n1 = Q_failed_fenced"
      using n1 by auto
    note ps = pending_sealed [OF tx i(1)]
    let ?r = "(pending_of i)\<lparr>qr_seq := latest_seq dl\<rparr>"
    have "nn_pending n = Some (?r\<lparr>qr_checksum := quiesce_checksum ?r\<rparr>)"
      using l(2) i ps by (simp add: stamp_pending_def Let_def)
    moreover have "quiesce_sealed (?r\<lparr>qr_checksum := quiesce_checksum ?r\<rparr>)" using ps by (simp add: quiesce_sealed_def quiesce_valid_def)
    moreover have "qi_id i = qid" using ff i(1) by (auto simp: fence_files_def)
    moreover have "x = RcNotFound" using ff Inl by (auto simp: fence_files_def)
    ultimately show ?thesis using Inl i ps n1 st latest_seq_inv [OF dl(1)] by (auto simp: fence_state_def seq_fits_def)
  qed
  moreover have "intent_texts (nn_files n)" using tx n1 st(5) by (auto simp: intent_texts_def)
  ultimately show ?thesis using n1 st role jo fn by (simp add: fenced_def)
qed

text \<open>A directory with a fence, and what a fenced node leaves on disk.\<close>

definition fence_disk :: "bytes \<Rightarrow> u64 \<Rightarrow> rep_entry list \<Rightarrow> node_disk \<Rightarrow> bool" where
  "fence_disk qid base es d \<longleftrightarrow> fence_files qid (nd_records d) \<and> intent_texts (nd_records d) \<and> final_fits base es (nd_records d)
     \<and> disk_journal_ok base es (nd_journal d)"

definition fenced_ok :: "bytes \<Rightarrow> u64 \<Rightarrow> rep_entry list \<Rightarrow> node_options \<Rightarrow> node \<Rightarrow> bool" where
  "fenced_ok qid base es opts n \<longleftrightarrow> fenced qid base es n \<and> intent_texts (nn_files n) \<and> nn_opts n = opts"

lemma open_fence_disk:
  "node_open io opts d = (Inr n, d') \<Longrightarrow> no_role opts = role_primary \<Longrightarrow> fence_disk qid base es d \<Longrightarrow> fenced_ok qid base es opts n"
  using open_fenced [of io opts d n d' qid base es] by (simp add: fence_disk_def fenced_ok_def)

lemma node_directory_sel [simp]:
  "nd_records (node_directory n) = nn_files n" "nd_journal (node_directory n) = node_journal_dir n"
  by (simp_all add: node_directory_def)

lemma fenced_disk:
  assumes "fenced_ok qid base es opts n"
  shows "fence_disk qid base es (node_directory n)" "fence_disk qid base es (node_directory (snd (node_close n)))"
proof -
  have f: "fence_files qid (nn_files n)" "intent_texts (nn_files n)" "disk_journal_ok base es (node_journal_dir n)"
      "fence_state qid base es n"
    using assms journal_directory by (auto simp: fenced_ok_def fenced_def)
  have "final_fits base es (nn_files n)" using f(4) by (auto simp: fence_state_def final_fits_def)
  then show "fence_disk qid base es (node_directory n)" using f by (simp add: fence_disk_def)
  then show "fence_disk qid base es (node_directory (snd (node_close n)))"
    using node_close_directory [of n] by (simp only: fence_disk_def)
qed

section \<open>Requests to a fenced node\<close>

lemma fenced_engine: "fenced_ok qid base es opts n \<Longrightarrow> fenced_ok qid base es opts (n\<lparr>nn_eng := e\<rparr>)"
  by (auto simp: fenced_ok_def fenced_def journal_ok_def fence_state_def)

lemma fenced_refuses: "fenced_ok qid base es opts n \<Longrightarrow> write_refused n = Some (Reply 409 (Bd_code ''node_quiesced''))"
  by (simp add: fenced_ok_def fenced_def write_refused_def)

text \<open>The end of a quiesce: the record is on disk, the intent may stay.\<close>

lemma finish_fenced:
  assumes "nn_role n = role_primary" "no_role (nn_opts n) = role_primary" "nn_pstate n = Pm_none" "nn_gate n = Some True"
    "journal_ok base es n" "fence_files qid (nn_files n)" "intent_texts (nn_files n)"
    "load_quiesce (nn_files n) = Inr q" "qr_id q = qid" "seq_fits base es (qr_seq q)"
  shows "fenced_ok qid base es (nn_opts n) (quiesce_finish_step ok q n)"
    "fenced_ok qid base es (nn_opts n) ((quiesce_finish_step ok q n)\<lparr>nn_pending := None\<rparr>)"
proof -
  obtain er fs where rm: "remove_intent ok (nn_files n) = (er, fs)" by fastforce
  note k = load_quiesce_remove [OF rm]
  have "fence_files qid fs" "intent_texts fs" using assms(6-8) k by (auto simp: fence_files_def intent_texts_def)
  then show "fenced_ok qid base es (nn_opts n) (quiesce_finish_step ok q n)"
    "fenced_ok qid base es (nn_opts n) ((quiesce_finish_step ok q n)\<lparr>nn_pending := None\<rparr>)"
    using assms rm k by (auto simp: fenced_ok_def fenced_def quiesce_finish_step_def journal_ok_def fence_state_def)
qed

lemma save_quiesce_sealed:
  assumes "quiesce_sealed q" "save_quiesce ok q fs = (er, q', fs')"
  shows "q' = q" "er \<noteq> None \<Longrightarrow> fs' = fs" "er = None \<Longrightarrow> load_quiesce fs' = Inr q"
    "load_intent fs' = load_intent fs" "load_promotion fs' = load_promotion fs"
proof -
  have c: "q\<lparr>qr_checksum := quiesce_checksum q\<rparr> = q" using assms(1) by (simp add: quiesce_sealed_def)
  show "q' = q" "er \<noteq> None \<Longrightarrow> fs' = fs" "load_intent fs' = load_intent fs" "load_promotion fs' = load_promotion fs"
    using assms(2) c by (auto simp: save_quiesce_def Let_def load_intent_def load_promotion_def split: if_splits)
  assume "er = None"
  then have "ok" using assms(2) by (auto simp: save_quiesce_def Let_def split: if_splits)
  then show "load_quiesce fs' = Inr q"
    using save_load_quiesce [of q fs q' fs'] assms \<open>er = None\<close> \<open>q' = q\<close> by (auto simp: quiesce_sealed_def)
qed

text \<open>A retry whose crash comes before the intent is removed, and the whole retry.\<close>

lemma retry_fenced:
  assumes f: "fenced_ok qid base es opts n" and p: "nn_qstate n = Q_failed_fenced" "nn_pending n = Some q"
    and s: "save_quiesce ok q (nn_files n) = (er, q', fs)"
  shows "er \<noteq> None \<Longrightarrow> fs = nn_files n \<and> q' = q" "er = None \<Longrightarrow> fenced_ok qid base es opts ((quiesce_finish_step rm q' (n\<lparr>nn_files := fs\<rparr>))\<lparr>nn_pending := None\<rparr>)"
    "fence_disk qid base es (node_directory (n\<lparr>nn_files := fs\<rparr>))"
proof -
  have q: "qr_id q = qid" "seq_fits base es (qr_seq q)" "quiesce_sealed q"
    and n: "fence_files qid (nn_files n)" "intent_texts (nn_files n)" "journal_ok base es n" "load_quiesce (nn_files n) = Inl RcNotFound"
    using f p by (auto simp: fenced_ok_def fenced_def fence_state_def)
  note k = save_quiesce_sealed [OF q(3) s]
  show "er \<noteq> None \<Longrightarrow> fs = nn_files n \<and> q' = q" using k by simp
  have ff: "fence_files qid fs" "intent_texts fs" if "er = None" using n k q(1) that by (auto simp: fence_files_def intent_texts_def)
  show "fenced_ok qid base es opts ((quiesce_finish_step rm q' (n\<lparr>nn_files := fs\<rparr>))\<lparr>nn_pending := None\<rparr>)" if "er = None"
  proof -
    let ?n = "n\<lparr>nn_files := fs\<rparr>"
    have "nn_role ?n = role_primary" "no_role (nn_opts ?n) = role_primary" "nn_pstate ?n = Pm_none" "nn_gate ?n = Some True"
        "nn_opts ?n = opts" "journal_ok base es ?n" "fence_files qid (nn_files ?n)" "intent_texts (nn_files ?n)"
      using f ff [OF that] by (auto simp: fenced_ok_def fenced_def journal_ok_def)
    then show ?thesis using finish_fenced(2) [of ?n base es qid q rm] k(1) k(3) [OF that] q(1,2) by simp
  qed
  show "fence_disk qid base es (node_directory (n\<lparr>nn_files := fs\<rparr>))"
  proof (cases er)
    case None
    then show ?thesis using ff k q n journal_directory [OF n(3)]
      by (auto simp: fence_disk_def final_fits_def node_journal_dir_def split: option.splits)
  next
    case (Some e)
    then show ?thesis using k fenced_disk(1) [OF f] by (simp add: node_directory_def node_journal_dir_def)
  qed
qed

lemma fenced_quiesce:
  assumes f: "fenced_ok qid base es opts n" and h: "handle_quiesce m io n = (rep, n')"
  shows "fenced_ok qid base es opts n'"
proof -
  have pr: "nn_role n = role_primary" using f by (simp add: fenced_ok_def fenced_def)
  consider "n' = n" | q where "nn_qstate n = Q_failed_fenced" "nn_pending n = Some q" "handle_quiesce m io n = quiesce_retry io n"
    using h f pr by (auto simp: handle_quiesce_def fenced_ok_def fenced_def fence_state_def split: if_splits)
  then show ?thesis
  proof cases
    case 1
    then show ?thesis using f by simp
  next
    case 2
    obtain er q' fs where s: "save_quiesce (qz_record_ok io) q (nn_files n) = (er, q', fs)" by (metis prod_cases3)
    note k = retry_fenced [OF f 2(1,2) s]
    show ?thesis
    proof (cases er)
      case None
      then have "n' = (quiesce_finish_step (qz_remove_ok io) q' (n\<lparr>nn_files := fs\<rparr>))\<lparr>nn_pending := None\<rparr>"
        using h 2 s by (simp add: quiesce_retry_def)
      then show ?thesis using k(2) [OF None] by simp
    next
      case (Some e)
      then have "n' = n\<lparr>nn_files := nn_files n, nn_pending := Some q\<rparr>" using h 2 s k(1) by (simp add: quiesce_retry_def)
      then have "n' = n" using 2(2) by simp
      then show ?thesis using f by simp
    qed
  qed
qed

text \<open>Its replies with 200 name the fence.\<close>

lemma fenced_quiesce_reply:
  assumes f: "fenced_ok qid base es opts n" and h: "handle_quiesce m io n = (Reply 200 (Bd_quiesced q), n')"
  shows "qs_id q = qid \<and> seq_fits base es (qs_seq q)"
proof -
  have pr: "nn_role n = role_primary" using f by (simp add: fenced_ok_def fenced_def)
  consider r where "nn_qstate n = Q_quiesced" "nn_qrec n = Some r" "qr_id r = qid" "seq_fits base es (qr_seq r)"
    | r where "nn_qstate n = Q_failed_fenced" "nn_pending n = Some r" "qr_id r = qid" "seq_fits base es (qr_seq r)" "quiesce_sealed r"
    using f by (auto simp: fenced_ok_def fenced_def fence_state_def)
  then show ?thesis
  proof cases
    case 1
    then show ?thesis using h pr by (auto simp: handle_quiesce_def quiesce_reply_def not_allowed_def split: if_splits)
  next
    case 2
    obtain er q' fs where s: "save_quiesce (qz_record_ok io) r (nn_files n) = (er, q', fs)" by (metis prod_cases3)
    then have "q' = r" using save_quiesce_sealed(1) [OF 2(5)] by blast
    then show ?thesis using h pr 2(1-4) s
      by (auto simp: handle_quiesce_def quiesce_retry_def quiesce_reply_def not_allowed_def split: if_splits option.splits)
  qed
qed

lemma fenced_serve:
  assumes f: "fenced_ok qid base es opts n" and s: "serve c r rq n = (rep, n')"
  shows "fenced_ok qid base es opts n'"
proof -
  have pr: "nn_role n = role_primary" "nn_pstate n = Pm_none" using f by (simp_all add: fenced_ok_def fenced_def)
  note w = fenced_refuses [OF f]
  have same: "n' = n \<or> (\<exists>e. n' = n\<lparr>nn_eng := e\<rparr>) \<or> (\<exists>m io. rq = Rq_quiesce m io)"
  proof (cases rq)
    case (Rq_kv m path body io)
    then show ?thesis using s w
      by (auto simp: handle_kv_def handle_kv_put_def handle_kv_delete_def handle_kv_get_def Let_def
          split: if_splits prod.splits sum.splits engine_error.splits)
  next
    case (Rq_flush m fault)
    then show ?thesis using s by (auto simp: handle_flush_def split: if_splits prod.splits option.splits)
  next
    case (Rq_compact m fault)
    then show ?thesis using s by (auto simp: handle_compact_def split: if_splits prod.splits option.splits)
  next
    case (Rq_explain_get m key)
    then show ?thesis using s by (auto simp: handle_explain_get_def split: if_splits prod.splits)
  next
    case (Rq_promote m body io)
    then show ?thesis using s pr by (auto simp: handle_promote_def promote_early_def split: if_splits option.splits)
  qed (use s w pr in \<open>auto simp: handle_replication_apply_def handle_replication_sync_def handle_explain_put_def
      handle_explain_delete_def split: if_splits\<close>)
  then consider "n' = n" | e where "n' = n\<lparr>nn_eng := e\<rparr>" | m io where "rq = Rq_quiesce m io" by blast
  then show ?thesis using f fenced_engine fenced_quiesce s by cases auto
qed

section \<open>Raising the fence\<close>

text \<open>A primary by its configuration that accepts writes.\<close>

definition active_primary :: "u64 \<Rightarrow> rep_entry list \<Rightarrow> node \<Rightarrow> bool" where
  "active_primary base es n \<longleftrightarrow> nn_role n = role_primary \<and> no_role (nn_opts n) = role_primary \<and> nn_pstate n = Pm_none
     \<and> nn_gate n = Some False \<and> nn_qstate n = Q_active \<and> journal_ok base es n \<and> load_promotion (nn_files n) = Inl RcNotFound
     \<and> rf_intent (nn_files n) = No_file \<and> rf_quiesce (nn_files n) = No_file"

text \<open>Texts of the records that JSON keeps.\<close>

definition quiesce_texts :: "quiesce_io \<Rightarrow> node \<Rightarrow> bool" where
  "quiesce_texts io n \<longleftrightarrow> (\<forall>qid. qz_id io = Some qid \<longrightarrow> json_valid qid) \<and> json_valid (qz_intent_at io) \<and> json_valid (qz_at io)
     \<and> json_valid (no_id (nn_opts n)) \<and> json_valid (ascii ''http://'' @ node_addr n)"

lemma intent_step:
  assumes a: "active_primary base es n" and t: "quiesce_texts io n" "qz_id io = Some qid"
    and s: "quiesce_intent_step io qid n = (er, n1)"
  shows "er \<noteq> None \<Longrightarrow> n1 = n"
    "er = None \<Longrightarrow> n1 = n\<lparr>nn_files := nn_files n1, nn_intent_active := True\<rparr> \<and> rf_quiesce (nn_files n1) = No_file
       \<and> load_promotion (nn_files n1) = Inl RcNotFound \<and> (\<exists>i. load_intent (nn_files n1) = Inr i \<and> qi_id i = qid) \<and> intent_texts (nn_files n1)"
proof -
  let ?i = "\<lparr>qi_version = 1, qi_id = qid, qi_node = no_id (nn_opts n), qi_url = ascii ''http://'' @ node_addr n,
      qi_at = qz_intent_at io, qi_checksum = 0\<rparr>"
  have v: "intent_valid ?i" using t by (simp add: intent_valid_def intent_version_def quiesce_texts_def)
  show "er \<noteq> None \<Longrightarrow> n1 = n" using s by (auto simp: quiesce_intent_step_def save_intent_def split: if_splits)
  assume er: "er = None"
  then obtain fs where fs: "save_intent True ?i (nn_files n) = (None, fs)" "n1 = n\<lparr>nn_files := fs, nn_intent_active := True\<rparr>"
    using s by (auto simp: quiesce_intent_step_def save_intent_def split: if_splits)
  have l: "load_intent fs = Inr (?i\<lparr>qi_checksum := intent_checksum ?i\<rparr>)" using save_load_intent [OF v fs(1)] .
  have o: "rf_quiesce fs = rf_quiesce (nn_files n)" "load_promotion fs = load_promotion (nn_files n)"
    using fs(1) by (auto simp: save_intent_def load_promotion_def)
  show "n1 = n\<lparr>nn_files := nn_files n1, nn_intent_active := True\<rparr> \<and> rf_quiesce (nn_files n1) = No_file
       \<and> load_promotion (nn_files n1) = Inl RcNotFound \<and> (\<exists>i. load_intent (nn_files n1) = Inr i \<and> qi_id i = qid) \<and> intent_texts (nn_files n1)"
    using l o a v fs(2) by (auto simp: active_primary_def intent_texts_def intent_valid_def)
qed

lemma intent_started:
  assumes "active_primary base es n" "quiesce_texts io n" "qz_id io = Some qid" "quiesce_intent_step io qid n = (None, n1)"
  shows "fence_disk qid base es (node_directory n1)"
proof -
  have n1: "n1 = n\<lparr>nn_files := nn_files n1, nn_intent_active := True\<rparr>" and q: "load_quiesce (nn_files n1) = Inl RcNotFound"
    and o: "load_promotion (nn_files n1) = Inl RcNotFound" "\<exists>i. load_intent (nn_files n1) = Inr i \<and> qi_id i = qid" "intent_texts (nn_files n1)"
    using intent_step(2) [OF assms refl] by (auto simp: load_quiesce_def)
  have "node_journal_dir n1 = node_journal_dir n"
    by (subst n1) (simp add: node_journal_dir_def split: option.split)
  moreover have "disk_journal_ok base es (node_journal_dir n)" using assms(1) journal_directory by (simp add: active_primary_def)
  ultimately show ?thesis using o q by (auto simp: fence_disk_def fence_files_def final_fits_def)
qed

lemma commit_step:
  assumes a: "active_primary base es n" and t: "quiesce_texts io n" "qz_id io = Some qid"
    and s: "quiesce_intent_step io qid n = (None, n1)" and c: "quiesce_commit_step io qid (quiesce_gate_step n1) = (er, q, n2)"
  shows "er \<noteq> None \<Longrightarrow> fenced_ok qid base es (nn_opts n) n2" "er = None \<Longrightarrow> fenced_ok qid base es (nn_opts n) (quiesce_finish_step rm q n2)"
    "fence_disk qid base es (node_directory n2)" "qr_id q = qid" "seq_fits base es (qr_seq q)"
proof -
  let ?g = "quiesce_gate_step n1"
  have n1: "n1 = n\<lparr>nn_files := nn_files n1, nn_intent_active := True\<rparr>" and fq: "rf_quiesce (nn_files n1) = No_file"
    and o: "load_promotion (nn_files n1) = Inl RcNotFound" "\<exists>i. load_intent (nn_files n1) = Inr i \<and> qi_id i = qid" "intent_texts (nn_files n1)"
    using intent_step(2) [OF a t s refl] by auto
  have g: "nn_opts ?g = nn_opts n" "nn_bound ?g = nn_bound n" "nn_log ?g = nn_log n" "nn_journal ?g = nn_journal n" "nn_role ?g = role_primary"
      "nn_pstate ?g = Pm_none" "nn_gate ?g = Some True" "nn_files ?g = nn_files n1"
    using a by (subst n1, simp add: quiesce_gate_step_def active_primary_def)+
  have role: "no_role (nn_opts n) = role_primary" using a by (simp add: active_primary_def)
  have addr: "node_addr ?g = node_addr n" using g by (simp add: node_addr_def split: option.split)
  obtain dl where dl: "nn_log n = Some dl" "durable_inv base es dl" "journal_ok base es n" using a by (auto simp: active_primary_def journal_ok_def)
  let ?q = "quiesce_record_of io qid ?g"
  have q: "quiesce_sealed ?q" "qr_id ?q = qid" "seq_fits base es (qr_seq ?q)"
    using t g dl addr latest_seq_inv [OF dl(2)]
    by (simp_all add: quiesce_record_of_def Let_def quiesce_sealed_def quiesce_valid_def quiesce_texts_def quiesce_version_def seq_fits_def
        quiesce_checksum_def)
  obtain x q' fs where sv: "save_quiesce (qz_record_ok io) ?q (nn_files n1) = (x, q', fs)" by (metis prod_cases3)
  note k = save_quiesce_sealed [OF q(1) sv]
  have e: "er = x" "q = ?q" using c sv k(1) g(8) by (auto simp: quiesce_commit_step_def split: option.splits)
  show "qr_id q = qid" "seq_fits base es (qr_seq q)" using q e by simp_all
  have jo: "journal_ok base es (?g\<lparr>nn_files := fs'\<rparr>)" for fs' using dl(3) g by (simp add: journal_ok_def)
  have lq: "load_quiesce (nn_files n1) = Inl RcNotFound" using fq by (simp add: load_quiesce_def)
  have ff: "fence_files qid fs" "intent_texts fs" using o k q lq by (cases x; auto simp: fence_files_def intent_texts_def)+
  have failed: "fenced_ok qid base es (nn_opts n) n2" if "er \<noteq> None"
  proof -
    have n2: "n2 = ?g\<lparr>nn_files := fs, nn_qstate := Q_failed_fenced, nn_pending := Some ?q\<rparr>" "fs = nn_files n1"
      using c sv that e k(1,2) g(8) by (auto simp: quiesce_commit_step_def split: option.splits)
    then show ?thesis using g role jo [of fs] ff lq q by (simp add: fenced_ok_def fenced_def fence_state_def journal_ok_def)
  qed
  then show "er \<noteq> None \<Longrightarrow> fenced_ok qid base es (nn_opts n) n2" .
  have saved: "n2 = ?g\<lparr>nn_files := fs\<rparr>" "load_quiesce fs = Inr ?q" if "er = None"
    using c sv that e k(1,3) g(8) by (auto simp: quiesce_commit_step_def split: option.splits)
  show "fenced_ok qid base es (nn_opts n) (quiesce_finish_step rm q n2)" if er: "er = None"
    using finish_fenced(1) [of "?g\<lparr>nn_files := fs\<rparr>" base es qid ?q rm] g role jo [of fs] ff saved [OF er] q e by simp
  show "fence_disk qid base es (node_directory n2)"
  proof (cases "er = None")
    case True
    then show ?thesis using saved [OF True] ff q journal_directory [OF jo [of fs]] by (simp add: fence_disk_def final_fits_def)
  next
    case False
    then show ?thesis using failed fenced_disk(1) by blast
  qed
qed

lemma handler_fenced:
  assumes a: "active_primary base es n" and t: "quiesce_texts io n" "qz_id io = Some qid"
    and h: "handle_quiesce m io n = (rep, n')" and g: "nn_gate n' = Some True"
  shows "fenced_ok qid base es (nn_opts n) n'"
    "rep = Reply 200 (Bd_quiesced q) \<Longrightarrow> qs_id q = qid \<and> seq_fits base es (qs_seq q) \<and> nn_qstate n' = Q_quiesced"
proof -
  have st: "nn_gate n = Some False" "nn_qstate n = Q_active" "nn_role n = role_primary" using a by (simp_all add: active_primary_def)
  have ne: "n' \<noteq> n" using g st by auto
  then have h1: "quiesce_active io n = (rep, n')" "\<not> has_suffix (ascii '':0'') (node_addr n)"
    using h st t by (auto simp: handle_quiesce_def quiesce_active_def split: if_splits)
  obtain x n1 where s: "quiesce_intent_step io qid n = (x, n1)" by fastforce
  have x: "x = None" using h1 t s intent_step(1) [OF a t s] ne by (cases x) (auto simp: quiesce_active_def)
  obtain er q2 n2 where c: "quiesce_commit_step io qid (quiesce_gate_step n1) = (er, q2, n2)" by (metis prod_cases3)
  note k = commit_step [OF a t s [unfolded x] c]
  have e: "(rep, n') = (case er of None \<Rightarrow> (quiesce_reply False q2, quiesce_finish_step (qz_remove_ok io) q2 n2)
      | Some _ \<Rightarrow> (Reply 500 (Bd_code ''quiesce_persistence_failed''), n2))"
    using h1 t s c x by (simp add: quiesce_active_def split: option.splits)
  show "fenced_ok qid base es (nn_opts n) n'" using e k by (auto split: option.splits)
  show "qs_id q = qid \<and> seq_fits base es (qs_seq q) \<and> nn_qstate n' = Q_quiesced" if "rep = Reply 200 (Bd_quiesced q)"
    using e k that by (auto simp: quiesce_reply_def quiesce_finish_step_def split: option.splits prod.splits)
qed

section \<open>Everything that may happen to a quiesced primary\<close>

text \<open>\<open>fence_reach c r n0 qid n\<close>: the primary \<open>n0\<close> was asked to quiesce with the identifier \<open>qid\<close> and got as far as closing its
  gate, or crashed after writing the intent or the record; then come requests of any kind, crashes, and
  closings, each followed by an \<open>Open\<close> that succeeds, possibly in the middle of a retry.\<close>

inductive fence_reach ::
    "(u64 \<Rightarrow> float64 \<Rightarrow> u64) \<Rightarrow> (u64 \<Rightarrow> u64 \<Rightarrow> int) \<Rightarrow> node \<Rightarrow> bytes \<Rightarrow> node \<Rightarrow> bool" for c r n0 qid where
  fence_handler: "quiesce_texts io n0 \<Longrightarrow> qz_id io = Some qid \<Longrightarrow> handle_quiesce m io n0 = (rep, n) \<Longrightarrow> nn_gate n = Some True
     \<Longrightarrow> fence_reach c r n0 qid n"
| fence_crash_intent: "quiesce_texts io n0 \<Longrightarrow> qz_id io = Some qid \<Longrightarrow> quiesce_intent_step io qid n0 = (None, n1)
     \<Longrightarrow> node_open oio (nn_opts n0) (node_directory n1) = (Inr n, d) \<Longrightarrow> fence_reach c r n0 qid n"
| fence_crash_commit: "quiesce_texts io n0 \<Longrightarrow> qz_id io = Some qid \<Longrightarrow> quiesce_intent_step io qid n0 = (None, n1)
     \<Longrightarrow> quiesce_commit_step io qid (quiesce_gate_step n1) = (er, q, n2)
     \<Longrightarrow> node_open oio (nn_opts n0) (node_directory n2) = (Inr n, d) \<Longrightarrow> fence_reach c r n0 qid n"
| fence_request: "fence_reach c r n0 qid n \<Longrightarrow> serve c r rq n = (rep, n') \<Longrightarrow> fence_reach c r n0 qid n'"
| fence_crash: "fence_reach c r n0 qid n \<Longrightarrow> node_open oio (nn_opts n) (node_directory n) = (Inr n', d) \<Longrightarrow> fence_reach c r n0 qid n'"
| fence_close: "fence_reach c r n0 qid n \<Longrightarrow> node_open oio (nn_opts n) (node_directory (snd (node_close n))) = (Inr n', d)
     \<Longrightarrow> fence_reach c r n0 qid n'"
| fence_crash_retry: "fence_reach c r n0 qid n \<Longrightarrow> nn_qstate n = Q_failed_fenced \<Longrightarrow> nn_pending n = Some q
     \<Longrightarrow> save_quiesce ok q (nn_files n) = (er, q', fs) \<Longrightarrow> node_open oio (nn_opts n) (node_directory (n\<lparr>nn_files := fs\<rparr>)) = (Inr n', d)
     \<Longrightarrow> fence_reach c r n0 qid n'"

lemma fence_reach_fenced:
  assumes "fence_reach c r n0 qid n" "active_primary base es n0"
  shows "fenced_ok qid base es (nn_opts n0) n"
  using assms
proof (induction rule: fence_reach.induct)
  case (fence_handler io m rep n)
  show ?case by (rule handler_fenced(1) [OF fence_handler(5,1-4)])
next
  case (fence_crash_intent io n1 oio n d)
  have "no_role (nn_opts n0) = role_primary" using fence_crash_intent by (simp add: active_primary_def)
  then show ?case using open_fence_disk [OF fence_crash_intent(4)] intent_started [OF fence_crash_intent(5,1-3)] by simp
next
  case (fence_crash_commit io n1 er q n2 oio n d)
  have "no_role (nn_opts n0) = role_primary" using fence_crash_commit by (simp add: active_primary_def)
  then show ?case using open_fence_disk [OF fence_crash_commit(5)] commit_step(3) [OF fence_crash_commit(6,1-4)] by simp
next
  case (fence_request n rq rep n')
  then show ?case using fenced_serve by blast
next
  case (fence_crash n oio n' d)
  then have f: "fenced_ok qid base es (nn_opts n0) n" by simp
  then have "nn_opts n = nn_opts n0" "no_role (nn_opts n) = role_primary" by (auto simp: fenced_ok_def fenced_def)
  then show ?case using open_fence_disk [OF fence_crash(2)] fenced_disk(1) [OF f] by simp
next
  case (fence_close n oio n' d)
  then have f: "fenced_ok qid base es (nn_opts n0) n" by simp
  then have "nn_opts n = nn_opts n0" "no_role (nn_opts n) = role_primary" by (auto simp: fenced_ok_def fenced_def)
  then show ?case using open_fence_disk [OF fence_close(2)] fenced_disk(2) [OF f] by simp
next
  case (fence_crash_retry n q ok er q' fs oio n' d)
  then have f: "fenced_ok qid base es (nn_opts n0) n" by simp
  then have "nn_opts n = nn_opts n0" "no_role (nn_opts n) = role_primary" by (auto simp: fenced_ok_def fenced_def)
  then show ?case using open_fence_disk [OF fence_crash_retry(5)] retry_fenced(3) [OF f fence_crash_retry(2-4)] by simp
qed

lemma quiesce_ok_gate:
  assumes "handle_quiesce m io n = (Reply 200 b, n')" "active_primary base es n"
  shows "nn_gate n' = Some True"
proof -
  have st: "nn_qstate n = Q_active" using assms(2) by (simp add: active_primary_def)
  have h: "quiesce_active io n = (Reply 200 b, n')"
    using assms(1) st by (auto simp: handle_quiesce_def not_allowed_def split: if_splits)
  show ?thesis
    using h by (auto simp: quiesce_active_def quiesce_commit_step_def quiesce_gate_step_def quiesce_finish_step_def
        split: option.splits prod.splits if_splits)
qed

text \<open>The requests that write.\<close>

fun write_request :: "request \<Rightarrow> bool" where
  "write_request (Rq_kv m path body io) = ((m = ''PUT'' \<or> m = ''DELETE'') \<and> trim_prefix (ascii ''/kv/'') path \<noteq> [])"
| "write_request (Rq_explain_put m body wo s) = (m = ''POST'')"
| "write_request (Rq_explain_delete m key wo s) = (m = ''DELETE'')"
| "write_request _ = False"

lemma fenced_write:
  assumes "fenced_ok qid base es opts n" "write_request rq"
  shows "serve c r rq n = (Reply 409 (Bd_code ''node_quiesced''), n)"
  using assms(2) fenced_refuses [OF assms(1)]
  by (cases rq) (auto simp: handle_kv_def handle_kv_put_def handle_kv_delete_def handle_explain_put_def handle_explain_delete_def)

text \<open>C7: The fence of a primary by configuration holds for ever. Let an active primary that has its role from its
  configuration and holds no promotion record (\<open>active_primary\<close>; a promoted primary loses its fence at a restart) be
  asked to quiesce, with texts that JSON keeps (\<open>quiesce_texts\<close>). From the moment the intent is on disk, whatever
  crashes, closings, reopenings that succeed, requests, failed and retried saves follow, the node refuses every
  write with \<open>node_quiesced\<close> and without an effect, its journal ends where it ended when the gate closed, and
  the quiesce record it holds or has pending carries the same identifier and that number. Every quiesce that
  replies with 200, the first one and any later one, a retry or a repetition, names them.\<close>

theorem node_quiesce_fence:
  assumes "active_primary base es n0" "fence_reach c r n0 qid n"
  shows "nn_gate n = Some True \<and> (\<forall>rq. write_request rq \<longrightarrow> serve c r rq n = (Reply 409 (Bd_code ''node_quiesced''), n))
    \<and> (\<exists>dl0 dl. nn_log n0 = Some dl0 \<and> nn_log n = Some dl \<and> latest_seq dl = latest_seq dl0
        \<and> (nn_qstate n = Q_quiesced \<and> (\<exists>q. nn_qrec n = Some q \<and> qr_id q = qid \<and> qr_seq q = latest_seq dl0)
          \<or> nn_qstate n = Q_failed_fenced \<and> (\<exists>q. nn_pending n = Some q \<and> qr_id q = qid \<and> qr_seq q = latest_seq dl0))
        \<and> (\<forall>m io n1 q. quiesce_texts io n0 \<longrightarrow> qz_id io = Some qid \<longrightarrow> handle_quiesce m io n0 = (Reply 200 (Bd_quiesced q), n1)
             \<longrightarrow> qs_id q = qid \<and> qs_seq q = latest_seq dl0)
        \<and> (\<forall>m io n1 q. handle_quiesce m io n = (Reply 200 (Bd_quiesced q), n1) \<longrightarrow> qs_id q = qid \<and> qs_seq q = latest_seq dl0))"
proof -
  have f: "fenced_ok qid base es (nn_opts n0) n" by (rule fence_reach_fenced [OF assms(2,1)])
  obtain dl0 where dl0: "nn_log n0 = Some dl0" "durable_inv base es dl0" using assms(1) by (auto simp: active_primary_def journal_ok_def)
  obtain dl where dl: "nn_log n = Some dl" "durable_inv base es dl" using f by (auto simp: fenced_ok_def fenced_def journal_ok_def)
  have eq: "seq_fits base es q \<longleftrightarrow> q = latest_seq dl0" for q
    using latest_seq_inv [OF dl0(2)] by (auto simp: seq_fits_def word_unat_eq_iff)
  have l: "latest_seq dl = latest_seq dl0" using latest_seq_inv [OF dl(2)] eq by (simp add: seq_fits_def)
  have st: "nn_qstate n = Q_quiesced \<and> (\<exists>q. nn_qrec n = Some q \<and> qr_id q = qid \<and> qr_seq q = latest_seq dl0)
      \<or> nn_qstate n = Q_failed_fenced \<and> (\<exists>q. nn_pending n = Some q \<and> qr_id q = qid \<and> qr_seq q = latest_seq dl0)"
    using f eq by (auto simp: fenced_ok_def fenced_def fence_state_def)
  have rp: "qs_id q = qid \<and> qs_seq q = latest_seq dl0"
    if "quiesce_texts io n0" "qz_id io = Some qid" "handle_quiesce m io n0 = (Reply 200 (Bd_quiesced q), n1)" for m io n1 q
  proof -
    have gt: "nn_gate n1 = Some True"
      using that(3) assms(1) by (rule quiesce_ok_gate)
    then show ?thesis using handler_fenced(2) [OF assms(1) that gt refl] eq by simp
  qed
  have g: "nn_gate n = Some True" using f by (simp add: fenced_ok_def fenced_def)
  have w: "\<forall>rq. write_request rq \<longrightarrow> serve c r rq n = (Reply 409 (Bd_code ''node_quiesced''), n)" using fenced_write [OF f] by blast
  have later: "qs_id q = qid \<and> qs_seq q = latest_seq dl0" if "handle_quiesce m io n = (Reply 200 (Bd_quiesced q), n1)" for m io n1 q
    using fenced_quiesce_reply [OF f that] eq by simp
  show ?thesis
    by (rule conjI [OF g conjI [OF w]], rule exI [of _ dl0], rule exI [of _ dl]) (use dl0(1) dl(1) l st rp later in blast)
qed

section \<open>A concrete fence\<close>

lemma primary_active:
  assumes "primary_ok F es p" "nn_qstate p = Q_active" "nn_pstate p = Pm_none" "no_role (nn_opts p) = role_primary"
    "base_of (nn_journal p) = Some 0" "rf_promotion (nn_files p) = No_file" "rf_intent (nn_files p) = No_file" "rf_quiesce (nn_files p) = No_file"
  shows "active_primary 0 es p"
  using assms by (auto simp: active_primary_def primary_ok_def journal_ok_def durable_holds_def load_promotion_def)

lemma open_active:
  assumes "node_options_ok True opts" "no_role opts = role_primary" "node_open good_open opts fresh_node_disk = (Inr n, d)"
  shows "active_primary 0 [] n" "nn_opts n = opts" "nn_bound n = None"
proof -
  obtain e d' where e: "engine_open None (node_engine_options opts) fresh_disk = (Inr e, d')"
    using node_engine_fresh [OF assms(1)] by blast
  obtain dl jd where j: "open_durable_log None (fresh_journal No_file) = (Inr dl, jd)" "durable_holds [] dl"
    using open_empty_journal by blast
  have b: "base_of jd = Some 0" using open_fresh_journal(2) [OF demo_base _ j(1)] by (simp add: base_of_def load_baseline_def)
  have "primary_ok 0 [] n" using node_open_primary [OF assms(1,2)] assms(3) by auto
  moreover have "nn_qstate n = Q_active" "nn_pstate n = Pm_none" "nn_opts n = opts" "base_of (nn_journal n) = Some 0"
    "nn_files n = nd_records fresh_node_disk" "nn_bound n = None"
    using assms e j b by (auto simp: open_defs Let_def)
  ultimately show "active_primary 0 [] n" "nn_opts n = opts" "nn_bound n = None"
    using primary_active [of 0 "[]" n] assms(2) by (auto simp: fresh_node_disk_def)
qed

definition demo_quiesce :: quiesce_io where
  "demo_quiesce = \<lparr>qz_id = Some (ascii ''q1''), qz_intent_at = ascii ''2024-01-01T00:00:00Z'', qz_intent_ok = True,
     qz_at = ascii ''2024-01-01T00:00:01Z'', qz_record_ok = True, qz_remove_ok = True\<rparr>"

lemma demo_texts:
  assumes "nn_opts n = demo_options role" "nn_bound n = None"
  shows "quiesce_texts demo_quiesce n" "\<not> has_suffix (ascii '':0'') (node_addr n)"
proof -
  have "json_valid (ascii s)" if "s \<in> {''q1'', ''2024-01-01T00:00:00Z'', ''2024-01-01T00:00:01Z'', ''node-1'', ''http://127.0.0.1:9101''}" for s
    using that by (intro json_valid_ascii) (auto simp: ascii_def)
  moreover have "ascii ''http://'' @ ascii ''127.0.0.1:9101'' = ascii ''http://127.0.0.1:9101''" by (simp add: ascii_def)
  ultimately show "quiesce_texts demo_quiesce n"
    using assms by (simp add: quiesce_texts_def demo_quiesce_def node_addr_def demo_options_def)
  show "\<not> has_suffix (ascii '':0'') (node_addr n)"
    using assms by (simp add: node_addr_def demo_options_def has_suffix_def ascii_def)
qed

lemma demo_quiesced:
  assumes "nn_role n = role_primary" "nn_gate n = Some False" "nn_qstate n = Q_active" "\<not> nn_closed n"
    and "nn_opts n = demo_options role" "nn_bound n = None"
  obtains q n1 where "handle_quiesce ''POST'' demo_quiesce n = (Reply 200 (Bd_quiesced q), n1)"
  using assms(1-4) demo_texts(2) [OF assms(5,6)]
  by (auto simp: handle_quiesce_def quiesce_active_def demo_quiesce_def quiesce_intent_step_def save_intent_def
      quiesce_commit_step_def save_quiesce_def quiesce_reply_def Let_def)

theorem node_quiesce_fence_witness:
  "\<exists>n0 d n1 q. node_open good_open (demo_options role_primary) fresh_node_disk = (Inr n0, d)
    \<and> handle_quiesce ''POST'' demo_quiesce n0 = (Reply 200 (Bd_quiesced q), n1) \<and> qs_id q = ascii ''q1''
    \<and> serve (\<lambda>_ _. 1) (\<lambda>_ _. 1) (Rq_kv ''PUT'' (kv_path [107]) (Some [118]) (good_kv 5)) n1 = (Reply 409 (Bd_code ''node_quiesced''), n1)"
proof -
  have ok: "node_options_ok True (demo_options role_primary)" "no_role (demo_options role_primary) = role_primary"
    using demo_options_ok by (simp_all add: demo_options_def)
  obtain n0 d where o: "node_open good_open (demo_options role_primary) fresh_node_disk = (Inr n0, d)"
    using node_open_primary [OF ok] by blast
  note a = open_active [OF ok o]
  note t = demo_texts [OF a(2,3)]
  have st: "nn_closed n0 = False"
    using o by (auto simp: open_defs Let_def role_defs split: if_splits sum.splits prod.splits option.splits)
  obtain q n1 where h: "handle_quiesce ''POST'' demo_quiesce n0 = (Reply 200 (Bd_quiesced q), n1)"
    using demo_quiesced [OF _ _ _ _ a(2,3)] a(1) st by (auto simp: active_primary_def)
  have g: "nn_gate n1 = Some True" by (rule quiesce_ok_gate [OF h a(1)])
  have id: "qz_id demo_quiesce = Some (ascii ''q1'')" by (simp add: demo_quiesce_def)
  have "fence_reach (\<lambda>_ _. 1) (\<lambda>_ _. 1) n0 (ascii ''q1'') n1" by (rule fence_handler [OF t(1) id h g])
  from node_quiesce_fence [OF a(1) this]
  have "\<forall>rq. write_request rq \<longrightarrow> serve (\<lambda>_ _. 1) (\<lambda>_ _. 1) rq n1 = (Reply 409 (Bd_code ''node_quiesced''), n1)" "qs_id q = ascii ''q1''"
    using t(1) id h by blast+
  then show ?thesis using o h by (intro exI conjI) (auto simp del: serve.simps simp: kv_path_def trim_prefix_def)
qed

end
