(* ===== verification/FailoverSpec.thy ===== *)
theory FailoverSpec
  imports FenceSpec
begin

text \<open>
  Failover: the promotion of a follower of a quiesced primary loses no acknowledged write, over every crash
  between its two phases.
\<close>

section \<open>What a run of the pair leaves alone\<close>

text \<open>Requests to a node that serves or follows change its engine, its journal, its cursor and the cursor's file only.\<close>

definition frame :: "node \<Rightarrow> node \<Rightarrow> bool" where
  "frame n n' \<longleftrightarrow> nn_opts n' = nn_opts n \<and> nn_bound n' = nn_bound n \<and> nn_role n' = nn_role n \<and> nn_pstate n' = nn_pstate n
     \<and> nn_qstate n' = nn_qstate n \<and> nn_qrec n' = nn_qrec n \<and> nn_prec n' = nn_prec n \<and> nn_journal n' = nn_journal n
     \<and> nn_closed n' = nn_closed n \<and> nn_gate n' = nn_gate n \<and> nn_barrier n' = nn_barrier n \<and> nn_worker n' = nn_worker n
     \<and> rf_promotion (nn_files n') = rf_promotion (nn_files n) \<and> rf_intent (nn_files n') = rf_intent (nn_files n)
     \<and> rf_quiesce (nn_files n') = rf_quiesce (nn_files n) \<and> (nn_log n' = None \<longleftrightarrow> nn_log n = None)
     \<and> en_opts (nn_eng n') = en_opts (nn_eng n)"

lemma frame_refl [simp]: "frame n n"
  by (simp add: frame_def)

lemma frame_trans: "frame a b \<Longrightarrow> frame b c \<Longrightarrow> frame a c"
  by (simp add: frame_def)

lemma frame_engine: "en_opts e = en_opts (nn_eng n) \<Longrightarrow> frame n (n\<lparr>nn_eng := e\<rparr>)"
  by (simp add: frame_def)

lemma journal_write_frame: "journal_write op k v io n ok = (rep, n') \<Longrightarrow> frame n n'"
  by (auto simp: journal_write_def frame_def split: option.splits prod.splits)

lemma handle_write_frame: "handle_write k v io n = (rep, n') \<Longrightarrow> frame n n'"
proof -
  assume h: "handle_write k v io n = (rep, n')"
  obtain er e where w: "engine_write k v (ki_write io) (ki_sync io) (nn_eng n) = (er, e)"
    by (cases "engine_write k v (ki_write io) (ki_sync io) (nn_eng n)") auto
  have o: "frame n (n\<lparr>nn_eng := e\<rparr>)" using frame_engine engine_write_opts w by (metis snd_conv)
  have "n' = n \<or> n' = n\<lparr>nn_eng := e\<rparr> \<or> (\<exists>op v' r. journal_write op k v' io (n\<lparr>nn_eng := e\<rparr>) r = (rep, n'))"
    using h w by (auto simp: handle_write_eq split: if_splits option.splits)
  then show ?thesis using o by (auto dest: journal_write_frame intro: frame_trans)
qed

lemma apply_entry_opts: "en_opts (snd (apply_entry io en e)) = en_opts e"
  using engine_write_opts [of "re_key en" "Some (re_value en)" "fst io" "snd io" e] engine_write_opts [of "re_key en" None "fst io" "snd io" e]
  by (auto simp: apply_entry_def engine_write_def split: prod.splits)

lemma apply_entries_opts: "apply_entries ios ens lst e = (er, lst', e') \<Longrightarrow> en_opts e' = en_opts e"
proof (induction ios ens lst e rule: apply_entries.induct)
  case (2 ios en ens lst e)
  then show ?case using apply_entry_opts [of "next_outcome ios" en e] by (auto split: if_splits prod.splits option.splits)
qed simp

text \<open>The follower's cursor and its file agree.\<close>

definition cursor_ok :: "node \<Rightarrow> bool" where
  "cursor_ok n \<longleftrightarrow> (\<exists>ss. nn_cursor n = Some ss \<and> ss_node ss = no_id (nn_opts n) \<and> ss_url ss = no_primary_url (nn_opts n)
     \<and> open_state_store True (no_id (nn_opts n)) (no_primary_url (nn_opts n)) (nn_files n) = Inr ss)
     \<and> json_valid (no_id (nn_opts n)) \<and> json_valid (no_primary_url (nn_opts n))"

lemma advance_frame:
  "advance_to ok now seq ss fs = (er, ss', fs') \<Longrightarrow> rf_promotion fs' = rf_promotion fs \<and> rf_intent fs' = rf_intent fs \<and> rf_quiesce fs' = rf_quiesce fs"
  by (auto simp: advance_to_def split: if_splits)

lemma apply_locked_frame:
  assumes "apply_locked io ens n = (er, lst, n')"
  shows "frame n n'" "cursor_ok n \<Longrightarrow> json_valid (si_now io) \<Longrightarrow> cursor_ok n'"
proof -
  obtain r1 l1 e1 where a: "apply_entries (si_engine io) ens (nn_applied n) (nn_eng n) = (r1, l1, e1)" by (metis prod_cases3)
  let ?n1 = "n\<lparr>nn_eng := e1, nn_applied := l1\<rparr>"
  consider "n' = ?n1" | ss er' ss' fs where "nn_cursor n = Some ss" "advance_to (si_state io) (si_now io) l1 ss (nn_files n) = (er', ss', fs)"
      "n' = ?n1\<lparr>nn_cursor := Some ss', nn_files := fs\<rparr>"
    using assms a by (auto simp: apply_locked_def Let_def split: option.splits if_splits prod.splits)
  note cs = this
  show "frame n n'"
    using cs
  proof cases
    case 1
    then show ?thesis using apply_entries_opts [OF a] by (simp add: frame_def)
  next
    case 2
    then show ?thesis using advance_frame [OF 2(2)] apply_entries_opts [OF a] by (simp add: frame_def)
  qed
  assume c: "cursor_ok n" "json_valid (si_now io)"
  show "cursor_ok n'"
    using cs
  proof cases
    case 1
    then show ?thesis using c(1) by (simp add: cursor_ok_def)
  next
    case 2
    have k: "ss_node ss = no_id (nn_opts n)" "ss_url ss = no_primary_url (nn_opts n)" "json_valid (ss_node ss)" "json_valid (ss_url ss)"
      "open_state_store True (ss_node ss) (ss_url ss) (nn_files n) = Inr ss"
      using c(1) 2(1) by (auto simp: cursor_ok_def)
    note m = advance_reopen [OF 2(2) k(5,3,4) c(2)]
    show ?thesis using m k 2(3) by (auto simp: cursor_ok_def)
  qed
qed

lemma sync_frame:
  assumes "sync_from_primary answer io n = ((er, res), n')" "\<not> nn_syncing n"
  shows "frame n n'" "cursor_ok n \<Longrightarrow> json_valid (si_now io) \<Longrightarrow> cursor_ok n'"
proof -
  have z: "n\<lparr>nn_syncing := False\<rparr> = n" using assms(2) by simp
  have k: "n' = n \<or> (\<exists>ens er lst. apply_locked io ens n = (er, lst, n'))"
    using assms(1)
    by (auto simp: z sync_from_primary_def sync_begin_def sync_finish_def Let_def split: if_splits sum.splits node_error.splits prod.splits option.splits)
  then show "frame n n'" using apply_locked_frame(1) by auto
  show "cursor_ok n \<Longrightarrow> json_valid (si_now io) \<Longrightarrow> cursor_ok n'" using k apply_locked_frame(2) by blast
qed

text \<open>Over a whole run.\<close>

fun op_texts :: "pair_op \<Rightarrow> bool" where
  "op_texts (Pr_sync failure saved now) = json_valid now"
| "op_texts _ = True"

lemma on_side_frame:
  assumes "on_side side h pf = (rep, pf')" "\<And>n rep n'. h n = (rep, n') \<Longrightarrow> \<exists>e. n' = n \<or> n' = n\<lparr>nn_eng := e\<rparr> \<and> en_opts e = en_opts (nn_eng n)"
  shows "frame (fst pf) (fst pf')" "frame (snd pf) (snd pf')" "cursor_ok (snd pf) \<Longrightarrow> cursor_ok (snd pf')"
proof -
  have k: "frame n n' \<and> (cursor_ok n \<longrightarrow> cursor_ok n')" if "h n = (rep, n')" for n rep n'
    using assms(2) [OF that] frame_engine by (auto simp: cursor_ok_def)
  show "frame (fst pf) (fst pf')" "frame (snd pf) (snd pf')" "cursor_ok (snd pf) \<Longrightarrow> cursor_ok (snd pf')"
    using assms(1) k by (auto simp: on_side_def split: if_splits prod.splits)
qed

lemma pair_step_frame:
  assumes "pair_step c r op pf = (rep, pf')" "op_texts op" "\<not> nn_syncing (snd pf)"
  shows "frame (fst pf) (fst pf')" "frame (snd pf) (snd pf')" "cursor_ok (snd pf) \<Longrightarrow> cursor_ok (snd pf')"
proof -
  have "frame (fst pf) (fst pf') \<and> frame (snd pf) (snd pf') \<and> (cursor_ok (snd pf) \<longrightarrow> cursor_ok (snd pf'))"
  proof (cases op)
    case (Pr_write k v now)
    then show ?thesis using assms(1) handle_write_frame by (auto simp: on_side_def split: prod.splits)
  next
    case (Pr_get side k)
    then have "on_side side (handle_kv ''GET'' (kv_path k) None (good_kv 0)) pf = (rep, pf')" using assms(1) by simp
    moreover have "\<exists>e. n' = n \<or> n' = n\<lparr>nn_eng := e\<rparr> \<and> en_opts e = en_opts (nn_eng n)" if "handle_kv ''GET'' (kv_path k) None (good_kv 0) n = (rep, n')" for n rep n'
      using that engine_get_opts [of k "nn_eng n"] by (auto simp: kv_get_eq split: sum.splits engine_error.splits if_splits prod.splits)
    ultimately show ?thesis using on_side_frame by blast
  next
    case (Pr_flush side fault)
    then have "on_side side (handle_flush c r ''POST'' fault) pf = (rep, pf')" using assms(1) by simp
    moreover have "\<exists>e. n' = n \<or> n' = n\<lparr>nn_eng := e\<rparr> \<and> en_opts e = en_opts (nn_eng n)" if "handle_flush c r ''POST'' fault n = (rep, n')" for n rep n'
      using that engine_step_opts [of c r "Flush_op fault" "nn_eng n"] by (auto simp: handle_flush_def split: option.splits prod.splits)
    ultimately show ?thesis using on_side_frame by blast
  next
    case (Pr_compact side fault)
    then have "on_side side (handle_compact c r ''POST'' fault) pf = (rep, pf')" using assms(1) by simp
    moreover have "\<exists>e. n' = n \<or> n' = n\<lparr>nn_eng := e\<rparr> \<and> en_opts e = en_opts (nn_eng n)" if "handle_compact c r ''POST'' fault n = (rep, n')" for n rep n'
      using that engine_step_opts [of c r "Compact_op fault" "nn_eng n"] by (auto simp: handle_compact_def split: option.splits prod.splits)
    ultimately show ?thesis using on_side_frame by blast
  next
    case (Pr_sync failure saved now)
    let ?a = "case failure of None \<Rightarrow> pull_answer (nn_applied (snd pf)) (fst pf) | Some a \<Rightarrow> a"
    obtain er res f' where s: "sync_from_primary ?a (good_sync saved now) (snd pf) = ((er, res), f')"
      by (metis prod_cases3 prod.collapse)
    have "pf' = (fst pf, f') \<or> pf' = pf"
      using assms(1) Pr_sync s by (auto simp: on_side_def handle_replication_sync_def split: if_splits prod.splits)
    then show ?thesis
      using sync_frame [OF s assms(3)] assms(2) Pr_sync by (auto simp: good_sync_def)
  qed
  then show "frame (fst pf) (fst pf')" "frame (snd pf) (snd pf')" "cursor_ok (snd pf) \<Longrightarrow> cursor_ok (snd pf')" by simp_all
qed

lemma pair_run_frame:
  assumes "pair_run c r ops pf = Some (W, pf')" "\<forall>op \<in> set ops. op_texts op" "pair_ok F es pf" "F + length es + length ops \<le> 2 ^ 29"
  shows "frame (fst pf) (fst pf')" "frame (snd pf) (snd pf')" "cursor_ok (snd pf) \<Longrightarrow> cursor_ok (snd pf')"
proof -
  have "frame (fst pf) (fst pf') \<and> frame (snd pf) (snd pf') \<and> (cursor_ok (snd pf) \<longrightarrow> cursor_ok (snd pf'))"
    using assms
  proof (induction ops arbitrary: F es pf W)
    case (Cons op ops)
    obtain rep pf1 where s: "pair_step c r op pf = (rep, pf1)" by (cases "pair_step c r op pf") auto
    then obtain W2 where w: "pair_allowed op" "\<not> en_closed (nn_eng (fst pf1))" "\<not> en_closed (nn_eng (snd pf1))"
        "pair_run c r ops pf1 = Some (W2, pf')"
      using Cons.prems(1) by (auto split: if_splits option.splits)
    obtain F1 es1 where k: "pair_ok F1 (es @ es1) pf1" "F1 + length es1 \<le> F + 1"
      using pair_step_ok [OF Cons.prems(3) _ w(1) s w(2,3)] Cons.prems(4) by auto
    have "\<not> nn_syncing (snd pf)" using Cons.prems(3) by (simp add: pair_ok_def replica_ok_def follower_ready_def)
    note fr = pair_step_frame [OF s _ this]
    have "frame (fst pf1) (fst pf') \<and> frame (snd pf1) (snd pf') \<and> (cursor_ok (snd pf1) \<longrightarrow> cursor_ok (snd pf'))"
      using Cons.IH [OF w(4) _ k(1)] k(2) Cons.prems(2,4) by auto
    then show ?case using fr Cons.prems(2) frame_trans by (metis list.set_intros(1))
  qed simp
  then show "frame (fst pf) (fst pf')" "frame (snd pf) (snd pf')" "cursor_ok (snd pf) \<Longrightarrow> cursor_ok (snd pf')" by simp_all
qed

section \<open>Reopening\<close>

definition engine_opened :: "node \<Rightarrow> bool" where
  "engine_opened n \<longleftrightarrow> en_opts (nn_eng n) = effective_options (node_engine_options (nn_opts n))"

lemma node_reopen_engine:
  assumes "engine_inv (nn_eng n)" "engine_opened n" "node_options_ok True (nn_opts n)"
  shows "\<exists>e d. engine_open None (node_engine_options (nn_opts n)) (directory (nn_eng n)) = (Inr e, d) \<and> engine_inv e
    \<and> engine_view e = engine_view (nn_eng n)"
proof -
  let ?o = "node_engine_options (nn_opts n)"
  have dir: "eo_dir ?o \<noteq> []"
    using assms(3) by (auto simp: node_options_ok_def node_engine_options_def split: if_splits)
  have "effective_options (effective_options ?o) = effective_options ?o"
    by (simp add: effective_options_def node_engine_options_def float_zero_def default_bloom_fpr_def)
  then have "engine_open None (effective_options ?o) d = engine_open None ?o d" for d using engine_open_effective [OF dir] by blast
  then show ?thesis using inv_recovers [OF assms(1)] assms(2) unfolding recovers_def engine_opened_def by (metis prod.collapse)
qed

text \<open>A node with a promotion record opens as an active primary or not at all.\<close>

lemma open_promoted:
  assumes o: "node_open io opts d = (Inr n, d')" and pr: "load_promotion (nd_records d) = Inr rec"
  shows "nn_role n = role_primary \<and> nn_source n = From_promotion \<and> nn_gate n = Some False \<and> nn_qstate n = Q_active
    \<and> nn_qrec n = None \<and> nn_pending n = None \<and> nn_prec n = Some rec \<and> nn_pstate n = Pm_promoted \<and> nn_files n = nd_records d
    \<and> nn_opts n = opts \<and> (\<exists>dl jd. open_durable_log (oi_journal io) (nd_journal d) = (Inr dl, jd) \<and> nn_log n = Some dl \<and> nn_journal n = jd)"
proof -
  obtain eng de where e: "engine_open (oi_engine io) (node_engine_options opts) (nd_engine d) = (Inr eng, de)"
    using o by (auto simp: node_open_def split: if_splits sum.splits prod.splits)
  let ?n0 = "fresh_node opts eng (nd_journal d) (nd_records d)"
  obtain n1 where r1: "resolve_role io ?n0 = (None, n1)" "open_replication io n1 = (None, n)"
    using o e by (auto simp: node_open_def split: if_splits prod.splits option.splits)
  have "resolve_promoted io rec ?n0 = (None, n1)" using r1(1) pr by (simp add: resolve_role_def fresh_node_def)
  then obtain dl jd where l: "open_durable_log (oi_journal io) (nd_journal d) = (Inr dl, jd)"
      "n1 = ?n0\<lparr>nn_role := role_primary, nn_source := From_promotion, nn_prec := Some rec, nn_pstate := Pm_promoted,
        nn_gate := Some False, nn_qstate := Q_active, nn_journal := jd, nn_log := Some dl\<rparr>"
    by (auto simp: resolve_promoted_def open_node_log_def fresh_node_def split: option.splits prod.splits sum.splits)
  have "n = n1" using r1(2) l(2) by (auto simp: open_replication_def stamp_pending_def fresh_node_def)
  then show ?thesis using l by (simp add: fresh_node_def)
qed

text \<open>What makes it open.\<close>

lemma promoted_opens:
  assumes "node_options_ok True opts" "load_promotion (nd_records d) = Inr rec"
    and "engine_open None (node_engine_options opts) (nd_engine d) = (Inr eng, de)"
    and "check_promotion True rec (fresh_node opts eng (nd_journal d) (nd_records d)) = None"
    and "open_durable_log None (nd_journal d) = (Inr dl, jd)"
  shows "\<exists>n d'. node_open good_open opts d = (Inr n, d') \<and> nn_eng n = eng"
proof -
  let ?n0 = "fresh_node opts eng (nd_journal d) (nd_records d)"
  let ?n1 = "?n0\<lparr>nn_role := role_primary, nn_source := From_promotion, nn_prec := Some rec, nn_pstate := Pm_promoted,
      nn_gate := Some False, nn_qstate := Q_active, nn_journal := jd, nn_log := Some dl\<rparr>"
  have f: "nn_files ?n0 = nd_records d" "nn_journal ?n0 = nd_journal d" by (simp_all add: fresh_node_def)
  have r: "resolve_role good_open ?n0 = (None, ?n1)"
    using assms(2,4,5) f by (simp add: resolve_role_def resolve_promoted_def open_node_log_def good_open_def)
  have p: "open_replication good_open ?n1 = (None, ?n1)" by (simp add: open_replication_def stamp_pending_def fresh_node_def)
  have "node_open good_open opts d = (Inr ?n1, node_directory ?n1)"
    using assms(1,3) r p by (simp add: node_open_def) (simp add: good_open_def)
  moreover have "nn_eng ?n1 = eng" by (simp add: fresh_node_def)
  ultimately show ?thesis by blast
qed

text \<open>Without one a follower opens as a follower, whatever baseline it finds.\<close>

lemma follower_opens:
  assumes "node_options_ok True opts" "load_promotion (nd_records d) = Inl RcNotFound" "no_role opts = role_follow"
    and "engine_open None (node_engine_options opts) (nd_engine d) = (Inr eng, de)"
    and "open_state_store True (no_id opts) (no_primary_url opts) (nd_records d) = Inr ss"
  shows "\<exists>n d'. node_open good_open opts d = (Inr n, d') \<and> nn_eng n = eng \<and> nn_role n = role_follow \<and> nn_applied n = ss_seq ss
    \<and> nn_pstate n = Pm_none"
  using assms
  by (simp add: node_open_def good_open_def resolve_role_def resolve_config_def open_replication_def fresh_node_def Let_def)

section \<open>Promotion\<close>

text \<open>A follower that can be promoted: it follows, its cursor is on disk, it has no journal and no promotion record.\<close>

definition promotable :: "nat \<Rightarrow> rep_entry list \<Rightarrow> node \<Rightarrow> bool" where
  "promotable F es f \<longleftrightarrow> replica_ok F es f \<and> cursor_ok f \<and> engine_opened f \<and> node_options_ok True (nn_opts f)
     \<and> no_role (nn_opts f) = role_follow \<and> nn_pstate f = Pm_none \<and> nn_log f = None \<and> nn_journal f = fresh_journal No_file
     \<and> rf_promotion (nn_files f) = No_file"

text \<open>A request the follower accepts, but for its number.\<close>

definition request_ok :: "promote_request \<Rightarrow> node \<Rightarrow> bool" where
  "request_ok req f \<longleftrightarrow> pq_confirm req \<and> qr_version (pq_record req) = 1 \<and> qr_checksum (pq_record req) = quiesce_checksum (pq_record req)
     \<and> qr_node (pq_record req) \<noteq> [] \<and> qr_url (pq_record req) = no_primary_url (nn_opts f) \<and> qr_id (pq_record req) \<noteq> []
     \<and> rfc3339_ok (qr_at (pq_record req)) \<and> json_valid (qr_node (pq_record req)) \<and> json_valid (qr_id (pq_record req))"

definition good_promote :: "bytes \<Rightarrow> promote_io" where
  "good_promote now = \<lparr>pi_check = None, pi_baseline_ok = True, pi_now = now, pi_record_ok = True, pi_journal = None\<rparr>"

definition based_dir :: "u64 \<Rightarrow> journal_dir" where
  "based_dir base = fresh_journal (Json_file
     \<lparr>jb_version = baseline_version, jb_base = base, jb_checksum = baseline_checksum \<lparr>jb_version = baseline_version, jb_base = base, jb_checksum = 0\<rparr>\<rparr>)"

lemma load_based: "load_baseline (based_dir base) = Inr (Some (case jd_baseline (based_dir base) of Json_file b \<Rightarrow> b))"
  "jb_base (case jd_baseline (based_dir base) of Json_file b \<Rightarrow> b) = base" "base_of (based_dir base) = Some base"
  by (simp_all add: load_baseline_def based_dir_def fresh_journal_def base_of_def baseline_checksum_def)

lemma create_based: "base \<noteq> - 1 \<Longrightarrow> create_baseline None True base (fresh_journal No_file) = (None, based_dir base)"
  by (simp add: create_baseline_def load_baseline_def fresh_journal_def journal_compatibility_check_def save_baseline_def based_dir_def)

lemma open_based:
  assumes "base \<noteq> - 1"
  shows "\<exists>dl jd. open_durable_log None (based_dir base) = (Inr dl, jd) \<and> durable_inv base [] dl \<and> \<not> dl_poisoned dl \<and> base_of jd = Some base
    \<and> jd = (based_dir base)\<lparr>jd_journal := Some []\<rparr> \<and> f_bytes (dl_file dl) = []"
proof -
  have u: "unat base < 2 ^ 64 - 1"
  proof -
    have "unat base \<noteq> 2 ^ 64 - 1"
      using assms unfolding word_unat_eq_iff by (simp add: unsigned_minus_1_eq_mask mask_eq_exp_minus_1)
    then show ?thesis using unat_u64_bound [of base] by simp
  qed
  have j: "disk_journal_ok base [] (based_dir base)"
    using u by (simp add: disk_journal_ok_def load_based counts_from_def) (simp add: based_dir_def fresh_journal_def)
  have e: "\<exists>dl jd. open_durable_log None (based_dir base) = (Inr dl, jd) \<and> jd = (based_dir base)\<lparr>jd_journal := Some []\<rparr> \<and> f_bytes (dl_file dl) = []"
    using load_based(1)
    by (auto simp: open_durable_log_def Let_def journal_replay.simps journal_read_nil opened_log_def based_dir_def fresh_journal_def)
  then show ?thesis using open_durable_disk [OF _ j] by blast
qed

lemma open_disk_exists:
  assumes "disk_journal_ok base es d"
  shows "\<exists>dl jd. open_durable_log None d = (Inr dl, jd)"
proof -
  let ?bs = "concat (map entry_record es)" and ?d = "d\<lparr>jd_journal := Some (concat (map entry_record es))\<rparr>"
  have e: "\<forall>e \<in> set es. entry_fits_journal e" "counts_from base (map re_seq es)" "base_of ?d = Some base"
    and bs: "(case jd_journal d of None \<Rightarrow> [] | Some bs \<Rightarrow> bs) = ?bs" using assms by (simp_all add: disk_journal_ok_def)
  have "open_durable_log None d = open_durable_log None ?d"
    using bs by (simp add: open_durable_log_def load_baseline_def Let_def split: sum.split option.split prod.split journal_end.split)
  then show ?thesis using open_holds [OF e, of "[]"] journal_read_nil by auto
qed

text \<open>The phases of a promotion that goes well.\<close>

definition promoted_rec :: "quiesce_record \<Rightarrow> bytes \<Rightarrow> node \<Rightarrow> promotion_record" where
  "promoted_rec qr now f =
     (let r = new_promotion (no_id (nn_opts f)) (qr_node qr) (qr_url qr) (qr_id qr) (qr_seq qr) now in r\<lparr>pr_checksum := promotion_checksum r\<rparr>)"

lemma promoted_rec_fields:
  "pr_node (promoted_rec qr now f) = no_id (nn_opts f)" "pr_role (promoted_rec qr now f) = ascii role_primary"
  "pr_source (promoted_rec qr now f) = qr_node qr" "pr_source_url (promoted_rec qr now f) = qr_url qr"
  "pr_quiesce (promoted_rec qr now f) = qr_id qr" "pr_seq (promoted_rec qr now f) = qr_seq qr"
  by (simp_all add: promoted_rec_def new_promotion_def Let_def role_primary_def)

lemma phase_one:
  "qr_seq qr \<noteq> - 1 \<Longrightarrow> nn_journal f = fresh_journal No_file
   \<Longrightarrow> promote_baseline (good_promote now) (qr_seq qr) f = (None, f\<lparr>nn_journal := based_dir (qr_seq qr)\<rparr>)"
  by (simp add: promote_baseline_def good_promote_def create_based)

lemma phase_two:
  assumes "json_valid (no_id (nn_opts f))" "json_valid (qr_url qr)" "json_valid (qr_node qr)" "json_valid (qr_id qr)" "json_valid now"
  shows "\<exists>fs. promote_record (good_promote now) qr f = (None, promoted_rec qr now f, f\<lparr>nn_files := fs\<rparr>)
    \<and> load_promotion fs = Inr (promoted_rec qr now f) \<and> rf_state fs = rf_state (nn_files f)"
proof -
  let ?r = "new_promotion (no_id (nn_opts f)) (qr_node qr) (qr_url qr) (qr_id qr) (qr_seq qr) now"
  have v: "promotion_valid ?r"
    using assms by (simp add: promotion_valid_def new_promotion_def json_valid_ascii ascii_def)
  obtain r' fs where s: "save_promotion True ?r (nn_files f) = (None, r', fs)" by (simp add: save_promotion_def Let_def)
  note k = save_load_promotion [OF v s]
  have "rf_state fs = rf_state (nn_files f)" using s by (auto simp: save_promotion_def Let_def)
  then show ?thesis using s k by (auto simp: promote_record_def good_promote_def promoted_rec_def Let_def)
qed

lemma check_promoted:
  assumes "node_options_ok True (nn_opts f)" "qr_node qr \<noteq> []" "qr_url qr = no_primary_url (nn_opts f)" "qr_url qr \<noteq> []" "qr_id qr \<noteq> []" "qr_seq qr \<noteq> - 1"
    and "open_state_store True (no_id (nn_opts f)) (qr_url qr) fs = Inr ss" "ss_seq ss = qr_seq qr"
    and "nn_files n = fs" "load_baseline (nn_journal n) = Inr (Some b)" "jb_base b = qr_seq qr" "nn_opts n = nn_opts f"
  shows "check_promotion True (promoted_rec qr now f) n = None"
  using assms by (simp add: check_promotion_def promoted_rec_fields)

definition promoted_state :: "quiesce_record \<Rightarrow> bytes \<Rightarrow> record_files \<Rightarrow> durable_log \<Rightarrow> node \<Rightarrow> node" where
  "promoted_state qr now fs dl f =
     f\<lparr>nn_journal := (based_dir (qr_seq qr))\<lparr>jd_journal := Some []\<rparr>, nn_files := fs, nn_role := role_primary, nn_source := From_promotion,
       nn_prec := Some (promoted_rec qr now f), nn_pstate := Pm_promoted, nn_log := Some dl, nn_gate := Some False, nn_qstate := Q_active,
       nn_replicator := False\<rparr>"

lemma promote_done:
  assumes f: "promotable F es f" and rq: "request_ok req f" and now: "json_valid now"
    and sq: "qr_seq (pq_record req) = nn_applied f" "nn_cursor f = Some ss" "ss_seq ss = nn_applied f" and b: "length es < 2 ^ 62"
  defines "qr \<equiv> pq_record req" and "g \<equiv> promote_raise f"
  shows "\<exists>fs dl. promote_baseline (good_promote now) (qr_seq qr) g = (None, g\<lparr>nn_journal := based_dir (qr_seq qr)\<rparr>)
    \<and> promote_record (good_promote now) qr (g\<lparr>nn_journal := based_dir (qr_seq qr)\<rparr>)
        = (None, promoted_rec qr now f, g\<lparr>nn_journal := based_dir (qr_seq qr), nn_files := fs\<rparr>)
    \<and> handle_promote ''POST'' (Some req) (good_promote now) f = (promote_reply False (promoted_rec qr now f), promoted_state qr now fs dl g)
    \<and> load_promotion fs = Inr (promoted_rec qr now f) \<and> rf_state fs = rf_state (nn_files f)
    \<and> durable_inv (qr_seq qr) [] dl \<and> f_bytes (dl_file dl) = []"
proof -
  have r: "follower_ready f" "prefix_engine F es (unat (nn_applied f)) (nn_eng f)" using f by (simp_all add: promotable_def replica_ok_def)
  have opts: "nn_opts g = nn_opts f" "nn_journal g = fresh_journal No_file" "nn_files g = nn_files f" "nn_applied g = nn_applied f"
      "nn_cursor g = nn_cursor f" "nn_role g = role_follow" "\<not> nn_closed g" "nn_eng g = nn_eng f"
    using f r by (simp_all add: g_def promote_raise_def promotable_def follower_ready_def)
  have c: "json_valid (no_id (nn_opts f))" "json_valid (no_primary_url (nn_opts f))" using f by (simp_all add: promotable_def cursor_ok_def)
  have q: "pq_confirm req" "qr_version qr = 1" "qr_checksum qr = quiesce_checksum qr" "qr_node qr \<noteq> []"
      "qr_url qr = no_primary_url (nn_opts f)" "qr_id qr \<noteq> []" "rfc3339_ok (qr_at qr)" "json_valid (qr_node qr)" "json_valid (qr_id qr)"
    using rq by (simp_all add: request_ok_def qr_def)
  have id: "no_id (nn_opts f) \<noteq> []" "no_primary_url (nn_opts f) \<noteq> []"
    using f by (auto simp: promotable_def node_options_ok_def split: if_splits)
  have mx: "qr_seq qr \<noteq> - 1"
  proof
    assume "qr_seq qr = - 1"
    then have "unat (nn_applied f) = 2 ^ 64 - 1" using sq(1) by (simp add: qr_def unsigned_minus_1_eq_mask mask_eq_exp_minus_1)
    then show False using r(2) b by (simp add: prefix_engine_def)
  qed
  have early: "promote_early req f = None"
    using f r q id mx by (simp add: promote_early_def promotion_static_def promotable_def follower_ready_def flip: qr_def)
  have lk: "promotion_locked req g = None"
    using opts sq by (simp add: promotion_locked_def qr_def)
  note p1 = phase_one [OF mx opts(2), of now]
  let ?g1 = "g\<lparr>nn_journal := based_dir (qr_seq qr)\<rparr>"
  have rec: "promoted_rec qr now ?g1 = promoted_rec qr now f" "promoted_rec qr now g = promoted_rec qr now f"
    by (simp_all add: promoted_rec_def opts(1))
  obtain fs where p2: "promote_record (good_promote now) qr ?g1 = (None, promoted_rec qr now f, ?g1\<lparr>nn_files := fs\<rparr>)"
      "load_promotion fs = Inr (promoted_rec qr now f)" "rf_state fs = rf_state (nn_files f)"
    using phase_two [of ?g1 qr now] c q now opts rec by auto
  obtain dl jd where o: "open_durable_log None (based_dir (qr_seq qr)) = (Inr dl, jd)" "durable_inv (qr_seq qr) [] dl"
      "jd = (based_dir (qr_seq qr))\<lparr>jd_journal := Some []\<rparr>" "f_bytes (dl_file dl) = []"
    using open_based [OF mx] by blast
  have p3: "promote_switch (good_promote now) (promoted_rec qr now f) (?g1\<lparr>nn_files := fs\<rparr>) = (None, promoted_state qr now fs dl g)"
    using o(1,3) rec(2) by (simp add: promote_switch_def promoted_state_def) (simp add: good_promote_def)
  have ex: "execute_promotion (good_promote now) qr g = (Inr (promoted_rec qr now f), promoted_state qr now fs dl g)"
    using p1 p2(1) p3 by (simp add: execute_promotion_def)
  have "handle_promote ''POST'' (Some req) (good_promote now) f = (promote_reply False (promoted_rec qr now f), promoted_state qr now fs dl g)"
    using early lk ex by (simp add: handle_promote_def promote_commit_def flip: g_def qr_def)
  then show ?thesis using p1 p2 o(2,4) by blast
qed

lemma promote_behind:
  assumes f: "promotable F es f" and rq: "request_ok req f" and mx: "qr_seq (pq_record req) \<noteq> - 1"
    and sq: "nn_applied f \<noteq> qr_seq (pq_record req) \<or> (\<exists>ss. nn_cursor f = Some ss \<and> ss_seq ss \<noteq> qr_seq (pq_record req))"
  shows "fst (handle_promote ''POST'' (Some req) io f) = Reply 400 (Bd_code ''promotion_sequence_mismatch'')
    \<and> nn_role (snd (handle_promote ''POST'' (Some req) io f)) = role_follow
    \<and> node_directory (snd (handle_promote ''POST'' (Some req) io f)) = node_directory f"
proof -
  let ?qr = "pq_record req" and ?g = "promote_raise f"
  have r: "follower_ready f" using f by (simp add: promotable_def replica_ok_def)
  have id: "no_id (nn_opts f) \<noteq> []" using f by (auto simp: promotable_def node_options_ok_def split: if_splits)
  have early: "promote_early req f = None"
    using f r rq id mx by (simp add: promote_early_def promotion_static_def promotable_def follower_ready_def request_ok_def Let_def)
  have lk: "promotion_locked req ?g = Some NErrSequenceMismatch"
    using r sq by (auto simp: promotion_locked_def Let_def promote_raise_def follower_ready_def split: option.splits)
  have h: "handle_promote ''POST'' (Some req) io f = (Reply 400 (Bd_code ''promotion_sequence_mismatch''), promote_revert ?g)"
    using early lk by (simp add: handle_promote_def promote_commit_def promotion_code_def)
  have role: "nn_role f = role_follow" using r by (simp add: follower_ready_def)
  have "nn_role (promote_revert ?g) = nn_role f \<and> nn_eng (promote_revert ?g) = nn_eng f \<and> nn_log (promote_revert ?g) = nn_log f
      \<and> nn_journal (promote_revert ?g) = nn_journal f \<and> nn_files (promote_revert ?g) = nn_files f"
    by (auto simp: promote_revert_def restart_worker_def promote_raise_def split: option.splits)
  then show ?thesis using h role by (simp add: node_directory_def node_journal_dir_def split: option.splits)
qed

text \<open>What a node answers for a key.\<close>

definition answer :: "node \<Rightarrow> bytes \<Rightarrow> reply" where
  "answer n k = fst (handle_kv ''GET'' (kv_path k) None (good_kv 0) n)"

lemma answer_view: "engine_inv (nn_eng n) \<Longrightarrow> k \<noteq> [] \<Longrightarrow> answer n k = Reply 200 (Bd_get (engine_view (nn_eng n) k))"
  using engine_life.get_ok [of 0 "engine_view (nn_eng n)" "nn_eng n" k] by (auto simp: answer_def kv_get_eq engine_life_ok_def)

lemma open_state_cong: "rf_state fs = rf_state fs' \<Longrightarrow> open_state_store ok a b fs = open_state_store ok a b fs'"
  by (simp add: open_state_store_def)

text \<open>A crash at each phase, and a restart after the last one.\<close>

lemma promoted_disk_opens:
  assumes f: "promotable F es f" and rq: "request_ok req f" and b: "length es < 2 ^ 62"
    and sq: "qr_seq (pq_record req) = nn_applied f" "nn_cursor f = Some ss" "ss_seq ss = nn_applied f"
    and D: "nd_engine D = directory (nn_eng f)" "load_promotion (nd_records D) = Inr (promoted_rec (pq_record req) now f)"
      "rf_state (nd_records D) = rf_state (nn_files f)"
      "nd_journal D \<in> {based_dir (qr_seq (pq_record req)), (based_dir (qr_seq (pq_record req)))\<lparr>jd_journal := Some []\<rparr>}"
  shows "\<exists>m d. node_open good_open (nn_opts f) D = (Inr m, d) \<and> nn_role m = role_primary \<and> (\<forall>k. k \<noteq> [] \<longrightarrow> answer m k = answer f k)"
proof -
  let ?qr = "pq_record req"
  have ok: "node_options_ok True (nn_opts f)" "no_role (nn_opts f) = role_follow" "engine_opened f" "engine_inv (nn_eng f)"
    using f engine_ok_inv by (auto simp: promotable_def replica_ok_def prefix_engine_def)
  have st: "open_state_store True (no_id (nn_opts f)) (no_primary_url (nn_opts f)) (nn_files f) = Inr ss"
    using f sq(2) by (auto simp: promotable_def cursor_ok_def)
  obtain e de where e: "engine_open None (node_engine_options (nn_opts f)) (directory (nn_eng f)) = (Inr e, de)" "engine_inv e"
      "engine_view e = engine_view (nn_eng f)" using node_reopen_engine [OF ok(4,3,1)] by blast
  have mxn: "unat (qr_seq ?qr) < 2 ^ 62" using f b sq(1) by (simp add: promotable_def replica_ok_def prefix_engine_def)
  have mx: "qr_seq ?qr \<noteq> - 1"
  proof
    assume "qr_seq ?qr = - 1"
    then have "unat (qr_seq ?qr) = 2 ^ 64 - 1" by (simp add: unsigned_minus_1_eq_mask mask_eq_exp_minus_1)
    then show False using mxn by simp
  qed
  have q: "qr_node ?qr \<noteq> []" "qr_url ?qr = no_primary_url (nn_opts f)" "qr_id ?qr \<noteq> []" using rq by (simp_all add: request_ok_def)
  have url: "qr_url ?qr \<noteq> []" using ok(1,2) q(2) by (auto simp: node_options_ok_def split: if_splits)
  have st2: "open_state_store True (no_id (nn_opts f)) (qr_url ?qr) (nd_records D) = Inr ss" "ss_seq ss = qr_seq ?qr"
    using st open_state_cong [OF D(3)] q(2) sq by simp_all
  have lb: "load_baseline (nd_journal D) = load_baseline (based_dir (qr_seq ?qr))" using D(4) by (auto simp: load_baseline_def)
  have "disk_journal_ok (qr_seq ?qr) [] (nd_journal D)"
    using load_based(3) [of "qr_seq ?qr"] mxn D(4) by (auto simp: disk_journal_ok_def counts_from_def) (simp_all add: based_dir_def fresh_journal_def)
  then obtain dl jd where j: "open_durable_log None (nd_journal D) = (Inr dl, jd)" using open_disk_exists by blast
  let ?n0 = "fresh_node (nn_opts f) e (nd_journal D) (nd_records D)"
  have ck: "check_promotion True (promoted_rec ?qr now f) ?n0 = None"
    by (rule check_promoted [OF ok(1) q(1,2) url q(3) mx st2]) (use lb load_based(1,2) [of "qr_seq ?qr"] in \<open>simp_all add: fresh_node_def\<close>)
  obtain m d where m: "node_open good_open (nn_opts f) D = (Inr m, d)" "nn_eng m = e"
    using promoted_opens [OF ok(1) D(2) _ ck j] D(1) e(1) by auto
  have "nn_role m = role_primary" using open_promoted [OF m(1) D(2)] by simp
  moreover have "answer m k = answer f k" if "k \<noteq> []" for k
    using answer_view [OF _ that, of m] answer_view [OF ok(4) that] m(2) e(2,3) by simp
  ultimately show ?thesis using m(1) by blast
qed

lemma reopen_phases:
  assumes f: "promotable F es f" and rq: "request_ok req f" and now: "json_valid now" and b: "length es < 2 ^ 62"
    and sq: "qr_seq (pq_record req) = nn_applied f" "nn_cursor f = Some ss" "ss_seq ss = nn_applied f"
    and h: "handle_promote ''POST'' (Some req) (good_promote now) f = (rep, f')"
    and p1: "promote_baseline (good_promote now) (qr_seq (pq_record req)) (promote_raise f) = (er1, f1)"
    and p2: "promote_record (good_promote now) (pq_record req) f1 = (er2, rec, f2)"
  shows "\<exists>m d. node_open good_open (nn_opts f) (node_directory f1) = (Inr m, d) \<and> nn_role m = role_follow \<and> nn_applied m = nn_applied f"
    "\<exists>m d. node_open good_open (nn_opts f) (node_directory f2) = (Inr m, d) \<and> nn_role m = role_primary
       \<and> (\<forall>k. k \<noteq> [] \<longrightarrow> answer m k = answer f k)"
    "\<exists>m d. node_open good_open (nn_opts f) (node_directory f') = (Inr m, d) \<and> nn_role m = role_primary
       \<and> (\<forall>k. k \<noteq> [] \<longrightarrow> answer m k = answer f k)"
proof -
  let ?qr = "pq_record req" and ?g = "promote_raise f"
  obtain fs dl where pd: "f1 = ?g\<lparr>nn_journal := based_dir (qr_seq ?qr)\<rparr>" "f2 = ?g\<lparr>nn_journal := based_dir (qr_seq ?qr), nn_files := fs\<rparr>"
      "f' = promoted_state ?qr now fs dl ?g" "load_promotion fs = Inr (promoted_rec ?qr now f)" "rf_state fs = rf_state (nn_files f)"
      "durable_inv (qr_seq ?qr) [] dl" "f_bytes (dl_file dl) = []"
    using promote_done [OF f rq now sq b] p1 p2 h by auto
  have ok: "node_options_ok True (nn_opts f)" "no_role (nn_opts f) = role_follow" "nn_log f = None" "rf_promotion (nn_files f) = No_file"
      "engine_opened f" "engine_inv (nn_eng f)"
    using f engine_ok_inv by (auto simp: promotable_def replica_ok_def prefix_engine_def)
  have st: "open_state_store True (no_id (nn_opts f)) (no_primary_url (nn_opts f)) (nn_files f) = Inr ss"
    using f sq(2) by (auto simp: promotable_def cursor_ok_def)
  obtain e de where e: "engine_open None (node_engine_options (nn_opts f)) (directory (nn_eng f)) = (Inr e, de)" "engine_inv e"
      "engine_view e = engine_view (nn_eng f)" using node_reopen_engine [OF ok(6,5,1)] by blast
  have g: "nn_eng ?g = nn_eng f" "nn_log ?g = None" "nn_files ?g = nn_files f" using ok(3) by (simp_all add: promote_raise_def)
  have d1: "node_directory f1 = \<lparr>nd_engine = directory (nn_eng f), nd_journal = based_dir (qr_seq ?qr), nd_records = nn_files f\<rparr>"
    using g pd(1) by (simp add: node_directory_def node_journal_dir_def)
  have d2: "node_directory f2 = \<lparr>nd_engine = directory (nn_eng f), nd_journal = based_dir (qr_seq ?qr), nd_records = fs\<rparr>"
    using g pd(2) by (simp add: node_directory_def node_journal_dir_def)
  have d3: "node_directory f' = \<lparr>nd_engine = directory (nn_eng f), nd_journal = (based_dir (qr_seq ?qr))\<lparr>jd_journal := Some []\<rparr>, nd_records = fs\<rparr>"
    using g pd(3,7) by (simp add: node_directory_def node_journal_dir_def promoted_state_def)
  show "\<exists>m d. node_open good_open (nn_opts f) (node_directory f1) = (Inr m, d) \<and> nn_role m = role_follow \<and> nn_applied m = nn_applied f"
    using follower_opens [of "nn_opts f" "node_directory f1" e de ss] ok(1,2,4) e(1) st sq(3) d1 by (auto simp: load_promotion_def)
  note opens = promoted_disk_opens [OF f rq b sq, of _ now]
  show "\<exists>m d. node_open good_open (nn_opts f) (node_directory f2) = (Inr m, d) \<and> nn_role m = role_primary
       \<and> (\<forall>k. k \<noteq> [] \<longrightarrow> answer m k = answer f k)"
    using opens [of "node_directory f2"] d2 pd(4,5) by simp
  show "\<exists>m d. node_open good_open (nn_opts f) (node_directory f') = (Inr m, d) \<and> nn_role m = role_primary
       \<and> (\<forall>k. k \<noteq> [] \<longrightarrow> answer m k = answer f k)"
    using opens [of "node_directory f'"] d3 pd(4,5) by simp
qed

section \<open>From fresh directories\<close>

lemma open_follower_fresh:
  assumes "node_options_ok True opts" "no_role opts = role_follow" "json_valid (no_id opts)" "json_valid (no_primary_url opts)"
    and "node_open good_open opts fresh_node_disk = (Inr n, d)"
  shows "promotable 0 [] n" "nn_opts n = opts"
proof -
  obtain e d' where e: "engine_open None (node_engine_options opts) fresh_disk = (Inr e, d')"
    using node_engine_fresh [OF assms(1)] by blast
  have o: "en_opts e = effective_options (node_engine_options opts)" using engine_open_opts [OF e] .
  have n: "replica_ok 0 [] n" using node_open_follower [OF assms(1,2)] assms(5) by auto
  have "nn_opts n = opts \<and> nn_eng n = e \<and> nn_pstate n = Pm_none \<and> nn_log n = None \<and> nn_journal n = fresh_journal No_file
      \<and> rf_promotion (nn_files n) = No_file \<and> (\<exists>ss. nn_cursor n = Some ss \<and> ss_node ss = no_id opts \<and> ss_url ss = no_primary_url opts
          \<and> open_state_store True (no_id opts) (no_primary_url opts) (nn_files n) = Inr ss)"
    using assms(1,2,5) e by (auto simp: open_defs Let_def)
  then show "promotable 0 [] n" "nn_opts n = opts"
    using n o assms(1-4) by (auto simp: promotable_def cursor_ok_def engine_opened_def)
qed

lemma frame_promotable:
  "promotable F es f \<Longrightarrow> frame f f' \<Longrightarrow> replica_ok G es' f' \<Longrightarrow> nn_log f' = None \<Longrightarrow> cursor_ok f' \<Longrightarrow> promotable G es' f'"
  by (simp add: promotable_def frame_def engine_opened_def)

lemma quiesce_result:
  assumes a: "active_primary base es p" and t: "quiesce_texts io p" "qz_id io = Some qid"
    and h: "handle_quiesce m io p = (Reply 200 (Bd_quiesced q), p1)"
  obtains rec where "nn_qrec p1 = Some rec" "quiesce_sealed rec" "qr_id rec = qid" "qr_seq rec = qs_seq q" "qr_node rec = no_id (nn_opts p)"
    "qr_url rec = ascii ''http://'' @ node_addr p" "qr_at rec = qz_at io" "nn_eng p1 = nn_eng p" "seq_fits base es (qr_seq rec)"
proof -
  have st: "nn_qstate p = Q_active" "nn_gate p = Some False" using a by (simp_all add: active_primary_def)
  have h1: "quiesce_active io p = (Reply 200 (Bd_quiesced q), p1)"
    using h st by (auto simp: handle_quiesce_def not_allowed_def split: if_splits)
  obtain n1 where s: "quiesce_intent_step io qid p = (None, n1)" and nh: "\<not> has_suffix (ascii '':0'') (node_addr p)"
    using h1 t by (auto simp: quiesce_active_def split: if_splits option.splits prod.splits)
  obtain er rec n2 where c: "quiesce_commit_step io qid (quiesce_gate_step n1) = (er, rec, n2)" by (metis prod_cases3)
  note k = commit_step [OF a t s c]
  have er: "er = None" "quiesce_reply False rec = Reply 200 (Bd_quiesced q)" "p1 = quiesce_finish_step (qz_remove_ok io) rec n2"
    using h1 t nh s c by (auto simp: quiesce_active_def split: option.splits)
  have n1: "nn_opts n1 = nn_opts p" "nn_bound n1 = nn_bound p" "nn_eng n1 = nn_eng p"
    using s by (auto simp: quiesce_intent_step_def split: option.splits prod.splits)
  have g: "nn_opts (quiesce_gate_step n1) = nn_opts p" "node_addr (quiesce_gate_step n1) = node_addr p" "nn_eng (quiesce_gate_step n1) = nn_eng p"
    using n1 by (simp_all add: quiesce_gate_step_def node_addr_def split: option.split)
  obtain x fs where sv: "save_quiesce (qz_record_ok io) (quiesce_record_of io qid (quiesce_gate_step n1)) (nn_files (quiesce_gate_step n1)) = (x, rec, fs)"
      "n2 = (quiesce_gate_step n1)\<lparr>nn_files := fs\<rparr>"
    using c er(1) by (auto simp: quiesce_commit_step_def split: option.splits prod.splits)
  have r: "qr_node rec = no_id (nn_opts p)" "qr_url rec = ascii ''http://'' @ node_addr p" "qr_at rec = qz_at io"
      "qr_checksum rec = quiesce_checksum rec" "qr_version rec = 1"
    using sv(1) g by (auto simp: save_quiesce_def quiesce_record_of_def quiesce_checksum_def Let_def split: if_splits)
  have "quiesce_sealed rec"
    using r t k(4) by (simp add: quiesce_sealed_def quiesce_valid_def quiesce_version_def quiesce_texts_def)
  moreover have "nn_qrec p1 = Some rec" "nn_eng p1 = nn_eng p" using er(3) sv(2) g(3) by (auto simp: quiesce_finish_step_def split: prod.splits)
  moreover have "qr_seq rec = qs_seq q" using er(2) by (auto simp: quiesce_reply_def)
  ultimately show thesis using that k(4,5) r(1-3) by blast
qed

lemma run_ready:
  assumes o: "node_open good_open po fresh_node_disk = (Inr p0, dp)" "no_role po = role_primary"
      "node_open good_open fo fresh_node_disk = (Inr f0, df)" "no_role fo = role_follow"
    and run: "pair_run c r ops (p0, f0) = Some (W, p, f)" "length ops \<le> 2 ^ 29" "\<forall>op \<in> set ops. op_texts op"
    and t: "json_valid (no_id fo)" "json_valid (no_primary_url fo)"
  obtains F es where "pair_ok F es (p, f)" "map entry_upd es = W" "F + length es \<le> length ops" "promotable F es f" "nn_opts f = fo"
    "active_primary 0 es p" "nn_opts p = po" "nn_bound p = None" "nn_closed p = nn_closed p0"
proof -
  have ok: "node_options_ok True po" "node_options_ok True fo"
    using o(1,3) by (auto simp: node_open_def good_open_def split: if_splits)
  have pz: "pair_ok 0 [] (p0, f0)"
    using node_open_primary [OF ok(1) o(2)] node_open_follower [OF ok(2) o(4)] o(1,3) by (auto simp: pair_ok_def)
  note a0 = open_active [OF ok(1) o(2,1)] and f0 = open_follower_fresh [OF ok(2) o(4) t o(3)]
  obtain F es where k: "pair_ok F es (p, f)" "map entry_upd es = W" "F + length es \<le> length ops"
    using pair_run_ok [OF pz _ run(1)] run(2) by auto
  have fr: "frame p0 p" "frame f0 f" "cursor_ok f"
    using pair_run_frame [OF run(1,3) pz] run(2) f0(1) by (auto simp: promotable_def)
  have pf: "primary_ok F es p" "replica_ok F es f" using k(1) by (simp_all add: pair_ok_def)
  have "promotable F es f" using frame_promotable [OF f0(1) fr(2) pf(2) _ fr(3)] fr(2) f0(1) by (simp add: promotable_def frame_def)
  moreover have "active_primary 0 es p"
  proof (rule primary_active [OF pf(1)])
    show "nn_qstate p = Q_active" "nn_pstate p = Pm_none" "no_role (nn_opts p) = role_primary" "base_of (nn_journal p) = Some 0"
      "rf_intent (nn_files p) = No_file" "rf_quiesce (nn_files p) = No_file"
      using fr(1) a0 o(2) by (simp_all add: frame_def active_primary_def journal_ok_def)
    have "rf_promotion (nn_files p0) = No_file"
      using a0(1) by (auto simp: active_primary_def load_promotion_def split: json_file.splits if_splits)
    then show "rf_promotion (nn_files p) = No_file" using fr(1) by (simp add: frame_def)
  qed
  ultimately show thesis using that [OF k] fr f0(2) a0(2,3) by (simp add: frame_def)
qed

text \<open>C6: Failover loses nothing that is text. Let a primary and its follower, opened on fresh directories, run any sequence of
  the steps of \<open>node_replication_converges\<close> in which every acknowledged key and value is valid UTF-8 (\<open>upd_valid\<close>; other
  bytes are changed on the way to the follower), with valid UTF-8 for the clock texts and node ids, a nonempty quiesce id and an RFC 3339 time of
  the quiesce, and the follower configured with the primary's address. Let the primary be quiesced with a reply 200
  and the follower be asked to promote with the record the primary gave, with no I/O failure in the promotion. A follower whose
  cursor, in memory or on disk, is not at the end of the primary's journal refuses with \<open>promotion_sequence_mismatch\<close> and
  its directory stays as it is. Otherwise it becomes a primary that accepts writes, whose journal goes on at
  the next number and which answers every key as the old primary; after a restart it does so again. A crash after
  the first phase of the commit leaves a follower with its cursor, a crash after the second the new primary.\<close>

theorem node_failover_keeps_writes:
  assumes "node_open good_open po fresh_node_disk = (Inr p0, dp)" "no_role po = role_primary"
    and "node_open good_open fo fresh_node_disk = (Inr f0, df)" "no_role fo = role_follow"
    and "pair_run c r ops (p0, f0) = Some (W, p, f)" "length ops \<le> 2 ^ 29" "\<forall>op \<in> set ops. op_texts op" "\<forall>w \<in> set W. upd_valid w"
    and "handle_quiesce ''POST'' io p = (Reply 200 (Bd_quiesced q), p1)" "quiesce_texts io p" "qz_id io = Some qid" "qid \<noteq> []"
    and "rfc3339_ok (qz_at io)" "json_valid now" "json_valid (no_id fo)" "no_primary_url fo = ascii ''http://'' @ node_addr p"
  shows "\<exists>rec req rep f'. nn_qrec p1 = Some rec \<and> req = \<lparr>pq_record = rec, pq_confirm = True\<rparr>
    \<and> handle_promote ''POST'' (Some req) (good_promote now) f = (rep, f')
    \<and> (if nn_applied f = qs_seq q \<and> map_option ss_seq (nn_cursor f) = Some (qs_seq q) then
         (\<exists>pr. rep = promote_reply False pr \<and> pr_seq pr = qs_seq q) \<and> nn_role f' = role_primary \<and> write_refused f' = None
         \<and> (\<exists>dl. nn_log f' = Some dl \<and> latest_seq dl = qs_seq q \<and> dl_next dl = qs_seq q + 1)
         \<and> (\<forall>k. k \<noteq> [] \<longrightarrow> answer f' k = answer p1 k)
         \<and> (\<exists>m d. node_open good_open fo (node_directory f') = (Inr m, d) \<and> nn_role m = role_primary
              \<and> (\<forall>k. k \<noteq> [] \<longrightarrow> answer m k = answer p1 k))
         \<and> (\<exists>f1 f2 pr. promote_baseline (good_promote now) (qs_seq q) (promote_raise f) = (None, f1)
              \<and> promote_record (good_promote now) rec f1 = (None, pr, f2)
              \<and> (\<exists>m d. node_open good_open fo (node_directory f1) = (Inr m, d) \<and> nn_role m = role_follow \<and> nn_applied m = nn_applied f)
              \<and> (\<exists>m d. node_open good_open fo (node_directory f2) = (Inr m, d) \<and> nn_role m = role_primary
                   \<and> (\<forall>k. k \<noteq> [] \<longrightarrow> answer m k = answer p1 k)))
       else rep = Reply 400 (Bd_code ''promotion_sequence_mismatch'') \<and> nn_role f' = role_follow \<and> node_directory f' = node_directory f)"
proof -
  have url: "json_valid (no_primary_url fo)" using assms(10,16) by (simp add: quiesce_texts_def)
  have o: "node_options_ok True po" "node_options_ok True fo"
    using assms(1,3) by (auto simp: node_open_def good_open_def split: if_splits)
  obtain F es where k: "pair_ok F es (p, f)" "map entry_upd es = W" "F + length es \<le> length ops"
      and pm: "promotable F es f" and optf: "nn_opts f = fo" and ap: "active_primary 0 es p" and optp: "nn_opts p = po"
    by (rule run_ready [OF assms(1-7,15) url])
  have pf: "primary_ok F es p" "replica_ok F es f" using k(1) by (simp_all add: pair_ok_def)
  have b: "length es < 2 ^ 62" using k(3) assms(6) by simp
  obtain rec where rec: "nn_qrec p1 = Some rec" "quiesce_sealed rec" "qr_id rec = qid" "qr_seq rec = qs_seq q" "qr_node rec = no_id (nn_opts p)"
    "qr_url rec = ascii ''http://'' @ node_addr p" "qr_at rec = qz_at io" "nn_eng p1 = nn_eng p" "seq_fits 0 es (qr_seq rec)"
    by (rule quiesce_result [OF ap assms(10,11,9)])
  define req where "req = \<lparr>pq_record = rec, pq_confirm = True\<rparr>"
  have pid: "no_id (nn_opts p) \<noteq> []" "json_valid (no_id (nn_opts p))"
    using optp o(1) assms(10) by (auto simp: node_options_ok_def quiesce_texts_def split: if_splits)
  have rq: "request_ok req f"
    using rec assms(12,13,16) pid optf by (simp add: request_ok_def req_def quiesce_sealed_def quiesce_valid_def quiesce_version_def)
  obtain rep f' where h: "handle_promote ''POST'' (Some req) (good_promote now) f = (rep, f')"
    by (cases "handle_promote ''POST'' (Some req) (good_promote now) f") auto
  have len: "unat (qs_seq q) = length es" using rec(4,9) by (simp add: seq_fits_def)
  have mx: "qs_seq q \<noteq> - 1"
  proof
    assume "qs_seq q = - 1"
    then have "unat (qs_seq q) = 2 ^ 64 - 1" by (simp add: unsigned_minus_1_eq_mask mask_eq_exp_minus_1)
    then show False using len b by simp
  qed
  have invs: "engine_inv (nn_eng f)" "engine_inv (nn_eng p)"
    using pf engine_ok_inv by (auto simp: primary_ok_def replica_ok_def prefix_engine_def)
  show ?thesis
  proof (cases "nn_applied f = qs_seq q \<and> map_option ss_seq (nn_cursor f) = Some (qs_seq q)")
    case True
    then obtain ss where ss: "nn_cursor f = Some ss" "ss_seq ss = nn_applied f" by auto
    have sq: "qr_seq (pq_record req) = nn_applied f" using True rec(4) by (simp add: req_def)
    have same: "answer f k = answer p1 k" if "k \<noteq> []" for k
    proof -
      have "map wire_upd W = W" using assms(8) by (simp add: map_idI)
      moreover have "take (unat (nn_applied f)) es = es" using True len by simp
      ultimately have "answer f k = answer p k"
        using primary_reads [OF pf(1) that] follower_reads [OF pf(2) that] k(2) by (simp add: answer_def)
      also have "answer p k = answer p1 k"
        using answer_view [OF invs(2) that] answer_view [of p1 k] invs(2) rec(8) that by simp
      finally show ?thesis .
    qed
    obtain fs dl where pd: "promote_baseline (good_promote now) (qr_seq rec) (promote_raise f)
          = (None, (promote_raise f)\<lparr>nn_journal := based_dir (qr_seq rec)\<rparr>)"
        "promote_record (good_promote now) rec ((promote_raise f)\<lparr>nn_journal := based_dir (qr_seq rec)\<rparr>)
          = (None, promoted_rec rec now f, (promote_raise f)\<lparr>nn_journal := based_dir (qr_seq rec), nn_files := fs\<rparr>)"
        "handle_promote ''POST'' (Some req) (good_promote now) f = (promote_reply False (promoted_rec rec now f), promoted_state rec now fs dl (promote_raise f))"
        "durable_inv (qr_seq rec) [] dl"
      using promote_done [OF pm rq assms(14) sq ss b] by (auto simp: req_def)
    note ph = reopen_phases [OF pm rq assms(14) b sq ss h, unfolded req_def promote_request.simps, OF pd(1,2)]
    have f': "rep = promote_reply False (promoted_rec rec now f)" "f' = promoted_state rec now fs dl (promote_raise f)" using h pd(3) by simp_all
    have dl: "latest_seq dl = qs_seq q" "dl_next dl = qs_seq q + 1"
      using latest_seq_inv [OF pd(4)] pd(4) rec(4) by (simp_all add: word_unat_eq_iff durable_inv_def next_seq_def)
    have new: "nn_role f' = role_primary" "write_refused f' = None" "nn_log f' = Some dl" "nn_eng f' = nn_eng f"
      using f'(2) by (simp_all add: promoted_state_def write_refused_def promote_raise_def)
    have af: "answer f' k = answer p1 k" if "k \<noteq> []" for k
      using answer_view [of f' k] answer_view [OF invs(1) that] new(4) invs(1) same [OF that] that by simp
    let ?f1 = "(promote_raise f)\<lparr>nn_journal := based_dir (qr_seq rec)\<rparr>"
      and ?f2 = "(promote_raise f)\<lparr>nn_journal := based_dir (qr_seq rec), nn_files := fs\<rparr>"
    have r1: "\<exists>m d. node_open good_open fo (node_directory ?f1) = (Inr m, d) \<and> nn_role m = role_follow \<and> nn_applied m = nn_applied f"
      using ph(1) optf by simp
    have r2: "\<exists>m d. node_open good_open fo (node_directory ?f2) = (Inr m, d) \<and> nn_role m = role_primary
        \<and> (\<forall>k. k \<noteq> [] \<longrightarrow> answer m k = answer p1 k)"
      using ph(2) optf same by simp
    have r3: "\<exists>m d. node_open good_open fo (node_directory f') = (Inr m, d) \<and> nn_role m = role_primary
        \<and> (\<forall>k. k \<noteq> [] \<longrightarrow> answer m k = answer p1 k)"
      using ph(3) optf same by simp
    have "(\<exists>pr. rep = promote_reply False pr \<and> pr_seq pr = qs_seq q)" using f'(1) promoted_rec_fields(6) [of rec now f] rec(4) by metis
    moreover have "\<exists>f1 f2 pr. promote_baseline (good_promote now) (qs_seq q) (promote_raise f) = (None, f1)
        \<and> promote_record (good_promote now) rec f1 = (None, pr, f2)
        \<and> (\<exists>m d. node_open good_open fo (node_directory f1) = (Inr m, d) \<and> nn_role m = role_follow \<and> nn_applied m = nn_applied f)
        \<and> (\<exists>m d. node_open good_open fo (node_directory f2) = (Inr m, d) \<and> nn_role m = role_primary
             \<and> (\<forall>k. k \<noteq> [] \<longrightarrow> answer m k = answer p1 k))"
      using pd(1) [unfolded rec(4)] pd(2) r1 r2 unfolding rec(4) by blast
    ultimately show ?thesis
      unfolding if_P [OF True] using rec(1) h new(1-3) dl af r3 req_def
      by - (rule exI [of _ rec], rule exI [of _ req], rule exI [of _ rep], rule exI [of _ f'], intro conjI; (assumption | blast))
  next
    case False
    have "nn_applied f \<noteq> qr_seq (pq_record req) \<or> (\<exists>ss. nn_cursor f = Some ss \<and> ss_seq ss \<noteq> qr_seq (pq_record req))"
      using False pm rec(4) by (auto simp: req_def promotable_def cursor_ok_def)
    then have "rep = Reply 400 (Bd_code ''promotion_sequence_mismatch'')" "nn_role f' = role_follow" "node_directory f' = node_directory f"
      using promote_behind [OF pm rq, of "good_promote now"] mx rec(4) h by (simp_all add: req_def)
    then show ?thesis
      unfolding if_not_P [OF False] using rec(1) h req_def
      by - (rule exI [of _ rec], rule exI [of _ req], rule exI [of _ rep], rule exI [of _ f'], intro conjI; assumption)
  qed
qed

section \<open>A concrete failover\<close>

lemma pair_run_append:
  "pair_run c r ops pf = Some (W, pf1) \<Longrightarrow> pair_run c r ops' pf1 = Some (W', pf2) \<Longrightarrow> pair_run c r (ops @ ops') pf = Some (W @ W', pf2)"
proof (induction ops arbitrary: pf W)
  case (Cons op ops)
  obtain rep pf' where s: "pair_step c r op pf = (rep, pf')" by (cases "pair_step c r op pf") auto
  then obtain W2 where "pair_allowed op" "\<not> en_closed (nn_eng (fst pf'))" "\<not> en_closed (nn_eng (snd pf'))"
      "pair_run c r ops pf' = Some (W2, pf1)" "W = pair_writes op rep @ W2"
    using Cons.prems(1) by (auto split: if_splits option.splits)
  then show ?case using Cons.IH [OF _ Cons.prems(2)] s by simp
qed simp

text \<open>A synchronisation that applies something also moves the cursor on disk.\<close>

lemma sync_saves:
  assumes "sync_from_primary ans (good_sync True now) n = ((None, res), n')" "nn_cursor n = Some ss" "0 < nn_applied n'"
  shows "map_option ss_seq (nn_cursor n') = Some (nn_applied n')"
proof -
  obtain bg before where "sync_finish ans (good_sync True now) bg before (n\<lparr>nn_syncing := True\<rparr>) = ((None, res), n')"
    using assms(1) by (auto simp: sync_from_primary_def sync_begin_def split: if_splits)
  then obtain ens lst where a: "apply_locked (good_sync True now) ens (n\<lparr>nn_syncing := False\<rparr>) = (None, lst, n')"
    by (auto simp: sync_finish_def Let_def split: sum.splits node_error.splits prod.splits option.splits)
  obtain er l e where e: "apply_entries [] ens (nn_applied n) (nn_eng n) = (er, l, e)" by (metis prod_cases3)
  have er: "er = None" using a e assms(2) by (auto simp: apply_locked_def good_sync_def Let_def split: option.splits)
  obtain er' ss' fs where ad: "advance_to True now l ss (nn_files n) = (er', ss', fs)" by (metis prod_cases3)
  have l: "nn_applied n' = l" "0 < l \<Longrightarrow> er' = None \<and> nn_cursor n' = Some ss'"
    using a e er assms(2) ad by (auto simp: apply_locked_def good_sync_def Let_def split: if_splits)
  then show ?thesis using assms(3) ad by (auto simp: advance_to_def split: if_splits)
qed

lemma demo_follower:
  assumes "node_open good_open (demo_options role_follow) fresh_node_disk = (Inr f0, df)"
  shows "promotable 0 [] f0" "nn_opts f0 = demo_options role_follow" "nn_applied f0 = 0" "\<exists>ss. nn_cursor f0 = Some ss \<and> ss_seq ss = 0"
    "json_valid (no_id (demo_options role_follow))" "json_valid (no_primary_url (demo_options role_follow))"
proof -
  have ro: "no_role (demo_options role_follow) = role_follow" by (simp add: demo_options_def)
  show t: "json_valid (no_id (demo_options role_follow))" "json_valid (no_primary_url (demo_options role_follow))"
    by (auto simp: demo_options_def ascii_def intro!: json_valid_ascii)
  show r: "promotable 0 [] f0" "nn_opts f0 = demo_options role_follow"
    using open_follower_fresh [OF demo_options_ok ro t assms] by simp_all
  then have "unat (nn_applied f0) \<le> 0" by (simp add: promotable_def replica_ok_def prefix_engine_def)
  then show "nn_applied f0 = 0" by (simp add: unsigned_eq_0_iff)
  with r show "\<exists>ss. nn_cursor f0 = Some ss \<and> ss_seq ss = 0"
    by (auto simp: promotable_def cursor_ok_def replica_ok_def follower_ready_def)
qed

lemma demo_failover_run:
  obtains p0 dp f0 df p f where "node_open good_open (demo_options role_primary) fresh_node_disk = (Inr p0, dp)"
    "node_open good_open (demo_options role_follow) fresh_node_disk = (Inr f0, df)"
    "pair_run c r [Pr_write [107] (Some [118]) 5, Pr_sync None True []] (p0, f0) = Some ([([107], Some [118])], p, f)"
    "nn_applied f = 1" "map_option ss_seq (nn_cursor f) = Some 1"
proof -
  obtain p0 dp f0 df p where o: "node_open good_open (demo_options role_primary) fresh_node_disk = (Inr p0, dp)"
    "node_open good_open (demo_options role_follow) fresh_node_disk = (Inr f0, df)"
    and w: "pair_run c r [Pr_write [107] (Some [118]) 5] (p0, f0) = Some ([([107], Some [118])], p, f0)"
    by (rule demo_pair_run)
  have ro: "no_role (demo_options role) = role" for role by (simp add: demo_options_def)
  note t = demo_follower(5,6) [OF o(2)]
  have w2: "length [Pr_write [107] (Some [118]) 5] \<le> 2 ^ 29" "\<forall>op \<in> set [Pr_write [107] (Some [118]) 5]. op_texts op" by simp_all
  obtain F es where k: "pair_ok F es (p, f0)" "map entry_upd es = [([107], Some [118])]"
      "F + length es \<le> length [Pr_write [107] (Some [118]) 5]" "promotable F es f0"
    by (rule run_ready [OF o(1) ro o(2) ro w w2 t])
  have len: "length es = 1" using k(2) by (cases es) auto
  note f0 = demo_follower(3,4) [OF o(2)]
  obtain f where s: "pair_run c r [Pr_sync None True []] (p, f0) = Some ([], p, f)" "unat (nn_applied f) = 1"
    using sync_rounds [OF k(1), of 1 c r "[]"] k(2,3) len by (auto simp: upd_valid_def json_valid_ascii simp del: pair_run.simps)
  have one: "nn_applied f = 1" using s(2) by (simp add: word_unat_eq_iff)
  obtain er res f' where y: "sync_from_primary (pull_answer (nn_applied f0) p) (good_sync True []) f0 = ((er, res), f')"
    by (metis prod_cases3 prod.collapse)
  have "\<not> nn_role f0 \<noteq> role_follow" using k(4) by (simp add: promotable_def replica_ok_def follower_ready_def)
  then have "f' = f" using s(1) y by (auto simp: on_side_def handle_replication_sync_def split: if_splits)
  moreover have "er = None"
    using sync_pulled(3) [OF _ _ _ _ y] k(1-3) len by (auto simp: pair_ok_def upd_valid_def json_valid_ascii)
  ultimately have "map_option ss_seq (nn_cursor f) = Some (nn_applied f)"
    using sync_saves [of _ "[]" f0 res f] y f0 one by auto
  then show thesis using that [OF o] pair_run_append [OF w s(1)] one by simp
qed

theorem node_failover_keeps_writes_witness:
  "\<exists>p0 dp f0 df p f q p1 rec rep f' m d. node_open good_open (demo_options role_primary) fresh_node_disk = (Inr p0, dp)
    \<and> node_open good_open (demo_options role_follow) fresh_node_disk = (Inr f0, df)
    \<and> pair_run (\<lambda>_ _. 1) (\<lambda>_ _. 1) [Pr_write [107] (Some [118]) 5, Pr_sync None True []] (p0, f0) = Some ([([107], Some [118])], p, f)
    \<and> handle_quiesce ''POST'' demo_quiesce p = (Reply 200 (Bd_quiesced q), p1) \<and> nn_qrec p1 = Some rec
    \<and> handle_promote ''POST'' (Some \<lparr>pq_record = rec, pq_confirm = True\<rparr>) (good_promote (ascii ''now'')) f = (rep, f')
    \<and> write_refused f' = None \<and> answer f' [107] = Reply 200 (Bd_get (Some [118]))
    \<and> node_open good_open (demo_options role_follow) (node_directory f') = (Inr m, d) \<and> answer m [107] = Reply 200 (Bd_get (Some [118]))"
proof -
  let ?ops = "[Pr_write [107] (Some [118]) 5, Pr_sync None True []]"
  obtain p0 dp f0 df p f where o: "node_open good_open (demo_options role_primary) fresh_node_disk = (Inr p0, dp)"
    "node_open good_open (demo_options role_follow) fresh_node_disk = (Inr f0, df)"
    "pair_run (\<lambda>_ _. 1) (\<lambda>_ _. 1) ?ops (p0, f0) = Some ([([107], Some [118])], p, f)"
    and f: "nn_applied f = 1" "map_option ss_seq (nn_cursor f) = Some 1"
    by (rule demo_failover_run)
  have ro: "no_role (demo_options role) = role" for role by (simp add: demo_options_def)
  have w: "length ?ops \<le> 2 ^ 29" "\<forall>op \<in> set ?ops. op_texts op" by (simp_all add: json_valid_ascii)
  note t = demo_follower(5,6) [OF o(2)]
  obtain F es where k: "pair_ok F es (p, f)" "map entry_upd es = [([107], Some [118])]"
      and p: "active_primary 0 es p" "nn_opts p = demo_options role_primary" "nn_bound p = None" "nn_closed p = nn_closed p0"
    by (rule run_ready [OF o(1) ro o(2) ro o(3) w t])
  have cl: "\<not> nn_closed p"
    using o(1) p(4) by (auto simp: open_defs Let_def role_defs split: if_splits sum.splits prod.splits option.splits)
  note qt = demo_texts(1) [OF p(2,3)]
  have qz: "qz_id demo_quiesce = Some (ascii ''q1'')" "ascii ''q1'' \<noteq> []"
    by (simp_all add: demo_quiesce_def ascii_def)
  have ok_at: "rfc3339_ok (qz_at demo_quiesce)" by code_simp
  obtain q p1 where h: "handle_quiesce ''POST'' demo_quiesce p = (Reply 200 (Bd_quiesced q), p1)"
    using demo_quiesced [OF _ _ _ cl p(2,3)] p(1) by (auto simp: active_primary_def)
  obtain rec :: quiesce_record where r: "qr_seq rec = qs_seq q" "nn_eng p1 = nn_eng p" "seq_fits 0 es (qr_seq rec)"
    by (rule quiesce_result [OF p(1) qt qz(1) h])
  have "length es = 1" using k(2) by (cases es) auto
  then have one: "qs_seq q = 1" using r(1,3) by (simp add: seq_fits_def word_unat_eq_iff)
  have url: "no_primary_url (demo_options role_follow) = ascii ''http://'' @ node_addr p"
    using p(2,3) by (simp add: node_addr_def demo_options_def ascii_def)
  have v: "\<forall>w \<in> set [([107], Some [118])]. upd_valid w" by (simp add: upd_valid_def json_valid_ascii)
  have now: "json_valid (ascii ''now'')" by (rule json_valid_ascii) (auto simp: ascii_def)
  have cond: "nn_applied f = qs_seq q \<and> map_option ss_seq (nn_cursor f) = Some (qs_seq q)" using f one by simp
  have key: "answer p1 [107] = Reply 200 (Bd_get (Some [118]))"
    using primary_reads [of F es p "[107]"] k r(2) engine_ok_inv
      answer_view [of p "[107]"] answer_view [of p1 "[107]"] by (auto simp: pair_ok_def primary_ok_def answer_def)
  obtain rec' rep f' m d where n: "nn_qrec p1 = Some rec'" "write_refused f' = None"
    "handle_promote ''POST'' (Some \<lparr>pq_record = rec', pq_confirm = True\<rparr>) (good_promote (ascii ''now'')) f = (rep, f')"
    "answer f' [107] = answer p1 [107]"
    "node_open good_open (demo_options role_follow) (node_directory f') = (Inr m, d)" "answer m [107] = answer p1 [107]"
    using node_failover_keeps_writes [OF o(1) ro o(2) ro o(3) w v h qt qz ok_at now t(1) url, unfolded if_P [OF cond]] by auto
  show ?thesis using o h n [unfolded key] by blast
qed

end
