(* ===== verification/FailoverFence.thy ===== *)
theory FailoverFence
  imports FailoverSpec
begin

text \<open>
  The fence of a promoted primary. Its restart takes the branch of the promotion record in \<open>resolveRuntimeRole\<close>, which
  never reads the quiesce files: a fence that was confirmed and is on disk is not restored.
\<close>

text \<open>A quiesce that succeeds leaves its record on disk and nothing else but the gate.\<close>

lemma quiesce_records:
  assumes n: "nn_qstate n = Q_active" "quiesce_texts io n" and h: "handle_quiesce ''POST'' io n = (Reply 200 (Bd_quiesced q), n1)"
  shows "nn_gate n1 = Some True" "\<exists>rec. load_quiesce (nn_files n1) = Inr rec \<and> qr_id rec = qs_id q \<and> qr_seq rec = qs_seq q"
    "load_promotion (nn_files n1) = load_promotion (nn_files n)" "rf_state (nn_files n1) = rf_state (nn_files n)"
    "nn_eng n1 = nn_eng n" "nn_journal n1 = nn_journal n" "nn_log n1 = nn_log n" "nn_opts n1 = nn_opts n" "nn_role n1 = role_primary"
proof -
  have h1: "quiesce_active io n = (Reply 200 (Bd_quiesced q), n1)" and role: "nn_role n = role_primary"
    using h n(1) by (auto simp: handle_quiesce_def not_allowed_def split: if_splits)
  obtain qid na where qid: "qz_id io = Some qid" and s: "quiesce_intent_step io qid n = (None, na)"
    using h1 by (auto simp: quiesce_active_def split: if_splits option.splits prod.splits)
  let ?g = "quiesce_gate_step na"
  obtain fa where na: "na = n\<lparr>nn_files := fa, nn_intent_active := True\<rparr>" "load_promotion fa = load_promotion (nn_files n)"
      "rf_state fa = rf_state (nn_files n)"
    using s by (auto simp: quiesce_intent_step_def save_intent_def load_promotion_def split: if_splits)
  have addr: "node_addr ?g = node_addr n" "nn_opts ?g = nn_opts n" "nn_files ?g = fa"
    by (simp_all add: na(1) quiesce_gate_step_def node_addr_def split: option.split)
  let ?q = "quiesce_record_of io qid ?g"
  have q: "quiesce_sealed ?q"
    using n(2) qid addr
    by (simp add: quiesce_record_of_def Let_def quiesce_sealed_def quiesce_valid_def quiesce_texts_def quiesce_version_def quiesce_checksum_def)
  obtain x q' fs where sv: "save_quiesce (qz_record_ok io) ?q fa = (x, q', fs)" by (metis prod_cases3)
  note k = save_quiesce_sealed [OF q sv]
  have x: "x = None" "quiesce_reply False ?q = Reply 200 (Bd_quiesced q)" "n1 = quiesce_finish_step (qz_remove_ok io) ?q (?g\<lparr>nn_files := fs\<rparr>)"
    using h1 qid s sv k(1) addr(3) by (auto simp: quiesce_active_def quiesce_commit_step_def split: if_splits option.splits)
  obtain er fs' where rm: "remove_intent (qz_remove_ok io) fs = (er, fs')" by (cases "remove_intent (qz_remove_ok io) fs")
  note l = load_quiesce_remove [OF rm]
  have fs: "rf_state fs' = rf_state (nn_files n)"
    using rm sv na(3) by (auto simp: remove_intent_def save_quiesce_def Let_def split: if_splits)
  have n1: "nn_files n1 = fs'" "nn_gate n1 = Some True" using x(3) rm by (auto simp: quiesce_finish_step_def quiesce_gate_step_def)
  show "nn_gate n1 = Some True" "rf_state (nn_files n1) = rf_state (nn_files n)" using n1 fs by simp_all
  show "\<exists>rec. load_quiesce (nn_files n1) = Inr rec \<and> qr_id rec = qs_id q \<and> qr_seq rec = qs_seq q"
    using n1(1) l k(3) x(1,2) by (auto simp: quiesce_reply_def)
  show "load_promotion (nn_files n1) = load_promotion (nn_files n)" using n1(1) l k(5) na(2) by simp
  show "nn_eng n1 = nn_eng n" "nn_journal n1 = nn_journal n" "nn_log n1 = nn_log n" "nn_opts n1 = nn_opts n" "nn_role n1 = role_primary"
    by (simp_all add: x(3) quiesce_finish_step_def quiesce_gate_step_def rm na(1) role)
qed

text \<open>C23: A fence of a promoted primary does not survive a restart. When a node whose directory holds a promotion record is
  quiesced with a reply 200, it refuses writes and its quiesce record is on disk; but whatever happens during the
  restart, a node opened on that directory is active, knows no quiesce and accepts writes.\<close>

theorem node_promoted_fence_lost:
  assumes "load_promotion (nn_files n) = Inr pr" "nn_qstate n = Q_active" "quiesce_texts io n"
    and "handle_quiesce ''POST'' io n = (Reply 200 (Bd_quiesced q), n1)"
    and "node_open oio (nn_opts n) (node_directory n1) = (Inr m, d)"
  shows "write_refused n1 = Some (Reply 409 (Bd_code ''node_quiesced''))
    \<and> (\<exists>rec. load_quiesce (nd_records (node_directory n1)) = Inr rec \<and> qr_id rec = qs_id q \<and> qr_seq rec = qs_seq q)
    \<and> nn_role m = role_primary \<and> nn_qstate m = Q_active \<and> nn_qrec m = None \<and> write_refused m = None"
proof -
  note k = quiesce_records [OF assms(2-4)]
  have "load_promotion (nd_records (node_directory n1)) = Inr pr" using k(3) assms(1) by (simp add: node_directory_def)
  from open_promoted [OF assms(5) this] show ?thesis using k(1,2,9) by (simp add: write_refused_def node_directory_def)
qed

theorem node_promoted_fence_lost_witness:
  "\<exists>f0 df req rep n q n1 m d. node_open good_open (demo_options role_follow) fresh_node_disk = (Inr f0, df)
    \<and> handle_promote ''POST'' (Some req) (good_promote (ascii ''now'')) f0 = (rep, n) \<and> nn_role n = role_primary
    \<and> handle_quiesce ''POST'' demo_quiesce n = (Reply 200 (Bd_quiesced q), n1)
    \<and> write_refused n1 = Some (Reply 409 (Bd_code ''node_quiesced''))
    \<and> node_open good_open (demo_options role_follow) (node_directory n1) = (Inr m, d) \<and> write_refused m = None"
proof -
  obtain f0 df where o: "node_open good_open (demo_options role_follow) fresh_node_disk = (Inr f0, df)"
    using node_open_follower [OF demo_options_ok, of role_follow] by (auto simp: demo_options_def)
  note f = demo_follower [OF o]
  obtain ss where ss: "nn_cursor f0 = Some ss" "ss_seq ss = 0" using f(4) by blast
  define rec where "rec = (let r = \<lparr>qr_version = 1, qr_id = ascii ''q0'', qr_node = ascii ''node-0'', qr_url = ascii ''http://127.0.0.1:9101'',
      qr_seq = 0, qr_at = ascii ''2024-01-01T00:00:01Z'', qr_checksum = 0\<rparr> in r\<lparr>qr_checksum := quiesce_checksum r\<rparr>)"
  define req where "req = \<lparr>pq_record = rec, pq_confirm = True\<rparr>"
  have ok_at: "rfc3339_ok (ascii ''2024-01-01T00:00:01Z'')" by code_simp
  have js: "json_valid (ascii ''node-0'')" "json_valid (ascii ''q0'')" "json_valid (ascii ''now'')"
    by (auto simp: ascii_def intro!: json_valid_ascii)
  have rq: "request_ok req f0"
    using ok_at js f(2) by (simp add: request_ok_def req_def rec_def Let_def quiesce_checksum_def demo_options_def) (simp add: ascii_def)
  have sq: "qr_seq (pq_record req) = nn_applied f0" "ss_seq ss = nn_applied f0" using f(3) ss(2) by (simp_all add: req_def rec_def Let_def)
  obtain fs dl where h: "handle_promote ''POST'' (Some req) (good_promote (ascii ''now'')) f0
        = (promote_reply False (promoted_rec rec (ascii ''now'') f0), promoted_state rec (ascii ''now'') fs dl (promote_raise f0))"
      "load_promotion fs = Inr (promoted_rec rec (ascii ''now'') f0)" "rf_state fs = rf_state (nn_files f0)" "f_bytes (dl_file dl) = []"
    using promote_done [OF f(1) rq js(3) sq(1) ss(1) sq(2)] by (auto simp: req_def)
  let ?n = "promoted_state rec (ascii ''now'') fs dl (promote_raise f0)"
  have n: "nn_role ?n = role_primary" "nn_gate ?n = Some False" "nn_qstate ?n = Q_active" "nn_opts ?n = demo_options role_follow"
      "nn_files ?n = fs" "nn_eng ?n = nn_eng f0" "nn_log ?n = Some dl" "nn_bound ?n = nn_bound f0" "nn_closed ?n = nn_closed f0"
      "nn_journal ?n = (based_dir 0)\<lparr>jd_journal := Some []\<rparr>"
    using f(2) by (simp_all add: promoted_state_def promote_raise_def rec_def Let_def)
  have b: "nn_bound f0 = None" "\<not> nn_closed f0"
    using o f(1) by (auto simp: open_defs demo_options_def Let_def role_defs promotable_def replica_ok_def follower_ready_def split: if_splits sum.splits prod.splits option.splits)
  obtain q n1 where hq: "handle_quiesce ''POST'' demo_quiesce ?n = (Reply 200 (Bd_quiesced q), n1)"
    using demo_quiesced [OF n(1-3) _ n(4)] n(8,9) b by auto
  have qt: "quiesce_texts demo_quiesce ?n" using demo_texts(1) [OF n(4)] n(8) b(1) by simp
  note k = quiesce_records [OF n(3) qt hq]
  have dj: "node_journal_dir n1 = (based_dir 0)\<lparr>jd_journal := Some []\<rparr>" using k(6,7) n(7,10) h(4) by (simp add: node_journal_dir_def)
  have "\<exists>m d. node_open good_open (nn_opts f0) (node_directory n1) = (Inr m, d) \<and> nn_role m = role_primary
      \<and> (\<forall>k. k \<noteq> [] \<longrightarrow> answer m k = answer f0 k)"
    by (rule promoted_disk_opens [OF f(1) rq _ sq(1) ss(1) sq(2), of _ "ascii ''now''"])
      (use k(3-5) n(5,6) h(2,3) dj in \<open>simp_all add: node_directory_def req_def rec_def Let_def\<close>)
  then obtain m d where m: "node_open good_open (nn_opts ?n) (node_directory n1) = (Inr m, d)" using f(2) n(4) by auto
  have "load_promotion (nn_files ?n) = Inr (promoted_rec rec (ascii ''now'') f0)" using n(5) h(2) by simp
  from node_promoted_fence_lost [OF this n(3) qt hq m] show ?thesis using o h(1) n(1,4) hq m by metis
qed

end
