(* ===== verification/NodeConc.thy ===== *)
theory NodeConc
  imports NodeSync
begin

text \<open>
  Two writes in flight at once. The engine and the journal each have a lock of their own, and a write handler
  takes them one after the other with only the shared permit of the write gate around both: other
  handlers run in between. The two halves of a handler are functions here, and one schedule of them shows what
  the order of the code allows.
\<close>

definition write_engine_step :: "bytes \<Rightarrow> bytes option \<Rightarrow> kv_io \<Rightarrow> node \<Rightarrow> engine_error option \<times> node" where
  "write_engine_step k v io n =
     (case (case v of None \<Rightarrow> engine_delete k (ki_write io) (ki_sync io) (nn_eng n)
                    | Some x \<Rightarrow> engine_put k x (ki_write io) (ki_sync io) (nn_eng n)) of
        (er, e') \<Rightarrow> (er, n\<lparr>nn_eng := e'\<rparr>))"

definition write_journal_step :: "bytes \<Rightarrow> bytes option \<Rightarrow> kv_io \<Rightarrow> node \<Rightarrow> reply \<times> node" where
  "write_journal_step k v io n =
     (case v of None \<Rightarrow> journal_write op_delete k [] io n (Reply 200 Bd_delete)
              | Some x \<Rightarrow> journal_write op_put k x io n (Reply 200 Bd_put))"

text \<open>A handler that runs alone is its two halves.\<close>

lemma handle_write_steps:
  assumes "k \<noteq> []" "write_refused n = None"
  shows "handle_write k v io n =
    (case write_engine_step k v io n of (Some _, n') \<Rightarrow> (Reply 500 Bd_error, n') | (None, n') \<Rightarrow> write_journal_step k v io n')"
  using assms by (auto simp: handle_write_eq write_engine_step_def write_journal_step_def engine_write_def upd_op_def upd_value_def
      split: option.splits prod.splits)

lemma engine_step_log:
  assumes "write_engine_step k v io n = (er, n')"
  shows "n' = n\<lparr>nn_eng := nn_eng n'\<rparr>" "write_engine_step k v io (n\<lparr>nn_log := l\<rparr>) = (er, n'\<lparr>nn_log := l\<rparr>)"
  using assms by (auto simp: write_engine_step_def split: prod.splits option.splits)

lemma journal_step_engine:
  assumes "write_journal_step k v io n = (rep, n')"
  shows "n' = n\<lparr>nn_log := nn_log n'\<rparr>" "write_journal_step k v io (n\<lparr>nn_eng := e\<rparr>) = (rep, n'\<lparr>nn_eng := e\<rparr>)"
  using assms by (auto simp: write_journal_step_def journal_write_def split: prod.splits option.splits)

text \<open>A primary runs an accepted write in two halves, and they commute with the halves of other writes.\<close>

lemma primary_halves:
  assumes "primary_ok F es p" "F + length es \<le> 2 ^ 29" "k \<noteq> []" "17 + length k + length (upd_value v) \<le> engine_record_limit"
  obtains p1 b p2 en where "write_engine_step k v (good_kv t) p = (None, p1)" "write_journal_step k v (good_kv t) p1 = (Reply 200 b, p2)"
    "entry_upd en = (k, v)" "primary_ok F (es @ [en]) p2"
proof -
  obtain b p2 en where h: "handle_write k v (good_kv t) p = (Reply 200 b, p2)" "entry_upd en = (k, v)" "primary_ok F (es @ [en]) p2"
    using primary_accepts [OF assms, of t] by blast
  have wr: "write_refused p = None" using assms(1) by (simp add: write_refused_def primary_ok_def)
  obtain er p1 where s: "write_engine_step k v (good_kv t) p = (er, p1)" by (cases "write_engine_step k v (good_kv t) p")
  then have "er = None \<and> write_journal_step k v (good_kv t) p1 = (Reply 200 b, p2)"
    using h(1) handle_write_steps [OF assms(3) wr, of v "good_kv t"] by (cases er) auto
  then show thesis using that s h(2,3) by blast
qed

lemma pull_answer_cong:
  assumes "nn_role p = nn_role q" "nn_log p = nn_log q"
  shows "pull_answer a p = pull_answer a q"
proof -
  have l: "journal_last p = journal_last q" using assms(2) by (simp add: journal_last_def)
  have "replication_entries after limit p = replication_entries after limit q" for after limit
    by (simp only: replication_entries_def assms(2) l)
  then show ?thesis by (simp only: pull_answer_def handle_replication_log_def assms(1) l)
qed

lemma sync_runs_cong:
  assumes "nn_role p = nn_role q" "nn_log p = nn_log q" "\<not> en_closed (nn_eng q)"
    and "pair_run c r (replicate j (Pr_sync None True now)) (p, f) = Some (W, p', f')"
  shows "W = [] \<and> pair_run c r (replicate j (Pr_sync None True now)) (q, f) = Some ([], q, f')"
  using assms(4)
proof (induction j arbitrary: f W)
  case (Suc j)
  let ?h = "\<lambda>p. handle_replication_sync ''POST'' (pull_answer (nn_applied f) p) (good_sync True now)"
  obtain rep f1 where h: "?h p f = (rep, f1)" by (cases "?h p f") auto
  have hq: "?h q f = (rep, f1)" using h pull_answer_cong [OF assms(1,2)] by simp
  have w: "pair_writes (Pr_sync None True now) rep = []" by (cases rep) auto
  obtain W2 where r: "\<not> en_closed (nn_eng f1)" "pair_run c r (replicate j (Pr_sync None True now)) (p, f1) = Some (W2, p', f')" "W = W2"
    using Suc.prems h w by (auto simp: on_side_def split: if_splits option.splits)
  have "W2 = [] \<and> pair_run c r (replicate j (Pr_sync None True now)) (q, f1) = Some ([], q, f')" using Suc.IH [OF r(2)] .
  then show ?case using r(1,3) hq w assms(3) by (auto simp: on_side_def)
qed simp

text \<open>C24: Writes to one key that are in flight together can leave a follower different from its primary for good. From
  any state a run of the pair reaches, let two handlers write the same key, the second one's engine write coming
  after the first one's but its journal record before: both requests are answered with 200, the primary
  answers the second value and a follower that has caught up with the whole journal answers the first.\<close>

theorem node_concurrent_writes_diverge:
  assumes "node_open good_open po fresh_node_disk = (Inr p0, dp)" "no_role po = role_primary"
    and "node_open good_open fo fresh_node_disk = (Inr f0, df)" "no_role fo = role_follow"
    and "pair_run c r ops (p0, f0) = Some (W, p, f)" "length ops + 2 \<le> 2 ^ 29" "\<forall>w \<in> set W. upd_valid w"
    and "k \<noteq> []" "upd_valid (k, v1)" "upd_valid (k, v2)" "17 + length k + length (upd_value v1) \<le> engine_record_limit"
    and "17 + length k + length (upd_value v2) \<le> engine_record_limit" "length W + 2 \<le> unat (nn_applied f) + 1000 * j"
  shows "\<exists>pa pb b2 pc b1 pd f'. write_engine_step k v1 (good_kv t1) p = (None, pa) \<and> write_engine_step k v2 (good_kv t2) pa = (None, pb)
    \<and> write_journal_step k v2 (good_kv t2) pb = (Reply 200 b2, pc) \<and> write_journal_step k v1 (good_kv t1) pc = (Reply 200 b1, pd)
    \<and> pair_run c r (replicate j (Pr_sync None True now)) (pd, f) = Some ([], pd, f') \<and> unat (nn_applied f') = length W + 2
    \<and> fst (handle_kv ''GET'' (kv_path k) None (good_kv 0) pd) = Reply 200 (Bd_get v2)
    \<and> fst (handle_kv ''GET'' (kv_path k) None (good_kv 0) f') = Reply 200 (Bd_get v1)"
proof -
  have o: "node_options_ok True po" "node_options_ok True fo"
    using assms(1,3) by (auto simp: node_open_def good_open_def split: if_splits)
  have z: "pair_ok 0 [] (p0, f0)"
    using node_open_primary [OF o(1) assms(2)] node_open_follower [OF o(2) assms(4)] assms(1,3) by (auto simp: pair_ok_def)
  obtain F es where k: "pair_ok F es (p, f)" "map entry_upd es = W" "F + length es \<le> length ops"
    using pair_run_ok [OF z _ assms(5)] assms(6) by auto
  have pf: "primary_ok F es p" "replica_ok F es f" "F + length es + 2 \<le> 2 ^ 29" using k assms(6) by (simp_all add: pair_ok_def)
  have l1: "F + length es \<le> 2 ^ 29" and l2: "F + length (es @ [x]) \<le> 2 ^ 29" for x using pf(3) by simp_all
  \<comment> \<open>one after the other, in the order of the engine\<close>
  obtain a1 ba a2 ea where a: "write_engine_step k v1 (good_kv t1) p = (None, a1)"
      "write_journal_step k v1 (good_kv t1) a1 = (Reply 200 ba, a2)" "entry_upd ea = (k, v1)" "primary_ok F (es @ [ea]) a2"
    by (rule primary_halves [OF pf(1) l1 assms(8,11), of t1])
  obtain a3 bb a4 eb where b: "write_engine_step k v2 (good_kv t2) a2 = (None, a3)"
      "write_journal_step k v2 (good_kv t2) a3 = (Reply 200 bb, a4)" "entry_upd eb = (k, v2)" "primary_ok F ((es @ [ea]) @ [eb]) a4"
    by (rule primary_halves [OF a(4) l2 assms(8,12), of t2])
  \<comment> \<open>and in the order of the journal\<close>
  obtain c1 bc c2 ec where d: "write_engine_step k v2 (good_kv t2) p = (None, c1)"
      "write_journal_step k v2 (good_kv t2) c1 = (Reply 200 bc, c2)" "entry_upd ec = (k, v2)" "primary_ok F (es @ [ec]) c2"
    by (rule primary_halves [OF pf(1) l1 assms(8,12), of t2])
  obtain c3 bd c4 ed where e: "write_engine_step k v1 (good_kv t1) c2 = (None, c3)"
      "write_journal_step k v1 (good_kv t1) c3 = (Reply 200 bd, c4)" "entry_upd ed = (k, v1)" "primary_ok F ((es @ [ec]) @ [ed]) c4"
    by (rule primary_halves [OF d(4) l2 assms(8,11), of t1])
  let ?e = "nn_eng a3"
  let ?pb = "p\<lparr>nn_eng := ?e\<rparr>" and ?pc = "c2\<lparr>nn_eng := ?e\<rparr>" and ?pd = "c4\<lparr>nn_eng := ?e\<rparr>"
  obtain E1 L2 E2 where A: "a1 = p\<lparr>nn_eng := E1\<rparr>" "a2 = a1\<lparr>nn_log := L2\<rparr>" "a3 = a2\<lparr>nn_eng := E2\<rparr>"
    using engine_step_log(1) [OF a(1)] journal_step_engine(1) [OF a(2)] engine_step_log(1) [OF b(1)] by blast
  obtain E3 L4 E5 where C: "c1 = p\<lparr>nn_eng := E3\<rparr>" "c2 = c1\<lparr>nn_log := L4\<rparr>" "c3 = c2\<lparr>nn_eng := E5\<rparr>"
    using engine_step_log(1) [OF d(1)] journal_step_engine(1) [OF d(2)] engine_step_log(1) [OF e(1)] by blast
  have "a2\<lparr>nn_log := nn_log p\<rparr> = a1" "a3\<lparr>nn_log := nn_log p\<rparr> = ?pb" "c1\<lparr>nn_eng := ?e\<rparr> = ?pb" "c3\<lparr>nn_eng := ?e\<rparr> = ?pc"
    using A C by simp_all
  then have run: "write_engine_step k v2 (good_kv t2) a1 = (None, ?pb)" "write_journal_step k v2 (good_kv t2) ?pb = (Reply 200 bc, ?pc)"
      "write_journal_step k v1 (good_kv t1) ?pc = (Reply 200 bd, ?pd)"
    using engine_step_log(2) [OF b(1), of "nn_log p"] journal_step_engine(2) [OF d(2), of ?e] journal_step_engine(2) [OF e(2), of ?e]
    by simp_all
  have pk: "pair_ok F ((es @ [ec]) @ [ed]) (c4, f)" using e(4) pf(2) replica_ok_snoc by (simp only: pair_ok_def fst_conv snd_conv)
  have v: "\<forall>en \<in> set ((es @ [ec]) @ [ed]). upd_valid (entry_upd en)" using k(2) assms(7,9,10) d(3) e(3) by auto
  have len: "length es = length W" using k(2) by auto
  obtain f' where f': "pair_run c r (replicate j (Pr_sync None True now)) (c4, f) = Some ([], c4, f')" "replica_ok F ((es @ [ec]) @ [ed]) f'"
      "unat (nn_applied f') = length ((es @ [ec]) @ [ed])"
    using sync_rounds [OF pk _ v, of j c r now] pf(3) len assms(13) by auto
  obtain L5 where "a4 = a3\<lparr>nn_log := L5\<rparr>" using journal_step_engine(1) [OF b(2)] by blast
  then have eng: "nn_eng a4 = ?e" by simp
  then have op: "\<not> en_closed (nn_eng ?pd)" using b(4) by (auto simp: primary_ok_def engine_ok_def)
  have sync: "pair_run c r (replicate j (Pr_sync None True now)) (?pd, f) = Some ([], ?pd, f')"
    using sync_runs_cong [OF _ _ op f'(1)] by simp
  have "fst (handle_kv ''GET'' (kv_path k) None (good_kv 0) ?pd) = fst (handle_kv ''GET'' (kv_path k) None (good_kv 0) a4)"
    using eng by (simp add: kv_get_eq split: sum.split engine_error.split prod.split)
  then have r1: "fst (handle_kv ''GET'' (kv_path k) None (good_kv 0) ?pd) = Reply 200 (Bd_get v2)"
    using primary_reads [OF b(4) assms(8)] b(3) by (simp add: play_def)
  have r2: "fst (handle_kv ''GET'' (kv_path k) None (good_kv 0) f') = Reply 200 (Bd_get v1)"
    using follower_reads [OF f'(2) assms(8)] f'(3) e(3) assms(9) by (simp add: play_def)
  show ?thesis using a(1) run sync f'(3) len r1 r2 by (intro exI conjI) auto
qed

theorem node_concurrent_writes_diverge_witness:
  "\<exists>p0 dp f0 df pa pb b2 pc b1 pd f'. node_open good_open (demo_options role_primary) fresh_node_disk = (Inr p0, dp)
    \<and> node_open good_open (demo_options role_follow) fresh_node_disk = (Inr f0, df)
    \<and> write_engine_step [107] (Some [118]) (good_kv 1) p0 = (None, pa) \<and> write_engine_step [107] (Some [119]) (good_kv 2) pa = (None, pb)
    \<and> write_journal_step [107] (Some [119]) (good_kv 2) pb = (Reply 200 b2, pc)
    \<and> write_journal_step [107] (Some [118]) (good_kv 1) pc = (Reply 200 b1, pd)
    \<and> pair_run (\<lambda>_ _. 1) (\<lambda>_ _. 1) [Pr_sync None True []] (pd, f0) = Some ([], pd, f') \<and> unat (nn_applied f') = 2
    \<and> fst (handle_kv ''GET'' (kv_path [107]) None (good_kv 0) pd) = Reply 200 (Bd_get (Some [119]))
    \<and> fst (handle_kv ''GET'' (kv_path [107]) None (good_kv 0) f') = Reply 200 (Bd_get (Some [118]))"
proof -
  have ro: "no_role (demo_options role) = role" for role by (simp add: demo_options_def)
  obtain p0 dp where p: "node_open good_open (demo_options role_primary) fresh_node_disk = (Inr p0, dp)"
    using node_open_primary [OF demo_options_ok ro] by auto
  obtain f0 df where f: "node_open good_open (demo_options role_follow) fresh_node_disk = (Inr f0, df)"
    using node_open_follower [OF demo_options_ok ro] by auto
  have run: "pair_run (\<lambda>_ _. 1) (\<lambda>_ _. 1) [] (p0, f0) = Some ([], p0, f0)" by simp
  have v: "upd_valid ([107], Some [118])" "upd_valid ([107], Some [119])" by (simp_all add: upd_valid_def json_valid_ascii)
  have l: "17 + length [107::byte] + length (upd_value (Some [x])) \<le> engine_record_limit" for x :: byte
    by (simp add: engine_record_limit_def upd_value_def)
  have one: "replicate 1 (Pr_sync None True []) = [Pr_sync None True []]" by simp
  have c: "length [] + 2 \<le> (2::nat) ^ 29" "\<forall>w \<in> set []. upd_valid w" "[107::byte] \<noteq> []"
    "length ([] :: (bytes \<times> bytes option) list) + 2 \<le> unat (nn_applied f0) + 1000 * 1" by simp_all
  show ?thesis
    using node_concurrent_writes_diverge [OF p ro f ro run c(1-3) v l l c(4), of 1 2 "[]", unfolded one] p f
    by (simp only: list.size add_0_left) blast
qed

end
