(* ===== verification/Client.thy ===== *)
theory Client
  imports Failover
begin

text \<open>
  The HTTP client of a node (\<open>internal/node/client.go\<close>): each method as a function of what its exchange with the
  server brings. \<open>exchange_of\<close> is the exchange when the answer of a handler arrives.
\<close>

section \<open>Exchanges\<close>

text \<open>No answer, a body that is not JSON, or a status with a decoded body.\<close>

datatype exchange = Ex_none | Ex_garbled nat | Ex_reply nat reply_body

text \<open>The node cannot be reached, an \<open>HTTPStatusError\<close> with its code, a body that does not decode, or \<open>ok\<close> not true.\<close>

datatype client_error = CErrUnavailable | CErrStatus nat string | CErrDecode | CErrNotOk

definition exchange_of :: "reply \<Rightarrow> exchange" where
  "exchange_of r = (case r of Aborted \<Rightarrow> Ex_none | Reply s b \<Rightarrow> Ex_reply s b)"

definition body_code :: "reply_body \<Rightarrow> string" where
  "body_code b = (case b of Bd_code c \<Rightarrow> c | _ \<Rightarrow> [])"

text \<open>\<open>doJSON\<close>.\<close>

definition do_json :: "exchange \<Rightarrow> client_error + reply_body" where
  "do_json x =
     (case x of
        Ex_none \<Rightarrow> Inl CErrUnavailable
      | Ex_garbled s \<Rightarrow> if s < 200 \<or> s \<ge> 300 then Inl (CErrStatus s []) else Inl CErrDecode
      | Ex_reply s b \<Rightarrow> if s < 200 \<or> s \<ge> 300 then Inl (CErrStatus s (body_code b)) else Inr b)"

section \<open>Fields of a decoded body\<close>

text \<open>A field that a body lacks keeps its zero value; strings come back as JSON carries them.\<close>

definition body_ok :: "reply_body \<Rightarrow> bool" where
  "body_ok b = (case b of Bd_put \<Rightarrow> True | Bd_delete \<Rightarrow> True | Bd_op x \<Rightarrow> x | Bd_applied _ _ \<Rightarrow> True | Bd_sync x _ \<Rightarrow> x | _ \<Rightarrow> False)"

definition body_value :: "reply_body \<Rightarrow> bytes option" where
  "body_value b = map_option json_text (case b of Bd_get v \<Rightarrow> v | Bd_explain x \<Rightarrow> xp_value x | _ \<Rightarrow> None)"

definition body_entries :: "reply_body \<Rightarrow> (bytes \<times> bytes) list" where
  "body_entries b = (case b of Bd_scan es \<Rightarrow> map (\<lambda>(k, v). (json_text k, json_text v)) es | _ \<Rightarrow> [])"

section \<open>Methods\<close>

definition client_health :: "exchange \<Rightarrow> client_error option" where
  "client_health x =
     (case do_json x of Inl e \<Rightarrow> Some e | Inr b \<Rightarrow> if b = Bd_health then None else Some CErrNotOk)"

definition client_done :: "exchange \<Rightarrow> client_error option" where
  "client_done x = (case do_json x of Inl e \<Rightarrow> Some e | Inr b \<Rightarrow> if body_ok b then None else Some CErrNotOk)"

definition client_put :: "exchange \<Rightarrow> client_error option" where "client_put x = client_done x"
definition client_delete :: "exchange \<Rightarrow> client_error option" where "client_delete x = client_done x"
definition client_flush :: "exchange \<Rightarrow> client_error option" where "client_flush x = client_done x"
definition client_compact :: "exchange \<Rightarrow> client_error option" where "client_compact x = client_done x"

definition client_get :: "exchange \<Rightarrow> client_error + bytes option" where
  "client_get x = map_sum id body_value (do_json x)"

definition client_scan :: "exchange \<Rightarrow> client_error + (bytes \<times> bytes) list" where
  "client_scan x = map_sum id body_entries (do_json x)"

text \<open>\<open>Do\<close> passes the decoded body on.\<close>

definition client_do :: "exchange \<Rightarrow> client_error + reply_body" where "client_do x = do_json x"

text \<open>The methods that hand the decoded body to the caller.\<close>

definition client_status :: "exchange \<Rightarrow> client_error + reply_body" where "client_status x = do_json x"
definition client_replication_status :: "exchange \<Rightarrow> client_error + reply_body" where "client_replication_status x = do_json x"
definition client_explain_put :: "exchange \<Rightarrow> client_error + reply_body" where "client_explain_put x = do_json x"
definition client_explain_get :: "exchange \<Rightarrow> client_error + reply_body" where "client_explain_get x = do_json x"
definition client_explain_delete :: "exchange \<Rightarrow> client_error + reply_body" where "client_explain_delete x = do_json x"
definition client_explain_scan :: "exchange \<Rightarrow> client_error + reply_body" where "client_explain_scan x = do_json x"
definition client_quiesce :: "exchange \<Rightarrow> client_error + reply_body" where "client_quiesce x = do_json x"
definition client_promote :: "exchange \<Rightarrow> client_error + reply_body" where "client_promote x = do_json x"

text \<open>\<open>SyncReplication\<close> runs its exchange itself.\<close>

definition client_sync :: "exchange \<Rightarrow> client_error + reply_body" where
  "client_sync x =
     (case x of
        Ex_none \<Rightarrow> Inl CErrUnavailable
      | Ex_garbled s \<Rightarrow> (if s < 200 \<or> s \<ge> 300 then Inl (CErrStatus s []) else Inl CErrDecode)
      | Ex_reply s b \<Rightarrow> (if s < 200 \<or> s \<ge> 300 then Inl (CErrStatus s (body_code b)) else Inr b))"

text \<open>The sentinel error an \<open>HTTPStatusError\<close> matches, by its code.\<close>

datatype client_sentinel = Cs_quiesced | Cs_sync_in_progress | Cs_sequence_mismatch | Cs_source_mismatch | Cs_record_invalid
  | Cs_already_promoted | Cs_promotion_in_progress | Cs_not_ready | Cs_failed_fenced

definition status_is :: "client_error \<Rightarrow> client_sentinel \<Rightarrow> bool" where
  "status_is e target =
     (case e of
        CErrStatus s code \<Rightarrow>
          if code = ''node_quiesced'' then target = Cs_quiesced
          else if code = ''sync_in_progress'' then target = Cs_sync_in_progress
          else if code = ''promotion_sequence_mismatch'' then target = Cs_sequence_mismatch
          else if code = ''promotion_source_mismatch'' then target = Cs_source_mismatch
          else if code = ''promotion_record_invalid'' then target = Cs_record_invalid
          else if code = ''already_promoted'' then target = Cs_already_promoted
          else if code = ''promotion_in_progress'' then target = Cs_promotion_in_progress
          else if code = ''promotion_not_ready'' then target = Cs_not_ready
          else if code = ''quiesce_failed_fenced'' then target = Cs_failed_fenced
          else False
      | _ \<Rightarrow> False)"

text \<open>The requests the methods send; \<open>url.PathEscape\<close> and the server's decoding give the key back.\<close>

definition put_request :: "bytes \<Rightarrow> bytes \<Rightarrow> kv_io \<Rightarrow> request" where
  "put_request key val io = Rq_kv ''PUT'' (ascii ''/kv/'' @ key) (Some (json_text val)) io"

definition get_request :: "bytes \<Rightarrow> kv_io \<Rightarrow> request" where
  "get_request key io = Rq_kv ''GET'' (ascii ''/kv/'' @ key) None io"

definition delete_request :: "bytes \<Rightarrow> kv_io \<Rightarrow> request" where
  "delete_request key io = Rq_kv ''DELETE'' (ascii ''/kv/'' @ key) None io"

end
