(* ===== verification/Gateway.thy ===== *)
theory Gateway
  imports Client Ring
begin

text \<open>
  The client-side gateway (\<open>internal/gateway/ring.go\<close>, \<open>client.go\<close>, \<open>types.go\<close>): a point ring over independent nodes and
  one client per node. The nodes behind the gateway are the argument \<open>net\<close>, from base URLs to the nodes that
  listen there; a call says whether it reaches its node and whether the answer comes back. \<open>srt\<close> is
  \<open>sort.Slice\<close>, which leaves the order of points with equal hashes open; the order in which Go iterates over
  the map of clients is an argument.
\<close>

section \<open>The ring\<close>

record gw_node =
  gn_id :: bytes
  gn_url :: bytes
  gn_weight :: int

datatype gw_error = GErrOptions | GErrKey | GErrUnknown | GErrClosed | GErrPanic | GErrClient client_error

record ring_point =
  gp_hash :: u64
  gp_node :: bytes

record hash_ring =
  hr_points :: "ring_point list"
  hr_nodes :: "gw_node list"

text \<open>The validation loop, with the ids and URLs seen so far.\<close>

fun check_gw_nodes :: "bytes list \<Rightarrow> bytes list \<Rightarrow> gw_node list \<Rightarrow> bool" where
  "check_gw_nodes ids urls [] = True"
| "check_gw_nodes ids urls (n # ns) =
     (if gn_id n = [] then False
      else if gn_url n = [] then False
      else if gn_id n \<in> set ids then False
      else if gn_url n \<in> set urls then False
      else check_gw_nodes (gn_id n # ids) (gn_url n # urls) ns)"

definition point_label :: "bytes \<Rightarrow> nat \<Rightarrow> bytes" where
  "point_label node i = node @ ascii '':'' @ ascii (decimal i)"

text \<open>The number of points of a node; the product is a 64-bit \<open>int\<close>.\<close>

definition point_count :: "int \<Rightarrow> gw_node \<Rightarrow> nat" where
  "point_count vn n = (let w = (if gn_weight n \<le> 0 then 1 else gn_weight n) in nat (sint (word_of_int (vn * w) :: 64 word)))"

definition node_points :: "int \<Rightarrow> gw_node \<Rightarrow> ring_point list" where
  "node_points vn n = map (\<lambda>i. \<lparr>gp_hash = fnv1a64 (point_label (gn_id n) i), gp_node = gn_id n\<rparr>) [0..<point_count vn n]"

definition new_hash_ring ::
    "(ring_point list \<Rightarrow> ring_point list) \<Rightarrow> gw_node list \<Rightarrow> int \<Rightarrow> gw_error + hash_ring" where
  "new_hash_ring srt nodes vn0 =
     (let vn = (if vn0 \<le> 0 then 128 else vn0) in
      if nodes = [] then Inl GErrOptions
      else if \<not> check_gw_nodes [] [] nodes then Inl GErrOptions
      else Inr \<lparr>hr_points = srt (concat (map (node_points vn) nodes)), hr_nodes = nodes\<rparr>)"

text \<open>\<open>None\<close> is the index panic on a ring without points.\<close>

definition point_lookup :: "ring_point list \<Rightarrow> bytes \<Rightarrow> bytes option" where
  "point_lookup ps key =
     (let h = fnv1a64 key;
          i = sort_search (length ps) (\<lambda>i. h \<le> gp_hash (ps ! i));
          i = (if i \<ge> length ps then 0 else i)
      in if i < length ps then Some (gp_node (ps ! i)) else None)"

text \<open>The index from ids to positions, and the entry it gives.\<close>

definition node_index :: "gw_node list \<Rightarrow> bytes \<Rightarrow> nat option" where
  "node_index nodes nid = map_of (rev (zip (map gn_id nodes) [0..<length nodes])) nid"

definition node_for_key :: "hash_ring \<Rightarrow> bytes \<Rightarrow> gw_error + gw_node" where
  "node_for_key ring key =
     (if key = [] then Inl GErrKey
      else
        (case point_lookup (hr_points ring) key of
           None \<Rightarrow> Inl GErrPanic
         | Some nid \<Rightarrow> Inr (hr_nodes ring ! (case node_index (hr_nodes ring) nid of None \<Rightarrow> 0 | Some i \<Rightarrow> i))))"

definition node_by_id :: "hash_ring \<Rightarrow> bytes \<Rightarrow> gw_error + gw_node" where
  "node_by_id ring nid =
     (case node_index (hr_nodes ring) nid of None \<Rightarrow> Inl GErrUnknown | Some i \<Rightarrow> Inr (hr_nodes ring ! i))"

section \<open>The gateway\<close>

record gw_options =
  go_nodes :: "gw_node list"
  go_virtual :: int

record gateway =
  gy_ring :: hash_ring
  gy_opts :: gw_options
  gy_closed :: bool

record routed_node =
  rn_id :: bytes
  rn_url :: bytes

record gw_stats =
  gs_count :: nat
  gs_virtual :: int
  gs_nodes :: "bytes list"

definition default_virtual :: int where "default_virtual = 128"

definition gateway_open :: "(ring_point list \<Rightarrow> ring_point list) \<Rightarrow> gw_options \<Rightarrow> gw_error + gateway" where
  "gateway_open srt opts =
     (if go_nodes opts = [] then Inl GErrOptions
      else
        (case new_hash_ring srt (go_nodes opts) (if go_virtual opts \<le> 0 then default_virtual else go_virtual opts) of
           Inl e \<Rightarrow> Inl e
         | Inr ring \<Rightarrow> Inr \<lparr>gy_ring = ring, gy_opts = opts, gy_closed = False\<rparr>))"

definition gateway_node_for_key :: "bytes \<Rightarrow> gateway \<Rightarrow> gw_error + routed_node" where
  "gateway_node_for_key key g =
     (if gy_closed g then Inl GErrClosed
      else map_sum id (\<lambda>nc. \<lparr>rn_id = gn_id nc, rn_url = gn_url nc\<rparr>) (node_for_key (gy_ring g) key))"

text \<open>The map of clients, from ids to the URLs they call.\<close>

definition client_url :: "gateway \<Rightarrow> bytes \<Rightarrow> bytes option" where
  "client_url g nid = map_option (\<lambda>i. gn_url (go_nodes (gy_opts g) ! i)) (node_index (go_nodes (gy_opts g)) nid)"

definition url_for_key :: "bytes \<Rightarrow> gateway \<Rightarrow> gw_error + bytes" where
  "url_for_key key g =
     (if gy_closed g then Inl GErrClosed
      else
        (case node_for_key (gy_ring g) key of
           Inl e \<Rightarrow> Inl e
         | Inr nc \<Rightarrow> (case client_url g (gn_id nc) of None \<Rightarrow> Inl GErrPanic | Some u \<Rightarrow> Inr u)))"

section \<open>The network\<close>

type_synonym network = "bytes \<Rightarrow> node option"

record call_io =
  ca_reached :: bool
  ca_answered :: bool

text \<open>Parameters \<open>c\<close> and \<open>r\<close> are those of the engine's Bloom filters.\<close>

definition call_node ::
    "(u64 \<Rightarrow> float64 \<Rightarrow> u64) \<Rightarrow> (u64 \<Rightarrow> u64 \<Rightarrow> int) \<Rightarrow> call_io \<Rightarrow> bytes \<Rightarrow> request \<Rightarrow> network \<Rightarrow> exchange \<times> network" where
  "call_node c r io url rq net =
     (case (if ca_reached io then net url else None) of
        None \<Rightarrow> (Ex_none, net)
      | Some n \<Rightarrow>
          (case serve c r rq n of
             (rep, n') \<Rightarrow> (if ca_answered io then exchange_of rep else Ex_none, net(url \<mapsto> n'))))"

definition gateway_put ::
    "(u64 \<Rightarrow> float64 \<Rightarrow> u64) \<Rightarrow> (u64 \<Rightarrow> u64 \<Rightarrow> int) \<Rightarrow> call_io \<Rightarrow> kv_io \<Rightarrow> bytes \<Rightarrow> bytes \<Rightarrow> gateway \<Rightarrow> network
     \<Rightarrow> gw_error option \<times> network" where
  "gateway_put c r io kio key val g net =
     (case url_for_key key g of
        Inl e \<Rightarrow> (Some e, net)
      | Inr u \<Rightarrow> (case call_node c r io u (put_request key val kio) net of (x, net') \<Rightarrow> (map_option GErrClient (client_put x), net')))"

definition gateway_get ::
    "(u64 \<Rightarrow> float64 \<Rightarrow> u64) \<Rightarrow> (u64 \<Rightarrow> u64 \<Rightarrow> int) \<Rightarrow> call_io \<Rightarrow> kv_io \<Rightarrow> bytes \<Rightarrow> gateway \<Rightarrow> network
     \<Rightarrow> (gw_error + bytes option) \<times> network" where
  "gateway_get c r io kio key g net =
     (case url_for_key key g of
        Inl e \<Rightarrow> (Inl e, net)
      | Inr u \<Rightarrow> (case call_node c r io u (get_request key kio) net of (x, net') \<Rightarrow> (map_sum GErrClient id (client_get x), net')))"

definition gateway_delete ::
    "(u64 \<Rightarrow> float64 \<Rightarrow> u64) \<Rightarrow> (u64 \<Rightarrow> u64 \<Rightarrow> int) \<Rightarrow> call_io \<Rightarrow> kv_io \<Rightarrow> bytes \<Rightarrow> gateway \<Rightarrow> network
     \<Rightarrow> gw_error option \<times> network" where
  "gateway_delete c r io kio key g net =
     (case url_for_key key g of
        Inl e \<Rightarrow> (Some e, net)
      | Inr u \<Rightarrow> (case call_node c r io u (delete_request key kio) net of (x, net') \<Rightarrow> (map_option GErrClient (client_delete x), net')))"

text \<open>\<open>ForwardToNode\<close> and \<open>ScanNode\<close>.\<close>

definition forward_to_node ::
    "(u64 \<Rightarrow> float64 \<Rightarrow> u64) \<Rightarrow> (u64 \<Rightarrow> u64 \<Rightarrow> int) \<Rightarrow> call_io \<Rightarrow> bytes \<Rightarrow> request \<Rightarrow> gateway \<Rightarrow> network
     \<Rightarrow> (gw_error + reply_body) \<times> network" where
  "forward_to_node c r io nid rq g net =
     (if gy_closed g then (Inl GErrClosed, net)
      else
        (case client_url g nid of
           None \<Rightarrow> (Inl GErrUnknown, net)
         | Some u \<Rightarrow> (case call_node c r io u rq net of (x, net') \<Rightarrow> (map_sum GErrClient (\<lambda>b. b) (client_do x), net'))))"

definition gateway_scan_node ::
    "(u64 \<Rightarrow> float64 \<Rightarrow> u64) \<Rightarrow> (u64 \<Rightarrow> u64 \<Rightarrow> int) \<Rightarrow> call_io \<Rightarrow> bytes \<Rightarrow> bytes \<Rightarrow> bytes \<Rightarrow> gateway \<Rightarrow> network
     \<Rightarrow> (gw_error + (bytes \<times> bytes) list) \<times> network" where
  "gateway_scan_node c r io nid start end' g net =
     (if gy_closed g then (Inl GErrClosed, net)
      else
        (case client_url g nid of
           None \<Rightarrow> (Inl GErrUnknown, net)
         | Some u \<Rightarrow>
             (case call_node c r io u (Rq_scan ''GET'' start end') net of (x, net') \<Rightarrow> (map_sum GErrClient (\<lambda>es. es) (client_scan x), net'))))"

text \<open>The loops over the clients: \<open>order\<close> lists the ids in the order of the iteration, \<open>ios\<close> what happens to each
  call. The first error is kept, every node is called.\<close>

fun each_client ::
    "(u64 \<Rightarrow> float64 \<Rightarrow> u64) \<Rightarrow> (u64 \<Rightarrow> u64 \<Rightarrow> int) \<Rightarrow> (bytes \<Rightarrow> call_io) \<Rightarrow> (bytes \<Rightarrow> request) \<Rightarrow> gateway \<Rightarrow> bytes list \<Rightarrow> network
     \<Rightarrow> (bytes \<times> exchange) list \<times> network" where
  "each_client c r io rq g [] net = ([], net)"
| "each_client c r io rq g (nid # ids) net =
     (case client_url g nid of
        None \<Rightarrow> each_client c r io rq g ids net
      | Some u \<Rightarrow>
          (case call_node c r (io nid) u (rq nid) net of
             (x, net') \<Rightarrow> (case each_client c r io rq g ids net' of (xs, net'') \<Rightarrow> ((nid, x) # xs, net''))))"

definition first_failure :: "(exchange \<Rightarrow> client_error option) \<Rightarrow> (bytes \<times> exchange) list \<Rightarrow> gw_error option" where
  "first_failure f xs = (case find (\<lambda>(nid, x). f x \<noteq> None) xs of None \<Rightarrow> None | Some (nid, x) \<Rightarrow> map_option GErrClient (f x))"

definition gateway_flush_all ::
    "(u64 \<Rightarrow> float64 \<Rightarrow> u64) \<Rightarrow> (u64 \<Rightarrow> u64 \<Rightarrow> int) \<Rightarrow> bytes list \<Rightarrow> (bytes \<Rightarrow> call_io) \<Rightarrow> (bytes \<Rightarrow> io_fault option) \<Rightarrow> gateway \<Rightarrow> network
     \<Rightarrow> gw_error option \<times> network" where
  "gateway_flush_all c r order io faults g net =
     (if gy_closed g then (Some GErrClosed, net)
      else
        (case each_client c r io (\<lambda>nid. Rq_flush ''POST'' (faults nid)) g order net of
           (xs, net') \<Rightarrow> (first_failure client_flush xs, net')))"

definition gateway_compact_all ::
    "(u64 \<Rightarrow> float64 \<Rightarrow> u64) \<Rightarrow> (u64 \<Rightarrow> u64 \<Rightarrow> int) \<Rightarrow> bytes list \<Rightarrow> (bytes \<Rightarrow> call_io) \<Rightarrow> (bytes \<Rightarrow> io_fault option) \<Rightarrow> gateway \<Rightarrow> network
     \<Rightarrow> gw_error option \<times> network" where
  "gateway_compact_all c r order io faults g net =
     (if gy_closed g then (Some GErrClosed, net)
      else
        (case each_client c r io (\<lambda>nid. Rq_compact ''POST'' (faults nid)) g order net of
           (xs, net') \<Rightarrow> (first_failure client_compact xs, net')))"

definition gateway_health_all ::
    "(u64 \<Rightarrow> float64 \<Rightarrow> u64) \<Rightarrow> (u64 \<Rightarrow> u64 \<Rightarrow> int) \<Rightarrow> bytes list \<Rightarrow> (bytes \<Rightarrow> call_io) \<Rightarrow> gateway \<Rightarrow> network
     \<Rightarrow> (bytes \<times> gw_error option) list \<times> network" where
  "gateway_health_all c r order io g net =
     (if gy_closed g then (map (\<lambda>nid. (nid, Some GErrClosed)) order, net)
      else
        (case each_client c r io (\<lambda>_. Rq_health ''GET'') g order net of
           (xs, net') \<Rightarrow> (map (\<lambda>(nid, x). (nid, map_option GErrClient (client_health x))) xs, net')))"

definition forward_to_all ::
    "(u64 \<Rightarrow> float64 \<Rightarrow> u64) \<Rightarrow> (u64 \<Rightarrow> u64 \<Rightarrow> int) \<Rightarrow> bytes list \<Rightarrow> (bytes \<Rightarrow> call_io) \<Rightarrow> request \<Rightarrow> gateway \<Rightarrow> network
     \<Rightarrow> (bytes \<times> (gw_error + reply_body)) list \<times> network" where
  "forward_to_all c r order io rq g net =
     (if gy_closed g then (map (\<lambda>nid. (nid, Inl GErrClosed)) order, net)
      else
        (case each_client c r io (\<lambda>_. rq) g order net of
           (xs, net') \<Rightarrow> (map (\<lambda>(nid, x). (nid, map_sum GErrClient (\<lambda>b. b) (client_do x))) xs, net')))"

definition gateway_stats :: "gateway \<Rightarrow> gw_stats" where
  "gateway_stats g =
     \<lparr>gs_count = length (hr_nodes (gy_ring g)),
      gs_virtual = (if go_virtual (gy_opts g) \<le> 0 then default_virtual else go_virtual (gy_opts g)),
      gs_nodes = map gn_id (hr_nodes (gy_ring g))\<rparr>"

definition gateway_close :: "gateway \<Rightarrow> gateway" where "gateway_close g = g\<lparr>gy_closed := True\<rparr>"

end
