(* ===== verification/Proxy.thy ===== *)
theory Proxy
  imports Gateway
begin

text \<open>
  The proxy (\<open>internal/proxy/server.go\<close>, \<open>handlers.go\<close>, \<open>types.go\<close>): an HTTP face of one gateway. A handler is a
  function from the method, the decoded path, query or body, what happens to the calls behind it and the nodes behind
  the gateway to the reply and the nodes. Constant fields (the scope flags), error texts and the start time
  are left out.
\<close>

section \<open>The server\<close>

record proxy_options =
  xo_addr :: bytes
  xo_nodes :: "gw_node list"
  xo_virtual :: int

datatype proxy_error = PErrOptions | PErrClosed | PErrListen | PErrGateway gw_error

record proxy =
  px_addr :: bytes
  px_gw :: gateway
  px_bound :: "bytes option"
  px_closed :: bool

definition default_proxy_addr :: bytes where "default_proxy_addr = ascii ''127.0.0.1:9200''"

definition proxy_open :: "(ring_point list \<Rightarrow> ring_point list) \<Rightarrow> proxy_options \<Rightarrow> proxy_error + proxy" where
  "proxy_open srt opts =
     (if xo_nodes opts = [] then Inl PErrOptions
      else
        (case gateway_open srt \<lparr>go_nodes = xo_nodes opts, go_virtual = (if xo_virtual opts \<le> 0 then default_virtual else xo_virtual opts)\<rparr> of
           Inl e \<Rightarrow> Inl (PErrGateway e)
         | Inr g \<Rightarrow>
             Inr \<lparr>px_addr = (if xo_addr opts = [] then default_proxy_addr else xo_addr opts), px_gw = g, px_bound = None,
                  px_closed = False\<rparr>))"

definition proxy_address :: "proxy \<Rightarrow> bytes" where
  "proxy_address p = (case px_bound p of Some a \<Rightarrow> a | None \<Rightarrow> px_addr p)"

definition proxy_start :: "bytes option \<Rightarrow> proxy \<Rightarrow> proxy_error option \<times> proxy" where
  "proxy_start bound p =
     (if px_closed p then (Some PErrClosed, p)
      else (case bound of None \<Rightarrow> (Some PErrListen, p) | Some a \<Rightarrow> (None, p\<lparr>px_bound := Some a\<rparr>)))"

definition proxy_close :: "proxy \<Rightarrow> proxy" where
  "proxy_close p = (if px_closed p then p else p\<lparr>px_closed := True, px_gw := gateway_close (px_gw p)\<rparr>)"

section \<open>Handlers\<close>

datatype proxy_body = Pb_error | Pb_health | Pb_status bytes gw_stats | Pb_route bytes routed_node | Pb_written bytes routed_node
  | Pb_got bytes "bytes option" routed_node | Pb_scanned bytes "(bytes \<times> bytes) list" | Pb_nodes nat
  | Pb_healths "(bytes \<times> bool) list" | Pb_forwards "(bytes \<times> reply_body option) list" | Pb_forward reply_body

text \<open>\<open>Px_aborted\<close> is a handler that panics.\<close>

datatype proxy_reply = Px_reply nat proxy_body | Px_aborted

definition px_not_allowed :: proxy_reply where "px_not_allowed = Px_reply 405 Pb_error"

definition backend_error_code :: "gw_error \<Rightarrow> nat" where
  "backend_error_code e = (case e of GErrKey \<Rightarrow> 400 | GErrUnknown \<Rightarrow> 400 | GErrClosed \<Rightarrow> 503 | _ \<Rightarrow> 502)"

definition backend_error :: "gw_error \<Rightarrow> proxy_reply" where
  "backend_error e = (if e = GErrPanic then Px_aborted else Px_reply (backend_error_code e) Pb_error)"

definition no_route :: routed_node where "no_route = \<lparr>rn_id = [], rn_url = []\<rparr>"

definition routed :: "bytes \<Rightarrow> proxy \<Rightarrow> routed_node" where
  "routed key p = (case gateway_node_for_key key (px_gw p) of Inl _ \<Rightarrow> no_route | Inr rn \<Rightarrow> rn)"

definition px_healthz :: "string \<Rightarrow> proxy_reply" where
  "px_healthz m = (if m \<noteq> ''GET'' then px_not_allowed else Px_reply 200 Pb_health)"

definition px_status :: "string \<Rightarrow> proxy \<Rightarrow> proxy_reply" where
  "px_status m p = (if m \<noteq> ''GET'' then px_not_allowed else Px_reply 200 (Pb_status (proxy_address p) (gateway_stats (px_gw p))))"

definition px_route :: "string \<Rightarrow> bytes \<Rightarrow> proxy \<Rightarrow> proxy_reply" where
  "px_route m path p =
     (if m \<noteq> ''GET'' then px_not_allowed
      else
        let key = trim_prefix (ascii ''/route/'') path in
        if key = [] then Px_reply 400 Pb_error
        else
          (case gateway_node_for_key key (px_gw p) of
             Inl e \<Rightarrow> if e = GErrPanic then Px_aborted else Px_reply 400 Pb_error
           | Inr rn \<Rightarrow> Px_reply 200 (Pb_route key rn)))"

definition px_put ::
    "(u64 \<Rightarrow> float64 \<Rightarrow> u64) \<Rightarrow> (u64 \<Rightarrow> u64 \<Rightarrow> int) \<Rightarrow> call_io \<Rightarrow> kv_io \<Rightarrow> bytes option \<Rightarrow> bytes \<Rightarrow> proxy \<Rightarrow> network
     \<Rightarrow> proxy_reply \<times> network" where
  "px_put c r io kio body key p net =
     (case body of
        None \<Rightarrow> (Px_reply 400 Pb_error, net)
      | Some val \<Rightarrow>
          (case gateway_put c r io kio key val (px_gw p) net of
             (Some e, net') \<Rightarrow> (backend_error e, net')
           | (None, net') \<Rightarrow> (Px_reply 200 (Pb_written key (routed key p)), net')))"

definition px_get ::
    "(u64 \<Rightarrow> float64 \<Rightarrow> u64) \<Rightarrow> (u64 \<Rightarrow> u64 \<Rightarrow> int) \<Rightarrow> call_io \<Rightarrow> kv_io \<Rightarrow> bytes \<Rightarrow> proxy \<Rightarrow> network \<Rightarrow> proxy_reply \<times> network" where
  "px_get c r io kio key p net =
     (case gateway_get c r io kio key (px_gw p) net of
        (Inl e, net') \<Rightarrow> (backend_error e, net')
      | (Inr v, net') \<Rightarrow> (Px_reply 200 (Pb_got key v (routed key p)), net'))"

definition px_delete ::
    "(u64 \<Rightarrow> float64 \<Rightarrow> u64) \<Rightarrow> (u64 \<Rightarrow> u64 \<Rightarrow> int) \<Rightarrow> call_io \<Rightarrow> kv_io \<Rightarrow> bytes \<Rightarrow> proxy \<Rightarrow> network \<Rightarrow> proxy_reply \<times> network" where
  "px_delete c r io kio key p net =
     (case gateway_delete c r io kio key (px_gw p) net of
        (Some e, net') \<Rightarrow> (backend_error e, net')
      | (None, net') \<Rightarrow> (Px_reply 200 (Pb_written key (routed key p)), net'))"

definition px_kv ::
    "(u64 \<Rightarrow> float64 \<Rightarrow> u64) \<Rightarrow> (u64 \<Rightarrow> u64 \<Rightarrow> int) \<Rightarrow> call_io \<Rightarrow> kv_io \<Rightarrow> string \<Rightarrow> bytes \<Rightarrow> bytes option \<Rightarrow> proxy \<Rightarrow> network
     \<Rightarrow> proxy_reply \<times> network" where
  "px_kv c r io kio m path body p net =
     (let key = trim_prefix (ascii ''/kv/'') path in
      if key = [] then (Px_reply 400 Pb_error, net)
      else if m = ''PUT'' then px_put c r io kio body key p net
      else if m = ''GET'' then px_get c r io kio key p net
      else if m = ''DELETE'' then px_delete c r io kio key p net
      else (px_not_allowed, net))"

definition px_scan_node ::
    "(u64 \<Rightarrow> float64 \<Rightarrow> u64) \<Rightarrow> (u64 \<Rightarrow> u64 \<Rightarrow> int) \<Rightarrow> call_io \<Rightarrow> string \<Rightarrow> bytes \<Rightarrow> bytes \<Rightarrow> bytes \<Rightarrow> proxy \<Rightarrow> network
     \<Rightarrow> proxy_reply \<times> network" where
  "px_scan_node c r io m path start end' p net =
     (if m \<noteq> ''GET'' then (px_not_allowed, net)
      else
        let nid = trim_prefix (ascii ''/scan-node/'') path in
        if nid = [] then (Px_reply 400 Pb_error, net)
        else
          (case gateway_scan_node c r io nid start end' (px_gw p) net of
             (Inl e, net') \<Rightarrow> (Px_reply (if e = GErrUnknown then 404 else 400) Pb_error, net')
           | (Inr es, net') \<Rightarrow> (Px_reply 200 (Pb_scanned nid es), net')))"

definition px_flush_all ::
    "(u64 \<Rightarrow> float64 \<Rightarrow> u64) \<Rightarrow> (u64 \<Rightarrow> u64 \<Rightarrow> int) \<Rightarrow> bytes list \<Rightarrow> (bytes \<Rightarrow> call_io) \<Rightarrow> (bytes \<Rightarrow> io_fault option) \<Rightarrow> string \<Rightarrow> proxy
     \<Rightarrow> network \<Rightarrow> proxy_reply \<times> network" where
  "px_flush_all c r order io faults m p net =
     (if m \<noteq> ''POST'' then (px_not_allowed, net)
      else
        (case gateway_flush_all c r order io faults (px_gw p) net of
           (Some _, net') \<Rightarrow> (Px_reply 502 Pb_error, net')
         | (None, net') \<Rightarrow> (Px_reply 200 (Pb_nodes (gs_count (gateway_stats (px_gw p)))), net')))"

definition px_compact_all ::
    "(u64 \<Rightarrow> float64 \<Rightarrow> u64) \<Rightarrow> (u64 \<Rightarrow> u64 \<Rightarrow> int) \<Rightarrow> bytes list \<Rightarrow> (bytes \<Rightarrow> call_io) \<Rightarrow> (bytes \<Rightarrow> io_fault option) \<Rightarrow> string \<Rightarrow> proxy
     \<Rightarrow> network \<Rightarrow> proxy_reply \<times> network" where
  "px_compact_all c r order io faults m p net =
     (if m \<noteq> ''POST'' then (px_not_allowed, net)
      else
        (case gateway_compact_all c r order io faults (px_gw p) net of
           (Some _, net') \<Rightarrow> (Px_reply 502 Pb_error, net')
         | (None, net') \<Rightarrow> (Px_reply 200 (Pb_nodes (gs_count (gateway_stats (px_gw p)))), net')))"

definition px_nodes_health ::
    "(u64 \<Rightarrow> float64 \<Rightarrow> u64) \<Rightarrow> (u64 \<Rightarrow> u64 \<Rightarrow> int) \<Rightarrow> bytes list \<Rightarrow> (bytes \<Rightarrow> call_io) \<Rightarrow> string \<Rightarrow> proxy \<Rightarrow> network \<Rightarrow> proxy_reply \<times> network" where
  "px_nodes_health c r order io m p net =
     (if m \<noteq> ''GET'' then (px_not_allowed, net)
      else
        (case gateway_health_all c r order io (px_gw p) net of
           (xs, net') \<Rightarrow> (Px_reply 200 (Pb_healths (sort_key fst (map (\<lambda>(nid, e). (nid, e = None)) xs))), net')))"

definition px_replication_status ::
    "(u64 \<Rightarrow> float64 \<Rightarrow> u64) \<Rightarrow> (u64 \<Rightarrow> u64 \<Rightarrow> int) \<Rightarrow> bytes list \<Rightarrow> (bytes \<Rightarrow> call_io) \<Rightarrow> string \<Rightarrow> proxy \<Rightarrow> network \<Rightarrow> proxy_reply \<times> network" where
  "px_replication_status c r order io m p net =
     (if m \<noteq> ''GET'' then (px_not_allowed, net)
      else
        (case forward_to_all c r order io (Rq_replication ''GET'') (px_gw p) net of
           (xs, net') \<Rightarrow>
             (Px_reply 200 (Pb_forwards (sort_key fst (map (\<lambda>(nid, x). (nid, case x of Inl _ \<Rightarrow> None | Inr b \<Rightarrow> Some b)) xs))), net')))"

definition px_sync_node ::
    "(u64 \<Rightarrow> float64 \<Rightarrow> u64) \<Rightarrow> (u64 \<Rightarrow> u64 \<Rightarrow> int) \<Rightarrow> call_io \<Rightarrow> wire_answer \<Rightarrow> sync_io \<Rightarrow> string \<Rightarrow> bytes \<Rightarrow> proxy \<Rightarrow> network
     \<Rightarrow> proxy_reply \<times> network" where
  "px_sync_node c r io wire sio m path p net =
     (if m \<noteq> ''POST'' then (px_not_allowed, net)
      else
        let nid = trim_prefix (ascii ''/replication/sync-node/'') path in
        if nid = [] then (Px_reply 400 Pb_error, net)
        else
          (case forward_to_node c r io nid (Rq_sync ''POST'' wire sio) (px_gw p) net of
             (Inl e, net') \<Rightarrow> (Px_reply (if e = GErrUnknown then 404 else 502) Pb_error, net')
           | (Inr b, net') \<Rightarrow> (Px_reply 200 (Pb_forward b), net')))"

definition px_not_found :: proxy_reply where "px_not_found = Px_reply 404 Pb_error"

section \<open>The routes\<close>

datatype proxy_request = Xq_health string | Xq_status string | Xq_route string bytes
  | Xq_kv string bytes "bytes option" call_io kv_io | Xq_scan_node string bytes bytes bytes call_io
  | Xq_flush_all string "bytes list" "bytes \<Rightarrow> call_io" "bytes \<Rightarrow> io_fault option"
  | Xq_compact_all string "bytes list" "bytes \<Rightarrow> call_io" "bytes \<Rightarrow> io_fault option"
  | Xq_nodes_health string "bytes list" "bytes \<Rightarrow> call_io" | Xq_replication string "bytes list" "bytes \<Rightarrow> call_io"
  | Xq_sync_node string bytes call_io wire_answer sync_io | Xq_other

fun proxy_serve ::
    "(u64 \<Rightarrow> float64 \<Rightarrow> u64) \<Rightarrow> (u64 \<Rightarrow> u64 \<Rightarrow> int) \<Rightarrow> proxy_request \<Rightarrow> proxy \<Rightarrow> network \<Rightarrow> proxy_reply \<times> network" where
  "proxy_serve c r (Xq_health m) p net = (px_healthz m, net)"
| "proxy_serve c r (Xq_status m) p net = (px_status m p, net)"
| "proxy_serve c r (Xq_route m path) p net = (px_route m path p, net)"
| "proxy_serve c r (Xq_kv m path body io kio) p net = px_kv c r io kio m path body p net"
| "proxy_serve c r (Xq_scan_node m path start end' io) p net = px_scan_node c r io m path start end' p net"
| "proxy_serve c r (Xq_flush_all m order io faults) p net = px_flush_all c r order io faults m p net"
| "proxy_serve c r (Xq_compact_all m order io faults) p net = px_compact_all c r order io faults m p net"
| "proxy_serve c r (Xq_nodes_health m order io) p net = px_nodes_health c r order io m p net"
| "proxy_serve c r (Xq_replication m order io) p net = px_replication_status c r order io m p net"
| "proxy_serve c r (Xq_sync_node m path io wire sio) p net = px_sync_node c r io wire sio m path p net"
| "proxy_serve c r Xq_other p net = (px_not_found, net)"

end
