(* ===== verification/Cluster.thy ===== *)
theory Cluster
  imports Proxy
begin

text \<open>
  The static cluster configuration (\<open>internal/cluster\<close>): its types, defaults, validation, loading, and the options for
  a gateway and a proxy that it generates. A JSON document is what the decoder makes of it (\<open>None\<close>: it does not decode);
  error texts are left out.
\<close>

section \<open>Types\<close>

record cl_replication =
  cr_enabled :: bool
  cr_role :: bytes
  cr_primary :: bytes

record cl_node =
  cn_id :: bytes
  cn_url :: bytes
  cn_addr :: bytes
  cn_dir :: bytes
  cn_weight :: int
  cn_rep :: cl_replication

record cl_routing =
  cg_algorithm :: bytes
  cg_virtual :: int

record cl_proxy =
  cp_enabled :: bool
  cp_addr :: bytes

record cl_scope =
  sc_static :: bool
  sc_no_membership :: bool
  sc_no_discovery :: bool
  sc_no_consensus :: bool
  sc_no_raft :: bool
  sc_no_replication :: bool
  sc_no_quorum :: bool
  sc_no_failover :: bool
  sc_no_migration :: bool
  sc_no_txns :: bool

record cl_config =
  cf_version :: bytes
  cf_name :: bytes
  cf_routing :: cl_routing
  cf_proxy :: cl_proxy
  cf_nodes :: "cl_node list"
  cf_scope :: cl_scope

datatype cl_error = CfgErrInvalid | CfgErrVersion | CfgErrRouting | CfgErrFile

definition cl_version :: bytes where "cl_version = ascii ''v1''"
definition cl_algorithm :: bytes where "cl_algorithm = ascii ''fnv1a-consistent-hash''"
definition cl_default_virtual :: int where "cl_default_virtual = 128"
definition cl_default_addr :: bytes where "cl_default_addr = ascii ''127.0.0.1:9200''"

section \<open>Defaults\<close>

definition default_scope :: cl_scope where
  "default_scope = \<lparr>sc_static = True, sc_no_membership = True, sc_no_discovery = True, sc_no_consensus = True, sc_no_raft = True,
     sc_no_replication = True, sc_no_quorum = False, sc_no_failover = True, sc_no_migration = True, sc_no_txns = True\<rparr>"

definition default_replica_scope :: cl_scope where
  "default_replica_scope = \<lparr>sc_static = True, sc_no_membership = True, sc_no_discovery = True, sc_no_consensus = True, sc_no_raft = True,
     sc_no_replication = False, sc_no_quorum = True, sc_no_failover = True, sc_no_migration = True, sc_no_txns = True\<rparr>"

definition has_replication_enabled :: "cl_node list \<Rightarrow> bool" where
  "has_replication_enabled ns = list_ex (\<lambda>n. cr_enabled (cn_rep n)) ns"

definition scope_unset :: "cl_scope \<Rightarrow> bool" where
  "scope_unset s \<longleftrightarrow> \<not> sc_static s \<and> \<not> sc_no_membership s \<and> \<not> sc_no_discovery s \<and> \<not> sc_no_consensus s \<and> \<not> sc_no_raft s
     \<and> \<not> sc_no_replication s \<and> \<not> sc_no_quorum s \<and> \<not> sc_no_failover s \<and> \<not> sc_no_migration s \<and> \<not> sc_no_txns s"

definition normalize_node :: "cl_node \<Rightarrow> cl_node" where
  "normalize_node n = (if cn_weight n \<le> 0 then n\<lparr>cn_weight := 1\<rparr> else n)"

definition normalize :: "cl_config \<Rightarrow> cl_config" where
  "normalize c0 =
     (let c1 = (if cg_virtual (cf_routing c0) \<le> 0 then c0\<lparr>cf_routing := (cf_routing c0)\<lparr>cg_virtual := cl_default_virtual\<rparr>\<rparr> else c0);
          c2 = (if cp_addr (cf_proxy c1) = [] then c1\<lparr>cf_proxy := (cf_proxy c1)\<lparr>cp_addr := cl_default_addr\<rparr>\<rparr> else c1);
          c3 = c2\<lparr>cf_nodes := map normalize_node (cf_nodes c2)\<rparr> in
      if scope_unset (cf_scope c3)
      then c3\<lparr>cf_scope := (if has_replication_enabled (cf_nodes c3) then default_replica_scope else default_scope)\<rparr>
      else c3)"

definition default_config :: "bytes \<Rightarrow> cl_node list \<Rightarrow> cl_config" where
  "default_config name nodes =
     normalize \<lparr>cf_version = cl_version, cf_name = name, cf_routing = \<lparr>cg_algorithm = cl_algorithm, cg_virtual = cl_default_virtual\<rparr>,
       cf_proxy = \<lparr>cp_enabled = False, cp_addr = cl_default_addr\<rparr>, cf_nodes = nodes, cf_scope = default_scope\<rparr>"

definition default_replica_config :: "bytes \<Rightarrow> cl_node list \<Rightarrow> cl_config" where
  "default_replica_config name nodes =
     normalize \<lparr>cf_version = cl_version, cf_name = name, cf_routing = \<lparr>cg_algorithm = cl_algorithm, cg_virtual = cl_default_virtual\<rparr>,
       cf_proxy = \<lparr>cp_enabled = False, cp_addr = cl_default_addr\<rparr>, cf_nodes = nodes, cf_scope = default_replica_scope\<rparr>"

definition no_replication :: cl_replication where
  "no_replication = \<lparr>cr_enabled = False, cr_role = [], cr_primary = []\<rparr>"

definition example_local_3node :: cl_config where
  "example_local_3node = default_config (ascii ''local-3node'')
     [\<lparr>cn_id = ascii ''node-1'', cn_url = ascii ''http://127.0.0.1:9101'', cn_addr = ascii ''127.0.0.1:9101'',
       cn_dir = ascii ''/tmp/shardforge-node-1'', cn_weight = 0, cn_rep = no_replication\<rparr>,
      \<lparr>cn_id = ascii ''node-2'', cn_url = ascii ''http://127.0.0.1:9102'', cn_addr = ascii ''127.0.0.1:9102'',
       cn_dir = ascii ''/tmp/shardforge-node-2'', cn_weight = 0, cn_rep = no_replication\<rparr>,
      \<lparr>cn_id = ascii ''node-3'', cn_url = ascii ''http://127.0.0.1:9103'', cn_addr = ascii ''127.0.0.1:9103'',
       cn_dir = ascii ''/tmp/shardforge-node-3'', cn_weight = 0, cn_rep = no_replication\<rparr>]"

definition example_replica_3node :: cl_config where
  "example_replica_3node =
     (let c = default_replica_config (ascii ''local-read-replica-3node'')
        [\<lparr>cn_id = ascii ''node-primary'', cn_url = ascii ''http://127.0.0.1:9111'', cn_addr = ascii ''127.0.0.1:9111'',
          cn_dir = ascii ''/tmp/shardforge-primary'', cn_weight = 0,
          cn_rep = \<lparr>cr_enabled = True, cr_role = ascii ''primary'', cr_primary = []\<rparr>\<rparr>,
         \<lparr>cn_id = ascii ''node-replica-1'', cn_url = ascii ''http://127.0.0.1:9112'', cn_addr = ascii ''127.0.0.1:9112'',
          cn_dir = ascii ''/tmp/shardforge-replica-1'', cn_weight = 0,
          cn_rep = \<lparr>cr_enabled = True, cr_role = ascii ''follower'', cr_primary = ascii ''node-primary''\<rparr>\<rparr>,
         \<lparr>cn_id = ascii ''node-replica-2'', cn_url = ascii ''http://127.0.0.1:9113'', cn_addr = ascii ''127.0.0.1:9113'',
          cn_dir = ascii ''/tmp/shardforge-replica-2'', cn_weight = 0,
          cn_rep = \<lparr>cr_enabled = True, cr_role = ascii ''follower'', cr_primary = ascii ''node-primary''\<rparr>\<rparr>]
      in c\<lparr>cf_proxy := (cf_proxy c)\<lparr>cp_addr := ascii ''127.0.0.1:9210''\<rparr>\<rparr>)"

section \<open>Validation\<close>

definition has_prefix :: "bytes \<Rightarrow> bytes \<Rightarrow> bool" where
  "has_prefix s p \<longleftrightarrow> take (length p) s = p"

fun has_dots :: "bytes \<Rightarrow> bool" where
  "has_dots (a # b # s) = (if a = 46 \<and> b = 46 then True else has_dots (b # s))"
| "has_dots _ = False"

text \<open>The loop over the nodes, with the ids and base URLs seen so far.\<close>

fun validate_nodes :: "bytes list \<Rightarrow> bytes list \<Rightarrow> cl_node list \<Rightarrow> bool" where
  "validate_nodes ids urls [] = True"
| "validate_nodes ids urls (n # ns) =
     (if cn_id n = [] then False
      else if cn_url n = [] then False
      else if \<not> has_prefix (cn_url n) (ascii ''http://'') \<and> \<not> has_prefix (cn_url n) (ascii ''https://'') then False
      else if cn_id n \<in> set ids then False
      else if cn_url n \<in> set urls then False
      else if cn_weight n \<le> 0 then False
      else if cn_dir n \<noteq> [] \<and> has_dots (cn_dir n) then False
      else validate_nodes (cn_id n # ids) (cn_url n # urls) ns)"

text \<open>The number of primaries, or \<open>None\<close> for a node that is refused.\<close>

fun count_primaries :: "bytes list \<Rightarrow> cl_node list \<Rightarrow> nat option" where
  "count_primaries ids [] = Some 0"
| "count_primaries ids (n # ns) =
     (if \<not> cr_enabled (cn_rep n) then count_primaries ids ns
      else if cr_role (cn_rep n) = ascii ''primary'' then map_option Suc (count_primaries ids ns)
      else if cr_role (cn_rep n) = ascii ''follower''
        then (if cr_primary (cn_rep n) = [] then None
              else if cr_primary (cn_rep n) \<notin> set ids then None
              else count_primaries ids ns)
      else None)"

definition validate_cl_replication :: "cl_node list \<Rightarrow> bool" where
  "validate_cl_replication ns =
     (if \<not> has_replication_enabled ns then True else count_primaries (map cn_id ns) ns = Some 1)"

definition validate_config :: "cl_config \<Rightarrow> cl_error option" where
  "validate_config c =
     (let s = cf_scope c in
      if cf_version c \<noteq> cl_version then Some CfgErrVersion
      else if cf_name c = [] then Some CfgErrInvalid
      else if cg_algorithm (cf_routing c) \<noteq> cl_algorithm then Some CfgErrRouting
      else if cg_virtual (cf_routing c) \<le> 0 then Some CfgErrInvalid
      else if cf_nodes c = [] then Some CfgErrInvalid
      else if \<not> validate_nodes [] [] (cf_nodes c) then Some CfgErrInvalid
      else if \<not> validate_cl_replication (cf_nodes c) then Some CfgErrInvalid
      else if \<not> sc_static s then Some CfgErrInvalid
      else if \<not> sc_no_membership s then Some CfgErrInvalid
      else if \<not> sc_no_discovery s then Some CfgErrInvalid
      else if \<not> sc_no_consensus s then Some CfgErrInvalid
      else if \<not> sc_no_raft s then Some CfgErrInvalid
      else if has_replication_enabled (cf_nodes c) \<and> sc_no_replication s then Some CfgErrInvalid
      else if has_replication_enabled (cf_nodes c) \<and> \<not> sc_no_quorum s then Some CfgErrInvalid
      else if \<not> has_replication_enabled (cf_nodes c) \<and> \<not> sc_no_replication s then Some CfgErrInvalid
      else if \<not> sc_no_failover s then Some CfgErrInvalid
      else if \<not> sc_no_migration s then Some CfgErrInvalid
      else if \<not> sc_no_txns s then Some CfgErrInvalid
      else None)"

section \<open>Loading\<close>

definition parse_config :: "cl_config option \<Rightarrow> cl_error + cl_config" where
  "parse_config decoded =
     (case decoded of
        None \<Rightarrow> Inl CfgErrInvalid
      | Some c0 \<Rightarrow> (let c = normalize c0 in case validate_config c of Some e \<Rightarrow> Inl e | None \<Rightarrow> Inr c))"

text \<open>\<open>Load\<close>: the file may be unreadable.\<close>

definition load_config :: "cl_config option option \<Rightarrow> cl_error + cl_config" where
  "load_config contents = (case contents of None \<Rightarrow> Inl CfgErrFile | Some decoded \<Rightarrow> parse_config decoded)"

section \<open>Options for the gateway and the proxy\<close>

definition node_configs :: "cl_config \<Rightarrow> cl_error + gw_node list" where
  "node_configs c =
     (case validate_config c of
        Some e \<Rightarrow> Inl e
      | None \<Rightarrow> Inr (map (\<lambda>n. \<lparr>gn_id = cn_id n, gn_url = cn_url n, gn_weight = cn_weight n\<rparr>) (cf_nodes c)))"

definition gateway_options :: "cl_config \<Rightarrow> cl_error + gw_options" where
  "gateway_options c =
     (case node_configs c of Inl e \<Rightarrow> Inl e | Inr ns \<Rightarrow> Inr \<lparr>go_nodes = ns, go_virtual = cg_virtual (cf_routing c)\<rparr>)"

definition proxy_options_of :: "cl_config \<Rightarrow> cl_error + proxy_options" where
  "proxy_options_of c =
     (case node_configs c of
        Inl e \<Rightarrow> Inl e
      | Inr ns \<Rightarrow>
          Inr \<lparr>xo_addr = (if cp_addr (cf_proxy c) = [] then cl_default_addr else cp_addr (cf_proxy c)), xo_nodes = ns,
               xo_virtual = cg_virtual (cf_routing c)\<rparr>)"

end
