(* ===== verification/Ops.thy ===== *)
theory Ops
  imports Cluster "HOL-Library.List_Lexorder"
begin

text \<open>
  The operations layer (\<open>internal/ops\<close>): health checks over the nodes of a configuration, the simulation of failed nodes and the
  plan of a manual rebalance, both by routing sample keys on two gateways. Timestamps, latencies, error
  texts and the constant scope and operator steps are left out. \<open>srt\<close> is \<open>sort.Slice\<close> inside the ring.
\<close>

datatype ops_error = OErrSimulation | OErrUnknownNode | OErrNoHealthy | OErrConfig cl_error | OErrGateway gw_error

section \<open>Health\<close>

datatype health_state = Health_unknown | Health_healthy | Health_unhealthy

record node_health =
  nh_id :: bytes
  nh_url :: bytes
  nh_state :: health_state
  nh_status :: nat

record cluster_health =
  ch_name :: bytes
  ch_nodes :: "node_health list"
  ch_healthy :: nat
  ch_unhealthy :: nat
  ch_unknown :: nat

definition check_node :: "exchange \<Rightarrow> cl_node \<Rightarrow> node_health" where
  "check_node x n =
     (let h = (\<lambda>st code. \<lparr>nh_id = cn_id n, nh_url = cn_url n, nh_state = st, nh_status = code\<rparr>) in
      (case x of
         Ex_none \<Rightarrow> h Health_unhealthy 0
       | Ex_garbled s \<Rightarrow> h Health_unhealthy s
       | Ex_reply s b \<Rightarrow>
           if s < 200 \<or> s \<ge> 300 then h Health_unhealthy s
           else if b \<noteq> Bd_health then h Health_unhealthy s
           else h Health_healthy s))"

definition check_cluster_health :: "(bytes \<Rightarrow> exchange) \<Rightarrow> cl_config \<Rightarrow> ops_error + cluster_health" where
  "check_cluster_health xs c =
     (case validate_config c of
        Some e \<Rightarrow> Inl (OErrConfig e)
      | None \<Rightarrow>
          (let hs = sort_key nh_id (map (\<lambda>n. check_node (xs (cn_url n)) n) (cf_nodes c)) in
           Inr \<lparr>ch_name = cf_name c, ch_nodes = hs,
                ch_healthy = length (filter (\<lambda>h. nh_state h = Health_healthy) hs),
                ch_unhealthy = length (filter (\<lambda>h. nh_state h = Health_unhealthy) hs),
                ch_unknown = length (filter (\<lambda>h. nh_state h \<noteq> Health_healthy \<and> nh_state h \<noteq> Health_unhealthy) hs)\<rparr>))"

section \<open>Routing\<close>

definition gateway_target :: "gw_error + gateway \<Rightarrow> bytes \<Rightarrow> ops_error + bytes" where
  "gateway_target g key =
     (case g of
        Inl e \<Rightarrow> Inl (OErrGateway e)
      | Inr gw \<Rightarrow> (case gateway_node_for_key key gw of Inl e \<Rightarrow> Inl (OErrGateway e) | Inr rn \<Rightarrow> Inr (rn_id rn)))"

definition route_key :: "(ring_point list \<Rightarrow> ring_point list) \<Rightarrow> cl_config \<Rightarrow> bytes \<Rightarrow> ops_error + bytes" where
  "route_key srt c key =
     (if key = [] then Inl OErrSimulation
      else (case gateway_options c of Inl e \<Rightarrow> Inl (OErrConfig e) | Inr opts \<Rightarrow> gateway_target (gateway_open srt opts) key))"

definition sim_node :: "cl_node \<Rightarrow> gw_node" where
  "sim_node n = \<lparr>gn_id = cn_id n, gn_url = cn_url n, gn_weight = (if cn_weight n \<le> 0 then 1 else cn_weight n)\<rparr>"

definition sim_options :: "cl_node list \<Rightarrow> int \<Rightarrow> gw_options" where
  "sim_options ns v = \<lparr>go_nodes = map sim_node ns, go_virtual = (if v \<le> 0 then cl_default_virtual else v)\<rparr>"

definition route_key_available ::
    "(ring_point list \<Rightarrow> ring_point list) \<Rightarrow> cl_config \<Rightarrow> bytes \<Rightarrow> bytes list \<Rightarrow> ops_error + bytes" where
  "route_key_available srt c key avail =
     (if key = [] then Inl OErrSimulation
      else if avail = [] then Inl OErrNoHealthy
      else
        let filtered = filter (\<lambda>n. cn_id n \<in> set avail) (cf_nodes c) in
        if filtered = [] then Inl OErrNoHealthy
        else gateway_target (gateway_open srt (sim_options filtered (cg_virtual (cf_routing c)))) key)"

section \<open>Failure simulation\<close>

record key_impact =
  ki_key :: bytes
  ki_original :: bytes
  ki_new :: bytes
  ki_moved :: bool
  ki_unavailable :: bool

record simulation =
  sm_down :: "bytes list"
  sm_healthy :: "bytes list"
  sm_affected :: "key_impact list"
  sm_unaffected :: "key_impact list"
  sm_moved :: nat
  sm_unavailable :: nat

text \<open>One key: its impact, and whether it is affected. An index panic of a ring without points stops the simulation.\<close>

definition key_impact_of ::
    "(ring_point list \<Rightarrow> ring_point list) \<Rightarrow> cl_config \<Rightarrow> bytes list \<Rightarrow> bytes list \<Rightarrow> bytes \<Rightarrow> ops_error + (key_impact \<times> bool)" where
  "key_impact_of srt c down healthy key =
     (let impact = \<lparr>ki_key = key, ki_original = [], ki_new = [], ki_moved = False, ki_unavailable = False\<rparr> in
      (case route_key srt c key of
         Inl e \<Rightarrow> (if e = OErrGateway GErrPanic then Inl e else Inr (impact\<lparr>ki_unavailable := True\<rparr>, True))
       | Inr orig \<Rightarrow>
           let impact = impact\<lparr>ki_original := orig\<rparr> in
           if healthy = [] then Inr (impact\<lparr>ki_unavailable := True\<rparr>, True)
           else
             (case route_key_available srt c key healthy of
                Inl e \<Rightarrow> (if e = OErrGateway GErrPanic then Inl e else Inr (impact\<lparr>ki_unavailable := True\<rparr>, True))
              | Inr new \<Rightarrow>
                  Inr (impact\<lparr>ki_new := new, ki_moved := orig \<notin> set down \<and> new \<noteq> orig\<rparr>, orig \<in> set down \<or> new \<noteq> orig))))"

fun simulate_keys ::
    "(ring_point list \<Rightarrow> ring_point list) \<Rightarrow> cl_config \<Rightarrow> bytes list \<Rightarrow> bytes list \<Rightarrow> bytes list \<Rightarrow> ops_error + (key_impact \<times> bool) list" where
  "simulate_keys srt c down healthy [] = Inr []"
| "simulate_keys srt c down healthy (k # ks) =
     (case key_impact_of srt c down healthy k of
        Inl e \<Rightarrow> Inl e
      | Inr x \<Rightarrow> (case simulate_keys srt c down healthy ks of Inl e \<Rightarrow> Inl e | Inr xs \<Rightarrow> Inr (x # xs)))"

definition simulate_failure ::
    "(ring_point list \<Rightarrow> ring_point list) \<Rightarrow> cl_config \<Rightarrow> bytes list \<Rightarrow> bytes list \<Rightarrow> ops_error + simulation" where
  "simulate_failure srt c down_ids keys =
     (if keys = [] then Inl OErrSimulation
      else if \<exists>d \<in> set down_ids. d \<notin> cn_id ` set (cf_nodes c) then Inl OErrUnknownNode
      else
        let down = sort (remdups down_ids);
            healthy = sort (map cn_id (filter (\<lambda>n. cn_id n \<notin> set down_ids) (cf_nodes c))) in
        (case simulate_keys srt c down healthy keys of
           Inl e \<Rightarrow> Inl e
         | Inr xs \<Rightarrow>
             let affected = map fst (filter snd xs); unaffected = map fst (filter (Not \<circ> snd) xs) in
             Inr \<lparr>sm_down = down, sm_healthy = healthy, sm_affected = affected, sm_unaffected = unaffected,
                  sm_moved = length (filter (\<lambda>k. \<not> ki_unavailable k \<and> ki_moved k) affected),
                  sm_unavailable = length (filter ki_unavailable affected)\<rparr>))"

section \<open>Rebalance planning\<close>

record key_movement =
  km_key :: bytes
  km_from :: bytes
  km_to :: bytes
  km_moved :: bool

record rebalance_plan =
  rb_removed :: "bytes list"
  rb_added :: "bytes list"
  rb_movements :: "key_movement list"
  rb_moved :: nat
  rb_stable :: nat

definition build_gateway :: "(ring_point list \<Rightarrow> ring_point list) \<Rightarrow> cl_node list \<Rightarrow> int \<Rightarrow> ops_error + gateway" where
  "build_gateway srt ns v =
     (if ns = [] then Inl OErrNoHealthy
      else (case gateway_open srt (sim_options ns v) of Inl e \<Rightarrow> Inl (OErrGateway e) | Inr g \<Rightarrow> Inr g))"

text \<open>The node of a key in a plan; empty when routing returns an error, \<open>None\<close> when it panics.\<close>

definition planned_node :: "gateway \<Rightarrow> bytes \<Rightarrow> bytes option" where
  "planned_node g key =
     (case gateway_node_for_key key g of Inl e \<Rightarrow> (if e = GErrPanic then None else Some []) | Inr rn \<Rightarrow> Some (rn_id rn))"

definition key_movement_of :: "gateway \<Rightarrow> gateway \<Rightarrow> bytes \<Rightarrow> key_movement option" where
  "key_movement_of cur pl key =
     (case (planned_node cur key, planned_node pl key) of
        (Some f, Some t) \<Rightarrow> Some \<lparr>km_key = key, km_from = f, km_to = t, km_moved = (f \<noteq> t)\<rparr>
      | _ \<Rightarrow> None)"

definition plan_rebalance ::
    "(ring_point list \<Rightarrow> ring_point list) \<Rightarrow> cl_config \<Rightarrow> bytes list \<Rightarrow> cl_node list \<Rightarrow> bytes list \<Rightarrow> ops_error + rebalance_plan" where
  "plan_rebalance srt c removed added keys =
     (if keys = [] then Inl OErrSimulation
      else if \<exists>d \<in> set removed. d \<notin> cn_id ` set (cf_nodes c) then Inl OErrUnknownNode
      else
        let planned = filter (\<lambda>n. cn_id n \<notin> set removed) (cf_nodes c) @ added in
        if planned = [] then Inl OErrNoHealthy
        else
          (case build_gateway srt (cf_nodes c) (cg_virtual (cf_routing c)) of
             Inl e \<Rightarrow> Inl e
           | Inr cur \<Rightarrow>
               (case build_gateway srt planned (cg_virtual (cf_routing c)) of
                  Inl e \<Rightarrow> Inl e
                | Inr pl \<Rightarrow>
                    let ms = map (key_movement_of cur pl) keys in
                    if None \<in> set ms then Inl (OErrGateway GErrPanic)
                    else
                      let ms = map the ms; moved = length (filter km_moved ms) in
                      Inr \<lparr>rb_removed = sort (remdups removed), rb_added = sort (map cn_id added), rb_movements = ms,
                           rb_moved = moved, rb_stable = length keys - moved\<rparr>)))"

end
