(* ===== verification/GatewaySpec.thy ===== *)
theory GatewaySpec
  imports Proxy NodeSync "HOL-Library.Multiset"
begin

text \<open>
  The gateway and its proxy against their specification: requests to a proxy in front of independent standalone
  nodes refine one map. The ring enters through \<open>consistent_ring\<close>, the array of nodes through the contract \<open>kv_store\<close> of
  their engines.
\<close>

section \<open>The ring\<close>

text \<open>What \<open>sort.Slice\<close> promises.\<close>

definition sort_slice_ok :: "(ring_point list \<Rightarrow> ring_point list) \<Rightarrow> bool" where
  "sort_slice_ok srt \<longleftrightarrow> (\<forall>ps. mset (srt ps) = mset ps \<and> sorted (map gp_hash (srt ps)))"

lemma point_lookup_successor:
  assumes "sorted (map gp_hash ps)" "ps \<noteq> []"
  shows "point_lookup ps k = Some (gp_node (successor gp_hash (fnv1a64 k) ps))"
proof -
  let ?i = "ring_search gp_hash ps (fnv1a64 k)"
  let ?j = "if ?i \<ge> length ps then 0 else ?i"
  note s = ring_search_successor [OF assms, of "fnv1a64 k"]
  have "0 < length ps" using assms(2) by simp
  then have j: "?j < length ps" by (simp add: not_le)
  have e: "(if ?i = length ps then 0 else ?i) = ?j" using s(2) by auto
  have "point_lookup ps k = (if ?j < length ps then Some (gp_node (ps ! ?j)) else None)"
    by (simp only: point_lookup_def Let_def ring_search_def)
  also have "\<dots> = Some (gp_node (ps ! ?j))" using j by (simp only: if_True)
  finally show ?thesis using s(1) by (simp only: e)
qed

interpretation points: consistent_ring gp_hash gp_node point_lookup
  by unfold_locales (rule point_lookup_successor)

lemma check_gw_distinct:
  "check_gw_nodes ids urls ns \<Longrightarrow> distinct (map gn_id ns) \<and> distinct (map gn_url ns)
     \<and> set (map gn_id ns) \<inter> set ids = {} \<and> set (map gn_url ns) \<inter> set urls = {} \<and> [] \<notin> gn_id ` set ns"
  by (induction ids urls ns rule: check_gw_nodes.induct) (auto split: if_splits)

lemma node_index_nth:
  assumes "distinct (map gn_id ns)"
  shows "i < length ns \<Longrightarrow> node_index ns (gn_id (ns ! i)) = Some i"
    "node_index ns nid = Some i \<Longrightarrow> i < length ns \<and> gn_id (ns ! i) = nid"
proof -
  have d: "distinct (map fst (rev (zip (map gn_id ns) [0..<length ns])))" using assms by (simp add: rev_map [symmetric])
  have eq: "node_index ns nid = Some i \<longleftrightarrow> i < length ns \<and> gn_id (ns ! i) = nid" for nid i
    unfolding node_index_def map_of_eq_Some_iff [OF d] set_rev in_set_zip by (auto intro: exI [of _ i])
  show "i < length ns \<Longrightarrow> node_index ns (gn_id (ns ! i)) = Some i"
    "node_index ns nid = Some i \<Longrightarrow> i < length ns \<and> gn_id (ns ! i) = nid"
    by (simp_all add: eq)
qed

text \<open>An open gateway: the nodes, their points and where a key goes.\<close>

definition effective_virtual :: "int \<Rightarrow> int" where
  "effective_virtual v = (if v \<le> 0 then 128 else v)"

definition gateway_route :: "gateway \<Rightarrow> bytes \<Rightarrow> nat" where
  "gateway_route g k = the (node_index (hr_nodes (gy_ring g)) (the (point_lookup (hr_points (gy_ring g)) k)))"

definition gateway_ok :: "gateway \<Rightarrow> bool" where
  "gateway_ok g \<longleftrightarrow> \<not> gy_closed g \<and> hr_nodes (gy_ring g) = go_nodes (gy_opts g) \<and> distinct (map gn_id (go_nodes (gy_opts g)))
     \<and> [] \<notin> gn_id ` set (go_nodes (gy_opts g)) \<and> distinct (map gn_url (go_nodes (gy_opts g))) \<and> sorted (map gp_hash (hr_points (gy_ring g))) \<and> hr_points (gy_ring g) \<noteq> []
     \<and> gp_node ` set (hr_points (gy_ring g)) \<subseteq> gn_id ` set (go_nodes (gy_opts g))"

lemma gateway_open_ok:
  assumes s: "sort_slice_ok srt" and o: "gateway_open srt opts = Inr g"
    and p: "\<exists>n \<in> set (go_nodes opts). 0 < point_count (effective_virtual (go_virtual opts)) n"
  shows "gateway_ok g" "gy_opts g = opts"
    "mset (hr_points (gy_ring g)) = mset (concat (map (node_points (effective_virtual (go_virtual opts))) (go_nodes opts)))"
proof -
  let ?ps = "concat (map (node_points (effective_virtual (go_virtual opts))) (go_nodes opts))"
  have g: "gy_opts g = opts" "\<not> gy_closed g" "hr_nodes (gy_ring g) = go_nodes opts" "hr_points (gy_ring g) = srt ?ps"
      "check_gw_nodes [] [] (go_nodes opts)"
    using o by (auto simp: gateway_open_def new_hash_ring_def effective_virtual_def default_virtual_def Let_def split: if_splits)
  have m: "mset (srt ?ps) = mset ?ps" "sorted (map gp_hash (srt ?ps))" using s by (simp_all add: sort_slice_ok_def)
  then have ms: "set (srt ?ps) = set ?ps" by (metis set_mset_mset)
  have "?ps \<noteq> []" using p by (auto simp: node_points_def)
  then have ne: "srt ?ps \<noteq> []" using ms by (metis set_empty)
  show "gy_opts g = opts" "mset (hr_points (gy_ring g)) = mset ?ps" using g m by simp_all
  show "gateway_ok g"
    using g m ms ne check_gw_distinct [OF g(5)] by (auto simp: gateway_ok_def node_points_def)
qed

lemma gateway_route_ok:
  assumes "gateway_ok g"
  shows "gateway_route g k < length (go_nodes (gy_opts g))"
    "point_lookup (hr_points (gy_ring g)) k = Some (gn_id (go_nodes (gy_opts g) ! gateway_route g k))"
    "k \<noteq> [] \<Longrightarrow> node_for_key (gy_ring g) k = Inr (go_nodes (gy_opts g) ! gateway_route g k)"
    "k \<noteq> [] \<Longrightarrow> url_for_key k g = Inr (gn_url (go_nodes (gy_opts g) ! gateway_route g k))"
proof -
  let ?ns = "go_nodes (gy_opts g)"
  have a: "hr_nodes (gy_ring g) = ?ns" "distinct (map gn_id ?ns)" "\<not> gy_closed g" using assms by (simp_all add: gateway_ok_def)
  obtain t where t: "t \<in> set (hr_points (gy_ring g))" "point_lookup (hr_points (gy_ring g)) k = Some (gp_node t)"
    using points.lookup_owner [of "hr_points (gy_ring g)" k] assms by (auto simp: gateway_ok_def)
  then obtain n where "n \<in> set ?ns" "gp_node t = gn_id n" using assms by (auto simp: gateway_ok_def)
  then obtain i where i: "i < length ?ns" "gp_node t = gn_id (?ns ! i)" by (metis in_set_conv_nth)
  have r: "gateway_route g k = i" using t(2) i a node_index_nth(1) [OF a(2) i(1)] by (simp add: gateway_route_def)
  show "gateway_route g k < length ?ns" "point_lookup (hr_points (gy_ring g)) k = Some (gn_id (?ns ! gateway_route g k))"
    using r i t(2) by simp_all
  show k: "node_for_key (gy_ring g) k = Inr (?ns ! gateway_route g k)" if "k \<noteq> []"
    using that t(2) i r a node_index_nth(1) [OF a(2) i(1)] by (simp add: node_for_key_def)
  show "url_for_key k g = Inr (gn_url (?ns ! gateway_route g k))" if "k \<noteq> []"
    using k [OF that] a node_index_nth(1) [OF a(2) i(1)] r by (simp add: url_for_key_def client_url_def)
qed

section \<open>The nodes behind it\<close>

text \<open>A node that takes every request: standalone, not quiesced, without a journal.\<close>

definition plain_node :: "node \<Rightarrow> bool" where
  "plain_node nd \<longleftrightarrow> nn_role nd = role_standalone \<and> nn_gate nd = Some False \<and> nn_log nd = None"

lemma plain_engine [simp]: "plain_node (nd\<lparr>nn_eng := e\<rparr>) = plain_node nd"
  by (simp add: plain_node_def)

lemma node_open_standalone:
  assumes "node_open good_open opts fresh_node_disk = (Inr n, d)" "no_role opts = []"
  shows "plain_node n" "engine_ok 0 Map.empty (nn_eng n)"
proof -
  have ok: "node_options_ok True opts" using assms(1) by (auto simp: node_open_def good_open_def split: if_splits)
  obtain e d' where e: "engine_open None (node_engine_options opts) fresh_disk = (Inr e, d')" "engine_ok 0 Map.empty e"
    using node_engine_fresh [OF ok] by blast
  have "nn_role n = role_standalone \<and> nn_gate n = Some False \<and> nn_log n = None \<and> nn_eng n = e"
    using assms ok e by (auto simp: open_defs Let_def role_defs)
  then show "plain_node n" "engine_ok 0 Map.empty (nn_eng n)" using e(2) by (simp_all add: plain_node_def)
qed

lemma plain_refused: "plain_node nd \<Longrightarrow> write_refused nd = None"
  by (simp add: plain_node_def write_refused_def)

lemma serve_write:
  assumes "plain_node nd" "key \<noteq> []"
    and "serve c r (case v of None \<Rightarrow> delete_request key (good_kv t) | Some x \<Rightarrow> put_request key x (good_kv t)) nd = (rep, nd')"
  obtains er e' where "engine_write key (map_option json_text v) Write_ok True (nn_eng nd) = (er, e')" "nd' = nd\<lparr>nn_eng := e'\<rparr>"
    "exchange_of rep = (if er = None then Ex_reply 200 (if v = None then Bd_delete else Bd_put) else Ex_reply 500 Bd_error)"
proof -
  obtain er e' where w: "engine_write key (map_option json_text v) Write_ok True (nn_eng nd) = (er, e')"
    by (cases "engine_write key (map_option json_text v) Write_ok True (nn_eng nd)")
  have "handle_write key (map_option json_text v) (good_kv t) nd = (rep, nd')"
    using assms(3) by (cases v) (simp_all add: handle_write_def delete_request_def put_request_def kv_path_def)
  then have "nd' = nd\<lparr>nn_eng := e'\<rparr> \<and> exchange_of rep = (if er = None then Ex_reply 200 (if v = None then Bd_delete else Bd_put) else Ex_reply 500 Bd_error)"
    using w assms(1,2) plain_refused [OF assms(1)]
    by (cases er) (auto simp: handle_write_eq good_kv_def journal_write_def plain_node_def exchange_of_def)
  then show thesis using that w by blast
qed

lemma serve_reorganise:
  assumes "serve c r rq nd = (rep, nd')" "rq = Rq_flush m f \<or> rq = Rq_compact m f" "\<not> en_closed (nn_eng nd')"
  shows "nd' = nd \<or> (\<exists>e'. nd' = nd\<lparr>nn_eng := e'\<rparr> \<and> engine_tidy (nn_eng nd) e')"
proof -
  have "nd' = nd \<or> nd' = nd\<lparr>nn_eng := snd (engine_flush c r f (nn_eng nd))\<rparr> \<or> nd' = nd\<lparr>nn_eng := snd (engine_compact c r f (nn_eng nd))\<rparr>"
    using assms(1,2) by (auto simp: handle_flush_def handle_compact_def split: if_splits option.splits prod.splits)
  then consider "nd' = nd" | e' where "nd' = nd\<lparr>nn_eng := e'\<rparr>" "e' = snd (engine_flush c r f (nn_eng nd)) \<or> e' = snd (engine_compact c r f (nn_eng nd))"
    by blast
  then show ?thesis
  proof cases
    case (2 e')
    then have "engine_tidy (nn_eng nd) e'" using assms(3) unfolding engine_tidy_def by auto
    then show ?thesis using 2(1) by blast
  qed simp
qed

end
