(* ===== verification/ProxySpec.thy ===== *)
theory ProxySpec
  imports GatewaySpec
begin

text \<open>
  A proxy over standalone nodes: whatever requests it gets, and whichever calls or answers get lost on the way to the
  nodes, the replies are those of one map.
\<close>

section \<open>The array of engines\<close>

definition backend_engines :: "gateway \<Rightarrow> network \<Rightarrow> engine list" where
  "backend_engines g net = map (\<lambda>n. nn_eng (the (net (gn_url n)))) (go_nodes (gy_opts g))"

definition backends_plain :: "gateway \<Rightarrow> network \<Rightarrow> bool" where
  "backends_plain g net \<longleftrightarrow> (\<forall>n \<in> set (go_nodes (gy_opts g)). \<exists>nd. net (gn_url n) = Some nd \<and> plain_node nd)"

definition net_ok :: "nat \<Rightarrow> (bytes \<rightharpoonup> bytes) \<Rightarrow> gateway \<Rightarrow> network \<Rightarrow> bool" where
  "net_ok n m g net \<longleftrightarrow> gateway_ok g \<and> backends_plain g net \<and> engine_kv.array_ok (gateway_route g) n m (backend_engines g net)"

text \<open>The URL of the node a key goes to, and the node there.\<close>

abbreviation url_at :: "gateway \<Rightarrow> nat \<Rightarrow> bytes" where "url_at g i \<equiv> gn_url (go_nodes (gy_opts g) ! i)"

lemma url_at_inj:
  "gateway_ok g \<Longrightarrow> i < length (go_nodes (gy_opts g)) \<Longrightarrow> j < length (go_nodes (gy_opts g)) \<Longrightarrow> url_at g i = url_at g j \<longleftrightarrow> i = j"
  by (auto simp: gateway_ok_def distinct_conv_nth)

lemma backend_at:
  assumes "backends_plain g net" "i < length (go_nodes (gy_opts g))"
  obtains nd where "net (url_at g i) = Some nd" "plain_node nd" "backend_engines g net ! i = nn_eng nd"
proof -
  obtain nd where "net (url_at g i) = Some nd" "plain_node nd" using assms nth_mem unfolding backends_plain_def by blast
  then show thesis using that assms(2) by (simp add: backend_engines_def)
qed

lemma backend_update:
  assumes "gateway_ok g" "backends_plain g net" "i < length (go_nodes (gy_opts g))" "plain_node nd"
  shows "backends_plain g (net(url_at g i \<mapsto> nd))" "backend_engines g (net(url_at g i \<mapsto> nd)) = (backend_engines g net)[i := nn_eng nd]"
proof -
  show "backends_plain g (net(url_at g i \<mapsto> nd))" using assms(2,4) by (simp add: backends_plain_def)
  show "backend_engines g (net(url_at g i \<mapsto> nd)) = (backend_engines g net)[i := nn_eng nd]"
  proof (rule nth_equalityI)
    fix j assume "j < length (backend_engines g (net(url_at g i \<mapsto> nd)))"
    then have j: "j < length (go_nodes (gy_opts g))" by (simp add: backend_engines_def)
    then show "backend_engines g (net(url_at g i \<mapsto> nd)) ! j = (backend_engines g net)[i := nn_eng nd] ! j"
      using url_at_inj [OF assms(1,3) j] by (auto simp: backend_engines_def nth_list_update)
  qed (simp add: backend_engines_def)
qed

lemma backend_length [simp]: "length (backend_engines g net) = length (go_nodes (gy_opts g))"
  by (simp add: backend_engines_def)

section \<open>One call\<close>

lemma call_node_cases:
  assumes "call_node c r io u rq net = (x, net')"
  obtains "x = Ex_none" "net' = net"
  | nd rep nd' where "net u = Some nd" "serve c r rq nd = (rep, nd')" "net' = net(u \<mapsto> nd')" "x = Ex_none"
  | nd rep nd' where "net u = Some nd" "serve c r rq nd = (rep, nd')" "net' = net(u \<mapsto> nd')" "x = exchange_of rep" "ca_answered io"
proof (cases "if ca_reached io then net u else None")
  case None
  then show thesis using assms that(1) by (simp add: call_node_def)
next
  case (Some nd)
  then have "net u = Some nd" by (simp split: if_splits)
  then show thesis
    using assms Some that(2,3) by (cases "serve c r rq nd"; cases "ca_answered io") (auto simp: call_node_def)
qed

text \<open>A call that reaches its node and whose answer comes back.\<close>

definition good_call :: "call_io \<Rightarrow> bool" where "good_call io \<longleftrightarrow> ca_reached io \<and> ca_answered io"

lemma call_node_good:
  "good_call io \<Longrightarrow> net u = Some nd \<Longrightarrow>
     call_node c r io u rq net = (exchange_of (fst (serve c r rq nd)), net(u \<mapsto> snd (serve c r rq nd)))"
  by (simp add: call_node_def good_call_def case_prod_beta)

text \<open>A write through the gateway: acknowledged and in the map; lost, in the map or not; or refused.\<close>

definition write_request :: "bytes \<Rightarrow> bytes option \<Rightarrow> kv_io \<Rightarrow> request" where
  "write_request k v kio = (case v of None \<Rightarrow> delete_request k kio | Some x \<Rightarrow> put_request k x kio)"

lemma gateway_write:
  assumes ok: "net_ok n m g net" and n: "n \<le> 2 ^ 29" and k: "k \<noteq> []"
    and c: "call_node c r io (url_at g (gateway_route g k)) (write_request k v (good_kv t)) net = (x, net')"
  shows "client_done x = None \<and> net_ok (n + 1) (m(k := map_option json_text v)) g net'
    \<or> client_done x \<noteq> None \<and> (net_ok (n + 1) m g net' \<or> net_ok (n + 1) (m(k := map_option json_text v)) g net')"
proof -
  let ?i = "gateway_route g k"
  have g: "gateway_ok g" "backends_plain g net" "engine_kv.array_ok (gateway_route g) n m (backend_engines g net)"
    using ok by (simp_all add: net_ok_def)
  have i: "?i < length (go_nodes (gy_opts g))" using gateway_route_ok(1) [OF g(1)] .
  have mono: "engine_kv.array_ok (gateway_route g) n m ss \<Longrightarrow> engine_kv.array_ok (gateway_route g) (n + 1) m ss" for ss
    by (auto simp: engine_kv.array_ok_def intro: engine_kv.ok_mono)
  have step: "client_done (exchange_of rep) = None \<and> net_ok (n + 1) (m(k := map_option json_text v)) g (net(url_at g ?i \<mapsto> nd'))
      \<or> client_done (exchange_of rep) \<noteq> None \<and> net_ok (n + 1) m g (net(url_at g ?i \<mapsto> nd'))"
    if s: "net (url_at g ?i) = Some nd" "serve c r (write_request k v (good_kv t)) nd = (rep, nd')" for nd rep nd'
  proof -
    have nd: "plain_node nd" "backend_engines g net ! ?i = nn_eng nd" using backend_at [OF g(2) i] s(1) by auto
    obtain er e' where w: "engine_write k (map_option json_text v) Write_ok True (nn_eng nd) = (er, e')" "nd' = nd\<lparr>nn_eng := e'\<rparr>"
      "exchange_of rep = (if er = None then Ex_reply 200 (if v = None then Bd_delete else Bd_put) else Ex_reply 500 Bd_error)"
      using serve_write [OF nd(1) k s(2) [unfolded write_request_def]] by blast
    note u = backend_update [OF g(1,2) i, of nd'] 
    show ?thesis
    proof (cases er)
      case None
      then show ?thesis
        using engine_kv.array_upd [OF g(3) n, of k _ e'] w nd u g(1) by (auto simp: net_ok_def client_done_def do_json_def body_ok_def)
    next
      case (Some z)
      then show ?thesis
        using mono [OF engine_kv.array_upd_err [OF g(3), of k _ z e']] w nd u g(1) by (auto simp: net_ok_def client_done_def do_json_def)
    qed
  qed
  have same: "net_ok (n + 1) m g net" using g mono by (simp add: net_ok_def)
  have none: "client_done Ex_none \<noteq> None" by (simp add: client_done_def do_json_def)
  show ?thesis using c by (cases rule: call_node_cases) (use same none step in blast)+
qed

lemma gateway_read:
  assumes ok: "net_ok n m g net" and k: "k \<noteq> []"
    and c: "call_node c r io (url_at g (gateway_route g k)) (get_request k kio) net = (x, net')"
  shows "net_ok n m g net'" "client_get x = Inr (map_option json_text (m k)) \<or> client_get x = Inl CErrUnavailable \<and> \<not> good_call io"
proof -
  let ?i = "gateway_route g k"
  have g: "gateway_ok g" "backends_plain g net" "engine_kv.array_ok (gateway_route g) n m (backend_engines g net)"
    using ok by (simp_all add: net_ok_def)
  have i: "?i < length (go_nodes (gy_opts g))" using gateway_route_ok(1) [OF g(1)] .
  obtain nd where nd: "net (url_at g ?i) = Some nd" "plain_node nd" "backend_engines g net ! ?i = nn_eng nd"
    using backend_at [OF g(2) i] .
  obtain e' where e: "engine_get k (nn_eng nd) = (Inr (m k), e')" "engine_kv.array_ok (gateway_route g) n m ((backend_engines g net)[?i := e'])"
    using engine_kv.array_get [OF g(3), of k] nd(3) by auto
  have s: "serve c r (get_request k kio) nd = (Reply 200 (Bd_get (m k)), nd\<lparr>nn_eng := e'\<rparr>)"
    using k e(1) by (simp add: get_request_def handle_kv_def handle_kv_get_def trim_prefix_def Let_def)
  have ok': "net_ok n m g (net(url_at g ?i \<mapsto> nd\<lparr>nn_eng := e'\<rparr>))"
    using backend_update [OF g(1,2) i, of "nd\<lparr>nn_eng := e'\<rparr>"] nd(2) g(1) e(2) by (simp add: net_ok_def)
  have "x = exchange_of (Reply 200 (Bd_get (m k))) \<and> net_ok n m g net' \<or> x = Ex_none \<and> \<not> good_call io \<and> net_ok n m g net'"
    using c nd(1) s ok ok' by (auto simp: call_node_def good_call_def split: if_splits)
  then show "net_ok n m g net'" "client_get x = Inr (map_option json_text (m k)) \<or> client_get x = Inl CErrUnavailable \<and> \<not> good_call io"
    by (auto simp: exchange_of_def client_get_def do_json_def body_value_def)
qed


lemma route_part: "engine_kv.part (gateway_route g) i m k = Some v \<longleftrightarrow> gateway_route g k = i \<and> m k = Some v"
  by (simp add: engine_kv.part_def)

text \<open>What the scan of one node gives, as JSON carries it.\<close>

definition node_range :: "gateway \<Rightarrow> nat \<Rightarrow> bytes \<Rightarrow> bytes \<Rightarrow> (bytes \<rightharpoonup> bytes) \<Rightarrow> (bytes \<times> bytes) list \<Rightarrow> bool" where
  "node_range g i lo hi m es \<longleftrightarrow>
     (\<exists>res. es = map (\<lambda>(k, v). (json_text k, json_text v)) res \<and> strictly_sorted (map fst res)
       \<and> (\<forall>k v. (k, v) \<in> set res \<longleftrightarrow> in_range lo hi k \<and> m k = Some v \<and> gateway_route g k = i))"

lemma gateway_scan_at:
  assumes ok: "net_ok n m g net" and i: "i < length (go_nodes (gy_opts g))"
    and c: "call_node c r io (url_at g i) (Rq_scan ''GET'' lo hi) net = (x, net')"
  shows "net' = net" "(\<exists>es. client_scan x = Inr es \<and> node_range g i lo hi m es) \<or> client_scan x = Inl CErrUnavailable \<and> \<not> good_call io"
proof -
  have g: "backends_plain g net" "engine_kv.array_ok (gateway_route g) n m (backend_engines g net)"
    using ok by (simp_all add: net_ok_def)
  obtain nd where nd: "net (url_at g i) = Some nd" "plain_node nd" "backend_engines g net ! i = nn_eng nd"
    using backend_at [OF g(1) i] .
  have "engine_ok n (engine_kv.part (gateway_route g) i m) (nn_eng nd)"
    using g(2) i nd(3) by (metis engine_kv.array_ok_def backend_length)
  then obtain res where res: "engine_scan lo hi (nn_eng nd) = Inr res" "scan_result lo hi (engine_kv.part (gateway_route g) i m) res"
    using engine_kv.scan_ok by blast
  let ?es = "map (\<lambda>e. (kv_key e, kv_value e)) res"
  have s: "serve c r (Rq_scan ''GET'' lo hi) nd = (Reply 200 (Bd_scan ?es), nd)" using res(1) by (simp add: handle_scan_def)
  have same: "net(url_at g i \<mapsto> nd) = net" using nd(1) by (simp add: fun_upd_idem)
  have x: "x = exchange_of (Reply 200 (Bd_scan ?es)) \<or> x = Ex_none \<and> \<not> good_call io" and n: "net' = net"
    using c nd(1) s same by (auto simp: call_node_def good_call_def split: if_splits)
  show "net' = net" by (rule n)
  have "strictly_sorted (map fst ?es)" using res(2) by (simp add: scan_result_def comp_def)
  moreover have "(k, v) \<in> set ?es \<longleftrightarrow> in_range lo hi k \<and> m k = Some v \<and> gateway_route g k = i" for k v
    using res(2) by (auto simp: scan_result_def route_part)
  ultimately have "node_range g i lo hi m (map (\<lambda>(k, v). (json_text k, json_text v)) ?es)"
    unfolding node_range_def by (intro exI [of _ ?es]) blast
  then show "(\<exists>es. client_scan x = Inr es \<and> node_range g i lo hi m es) \<or> client_scan x = Inl CErrUnavailable \<and> \<not> good_call io"
    using x by (auto simp: exchange_of_def client_scan_def do_json_def body_entries_def)
qed

section \<open>Calling every node\<close>

lemma client_url_at:
  assumes "gateway_ok g"
  shows "client_url g nid = Some u \<longleftrightarrow> (\<exists>i < length (go_nodes (gy_opts g)). gn_id (go_nodes (gy_opts g) ! i) = nid \<and> u = url_at g i)"
proof -
  let ?ns = "go_nodes (gy_opts g)"
  have d: "distinct (map gn_id ?ns)" using assms by (simp add: gateway_ok_def)
  show ?thesis
  proof
    assume "client_url g nid = Some u"
    then obtain i where "node_index ?ns nid = Some i" "u = url_at g i" by (auto simp: client_url_def)
    then show "\<exists>i < length ?ns. gn_id (?ns ! i) = nid \<and> u = url_at g i" using node_index_nth(2) [OF d] by blast
  next
    assume "\<exists>i < length ?ns. gn_id (?ns ! i) = nid \<and> u = url_at g i"
    then obtain i where "i < length ?ns" "gn_id (?ns ! i) = nid" "u = url_at g i" by blast
    then show "client_url g nid = Some u" using node_index_nth(1) [OF d] by (auto simp: client_url_def)
  qed
qed

lemma each_client_effect:
  assumes "gateway_ok g" "each_client c r io rq g order net = (xs, net')" "distinct order" "i < length (go_nodes (gy_opts g))"
  shows "net' (url_at g i) = net (url_at g i)
    \<or> gn_id (go_nodes (gy_opts g) ! i) \<in> set order \<and> (\<exists>nd. net (url_at g i) = Some nd
        \<and> net' (url_at g i) = Some (snd (serve c r (rq (gn_id (go_nodes (gy_opts g) ! i))) nd)))"
  using assms(2,3)
proof (induction order arbitrary: net xs)
  case (Cons nid order)
  let ?ns = "go_nodes (gy_opts g)"
  show ?case
  proof (cases "client_url g nid")
    case None
    then show ?thesis using Cons by (auto simp: Let_def)
  next
    case (Some u)
    obtain x net1 where c: "call_node c r (io nid) u (rq nid) net = (x, net1)" by fastforce
    obtain xs' where e: "each_client c r io rq g order net1 = (xs', net')" using Cons.prems(1) Some c by (auto split: prod.splits)
    note ih = Cons.IH [OF e]
    obtain j where j: "j < length ?ns" "gn_id (?ns ! j) = nid" "u = url_at g j" using Some client_url_at [OF assms(1)] by blast
    have one: "net1 (url_at g i) = net (url_at g i)
        \<or> i = j \<and> (\<exists>nd. net (url_at g i) = Some nd \<and> net1 (url_at g i) = Some (snd (serve c r (rq nid) nd)))"
      using c by (cases rule: call_node_cases) (use j(3) url_at_inj [OF assms(1,4) j(1)] in auto)
    show ?thesis
    proof (cases "i = j")
      case True
      then have "gn_id (?ns ! i) \<notin> set order" using Cons.prems(2) j(2) by simp
      then have "net' (url_at g i) = net1 (url_at g i)" using ih Cons.prems(2) by auto
      then show ?thesis using one True j(2) by auto
    next
      case False
      then have "net1 (url_at g i) = net (url_at g i)" using one by blast
      then show ?thesis using ih Cons.prems(2) by auto
    qed
  qed
qed simp

definition backends_open :: "gateway \<Rightarrow> network \<Rightarrow> bool" where
  "backends_open g net \<longleftrightarrow> (\<forall>e \<in> set (backend_engines g net). \<not> en_closed e)"

text \<open>A round of flushes or compactions in which no engine shuts itself down keeps the map.\<close>

lemma each_client_tidy:
  assumes ok: "net_ok n m g net" and n: "n \<le> 2 ^ 29" and d: "distinct order"
    and e: "each_client c r io rq g order net = (xs, net')" and o: "backends_open g net'"
    and rq: "\<And>nid. \<exists>f. rq nid = Rq_flush ''POST'' f \<or> rq nid = Rq_compact ''POST'' f"
  shows "net_ok (n + 1) m g net'"
proof -
  let ?ns = "go_nodes (gy_opts g)"
  have g: "gateway_ok g" "backends_plain g net" "engine_kv.array_ok (gateway_route g) n m (backend_engines g net)"
    using ok by (simp_all add: net_ok_def)
  have step: "\<exists>nd nd'. net (url_at g i) = Some nd \<and> net' (url_at g i) = Some nd' \<and> plain_node nd'
      \<and> (nn_eng nd' = nn_eng nd \<or> engine_tidy (nn_eng nd) (nn_eng nd'))" if i: "i < length ?ns" for i
  proof -
    obtain nd where nd: "net (url_at g i) = Some nd" "plain_node nd" using backend_at [OF g(2) i] .
    consider "net' (url_at g i) = net (url_at g i)" | "net' (url_at g i) = Some (snd (serve c r (rq (gn_id (?ns ! i))) nd))"
      using each_client_effect [OF g(1) e d i] nd(1) by auto
    then show ?thesis
    proof cases
      case 2
      let ?nd' = "snd (serve c r (rq (gn_id (?ns ! i))) nd)"
      have "backend_engines g net' ! i = nn_eng ?nd'" using 2 i by (simp add: backend_engines_def)
      then have cl: "\<not> en_closed (nn_eng ?nd')" using o i unfolding backends_open_def by (metis nth_mem backend_length)
      obtain f where f: "rq (gn_id (?ns ! i)) = Rq_flush ''POST'' f \<or> rq (gn_id (?ns ! i)) = Rq_compact ''POST'' f" using rq by blast
      have s: "serve c r (rq (gn_id (?ns ! i))) nd = (fst (serve c r (rq (gn_id (?ns ! i))) nd), ?nd')" by simp
      have "?nd' = nd \<or> (\<exists>e'. ?nd' = nd\<lparr>nn_eng := e'\<rparr> \<and> engine_tidy (nn_eng nd) e')"
        using serve_reorganise [OF s f cl] .
      then have "plain_node ?nd' \<and> (nn_eng ?nd' = nn_eng nd \<or> engine_tidy (nn_eng nd) (nn_eng ?nd'))" using nd(2) by auto
      then show ?thesis using nd(1) 2 by blast
    qed (use nd in auto)
  qed
  have p: "backends_plain g net'" unfolding backends_plain_def
  proof
    fix x assume "x \<in> set ?ns"
    then obtain i where "i < length ?ns" "x = ?ns ! i" by (metis in_set_conv_nth)
    then show "\<exists>nd. net' (gn_url x) = Some nd \<and> plain_node nd" using step by blast
  qed
  have t: "backend_engines g net' ! i = backend_engines g net ! i \<or> engine_tidy (backend_engines g net ! i) (backend_engines g net' ! i)"
    if "i < length (backend_engines g net)" for i
    using step [of i] that by (auto simp: backend_engines_def)
  show ?thesis using engine_kv.array_tidy [OF g(3) n, of "backend_engines g net'"] t g(1) p by (simp add: net_ok_def)
qed

lemma each_client_quiet:
  assumes ok: "net_ok n m g net" and e: "each_client c r io rq g order net = (xs, net')" and d: "distinct order"
    and rq: "\<And>nid nd. plain_node nd \<Longrightarrow> snd (serve c r (rq nid) nd) = nd"
  shows "net_ok n m g net'"
proof -
  have g: "gateway_ok g" "backends_plain g net" using ok by (simp_all add: net_ok_def)
  have s: "net' (url_at g i) = net (url_at g i)" if i: "i < length (go_nodes (gy_opts g))" for i
  proof -
    obtain nd where nd: "net (url_at g i) = Some nd" "plain_node nd" using backend_at [OF g(2) i] .
    then show ?thesis using each_client_effect [OF g(1) e d i] rq [OF nd(2)] by auto
  qed
  have "net' (gn_url x) = net (gn_url x)" if "x \<in> set (go_nodes (gy_opts g))" for x
    using s that by (metis in_set_conv_nth)
  then have "backend_engines g net' = backend_engines g net" "backends_plain g net'"
    using g(2) by (simp_all add: backend_engines_def backends_plain_def)
  then show ?thesis using ok by (simp add: net_ok_def)
qed


section \<open>Sessions\<close>

text \<open>The requests of a session: any method and path; the journal and the write-ahead log of the nodes take their writes.
  The rounds over all nodes visit each client once, in any order.\<close>

fun request_fine :: "proxy_request \<Rightarrow> bool" where
  "request_fine (Xq_kv m path body io kio) = (\<exists>t. kio = good_kv t)"
| "request_fine (Xq_flush_all m order io faults) = distinct order"
| "request_fine (Xq_compact_all m order io faults) = distinct order"
| "request_fine (Xq_nodes_health m order io) = distinct order"
| "request_fine (Xq_replication m order io) = distinct order"
| "request_fine _ = True"

text \<open>The write of a request, and what its reply leaves open about the map.\<close>

definition request_write :: "proxy_request \<Rightarrow> (bytes \<times> bytes option) option" where
  "request_write rq =
     (case rq of
        Xq_kv m path body io kio \<Rightarrow>
          (let key = trim_prefix (ascii ''/kv/'') path in
           if key = [] then None
           else if m = ''PUT'' then map_option (\<lambda>v. (key, Some (json_text v))) body
           else if m = ''DELETE'' then Some (key, None) else None)
      | _ \<Rightarrow> None)"

definition maps_after :: "proxy_request \<Rightarrow> proxy_reply \<Rightarrow> (bytes \<rightharpoonup> bytes) \<Rightarrow> (bytes \<rightharpoonup> bytes) set" where
  "maps_after rq rep m =
     (case request_write rq of
        None \<Rightarrow> {m}
      | Some (k, v) \<Rightarrow> if \<exists>b. rep = Px_reply 200 b then {m(k := v)} else {m, m(k := v)})"

text \<open>A lookup answers from the map, a scan of one node with the node's part of it; only a lost call fails.\<close>

definition reply_matches :: "proxy \<Rightarrow> (bytes \<rightharpoonup> bytes) \<Rightarrow> proxy_request \<Rightarrow> proxy_reply \<Rightarrow> bool" where
  "reply_matches p m rq rep =
     (case rq of
        Xq_kv meth path body io kio \<Rightarrow>
          (let key = trim_prefix (ascii ''/kv/'') path in
           meth = ''GET'' \<and> key \<noteq> [] \<longrightarrow>
             rep = Px_reply 200 (Pb_got key (map_option json_text (m key)) (routed key p)) \<or> \<not> good_call io \<and> rep = Px_reply 502 Pb_error)
      | Xq_scan_node meth path lo hi io \<Rightarrow>
          (meth = ''GET'' \<longrightarrow>
             (\<forall>i < length (go_nodes (gy_opts (px_gw p))).
                trim_prefix (ascii ''/scan-node/'') path = gn_id (go_nodes (gy_opts (px_gw p)) ! i) \<longrightarrow>
                  (\<exists>es. rep = Px_reply 200 (Pb_scanned (gn_id (go_nodes (gy_opts (px_gw p)) ! i)) es) \<and> node_range (px_gw p) i lo hi m es)
                  \<or> \<not> good_call io \<and> rep = Px_reply 400 Pb_error))
      | _ \<Rightarrow> True)"

text \<open>A run of the proxy; \<open>None\<close> when an engine behind it has shut itself down.\<close>

fun proxy_run ::
    "(u64 \<Rightarrow> float64 \<Rightarrow> u64) \<Rightarrow> (u64 \<Rightarrow> u64 \<Rightarrow> int) \<Rightarrow> proxy_request list \<Rightarrow> proxy \<Rightarrow> network \<Rightarrow> (proxy_reply list \<times> network) option" where
  "proxy_run c r [] p net = Some ([], net)"
| "proxy_run c r (rq # rqs) p net =
     (case proxy_serve c r rq p net of
        (rep, net') \<Rightarrow>
          if backends_open (px_gw p) net' then map_option (\<lambda>(reps, net''). (rep # reps, net'')) (proxy_run c r rqs p net') else None)"

text \<open>Replies that one map explains.\<close>

fun accounts :: "proxy \<Rightarrow> (bytes \<rightharpoonup> bytes) \<Rightarrow> proxy_request list \<Rightarrow> proxy_reply list \<Rightarrow> bool" where
  "accounts p m [] reps \<longleftrightarrow> reps = []"
| "accounts p m (rq # rqs) reps \<longleftrightarrow>
     (\<exists>rep reps'. reps = rep # reps' \<and> reply_matches p m rq rep \<and> (\<exists>m' \<in> maps_after rq rep m. accounts p m' rqs reps'))"


lemma net_ok_Suc: "net_ok n m g net \<Longrightarrow> net_ok (n + 1) m g net"
  by (auto simp: net_ok_def engine_kv.array_ok_def intro: engine_kv.ok_mono)

lemma backend_error_fails [simp]: "backend_error e \<noteq> Px_reply 200 b"
  by (auto simp: backend_error_def backend_error_code_def split: gw_error.splits)

lemma client_call_is: "client_put = client_done" "client_delete = client_done"
  by (simp_all add: fun_eq_iff client_put_def client_delete_def)

lemma kv_step:
  assumes ok: "net_ok n m (px_gw p) net" and n: "n \<le> 2 ^ 29"
    and s: "px_kv c r io (good_kv t) meth path body p net = (rep, net')"
  shows "reply_matches p m (Xq_kv meth path body io (good_kv t)) rep
    \<and> (\<exists>m' \<in> maps_after (Xq_kv meth path body io (good_kv t)) rep m. net_ok (n + 1) m' (px_gw p) net')"
proof (cases "trim_prefix (ascii ''/kv/'') path = []")
  case True
  then show ?thesis using s net_ok_Suc [OF ok] by (simp add: px_kv_def reply_matches_def maps_after_def request_write_def)
next
  case k: False
  let ?k = "trim_prefix (ascii ''/kv/'') path" and ?g = "px_gw p"
  have g: "gateway_ok ?g" using ok by (simp add: net_ok_def)
  note u = gateway_route_ok(4) [OF g k]
  have wr: "\<exists>m' \<in> maps_after (Xq_kv meth path body io (good_kv t)) rep m. net_ok (n + 1) m' ?g net'"
    if c: "call_node c r io (url_at ?g (gateway_route ?g ?k)) (write_request ?k v (good_kv t)) net = (x, net')"
      and w: "request_write (Xq_kv meth path body io (good_kv t)) = Some (?k, map_option json_text v)"
      and r: "(\<exists>b. rep = Px_reply 200 b) \<longleftrightarrow> client_done x = None" for v x
    using gateway_write [OF ok n k c] w r by (auto simp: maps_after_def)
  consider (put) val where "meth = ''PUT''" "body = Some val" | (get) "meth = ''GET''" | (delete) "meth = ''DELETE''"
    | (quiet) "meth = ''PUT'' \<and> body = None \<or> meth \<notin> {''PUT'', ''GET'', ''DELETE''}" by (cases body) auto
  then show ?thesis
  proof cases
    case put
    obtain x net1 where c: "call_node c r io (url_at ?g (gateway_route ?g ?k)) (put_request ?k val (good_kv t)) net = (x, net1)" by fastforce
    have r: "net1 = net'" "(\<exists>b. rep = Px_reply 200 b) \<longleftrightarrow> client_done x = None"
      using s put u c k by (cases "client_done x"; auto simp: px_kv_def px_put_def gateway_put_def client_call_is Let_def)+
    have "request_write (Xq_kv meth path body io (good_kv t)) = Some (?k, map_option json_text (Some val))"
      using put k by (simp add: request_write_def)
    then show ?thesis using wr [of "Some val" x] c r put by (simp add: write_request_def reply_matches_def)
  next
    case delete
    obtain x net1 where c: "call_node c r io (url_at ?g (gateway_route ?g ?k)) (delete_request ?k (good_kv t)) net = (x, net1)" by fastforce
    have r: "net1 = net'" "(\<exists>b. rep = Px_reply 200 b) \<longleftrightarrow> client_done x = None"
      using s delete u c k by (cases "client_done x"; auto simp: px_kv_def px_delete_def gateway_delete_def client_call_is Let_def)+
    have "request_write (Xq_kv meth path body io (good_kv t)) = Some (?k, map_option json_text None)"
      using delete k by (simp add: request_write_def)
    then show ?thesis using wr [of None x] c r delete by (simp add: write_request_def reply_matches_def)
  next
    case get
    obtain x net1 where c: "call_node c r io (url_at ?g (gateway_route ?g ?k)) (get_request ?k (good_kv t)) net = (x, net1)" by fastforce
    note rd = gateway_read [OF ok k c]
    have "net' = net1 \<and> (rep = Px_reply 200 (Pb_got ?k (map_option json_text (m ?k)) (routed ?k p)) \<or> \<not> good_call io \<and> rep = Px_reply 502 Pb_error)"
      using s get u c k rd(2) by (auto simp: px_kv_def px_get_def gateway_get_def backend_error_def backend_error_code_def Let_def)
    then show ?thesis using get net_ok_Suc [OF rd(1)] k by (auto simp: reply_matches_def maps_after_def request_write_def)
  next
    case quiet
    then have "net' = net" "request_write (Xq_kv meth path body io (good_kv t)) = None" "meth \<noteq> ''GET''"
      using s k by (auto simp: px_kv_def px_put_def request_write_def Let_def)
    then show ?thesis using net_ok_Suc [OF ok] by (simp add: reply_matches_def maps_after_def)
  qed
qed

lemma scan_step:
  assumes ok: "net_ok n m (px_gw p) net" and s: "px_scan_node c r io meth path lo hi p net = (rep, net')"
  shows "net' = net" "reply_matches p m (Xq_scan_node meth path lo hi io) rep"
proof -
  let ?g = "px_gw p" and ?nid = "trim_prefix (ascii ''/scan-node/'') path"
  let ?ns = "go_nodes (gy_opts ?g)"
  have g: "gateway_ok ?g" "\<not> gy_closed ?g" using ok by (simp_all add: net_ok_def gateway_ok_def)
  have ne: "gn_id (?ns ! i) \<noteq> []" if "i < length ?ns" for i using g(1) that nth_mem unfolding gateway_ok_def by (metis image_eqI)
  have "net' = net \<and> reply_matches p m (Xq_scan_node meth path lo hi io) rep"
  proof (cases "meth = ''GET'' \<and> (\<exists>u. client_url ?g ?nid = Some u) \<and> ?nid \<noteq> []")
    case True
    then obtain i where i: "i < length ?ns" "gn_id (?ns ! i) = ?nid" "client_url ?g ?nid = Some (url_at ?g i)"
      using client_url_at [OF g(1)] by blast
    have uniq: "j = i" if "j < length ?ns" "?nid = gn_id (?ns ! j)" for j
      using that i(1,2) g(1) unfolding gateway_ok_def distinct_conv_nth by (metis length_map nth_map)
    obtain x net1 where c: "call_node c r io (url_at ?g i) (Rq_scan ''GET'' lo hi) net = (x, net1)" by fastforce
    note sc = gateway_scan_at [OF ok i(1) c]
    have "net' = net1" "rep = (case client_scan x of Inl e \<Rightarrow> Px_reply 400 Pb_error | Inr es \<Rightarrow> Px_reply 200 (Pb_scanned ?nid es))"
      using s True i(3) c g(2) by (auto simp: px_scan_node_def gateway_scan_node_def Let_def split: sum.splits)
    then show ?thesis using sc uniq i(2) by (auto simp: reply_matches_def)
  next
    case False
    have "client_url ?g (gn_id (?ns ! i)) = Some (url_at ?g i)" if "i < length ?ns" for i using client_url_at [OF g(1)] that by blast
    then have "meth = ''GET'' \<Longrightarrow> i < length ?ns \<Longrightarrow> ?nid \<noteq> gn_id (?ns ! i)" for i using False ne by metis
    moreover have "net' = net" using s False g(2) by (auto simp: px_scan_node_def gateway_scan_node_def Let_def split: if_splits option.splits)
    ultimately show ?thesis by (auto simp: reply_matches_def)
  qed
  then show "net' = net" "reply_matches p m (Xq_scan_node meth path lo hi io) rep" by simp_all
qed


lemma forward_quiet:
  assumes ok: "net_ok n m g net" and s: "forward_to_node c r io nid (Rq_sync ''POST'' wire sio) g net = (res, net')"
  shows "net' = net"
proof (cases "gy_closed g \<or> client_url g nid = None")
  case True
  then show ?thesis using s by (auto simp: forward_to_node_def split: if_splits)
next
  case False
  have g: "gateway_ok g" "backends_plain g net" using ok by (simp_all add: net_ok_def)
  obtain u where u: "client_url g nid = Some u" using False by blast
  then obtain i where i: "i < length (go_nodes (gy_opts g))" "u = url_at g i" using client_url_at [OF g(1)] by blast
  obtain nd where nd: "net u = Some nd" "plain_node nd" using backend_at [OF g(2) i(1)] i(2) by blast
  have q: "snd (serve c r (Rq_sync ''POST'' wire sio) nd) = nd" using nd(2) by (simp add: handle_replication_sync_def plain_node_def)
  obtain x where c: "call_node c r io u (Rq_sync ''POST'' wire sio) net = (x, net')"
    using s False u by (auto simp: forward_to_node_def split: prod.splits)
  then show ?thesis
    by (cases rule: call_node_cases) (use nd(1) q in \<open>auto simp: fun_eq_iff\<close>)
qed

lemma proxy_step:
  assumes ok: "net_ok n m (px_gw p) net" and n: "n \<le> 2 ^ 29" and f: "request_fine rq"
    and s: "proxy_serve c r rq p net = (rep, net')" and o: "backends_open (px_gw p) net'"
  shows "reply_matches p m rq rep \<and> (\<exists>m' \<in> maps_after rq rep m. net_ok (n + 1) m' (px_gw p) net')"
proof -
  have g: "\<not> gy_closed (px_gw p)" using ok by (simp add: net_ok_def gateway_ok_def)
  have quiet: ?thesis if "net_ok (n + 1) m (px_gw p) net'" "request_write rq = None" "reply_matches p m rq rep"
    using that by (simp add: maps_after_def)
  note same = net_ok_Suc [OF ok]
  note q = request_write_def reply_matches_def
  show ?thesis
  proof (cases rq)
    case (Xq_kv meth path body io kio)
    then show ?thesis using kv_step [OF ok n] s f by auto
  next
    case (Xq_scan_node meth path lo hi io)
    then have "px_scan_node c r io meth path lo hi p net = (rep, net')" using s by simp
    from scan_step [OF ok this] show ?thesis using same Xq_scan_node by (intro quiet) (simp_all add: request_write_def)
  next
    case (Xq_flush_all meth order io faults)
    have "net' = net \<or> (\<exists>xs. each_client c r io (\<lambda>nid. Rq_flush ''POST'' (faults nid)) (px_gw p) order net = (xs, net'))"
      using s Xq_flush_all g by (auto simp: px_flush_all_def gateway_flush_all_def split: if_splits prod.splits option.splits)
    then have "net_ok (n + 1) m (px_gw p) net'" using each_client_tidy [OF ok n _ _ o] f Xq_flush_all same by auto
    then show ?thesis by (rule quiet) (simp_all add: Xq_flush_all q)
  next
    case (Xq_compact_all meth order io faults)
    have "net' = net \<or> (\<exists>xs. each_client c r io (\<lambda>nid. Rq_compact ''POST'' (faults nid)) (px_gw p) order net = (xs, net'))"
      using s Xq_compact_all g by (auto simp: px_compact_all_def gateway_compact_all_def split: if_splits prod.splits option.splits)
    then have "net_ok (n + 1) m (px_gw p) net'" using each_client_tidy [OF ok n _ _ o] f Xq_compact_all same by auto
    then show ?thesis by (rule quiet) (simp_all add: Xq_compact_all q)
  next
    case (Xq_nodes_health meth order io)
    have "net' = net \<or> (\<exists>xs. each_client c r io (\<lambda>_. Rq_health ''GET'') (px_gw p) order net = (xs, net'))"
      using s Xq_nodes_health g by (auto simp: px_nodes_health_def gateway_health_all_def split: if_splits prod.splits)
    then have "net_ok n m (px_gw p) net'" using each_client_quiet [OF ok] f Xq_nodes_health ok by auto
    then show ?thesis by (intro quiet net_ok_Suc) (simp_all add: Xq_nodes_health q)
  next
    case (Xq_replication meth order io)
    have "net' = net \<or> (\<exists>xs. each_client c r io (\<lambda>_. Rq_replication ''GET'') (px_gw p) order net = (xs, net'))"
      using s Xq_replication g by (auto simp: px_replication_status_def forward_to_all_def split: if_splits prod.splits)
    then have "net_ok n m (px_gw p) net'" using each_client_quiet [OF ok] f Xq_replication ok by auto
    then show ?thesis by (intro quiet net_ok_Suc) (simp_all add: Xq_replication q)
  next
    case (Xq_sync_node meth path io wire sio)
    have "net' = net \<or> (\<exists>nid res. forward_to_node c r io nid (Rq_sync ''POST'' wire sio) (px_gw p) net = (res, net'))"
      using s Xq_sync_node by (auto simp: px_sync_node_def Let_def split: if_splits prod.splits sum.splits)
    then have "net' = net" using forward_quiet [OF ok] by blast
    then show ?thesis using same by (intro quiet) (simp_all add: Xq_sync_node q)
  qed (use s same in \<open>auto intro!: quiet simp: q maps_after_def\<close>)
qed

lemma proxy_run_accounts:
  assumes "net_ok n m (px_gw p) net" "n + length rqs \<le> 2 ^ 29" "\<forall>rq \<in> set rqs. request_fine rq"
    and "proxy_run c r rqs p net = Some (reps, net')"
  shows "accounts p m rqs reps"
  using assms
proof (induction rqs arbitrary: n m net reps)
  case (Cons rq rqs)
  obtain rep net1 where s: "proxy_serve c r rq p net = (rep, net1)" by fastforce
  then obtain reps' where o: "backends_open (px_gw p) net1" "proxy_run c r rqs p net1 = Some (reps', net')" "reps = rep # reps'"
    using Cons.prems(4) by (auto split: if_splits)
  obtain m' where m: "reply_matches p m rq rep" "m' \<in> maps_after rq rep m" "net_ok (n + 1) m' (px_gw p) net1"
    using proxy_step [OF Cons.prems(1) _ _ s o(1)] Cons.prems(2,3) by auto
  have "accounts p m' rqs reps'" using Cons.IH [OF m(3)] Cons.prems(2,3) o(2) by simp
  then show ?case using m(1,2) o(3) by auto
qed simp

section \<open>From fresh nodes\<close>

text \<open>Every node of the cluster opened standalone in an empty directory and listening at its URL.\<close>

definition fresh_cluster :: "gw_node list \<Rightarrow> network \<Rightarrow> bool" where
  "fresh_cluster ns net \<longleftrightarrow> (\<forall>n \<in> set ns. \<exists>opts nd d. no_role opts = []
     \<and> node_open good_open opts fresh_node_disk = (Inr nd, d) \<and> net (gn_url n) = Some nd)"

lemma fresh_net_ok:
  assumes "gateway_ok g" "fresh_cluster (go_nodes (gy_opts g)) net"
  shows "net_ok 0 Map.empty g net"
proof -
  have nd: "\<exists>nd. net (gn_url n) = Some nd \<and> plain_node nd \<and> engine_ok 0 Map.empty (nn_eng nd)" if "n \<in> set (go_nodes (gy_opts g))" for n
    using assms(2) that node_open_standalone unfolding fresh_cluster_def by metis
  have "engine_kv.part (gateway_route g) i Map.empty = Map.empty" for i by (simp add: engine_kv.part_def fun_eq_iff)
  moreover have "engine_ok 0 Map.empty (backend_engines g net ! i)" if "i < length (go_nodes (gy_opts g))" for i
    using nd [of "go_nodes (gy_opts g) ! i"] that by (auto simp: backend_engines_def)
  ultimately have "engine_kv.array_ok (gateway_route g) 0 Map.empty (backend_engines g net)"
    using gateway_route_ok(1) [OF assms(1)] by (simp add: engine_kv.array_ok_def)
  then show ?thesis using assms(1) nd by (auto simp: net_ok_def backends_plain_def)
qed

lemma proxy_open_gateway:
  assumes "sort_slice_ok srt" "proxy_open srt opts = Inr p" "\<exists>n \<in> set (xo_nodes opts). 0 < point_count (effective_virtual (xo_virtual opts)) n"
  shows "gateway_ok (px_gw p)" "go_nodes (gy_opts (px_gw p)) = xo_nodes opts"
proof -
  let ?go = "\<lparr>go_nodes = xo_nodes opts, go_virtual = (if xo_virtual opts \<le> 0 then default_virtual else xo_virtual opts)\<rparr>"
  have o: "gateway_open srt ?go = Inr (px_gw p)" using assms(2) by (auto simp: proxy_open_def split: if_splits sum.splits)
  have v: "effective_virtual (go_virtual ?go) = effective_virtual (xo_virtual opts)" by (simp add: effective_virtual_def default_virtual_def)
  show "gateway_ok (px_gw p)" using gateway_open_ok(1) [OF assms(1) o] assms(3) unfolding v by simp
  show "go_nodes (gy_opts (px_gw p)) = xo_nodes opts" using gateway_open_ok(2) [OF assms(1) o] assms(3) unfolding v by simp
qed



text \<open>Requests that reorganise nothing leave every engine running, so their runs are never \<open>None\<close>.\<close>

lemma net_ok_open: "net_ok n m g net \<Longrightarrow> backends_open g net"
  by (auto simp: net_ok_def backends_open_def engine_kv.array_ok_def engine_ok_def in_set_conv_nth)

lemma kv_run:
  assumes "net_ok n m (px_gw p) net" "n + length rqs \<le> 2 ^ 29" "\<forall>rq \<in> set rqs. \<exists>meth path body io t. rq = Xq_kv meth path body io (good_kv t)"
  shows "\<exists>reps net'. proxy_run c r rqs p net = Some (reps, net')"
  using assms
proof (induction rqs arbitrary: n m net)
  case (Cons rq rqs)
  obtain meth path body io t where rq: "rq = Xq_kv meth path body io (good_kv t)" using Cons.prems(3) by auto
  obtain rep net1 where s: "px_kv c r io (good_kv t) meth path body p net = (rep, net1)" by fastforce
  obtain m' where m: "net_ok (n + 1) m' (px_gw p) net1" using kv_step [OF Cons.prems(1) _ s] Cons.prems(2) by auto
  obtain reps net' where "proxy_run c r rqs p net1 = Some (reps, net')" using Cons.IH [OF m] Cons.prems(2,3) by auto
  then show ?case using s net_ok_open [OF m] by (simp add: rq)
qed simp

definition demo_nodes :: "gw_node list" where
  "demo_nodes = [\<lparr>gn_id = [97], gn_url = [97], gn_weight = 1\<rparr>, \<lparr>gn_id = [98], gn_url = [98], gn_weight = 1\<rparr>]"

definition demo_proxy_options :: proxy_options where
  "demo_proxy_options = \<lparr>xo_addr = [], xo_nodes = demo_nodes, xo_virtual = 1\<rparr>"

definition demo_requests :: "proxy_request list" where
  "demo_requests = [Xq_kv ''PUT'' (kv_path [107]) (Some [118]) \<lparr>ca_reached = True, ca_answered = False\<rparr> (good_kv 1),
     Xq_kv ''GET'' (kv_path [107]) None \<lparr>ca_reached = True, ca_answered = True\<rparr> (good_kv 2)]"

lemma sort_key_slice: "sort_slice_ok (sort_key gp_hash)"
  by (simp add: sort_slice_ok_def)

lemma demo_session:
  obtains p nd d where "proxy_open (sort_key gp_hash) demo_proxy_options = Inr p" "xo_nodes demo_proxy_options = demo_nodes"
    "\<exists>n \<in> set demo_nodes. 0 < point_count (effective_virtual (xo_virtual demo_proxy_options)) n"
    "node_open good_open (demo_options []) fresh_node_disk = (Inr nd, d)" "fresh_cluster demo_nodes (\<lambda>_. Some nd)"
    "\<exists>reps net'. proxy_run (\<lambda>_ _. 1) (\<lambda>_ _. 1) demo_requests p (\<lambda>_. Some nd) = Some (reps, net')"
proof -
  have "\<not> isl (proxy_open (sort_key gp_hash) demo_proxy_options)" by code_simp
  then obtain p where p: "proxy_open (sort_key gp_hash) demo_proxy_options = Inr p" by (metis isl_def sum.exhaust)
  have "\<not> isl (fst (node_open good_open (demo_options []) fresh_node_disk))" by code_simp
  then obtain nd d where nd: "node_open good_open (demo_options []) fresh_node_disk = (Inr nd, d)" by (metis isl_def sum.exhaust prod.collapse)
  have c: "\<exists>n \<in> set demo_nodes. 0 < point_count (effective_virtual (xo_virtual demo_proxy_options)) n" by code_simp
  have n: "xo_nodes demo_proxy_options = demo_nodes" by (simp add: demo_proxy_options_def)
  have f: "fresh_cluster demo_nodes (\<lambda>_. Some nd)" 
    using nd unfolding fresh_cluster_def by (intro ballI exI [of _ "demo_options []"]) (simp add: demo_options_def)
  have "net_ok 0 Map.empty (px_gw p) (\<lambda>_. Some nd)"
    using proxy_open_gateway [OF sort_key_slice p] c f n fresh_net_ok by simp
  then have "\<exists>reps net'. proxy_run (\<lambda>_ _. 1) (\<lambda>_ _. 1) demo_requests p (\<lambda>_. Some nd) = Some (reps, net')"
    by (rule kv_run) (auto simp: demo_requests_def)
  then show thesis using that p n c nd f by blast
qed


end
