(* ===== verification/OpsSpec.thy ===== *)
theory OpsSpec
  imports Ops ProxySpec
begin

text \<open>
  What a valid configuration guarantees, and what the operations layer reports about its ring: a failure takes exactly the keys of the failed
  nodes, a rebalance moves only keys of removed nodes or to added ones.
\<close>

section \<open>Valid configurations\<close>

lemma validate_nodes_checks:
  "validate_nodes ids urls ns \<Longrightarrow> check_gw_nodes ids urls (map sim_node ns) \<and> (\<forall>n \<in> set ns. 0 < cn_weight n)"
  by (induction ids urls ns rule: validate_nodes.induct) (auto simp: sim_node_def split: if_splits)

lemma validate_configD:
  assumes "validate_config c = None"
  shows "cf_nodes c \<noteq> []" "0 < cg_virtual (cf_routing c)" "validate_nodes [] [] (cf_nodes c)" "validate_cl_replication (cf_nodes c)"
    "check_gw_nodes [] [] (map sim_node (cf_nodes c))" "\<forall>n \<in> set (cf_nodes c). 0 < cn_weight n"
  using assms validate_nodes_checks [of "[]" "[]" "cf_nodes c"] by (auto simp: validate_config_def Let_def split: if_splits)

lemma valid_node_configs:
  assumes "validate_config c = None"
  shows "node_configs c = Inr (map sim_node (cf_nodes c))"
  using assms validate_configD(6) [OF assms] by (auto simp: node_configs_def sim_node_def)

section \<open>The points of a list of nodes\<close>

definition config_points :: "cl_node list \<Rightarrow> int \<Rightarrow> ring_point list" where
  "config_points ns v = concat (map (node_points (effective_virtual v)) (map sim_node ns))"

definition has_points :: "cl_node list \<Rightarrow> int \<Rightarrow> bool" where
  "has_points ns v \<longleftrightarrow> (\<forall>n \<in> set ns. 0 < point_count (effective_virtual v) (sim_node n))"

lemma node_points_owner [simp]: "t \<in> set (node_points v n) \<Longrightarrow> gp_node t = gn_id n"
  by (auto simp: node_points_def)

lemma config_points_filter: "filter (\<lambda>t. P (gp_node t)) (config_points ns v) = config_points (filter (\<lambda>n. P (cn_id n)) ns) v"
proof -
  have "filter (\<lambda>t. P (gp_node t)) (node_points w (sim_node n)) = (if P (cn_id n) then node_points w (sim_node n) else [])" for w n
    by (auto simp: filter_empty_conv filter_id_conv sim_node_def dest!: node_points_owner)
  then show ?thesis unfolding config_points_def by (induction ns) simp_all
qed

lemma config_points_nonempty: "has_points ns v \<Longrightarrow> ns \<noteq> [] \<Longrightarrow> config_points ns v \<noteq> []"
  by (cases ns) (auto simp: config_points_def has_points_def node_points_def)

lemma config_points_owners: "has_points ns v \<Longrightarrow> gp_node ` set (config_points ns v) = cn_id ` set ns"
proof (intro set_eqI iffI)
  fix x assume h: "has_points ns v" "x \<in> cn_id ` set ns"
  then obtain n where n: "n \<in> set ns" "x = cn_id n" by auto
  then have "0 < point_count (effective_virtual v) (sim_node n)" using h(1) by (simp add: has_points_def)
  then have "\<exists>t \<in> set (node_points (effective_virtual v) (sim_node n)). gp_node t = cn_id n"
    by (auto simp: node_points_def sim_node_def)
  then show "x \<in> gp_node ` set (config_points ns v)" using n by (force simp: config_points_def)
qed (auto simp: config_points_def sim_node_def)

text \<open>With distinct hashes the order of the points is theirs alone, so dropping nodes drops their points and nothing else.\<close>

lemma sorted_points_unique:
  assumes "sort_slice_ok srt" "distinct (map gp_hash ps)" "set qs = set ps" "sorted (map gp_hash qs)" "distinct (map gp_hash qs)"
  shows "srt ps = qs"
proof -
  have m: "mset (srt ps) = mset ps" "sorted (map gp_hash (srt ps))" using assms(1) by (simp_all add: sort_slice_ok_def)
  then have s: "set (srt ps) = set qs" using assms(3) by (metis set_mset_mset)
  have "mset (map gp_hash (srt ps)) = mset (map gp_hash ps)" using m(1) by simp
  then have d: "distinct (map gp_hash (srt ps))" using assms(2) mset_eq_imp_distinct_iff by blast
  have "inj_on gp_hash (set (srt ps) \<union> set qs)" using assms(5) s by (simp add: distinct_map)
  from map_sorted_distinct_set_unique [OF this m(2) d assms(4,5) s] show ?thesis .
qed

lemma sort_points_filter:
  assumes "sort_slice_ok srt" "distinct (map gp_hash (config_points ns v))"
  shows "srt (config_points (filter (\<lambda>n. P (cn_id n)) ns) v) = filter (\<lambda>t. P (gp_node t)) (srt (config_points ns v))"
proof (rule sorted_points_unique [OF assms(1)])
  let ?ps = "config_points ns v"
  have m: "mset (srt ?ps) = mset ?ps" "sorted (map gp_hash (srt ?ps))" using assms(1) by (simp_all add: sort_slice_ok_def)
  then have s: "set (srt ?ps) = set ?ps" by (metis set_mset_mset)
  have "mset (map gp_hash (srt ?ps)) = mset (map gp_hash ?ps)" using m(1) by simp
  then have d: "distinct (map gp_hash (srt ?ps))" using assms(2) mset_eq_imp_distinct_iff by blast
  show "set (filter (\<lambda>t. P (gp_node t)) (srt ?ps)) = set (config_points (filter (\<lambda>n. P (cn_id n)) ns) v)"
    by (simp add: config_points_filter [symmetric] s)
  show "distinct (map gp_hash (config_points (filter (\<lambda>n. P (cn_id n)) ns) v))"
    using assms(2) by (simp add: config_points_filter [symmetric] distinct_map_filter)
  show "distinct (map gp_hash (filter (\<lambda>t. P (gp_node t)) (srt ?ps)))" using d by (simp add: distinct_map_filter)
  show "sorted (map gp_hash (filter (\<lambda>t. P (gp_node t)) (srt ?ps)))" using m(2) by (rule sorted_filter)
qed

section \<open>Routing on a simulated gateway\<close>

text \<open>The owner of a key among the live nodes: of the first of their points clockwise from the key's hash.\<close>

definition ring_owner :: "cl_node list \<Rightarrow> int \<Rightarrow> bytes \<Rightarrow> bytes \<Rightarrow> bool" where
  "ring_owner ns v k w \<longleftrightarrow> (\<exists>t. clockwise_first gp_hash (fnv1a64 k) (set (config_points ns v)) t \<and> gp_node t = w)"

lemma gateway_open_eq:
  "go_nodes opts \<noteq> [] \<Longrightarrow> check_gw_nodes [] [] (go_nodes opts) \<Longrightarrow> gateway_open srt opts =
     Inr \<lparr>gy_ring = \<lparr>hr_points = srt (concat (map (node_points (effective_virtual (go_virtual opts))) (go_nodes opts))),
       hr_nodes = go_nodes opts\<rparr>, gy_opts = opts, gy_closed = False\<rparr>"
  by (simp add: gateway_open_def new_hash_ring_def effective_virtual_def default_virtual_def Let_def)

lemma sim_options_virtual [simp]: "effective_virtual (go_virtual (sim_options ns v)) = effective_virtual v" "go_nodes (sim_options ns v) = map sim_node ns"
  by (simp_all add: effective_virtual_def sim_options_def cl_default_virtual_def)

lemma sim_gateway:
  assumes "sort_slice_ok srt" "ns \<noteq> []" "check_gw_nodes [] [] (map sim_node ns)" "has_points ns v"
  obtains g where "gateway_open srt (sim_options ns v) = Inr g" "gateway_ok g" "hr_points (gy_ring g) = srt (config_points ns v)"
proof -
  obtain g where g: "gateway_open srt (sim_options ns v) = Inr g" "hr_points (gy_ring g) = srt (config_points ns v)"
    using gateway_open_eq [of "sim_options ns v" srt] assms(2,3) by (simp add: config_points_def)
  have "\<exists>n \<in> set (go_nodes (sim_options ns v)). 0 < point_count (effective_virtual (go_virtual (sim_options ns v))) n"
    using assms(2,4) by (cases ns) (auto simp: has_points_def)
  from gateway_open_ok(1) [OF assms(1) g(1) this] g show thesis using that by blast
qed

lemma gateway_target_lookup:
  "gateway_ok g \<Longrightarrow> k \<noteq> [] \<Longrightarrow> \<exists>w. point_lookup (hr_points (gy_ring g)) k = Some w
     \<and> gateway_target (Inr g) k = Inr w \<and> planned_node g k = Some w"
  using gateway_route_ok(2,3) [of g k]
  by (auto simp: gateway_target_def planned_node_def gateway_node_for_key_def gateway_ok_def)

lemma sorted_points_owner:
  assumes "sort_slice_ok srt" "ns \<noteq> []" "has_points ns v" "point_lookup (srt (config_points ns v)) k = Some w"
  shows "ring_owner ns v k w" "w \<in> cn_id ` set ns"
proof -
  let ?ps = "config_points ns v"
  have m: "mset (srt ?ps) = mset ?ps" "sorted (map gp_hash (srt ?ps))" using assms(1) by (simp_all add: sort_slice_ok_def)
  then have s: "set (srt ?ps) = set ?ps" by (metis set_mset_mset)
  then have ne: "srt ?ps \<noteq> []" using config_points_nonempty [OF assms(3,2)] by (metis set_empty)
  obtain t where t: "point_lookup (srt ?ps) k = Some (gp_node t)" "clockwise_first gp_hash (fnv1a64 k) (set (srt ?ps)) t"
    using points.lookup_clockwise [OF m(2) ne] by blast
  then show "ring_owner ns v k w" using assms(4) s by (auto simp: ring_owner_def)
  have "t \<in> set ?ps" using t(2) s by (simp add: clockwise_first_def)
  then show "w \<in> cn_id ` set ns" using t(1) assms(4) config_points_owners [OF assms(3)] by auto
qed


section \<open>Failures\<close>

lemma sim_node_sel [simp]: "gn_id (sim_node n) = cn_id n" "gn_url (sim_node n) = cn_url n"
  by (simp_all add: sim_node_def)

lemma check_gw_filter: "check_gw_nodes ids urls (map sim_node ns) \<Longrightarrow> check_gw_nodes ids urls (map sim_node (filter P ns))"
proof (induction ns arbitrary: ids urls)
  case (Cons n ns)
  have weaken: "check_gw_nodes i u xs \<Longrightarrow> set i' \<subseteq> set i \<Longrightarrow> set u' \<subseteq> set u \<Longrightarrow> check_gw_nodes i' u' xs" for i u i' u' xs
  proof (induction i u xs arbitrary: i' u' rule: check_gw_nodes.induct)
    case (2 ids urls n ns)
    have "check_gw_nodes (gn_id n # i') (gn_url n # u') ns"
      by (rule "2.IH") (use "2.prems" in \<open>auto split: if_splits\<close>)
    then show ?case using "2.prems" by (auto split: if_splits)
  qed simp
  have "check_gw_nodes (cn_id n # ids) (cn_url n # urls) (map sim_node (filter P ns))"
    using Cons.IH [of "cn_id n # ids" "cn_url n # urls"] Cons.prems by (auto split: if_splits)
  moreover from this have "check_gw_nodes ids urls (map sim_node (filter P ns))" by (rule weaken) auto
  ultimately show ?case using Cons.prems by (cases "P n") (auto split: if_splits)
qed simp

text \<open>What the simulation promises for one key of the sample.\<close>

definition impact_exact :: "cl_config \<Rightarrow> bytes list \<Rightarrow> key_impact \<Rightarrow> bool \<Rightarrow> bool" where
  "impact_exact c down i affected \<longleftrightarrow>
     (let v = cg_virtual (cf_routing c); live = filter (\<lambda>n. cn_id n \<notin> set down) (cf_nodes c) in
      if ki_key i = [] then affected \<and> ki_unavailable i
      else ring_owner (cf_nodes c) v (ki_key i) (ki_original i) \<and> (affected \<longleftrightarrow> ki_original i \<in> set down) \<and> \<not> ki_moved i
        \<and> (ki_unavailable i \<longleftrightarrow> live = [])
        \<and> (live \<noteq> [] \<longrightarrow> ring_owner live v (ki_key i) (ki_new i) \<and> (\<not> affected \<longrightarrow> ki_new i = ki_original i)))"

lemma key_impact_exact:
  assumes s: "sort_slice_ok srt" and c: "validate_config c = None" and h: "has_points (cf_nodes c) (cg_virtual (cf_routing c))"
    and d: "distinct (map gp_hash (config_points (cf_nodes c) (cg_virtual (cf_routing c))))"
    and ds: "set ds = set down" and hs: "set hs = cn_id ` set (filter (\<lambda>n. cn_id n \<notin> set down) (cf_nodes c))"
  obtains i a where "key_impact_of srt c ds hs k = Inr (i, a)" "ki_key i = k" "impact_exact c down i a"
proof (cases "k = []")
  case True
  then show thesis using that by (auto simp: key_impact_of_def route_key_def impact_exact_def)
next
  case k: False
  let ?ns = "cf_nodes c" and ?v = "cg_virtual (cf_routing c)"
  let ?live = "filter (\<lambda>n. cn_id n \<notin> set down) ?ns"
  note v = validate_configD [OF c]
  obtain g where g: "gateway_open srt (sim_options ?ns ?v) = Inr g" "gateway_ok g" "hr_points (gy_ring g) = srt (config_points ?ns ?v)"
    using sim_gateway [OF s v(1,5) h] .
  obtain w where w: "point_lookup (srt (config_points ?ns ?v)) k = Some w" "gateway_target (Inr g) k = Inr w"
    using gateway_target_lookup [OF g(2) k] g(3) by auto
  have "gateway_options c = Inr (sim_options ?ns ?v)"
    using valid_node_configs [OF c] v(2) by (simp add: gateway_options_def sim_options_def)
  then have r: "route_key srt c k = Inr w" using k g(1) w(2) by (simp add: route_key_def)
  note ow = sorted_points_owner [OF s v(1) h w(1)]
  show thesis
  proof (cases "?live = []")
    case True
    then have "hs = []" using hs by simp
    moreover have "w \<in> set down" using ow(2) True by (auto simp: filter_empty_conv)
    ultimately show thesis using that [of "\<lparr>ki_key = k, ki_original = w, ki_new = [], ki_moved = False, ki_unavailable = True\<rparr>" True] r k ow True
      by (simp add: key_impact_of_def impact_exact_def)
  next
    case False
    have hl: "has_points ?live ?v" using h by (simp add: has_points_def)
    obtain g' where g': "gateway_open srt (sim_options ?live ?v) = Inr g'" "gateway_ok g'" "hr_points (gy_ring g') = srt (config_points ?live ?v)"
      using sim_gateway [OF s False check_gw_filter [OF v(5)] hl] .
    obtain w' where w': "point_lookup (srt (config_points ?live ?v)) k = Some w'" "gateway_target (Inr g') k = Inr w'"
      using gateway_target_lookup [OF g'(2) k] g'(3) by auto
    note ow' = sorted_points_owner [OF s False hl w'(1)]
    have "cn_id n \<in> set hs \<longleftrightarrow> cn_id n \<notin> set down" if "n \<in> set ?ns" for n using hs that by auto
    then have "filter (\<lambda>n. cn_id n \<in> set hs) ?ns = ?live" by (rule filter_cong [OF refl])
    then have r': "route_key_available srt c k hs = Inr w'"
      using k False hs g'(1) w'(2) by (auto simp: route_key_available_def Let_def)
    have sp: "sorted (map gp_hash (srt (config_points ?ns ?v)))" using s by (simp add: sort_slice_ok_def)
    have ne: "srt (config_points ?ns ?v) \<noteq> []"
      using config_points_nonempty [OF h v(1)] s unfolding sort_slice_ok_def by (metis mset_zero_iff)
    have keep: "w' = w" if "w \<notin> set down"
      using points.lookup_restrict [OF sp w(1), of "\<lambda>x. x \<notin> set down"] that ne w'(1)
      by (simp add: sort_points_filter [OF s d, of "\<lambda>x. x \<notin> set down"])
    have up: "w' \<notin> set down" using ow'(2) by auto
    let ?i = "\<lparr>ki_key = k, ki_original = w, ki_new = w', ki_moved = False, ki_unavailable = False\<rparr>"
    have "hs \<noteq> []" using hs False by auto
    then have "key_impact_of srt c ds hs k = Inr (?i, w \<in> set down)" using r r' ds keep by (auto simp: key_impact_of_def)
    moreover have "impact_exact c down ?i (w \<in> set down)" using k ow(1) ow'(1) False keep by (auto simp: impact_exact_def Let_def)
    ultimately show thesis using that by simp
  qed
qed

lemma image_filter_partition: "image_mset f (filter_mset P M) + image_mset f {#x \<in># M. \<not> P x#} = image_mset f M"
  by (metis image_mset_union multiset_partition)

lemma simulate_keys_exact:
  assumes "\<And>k. \<exists>i a. key_impact_of srt c ds hs k = Inr (i, a) \<and> ki_key i = k \<and> impact_exact c down i a"
  shows "\<exists>xs. simulate_keys srt c ds hs ks = Inr xs \<and> map (ki_key \<circ> fst) xs = ks \<and> (\<forall>(i, a) \<in> set xs. impact_exact c down i a)"
proof (induction ks)
  case (Cons k ks)
  obtain i a where "key_impact_of srt c ds hs k = Inr (i, a)" "ki_key i = k" "impact_exact c down i a" using assms by blast
  then show ?case using Cons by auto
qed simp

text \<open>C9: the failure simulation over a valid configuration in which every node gets at least one point on the ring (\<open>has_points\<close>:
  virtual nodes times weight does not wrap to zero or below) and whose ring points have distinct hashes, asked for
  at least one key and for known nodes, returns and reports exactly what the ring
  does: every sample key appears once, with its owner on the full ring; a key is affected exactly when that owner is down, it is unavailable only
  when no node is left, and otherwise its new node is the owner among the live nodes. In particular no key whose node is up ever changes its node: the
  count of moved keys is always zero.\<close>

theorem simulate_failure_exact:
  assumes "sort_slice_ok srt" "validate_config c = None" "has_points (cf_nodes c) (cg_virtual (cf_routing c))"
    and "distinct (map gp_hash (config_points (cf_nodes c) (cg_virtual (cf_routing c))))"
    and "keys \<noteq> []" "set down \<subseteq> cn_id ` set (cf_nodes c)"
  shows "\<exists>s. simulate_failure srt c down keys = Inr s \<and> sm_moved s = 0
    \<and> mset (map ki_key (sm_affected s @ sm_unaffected s)) = mset keys
    \<and> (\<forall>i \<in> set (sm_affected s). impact_exact c down i True) \<and> (\<forall>i \<in> set (sm_unaffected s). impact_exact c down i False)"
proof -
  let ?ds = "sort (remdups down)" and ?hs = "sort (map cn_id (filter (\<lambda>n. cn_id n \<notin> set down) (cf_nodes c)))"
  have one: "\<exists>i a. key_impact_of srt c ?ds ?hs k = Inr (i, a) \<and> ki_key i = k \<and> impact_exact c down i a" for k
    by (rule key_impact_exact [OF assms(1-4), of ?ds down ?hs k]) auto
  obtain xs where xs: "simulate_keys srt c ?ds ?hs keys = Inr xs" "map (ki_key \<circ> fst) xs = keys" "\<forall>(i, a) \<in> set xs. impact_exact c down i a"
    using simulate_keys_exact [OF one] by blast
  let ?aff = "map fst (filter snd xs)" and ?un = "map fst (filter (Not \<circ> snd) xs)"
  have r: "simulate_failure srt c down keys = Inr \<lparr>sm_down = ?ds, sm_healthy = ?hs, sm_affected = ?aff, sm_unaffected = ?un,
      sm_moved = length (filter (\<lambda>k. \<not> ki_unavailable k \<and> ki_moved k) ?aff), sm_unavailable = length (filter ki_unavailable ?aff)\<rparr>"
    using assms(5,6) xs(1) by (auto simp: simulate_failure_def Let_def)
  have a: "\<forall>i \<in> set ?aff. impact_exact c down i True" "\<forall>i \<in> set ?un. impact_exact c down i False" using xs(3) by fastforce+
  have "ki_unavailable i \<or> \<not> ki_moved i" if "i \<in> set ?aff" for i
    using bspec [OF a(1) that] by (auto simp: impact_exact_def Let_def split: if_splits)
  then have m: "filter (\<lambda>k. \<not> ki_unavailable k \<and> ki_moved k) ?aff = []" by (auto simp: filter_empty_conv)
  have "mset (map ki_key (?aff @ ?un)) = image_mset (\<lambda>x. ki_key (fst x)) (mset xs)"
    by (simp add: image_mset.compositionality comp_def image_filter_partition)
  then have k: "mset (map ki_key (?aff @ ?un)) = mset keys" using arg_cong [OF xs(2), of mset] by (simp add: comp_def)
  show ?thesis using a unfolding r sum.inject(2) ex_simps(1) simp_thms
    by (intro exI [of _ "\<lparr>sm_down = ?ds, sm_healthy = ?hs, sm_affected = ?aff, sm_unaffected = ?un,
      sm_moved = length (filter (\<lambda>k. \<not> ki_unavailable k \<and> ki_moved k) ?aff), sm_unavailable = length (filter ki_unavailable ?aff)\<rparr>"] conjI;
      simp only: simulation.select_convs m a k list.size)
qed


section \<open>Rebalance plans\<close>

text \<open>Dropping the points of some owners from a ring and from one that has other owners instead leaves the same ring.\<close>

lemma common_ring:
  assumes s: "sort_slice_ok srt" and d: "distinct (map gp_hash (config_points ns v))" "distinct (map gp_hash (config_points (filter (\<lambda>n. cn_id n \<notin> R) ns @ added) v))"
    and disj: "\<forall>n \<in> set (filter (\<lambda>n. cn_id n \<notin> R) ns). cn_id n \<notin> cn_id ` set added"
  shows "filter (\<lambda>t. gp_node t \<notin> R) (srt (config_points ns v))
    = filter (\<lambda>t. gp_node t \<notin> cn_id ` set added) (srt (config_points (filter (\<lambda>n. cn_id n \<notin> R) ns @ added) v))"
proof -
  have "filter (\<lambda>n. cn_id n \<notin> cn_id ` set added) (filter (\<lambda>n. cn_id n \<notin> R) ns) = filter (\<lambda>n. cn_id n \<notin> R) ns"
    using disj unfolding filter_id_conv by blast
  moreover have "filter (\<lambda>n. cn_id n \<notin> cn_id ` set added) added = []" by (simp add: filter_empty_conv)
  ultimately have "filter (\<lambda>n. cn_id n \<notin> cn_id ` set added) (filter (\<lambda>n. cn_id n \<notin> R) ns @ added) = filter (\<lambda>n. cn_id n \<notin> R) ns"
    by (simp only: filter_append append_Nil2)
  then show ?thesis
    using sort_points_filter [OF s d(1), of "\<lambda>x. x \<notin> R"] sort_points_filter [OF s d(2), of "\<lambda>x. x \<notin> cn_id ` set added"] by simp
qed

lemma check_gw_append_disjoint:
  "check_gw_nodes ids urls (map sim_node (ns @ ms)) \<Longrightarrow> \<forall>n \<in> set ns. cn_id n \<notin> cn_id ` set ms"
proof -
  assume "check_gw_nodes ids urls (map sim_node (ns @ ms))"
  then have "distinct (map gn_id (map sim_node (ns @ ms)))" using check_gw_distinct by blast
  then have "cn_id ` set ns \<inter> cn_id ` set ms = {}" by (simp add: comp_def)
  then show ?thesis by blast
qed

lemma ring_keeps:
  assumes s: "sort_slice_ok srt" and ne: "cur \<noteq> []" "pl \<noteq> []" and h: "has_points cur v" "has_points pl v"
    and eq: "filter (\<lambda>t. gp_node t \<notin> R) (srt (config_points cur v)) = filter (\<lambda>t. gp_node t \<notin> A) (srt (config_points pl v))"
    and w: "point_lookup (srt (config_points cur v)) k = Some f" "point_lookup (srt (config_points pl v)) k = Some t" "f \<notin> R" "t \<notin> A"
  shows "f = t"
proof -
  have sp: "sorted (map gp_hash (srt ps))" for ps using s by (simp add: sort_slice_ok_def)
  have n: "srt (config_points cur v) \<noteq> []" "srt (config_points pl v) \<noteq> []"
    using config_points_nonempty [OF h(1) ne(1)] config_points_nonempty [OF h(2) ne(2)] s
    unfolding sort_slice_ok_def by (metis mset_zero_iff)+
  show ?thesis
    using points.lookup_restrict [OF sp w(1), of "\<lambda>x. x \<notin> R"] points.lookup_restrict [OF sp w(2), of "\<lambda>x. x \<notin> A"] w(3,4) n eq by simp
qed

text \<open>C10: a rebalance plan whose two rings have distinct point hashes lists every sample key once, from its owner on the
  current ring to its owner on the planned one, and moves only keys of a removed node or keys that go to an added one; everything else
  stays where it is. Moved and stable keys add up to the sample.\<close>

theorem plan_rebalance_minimal:
  assumes "sort_slice_ok srt" "plan_rebalance srt c removed added keys = Inr r"
    and "\<forall>ns \<in> {cf_nodes c, filter (\<lambda>n. cn_id n \<notin> set removed) (cf_nodes c) @ added}.
      has_points ns (cg_virtual (cf_routing c)) \<and> distinct (map gp_hash (config_points ns (cg_virtual (cf_routing c))))"
  shows "map km_key (rb_movements r) = keys \<and> rb_moved r + rb_stable r = length keys
    \<and> rb_moved r = length (filter km_moved (rb_movements r))
    \<and> (\<forall>m \<in> set (rb_movements r). km_key m \<noteq> [] \<longrightarrow>
         ring_owner (cf_nodes c) (cg_virtual (cf_routing c)) (km_key m) (km_from m)
         \<and> ring_owner (filter (\<lambda>n. cn_id n \<notin> set removed) (cf_nodes c) @ added) (cg_virtual (cf_routing c)) (km_key m) (km_to m)
         \<and> (km_moved m \<longleftrightarrow> km_from m \<noteq> km_to m)
         \<and> (km_moved m \<longrightarrow> km_from m \<in> set removed \<or> km_to m \<in> cn_id ` set added))"
proof -
  let ?v = "cg_virtual (cf_routing c)" and ?cur = "cf_nodes c"
  let ?pl = "filter (\<lambda>n. cn_id n \<notin> set removed) ?cur @ added"
  have h: "has_points ?cur ?v" "distinct (map gp_hash (config_points ?cur ?v))" "has_points ?pl ?v" "distinct (map gp_hash (config_points ?pl ?v))"
    using assms(3) by blast+
  obtain gc gp where g: "build_gateway srt ?cur ?v = Inr gc" "build_gateway srt ?pl ?v = Inr gp"
    and none: "None \<notin> set (map (key_movement_of gc gp) keys)"
    and r: "rb_movements r = map (the \<circ> key_movement_of gc gp) keys" "rb_moved r = length (filter km_moved (rb_movements r))"
      "rb_stable r = length keys - rb_moved r"
    using assms(2) by (auto simp: plan_rebalance_def Let_def split: if_splits sum.splits)
  have b: "ns \<noteq> [] \<and> check_gw_nodes [] [] (map sim_node ns)" if "build_gateway srt ns ?v = Inr g" for ns g
    using that by (auto simp: build_gateway_def gateway_open_def new_hash_ring_def Let_def sim_options_def split: if_splits)
  have o: "\<exists>g'. gateway_open srt (sim_options ns ?v) = Inr g' \<and> g' = g" if "build_gateway srt ns ?v = Inr g" for ns g
    using that by (auto simp: build_gateway_def split: if_splits sum.splits)
  have gc: "gateway_ok gc" "hr_points (gy_ring gc) = srt (config_points ?cur ?v)"
    using sim_gateway [OF assms(1) _ _ h(1)] b [OF g(1)] o [OF g(1)] by (metis sum.inject(2))+
  have gp: "gateway_ok gp" "hr_points (gy_ring gp) = srt (config_points ?pl ?v)"
    using sim_gateway [OF assms(1) _ _ h(3)] b [OF g(2)] o [OF g(2)] by (metis sum.inject(2))+
  have ring: "filter (\<lambda>t. gp_node t \<notin> set removed) (srt (config_points ?cur ?v))
      = filter (\<lambda>t. gp_node t \<notin> cn_id ` set added) (srt (config_points ?pl ?v))"
    using common_ring [OF assms(1) h(2,4)] check_gw_append_disjoint b [OF g(2)] by blast
  have mv: "\<exists>f t. key_movement_of gc gp k = Some \<lparr>km_key = k, km_from = f, km_to = t, km_moved = (f \<noteq> t)\<rparr>
      \<and> ring_owner ?cur ?v k f \<and> ring_owner ?pl ?v k t \<and> (f \<noteq> t \<longrightarrow> f \<in> set removed \<or> t \<in> cn_id ` set added)" if k: "k \<noteq> []" for k
  proof -
    obtain f where f: "point_lookup (srt (config_points ?cur ?v)) k = Some f" "planned_node gc k = Some f"
      using gateway_target_lookup [OF gc(1) k] gc(2) by auto
    obtain t where t: "point_lookup (srt (config_points ?pl ?v)) k = Some t" "planned_node gp k = Some t"
      using gateway_target_lookup [OF gp(1) k] gp(2) by auto
    have n: "?cur \<noteq> []" "?pl \<noteq> []" using b [OF g(1)] b [OF g(2)] by simp_all
    have "f \<noteq> t \<longrightarrow> f \<in> set removed \<or> t \<in> cn_id ` set added"
      using ring_keeps [OF assms(1) n h(1,3) ring f(1) t(1)] by blast
    then show ?thesis
      using f t sorted_points_owner(1) [OF assms(1) n(1) h(1) f(1)] sorted_points_owner(1) [OF assms(1) n(2) h(3) t(1)]
      by (simp add: key_movement_of_def)
  qed
  have key: "km_key (the (key_movement_of gc gp k)) = k" if "k \<in> set keys" for k
  proof -
    have "key_movement_of gc gp k \<noteq> None" using none that by force
    then show ?thesis by (auto simp: key_movement_of_def split: option.splits)
  qed
  have "map km_key (rb_movements r) = keys" using key unfolding r(1) by (auto intro!: map_idI)
  moreover have "rb_moved r + rb_stable r = length keys" using r(2,3) length_filter_le [of km_moved "rb_movements r"] r(1) by simp
  moreover have "km_key m \<noteq> [] \<longrightarrow> ring_owner ?cur ?v (km_key m) (km_from m) \<and> ring_owner ?pl ?v (km_key m) (km_to m)
      \<and> (km_moved m \<longleftrightarrow> km_from m \<noteq> km_to m) \<and> (km_moved m \<longrightarrow> km_from m \<in> set removed \<or> km_to m \<in> cn_id ` set added)"
    if mm: "m \<in> set (rb_movements r)" for m
  proof
    assume k: "km_key m \<noteq> []"
    obtain k' where "m = the (key_movement_of gc gp k')" "k' \<in> set keys" using mm unfolding r(1) by auto
    then have k': "m = the (key_movement_of gc gp k')" "k' = km_key m" using key by simp_all
    have kk: "k' \<noteq> []" using k k'(2) by simp
    obtain f t where ft: "key_movement_of gc gp k' = Some \<lparr>km_key = k', km_from = f, km_to = t, km_moved = (f \<noteq> t)\<rparr>"
      "ring_owner ?cur ?v k' f" "ring_owner ?pl ?v k' t" "f \<noteq> t \<longrightarrow> f \<in> set removed \<or> t \<in> cn_id ` set added"
      using mv [OF kk] that by (elim exE conjE)
    have "m = \<lparr>km_key = k', km_from = f, km_to = t, km_moved = (f \<noteq> t)\<rparr>" using k'(1) ft(1) by simp
    then show "ring_owner ?cur ?v (km_key m) (km_from m) \<and> ring_owner ?pl ?v (km_key m) (km_to m)
      \<and> (km_moved m \<longleftrightarrow> km_from m \<noteq> km_to m) \<and> (km_moved m \<longrightarrow> km_from m \<in> set removed \<or> km_to m \<in> cn_id ` set added)"
      using ft(2-4) by simp
  qed
  ultimately show ?thesis using r(2) by blast
qed


section \<open>A concrete cluster\<close>

definition demo_cluster :: cl_config where
  "demo_cluster = (let c = default_config (ascii ''demo'')
      [\<lparr>cn_id = ascii ''a'', cn_url = ascii ''http://a'', cn_addr = [], cn_dir = [], cn_weight = 1, cn_rep = no_replication\<rparr>,
       \<lparr>cn_id = ascii ''b'', cn_url = ascii ''http://b'', cn_addr = [], cn_dir = [], cn_weight = 1, cn_rep = no_replication\<rparr>]
    in c\<lparr>cf_routing := (cf_routing c)\<lparr>cg_virtual := 1\<rparr>\<rparr>)"

definition demo_added :: cl_node where
  "demo_added = \<lparr>cn_id = ascii ''c'', cn_url = ascii ''http://c'', cn_addr = [], cn_dir = [], cn_weight = 1, cn_rep = no_replication\<rparr>"

theorem simulate_failure_exact_witness:
  "\<exists>s. simulate_failure (sort_key gp_hash) demo_cluster [ascii ''a''] [[107], [108], []] = Inr s \<and> sm_moved s = 0
    \<and> (\<forall>i \<in> set (sm_affected s). impact_exact demo_cluster [ascii ''a''] i True)"
proof -
  have v: "validate_config demo_cluster = None" by code_simp
  have "list_all (\<lambda>n. 0 < point_count (effective_virtual 1) (sim_node n)) (cf_nodes demo_cluster)" by code_simp
  moreover have r: "cg_virtual (cf_routing demo_cluster) = 1" by code_simp
  ultimately have h: "has_points (cf_nodes demo_cluster) (cg_virtual (cf_routing demo_cluster))" by (simp add: has_points_def list_all_iff)
  have d: "distinct (map gp_hash (config_points (cf_nodes demo_cluster) (cg_virtual (cf_routing demo_cluster))))" by code_simp
  have "map cn_id (cf_nodes demo_cluster) = [ascii ''a'', ascii ''b'']" by code_simp
  then have "cn_id ` set (cf_nodes demo_cluster) = set [ascii ''a'', ascii ''b'']" by (metis set_map)
  then have "set [ascii ''a''] \<subseteq> cn_id ` set (cf_nodes demo_cluster)" by simp
  from simulate_failure_exact [OF sort_key_slice v h d _ this, of "[[107], [108], []]"] show ?thesis by blast
qed

theorem plan_rebalance_minimal_witness:
  "\<exists>r. plan_rebalance (sort_key gp_hash) demo_cluster [ascii ''a''] [demo_added] [[107], [108]] = Inr r
    \<and> map km_key (rb_movements r) = [[107], [108]]"
proof -
  let ?pl = "filter (\<lambda>n. cn_id n \<notin> set [ascii ''a'']) (cf_nodes demo_cluster) @ [demo_added]"
  have "\<not> isl (plan_rebalance (sort_key gp_hash) demo_cluster [ascii ''a''] [demo_added] [[107], [108]])" by code_simp
  then obtain r where r: "plan_rebalance (sort_key gp_hash) demo_cluster [ascii ''a''] [demo_added] [[107], [108]] = Inr r"
    by (metis isl_def sum.exhaust)
  have v: "cg_virtual (cf_routing demo_cluster) = 1" by code_simp
  have "list_all (\<lambda>n. 0 < point_count (effective_virtual 1) (sim_node n)) (cf_nodes demo_cluster)"
    "list_all (\<lambda>n. 0 < point_count (effective_virtual 1) (sim_node n)) ?pl" by code_simp+
  moreover have "distinct (map gp_hash (config_points (cf_nodes demo_cluster) 1))" "distinct (map gp_hash (config_points ?pl 1))" by code_simp+
  ultimately have h: "\<forall>ns \<in> {cf_nodes demo_cluster, ?pl}. has_points ns (cg_virtual (cf_routing demo_cluster))
      \<and> distinct (map gp_hash (config_points ns (cg_virtual (cf_routing demo_cluster))))"
    unfolding v has_points_def list_all_iff by blast
  note m = plan_rebalance_minimal [OF sort_key_slice r h]
  show ?thesis by (intro exI [of _ r] conjI r conjunct1 [OF m])
qed

end
