(* ===== verification/ClusterSpec.thy ===== *)
theory ClusterSpec
  imports OpsSpec
begin

text \<open>
  What loading a configuration promises to the gateway and the proxy that are built from it, and the ring that a valid configuration
  can leave without points.
\<close>

section \<open>Defaults\<close>

lemma has_replication_normalized [simp]: "has_replication_enabled (map normalize_node ns) = has_replication_enabled ns"
  by (induction ns) (auto simp: has_replication_enabled_def normalize_node_def)

lemma normalize_sel:
  "cg_virtual (cf_routing (normalize c)) = (if cg_virtual (cf_routing c) \<le> 0 then 128 else cg_virtual (cf_routing c))"
  "cp_addr (cf_proxy (normalize c)) = (if cp_addr (cf_proxy c) = [] then cl_default_addr else cp_addr (cf_proxy c))"
  "cf_nodes (normalize c) = map normalize_node (cf_nodes c)"
  "cf_scope (normalize c) = (if scope_unset (cf_scope c)
     then if has_replication_enabled (cf_nodes c) then default_replica_scope else default_scope else cf_scope c)"
  by (simp_all add: normalize_def Let_def cl_default_virtual_def)

lemma scopes_set [simp]: "\<not> scope_unset default_scope" "\<not> scope_unset default_replica_scope"
  by (simp_all add: scope_unset_def default_scope_def default_replica_scope_def)

lemma default_addr_set [simp]: "cl_default_addr \<noteq> []"
  by (simp add: cl_default_addr_def ascii_def)

lemma normalize_fixed:
  assumes "0 < cg_virtual (cf_routing c)" "cp_addr (cf_proxy c) \<noteq> []" "\<forall>n \<in> set (cf_nodes c). 0 < cn_weight n" "\<not> scope_unset (cf_scope c)"
  shows "normalize c = c"
proof -
  have "map normalize_node (cf_nodes c) = cf_nodes c" using assms(3) by (auto simp: normalize_node_def intro!: map_idI)
  then show ?thesis using assms by (simp add: normalize_def Let_def)
qed

lemma normalize_idem: "normalize (normalize c) = normalize c"
  by (rule normalize_fixed) (auto simp: normalize_sel normalize_node_def)

section \<open>Valid configurations\<close>

lemma validate_nodes_shape:
  "validate_nodes ids urls ns \<Longrightarrow> \<forall>n \<in> set ns. cn_id n \<noteq> [] \<and> 0 < cn_weight n \<and> \<not> has_dots (cn_dir n)
     \<and> (has_prefix (cn_url n) (ascii ''http://'') \<or> has_prefix (cn_url n) (ascii ''https://''))"
  by (induction ids urls ns rule: validate_nodes.induct) (auto split: if_splits)

lemma count_primaries_some:
  "count_primaries ids ns = Some p \<Longrightarrow>
     p = length (filter (\<lambda>n. cr_enabled (cn_rep n) \<and> cr_role (cn_rep n) = ascii ''primary'') ns)
     \<and> (\<forall>n \<in> set ns. cr_enabled (cn_rep n) \<longrightarrow> cr_role (cn_rep n) = ascii ''primary''
          \<or> cr_role (cn_rep n) = ascii ''follower'' \<and> cr_primary (cn_rep n) \<in> set ids)"
  by (induction ids ns arbitrary: p rule: count_primaries.induct) (auto split: if_splits)

definition config_well_formed :: "cl_config \<Rightarrow> bool" where
  "config_well_formed c \<longleftrightarrow> cf_nodes c \<noteq> [] \<and> 0 < cg_virtual (cf_routing c)
     \<and> distinct (map cn_id (cf_nodes c)) \<and> distinct (map cn_url (cf_nodes c))
     \<and> (\<forall>n \<in> set (cf_nodes c). cn_id n \<noteq> [] \<and> 0 < cn_weight n \<and> \<not> has_dots (cn_dir n)
          \<and> (has_prefix (cn_url n) (ascii ''http://'') \<or> has_prefix (cn_url n) (ascii ''https://''))
          \<and> (cr_enabled (cn_rep n) \<longrightarrow> cr_role (cn_rep n) = ascii ''primary''
               \<or> cr_role (cn_rep n) = ascii ''follower'' \<and> cr_primary (cn_rep n) \<in> cn_id ` set (cf_nodes c)))
     \<and> (has_replication_enabled (cf_nodes c) \<longrightarrow>
          length (filter (\<lambda>n. cr_enabled (cn_rep n) \<and> cr_role (cn_rep n) = ascii ''primary'') (cf_nodes c)) = 1)
     \<and> (sc_no_replication (cf_scope c) \<longleftrightarrow> \<not> has_replication_enabled (cf_nodes c))"

lemma valid_well_formed:
  assumes "validate_config c = None"
  shows "config_well_formed c"
proof -
  note v = validate_configD [OF assms]
  have "distinct (map gn_id (map sim_node (cf_nodes c)))" "distinct (map gn_url (map sim_node (cf_nodes c)))"
    using check_gw_distinct [OF v(5)] by simp_all
  then have d: "distinct (map cn_id (cf_nodes c))" "distinct (map cn_url (cf_nodes c))" by (simp_all add: comp_def)
  have r: "has_replication_enabled (cf_nodes c) \<Longrightarrow>
      length (filter (\<lambda>n. cr_enabled (cn_rep n) \<and> cr_role (cn_rep n) = ascii ''primary'') (cf_nodes c)) = 1
      \<and> (\<forall>n \<in> set (cf_nodes c). cr_enabled (cn_rep n) \<longrightarrow> cr_role (cn_rep n) = ascii ''primary''
          \<or> cr_role (cn_rep n) = ascii ''follower'' \<and> cr_primary (cn_rep n) \<in> cn_id ` set (cf_nodes c))"
    using count_primaries_some [of "map cn_id (cf_nodes c)" "cf_nodes c" 1] v(4) by (auto simp: validate_cl_replication_def)
  have e: "has_replication_enabled (cf_nodes c)" if "n \<in> set (cf_nodes c)" "cr_enabled (cn_rep n)" for n
    using that by (auto simp: has_replication_enabled_def list_ex_iff)
  have sc: "sc_no_replication (cf_scope c) \<longleftrightarrow> \<not> has_replication_enabled (cf_nodes c)"
    using assms by (auto simp: validate_config_def Let_def split: if_splits)
  show ?thesis
    unfolding config_well_formed_def using v(1,2) d r e sc validate_nodes_shape [OF v(3)] by blast
qed

text \<open>C11: every configuration that loading accepts is well formed (distinct ids and URLs, positive weights, at most one primary, followers that name a
  configured node, honest replication flag), is its own normal form, and opens a gateway and a proxy over exactly its nodes.\<close>

theorem loaded_config_sound:
  assumes "parse_config (Some raw) = Inr c"
  shows "config_well_formed c \<and> normalize c = c \<and> parse_config (Some c) = Inr c
    \<and> (\<exists>xo p. proxy_options_of c = Inr xo \<and> proxy_open srt xo = Inr p \<and> go_nodes (gy_opts (px_gw p)) = map sim_node (cf_nodes c)
         \<and> px_addr p = cp_addr (cf_proxy c))"
proof -
  have c: "validate_config c = None" "c = normalize raw" using assms by (auto simp: parse_config_def Let_def split: option.splits)
  note v = validate_configD [OF c(1)]
  have a: "cp_addr (cf_proxy c) \<noteq> []" by (simp add: c(2) normalize_sel)
  let ?xo = "\<lparr>xo_addr = cp_addr (cf_proxy c), xo_nodes = map sim_node (cf_nodes c), xo_virtual = cg_virtual (cf_routing c)\<rparr>"
  have o: "proxy_options_of c = Inr ?xo" using valid_node_configs [OF c(1)] a by (simp add: proxy_options_of_def)
  have "\<exists>p. proxy_open srt ?xo = Inr p \<and> go_nodes (gy_opts (px_gw p)) = map sim_node (cf_nodes c) \<and> px_addr p = cp_addr (cf_proxy c)"
    using v(1,2,5) a gateway_open_eq [of "\<lparr>go_nodes = map sim_node (cf_nodes c), go_virtual = cg_virtual (cf_routing c)\<rparr>" srt]
    by (simp add: proxy_open_def)
  then show ?thesis
    using valid_well_formed [OF c(1)] c normalize_idem [of raw] o by (auto simp: parse_config_def Let_def)
qed

theorem loaded_config_sound_witness:
  "parse_config (Some example_replica_3node) = Inr (normalize example_replica_3node)
    \<and> config_well_formed (normalize example_replica_3node) \<and> \<not> isl (proxy_options_of (normalize example_replica_3node))"
proof -
  have "validate_config (normalize example_replica_3node) = None" by code_simp
  then have p: "parse_config (Some example_replica_3node) = Inr (normalize example_replica_3node)" by (simp add: parse_config_def)
  show ?thesis using loaded_config_sound [OF p, of "\<lambda>ps. ps"] p by auto
qed

section \<open>A ring without points\<close>

text \<open>The number of points is a product in 64 bits: validation bounds neither factor.\<close>

lemma no_points:
  assumes "sort_slice_ok srt" "config_points ns v = []"
  shows "srt (config_points ns v) = []"
  using assms unfolding sort_slice_ok_def by (metis mset_zero_iff)

text \<open>C12: when every product of virtual nodes and weight wraps to zero or below in 64 bits, a valid configuration still opens a proxy,
  but its ring has no point: every request for a key, whatever its kind, ends in an index panic of the handler, and no node is ever called.\<close>

theorem overflowing_ring_panics:
  assumes "sort_slice_ok srt" "validate_config c = None"
    and "\<And>n. n \<in> set (cf_nodes c) \<Longrightarrow> point_count (cg_virtual (cf_routing c)) (sim_node n) = 0"
  shows "\<exists>xo p. proxy_options_of c = Inr xo \<and> proxy_open srt xo = Inr p
    \<and> (\<forall>key body io kio net meth. key \<noteq> [] \<and> (meth = ''GET'' \<or> meth = ''DELETE'' \<or> meth = ''PUT'' \<and> body \<noteq> None) \<longrightarrow>
         px_kv f r io kio meth (kv_path key) body p net = (Px_aborted, net))"
proof -
  note v = validate_configD [OF assms(2)]
  let ?o = "\<lparr>go_nodes = map sim_node (cf_nodes c), go_virtual = cg_virtual (cf_routing c)\<rparr>"
  have "node_points (cg_virtual (cf_routing c)) (sim_node n) = []" if "n \<in> set (cf_nodes c)" for n
    using assms(3) [OF that] by (simp add: node_points_def)
  then have e: "config_points (cf_nodes c) (cg_virtual (cf_routing c)) = []"
    using v(2) by (simp add: config_points_def effective_virtual_def)
  obtain g where g: "gateway_open srt ?o = Inr g" "hr_points (gy_ring g) = []" "\<not> gy_closed g"
    using gateway_open_eq [of ?o srt] v(1,5) no_points [OF assms(1) e] by (simp add: config_points_def)
  let ?xo = "\<lparr>xo_addr = (if cp_addr (cf_proxy c) = [] then cl_default_addr else cp_addr (cf_proxy c)), xo_nodes = map sim_node (cf_nodes c),
     xo_virtual = cg_virtual (cf_routing c)\<rparr>"
  have o: "proxy_options_of c = Inr ?xo" using valid_node_configs [OF assms(2)] by (simp add: proxy_options_of_def)
  obtain p where p: "proxy_open srt ?xo = Inr p" "px_gw p = g" using g(1) v(1,2) by (simp add: proxy_open_def)
  have pl: "point_lookup [] k = None" for k by (simp add: point_lookup_def Let_def sort_search_def)
  have u: "url_for_key k g = Inl GErrPanic" if "k \<noteq> []" for k
    using that g by (simp add: url_for_key_def node_for_key_def pl)
  have "px_kv f r io kio meth (kv_path key) body p net = (Px_aborted, net)"
    if "key \<noteq> []" "meth = ''GET'' \<or> meth = ''DELETE'' \<or> meth = ''PUT'' \<and> body \<noteq> None" for key body io kio net meth
    using that u [OF that(1)] p(2)
    by (auto simp: px_kv_def px_put_def px_get_def px_delete_def gateway_put_def gateway_get_def gateway_delete_def backend_error_def)
  then show ?thesis using o p(1) by blast
qed

definition huge_config :: cl_config where
  "huge_config = default_config (ascii ''huge'')
     [\<lparr>cn_id = ascii ''a'', cn_url = ascii ''http://a'', cn_addr = [], cn_dir = [], cn_weight = 2 ^ 62, cn_rep = no_replication\<rparr>]"

theorem overflowing_ring_panics_witness:
  "validate_config (huge_config\<lparr>cf_routing := (cf_routing huge_config)\<lparr>cg_virtual := 2\<rparr>\<rparr>) = None
    \<and> (\<exists>xo p. proxy_options_of (huge_config\<lparr>cf_routing := (cf_routing huge_config)\<lparr>cg_virtual := 2\<rparr>\<rparr>) = Inr xo
         \<and> proxy_open (sort_key gp_hash) xo = Inr p
         \<and> px_kv (\<lambda>_ _. 1) (\<lambda>_ _. 1) \<lparr>ca_reached = True, ca_answered = True\<rparr> (good_kv 1) ''GET'' (kv_path [107]) None p Map.empty = (Px_aborted, Map.empty))"
proof -
  let ?c = "huge_config\<lparr>cf_routing := (cf_routing huge_config)\<lparr>cg_virtual := 2\<rparr>\<rparr>"
  have v: "validate_config ?c = None" by code_simp
  have "list_all (\<lambda>n. point_count (cg_virtual (cf_routing ?c)) (sim_node n) = 0) (cf_nodes ?c)" by code_simp
  then have z: "n \<in> set (cf_nodes ?c) \<Longrightarrow> point_count (cg_virtual (cf_routing ?c)) (sim_node n) = 0" for n by (simp add: list_all_iff)
  obtain xo p where p: "proxy_options_of ?c = Inr xo" "proxy_open (sort_key gp_hash) xo = Inr p"
    "\<forall>key body io kio net meth. key \<noteq> [] \<and> (meth = ''GET'' \<or> meth = ''DELETE'' \<or> meth = ''PUT'' \<and> body \<noteq> None) \<longrightarrow>
         px_kv (\<lambda>_ _. 1) (\<lambda>_ _. 1) io kio meth (kv_path key) body p net = (Px_aborted, net)"
    using overflowing_ring_panics [OF sort_key_slice v z] by blast
  have "px_kv (\<lambda>_ _. 1) (\<lambda>_ _. 1) \<lparr>ca_reached = True, ca_answered = True\<rparr> (good_kv 1) ''GET'' (kv_path [107]) None p Map.empty = (Px_aborted, Map.empty)"
    using p(3) by simp
  then show ?thesis using v p(1,2) by blast
qed

end
