(* ===== verification/Vector.thy ===== *)
theory Vector
  imports Explain EngineDirs "HOL-Library.Product_Lexorder"
begin

text \<open>
  The vector store (\<open>internal/vector\<close>): records of float vectors in an engine under a namespace, an index of all of them in
  memory, and exact search over it. Floats are IEEE-754 bit patterns; comparisons are written out on the patterns, the
  rounded arithmetic on \<open>float64\<close> is the argument \<open>fa\<close>. Defensive copies, locks and clock readings are left out.
\<close>

section \<open>Floats\<close>

type_synonym float32 = u32

record float_arith =
  fa_widen :: "float32 \<Rightarrow> float64"
  fa_add :: "float64 \<Rightarrow> float64 \<Rightarrow> float64"
  fa_sub :: "float64 \<Rightarrow> float64 \<Rightarrow> float64"
  fa_mul :: "float64 \<Rightarrow> float64 \<Rightarrow> float64"
  fa_div :: "float64 \<Rightarrow> float64 \<Rightarrow> float64"
  fa_sqrt :: "float64 \<Rightarrow> float64"

definition f64_nan :: "float64 \<Rightarrow> bool" where
  "f64_nan b \<longleftrightarrow> and b 0x7FF0000000000000 = 0x7FF0000000000000 \<and> and b 0x000FFFFFFFFFFFFF \<noteq> 0"

text \<open>The order of the numbers; both zeros are 0.\<close>

definition f64_key :: "float64 \<Rightarrow> int" where
  "f64_key b = (let m = uint (and b 0x7FFFFFFFFFFFFFFF) in if bit b 63 then - m else m)"

definition f64_lt :: "float64 \<Rightarrow> float64 \<Rightarrow> bool" where
  "f64_lt a b \<longleftrightarrow> \<not> f64_nan a \<and> \<not> f64_nan b \<and> f64_key a < f64_key b"

definition f64_eq :: "float64 \<Rightarrow> float64 \<Rightarrow> bool" where
  "f64_eq a b \<longleftrightarrow> \<not> f64_nan a \<and> \<not> f64_nan b \<and> f64_key a = f64_key b"

definition f64_neg :: "float64 \<Rightarrow> float64" where
  "f64_neg b = xor b 0x8000000000000000"

definition f64_one :: float64 where "f64_one = 0x3FF0000000000000"
definition f64_two :: float64 where "f64_two = 0x4000000000000000"

definition is_zero_vector :: "float32 list \<Rightarrow> bool" where
  "is_zero_vector v = list_all (\<lambda>x. and x 0x7FFFFFFF = 0) v"

definition has_non_finite :: "float32 list \<Rightarrow> bool" where
  "has_non_finite v = list_ex (\<lambda>x. and x 0x7F800000 = 0x7F800000) v"

section \<open>Metrics\<close>

definition cosine_sums :: "float_arith \<Rightarrow> float32 list \<Rightarrow> float32 list \<Rightarrow> float64 \<times> float64 \<times> float64" where
  "cosine_sums fa a b =
     foldl (\<lambda>(dot, na, nb) (x, y).
       let ai = fa_widen fa x; bi = fa_widen fa y in
       (fa_add fa dot (fa_mul fa ai bi), fa_add fa na (fa_mul fa ai ai), fa_add fa nb (fa_mul fa bi bi))) (0, 0, 0) (zip a b)"

definition cosine_score :: "float_arith \<Rightarrow> float32 list \<Rightarrow> float32 list \<Rightarrow> float64 \<times> float64" where
  "cosine_score fa a b =
     (case cosine_sums fa a b of
        (dot, na, nb) \<Rightarrow>
          if f64_eq na 0 \<or> f64_eq nb 0 then (f64_neg f64_one, f64_two)
          else
            let s = fa_div fa dot (fa_mul fa (fa_sqrt fa na) (fa_sqrt fa nb));
                s = (if f64_lt f64_one s then f64_one else if f64_lt s (f64_neg f64_one) then f64_neg f64_one else s)
            in (s, fa_sub fa f64_one s))"

definition l2_score :: "float_arith \<Rightarrow> float32 list \<Rightarrow> float32 list \<Rightarrow> float64 \<times> float64" where
  "l2_score fa a b =
     (let s = foldl (\<lambda>acc (x, y). let d = fa_sub fa (fa_widen fa x) (fa_widen fa y) in fa_add fa acc (fa_mul fa d d)) 0 (zip a b)
      in (f64_neg s, s))"

definition dot_score :: "float_arith \<Rightarrow> float32 list \<Rightarrow> float32 list \<Rightarrow> float64 \<times> float64" where
  "dot_score fa a b =
     (let dot = foldl (\<lambda>acc (x, y). fa_add fa acc (fa_mul fa (fa_widen fa x) (fa_widen fa y))) 0 (zip a b) in (dot, f64_neg dot))"

definition compute_distance :: "float_arith \<Rightarrow> string \<Rightarrow> float32 list \<Rightarrow> float32 list \<Rightarrow> float64 \<times> float64" where
  "compute_distance fa metric a b =
     (if metric = ''cosine'' then cosine_score fa a b else if metric = ''l2'' then l2_score fa a b else dot_score fa a b)"

section \<open>Records on disk\<close>

definition vec_magic :: u64 where "vec_magic = 0x5348415244564543"
definition vec_version :: u16 where "vec_version = 1"

datatype vector_error = VErrClosed | VErrOptions | VErrID | VErrVector | VErrK | VErrCorrupt | VErrEngine engine_error

text \<open>The body, from the version to the metadata; the length fields keep the low 32 bits.\<close>

definition vec_body :: "int \<Rightarrow> float32 list \<Rightarrow> bytes \<Rightarrow> bytes" where
  "vec_body dim v meta = put_u16 vec_version @ put_u32 (word_of_int dim) @ put_u32 (len32 meta) @ concat (map put_u32 v) @ meta"

definition encode_vector :: "int \<Rightarrow> float32 list \<Rightarrow> bytes \<Rightarrow> vector_error + bytes" where
  "encode_vector dim v meta =
     (if int (length v) \<noteq> dim then Inl VErrVector
      else
        let body = vec_body dim v meta in
        Inr (put_u64 vec_magic @ body @ put_u32 (crc32 body) @ put_u64 vec_magic))"

fun read_floats :: "nat \<Rightarrow> bytes \<Rightarrow> float32 list" where
  "read_floats 0 bs = []"
| "read_floats (Suc n) bs = get_u32 bs # read_floats n (drop 4 bs)"

definition decode_vector :: "bytes \<Rightarrow> int \<Rightarrow> vector_error + float32 list \<times> bytes" where
  "decode_vector bs want =
     (if length bs < 30 then Inl VErrCorrupt
      else if get_u64 bs \<noteq> vec_magic then Inl VErrCorrupt
      else if get_u16 (drop 8 bs) \<noteq> vec_version then Inl VErrCorrupt
      else
        let dim = unat (get_u32 (drop 10 bs)) in
        if int dim \<noteq> want then Inl VErrCorrupt
        else
          let ml = unat (get_u32 (drop 14 bs)) in
          if length bs < 18 + dim * 4 + ml + 12 then Inl VErrCorrupt
          else
            let v = read_floats dim (drop 18 bs); e = 18 + dim * 4 + ml; meta = slice (18 + dim * 4) e bs in
            if get_u32 (drop e bs) \<noteq> crc32 (slice 8 e bs) then Inl VErrCorrupt
            else if get_u64 (drop (e + 4) bs) \<noteq> vec_magic then Inl VErrCorrupt
            else if e + 12 \<noteq> length bs then Inl VErrCorrupt
            else Inr (v, meta))"

section \<open>The store\<close>

record vec_options =
  vo_dir :: path
  vo_dim :: int
  vo_metric :: string
  vo_namespace :: string

record vec_record =
  vr_vector :: "float32 list"
  vr_meta :: bytes

record vec_store =
  vs_opts :: vec_options
  vs_eng :: engine
  vs_index :: "(bytes \<times> vec_record) list"
  vs_closed :: bool

record vec_stats =
  vt_count :: nat
  vt_dim :: int
  vt_metric :: string
  vt_path :: path
  vt_tables :: nat
  vt_flushes :: u64
  vt_compactions :: u64

definition apply_defaults :: "vec_options \<Rightarrow> vec_options" where
  "apply_defaults o' =
     (let o1 = (if vo_metric o' = [] then o'\<lparr>vo_metric := ''cosine''\<rparr> else o') in
      if vo_namespace o1 = [] then o1\<lparr>vo_namespace := ''vector''\<rparr> else o1)"

definition vec_options_ok :: "vec_options \<Rightarrow> bool" where
  "vec_options_ok o' =
     (if vo_dir o' = [] then False
      else if vo_dim o' \<le> 0 then False
      else if vo_metric o' \<notin> {''cosine'', ''l2'', ''dot''} then False
      else if \<exists>ch \<in> set (vo_namespace o'). ch \<in> {CHR ''/'', CHR ''_'', CHR 0x00} then False
      else True)"

text \<open>The keys of a namespace. A rune below 0x20 is a byte below 0x20: UTF-8 uses no such byte otherwise.\<close>

definition key_prefix :: "vec_options \<Rightarrow> bytes" where
  "key_prefix o' = ascii ''__vector__/'' @ ascii (vo_namespace o') @ ascii ''/''"

definition vec_key :: "vec_options \<Rightarrow> bytes \<Rightarrow> bytes" where
  "vec_key o' vid = key_prefix o' @ vid"

definition id_from_key :: "vec_options \<Rightarrow> bytes \<Rightarrow> bytes" where
  "id_from_key o' key =
     (if take (length (key_prefix o')) key \<noteq> key_prefix o' then [] else drop (length (key_prefix o')) key)"

definition validate_id :: "bytes \<Rightarrow> bool" where
  "validate_id vid =
     (if vid = [] then False
      else if \<exists>b \<in> set vid. b = 47 \<or> b = 0 then False
      else if \<exists>b \<in> set vid. b < 0x20 then False
      else True)"

definition validate_vector :: "vec_options \<Rightarrow> float32 list \<Rightarrow> bool" where
  "validate_vector o' v =
     (if int (length v) \<noteq> vo_dim o' then False
      else if has_non_finite v then False
      else if vo_metric o' = ''cosine'' \<and> is_zero_vector v then False
      else True)"

text \<open>\<open>loadIndex\<close> over the entries of a scan, and \<open>Open\<close>.\<close>

fun load_entries :: "vec_options \<Rightarrow> kv_entry list \<Rightarrow> (bytes \<times> vec_record) list \<Rightarrow> vector_error + (bytes \<times> vec_record) list" where
  "load_entries o' [] idx = Inr idx"
| "load_entries o' (e # es) idx =
     (let vid = id_from_key o' (kv_key e) in
      if vid = [] then load_entries o' es idx
      else
        (case decode_vector (kv_value e) (vo_dim o') of
           Inl er \<Rightarrow> Inl er
         | Inr (v, meta) \<Rightarrow> load_entries o' es (AList.update vid \<lparr>vr_vector = v, vr_meta = meta\<rparr> idx)))"

definition load_vectors :: "vec_options \<Rightarrow> engine \<Rightarrow> vector_error + (bytes \<times> vec_record) list" where
  "load_vectors o' e =
     (case engine_scan (key_prefix o') (key_prefix o' @ [0xFF]) e of
        Inl er \<Rightarrow> Inl (VErrEngine er)
      | Inr es \<Rightarrow> load_entries o' es [])"

definition vec_engine_options :: "vec_options \<Rightarrow> engine_options" where
  "vec_engine_options o' =
     \<lparr>eo_dir = vo_dir o', eo_mem_max = 0, eo_sync = False, eo_wal_max = 0, eo_sst_max = 0, eo_fpr = 0\<rparr>"

definition vec_open :: "io_fault option \<Rightarrow> vec_options \<Rightarrow> disk \<Rightarrow> (vector_error + vec_store) \<times> disk" where
  "vec_open fault o0 d =
     (let o' = apply_defaults o0 in
      if \<not> vec_options_ok o' then (Inl VErrOptions, d)
      else
        (case engine_open fault (vec_engine_options o') d of
           (Inl er, d') \<Rightarrow> (Inl (VErrEngine er), d')
         | (Inr e, d') \<Rightarrow>
             (case load_vectors o' e of
                Inl er \<Rightarrow> (Inl er, directory (snd (engine_close e)))
              | Inr idx \<Rightarrow> (Inr \<lparr>vs_opts = o', vs_eng = e, vs_index = idx, vs_closed = False\<rparr>, d'))))"

section \<open>Operations\<close>

definition vec_upsert ::
    "bytes \<Rightarrow> float32 list \<Rightarrow> bytes \<Rightarrow> write_outcome \<Rightarrow> bool \<Rightarrow> vec_store \<Rightarrow> vector_error option \<times> vec_store" where
  "vec_upsert vid v meta wo sync_ok s =
     (if \<not> validate_id vid then (Some VErrID, s)
      else if \<not> validate_vector (vs_opts s) v then (Some VErrVector, s)
      else
        (case encode_vector (vo_dim (vs_opts s)) v meta of
           Inl er \<Rightarrow> (Some er, s)
         | Inr enc \<Rightarrow>
             if vs_closed s then (Some VErrClosed, s)
             else
               (case engine_put (vec_key (vs_opts s) vid) enc wo sync_ok (vs_eng s) of
                  (Some er, e) \<Rightarrow> (Some (VErrEngine er), s\<lparr>vs_eng := e\<rparr>)
                | (None, e) \<Rightarrow>
                    (None, s\<lparr>vs_eng := e, vs_index := AList.update vid \<lparr>vr_vector = v, vr_meta = meta\<rparr> (vs_index s)\<rparr>))))"

definition vec_delete :: "bytes \<Rightarrow> write_outcome \<Rightarrow> bool \<Rightarrow> vec_store \<Rightarrow> vector_error option \<times> vec_store" where
  "vec_delete vid wo sync_ok s =
     (if \<not> validate_id vid then (Some VErrID, s)
      else if vs_closed s then (Some VErrClosed, s)
      else
        (case engine_delete (vec_key (vs_opts s) vid) wo sync_ok (vs_eng s) of
           (Some er, e) \<Rightarrow> (Some (VErrEngine er), s\<lparr>vs_eng := e\<rparr>)
         | (None, e) \<Rightarrow> (None, s\<lparr>vs_eng := e, vs_index := AList.delete vid (vs_index s)\<rparr>)))"

definition vec_get :: "bytes \<Rightarrow> vec_store \<Rightarrow> vector_error + vec_record option" where
  "vec_get vid s = (if vs_closed s then Inl VErrClosed else Inr (map_of (vs_index s) vid))"

record vec_candidate =
  vc_id :: bytes
  vc_score :: float64
  vc_dist :: float64
  vc_meta :: bytes

definition better :: "vec_candidate \<Rightarrow> vec_candidate \<Rightarrow> bool" where
  "better a b = (if \<not> f64_eq (vc_score a) (vc_score b) then f64_lt (vc_score b) (vc_score a) else vc_id a < vc_id b)"

definition query_error :: "vec_options \<Rightarrow> float32 list \<Rightarrow> int \<Rightarrow> vector_error option" where
  "query_error o' q k =
     (if k \<le> 0 then Some VErrK
      else if int (length q) \<noteq> vo_dim o' then Some VErrVector
      else if has_non_finite q then Some VErrVector
      else if vo_metric o' = ''cosine'' \<and> is_zero_vector q then Some VErrVector
      else None)"

definition vec_candidates :: "float_arith \<Rightarrow> string \<Rightarrow> float32 list \<Rightarrow> (bytes \<times> vec_record) list \<Rightarrow> vec_candidate list" where
  "vec_candidates fa metric q idx =
     map (\<lambda>(vid, r). case compute_distance fa metric q (vr_vector r) of
            (sc, d) \<Rightarrow> \<lparr>vc_id = vid, vc_score = sc, vc_dist = d, vc_meta = vr_meta r\<rparr>) idx"

text \<open>\<open>order\<close> is the order in which the map is iterated, \<open>srt\<close> is \<open>sort.Slice\<close> with the comparison \<open>better\<close>.\<close>

definition vec_search ::
    "float_arith \<Rightarrow> ((bytes \<times> vec_record) list \<Rightarrow> (bytes \<times> vec_record) list) \<Rightarrow> (vec_candidate list \<Rightarrow> vec_candidate list)
     \<Rightarrow> float32 list \<Rightarrow> int \<Rightarrow> vec_store \<Rightarrow> vector_error + vec_candidate list" where
  "vec_search fa order srt q k s =
     (case query_error (vs_opts s) q k of
        Some er \<Rightarrow> Inl er
      | None \<Rightarrow>
          if vs_closed s then Inl VErrClosed
          else
            let cs = srt (vec_candidates fa (vo_metric (vs_opts s)) q (order (vs_index s)));
                k = (if k > int (length cs) then int (length cs) else k)
            in Inr (take (nat k) cs))"

definition vec_count :: "vec_store \<Rightarrow> nat" where "vec_count s = length (vs_index s)"

definition vec_stats_of :: "vec_store \<Rightarrow> vec_stats" where
  "vec_stats_of s =
     (let st = engine_stats_of (vs_eng s) in
      \<lparr>vt_count = length (vs_index s), vt_dim = vo_dim (vs_opts s), vt_metric = vo_metric (vs_opts s), vt_path = vo_dir (vs_opts s),
       vt_tables = es_tables st, vt_flushes = es_flushes st, vt_compactions = es_compactions st\<rparr>)"

definition vec_flush ::
    "(u64 \<Rightarrow> float64 \<Rightarrow> u64) \<Rightarrow> (u64 \<Rightarrow> u64 \<Rightarrow> int) \<Rightarrow> io_fault option \<Rightarrow> vec_store \<Rightarrow> vector_error option \<times> vec_store" where
  "vec_flush c r fault s =
     (if vs_closed s then (Some VErrClosed, s)
      else (case engine_flush c r fault (vs_eng s) of (er, e) \<Rightarrow> (map_option VErrEngine er, s\<lparr>vs_eng := e\<rparr>)))"

definition vec_compact ::
    "(u64 \<Rightarrow> float64 \<Rightarrow> u64) \<Rightarrow> (u64 \<Rightarrow> u64 \<Rightarrow> int) \<Rightarrow> io_fault option \<Rightarrow> vec_store \<Rightarrow> vector_error option \<times> vec_store" where
  "vec_compact c r fault s =
     (if vs_closed s then (Some VErrClosed, s)
      else (case engine_compact c r fault (vs_eng s) of (er, e) \<Rightarrow> (map_option VErrEngine er, s\<lparr>vs_eng := e\<rparr>)))"

definition vec_close :: "vec_store \<Rightarrow> vector_error option \<times> vec_store" where
  "vec_close s =
     (if vs_closed s then (None, s)
      else (case engine_close (vs_eng s) of (er, e) \<Rightarrow> (map_option VErrEngine er, s\<lparr>vs_closed := True, vs_eng := e\<rparr>)))"

section \<open>Explained operations\<close>

record vec_trace =
  vx_op :: string
  vx_key :: bytes
  vx_steps :: "trace_step list"
  vx_err :: "vector_error option"

definition vx_new :: "string \<Rightarrow> bytes \<Rightarrow> vec_trace" where
  "vx_new op key = \<lparr>vx_op = op, vx_key = key, vx_steps = [], vx_err = None\<rparr>"

definition vx_step :: "string \<Rightarrow> string \<Rightarrow> string \<Rightarrow> vec_trace \<Rightarrow> vec_trace" where
  "vx_step ty status detail t =
     t\<lparr>vx_steps := vx_steps t @ [\<lparr>ts_component = ''VECTOR'', ts_type = ty, ts_status = status, ts_detail = detail\<rparr>]\<rparr>"

definition vx_finish :: "vector_error option \<Rightarrow> vec_trace \<Rightarrow> vec_trace" where
  "vx_finish err t = (if err = None then t else t\<lparr>vx_err := err\<rparr>)"

definition field_int :: "string \<Rightarrow> int \<Rightarrow> string" where
  "field_int name n = name @ ''='' @ signed_decimal n"

definition vec_explain_upsert ::
    "bytes \<Rightarrow> float32 list \<Rightarrow> bytes \<Rightarrow> write_outcome \<Rightarrow> bool \<Rightarrow> vec_store \<Rightarrow> vec_trace \<times> vector_error option \<times> vec_store" where
  "vec_explain_upsert vid v meta wo sync_ok s =
     (let t = vx_new ''VECTOR_INSERT'' vid; o' = vs_opts s; dm = field_int ''dimension'' (vo_dim o'); mt = '' metric='' @ vo_metric o' in
      if \<not> validate_id vid then (vx_finish (Some VErrID) (vx_step ''VECTOR_VALIDATE'' ''ERROR'' ''id_valid=false'' t), Some VErrID, s)
      else if \<not> validate_vector o' v then
        (vx_finish (Some VErrVector) (vx_step ''VECTOR_VALIDATE'' ''ERROR'' (''vector_valid=false '' @ dm @ mt) t), Some VErrVector, s)
      else
        let t1 = vx_step ''VECTOR_VALIDATE'' ''OK'' (field ''id_len'' (length vid) @ '' '' @ dm @ mt) t in
        (case encode_vector (vo_dim o') v meta of
           Inl er \<Rightarrow> (vx_finish (Some er) (vx_step ''VECTOR_ENCODE'' ''ERROR'' ''encode_failed=true'' t1), Some er, s)
         | Inr enc \<Rightarrow>
             let t2 = vx_step ''VECTOR_ENCODE'' ''OK'' (dm @ '' '' @ field ''encoded_len'' (length enc)) t1; key = vec_key o' vid in
             if vs_closed s then (vx_finish (Some VErrClosed) t2, Some VErrClosed, s)
             else
               (case engine_put key enc wo sync_ok (vs_eng s) of
                  (Some er, e) \<Rightarrow>
                    (vx_finish (Some (VErrEngine er)) (vx_step ''VECTOR_ENGINE_WRITE'' ''ERROR'' (field ''key_len'' (length key)) t2),
                     Some (VErrEngine er), s\<lparr>vs_eng := e\<rparr>)
                | (None, e) \<Rightarrow>
                    let t3 = vx_step ''VECTOR_ENGINE_WRITE'' ''OK'' (field ''key_len'' (length key) @ '' '' @ field ''value_len'' (length enc)) t2;
                        idx = AList.update vid \<lparr>vr_vector = v, vr_meta = meta\<rparr> (vs_index s) in
                    (vx_finish None (vx_step ''VECTOR_INDEX_UPDATE'' ''OK'' (field ''index_size'' (length idx)) t3), None,
                     s\<lparr>vs_eng := e, vs_index := idx\<rparr>))))"

definition vec_explain_search ::
    "float_arith \<Rightarrow> ((bytes \<times> vec_record) list \<Rightarrow> (bytes \<times> vec_record) list) \<Rightarrow> (vec_candidate list \<Rightarrow> vec_candidate list)
     \<Rightarrow> float32 list \<Rightarrow> int \<Rightarrow> vec_store \<Rightarrow> vec_trace \<times> (vector_error + vec_candidate list)" where
  "vec_explain_search fa order srt q k s =
     (let t = vx_new ''VECTOR_SEARCH'' []; o' = vs_opts s;
          bad = (\<lambda>er d. (vx_finish (Some er) (vx_step ''VECTOR_VALIDATE'' ''ERROR'' d t), Inl er)) in
      if k \<le> 0 then bad VErrK (field_int ''k'' k)
      else if int (length q) \<noteq> vo_dim o' then bad VErrVector (field ''query_dim'' (length q) @ '' '' @ field_int ''store_dim'' (vo_dim o'))
      else if has_non_finite q then bad VErrVector ''non_finite=true''
      else if vo_metric o' = ''cosine'' \<and> is_zero_vector q then bad VErrVector ''metric=cosine zero_vector=true''
      else
        let t1 = vx_step ''VECTOR_VALIDATE'' ''OK'' (field_int ''dimension'' (vo_dim o') @ '' metric='' @ vo_metric o' @ '' '' @ field_int ''k'' k) t in
        if vs_closed s then (vx_finish (Some VErrClosed) t1, Inl VErrClosed)
        else
          let t2 = vx_step ''VECTOR_LOAD'' ''OK'' (''namespace='' @ vo_namespace o' @ '' '' @ field ''candidate_count'' (length (vs_index s))) t1;
              cands = vec_candidates fa (vo_metric o') q (order (vs_index s));
              t3 = vx_step ''VECTOR_COMPUTE'' ''OK'' (''metric='' @ vo_metric o' @ '' '' @ field ''pairs'' (length cands)) t2;
              cs = srt cands; k = (if k > int (length cs) then int (length cs) else k); res = take (nat k) cs in
          (vx_finish None (vx_step ''VECTOR_TOPK'' ''OK'' (field_int ''k'' k @ '' '' @ field ''result_count'' (length res)) t3), Inr res))"

definition vec_explain_delete ::
    "bytes \<Rightarrow> write_outcome \<Rightarrow> bool \<Rightarrow> vec_store \<Rightarrow> vec_trace \<times> vector_error option \<times> vec_store" where
  "vec_explain_delete vid wo sync_ok s =
     (let t = vx_new ''DELETE'' vid in
      if \<not> validate_id vid then (vx_finish (Some VErrID) (vx_step ''VECTOR_VALIDATE'' ''ERROR'' ''id_valid=false'' t), Some VErrID, s)
      else
        let t1 = vx_step ''VECTOR_VALIDATE'' ''OK'' (field ''id_len'' (length vid)) t; key = vec_key (vs_opts s) vid;
            d = field ''key_len'' (length key) @ '' tombstone=true'' in
        if vs_closed s then (vx_finish (Some VErrClosed) t1, Some VErrClosed, s)
        else
          (case engine_delete key wo sync_ok (vs_eng s) of
             (Some er, e) \<Rightarrow>
               (vx_finish (Some (VErrEngine er)) (vx_step ''VECTOR_ENGINE_WRITE'' ''ERROR'' d t1), Some (VErrEngine er), s\<lparr>vs_eng := e\<rparr>)
           | (None, e) \<Rightarrow>
               let idx = AList.delete vid (vs_index s) in
               (vx_finish None (vx_step ''VECTOR_INDEX_DELETE'' ''OK'' (field ''index_size'' (length idx)) (vx_step ''VECTOR_ENGINE_WRITE'' ''OK'' d t1)),
                None, s\<lparr>vs_eng := e, vs_index := idx\<rparr>)))"

end
