(* ===== verification/VectorSpec.thy ===== *)
theory VectorSpec
  imports Vector "HOL-Library.Multiset"
begin

text \<open>
  The vector store against its specification: the record format is exact, a session refines one map from ids to records that the
  engine holds encoded, search is the reference ranking, and what a reopening finds.
\<close>

section \<open>The record format\<close>

lemma read_floats_put: "read_floats (length v) (concat (map put_u32 v) @ t) = v"
  by (induction v) simp_all

lemma put_get_take: "4 \<le> length bs \<Longrightarrow> put_u32 (get_u32 bs) = take 4 bs" "8 \<le> length bs \<Longrightarrow> put_u64 (get_u64 bs) = take 8 bs"
  "2 \<le> length bs \<Longrightarrow> put_u16 (get_u16 bs) = take 2 bs"
  using put_get(1) [of "take 4 bs"] put_get(2) [of "take 8 bs"] le_bytes_le_word [of "take 2 bs", where 'a = 16]
  by (simp_all add: get_u32_def get_u64_def get_u16_def put_u16_def)

lemma length_read_floats [simp]: "length (read_floats n bs) = n"
  by (induction n arbitrary: bs) simp_all

lemma put_read_floats: "4 * n \<le> length bs \<Longrightarrow> concat (map put_u32 (read_floats n bs)) = take (4 * n) bs"
proof (induction n arbitrary: bs)
  case (Suc n)
  have "concat (map put_u32 (read_floats (Suc n) bs)) = take 4 bs @ take (4 * n) (drop 4 bs)"
    using Suc by (simp add: put_get_take)
  also have "\<dots> = take (4 * Suc n) bs" by (simp add: take_add [symmetric] add.commute)
  finally show ?case .
qed simp

lemma length_floats [simp]: "length (concat (map put_u32 v)) = 4 * length v"
  by (induction v) simp_all

text \<open>A record split at the fields its own lengths name.\<close>

definition vec_layout :: "u64 \<Rightarrow> u16 \<Rightarrow> u32 \<Rightarrow> u32 \<Rightarrow> bytes \<Rightarrow> bytes \<Rightarrow> u32 \<Rightarrow> u64 \<Rightarrow> bytes" where
  "vec_layout m1 ver dw mw fs meta crc m2 =
     put_u64 m1 @ (put_u16 ver @ put_u32 dw @ put_u32 mw @ fs @ meta) @ put_u32 crc @ put_u64 m2"

lemma drop_exact: "length s = n \<Longrightarrow> drop n (s @ t) = t"
  by simp

lemma layout_fields:
  assumes "length fs = unat dw * 4" "length meta = unat mw" "bs = vec_layout m1 ver dw mw fs meta crc m2"
  shows "length bs = 18 + unat dw * 4 + unat mw + 12" "get_u64 bs = m1" "get_u16 (drop 8 bs) = ver" "get_u32 (drop 10 bs) = dw"
    "get_u32 (drop 14 bs) = mw" "drop 18 bs = fs @ meta @ put_u32 crc @ put_u64 m2"
    "slice (18 + unat dw * 4) (18 + unat dw * 4 + unat mw) bs = meta" "get_u32 (drop (18 + unat dw * 4 + unat mw) bs) = crc"
    "slice 8 (18 + unat dw * 4 + unat mw) bs = put_u16 ver @ put_u32 dw @ put_u32 mw @ fs @ meta"
    "get_u64 (drop (18 + unat dw * 4 + unat mw + 4) bs) = m2"
proof -
  let ?e = "18 + unat dw * 4 + unat mw"
  let ?h = "put_u64 m1 @ put_u16 ver @ put_u32 dw @ put_u32 mw"
  have bs: "bs = put_u64 m1 @ put_u16 ver @ put_u32 dw @ put_u32 mw @ fs @ meta @ put_u32 crc @ put_u64 m2"
    by (simp add: assms(3) vec_layout_def)
  have h: "bs = ?h @ fs @ meta @ put_u32 crc @ put_u64 m2" "bs = (?h @ fs) @ meta @ put_u32 crc @ put_u64 m2"
    "bs = (?h @ fs @ meta) @ put_u32 crc @ put_u64 m2" "bs = (?h @ fs @ meta @ put_u32 crc) @ put_u64 m2"
    "bs = put_u64 m1 @ (put_u16 ver @ put_u32 dw @ put_u32 mw @ fs @ meta) @ put_u32 crc @ put_u64 m2"
    by (simp_all add: bs)
  have l: "length ?h = 18" "length (?h @ fs) = 18 + unat dw * 4" "length (?h @ fs @ meta) = ?e"
    "length (?h @ fs @ meta @ put_u32 crc) = ?e + 4" "length (put_u16 ver @ put_u32 dw @ put_u32 mw @ fs @ meta) + 8 = ?e"
    using assms(1,2) by simp_all
  show "length bs = ?e + 12" using assms(1,2) by (simp add: bs)
  show "get_u64 bs = m1" "get_u16 (drop 8 bs) = ver" "get_u32 (drop 10 bs) = dw" "get_u32 (drop 14 bs) = mw"
    by (simp_all add: bs)
  show "drop 18 bs = fs @ meta @ put_u32 crc @ put_u64 m2" unfolding h(1) by (rule drop_exact [OF l(1)])
  show "slice (18 + unat dw * 4) ?e bs = meta" unfolding h(2) by (rule slice_middle [OF l(2)]) (simp add: assms(2))
  have d: "drop ?e bs = put_u32 crc @ put_u64 m2" unfolding h(3) by (rule drop_exact [OF l(3)])
  have d4: "drop (?e + 4) bs = put_u64 m2" unfolding h(4) by (rule drop_exact [OF l(4)])
  show "get_u32 (drop ?e bs) = crc" "get_u64 (drop (?e + 4) bs) = m2" unfolding d d4 by simp_all
  show "slice 8 ?e bs = put_u16 ver @ put_u32 dw @ put_u32 mw @ fs @ meta"
    unfolding h(5) by (rule slice_middle) (use l(5) in simp_all)
qed

lemma decode_layout:
  assumes "length fs = unat dw * 4" "length meta = unat mw" "bs = vec_layout m1 ver dw mw fs meta crc m2"
  shows "decode_vector bs dim = Inr (v, x) \<longleftrightarrow> m1 = vec_magic \<and> ver = vec_version \<and> int (unat dw) = dim
    \<and> crc = crc32 (put_u16 ver @ put_u32 dw @ put_u32 mw @ fs @ meta) \<and> m2 = vec_magic
    \<and> v = read_floats (unat dw) (drop 18 bs) \<and> x = meta"
  unfolding decode_vector_def Let_def layout_fields(2-5,7-10) [OF assms] using layout_fields(1) [OF assms]
  by (auto simp: layout_fields(2-5,7-10) [OF assms])

lemma layout_split:
  fixes bs :: bytes
  assumes "length bs = 18 + a + b + 12"
  shows "bs = take 8 bs @ (take 2 (drop 8 bs) @ take 4 (drop 10 bs) @ take 4 (drop 14 bs) @ slice 18 (18 + a) bs
    @ slice (18 + a) (18 + a + b) bs) @ take 4 (drop (18 + a + b) bs) @ take 8 (drop (18 + a + b + 4) bs)"
proof -
  have t: "drop x s = take y (drop x s) @ drop (x + y) s" for x y and s :: bytes
    by (metis add.commute append_take_drop_id drop_drop)
  have "take 8 (drop (18 + a + b + 4) bs) = drop (18 + a + b + 4) bs" using assms by simp
  then show ?thesis
    using t [of 0 bs 8] t [of 8 bs 2] t [of 10 bs 4] t [of 14 bs 4] t [of 18 bs a] t [of "18 + a" bs b] t [of "18 + a + b" bs 4]
    unfolding slice_def by (simp only: drop_0 append_assoc) simp
qed

lemma layout_exists:
  assumes "dw = get_u32 (drop 10 bs)" "mw = get_u32 (drop 14 bs)" "length bs = 18 + unat dw * 4 + unat mw + 12"
  shows "\<exists>m1 ver fs meta crc m2. length fs = unat dw * 4 \<and> length meta = unat mw \<and> bs = vec_layout m1 ver dw mw fs meta crc m2"
proof (intro exI conjI)
  let ?e = "18 + unat dw * 4 + unat mw"
  show "length (slice 18 (18 + unat dw * 4) bs) = unat dw * 4" "length (slice (18 + unat dw * 4) ?e bs) = unat mw"
    using assms(3) by simp_all
  have len: "18 + unat (get_u32 (drop 10 bs)) * 4 + unat (get_u32 (drop 14 bs)) + 12 = length bs"
    using assms(3) unfolding assms(1,2) by (rule sym)
  have w: "take 8 bs = put_u64 (get_u64 bs)" "take 2 (drop 8 bs) = put_u16 (get_u16 (drop 8 bs))" "take 4 (drop 10 bs) = put_u32 dw"
    "take 4 (drop 14 bs) = put_u32 mw" "take 4 (drop ?e bs) = put_u32 (get_u32 (drop ?e bs))"
    "take 8 (drop (?e + 4) bs) = put_u64 (get_u64 (drop (?e + 4) bs))"
    unfolding assms(1,2) by (rule put_get_take [symmetric], use len in simp)+
  show "bs = vec_layout (get_u64 bs) (get_u16 (drop 8 bs)) dw mw (slice 18 (18 + unat dw * 4) bs)
      (slice (18 + unat dw * 4) ?e bs) (get_u32 (drop ?e bs)) (get_u64 (drop (?e + 4) bs))"
    unfolding vec_layout_def w [symmetric] by (rule layout_split [OF assms(3)])
qed

lemma decode_encoded:
  assumes "dim < 2 ^ 32" "length meta < 2 ^ 32" "encode_vector dim v meta = Inr bs"
  shows "decode_vector bs dim = Inr (v, meta)"
proof -
  note e = assms(3)
  have l: "int (length v) = dim" using e by (simp add: encode_vector_def split: if_splits)
  have w: "unat (word_of_int dim :: u32) = length v" "unat (len32 meta) = length meta"
    using assms(1,2) by (simp_all add: l [symmetric] unat_len32 unat_of_nat take_bit_nat_eq_self)
  have bs: "bs = vec_layout vec_magic vec_version (word_of_int dim) (len32 meta) (concat (map put_u32 v)) meta
      (crc32 (vec_body dim v meta)) vec_magic"
    using e l by (simp add: encode_vector_def vec_layout_def vec_body_def Let_def)
  have lens: "length (concat (map put_u32 v)) = unat (word_of_int dim :: u32) * 4" "length meta = unat (len32 meta)"
    by (simp_all add: w)
  show ?thesis
    unfolding decode_layout [OF lens bs] layout_fields(6) [OF lens bs] by (simp add: w(1) read_floats_put vec_body_def l)
qed

text \<open>C16: the format of a vector record is exact. For a dimension below \<open>2 ^ 32\<close> and metadata of fewer than
  \<open>2 ^ 32\<close> bytes, decoding accepts a byte string exactly when it is the encoding of what it returns: what is stored is
  read back, with any other bytes, dimension or length decoding fails, and no two strings decode to the same record.\<close>

theorem vector_record_exact:
  assumes "dim < 2 ^ 32" "length meta < 2 ^ 32"
  shows "decode_vector bs dim = Inr (v, meta) \<longleftrightarrow> encode_vector dim v meta = Inr bs"
proof
  show "encode_vector dim v meta = Inr bs \<Longrightarrow> decode_vector bs dim = Inr (v, meta)" by (rule decode_encoded [OF assms])
next
  assume d: "decode_vector bs dim = Inr (v, meta)"
  then have "length bs = 18 + unat (get_u32 (drop 10 bs)) * 4 + unat (get_u32 (drop 14 bs)) + 12"
    by (auto simp: decode_vector_def Let_def split: if_splits)
  then obtain m1 ver dw mw fs x crc m2 where f: "length fs = unat dw * 4" "length x = unat mw"
      "bs = vec_layout m1 ver dw mw fs x crc m2"
    using layout_exists [OF refl refl] by blast
  have r: "m1 = vec_magic" "ver = vec_version" "int (unat dw) = dim" "m2 = vec_magic" "meta = x"
    "crc = crc32 (put_u16 ver @ put_u32 dw @ put_u32 mw @ fs @ meta)" "v = read_floats (unat dw) (fs @ x @ put_u32 crc @ put_u64 m2)"
    using d unfolding decode_layout [OF f] layout_fields(6) [OF f] by auto
  have "concat (map put_u32 v) = fs" unfolding r(7) using f(1) by (simp add: put_read_floats)
  moreover have "length v = unat dw" by (simp add: r(7))
  moreover have "word_of_int dim = dw" "len32 meta = mw"
    using r(3) f(2) r(5) by (auto simp: len32_def)
  ultimately show "encode_vector dim v meta = Inr bs"
    using r f(3) by (simp add: encode_vector_def vec_layout_def vec_body_def Let_def)
qed

theorem vector_record_exact_witness:
  "\<exists>bs. encode_vector 2 [0x3F800000, 0x40000000] [7] = Inr bs \<and> decode_vector bs 2 = Inr ([0x3F800000, 0x40000000], [7])"
proof -
  obtain bs where e: "encode_vector 2 [0x3F800000, 0x40000000] [7] = Inr bs" by (simp add: encode_vector_def Let_def)
  then show ?thesis using vector_record_exact [of 2 "[7]" bs "[0x3F800000, 0x40000000]"] by simp
qed

section \<open>Search\<close>

text \<open>What \<open>sort.Slice\<close> promises for the comparison of \<open>Search\<close>, a strict weak order on scores that are numbers; and that a
  range over a map visits every entry once.\<close>

definition slice_ok :: "(vec_candidate list \<Rightarrow> vec_candidate list) \<Rightarrow> bool" where
  "slice_ok srt \<longleftrightarrow> (\<forall>cs. (\<forall>c \<in> set cs. \<not> f64_nan (vc_score c)) \<longrightarrow> mset (srt cs) = mset cs \<and> sorted_wrt (\<lambda>a b. \<not> better b a) (srt cs))"

definition range_ok :: "((bytes \<times> vec_record) list \<Rightarrow> (bytes \<times> vec_record) list) \<Rightarrow> bool" where
  "range_ok order \<longleftrightarrow> (\<forall>idx. mset (order idx) = mset idx)"

text \<open>The reference ranking: best score first, equal scores by id.\<close>

definition scored :: "float_arith \<Rightarrow> string \<Rightarrow> float32 list \<Rightarrow> bytes \<Rightarrow> vec_record \<Rightarrow> vec_candidate" where
  "scored fa metric q vid r =
     \<lparr>vc_id = vid, vc_score = fst (compute_distance fa metric q (vr_vector r)),
      vc_dist = snd (compute_distance fa metric q (vr_vector r)), vc_meta = vr_meta r\<rparr>"

definition rank_key :: "vec_candidate \<Rightarrow> int \<times> bytes" where
  "rank_key c = (- f64_key (vc_score c), vc_id c)"

definition vec_ranking :: "float_arith \<Rightarrow> string \<Rightarrow> float32 list \<Rightarrow> (bytes \<rightharpoonup> vec_record) \<Rightarrow> vec_candidate list" where
  "vec_ranking fa metric q m = sort_key rank_key (map (\<lambda>vid. scored fa metric q vid (the (m vid))) (sorted_list_of_set (dom m)))"

lemma better_rank:
  "\<not> f64_nan (vc_score a) \<Longrightarrow> \<not> f64_nan (vc_score b) \<Longrightarrow> better a b \<longleftrightarrow> rank_key a < rank_key b"
  by (auto simp: better_def f64_eq_def f64_lt_def rank_key_def)

lemma vec_candidates_scored: "vec_candidates fa metric q idx = map (\<lambda>(vid, r). scored fa metric q vid r) idx"
  by (auto simp: vec_candidates_def scored_def split: prod.splits)

lemma scored_sel [simp]: "vc_id (scored fa metric q vid r) = vid"
  by (simp add: scored_def)

lemma search_ranks:
  assumes "slice_ok srt" "range_ok order" "distinct (map fst idx)"
    and "\<forall>(vid, r) \<in> set idx. \<not> f64_nan (vc_score (scored fa metric q vid r))"
  shows "srt (vec_candidates fa metric q (order idx)) = vec_ranking fa metric q (map_of idx)"
proof -
  let ?cs = "vec_candidates fa metric q (order idx)" and ?f = "\<lambda>vid. scored fa metric q vid (the (map_of idx vid))"
  have perm: "mset (order idx) = mset idx" using assms(2) by (simp add: range_ok_def)
  have ids: "distinct (map fst (order idx))" "set (order idx) = set idx"
    using mset_eq_imp_distinct_iff [of "map fst (order idx)" "map fst idx"] mset_eq_setD [OF perm] assms(3) perm by simp_all
  have cids: "map vc_id ?cs = map fst (order idx)" by (simp add: vec_candidates_scored case_prod_beta)
  have nan: "\<forall>c \<in> set ?cs. \<not> f64_nan (vc_score c)" using assms(4) ids(2) by (auto simp: vec_candidates_scored)
  have s: "mset (srt ?cs) = mset ?cs" "sorted_wrt (\<lambda>a b. \<not> better b a) (srt ?cs)" using assms(1) nan by (auto simp: slice_ok_def)
  have set_s: "set (srt ?cs) = set ?cs" using mset_eq_setD [OF s(1)] .
  have "sorted_wrt (\<lambda>a b. rank_key a \<le> rank_key b) (srt ?cs)"
    using s(2) by (rule sorted_wrt_mono_rel [rotated]) (use better_rank nan set_s in \<open>auto simp: not_less\<close>)
  then have sorted: "sorted (map rank_key (srt ?cs))" by (simp add: sorted_map)
  have "mset (map vc_id (srt ?cs)) = mset (map vc_id ?cs)" by (simp add: s(1))
  then have "distinct (map vc_id (srt ?cs))" using mset_eq_imp_distinct_iff ids(1) unfolding cids by blast
  then have d1: "distinct (map rank_key (srt ?cs))" by (auto simp: distinct_map rank_key_def inj_on_def)
  have fin: "finite (dom (map_of idx))" by (rule finite_dom_map_of)
  let ?xs = "map ?f (sorted_list_of_set (dom (map_of idx)))"
  have "distinct (map rank_key ?xs)" by (auto simp: distinct_map inj_on_def rank_key_def)
  moreover have "mset (map rank_key (sort_key rank_key ?xs)) = mset (map rank_key ?xs)" by (simp only: mset_map mset_sort)
  ultimately have d2: "distinct (map rank_key (vec_ranking fa metric q (map_of idx)))"
    unfolding vec_ranking_def using mset_eq_imp_distinct_iff by blast
  have "set ?cs = (\<lambda>(vid, r). scored fa metric q vid r) ` set idx" by (simp add: vec_candidates_scored ids(2))
  also have "\<dots> = ?f ` fst ` set idx" using assms(3) by (force simp: image_iff)
  also have "\<dots> = set (vec_ranking fa metric q (map_of idx))" using fin by (simp add: vec_ranking_def dom_map_of_conv_image_fst)
  finally have sets: "set (srt ?cs) = set (vec_ranking fa metric q (map_of idx))" using set_s by simp
  have "inj_on rank_key (set (srt ?cs))" using d1 by (simp add: distinct_map)
  then show ?thesis using map_sorted_distinct_set_unique [of rank_key, OF _ sorted d1 _ d2 sets] sets
    by (simp add: vec_ranking_def)
qed

section \<open>Explained operations\<close>

text \<open>An explained operation answers and changes the state as the plain one.\<close>

lemma vec_explain_same:
  "snd (vec_explain_upsert vid v meta wo sync_ok s) = vec_upsert vid v meta wo sync_ok s"
  "snd (vec_explain_search fa order srt q k s) = vec_search fa order srt q k s"
  "snd (vec_explain_delete vid wo sync_ok s) = vec_delete vid wo sync_ok s"
  by (simp_all add: vec_explain_upsert_def vec_upsert_def vec_explain_search_def vec_search_def query_error_def vec_explain_delete_def
      vec_delete_def Let_def split: sum.split option.split prod.split)

end
