(* ===== verification/VectorSession.thy ===== *)
theory VectorSession
  imports VectorSpec
begin

text \<open>
  Sessions of a vector store against one map from ids to records, and what a reopening finds: the engine enters through its
  contract \<open>kv_store\<close> and through recovery.
\<close>

section \<open>Requests\<close>

text \<open>The flag asks for the explained form; a search brings the order in which it meets the map.\<close>

datatype vec_request =
    Vec_upsert bool bytes "float32 list" bytes
  | Vec_delete bool bytes
  | Vec_get bytes
  | Vec_search bool "float32 list" int "(bytes \<times> vec_record) list \<Rightarrow> (bytes \<times> vec_record) list"
  | Vec_count
  | Vec_flush "io_fault option"
  | Vec_compact "io_fault option"

datatype vec_reply =
    Vec_done "vector_error option"
  | Vec_found "vector_error + vec_record option"
  | Vec_ranked "vector_error + vec_candidate list"
  | Vec_counted nat

fun vec_serve ::
    "float_arith \<Rightarrow> (vec_candidate list \<Rightarrow> vec_candidate list) \<Rightarrow> (u64 \<Rightarrow> float64 \<Rightarrow> u64) \<Rightarrow> (u64 \<Rightarrow> u64 \<Rightarrow> int)
     \<Rightarrow> vec_request \<Rightarrow> vec_store \<Rightarrow> vec_reply \<times> vec_store" where
  "vec_serve fa srt c r (Vec_upsert ex vid v meta) s =
     (case (if ex then snd (vec_explain_upsert vid v meta Write_ok True s) else vec_upsert vid v meta Write_ok True s) of
        (er, s') \<Rightarrow> (Vec_done er, s'))"
| "vec_serve fa srt c r (Vec_delete ex vid) s =
     (case (if ex then snd (vec_explain_delete vid Write_ok True s) else vec_delete vid Write_ok True s) of (er, s') \<Rightarrow> (Vec_done er, s'))"
| "vec_serve fa srt c r (Vec_get vid) s = (Vec_found (vec_get vid s), s)"
| "vec_serve fa srt c r (Vec_search ex q k order) s =
     (Vec_ranked (if ex then snd (vec_explain_search fa order srt q k s) else vec_search fa order srt q k s), s)"
| "vec_serve fa srt c r Vec_count s = (Vec_counted (vec_count s), s)"
| "vec_serve fa srt c r (Vec_flush f) s = (case vec_flush c r f s of (er, s') \<Rightarrow> (Vec_done er, s'))"
| "vec_serve fa srt c r (Vec_compact f) s = (case vec_compact c r f s of (er, s') \<Rightarrow> (Vec_done er, s'))"

fun vec_run ::
    "float_arith \<Rightarrow> (vec_candidate list \<Rightarrow> vec_candidate list) \<Rightarrow> (u64 \<Rightarrow> float64 \<Rightarrow> u64) \<Rightarrow> (u64 \<Rightarrow> u64 \<Rightarrow> int)
     \<Rightarrow> vec_request list \<Rightarrow> vec_store \<Rightarrow> vec_reply list \<times> vec_store" where
  "vec_run fa srt c r [] s = ([], s)"
| "vec_run fa srt c r (q # qs) s =
     (case vec_serve fa srt c r q s of (a, s') \<Rightarrow> case vec_run fa srt c r qs s' of (as, s'') \<Rightarrow> (a # as, s''))"

section \<open>The specification\<close>

text \<open>A record fits the log of the engine; an acknowledged write changes the map.\<close>

definition vec_fits :: "vec_options \<Rightarrow> bytes \<Rightarrow> nat \<Rightarrow> bool" where
  "vec_fits o' vid n \<longleftrightarrow> 17 + length (vec_key o' vid) + n \<le> engine_record_limit"

fun vec_effect :: "vec_request \<Rightarrow> vec_reply \<Rightarrow> (bytes \<rightharpoonup> vec_record) \<Rightarrow> bytes \<rightharpoonup> vec_record" where
  "vec_effect (Vec_upsert ex vid v meta) (Vec_done None) m = m(vid \<mapsto> \<lparr>vr_vector = v, vr_meta = meta\<rparr>)"
| "vec_effect (Vec_delete ex vid) (Vec_done None) m = m(vid := None)"
| "vec_effect q a m = m"

fun vec_allowed :: "float_arith \<Rightarrow> vec_options \<Rightarrow> bool \<Rightarrow> (bytes \<rightharpoonup> vec_record) \<Rightarrow> vec_request \<Rightarrow> vec_reply \<Rightarrow> bool" where
  "vec_allowed fa o' op m (Vec_upsert ex vid v meta) a =
     (if \<not> validate_id vid then a = Vec_done (Some VErrID)
      else if \<not> validate_vector o' v then a = Vec_done (Some VErrVector)
      else a = Vec_done None \<and> vec_fits o' vid (30 + 4 * length v + length meta)
        \<or> (\<exists>er. a = Vec_done (Some (VErrEngine er))) \<and> (op \<longrightarrow> \<not> vec_fits o' vid (30 + 4 * length v + length meta)))"
| "vec_allowed fa o' op m (Vec_delete ex vid) a =
     (if \<not> validate_id vid then a = Vec_done (Some VErrID)
      else a = Vec_done None \<or> (\<exists>er. a = Vec_done (Some (VErrEngine er))) \<and> (op \<longrightarrow> \<not> vec_fits o' vid 0))"
| "vec_allowed fa o' op m (Vec_get vid) a = (a = Vec_found (Inr (m vid)))"
| "vec_allowed fa o' op m (Vec_search ex q k order) a =
     (a = Vec_ranked (case query_error o' q k of Some er \<Rightarrow> Inl er | None \<Rightarrow> Inr (take (nat k) (vec_ranking fa (vo_metric o') q m))))"
| "vec_allowed fa o' op m Vec_count a = (a = Vec_counted (card (dom m)))"
| "vec_allowed fa o' op m _ a = (\<exists>er. a = Vec_done er)"

text \<open>The replies explained from a map; \<open>op\<close> says that the engine stays open.\<close>

fun vec_explains ::
    "float_arith \<Rightarrow> vec_options \<Rightarrow> bool \<Rightarrow> (bytes \<rightharpoonup> vec_record) \<Rightarrow> vec_request list \<Rightarrow> vec_reply list \<Rightarrow> bool" where
  "vec_explains fa o' op m [] as = (as = [])"
| "vec_explains fa o' op m (q # qs) as =
     (case as of [] \<Rightarrow> False | a # as' \<Rightarrow> vec_allowed fa o' op m q a \<and> vec_explains fa o' op (vec_effect q a m) qs as')"

fun vec_final :: "vec_request list \<Rightarrow> vec_reply list \<Rightarrow> (bytes \<rightharpoonup> vec_record) \<Rightarrow> bytes \<rightharpoonup> vec_record" where
  "vec_final (q # qs) (a # as) m = vec_final qs as (vec_effect q a m)"
| "vec_final _ _ m = m"

section \<open>The invariant\<close>

definition vec_enc :: "vec_options \<Rightarrow> vec_record \<Rightarrow> bytes option" where
  "vec_enc o' r = (case encode_vector (vo_dim o') (vr_vector r) (vr_meta r) of Inr b \<Rightarrow> Some b | Inl _ \<Rightarrow> None)"

text \<open>What the engine holds for a map of records.\<close>

definition vec_bytes :: "vec_options \<Rightarrow> (bytes \<rightharpoonup> vec_record) \<Rightarrow> bytes \<rightharpoonup> bytes" where
  "vec_bytes o' m k =
     (if take (length (key_prefix o')) k = key_prefix o' then Option.bind (m (drop (length (key_prefix o')) k)) (vec_enc o') else None)"

definition vec_good :: "vec_options \<Rightarrow> bytes \<Rightarrow> vec_record \<Rightarrow> bool" where
  "vec_good o' vid r \<longleftrightarrow> validate_id vid \<and> validate_vector o' (vr_vector r)
     \<and> vec_fits o' vid (30 + 4 * length (vr_vector r) + length (vr_meta r))"

definition vec_inv :: "vec_options \<Rightarrow> nat \<Rightarrow> (bytes \<rightharpoonup> vec_record) \<Rightarrow> vec_store \<Rightarrow> bool" where
  "vec_inv o' n m s \<longleftrightarrow> vs_opts s = o' \<and> \<not> vs_closed s \<and> distinct (map fst (vs_index s)) \<and> map_of (vs_index s) = m
     \<and> (\<forall>vid r. m vid = Some r \<longrightarrow> vec_good o' vid r) \<and> en_opts (vs_eng s) = effective_options (vec_engine_options o')
     \<and> (en_closed (vs_eng s) \<or> engine_ok n (vec_bytes o' m) (vs_eng s))"

definition finite_scores :: "float_arith \<Rightarrow> vec_options \<Rightarrow> bool" where
  "finite_scores fa o' \<longleftrightarrow> (\<forall>q v. query_error o' q 1 = None \<longrightarrow> validate_vector o' v
     \<longrightarrow> \<not> f64_nan (fst (compute_distance fa (vo_metric o') q v)))"

lemma vec_key_parts [simp]:
  "take (length (key_prefix o')) (vec_key o' vid) = key_prefix o'" "drop (length (key_prefix o')) (vec_key o' vid) = vid"
  "vec_key o' vid \<noteq> []"
  by (simp_all add: vec_key_def key_prefix_def ascii_def)

lemma vec_key_eq: "take (length (key_prefix o')) k = key_prefix o' \<Longrightarrow> vec_key o' (drop (length (key_prefix o')) k) = k"
  unfolding vec_key_def by (metis append_take_drop_id)

lemma vec_bytes_upd:
  "vec_bytes o' (m(vid := x)) = (vec_bytes o' m)(vec_key o' vid := Option.bind x (vec_enc o'))"
  using vec_key_eq [of o'] by (auto simp: vec_bytes_def fun_eq_iff)

lemma vec_bytes_at [simp]: "vec_bytes o' m (vec_key o' vid) = Option.bind (m vid) (vec_enc o')"
  by (simp add: vec_bytes_def)

lemma vec_bytes_empty [simp]: "vec_bytes o' Map.empty = Map.empty"
  by (simp add: vec_bytes_def fun_eq_iff)

lemma encode_valid:
  assumes "validate_vector o' v"
  obtains enc where "encode_vector (vo_dim o') v meta = Inr enc" "length enc = 30 + 4 * length v + length meta"
proof -
  have "int (length v) = vo_dim o'" using assms by (simp add: validate_vector_def split: if_splits)
  then show thesis
    by (intro that [of "put_u64 vec_magic @ vec_body (vo_dim o') v meta @ put_u32 (crc32 (vec_body (vo_dim o') v meta)) @ put_u64 vec_magic"])
      (simp_all add: encode_vector_def vec_body_def Let_def)
qed

lemma vec_record_limit:
  "unat (eff_max (wal_opts_of (effective_options (vec_engine_options o')))) = engine_record_limit"
  by (simp add: effective_options_def vec_engine_options_def wal_opts_of_def eff_max_def wal_default_max_def engine_record_limit_def)

lemma vec_opts_ok: "vec_options_ok o' \<Longrightarrow> opts_ok (effective_options (vec_engine_options o'))"
  by (simp add: opts_ok_def effective_options_def vec_engine_options_def default_mem_bytes_def vec_options_ok_def
      default_bloom_fpr_def float_zero_def fpr_valid_def split: if_splits)


section \<open>Every request\<close>

lemma engine_write_open:
  assumes "engine_ok n m e" "k \<noteq> []"
  shows "(\<exists>e'. engine_write k v Write_ok True e = (None, e'))
    \<longleftrightarrow> 17 + length k + length (case v of None \<Rightarrow> [] | Some x \<Rightarrow> x) \<le> unat (eff_max (wal_opts_of (en_opts e)))"
  using engine_write_succeeds [OF engine_ok_inv [OF assms(1)] assms(2)] engine_write_fits(2) [OF engine_ok_inv [OF assms(1)]]
  by blast

text \<open>One write through the store: acknowledged, or refused by a closed engine or for its length.\<close>

lemma vec_engine_write:
  assumes "vec_inv o' n m s" "n \<le> 2 ^ 29" "engine_write (vec_key o' vid) x Write_ok True (vs_eng s) = (er, e)"
  shows "er = None \<Longrightarrow> engine_ok (n + 1) ((vec_bytes o' m)(vec_key o' vid := x)) e \<and> \<not> en_closed (vs_eng s)
      \<and> en_opts e = en_opts (vs_eng s) \<and> vec_fits o' vid (length (case x of None \<Rightarrow> [] | Some b \<Rightarrow> b))"
    "er \<noteq> None \<Longrightarrow> e = vs_eng s \<and> (\<not> en_closed e \<longrightarrow> \<not> vec_fits o' vid (length (case x of None \<Rightarrow> [] | Some b \<Rightarrow> b)))"
proof -
  note inv = assms(1) [unfolded vec_inv_def]
  have lim: "vec_fits o' vid k \<longleftrightarrow> 17 + length (vec_key o' vid) + k \<le> unat (eff_max (wal_opts_of (en_opts (vs_eng s))))" for k
    using inv by (simp add: vec_fits_def vec_record_limit)
  have fits: "engine_ok n (vec_bytes o' m) (vs_eng s) \<Longrightarrow> er = None \<longleftrightarrow> vec_fits o' vid (length (case x of None \<Rightarrow> [] | Some b \<Rightarrow> b))"
    using engine_write_open [of n _ "vs_eng s" "vec_key o' vid" x] assms(3) unfolding lim by auto
  show "engine_ok (n + 1) ((vec_bytes o' m)(vec_key o' vid := x)) e \<and> \<not> en_closed (vs_eng s)
      \<and> en_opts e = en_opts (vs_eng s) \<and> vec_fits o' vid (length (case x of None \<Rightarrow> [] | Some b \<Rightarrow> b))" if "er = None"
  proof -
    have op: "\<not> en_closed (vs_eng s)" using assms(3) that by (auto simp: engine_write_eq)
    then have ok: "engine_ok n (vec_bytes o' m) (vs_eng s)" using inv by blast
    have "en_opts e = en_opts (vs_eng s)" using engine_write_opts [of _ x Write_ok True "vs_eng s"] assms(3) by (metis snd_conv)
    then show ?thesis using engine_kv.upd_ok [OF ok assms(2)] assms(3) that fits [OF ok] op by simp
  qed
  show "e = vs_eng s \<and> (\<not> en_closed e \<longrightarrow> \<not> vec_fits o' vid (length (case x of None \<Rightarrow> [] | Some b \<Rightarrow> b)))" if "er \<noteq> None"
  proof -
    have "e = vs_eng s" using engine_write_refused assms(3) that by blast
    then show ?thesis using inv fits that by blast
  qed
qed

lemma vec_inv_Suc: "vec_inv o' n m s \<Longrightarrow> vec_inv o' (n + 1) m s"
  using engine_kv.ok_mono [of n _ _ "n + 1"] by (auto simp: vec_inv_def)

text \<open>What a request does to a store: the reply is allowed, the invariant holds for the new map, a closed engine stays closed.\<close>

definition vec_step_ok ::
    "float_arith \<Rightarrow> vec_options \<Rightarrow> nat \<Rightarrow> (bytes \<rightharpoonup> vec_record) \<Rightarrow> vec_request \<Rightarrow> vec_reply \<Rightarrow> vec_store \<Rightarrow> vec_store \<Rightarrow> bool" where
  "vec_step_ok fa o' n m q a s s' \<longleftrightarrow> vec_allowed fa o' (\<not> en_closed (vs_eng s')) m q a \<and> vec_inv o' (n + 1) (vec_effect q a m) s'
     \<and> (en_closed (vs_eng s) \<longrightarrow> en_closed (vs_eng s'))"

lemma vec_upsert_step:
  assumes "vec_inv o' n m s" "n \<le> 2 ^ 29" "vec_upsert vid v meta Write_ok True s = (er, s')"
  shows "vec_step_ok fa o' n m (Vec_upsert ex vid v meta) (Vec_done er) s s'"
proof (cases "validate_id vid \<and> validate_vector o' v")
  case True
  have o: "vs_opts s = o'" "\<not> vs_closed s" "distinct (map fst (vs_index s))" "map_of (vs_index s) = m"
    using assms(1) by (simp_all add: vec_inv_def)
  obtain enc where enc: "encode_vector (vo_dim o') v meta = Inr enc" "length enc = 30 + 4 * length v + length meta"
    using encode_valid True by blast
  let ?r = "\<lparr>vr_vector = v, vr_meta = meta\<rparr>"
  let ?idx = "AList.update vid ?r (vs_index s)"
  obtain fe e where w: "engine_write (vec_key o' vid) (Some enc) Write_ok True (vs_eng s) = (fe, e)" by fastforce
  have s': "(er, s') = (case fe of Some er \<Rightarrow> (Some (VErrEngine er), s\<lparr>vs_eng := e\<rparr>) | None \<Rightarrow> (None, s\<lparr>vs_eng := e, vs_index := ?idx\<rparr>))"
    using assms(3) True o w enc by (simp add: vec_upsert_def engine_write_def split: option.splits)
  note wr = vec_engine_write [OF assms(1,2) w]
  show ?thesis
  proof (cases fe)
    case None
    have "vec_good o' vid ?r" using wr(1) [OF None] True by (simp add: vec_good_def enc)
    moreover have "map_of ?idx = m(vid \<mapsto> ?r)" "distinct (map fst ?idx)" using o by (simp_all add: update_conv' distinct_update)
    moreover have "vec_bytes o' (m(vid \<mapsto> ?r)) = (vec_bytes o' m)(vec_key o' vid \<mapsto> enc)" by (simp add: vec_bytes_upd vec_enc_def enc)
    ultimately show ?thesis
      using wr(1) [OF None] s' None True assms(1) o by (auto simp: vec_step_ok_def vec_inv_def enc(2) split: if_splits)
  next
    case (Some f)
    then show ?thesis using wr(2) s' True vec_inv_Suc [OF assms(1)] by (simp add: vec_step_ok_def enc(2))
  qed
next
  case False
  then have "s' = s" "er = Some (if validate_id vid then VErrVector else VErrID)"
    using assms(1,3) by (auto simp: vec_upsert_def vec_inv_def split: if_splits)
  then show ?thesis using False vec_inv_Suc [OF assms(1)] by (simp add: vec_step_ok_def)
qed

lemma vec_delete_step:
  assumes "vec_inv o' n m s" "n \<le> 2 ^ 29" "vec_delete vid Write_ok True s = (er, s')"
  shows "vec_step_ok fa o' n m (Vec_delete ex vid) (Vec_done er) s s'"
proof (cases "validate_id vid")
  case True
  have o: "vs_opts s = o'" "\<not> vs_closed s" "distinct (map fst (vs_index s))" "map_of (vs_index s) = m"
    using assms(1) by (simp_all add: vec_inv_def)
  let ?idx = "AList.delete vid (vs_index s)"
  obtain fe e where w: "engine_write (vec_key o' vid) None Write_ok True (vs_eng s) = (fe, e)" by fastforce
  have s': "(er, s') = (case fe of Some er \<Rightarrow> (Some (VErrEngine er), s\<lparr>vs_eng := e\<rparr>) | None \<Rightarrow> (None, s\<lparr>vs_eng := e, vs_index := ?idx\<rparr>))"
    using assms(3) True o w by (simp add: vec_delete_def engine_write_def split: option.splits)
  note wr = vec_engine_write [OF assms(1,2) w]
  show ?thesis
  proof (cases fe)
    case None
    have "map_of ?idx = m(vid := None)" "distinct (map fst ?idx)" using o by (simp_all add: delete_conv' distinct_delete)
    moreover have "vec_bytes o' (m(vid := None)) = (vec_bytes o' m)(vec_key o' vid := None)" by (simp add: vec_bytes_upd)
    ultimately show ?thesis
      using wr(1) [OF None] s' None True assms(1) o by (auto simp: vec_step_ok_def vec_inv_def split: if_splits)
  next
    case (Some f)
    then show ?thesis using wr(2) s' True vec_inv_Suc [OF assms(1)] by (simp add: vec_step_ok_def)
  qed
next
  case False
  then have "s' = s" "er = Some VErrID" using assms(1,3) by (auto simp: vec_delete_def)
  then show ?thesis using False vec_inv_Suc [OF assms(1)] by (simp add: vec_step_ok_def)
qed

lemma vec_reorganise_step:
  assumes "vec_inv o' n m s" "n \<le> 2 ^ 29" "q = Vec_flush f \<and> vec_flush c r f s = (er, s') \<or> q = Vec_compact f \<and> vec_compact c r f s = (er, s')"
  shows "vec_step_ok fa o' n m q (Vec_done er) s s'"
proof -
  have o: "\<not> vs_closed s" using assms(1) by (simp add: vec_inv_def)
  obtain op where op: "s' = s\<lparr>vs_eng := snd (engine_step c r op (vs_eng s))\<rparr>" "op = Flush_op f \<or> op = Compact_op f"
    using assms(3) o that [of "Flush_op f"] that [of "Compact_op f"] by (auto simp: vec_flush_def vec_compact_def split: prod.splits)
  let ?e = "snd (engine_step c r op (vs_eng s))"
  have tidy: "\<not> en_closed ?e \<Longrightarrow> engine_tidy (vs_eng s) ?e" using op(2) unfolding engine_tidy_def by (elim disjE) (simp, blast)+
  have "en_closed (vs_eng s) \<Longrightarrow> ?e = vs_eng s" using op(2) by (auto simp: engine_flush_def engine_compact_def)
  moreover have "engine_ok n (vec_bytes o' m) (vs_eng s) \<Longrightarrow> \<not> en_closed ?e \<Longrightarrow> engine_ok (n + 1) (vec_bytes o' m) ?e"
    using engine_kv.tidy_ok [OF _ assms(2), of _ "vs_eng s" ?e] tidy by blast
  moreover have "en_opts ?e = en_opts (vs_eng s)" by (rule engine_step_opts)
  ultimately have "vec_inv o' (n + 1) m s'" "en_closed (vs_eng s) \<longrightarrow> en_closed (vs_eng s')"
    using assms(1) unfolding op(1) vec_inv_def by auto
  moreover have "vec_effect q (Vec_done er) m = m" using assms(3) by auto
  ultimately show ?thesis using assms(3) by (auto simp: vec_step_ok_def)
qed

lemma vec_search_step:
  assumes "vec_inv o' n m s" "slice_ok srt" "range_ok order" "finite_scores fa o'"
  shows "vec_search fa order srt q k s
    = (case query_error o' q k of Some er \<Rightarrow> Inl er | None \<Rightarrow> Inr (take (nat k) (vec_ranking fa (vo_metric o') q m)))"
proof (cases "query_error o' q k")
  case None
  have o: "vs_opts s = o'" "\<not> vs_closed s" "distinct (map fst (vs_index s))" "map_of (vs_index s) = m"
    "\<And>vid r. m vid = Some r \<Longrightarrow> vec_good o' vid r"
    using assms(1) by (auto simp: vec_inv_def)
  have "query_error o' q 1 = None" "0 < k" using None by (auto simp: query_error_def split: if_splits)
  moreover have "validate_vector o' (vr_vector x)" if "(vid, x) \<in> set (vs_index s)" for vid x
    using o(5) [of vid x] map_of_is_SomeI [OF o(3) that] by (simp add: o(4) vec_good_def)
  ultimately have "\<forall>(vid, x) \<in> set (vs_index s). \<not> f64_nan (vc_score (scored fa (vo_metric o') q vid x))"
    using assms(4) by (auto simp: finite_scores_def scored_def)
  then have rank: "srt (vec_candidates fa (vo_metric o') q (order (vs_index s))) = vec_ranking fa (vo_metric o') q m"
    using search_ranks [OF assms(2,3) o(3)] by (simp add: o(4))
  show ?thesis
    using None o(2) by (simp add: vec_search_def o(1) rank Let_def)
qed (use assms(1) in \<open>simp add: vec_search_def vec_inv_def\<close>)

fun search_ok :: "vec_request \<Rightarrow> bool" where
  "search_ok (Vec_search ex q k order) = range_ok order" | "search_ok q = True"

lemma vec_serve_step:
  assumes "vec_inv o' n m s" "n \<le> 2 ^ 29" "slice_ok srt" "finite_scores fa o'" "search_ok q" "vec_serve fa srt c r q s = (a, s')"
  shows "vec_step_ok fa o' n m q a s s'"
proof (cases q)
  case (Vec_upsert ex vid v meta)
  then obtain er where "vec_upsert vid v meta Write_ok True s = (er, s')" "a = Vec_done er"
    using assms(6) by (auto simp: vec_explain_same split: prod.splits if_splits)
  then show ?thesis using vec_upsert_step [OF assms(1,2)] Vec_upsert by simp
next
  case (Vec_delete ex vid)
  then obtain er where "vec_delete vid Write_ok True s = (er, s')" "a = Vec_done er"
    using assms(6) by (auto simp: vec_explain_same split: prod.splits if_splits)
  then show ?thesis using vec_delete_step [OF assms(1,2)] Vec_delete by simp
next
  case (Vec_search ex v k order)
  then show ?thesis
    using vec_search_step [OF assms(1,3) _ assms(4)] assms(5,6) vec_inv_Suc [OF assms(1)]
    by (auto simp: vec_step_ok_def vec_explain_same)
next
  case Vec_count
  have "length (vs_index s) = card (dom m)" using assms(1) distinct_card [of "map fst (vs_index s)"]
    by (auto simp: vec_inv_def dom_map_of_conv_image_fst)
  then show ?thesis using Vec_count assms(6) vec_inv_Suc [OF assms(1)] by (auto simp: vec_step_ok_def vec_count_def)
next
  case (Vec_get vid)
  then show ?thesis using assms(1,6) vec_inv_Suc [OF assms(1)] by (auto simp: vec_step_ok_def vec_get_def vec_inv_def)
next
  case (Vec_flush f)
  then obtain er where "vec_flush c r f s = (er, s')" "a = Vec_done er" using assms(6) by (auto split: prod.splits)
  then show ?thesis using vec_reorganise_step [OF assms(1,2)] Vec_flush by blast
next
  case (Vec_compact f)
  then obtain er where "vec_compact c r f s = (er, s')" "a = Vec_done er" using assms(6) by (auto split: prod.splits)
  then show ?thesis using vec_reorganise_step [OF assms(1,2)] Vec_compact by blast
qed

lemma vec_allowed_weaken: "vec_allowed fa o' op m q a \<Longrightarrow> (op' \<longrightarrow> op) \<Longrightarrow> vec_allowed fa o' op' m q a"
  by (cases q) (auto split: if_splits)

lemma vec_run_ok:
  assumes "vec_inv o' n m s" "n + length qs \<le> 2 ^ 29" "slice_ok srt" "finite_scores fa o'" "\<forall>q \<in> set qs. search_ok q"
    and "vec_run fa srt c r qs s = (as, s')"
  shows "vec_explains fa o' (\<not> en_closed (vs_eng s')) m qs as \<and> vec_inv o' (n + length qs) (vec_final qs as m) s'
    \<and> (en_closed (vs_eng s) \<longrightarrow> en_closed (vs_eng s'))"
  using assms(1,2,5,6)
proof (induction qs arbitrary: n m s as)
  case (Cons q qs)
  obtain a s1 as1 where st: "vec_serve fa srt c r q s = (a, s1)" "vec_run fa srt c r qs s1 = (as1, s')" "as = a # as1"
    using Cons.prems(4) by (auto split: prod.splits)
  have "vec_step_ok fa o' n m q a s s1"
    using vec_serve_step [OF Cons.prems(1) _ assms(3,4) _ st(1)] Cons.prems(2,3) by simp
  then have s1: "vec_allowed fa o' (\<not> en_closed (vs_eng s1)) m q a" "vec_inv o' (n + 1) (vec_effect q a m) s1"
      "en_closed (vs_eng s) \<longrightarrow> en_closed (vs_eng s1)"
    unfolding vec_step_ok_def by blast+
  note ih = Cons.IH [OF s1(2) _ _ st(2)]
  have r: "vec_explains fa o' (\<not> en_closed (vs_eng s')) (vec_effect q a m) qs as1" "en_closed (vs_eng s1) \<longrightarrow> en_closed (vs_eng s')"
    "vec_inv o' (n + 1 + length qs) (vec_final qs as1 (vec_effect q a m)) s'"
    using ih Cons.prems(2,3) by simp_all
  have "vec_allowed fa o' (\<not> en_closed (vs_eng s')) m q a" by (rule vec_allowed_weaken [OF s1(1)]) (use r(2) in blast)
  then show ?case using r s1(3) st(3) by simp
qed simp

section \<open>Opening\<close>

lemma vec_open_fresh:
  assumes "vec_options_ok (apply_defaults o0)"
  shows "\<exists>s0 d. vec_open None o0 fresh_disk = (Inr s0, d) \<and> vec_inv (apply_defaults o0) 0 Map.empty s0
    \<and> session_inv 0 Map.empty (vs_eng s0) \<and> en_next_seq (vs_eng s0) = 1 \<and> mt_get (en_mem (vs_eng s0)) = Map.empty \<and> en_tables (vs_eng s0) = []"
proof -
  let ?o = "apply_defaults o0"
  have o: "eo_dir (vec_engine_options ?o) \<noteq> []" "fpr_valid (eo_fpr (effective_options (vec_engine_options ?o)))"
    using vec_opts_ok [OF assms] by (simp_all add: opts_ok_def effective_options_def)
  obtain e d where e: "engine_open None (vec_engine_options ?o) fresh_disk = (Inr e, d)" "session_inv 0 Map.empty e"
      "en_next_seq e = 1" "en_tables e = []" "mt_get (en_mem e) = Map.empty"
    using open_fresh [OF o] by blast
  have ok: "engine_ok 0 Map.empty e" using e(2) by (auto simp: engine_ok_def session_inv_def engine_inv_def)
  obtain res where res: "engine_scan (key_prefix ?o) (key_prefix ?o @ [0xFF]) e = Inr res"
      "scan_result (key_prefix ?o) (key_prefix ?o @ [0xFF]) Map.empty res"
    using engine_kv.scan_ok [OF ok] by blast
  have "res = []" using res(2) unfolding scan_result_def by (cases res) fastforce+
  then have "vec_open None o0 fresh_disk = (Inr \<lparr>vs_opts = ?o, vs_eng = e, vs_index = [], vs_closed = False\<rparr>, d)"
    using assms e(1) res(1) by (simp add: vec_open_def load_vectors_def Let_def)
  then show ?thesis using ok e engine_open_opts [OF e(1)] by (auto simp: vec_inv_def)
qed

text \<open>C13: a session of a vector store, from its first opening, with explained and plain operations mixed, with failing
  flushes and compactions in between and whatever order the searches meet the map in, refines one map from ids to records.
  Every reply is the one the map determines: a read its value, a search the first \<open>k\<close> of the reference ranking, a count the
  number of ids; a write is refused for its id, its vector, its length, or by an engine a failed flush has closed, and is
  otherwise acknowledged. While the engine is open it holds exactly the encoded records under their keys.\<close>

theorem vector_session_refines_map:
  assumes "vec_open None o0 fresh_disk = (Inr s0, d)" "slice_ok srt" "finite_scores fa (vs_opts s0)"
    and "length qs \<le> 2 ^ 29" "\<forall>q \<in> set qs. search_ok q" "vec_run fa srt c r qs s0 = (as, s)"
  shows "vec_explains fa (vs_opts s0) (\<not> en_closed (vs_eng s)) Map.empty qs as
    \<and> map_of (vs_index s) = vec_final qs as Map.empty
    \<and> (\<not> en_closed (vs_eng s) \<longrightarrow> (\<forall>vid. fst (engine_get (vec_key (vs_opts s0) vid) (vs_eng s))
         = Inr (Option.bind (vec_final qs as Map.empty vid) (vec_enc (vs_opts s0)))))"
proof -
  have o: "vec_options_ok (apply_defaults o0)" using assms(1) by (auto simp: vec_open_def Let_def split: if_splits)
  then have s0: "vec_inv (apply_defaults o0) 0 Map.empty s0" using vec_open_fresh [OF o] assms(1) by auto
  then have opts: "vs_opts s0 = apply_defaults o0" by (simp add: vec_inv_def)
  have run: "vec_explains fa (vs_opts s0) (\<not> en_closed (vs_eng s)) Map.empty qs as"
      "vec_inv (vs_opts s0) (0 + length qs) (vec_final qs as Map.empty) s"
    using vec_run_ok [OF s0 _ assms(2) _ assms(5,6)] assms(3,4) by (simp_all add: opts)
  have "fst (engine_get (vec_key (vs_opts s0) vid) (vs_eng s)) = Inr (Option.bind (vec_final qs as Map.empty vid) (vec_enc (vs_opts s0)))"
    if "\<not> en_closed (vs_eng s)" for vid
  proof -
    have "engine_ok (0 + length qs) (vec_bytes (vs_opts s0) (vec_final qs as Map.empty)) (vs_eng s)"
      using run(2) that unfolding vec_inv_def by blast
    then show ?thesis using engine_kv.get_ok [of _ _ "vs_eng s" "vec_key (vs_opts s0) vid"] by fastforce
  qed
  then show ?thesis using run by (simp add: vec_inv_def)
qed

end
