(* ===== verification/VectorReopen.thy ===== *)
theory VectorReopen
  imports VectorSession
begin

text \<open>
  What a reopened vector store finds: the index it was closed with, short of the ids the scan of its namespace leaves out;
  and the older records a scan brings back when numbers of the log have started again. With a concrete session for the
  theorems of the store.
\<close>

section \<open>Loading the index\<close>

lemma prefix_less: "p @ x < p @ y \<longleftrightarrow> x < (y :: bytes)"
  by (induction p) simp_all

lemma prefix_le: "p \<le> p @ (x :: bytes)"
  by (induction p) simp_all

text \<open>Ids that start with the byte 0xFF are beyond the end of the scan.\<close>

definition in_scan :: "bytes \<Rightarrow> bool" where
  "in_scan vid \<longleftrightarrow> take 1 vid \<noteq> [0xFF]"

lemma in_range_prefix:
  assumes "vid \<noteq> []"
  shows "in_range p (p @ [0xFF]) (p @ vid) \<longleftrightarrow> in_scan vid"
proof -
  obtain b bs where v: "vid = b # bs" using assms by (cases vid) auto
  have "b \<le> 0xFF" using unsigned_less [of b, where 'a = nat] by (simp add: word_le_nat_alt)
  then have "vid < [0xFF] \<longleftrightarrow> b \<noteq> 0xFF" by (auto simp: v)
  then show ?thesis by (simp add: in_range_def prefix_less prefix_le in_scan_def v)
qed

text \<open>A scan result whose entries are encoded records of a map.\<close>

lemma load_entries_ok:
  assumes "\<forall>e \<in> set es. \<exists>vid r. kv_key e = vec_key o' vid \<and> vid \<noteq> [] \<and> m vid = Some r
      \<and> decode_vector (kv_value e) (vo_dim o') = Inr (vr_vector r, vr_meta r)"
    and "distinct (map fst idx)"
  shows "\<exists>idx'. load_entries o' es idx = Inr idx' \<and> distinct (map fst idx')
    \<and> (\<forall>vid. map_of idx' vid = (if \<exists>e \<in> set es. kv_key e = vec_key o' vid then m vid else map_of idx vid))"
  using assms
proof (induction es arbitrary: idx)
  case (Cons e es)
  obtain vid r where e: "kv_key e = vec_key o' vid" "vid \<noteq> []" "m vid = Some r"
      "decode_vector (kv_value e) (vo_dim o') = Inr (vr_vector r, vr_meta r)"
    using Cons.prems(1) by (metis list.set_intros(1))
  let ?idx = "AList.update vid r idx"
  have inj: "vec_key o' v = vec_key o' w \<longleftrightarrow> v = w" for v w by (simp add: vec_key_def)
  obtain idx' where ih: "load_entries o' es ?idx = Inr idx'" "distinct (map fst idx')"
      "\<forall>v. map_of idx' v = (if \<exists>e \<in> set es. kv_key e = vec_key o' v then m v else map_of ?idx v)"
    using Cons.IH [of ?idx] Cons.prems by (auto simp: distinct_update)
  have "load_entries o' (e # es) idx = Inr idx'"
  proof -
    have r: "\<lparr>vr_vector = vr_vector r, vr_meta = vr_meta r\<rparr> = r" by simp
    show ?thesis using e ih(1) by (simp add: id_from_key_def del: vec_record.surjective) (simp only: r)
  qed
  moreover have "map_of idx' v = (if \<exists>x \<in> set (e # es). kv_key x = vec_key o' v then m v else map_of idx v)" for v
    using ih(3) e(1,3) by (auto simp: update_conv' inj)
  ultimately show ?case using ih(2) by blast
qed simp

lemma vec_good_decodes:
  assumes "vec_good o' vid r"
  shows "vid \<noteq> []" "\<exists>b. vec_enc o' r = Some b \<and> decode_vector b (vo_dim o') = Inr (vr_vector r, vr_meta r)"
proof -
  show "vid \<noteq> []" using assms by (auto simp: vec_good_def validate_id_def)
  have v: "validate_vector o' (vr_vector r)" "30 + 4 * length (vr_vector r) + length (vr_meta r) \<le> 2 ^ 26"
    using assms by (simp_all add: vec_good_def vec_fits_def engine_record_limit_def)
  have "int (length (vr_vector r)) = vo_dim o'" using v(1) by (simp add: validate_vector_def split: if_splits)
  then have small: "vo_dim o' < 2 ^ 32" "length (vr_meta r) < 2 ^ 32" using v(2) by simp_all
  obtain b where b: "encode_vector (vo_dim o') (vr_vector r) (vr_meta r) = Inr b" using encode_valid [OF v(1)] by blast
  then show "\<exists>b. vec_enc o' r = Some b \<and> decode_vector b (vo_dim o') = Inr (vr_vector r, vr_meta r)"
    using decode_encoded [OF small] by (simp add: vec_enc_def)
qed

lemma load_vectors_scan:
  assumes "engine_scan (key_prefix o') (key_prefix o' @ [0xFF]) e = Inr res"
    and members: "\<forall>k v. (k, v) \<in> (\<lambda>kv. (kv_key kv, kv_value kv)) ` set res
      \<longleftrightarrow> in_range (key_prefix o') (key_prefix o' @ [0xFF]) k \<and> vec_bytes o' m k = Some v"
    and "\<forall>vid r. m vid = Some r \<longrightarrow> vec_good o' vid r"
  shows "\<exists>idx. load_vectors o' e = Inr idx \<and> (\<forall>vid. map_of idx vid = (if in_scan vid then m vid else None))"
proof -
  let ?p = "key_prefix o'"
  have ent: "\<exists>vid r. kv_key x = vec_key o' vid \<and> vid \<noteq> [] \<and> m vid = Some r
      \<and> decode_vector (kv_value x) (vo_dim o') = Inr (vr_vector r, vr_meta r)" if "x \<in> set res" for x
  proof -
    let ?vid = "drop (length ?p) (kv_key x)"
    have "vec_bytes o' m (kv_key x) = Some (kv_value x)" using members that by (auto simp: image_iff)
    then obtain r where r: "take (length ?p) (kv_key x) = ?p" "m ?vid = Some r" "vec_enc o' r = Some (kv_value x)"
      by (auto simp: vec_bytes_def Option.bind_eq_Some_conv split: if_splits)
    have good: "vec_good o' ?vid r" using assms(3) r(2) by blast
    have "decode_vector (kv_value x) (vo_dim o') = Inr (vr_vector r, vr_meta r)" using vec_good_decodes(2) [OF good] r(3) by simp
    with vec_key_eq [OF r(1)] vec_good_decodes(1) [OF good] r(2) show ?thesis by metis
  qed
  obtain idx where idx: "load_entries o' res [] = Inr idx"
      "\<forall>vid. map_of idx vid = (if \<exists>x \<in> set res. kv_key x = vec_key o' vid then m vid else None)"
    using load_entries_ok [of res o' m "[]"] ent by auto
  have "(\<exists>x \<in> set res. kv_key x = vec_key o' vid) \<longleftrightarrow> in_scan vid" if "m vid = Some r" for vid r
  proof -
    have good: "vec_good o' vid r" using assms(3) that by blast
    obtain b where b: "vec_enc o' r = Some b" using vec_good_decodes(2) [OF good] by blast
    have "(\<exists>x \<in> set res. kv_key x = vec_key o' vid) \<longleftrightarrow> (\<exists>v. (vec_key o' vid, v) \<in> (\<lambda>kv. (kv_key kv, kv_value kv)) ` set res)"
      by (force simp: image_iff)
    also have "\<dots> \<longleftrightarrow> in_range ?p (?p @ [0xFF]) (vec_key o' vid)" using members that b by simp
    also have "\<dots> \<longleftrightarrow> in_scan vid" using in_range_prefix [OF vec_good_decodes(1) [OF good]] by (simp add: vec_key_def)
    finally show ?thesis .
  qed
  then have "map_of idx vid = (if in_scan vid then m vid else None)" for vid
    using idx(2) by (cases "m vid") auto
  with idx(1) assms(1) show ?thesis by (auto simp: load_vectors_def)
qed

lemma load_vectors_ok:
  assumes "engine_inv e" "layered e" "engine_view e = vec_bytes o' m" "\<forall>vid r. m vid = Some r \<longrightarrow> vec_good o' vid r"
  shows "\<exists>idx. load_vectors o' e = Inr idx \<and> (\<forall>vid. map_of idx vid = (if in_scan vid then m vid else None))"
proof -
  have inv: "\<not> en_closed e" "tables_ok (en_tables e)" "mt_inv (en_mem e)" using assms(1) by (auto simp: engine_inv_def)
  show ?thesis
    using engine_scan_correct [OF inv assms(2), of "key_prefix o'" "key_prefix o' @ [0xFF]"] load_vectors_scan [OF _ _ assms(4)]
    unfolding assms(3) by blast
qed

section \<open>Closing and reopening\<close>

definition vec_reopen :: "vec_options \<Rightarrow> vec_store \<Rightarrow> vector_error + vec_store" where
  "vec_reopen o0 s = fst (vec_open None o0 (directory (vs_eng (snd (vec_close s)))))"

text \<open>No key in the log is in a table as well: so before the first flush, and after a flush until a flushed id is written
  again, unless the flush could not remove the old log.\<close>

definition unshadowed :: "engine \<Rightarrow> bool" where
  "unshadowed e \<longleftrightarrow> (\<forall>mem. log_replays (en_opts e) (d_wal (directory e)) mem \<longrightarrow>
     (\<forall>k. mt_get mem k \<noteq> None \<longrightarrow> (\<forall>th \<in> set (en_tables e). table_layer th k = None)))"

lemma engine_reopened:
  assumes "engine_inv e"
  shows "\<exists>e' d. engine_open None (en_opts e) (directory e) = (Inr e', d) \<and> engine_inv e' \<and> engine_view e' = engine_view e
    \<and> en_tables e' = en_tables e \<and> log_replays (en_opts e) (d_wal (directory e)) (en_mem e')"
proof -
  obtain mem where mem: "log_replays (en_opts e) (d_wal (directory e)) mem" "log_agrees mem (en_mem e) (en_tables e)"
    using assms by (auto simp: engine_inv_def directory_def)
  have "opts_ok (en_opts e)" "disk_holds (en_opts e) (directory e) (en_next_file e) (en_tables e)" "tables_ok (en_tables e)"
    using assms by (auto simp: engine_inv_def directory_def disk_holds_wal)
  from reopen_directory [OF this mem(1)]
  obtain e' where e': "engine_open None (en_opts e) (directory e) = (Inr e', directory e)" "engine_inv e'" "en_tables e' = en_tables e"
      "en_mem e' = mem" by blast
  have l: "layers e' = mt_get mem # map table_layer (rev (en_tables e))" "layers e = mt_get (en_mem e) # map table_layer (rev (en_tables e))"
    by (simp_all add: layers_def e'(3,4))
  have "engine_view e' = engine_view e"
    unfolding engine_view_def [abs_def] l by (rule ext) (rule mem(2) [unfolded log_agrees_def, rule_format])
  then show ?thesis using e' mem(1) by blast
qed

lemma unshadowed_layered:
  assumes "layered e" "unshadowed e" "en_tables e' = en_tables e" "log_replays (en_opts e) (d_wal (directory e)) (en_mem e')"
  shows "layered e'"
proof -
  have "newer_layer (mt_get (en_mem e')) (table_layer th)" if "th \<in> set (en_tables e)" for th
    using that assms(2,4) unfolding newer_layer_def unshadowed_def by (metis option.discI)
  then have "\<forall>l \<in> set (map table_layer (rev (en_tables e))). newer_layer (mt_get (en_mem e')) l" by simp
  then show ?thesis using layered_tables [OF assms(1)] by (simp add: layered_def layers_def assms(3))
qed

lemma vec_open_directory:
  assumes "vec_options_ok (apply_defaults o0)" "engine_inv e" "en_opts e = effective_options (vec_engine_options (apply_defaults o0))"
    and "engine_open None (en_opts e) (directory e) = (Inr e', d)" "load_vectors (apply_defaults o0) e' = Inr idx"
  shows "vec_open None o0 (directory e) = (Inr \<lparr>vs_opts = apply_defaults o0, vs_eng = e', vs_index = idx, vs_closed = False\<rparr>, d)"
proof -
  let ?o = "vec_engine_options (apply_defaults o0)"
  have "opts_ok (effective_options ?o)" by (rule vec_opts_ok [OF assms(1)])
  then have "engine_open None (effective_options ?o) (directory e) = engine_open None ?o (directory e)"
    by (intro engine_open_effective) (simp_all add: opts_ok_def effective_options_def)
  then show ?thesis using assms by (simp add: vec_open_def Let_def)
qed

text \<open>C14: a vector store that was first opened on an empty directory, and is closed and opened again once, while its engine
  is open and its log holds no id that a table holds as well (no flushed id has been written again since the last flush, and that flush
  removed the old log), opens and answers every read as before, with one exception: ids that start with the byte 0xFF,
  which the store accepts and serves, are outside the range its loading scans and are gone. Distances are numbers and
  \<open>sort.Slice\<close> sorts, for the searches of the session.\<close>

theorem vector_reopen_loses_high_ids:
  assumes "vec_open None o0 fresh_disk = (Inr s0, d)" "slice_ok srt" "finite_scores fa (vs_opts s0)"
    and "length qs \<le> 2 ^ 29" "\<forall>q \<in> set qs. search_ok q" "vec_run fa srt c r qs s0 = (as, s)"
    and "\<not> en_closed (vs_eng s)" "unshadowed (vs_eng s)"
  shows "\<exists>s'. vec_reopen o0 s = Inr s' \<and> (\<forall>vid. vec_get vid s = Inr (vec_final qs as Map.empty vid)
    \<and> vec_get vid s' = Inr (if take 1 vid = [0xFF] then None else vec_final qs as Map.empty vid))"
proof -
  let ?o = "apply_defaults o0" and ?e = "vs_eng s" and ?m = "vec_final qs as Map.empty"
  have o: "vec_options_ok ?o" using assms(1) by (auto simp: vec_open_def Let_def split: if_splits)
  then have s0: "vec_inv ?o 0 Map.empty s0" using vec_open_fresh [OF o] assms(1) by auto
  have "vec_inv ?o (0 + length qs) ?m s"
    using vec_run_ok [OF s0 _ assms(2) _ assms(5,6)] assms(3,4) s0 by (simp add: vec_inv_def)
  then have s: "\<not> vs_closed s" "map_of (vs_index s) = ?m" "\<forall>vid r. ?m vid = Some r \<longrightarrow> vec_good ?o vid r"
      "en_opts ?e = effective_options (vec_engine_options ?o)" "session_inv (length qs) (vec_bytes ?o ?m) ?e"
    using assms(7) by (auto simp: vec_inv_def engine_ok_def)
  then have e: "engine_inv ?e" "layered ?e" "engine_view ?e = vec_bytes ?o ?m" by (simp_all add: session_inv_def)
  obtain e' d' where e': "engine_open None (en_opts ?e) (directory ?e) = (Inr e', d')" "engine_inv e'" "engine_view e' = engine_view ?e"
      "en_tables e' = en_tables ?e" "log_replays (en_opts ?e) (d_wal (directory ?e)) (en_mem e')"
    using engine_reopened [OF e(1)] by blast
  obtain idx where idx: "load_vectors ?o e' = Inr idx" "\<forall>vid. map_of idx vid = (if in_scan vid then ?m vid else None)"
    using load_vectors_ok [OF e'(2) unshadowed_layered [OF e(2) assms(8) e'(4,5)] _ s(3)] e'(3) e(3) by auto
  have "vec_open None o0 (directory ?e) = (Inr \<lparr>vs_opts = ?o, vs_eng = e', vs_index = idx, vs_closed = False\<rparr>, d')"
    by (rule vec_open_directory [OF o e(1) s(4) e'(1) idx(1)])
  moreover have "directory (vs_eng (snd (vec_close s))) = directory ?e"
    using directory_close [of ?e] by (simp add: vec_close_def s(1) case_prod_beta del: directory_close)
  ultimately have "vec_reopen o0 s = Inr \<lparr>vs_opts = ?o, vs_eng = e', vs_index = idx, vs_closed = False\<rparr>"
    by (simp add: vec_reopen_def)
  then show ?thesis
    by (intro exI [of _ "\<lparr>vs_opts = ?o, vs_eng = e', vs_index = idx, vs_closed = False\<rparr>"] conjI allI)
      (simp_all add: vec_get_def s(1,2) idx(2) in_scan_def)
qed

section \<open>Records that come back\<close>

lemma vec_upsert_acked:
  assumes "vec_upsert vid v meta Write_ok True s = (None, s')"
  shows "\<exists>enc. vec_enc (vs_opts s) \<lparr>vr_vector = v, vr_meta = meta\<rparr> = Some enc
    \<and> engine_write (vec_key (vs_opts s) vid) (Some enc) Write_ok True (vs_eng s) = (None, vs_eng s')
    \<and> s' = s\<lparr>vs_eng := vs_eng s', vs_index := AList.update vid \<lparr>vr_vector = v, vr_meta = meta\<rparr> (vs_index s)\<rparr>"
  using assms by (auto simp: vec_upsert_def vec_enc_def engine_write_def split: if_splits sum.splits prod.splits option.splits)

text \<open>C15: a vector replaced after a flush comes back as it was before. Two ids are stored, flushed, and the second one is
  stored again; all is acknowledged and the store answers the new record. After closing and reopening it answers the old
  one: the numbers of the log start again with a flush, and the scan that loads the index prefers the higher number.\<close>

theorem vector_stale_after_reopen:
  assumes "vec_open None o0 fresh_disk = (Inr s0, d)" "va \<noteq> vb" "take 1 vb \<noteq> [0xFF]"
    and "vec_upsert va x mx Write_ok True s0 = (None, s1)" "vec_upsert vb y my Write_ok True s1 = (None, s2)"
    and "vec_flush c r None s2 = (None, s3)" "vec_upsert vb z mz Write_ok True s3 = (None, s4)"
  shows "vec_get vb s4 = Inr (Some \<lparr>vr_vector = z, vr_meta = mz\<rparr>)
    \<and> (\<exists>s5. vec_reopen o0 s4 = Inr s5 \<and> vec_get vb s5 = Inr (Some \<lparr>vr_vector = y, vr_meta = my\<rparr>))"
proof -
  let ?o = "apply_defaults o0" and ?rx = "\<lparr>vr_vector = x, vr_meta = mx\<rparr>" and ?ry = "\<lparr>vr_vector = y, vr_meta = my\<rparr>"
    and ?rz = "\<lparr>vr_vector = z, vr_meta = mz\<rparr>"
  have o: "vec_options_ok ?o" using assms(1) by (auto simp: vec_open_def Let_def split: if_splits)
  have s0: "vec_inv ?o 0 Map.empty s0" and fresh: "session_inv 0 Map.empty (vs_eng s0)" "en_next_seq (vs_eng s0) = 1"
      "mt_get (en_mem (vs_eng s0)) = Map.empty" "en_tables (vs_eng s0) = []"
    using vec_open_fresh [OF o] assms(1) by auto
  let ?m2 = "[va \<mapsto> ?rx, vb \<mapsto> ?ry]"
  have up: "vec_inv ?o (n + 1) (m(v \<mapsto> \<lparr>vr_vector = w, vr_meta = mw\<rparr>)) s'"
    if "vec_inv ?o n m s" "vec_upsert v w mw Write_ok True s = (None, s')" "n < 9" for n m s v w mw s'
    using vec_upsert_step [OF that(1) _ that(2)] that(3) by (simp add: vec_step_ok_def)
  have s1: "vec_inv ?o 1 [va \<mapsto> ?rx] s1" using up [OF s0 assms(4)] by simp
  have s2: "vec_inv ?o 2 ?m2 s2" using up [OF s1 assms(5)] by (simp add: numeral_2_eq_2)
  have "vec_step_ok fa ?o 2 ?m2 (Vec_flush None) (Vec_done None) s2 s3" for fa
    by (rule vec_reorganise_step [OF s2]) (use assms(6) in simp_all)
  then have s3: "vec_inv ?o 3 ?m2 s3" by (simp add: vec_step_ok_def)
  have s4: "vec_inv ?o 4 (?m2(vb \<mapsto> ?rz)) s4" using up [OF s3 assms(7)] by simp
  have opts: "vs_opts s0 = ?o" "vs_opts s1 = ?o" "vs_opts s3 = ?o" "\<not> vs_closed s4" "map_of (vs_index s4) vb = Some ?rz"
      "en_opts (vs_eng s4) = effective_options (vec_engine_options ?o)" "\<forall>vid r. ?m2 vid = Some r \<longrightarrow> vec_good ?o vid r"
    using s0 s1 s2 s3 s4 by (simp_all add: vec_inv_def)
  obtain ex where ex: "vec_enc ?o ?rx = Some ex" "engine_write (vec_key ?o va) (Some ex) Write_ok True (vs_eng s0) = (None, vs_eng s1)"
    using vec_upsert_acked [OF assms(4)] unfolding opts by blast
  obtain ey where ey: "vec_enc ?o ?ry = Some ey" "engine_write (vec_key ?o vb) (Some ey) Write_ok True (vs_eng s1) = (None, vs_eng s2)"
    using vec_upsert_acked [OF assms(5)] unfolding opts by blast
  obtain ez where ez: "engine_write (vec_key ?o vb) (Some ez) Write_ok True (vs_eng s3) = (None, vs_eng s4)"
    using vec_upsert_acked [OF assms(7)] unfolding opts by blast
  have fl: "engine_flush c r None (vs_eng s2) = (None, vs_eng s3)"
    using assms(6) s2 by (auto simp: vec_flush_def vec_inv_def split: prod.splits)
  have "\<not> en_closed (vs_eng s3)" using ez by (auto simp: engine_write_eq)
  then have "engine_inv (vs_eng s3)" using s3 engine_ok_inv by (auto simp: vec_inv_def)
  then have op4: "engine_inv (vs_eng s4)" by (rule engine_write_ok(1) [OF _ ez])
  obtain e5 d5 where e5: "engine_open None (en_opts (vs_eng s4)) (directory (vs_eng s4)) = (Inr e5, d5)" "engine_inv e5"
    using engine_reopened [OF op4] by blast
  then have "reopen (vs_eng s4) = Inr e5" by (simp add: reopen_def)
  have keys: "vec_key ?o va \<noteq> vec_key ?o vb" using assms(2) by (simp add: vec_key_def)
  let ?a = "write_entry (vec_key ?o va) (Some ex) 1" and ?b = "write_entry (vec_key ?o vb) (Some ey) 2"
    and ?c = "write_entry (vec_key ?o vb) (Some ez) 1"
  obtain th where st: "mt_get (en_mem e5) = [vec_key ?o vb \<mapsto> ?c]" "en_tables e5 = [th]"
      "table_layer th = [vec_key ?o va \<mapsto> ?a, vec_key ?o vb \<mapsto> ?b]"
    using reopened_numbers [OF fresh keys ex(2) ey(2) fl ez \<open>reopen (vs_eng s4) = Inr e5\<close>] by blast
  have bytes: "vec_bytes ?o ?m2 = [vec_key ?o va \<mapsto> ex, vec_key ?o vb \<mapsto> ey]" by (simp add: vec_bytes_upd ex(1) ey(1))
  have two: "\<not> (2 :: u64) \<le> 1" "(1 :: u64) \<le> 2" by (simp_all add: word_le_nat_alt)
  have pick: "(\<exists>e. foldl pick (mt_get (en_mem e5) k) (hits (en_tables e5) k) = Some e \<and> e_key e = k \<and> e_kind e = entry_put \<and> e_value e = v)
      \<longleftrightarrow> vec_bytes ?o ?m2 k = Some v" for k v
    using keys by (auto simp: bytes st pick_def write_entry_def two)
  have inv: "\<not> en_closed e5" "tables_ok (en_tables e5)" "mt_inv (en_mem e5)" using e5(2) by (auto simp: engine_inv_def)
  let ?p = "key_prefix ?o"
  obtain res where res: "engine_scan ?p (?p @ [0xFF]) e5 = Inr res"
      "\<forall>k v. (k, v) \<in> (\<lambda>kv. (kv_key kv, kv_value kv)) ` set res \<longleftrightarrow> in_range ?p (?p @ [0xFF]) k \<and> vec_bytes ?o ?m2 k = Some v"
    using engine_scan_picks [OF inv, of ?p "?p @ [0xFF]"] unfolding pick by (elim exE conjE)
  obtain idx where idx: "load_vectors ?o e5 = Inr idx" "\<forall>vid. map_of idx vid = (if in_scan vid then ?m2 vid else None)"
    using load_vectors_scan [OF res opts(7)] by (elim exE conjE)
  have "vec_open None o0 (directory (vs_eng s4)) = (Inr \<lparr>vs_opts = ?o, vs_eng = e5, vs_index = idx, vs_closed = False\<rparr>, d5)"
    by (rule vec_open_directory [OF o op4 opts(6) e5(1) idx(1)])
  moreover have "directory (vs_eng (snd (vec_close s4))) = directory (vs_eng s4)"
    using directory_close [of "vs_eng s4"] by (simp add: vec_close_def opts(4) case_prod_beta del: directory_close)
  ultimately have "vec_reopen o0 s4 = Inr \<lparr>vs_opts = ?o, vs_eng = e5, vs_index = idx, vs_closed = False\<rparr>"
    by (simp add: vec_reopen_def)
  then show ?thesis
    using opts(4,5) idx(2) assms(2,3) by (simp add: vec_get_def in_scan_def)
qed

section \<open>A concrete store\<close>

definition demo_vec :: vec_options where
  "demo_vec = \<lparr>vo_dir = ''/v'', vo_dim = 2, vo_metric = ''dot'', vo_namespace = []\<rparr>"

definition demo_small :: "float64 \<Rightarrow> float64" where "demo_small b = and b 0xFFFFFFFFFFFFF"

definition demo_floats :: float_arith where
  "demo_floats = \<lparr>fa_widen = (\<lambda>b. demo_small (ucast b)), fa_add = (\<lambda>a b. demo_small (a + b)), fa_sub = (\<lambda>a b. demo_small (a - b)),
     fa_mul = (\<lambda>a b. demo_small (a * b)), fa_div = (\<lambda>a b. demo_small (a div b)), fa_sqrt = demo_small\<rparr>"

definition demo_rank :: "vec_candidate list \<Rightarrow> vec_candidate list" where "demo_rank = sort_key rank_key"

lemma demo_vec_ok: "vec_options_ok (apply_defaults demo_vec)"
  by (simp add: demo_vec_def apply_defaults_def vec_options_ok_def Let_def)

lemma demo_rank_ok: "slice_ok demo_rank"
  unfolding slice_ok_def demo_rank_def
proof (intro allI impI conjI)
  fix cs :: "vec_candidate list"
  assume nan: "\<forall>c \<in> set cs. \<not> f64_nan (vc_score c)"
  show "mset (sort_key rank_key cs) = mset cs" by simp
  have "sorted_wrt (\<lambda>a b. rank_key a \<le> rank_key b) (sort_key rank_key cs)" using sorted_sort_key [of rank_key cs] by (simp only: sorted_map)
  then show "sorted_wrt (\<lambda>a b. \<not> better b a) (sort_key rank_key cs)"
    by (rule sorted_wrt_mono_rel [rotated]) (use better_rank nan in \<open>auto simp: not_less\<close>)
qed

lemma demo_range_ok: "range_ok (\<lambda>idx. idx)"
  by (simp add: range_ok_def)

lemma demo_small_number [simp]: "\<not> f64_nan (demo_small b)"
  by (simp add: f64_nan_def demo_small_def and.assoc)

lemma demo_fold: "\<not> f64_nan (foldl (\<lambda>acc p. demo_small (g acc p)) 0 ps)"
proof (cases ps rule: rev_cases)
  case Nil
  then show ?thesis by (simp add: f64_nan_def)
qed simp

lemma demo_floats_ok: "finite_scores demo_floats (apply_defaults demo_vec)"
  unfolding finite_scores_def
proof (intro allI impI)
  fix q v
  have "fst (compute_distance demo_floats ''dot'' q v)
      = foldl (\<lambda>acc p. demo_small (acc + demo_small (demo_small (ucast (fst p)) * demo_small (ucast (snd p))))) 0 (zip q v)"
    by (simp add: compute_distance_def dot_score_def demo_floats_def Let_def case_prod_unfold)
  then show "\<not> f64_nan (fst (compute_distance demo_floats (vo_metric (apply_defaults demo_vec)) q v))"
    using demo_fold by (simp add: demo_vec_def apply_defaults_def Let_def)
qed

lemma vec_upsert_succeeds:
  assumes "vec_inv o' n m s" "n \<le> 2 ^ 29" "\<not> en_closed (vs_eng s)" "validate_id vid" "validate_vector o' v"
    and "vec_fits o' vid (30 + 4 * length v + length meta)"
  shows "\<exists>s'. vec_upsert vid v meta Write_ok True s = (None, s') \<and> vec_inv o' (n + 1) (m(vid \<mapsto> \<lparr>vr_vector = v, vr_meta = meta\<rparr>)) s'
    \<and> \<not> en_closed (vs_eng s') \<and> en_tables (vs_eng s') = en_tables (vs_eng s)"
proof -
  obtain er s' where u: "vec_upsert vid v meta Write_ok True s = (er, s')" by fastforce
  obtain enc where enc: "encode_vector (vo_dim o') v meta = Inr enc" using encode_valid [OF assms(5)] by blast
  have c: "en_closed (vs_eng s') = en_closed (vs_eng s) \<and> en_tables (vs_eng s') = en_tables (vs_eng s)"
    using u assms(1,4,5) by (auto simp: vec_upsert_def vec_inv_def engine_put_def Let_def split: if_splits sum.splits prod.splits option.splits)
  have st: "vec_step_ok undefined o' n m (Vec_upsert False vid v meta) (Vec_done er) s s'"
    by (rule vec_upsert_step [OF assms(1,2) u])
  then have "er = None" using assms(3-6) c by (simp add: vec_step_ok_def)
  then show ?thesis using u st c assms(3) by (auto simp: vec_step_ok_def)
qed

lemma demo_valid:
  "validate_id [97]" "validate_id [98]" "validate_id [0xFF]" "validate_vector (apply_defaults demo_vec) [x, y] \<longleftrightarrow> \<not> has_non_finite [x, y]"
  "length vid < 10 \<Longrightarrow> vec_fits (apply_defaults demo_vec) vid 39"
  by (simp_all add: validate_id_def validate_vector_def demo_vec_def apply_defaults_def Let_def vec_fits_def vec_key_def
      key_prefix_def ascii_def engine_record_limit_def)

lemma demo_numbers: "\<not> has_non_finite [1, 2]" "\<not> has_non_finite [3, 4]" "\<not> has_non_finite [5, 6]"
  by (simp_all add: has_non_finite_def)

lemma vec_demo_start:
  "\<exists>s0 d. vec_open None demo_vec fresh_disk = (Inr s0, d) \<and> vec_inv (apply_defaults demo_vec) 0 Map.empty s0
    \<and> \<not> en_closed (vs_eng s0) \<and> en_tables (vs_eng s0) = []"
  using vec_open_fresh [OF demo_vec_ok] by (auto simp: session_inv_def engine_inv_def)

lemma demo_vec_upsert:
  assumes "vec_inv (apply_defaults demo_vec) n m s" "n < 10" "\<not> en_closed (vs_eng s)"
    and "vid \<in> {[97], [98], [0xFF]}" "\<not> has_non_finite [x, y]"
  shows "\<exists>s'. vec_upsert vid [x, y] [7] Write_ok True s = (None, s')
    \<and> vec_inv (apply_defaults demo_vec) (n + 1) (m(vid \<mapsto> \<lparr>vr_vector = [x, y], vr_meta = [7]\<rparr>)) s'
    \<and> \<not> en_closed (vs_eng s') \<and> en_tables (vs_eng s') = en_tables (vs_eng s)"
  by (rule vec_upsert_succeeds [OF assms(1)]) (use assms(2-5) demo_valid in auto)

text \<open>Two records, the second id beyond the scan of the namespace; with any search or read behind them.\<close>

abbreviation demo_session :: "vec_request list" where
  "demo_session \<equiv> [Vec_upsert False [97] [1, 2] [7], Vec_upsert True [0xFF] [3, 4] [7]]"

lemma demo_vec_run:
  "\<exists>s0 d s. vec_open None demo_vec fresh_disk = (Inr s0, d)
    \<and> vec_run demo_floats demo_rank demo_bits demo_hashes demo_session s0 = ([Vec_done None, Vec_done None], s)
    \<and> vs_opts s0 = apply_defaults demo_vec \<and> \<not> en_closed (vs_eng s) \<and> en_tables (vs_eng s) = []"
proof -
  obtain s0 d where 0: "vec_open None demo_vec fresh_disk = (Inr s0, d)" "vec_inv (apply_defaults demo_vec) 0 Map.empty s0"
      "\<not> en_closed (vs_eng s0)" "en_tables (vs_eng s0) = []"
    using vec_demo_start by blast
  obtain s1 where 1: "vec_upsert [97] [1, 2] [7] Write_ok True s0 = (None, s1)"
      "vec_inv (apply_defaults demo_vec) (0 + 1) (Map.empty([97] \<mapsto> \<lparr>vr_vector = [1, 2], vr_meta = [7]\<rparr>)) s1"
      "\<not> en_closed (vs_eng s1)" "en_tables (vs_eng s1) = []"
    using demo_vec_upsert [OF 0(2) _ 0(3), of "[97]" 1 2] demo_numbers 0(4) by auto
  obtain s2 where 2: "vec_upsert [0xFF] [3, 4] [7] Write_ok True s1 = (None, s2)" "\<not> en_closed (vs_eng s2)" "en_tables (vs_eng s2) = []"
    using demo_vec_upsert [OF 1(2) _ 1(3), of "[0xFF]" 3 4] demo_numbers 1(4) by auto
  have "vec_run demo_floats demo_rank demo_bits demo_hashes demo_session s0 = ([Vec_done None, Vec_done None], s2)"
    by (simp add: vec_explain_same 1(1) 2(1))
  then show ?thesis using 0 2 by (auto simp: vec_inv_def)
qed

lemma vec_run_append:
  "vec_run fa srt c r (qs @ qs') s = (case vec_run fa srt c r qs s of (as, s1) \<Rightarrow> case vec_run fa srt c r qs' s1 of (as', s2) \<Rightarrow> (as @ as', s2))"
  by (induction qs arbitrary: s) (simp_all split: prod.splits)

theorem vector_session_refines_map_witness:
  "\<exists>s0 d s. vec_open None demo_vec fresh_disk = (Inr s0, d)
    \<and> vec_run demo_floats demo_rank demo_bits demo_hashes (demo_session @ [Vec_get [0xFF], Vec_search True [5, 6] 1 (\<lambda>idx. idx)]) s0
      = ([Vec_done None, Vec_done None, Vec_found (Inr (Some \<lparr>vr_vector = [3, 4], vr_meta = [7]\<rparr>)),
          Vec_ranked (Inr [scored demo_floats ''dot'' [5, 6] [0xFF] \<lparr>vr_vector = [3, 4], vr_meta = [7]\<rparr>])], s)"
proof -
  let ?qs = "demo_session @ [Vec_get [0xFF], Vec_search True [5, 6] 1 (\<lambda>idx. idx)]" and ?r = "\<lparr>vr_vector = [3, 4], vr_meta = [7]\<rparr>"
    and ?q = "\<lparr>vr_vector = [1, 2], vr_meta = [7 :: byte]\<rparr>"
  obtain s0 d s where s: "vec_open None demo_vec fresh_disk = (Inr s0, d)"
      "vec_run demo_floats demo_rank demo_bits demo_hashes demo_session s0 = ([Vec_done None, Vec_done None], s)"
      "vs_opts s0 = apply_defaults demo_vec"
    using demo_vec_run by blast
  let ?a = "Vec_found (vec_get [0xFF] s)" and ?b = "Vec_ranked (snd (vec_explain_search demo_floats (\<lambda>idx. idx) demo_rank [5, 6] 1 s))"
  have "vec_run demo_floats demo_rank demo_bits demo_hashes [Vec_get [0xFF], Vec_search True [5, 6] 1 (\<lambda>idx. idx)] s = ([?a, ?b], s)"
    by simp
  then obtain a b where run: "vec_run demo_floats demo_rank demo_bits demo_hashes ?qs s0 = ([Vec_done None, Vec_done None, a, b], s)"
    unfolding vec_run_append s(2) by (simp only: prod.case append.simps)
  have len: "length ?qs \<le> 2 ^ 29" and ok: "\<forall>q \<in> set ?qs. search_ok q" by (simp_all add: demo_range_ok)
  have sc: "finite_scores demo_floats (vs_opts s0)" unfolding s(3) by (rule demo_floats_ok)
  have ex: "vec_explains demo_floats (apply_defaults demo_vec) (\<not> en_closed (vs_eng s)) Map.empty ?qs [Vec_done None, Vec_done None, a, b]"
    using vector_session_refines_map [OF s(1) demo_rank_ok sc len ok run] unfolding s(3) by blast
  let ?m = "[[97 :: byte] \<mapsto> ?q, [0xFF] \<mapsto> ?r]"
  have "query_error (apply_defaults demo_vec) [5, 6] 1 = None"
    by (simp add: query_error_def demo_vec_def apply_defaults_def Let_def demo_numbers)
  then have ab: "a = Vec_found (Inr (?m [0xFF]))" "b = Vec_ranked (Inr (take 1 (vec_ranking demo_floats ''dot'' [5, 6] ?m)))"
    using ex by (simp_all add: demo_vec_def apply_defaults_def Let_def)
  have "insort [0xFF] (sorted_list_of_set ({[97]} - {[0xFF]})) = [[97 :: byte], [0xFF]]" by code_simp
  then have "sorted_list_of_set (dom ?m) = [[97], [0xFF]]" by simp
  moreover have "scored demo_floats ''dot'' [5, 6] [0xFF] ?r \<noteq> scored demo_floats ''dot'' [5, 6] [97] ?q" by (simp add: scored_def)
  moreover have "rank_key (scored demo_floats ''dot'' [5, 6] [0xFF] ?r) < rank_key (scored demo_floats ''dot'' [5, 6] [97] ?q)"
    by code_simp
  ultimately have "take 1 (vec_ranking demo_floats ''dot'' [5, 6] ?m) = [scored demo_floats ''dot'' [5, 6] [0xFF] ?r]"
    by (simp add: vec_ranking_def not_le)
  then show ?thesis using s(1) run ab by auto
qed

theorem vector_reopen_loses_high_ids_witness:
  "\<exists>s0 d s s'. vec_open None demo_vec fresh_disk = (Inr s0, d)
    \<and> vec_run demo_floats demo_rank demo_bits demo_hashes demo_session s0 = ([Vec_done None, Vec_done None], s)
    \<and> vec_get [0xFF] s = Inr (Some \<lparr>vr_vector = [3, 4], vr_meta = [7]\<rparr>) \<and> vec_reopen demo_vec s = Inr s'
    \<and> vec_get [0xFF] s' = Inr None \<and> vec_get [97] s' = Inr (Some \<lparr>vr_vector = [1, 2], vr_meta = [7]\<rparr>)"
proof -
  obtain s0 d s where s: "vec_open None demo_vec fresh_disk = (Inr s0, d)"
      "vec_run demo_floats demo_rank demo_bits demo_hashes demo_session s0 = ([Vec_done None, Vec_done None], s)"
      "vs_opts s0 = apply_defaults demo_vec" "\<not> en_closed (vs_eng s)" "unshadowed (vs_eng s)"
    using demo_vec_run unfolding unshadowed_def by fastforce
  have sc: "finite_scores demo_floats (vs_opts s0)" unfolding s(3) by (rule demo_floats_ok)
  have len: "length demo_session \<le> 2 ^ 29" and ok: "\<forall>q \<in> set demo_session. search_ok q" by simp_all
  from vector_reopen_loses_high_ids [OF s(1) demo_rank_ok sc len ok s(2,4,5)]
  obtain s' where s': "vec_reopen demo_vec s = Inr s'"
      "\<forall>vid. vec_get vid s = Inr (vec_final demo_session [Vec_done None, Vec_done None] Map.empty vid)
        \<and> vec_get vid s' = Inr (if take 1 vid = [0xFF] then None else vec_final demo_session [Vec_done None, Vec_done None] Map.empty vid)"
    by blast
  show ?thesis
    by (intro exI [of _ s0] exI [of _ d] exI [of _ s] exI [of _ s'] conjI s(1,2) s'(1)) (simp_all add: s'(2))
qed

lemma demo_vec_flush:
  "\<exists>s0 d s1 s2 s3. vec_open None demo_vec fresh_disk = (Inr s0, d)
    \<and> vec_upsert [97] [1, 2] [7] Write_ok True s0 = (None, s1) \<and> vec_upsert [98] [3, 4] [7] Write_ok True s1 = (None, s2)
    \<and> vec_flush demo_bits demo_hashes None s2 = (None, s3)
    \<and> vec_inv (apply_defaults demo_vec) 3 [[97] \<mapsto> \<lparr>vr_vector = [1, 2], vr_meta = [7]\<rparr>, [98] \<mapsto> \<lparr>vr_vector = [3, 4], vr_meta = [7]\<rparr>] s3
    \<and> \<not> en_closed (vs_eng s3)"
proof -
  let ?o = "apply_defaults demo_vec"
  obtain s0 d where 0: "vec_open None demo_vec fresh_disk = (Inr s0, d)" "vec_inv ?o 0 Map.empty s0"
      "session_inv 0 Map.empty (vs_eng s0)" "mt_get (en_mem (vs_eng s0)) = Map.empty"
    using vec_open_fresh [OF demo_vec_ok] by blast
  have c0: "\<not> en_closed (vs_eng s0)" using 0(3) by (simp add: session_inv_def engine_inv_def)
  obtain s1 where 1: "vec_upsert [97] [1, 2] [7] Write_ok True s0 = (None, s1)"
      "vec_inv ?o (0 + 1) (Map.empty([97] \<mapsto> \<lparr>vr_vector = [1, 2], vr_meta = [7]\<rparr>)) s1" "\<not> en_closed (vs_eng s1)"
    using demo_vec_upsert [OF 0(2) _ c0, of "[97]" 1 2] demo_numbers by auto
  obtain s2 where 2: "vec_upsert [98] [3, 4] [7] Write_ok True s1 = (None, s2)" "\<not> en_closed (vs_eng s2)"
      "vec_inv ?o (0 + 1 + 1) [[97] \<mapsto> \<lparr>vr_vector = [1, 2], vr_meta = [7]\<rparr>, [98] \<mapsto> \<lparr>vr_vector = [3, 4], vr_meta = [7]\<rparr>] s2"
    using demo_vec_upsert [OF 1(2) _ 1(3), of "[98]" 3 4] demo_numbers by auto
  have opts: "vs_opts s0 = ?o" "vs_opts s1 = ?o" "en_opts (vs_eng s2) = effective_options (vec_engine_options ?o)" "\<not> vs_closed s2"
    using 0(2) 1(2) 2(3) by (simp_all add: vec_inv_def)
  obtain x where x: "vec_enc ?o \<lparr>vr_vector = [1, 2], vr_meta = [7]\<rparr> = Some x"
      "engine_write (vec_key ?o [97]) (Some x) Write_ok True (vs_eng s0) = (None, vs_eng s1)"
    using vec_upsert_acked [OF 1(1)] unfolding opts by blast
  obtain y where y: "vec_enc ?o \<lparr>vr_vector = [3, 4], vr_meta = [7]\<rparr> = Some y"
      "engine_write (vec_key ?o [98]) (Some y) Write_ok True (vs_eng s1) = (None, vs_eng s2)"
    using vec_upsert_acked [OF 2(1)] unfolding opts by blast
  have sizes: "length x = 39" "length y = 39" using x(1) y(1)
    by (auto simp: vec_enc_def encode_vector_def vec_body_def Let_def split: if_splits)
  have inv0: "engine_inv (vs_eng s0)" using 0(3) by (simp add: session_inv_def)
  note w1 = engine_write_ok [OF inv0 x(2)]
  note w2 = engine_write_ok [OF w1(1) y(2)]
  let ?e = "vs_eng s2"
  have mem: "mt_get (en_mem ?e) = [vec_key ?o [97] \<mapsto> write_entry (vec_key ?o [97]) (Some x) (en_next_seq (vs_eng s0)),
      vec_key ?o [98] \<mapsto> write_entry (vec_key ?o [98]) (Some y) (en_next_seq (vs_eng s1))]"
    using w1(6,7,8) w2(7,8) 0(4) by (simp add: mt_get_upsert)
  have ne: "mt_len (en_mem ?e) \<noteq> 0"
  proof
    assume "mt_len (en_mem ?e) = 0"
    moreover have "mt_inv (en_mem ?e)" using w2(1) by (simp add: engine_inv_def)
    ultimately have "mt_entries (en_mem ?e) (vec_key ?o [98]) = None" "mt_inv (en_mem ?e)" by (auto simp: mt_len_def mt_inv_def)
    then show False using mt_get_entries [of "en_mem ?e" "vec_key ?o [98]"] by (simp add: mem)
  qed
  have ok: "engine_ok 2 (vec_bytes ?o [[97] \<mapsto> \<lparr>vr_vector = [1, 2], vr_meta = [7]\<rparr>, [98] \<mapsto> \<lparr>vr_vector = [3, 4], vr_meta = [7]\<rparr>]) ?e"
    using 2(2,3) by (simp add: vec_inv_def numeral_2_eq_2)
  then have len: "mt_len (en_mem ?e) \<le> 2" by (simp add: engine_ok_def session_inv_def total_entries_def)
  have fpr: "eo_fpr (en_opts ?e) = default_bloom_fpr"
    unfolding opts by (simp add: effective_options_def vec_engine_options_def float_zero_def)
  have "mt_len (en_mem ?e) \<in> {1, 2}" using ne len by auto
  then obtain bf where bf: "bloom_new demo_bits demo_hashes (word_of_nat (mt_len (en_mem ?e))) (eo_fpr (en_opts ?e)) = Inr bf"
    by (auto simp: fpr bloom_new_def calc_params_def demo_bits_def demo_hashes_def fpr_valid_def default_bloom_fpr_def max_bits_def
        max_words_def Let_def)
  have big: "unat (sst_eff_max (eo_sst_max (en_opts ?e))) = 67108864"
    unfolding opts by (simp add: effective_options_def vec_engine_options_def sst_eff_max_def sst_default_max_def)
  have keys: "length (vec_key ?o [97]) < 100" "length (vec_key ?o [98]) < 100"
    by (simp_all add: demo_vec_def apply_defaults_def Let_def vec_key_def key_prefix_def ascii_def)
  have fit: "\<forall>k z. mt_get (en_mem ?e) k = Some z \<longrightarrow> 17 + length k + length (e_value z) \<le> unat (sst_eff_max (eo_sst_max (en_opts ?e)))"
    unfolding big mem using keys sizes by (simp add: write_entry_def)
  obtain e3 where e3: "engine_flush demo_bits demo_hashes None ?e = (None, e3)"
    using engine_flush_succeeds [OF w2(1) ne _ fit bf] len by auto
  have "en_next_file ?e + 1 \<noteq> 0" "en_next_seq ?e \<noteq> 0"
    using ok small_Suc [of "en_next_file ?e"] by (simp_all add: engine_ok_def session_inv_def)
  then have c3: "\<not> en_closed e3" using engine_flush_preserved [OF w2(1) _ _ _ e3] len by simp
  have f: "vec_flush demo_bits demo_hashes None s2 = (None, s2\<lparr>vs_eng := e3\<rparr>)" using e3 opts(4) by (simp add: vec_flush_def)
  have i2: "vec_inv ?o 2 [[97] \<mapsto> \<lparr>vr_vector = [1, 2], vr_meta = [7]\<rparr>, [98] \<mapsto> \<lparr>vr_vector = [3, 4], vr_meta = [7]\<rparr>] s2"
    using 2(3) by (simp add: numeral_2_eq_2)
  have "vec_step_ok fa ?o 2 [[97] \<mapsto> \<lparr>vr_vector = [1, 2], vr_meta = [7]\<rparr>, [98] \<mapsto> \<lparr>vr_vector = [3, 4], vr_meta = [7]\<rparr>]
      (Vec_flush None) (Vec_done None) s2 (s2\<lparr>vs_eng := e3\<rparr>)" for fa
    by (rule vec_reorganise_step [OF i2]) (use f in simp_all)
  then have "vec_inv ?o 3 [[97] \<mapsto> \<lparr>vr_vector = [1, 2], vr_meta = [7]\<rparr>, [98] \<mapsto> \<lparr>vr_vector = [3, 4], vr_meta = [7]\<rparr>] (s2\<lparr>vs_eng := e3\<rparr>)"
    by (simp add: vec_step_ok_def)
  then show ?thesis using 0(1) 1(1) 2(1) f c3 by auto
qed

theorem vector_stale_after_reopen_witness:
  "\<exists>s0 d s3 s4 s5. vec_open None demo_vec fresh_disk = (Inr s0, d) \<and> vec_upsert [98] [5, 6] [7] Write_ok True s3 = (None, s4)
    \<and> vec_get [98] s4 = Inr (Some \<lparr>vr_vector = [5, 6], vr_meta = [7]\<rparr>) \<and> vec_reopen demo_vec s4 = Inr s5
    \<and> vec_get [98] s5 = Inr (Some \<lparr>vr_vector = [3, 4], vr_meta = [7]\<rparr>)"
proof -
  obtain s0 d s1 s2 s3 where s: "vec_open None demo_vec fresh_disk = (Inr s0, d)"
      "vec_upsert [97] [1, 2] [7] Write_ok True s0 = (None, s1)" "vec_upsert [98] [3, 4] [7] Write_ok True s1 = (None, s2)"
      "vec_flush demo_bits demo_hashes None s2 = (None, s3)" "\<not> en_closed (vs_eng s3)"
      "vec_inv (apply_defaults demo_vec) 3 [[97] \<mapsto> \<lparr>vr_vector = [1, 2], vr_meta = [7]\<rparr>, [98] \<mapsto> \<lparr>vr_vector = [3, 4], vr_meta = [7]\<rparr>] s3"
    using demo_vec_flush by (elim exE conjE)
  obtain s4 where s4: "vec_upsert [98] [5, 6] [7] Write_ok True s3 = (None, s4)"
    using demo_vec_upsert [OF s(6) _ s(5), of "[98]" 5 6] demo_numbers by auto
  have "[97 :: byte] \<noteq> [98]" "take 1 [98 :: byte] \<noteq> [0xFF]" by simp_all
  then show ?thesis using vector_stale_after_reopen [OF s(1) _ _ s(2-4) s4] s(1) s4 by blast
qed

end
