(* ===== verification/Dashboard.thy ===== *)
theory Dashboard
  imports ReplicaSpec
begin

text \<open>
  The dashboard (\<open>internal/dashboard\<close>): snapshots of the stores, the HTTP endpoints over a collector, the server, and the scripted failure
  scenarios on a replicated store. Times and message texts are left out; an event keeps its source and action, an error what
  went wrong. Rendering to HTML is an argument.
\<close>

section \<open>Snapshots\<close>

datatype component_type = Ct_engine | Ct_shard | Ct_replica
datatype component_health = Ch_ok | Ch_degraded | Ch_failed
datatype stat_value = Sv_int int | Sv_text string

record component_snapshot =
  cs_name :: string
  cs_type :: component_type
  cs_health :: component_health
  cs_stats :: "(string \<times> stat_value) list"

record timeline_event =
  te_source :: string
  te_action :: string

record snapshot =
  sn_title :: string
  sn_components :: "component_snapshot list"
  sn_events :: "timeline_event list"

datatype scenario_status = Sc_pending | Sc_running | Sc_passed | Sc_failed

record scenario_step =
  sp_name :: string
  sp_action :: string
  sp_expectation :: string

datatype target_error = Tg_nil | Tg_leader int | Tg_missing int
datatype scenario_error = Se_target target_error | Se_call replica_error | Se_found bytes | Se_missing bytes | Se_mismatch bytes bytes

record scenario_result =
  sr_name :: string
  sr_status :: scenario_status
  sr_steps :: "scenario_step list"
  sr_events :: "timeline_event list"
  sr_error :: "scenario_error option"

definition stat_word :: "'a::len word \<Rightarrow> stat_value" where "stat_word w = Sv_int (uint w)"
definition stat_nat :: "nat \<Rightarrow> stat_value" where "stat_nat n = Sv_int (int n)"

definition engine_snapshot :: "string \<Rightarrow> engine \<Rightarrow> snapshot" where
  "engine_snapshot name e =
     (let st = engine_stats_of e in
      \<lparr>sn_title = name,
       sn_components = [\<lparr>cs_name = name, cs_type = Ct_engine, cs_health = Ch_ok,
         cs_stats = [(''memtable_entries'', stat_nat (es_mem_entries st)), (''memtable_approx_bytes'', stat_word (es_mem_bytes st)),
           (''sstable_count'', stat_nat (es_tables st)), (''next_seq'', stat_word (es_next_seq st)),
           (''flush_count'', stat_word (es_flushes st)), (''bloom_checks'', stat_word (es_checks st)),
           (''bloom_negative_skips'', stat_word (es_skips st)), (''compaction_count'', stat_word (es_compactions st)),
           (''last_compaction_input_tables'', stat_nat (es_last_in st)),
           (''last_compaction_output_entries'', stat_word (es_last_out st))]\<rparr>],
       sn_events = []\<rparr>)"

definition shard_rows :: "nat \<Rightarrow> shard_stats \<Rightarrow> (string \<times> stat_value) list" where
  "shard_rows i sh =
     (let pfx = ''shard_'' @ decimal i @ ''_'' in
      [(pfx @ ''name'', Sv_text (si_name (sh_st_info sh))), (pfx @ ''memtable_entries'', stat_nat (sh_st_mem_entries sh)),
       (pfx @ ''sstable_count'', stat_nat (sh_st_tables sh)), (pfx @ ''flush_count'', stat_word (sh_st_flushes sh))])"

definition shard_snapshot :: "string \<Rightarrow> store \<Rightarrow> snapshot" where
  "shard_snapshot name s =
     (let st = store_stats_of s in
      \<lparr>sn_title = name,
       sn_components = [\<lparr>cs_name = name, cs_type = Ct_shard, cs_health = Ch_ok,
         cs_stats = [(''shard_count'', stat_nat (st_shard_count st)), (''virtual_nodes'', Sv_int (st_virtual_nodes st)),
           (''total_memtable_entries'', stat_nat (st_mem_entries st)), (''total_memtable_approx_bytes'', stat_word (st_mem_bytes st)),
           (''total_sstable_count'', stat_nat (st_tables st)), (''total_flush_count'', stat_word (st_flushes st)),
           (''total_compaction_count'', stat_word (st_compactions st))]
           @ concat (map (\<lambda>(i, sh). shard_rows i sh) (List.enumerate 0 (st_shards st)))\<rparr>],
       sn_events = []\<rparr>)"

definition replica_rows :: "replica_stats \<Rightarrow> (string \<times> stat_value) list" where
  "replica_rows r =
     (let pfx = ''replica_'' @ signed_decimal (ri_id (rst_info r)) @ ''_'' in
      [(pfx @ ''name'', Sv_text (ri_name (rst_info r))), (pfx @ ''role'', Sv_text (ri_role (rst_info r))),
       (pfx @ ''applied_index'', stat_word (rst_applied r)), (pfx @ ''sstable_count'', stat_nat (rst_tables r)),
       (pfx @ ''flush_count'', stat_word (rst_flushes r))])"

definition replica_health :: "replica_store_stats \<Rightarrow> component_health" where
  "replica_health st =
     foldl (\<lambda>h r. if ri_role (rst_info r) = role_follower \<and> rst_applied r < rss_commit st then Ch_degraded else h) Ch_ok (rss_replicas st)"

definition replica_snapshot :: "string \<Rightarrow> replica_store \<Rightarrow> snapshot" where
  "replica_snapshot name s =
     (let st = replica_stats_of s in
      \<lparr>sn_title = name,
       sn_components = [\<lparr>cs_name = name, cs_type = Ct_replica, cs_health = replica_health st,
         cs_stats = [(''replica_count'', stat_nat (rss_count st)), (''leader_id'', Sv_int (rss_leader st)),
           (''commit_index'', stat_word (rss_commit st)), (''applied_index'', stat_word (rss_applied st))]
           @ concat (map replica_rows (rss_replicas st))\<rparr>],
       sn_events = []\<rparr>)"

definition multi_snapshot :: "string \<Rightarrow> snapshot list \<Rightarrow> snapshot" where
  "multi_snapshot title ss =
     \<lparr>sn_title = title, sn_components = concat (map sn_components ss), sn_events = concat (map sn_events ss)\<rparr>"

definition status_text :: "scenario_status \<Rightarrow> string" where
  "status_text s = (case s of Sc_pending \<Rightarrow> ''pending'' | Sc_running \<Rightarrow> ''running'' | Sc_passed \<Rightarrow> ''passed'' | Sc_failed \<Rightarrow> ''failed'')"

text \<open>Without the text of the error.\<close>

definition scenario_snapshot :: "scenario_result \<Rightarrow> snapshot" where
  "scenario_snapshot r =
     \<lparr>sn_title = sr_name r,
      sn_components = [\<lparr>cs_name = sr_name r, cs_type = Ct_replica,
        cs_health = (if sr_status r = Sc_failed then Ch_degraded else Ch_ok),
        cs_stats = [(''scenario'', Sv_text (sr_name r)), (''status'', Sv_text (status_text (sr_status r))),
          (''step_count'', stat_nat (length (sr_steps r))), (''event_count'', stat_nat (length (sr_events r)))]\<rparr>],
      sn_events = sr_events r\<rparr>"

section \<open>Endpoints\<close>

datatype dash_body = Db_html string | Db_snapshot snapshot | Db_ok | Db_events "timeline_event list" | Db_error

definition dash_serve :: "(snapshot \<Rightarrow> string option) \<Rightarrow> snapshot \<Rightarrow> string \<Rightarrow> string \<Rightarrow> int \<times> dash_body" where
  "dash_serve render snap meth path =
     (if path = ''/status'' then (if meth \<noteq> ''GET'' then (405, Db_error) else (200, Db_snapshot snap))
      else if path = ''/healthz'' then (if meth \<noteq> ''GET'' then (405, Db_error) else (200, Db_ok))
      else if path = ''/events'' then (if meth \<noteq> ''GET'' then (405, Db_error) else (200, Db_events (sn_events snap)))
      else if path \<noteq> ''/'' then (404, Db_error)
      else if meth \<noteq> ''GET'' then (405, Db_error)
      else (case render snap of None \<Rightarrow> (500, Db_error) | Some html \<Rightarrow> (200, Db_html html)))"

section \<open>The server\<close>

record dash_options =
  dso_addr :: string
  dso_title :: string

text \<open>The bound address once a listener is there; whether \<open>Serve\<close> was called on it.\<close>

record dash_server =
  dsv_opts :: dash_options
  dsv_listener :: "string option"
  dsv_serving :: bool
  dsv_closed :: bool

datatype dash_error = De_nil_collector | De_listen | De_closed | De_serve | De_shutdown

definition dash_defaults :: "dash_options \<Rightarrow> dash_options" where
  "dash_defaults o' = o'\<lparr>dso_addr := (if dso_addr o' = [] then ''127.0.0.1:8080'' else dso_addr o'),
     dso_title := (if dso_title o' = [] then ''ShardForgeDB Dashboard'' else dso_title o')\<rparr>"

definition new_dash_server :: "dash_options \<Rightarrow> 'c option \<Rightarrow> dash_error + dash_server" where
  "new_dash_server o' collector =
     (case collector of
        None \<Rightarrow> Inl De_nil_collector
      | Some _ \<Rightarrow> Inr \<lparr>dsv_opts = dash_defaults o', dsv_listener = None, dsv_serving = False, dsv_closed = False\<rparr>)"

text \<open>\<open>Start\<close> up to the call of \<open>Serve\<close>, where \<open>bound\<close> is what \<open>net.Listen\<close> returns; and what it makes of the end of \<open>Serve\<close>.\<close>

definition dash_start :: "string option \<Rightarrow> dash_server \<Rightarrow> dash_error option \<times> dash_server" where
  "dash_start bound s =
     (case bound of
        None \<Rightarrow> (Some De_listen, s)
      | Some a \<Rightarrow>
          if dsv_closed s then (Some De_closed, s)
          else (None, s\<lparr>dsv_listener := Some a, dsv_serving := True\<rparr>))"

definition dash_serve_end :: "bool \<Rightarrow> dash_error option" where
  "dash_serve_end server_closed = (if server_closed then None else Some De_serve)"

definition dash_addr :: "dash_server \<Rightarrow> string" where
  "dash_addr s = (case dsv_listener s of None \<Rightarrow> dso_addr (dsv_opts s) | Some a \<Rightarrow> a)"

definition dash_close :: "bool \<Rightarrow> dash_server \<Rightarrow> dash_error option \<times> dash_server" where
  "dash_close shutdown_ok s =
     (if dsv_closed s then (None, s)
      else ((if dsv_serving s \<and> \<not> shutdown_ok then Some De_shutdown else None), s\<lparr>dsv_closed := True\<rparr>))"

section \<open>Scenarios\<close>

definition new_event :: "string \<Rightarrow> string \<Rightarrow> timeline_event" where
  "new_event source action = \<lparr>te_source = source, te_action = action\<rparr>"

definition failed_result :: "string \<Rightarrow> scenario_step list \<Rightarrow> timeline_event list \<Rightarrow> scenario_error \<Rightarrow> scenario_result" where
  "failed_result name steps events er =
     \<lparr>sr_name = name, sr_status = Sc_failed, sr_steps = steps, sr_events = events, sr_error = Some er\<rparr>"

definition validate_target :: "replica_store option \<Rightarrow> int \<Rightarrow> target_error option" where
  "validate_target st fid =
     (case st of
        None \<Rightarrow> Some Tg_nil
      | Some s \<Rightarrow>
          (case find (\<lambda>r. ri_id r = fid) (replica_infos s) of
             None \<Rightarrow> Some (Tg_missing fid)
           | Some r \<Rightarrow> if ri_role r = role_leader then Some (Tg_leader fid) else None))"

text \<open>One stretch of a scenario: the actions recorded before a call, the call, those recorded after it, and what is
  undone when the call fails.\<close>

datatype stretch = Stretch (st_before: "string list") (st_call: "replica_store \<Rightarrow> scenario_error option \<times> replica_store")
  (st_after: "string list") (st_undo: "replica_store \<Rightarrow> replica_store")

fun run_stretches :: "stretch list \<Rightarrow> string list \<Rightarrow> replica_store \<Rightarrow> scenario_error option \<times> string list \<times> replica_store" where
  "run_stretches [] acts st = (None, acts, st)"
| "run_stretches (p # ps) acts st =
     (case st_call p st of
        (Some er, st') \<Rightarrow> (Some er, acts @ st_before p, st_undo p st')
      | (None, st') \<Rightarrow> run_stretches ps (acts @ st_before p @ st_after p) st')"

definition run_scenario ::
    "string \<Rightarrow> scenario_step list \<Rightarrow> stretch list \<Rightarrow> replica_store option \<Rightarrow> int \<Rightarrow> scenario_result \<times> replica_store option" where
  "run_scenario name steps ps target fid =
     (case validate_target target fid of
        Some er \<Rightarrow> (failed_result name steps [new_event name ''validate''] (Se_target er), target)
      | None \<Rightarrow>
          (case run_stretches ps [] (the target) of
             (Some er, acts, st) \<Rightarrow> (failed_result name steps (map (new_event name) acts) er, Some st)
           | (None, acts, st) \<Rightarrow>
               (\<lparr>sr_name = name, sr_status = Sc_passed, sr_steps = steps, sr_events = map (new_event name) acts, sr_error = None\<rparr>,
                Some st)))"

definition leader_put_call :: "replica_write_io \<Rightarrow> bytes \<Rightarrow> bytes \<Rightarrow> replica_store \<Rightarrow> scenario_error option \<times> replica_store" where
  "leader_put_call io k v st = (case replica_put k v io st of (Inl er, st') \<Rightarrow> (Some (Se_call er), st') | (Inr _, st') \<Rightarrow> (None, st'))"

definition pause_call :: "int \<Rightarrow> bool \<Rightarrow> replica_store \<Rightarrow> scenario_error option \<times> replica_store" where
  "pause_call fid b st = (case set_follower_paused fid b st of (er, st') \<Rightarrow> (map_option Se_call er, st'))"

definition lag_call :: "int \<Rightarrow> int \<Rightarrow> replica_store \<Rightarrow> scenario_error option \<times> replica_store" where
  "lag_call fid n st = (case set_follower_lag fid n st of (er, st') \<Rightarrow> (map_option Se_call er, st'))"

definition all_call :: "(nat \<Rightarrow> u64 \<Rightarrow> apply_io) \<Rightarrow> replica_store \<Rightarrow> scenario_error option \<times> replica_store" where
  "all_call io st = (case replicate_all io st of (er, st') \<Rightarrow> (map_option Se_call er, st'))"

definition once_call :: "(nat \<Rightarrow> u64 \<Rightarrow> apply_io) \<Rightarrow> replica_store \<Rightarrow> scenario_error option \<times> replica_store" where
  "once_call io st = (case replicate_once io st of (er, _, st') \<Rightarrow> (map_option Se_call er, st'))"

definition absent_call :: "int \<Rightarrow> bytes \<Rightarrow> replica_store \<Rightarrow> scenario_error option \<times> replica_store" where
  "absent_call fid k st =
     (case replica_get k read_follower fid st of
        (Inl er, st') \<Rightarrow> (Some (Se_call er), st')
      | (Inr None, st') \<Rightarrow> (None, st')
      | (Inr (Some v), st') \<Rightarrow> (Some (Se_found v), st'))"

definition present_call :: "int \<Rightarrow> bytes \<Rightarrow> bytes \<Rightarrow> replica_store \<Rightarrow> scenario_error option \<times> replica_store" where
  "present_call fid k expected st =
     (case replica_get k read_follower fid st of
        (Inl er, st') \<Rightarrow> (Some (Se_call er), st')
      | (Inr None, st') \<Rightarrow> (Some (Se_missing k), st')
      | (Inr (Some v), st') \<Rightarrow> (if v \<noteq> expected then Some (Se_mismatch v expected) else None, st'))"

text \<open>A loop over keys that returns at the first failure.\<close>

fun each_call :: "('k \<Rightarrow> replica_store \<Rightarrow> scenario_error option \<times> replica_store) \<Rightarrow> 'k list \<Rightarrow> replica_store \<Rightarrow> scenario_error option \<times> replica_store" where
  "each_call f [] st = (None, st)"
| "each_call f (k # ks) st = (case f k st of (Some er, st') \<Rightarrow> (Some er, st') | (None, st') \<Rightarrow> each_call f ks st')"

definition pad3 :: "nat \<Rightarrow> string" where
  "pad3 n = replicate (3 - length (decimal n)) (CHR ''0'') @ decimal n"

definition pause_key :: bytes where "pause_key = ascii ''chaos-pause-key-001''"
definition pause_val :: bytes where "pause_val = ascii ''chaos-pause-val-001''"

definition pause_steps :: "scenario_step list" where
  "pause_steps =
     [\<lparr>sp_name = ''write_leader'', sp_action = ''Put key on leader'', sp_expectation = ''leader accepts write''\<rparr>,
      \<lparr>sp_name = ''pause_follower'', sp_action = ''SetFollowerPaused(true)'', sp_expectation = ''follower marked paused''\<rparr>,
      \<lparr>sp_name = ''replicate_paused'', sp_action = ''ReplicateAll while paused'', sp_expectation = ''follower does not receive new key''\<rparr>,
      \<lparr>sp_name = ''read_stale'', sp_action = ''Get from follower (paused)'', sp_expectation = ''key not found on follower''\<rparr>,
      \<lparr>sp_name = ''unpause_follower'', sp_action = ''SetFollowerPaused(false)'', sp_expectation = ''follower marked unpaused''\<rparr>,
      \<lparr>sp_name = ''replicate_catch_up'', sp_action = ''ReplicateAll after unpause'', sp_expectation = ''follower catches up''\<rparr>,
      \<lparr>sp_name = ''read_current'', sp_action = ''Get from follower (caught up)'', sp_expectation = ''key found on follower''\<rparr>]"

text \<open>\<open>wio\<close> is the I/O of the writes, \<open>aio\<close> that of the passes.\<close>

definition pause_scenario ::
    "replica_write_io \<Rightarrow> (nat \<Rightarrow> u64 \<Rightarrow> apply_io) \<Rightarrow> replica_store option \<Rightarrow> int \<Rightarrow> scenario_result \<times> replica_store option" where
  "pause_scenario wio aio target fid =
     run_scenario ''FollowerPauseScenario'' pause_steps
       [Stretch [''write_leader''] (leader_put_call wio pause_key pause_val) [''write_leader''] id,
        Stretch [''pause_follower''] (pause_call fid True) [''pause_follower''] id,
        Stretch [''replicate_paused''] (all_call aio) [''replicate_paused''] id,
        Stretch [] (absent_call fid pause_key) [''read_stale''] id,
        Stretch [''unpause_follower''] (pause_call fid False) [''unpause_follower''] id,
        Stretch [''replicate_catch_up''] (all_call aio) [''replicate_catch_up''] id,
        Stretch [''read_current''] (present_call fid pause_key pause_val) [''read_current''] id] target fid"

definition lag_key :: "nat \<Rightarrow> bytes" where "lag_key i = ascii (''chaos-lag-key-'' @ pad3 i)"
definition lag_val :: "nat \<Rightarrow> bytes" where "lag_val i = ascii (''chaos-lag-val-'' @ pad3 i)"

definition lag_steps :: "scenario_step list" where
  "lag_steps =
     [\<lparr>sp_name = ''set_lag'', sp_action = ''SetFollowerLag(2)'', sp_expectation = ''follower limited to 2 ops/call''\<rparr>,
      \<lparr>sp_name = ''write_keys'', sp_action = ''Put 6 keys on leader'', sp_expectation = ''leader commits 6 ops''\<rparr>,
      \<lparr>sp_name = ''replicate_once'', sp_action = ''ReplicateOnce'', sp_expectation = ''follower applies '' @ [CHR 0xE2, CHR 0x89, CHR 0xA4] @ '' 2 ops''\<rparr>,
      \<lparr>sp_name = ''verify_lag'', sp_action = ''Stats: follower applied < commit'', sp_expectation = ''lag confirmed''\<rparr>,
      \<lparr>sp_name = ''replicate_all'', sp_action = ''ReplicateAll'', sp_expectation = ''follower catches up fully''\<rparr>,
      \<lparr>sp_name = ''read_all'', sp_action = ''Get all 6 keys from follower'', sp_expectation = ''all keys present''\<rparr>]"

text \<open>Whether the lag is confirmed changes only the text of the second \<open>verify_lag\<close> event.\<close>

definition lag_scenario ::
    "replica_write_io \<Rightarrow> (nat \<Rightarrow> u64 \<Rightarrow> apply_io) \<Rightarrow> replica_store option \<Rightarrow> int \<Rightarrow> scenario_result \<times> replica_store option" where
  "lag_scenario wio aio target fid =
     run_scenario ''FollowerLagScenario'' lag_steps
       [Stretch [''set_lag''] (lag_call fid 2) [''set_lag''] id,
        Stretch [] (each_call (\<lambda>i. leader_put_call wio (lag_key i) (lag_val i)) [0..<6]) [''write_keys''] id,
        Stretch [''replicate_once''] (once_call aio) [''replicate_once''] id,
        Stretch [''verify_lag'', ''verify_lag'', ''replicate_all''] (all_call aio) [''replicate_all''] id,
        Stretch [] (\<lambda>st. (None, snd (set_follower_lag fid 0 st))) [] id,
        Stretch [] (each_call (\<lambda>i. present_call fid (lag_key i) (lag_val i)) [0..<6]) [''read_all''] id] target fid"

definition catchup_key :: "nat \<Rightarrow> bytes" where "catchup_key i = ascii (''chaos-catchup-key-'' @ pad3 i)"
definition catchup_val :: "nat \<Rightarrow> bytes" where "catchup_val i = ascii (''chaos-catchup-val-'' @ pad3 i)"

definition catchup_steps :: "scenario_step list" where
  "catchup_steps =
     [\<lparr>sp_name = ''pause_follower'', sp_action = ''SetFollowerPaused(true)'', sp_expectation = ''follower paused''\<rparr>,
      \<lparr>sp_name = ''write_keys'', sp_action = ''Put 4 keys on leader'', sp_expectation = ''leader commits 4 ops''\<rparr>,
      \<lparr>sp_name = ''verify_stale'', sp_action = ''Get keys from follower (paused)'', sp_expectation = ''keys absent''\<rparr>,
      \<lparr>sp_name = ''unpause'', sp_action = ''SetFollowerPaused(false)'', sp_expectation = ''follower unpaused''\<rparr>,
      \<lparr>sp_name = ''replicate_all'', sp_action = ''ReplicateAll'', sp_expectation = ''follower catches up''\<rparr>,
      \<lparr>sp_name = ''verify_current'', sp_action = ''Get all keys from follower'', sp_expectation = ''all keys present''\<rparr>]"

definition catchup_scenario ::
    "replica_write_io \<Rightarrow> (nat \<Rightarrow> u64 \<Rightarrow> apply_io) \<Rightarrow> replica_store option \<Rightarrow> int \<Rightarrow> scenario_result \<times> replica_store option" where
  "catchup_scenario wio aio target fid =
     (let unpause = (\<lambda>st. snd (set_follower_paused fid False st)) in
      run_scenario ''FollowerCatchupScenario'' catchup_steps
       [Stretch [''pause_follower''] (pause_call fid True) [''pause_follower''] id,
        Stretch [] (each_call (\<lambda>i. leader_put_call wio (catchup_key i) (catchup_val i)) [0..<4]) [''write_keys''] unpause,
        Stretch [] (each_call (\<lambda>i. absent_call fid (catchup_key i)) [0..<4]) [''verify_stale''] unpause,
        Stretch [''unpause''] (pause_call fid False) [''unpause''] id,
        Stretch [''replicate_all''] (all_call aio) [''replicate_all''] id,
        Stretch [] (each_call (\<lambda>i. present_call fid (catchup_key i) (catchup_val i)) [0..<4]) [''verify_current''] id] target fid)"

end
