(* ===== verification/DashboardSpec.thy ===== *)
theory DashboardSpec
  imports Dashboard
begin

text \<open>
  The failure scenarios of the dashboard on a replicated store: exactly when they pass, and what a second run does.
\<close>

section \<open>The calls of a scenario\<close>

text \<open>A store that stands for a history, with a follower under its number.\<close>

definition target_ok :: "nat \<Rightarrow> (bytes \<times> bytes option) list \<Rightarrow> nat \<Rightarrow> replica_store \<Rightarrow> bool" where
  "target_ok F W i st \<longleftrightarrow> replica_inv F W st \<and> i < length (rs_replicas st) \<and> int i \<noteq> rs_leader st
     \<and> (\<forall>j < length (rs_replicas st). ri_id (rh_info (rs_replicas st ! j)) = int j)"

text \<open>What a call leaves of the follower: whether it is paused, and how far it is.\<close>

definition follower_at :: "nat \<Rightarrow> bool \<Rightarrow> nat \<Rightarrow> replica_store \<Rightarrow> bool" where
  "follower_at i p j st \<longleftrightarrow> rh_paused (rs_replicas st ! i) = p \<and> unat (rh_applied (rs_replicas st ! i)) = j"

lemma target_leader: "leader_index st = Some l \<Longrightarrow> int l = rs_leader st"
  by (auto simp: leader_index_def split: if_splits)

lemma target_updated:
  assumes "target_ok F W i st" "replica_inv F W' st'" "rs_leader st' = rs_leader st" "rs_replicas st' = (rs_replicas st)[k := h]"
    and "rh_info h = rh_info (rs_replicas st ! k)"
  shows "target_ok F W' i st'"
  using assms by (cases "k < length (rs_replicas st)") (simp_all add: target_ok_def nth_list_update)

lemma target_put:
  assumes "target_ok F W i st" "follower_at i p j st" "F + length W < 2 ^ 29" "k \<noteq> []" "length k + length x \<le> 1000"
  shows "\<exists>st'. leader_put_call (good_write_io\<lparr>wi_applied := s\<rparr>) k x st = (None, st') \<and> target_ok F (W @ [(k, Some x)]) i st' \<and> follower_at i p j st'"
proof -
  have inv: "replica_inv F W st" "i < length (rs_replicas st)" "int i \<noteq> rs_leader st" using assms(1) by (simp_all add: target_ok_def)
  obtain idx st' where st': "replica_put k x (good_write_io\<lparr>wi_applied := s\<rparr>) st = (Inr idx, st')"
    using replica_put_succeeds [OF inv(1) assms(4,5)] by blast
  then have w: "replica_write k (Some x) (good_write_io\<lparr>wi_applied := s\<rparr>) st = (Inr idx, st')" by (simp add: replica_write_def)
  obtain l where l: "leader_index st = Some l" using inv(1) by (auto simp: replica_inv_def leader_ok_def)
  have li: "l \<noteq> i" "l < length (rs_replicas st)" using inv(3) leader_index_bound [OF l] target_leader [OF l] by auto
  obtain ol e where c: "commit_write (good_write_io\<lparr>wi_applied := s\<rparr>) l idx (set_replica l (\<lambda>h. h\<lparr>rh_engine := e\<rparr>) (st\<lparr>rs_log := ol\<rparr>)) = (Inr idx, st')"
    by (rule replica_write_Inr [OF w l])
  define h' where "h' = save_applied s idx ((rs_replicas st ! l)\<lparr>rh_engine := e, rh_applied := idx\<rparr>)"
  have r: "rs_replicas st' = (rs_replicas st)[l := h']" "rs_leader st' = rs_leader st" "rh_info h' = rh_info (rs_replicas st ! l)"
    using c li(2) by (auto simp: commit_write_def set_replica_def h'_def good_write_io_def split: if_splits)
  have "target_ok F (W @ [(k, Some x)]) i st'"
    by (rule target_updated [OF assms(1) replica_write_inv(1) [OF inv(1) assms(3) w] r(2,1,3)])
  then show ?thesis using st' r li(1) assms(2) by (auto simp: leader_put_call_def follower_at_def)
qed

lemma target_handle:
  assumes "target_ok F W i st" "\<And>h. rh_info (f h) = rh_info h \<and> rh_engine (f h) = rh_engine h \<and> rh_applied (f h) = rh_applied h"
  shows "target_ok F W i (set_replica i f st)"
proof (rule target_updated [OF assms(1), where k = i and h = "f (rs_replicas st ! i)"])
  show "replica_inv F W (set_replica i f st)"
    by (rule replica_inv_handle [OF _ assms(2)]) (use assms(1) in \<open>simp_all add: target_ok_def\<close>)
qed (simp_all add: set_replica_def assms(2))

lemma target_pause:
  assumes "target_ok F W i st" "follower_at i p j st"
  shows "\<exists>st'. set_follower_paused (int i) b st = (None, st') \<and> target_ok F W i st' \<and> follower_at i b j st'"
proof -
  have c: "\<not> rs_closed st" "i < length (rs_replicas st)" "int i \<noteq> rs_leader st" using assms(1) by (auto simp: target_ok_def replica_inv_def)
  have "target_ok F W i (set_replica i (\<lambda>h. h\<lparr>rh_paused := b\<rparr>) st)" by (rule target_handle [OF assms(1)]) simp
  then show ?thesis using assms(2) c by (simp add: set_follower_paused_def follower_at_def set_replica_def)
qed

lemma target_lag:
  assumes "target_ok F W i st" "follower_at i p j st"
  shows "\<exists>st'. set_follower_lag (int i) n st = (None, st') \<and> target_ok F W i st' \<and> follower_at i p j st'"
proof -
  have c: "\<not> rs_closed st" "i < length (rs_replicas st)" "int i \<noteq> rs_leader st" using assms(1) by (auto simp: target_ok_def replica_inv_def)
  have "target_ok F W i (set_replica i (\<lambda>h. h\<lparr>rh_max_apply := n\<rparr>) st)" by (rule target_handle [OF assms(1)]) simp
  then show ?thesis using assms(2) c by (simp add: set_follower_lag_def follower_at_def set_replica_def)
qed

lemma target_advanced:
  assumes "target_ok F W i st" "replica_inv F W (st\<lparr>rs_replicas := hs\<rparr>)" "list_all2 (advanced (follower_ok F) L) (rs_replicas st) hs"
  shows "target_ok F W i (st\<lparr>rs_replicas := hs\<rparr>)" "rh_paused (hs ! i) = rh_paused (rs_replicas st ! i)"
    "rh_paused (rs_replicas st ! i) \<Longrightarrow> hs ! i = rs_replicas st ! i"
  using assms by (auto simp: target_ok_def list_all2_conv_all_nth advanced_def)

lemma target_all:
  assumes "target_ok F W i st" "follower_at i p j st" "F + length W \<le> 2 ^ 29"
  shows "\<exists>st'. all_call (apply_with A) st = (None, st') \<and> target_ok F W i st' \<and> follower_at i p (if p then j else length W) st'"
proof -
  have inv: "replica_inv F W st" "i < length (rs_replicas st)" "int i \<noteq> rs_leader st" using assms(1) by (simp_all add: target_ok_def)
  obtain er st' where r: "replicate_all (apply_with A) st = (er, st')" by fastforce
  note a = replicate_all_inv [OF inv(1) assms(3) r]
  obtain hs where hs: "st' = st\<lparr>rs_replicas := hs\<rparr>"
    using r replica_inv_log(6) [OF inv(1)] by (auto simp: replicate_all_def split: prod.splits)
  have adv: "list_all2 (advanced (follower_ok F) (ol_ops (rs_log st))) (rs_replicas st) hs" using a(4) by (simp add: hs)
  note t = target_advanced [OF assms(1) _ adv, folded hs, OF a(1)]
  have "unat (rh_applied (hs ! i)) = length W" if "\<not> p"
  proof -
    have np: "\<not> rh_paused (hs ! i)" using that assms(2) t(2) by (simp add: follower_at_def)
    have i': "i < length (rs_replicas st')" "int i \<noteq> rs_leader st'" using t(1) by (simp_all add: target_ok_def)
    have "settled (rs_commit st) (rs_replicas st' ! i)" using a(3) i'(1) by simp
    then have "rs_commit st \<le> rh_applied (hs ! i)" using follower_role(1) [OF a(1) i'] np by (simp add: settled_def hs)
    moreover have "unat (rh_applied (hs ! i)) \<le> length W" using replica_inv_follower_reads(1) [OF a(1) i'] by (simp add: hs)
    ultimately show ?thesis using replica_inv_log(5) [OF inv(1)] by (simp add: word_le_nat_alt)
  qed
  then have "follower_at i p (if p then j else length W) st'" using assms(2) t(2,3) by (auto simp: follower_at_def hs)
  then show ?thesis using r a(2) t(1) by (simp add: all_call_def)
qed

lemma target_once:
  assumes "target_ok F W i st" "follower_at i p j st" "F + length W \<le> 2 ^ 29"
  shows "\<exists>st' j'. once_call (apply_with A) st = (None, st') \<and> target_ok F W i st' \<and> follower_at i p j' st' \<and> (p \<longrightarrow> j' = j)"
proof -
  have inv: "replica_inv F W st" using assms(1) by (simp add: target_ok_def)
  note log = replica_inv_log [OF inv]
  obtain er n hs where r: "replicate_handles (apply_with A) (rs_log st) (rs_commit st) 0 (rs_replicas st) 0 = (er, n, hs)" by (metis prod_cases3)
  have er: "er = None" using session.replicate_handles_accepted [OF log(1,3), of "rs_replicas st" F A] log(4) r by (metis fst_conv)
  have once: "replicate_once (apply_with A) st = (None, n, st\<lparr>rs_replicas := hs\<rparr>)" using r er log(6) by (simp add: replicate_once_def)
  have adv: "list_all2 (advanced (follower_ok F) (ol_ops (rs_log st))) (rs_replicas st) hs"
    by (rule session.replicate_handles_advanced [OF r log(1)]) (use log in simp_all)
  note t = target_advanced [OF assms(1) replicate_once_inv [OF inv assms(3) once] adv]
  have "follower_at i p (unat (rh_applied (hs ! i))) (st\<lparr>rs_replicas := hs\<rparr>)" "p \<longrightarrow> unat (rh_applied (hs ! i)) = j"
    using t(2,3) assms(2) by (auto simp: follower_at_def)
  then show ?thesis using once t(1) by (auto simp: once_call_def)
qed

lemma target_get:
  assumes "target_ok F W i st" "follower_at i p j st" "k \<noteq> []"
  shows "\<exists>st'. replica_get k read_follower (int i) st = (Inr (play (take j W) Map.empty k), st') \<and> target_ok F W i st' \<and> follower_at i p j st'"
proof -
  have inv: "replica_inv F W st" "i < length (rs_replicas st)" "int i \<noteq> rs_leader st" using assms(1) by (simp_all add: target_ok_def)
  have f: "follower_ok F (ol_ops (rs_log st)) (rs_replicas st ! i)" "ri_role (rh_info (rs_replicas st ! i)) \<noteq> role_leader"
    using follower_role [OF inv] by blast+
  have j: "j = unat (rh_applied (rs_replicas st ! i))" using assms(2) by (simp add: follower_at_def)
  have ok: "engine_ok (F + j) (play (take j W) Map.empty) (rh_engine (rs_replicas st ! i))"
    using f(1) replica_inv_log(7) [OF inv(1)] by (simp add: follower_ok_def j)
  then obtain e where e: "engine_get k (rh_engine (rs_replicas st ! i)) = (Inr (play (take j W) Map.empty k), e)"
      "engine_ok (F + j) (play (take j W) Map.empty) e"
    using engine_kv.get_ok by blast
  have opts: "en_opts e = en_opts (rh_engine (rs_replicas st ! i))"
    using engine_get_opts [of k "rh_engine (rs_replicas st ! i)"] e(1) by simp
  let ?st = "set_replica i (\<lambda>h. h\<lparr>rh_engine := e\<rparr>) st"
  have "replica_get k read_follower (int i) st = (Inr (play (take j W) Map.empty k), ?st)"
    using select_follower [OF inv(2,3)] e(1) replica_inv_log(6) [OF inv(1)] assms(3) by (simp add: replica_get_def)
  moreover have "replica_inv F W ?st"
  proof -
    obtain l where l: "leader_ok F W st l" using inv(1) by (auto simp: replica_inv_def)
    then have li: "l \<noteq> i" using target_leader [of st l] inv(3) by (auto simp: leader_ok_def)
    have info: "rh_info (rs_replicas ?st ! x) = rh_info (rs_replicas st ! x)" if "x < length (rs_replicas st)" for x
      using that by (cases "x = i") (simp_all add: set_replica_def)
    have "rs_replicas ?st ! l = rs_replicas st ! l" using li by (simp add: set_replica_def)
    then have "leader_ok F W ?st l" using l info by (simp add: leader_ok_def)
    moreover have "follower_ok F (ol_ops (rs_log st)) ((rs_replicas st ! i)\<lparr>rh_engine := e\<rparr>)"
      using f(1) e(2) replica_inv_log(7) [OF inv(1)] by (simp add: follower_ok_def j)
    moreover have "limit_ok e" using inv(1,2) opts by (auto simp: replica_inv_def limit_ok_def)
    ultimately show ?thesis
      using inv(1) set_update_subset_insert [of "rs_replicas st" i "(rs_replicas st ! i)\<lparr>rh_engine := e\<rparr>"] f(2)
      by (auto simp: replica_inv_def set_replica_def)
  qed
  then have "target_ok F W i ?st"
    by (rule target_updated [OF assms(1), where k = i and h = "(rs_replicas st ! i)\<lparr>rh_engine := e\<rparr>"]) (simp_all add: set_replica_def)
  moreover have "follower_at i p j ?st" using assms(2) inv(2) by (simp add: follower_at_def set_replica_def)
  ultimately show ?thesis by blast
qed

section \<open>Loops over keys\<close>

lemma each_puts:
  assumes "target_ok F W i st" "follower_at i p j st" "F + length W + length ks \<le> 2 ^ 29"
    and "\<forall>k \<in> set ks. kf k \<noteq> [] \<and> length (kf k) + length (vf k) \<le> 1000"
  shows "\<exists>st'. each_call (\<lambda>k. leader_put_call (good_write_io\<lparr>wi_applied := s\<rparr>) (kf k) (vf k)) ks st = (None, st')
    \<and> target_ok F (W @ map (\<lambda>k. (kf k, Some (vf k))) ks) i st' \<and> follower_at i p j st'"
  using assms
proof (induction ks arbitrary: W st)
  case (Cons k ks)
  obtain st1 where 1: "leader_put_call (good_write_io\<lparr>wi_applied := s\<rparr>) (kf k) (vf k) st = (None, st1)"
      "target_ok F (W @ [(kf k, Some (vf k))]) i st1" "follower_at i p j st1"
    using target_put [OF Cons.prems(1,2), of "kf k" "vf k" s] Cons.prems(3,4) by auto
  from Cons.IH [OF 1(2,3)] 1(1) Cons.prems(3,4) show ?case by simp
qed simp

lemma present_step:
  assumes "target_ok F W i st" "follower_at i p j st" "k \<noteq> []"
  shows "\<exists>er st'. present_call (int i) k x st = (er, st') \<and> target_ok F W i st' \<and> follower_at i p j st'
    \<and> (er = None \<longleftrightarrow> play (take j W) Map.empty k = Some x)"
  using target_get [OF assms] by (auto simp: present_call_def split: option.split)

lemma absent_step:
  assumes "target_ok F W i st" "follower_at i p j st" "k \<noteq> []"
  shows "\<exists>st'. absent_call (int i) k st = (map_option Se_found (play (take j W) Map.empty k), st') \<and> target_ok F W i st' \<and> follower_at i p j st'"
  using target_get [OF assms] by (auto simp: absent_call_def split: option.split)

lemma each_present:
  assumes "target_ok F W i st" "follower_at i p j st" "\<forall>k \<in> set ks. kf k \<noteq> []"
  shows "\<exists>er st'. each_call (\<lambda>k. present_call (int i) (kf k) (vf k)) ks st = (er, st') \<and> target_ok F W i st' \<and> follower_at i p j st'
    \<and> (er = None \<longleftrightarrow> (\<forall>k \<in> set ks. play (take j W) Map.empty (kf k) = Some (vf k)))"
  using assms
proof (induction ks arbitrary: st)
  case (Cons k ks)
  obtain er st1 where 1: "present_call (int i) (kf k) (vf k) st = (er, st1)" "target_ok F W i st1" "follower_at i p j st1"
      "er = None \<longleftrightarrow> play (take j W) Map.empty (kf k) = Some (vf k)"
    using present_step [OF Cons.prems(1,2), of "kf k" "vf k"] Cons.prems(3) by auto
  from Cons.IH [OF 1(2,3)] 1 Cons.prems(3) show ?case by (cases er) auto
qed simp

lemma each_absent:
  assumes "target_ok F W i st" "follower_at i p j st" "\<forall>k \<in> set ks. kf k \<noteq> []"
  shows "\<exists>er st'. each_call (\<lambda>k. absent_call (int i) (kf k)) ks st = (er, st') \<and> target_ok F W i st' \<and> follower_at i p j st'
    \<and> (er = None \<longleftrightarrow> (\<forall>k \<in> set ks. play (take j W) Map.empty (kf k) = None))"
  using assms
proof (induction ks arbitrary: st)
  case (Cons k ks)
  obtain st1 where 1: "absent_call (int i) (kf k) st = (map_option Se_found (play (take j W) Map.empty (kf k)), st1)"
      "target_ok F W i st1" "follower_at i p j st1"
    using absent_step [OF Cons.prems(1,2), of "kf k"] Cons.prems(3) by auto
  from Cons.IH [OF 1(2,3)] 1 Cons.prems(3) show ?case by (cases "play (take j W) Map.empty (kf k)") auto
qed simp

lemma play_puts:
  assumes "inj_on kf (set ks)" "k \<in> set ks"
  shows "play (W @ map (\<lambda>k. (kf k, Some (vf k))) ks) m (kf k) = Some (vf k)"
  using assms
proof (induction ks rule: rev_induct)
  case (snoc x ks)
  then show ?case by (cases "x = k") (auto simp: inj_on_def)
qed simp

lemma target_valid:
  assumes "target_ok F W i st"
  shows "validate_target (Some st) (int i) = None"
proof -
  have t: "replica_inv F W st" "i < length (rs_replicas st)" "int i \<noteq> rs_leader st"
      "\<forall>j < length (rs_replicas st). ri_id (rh_info (rs_replicas st ! j)) = int j"
    using assms by (simp_all add: target_ok_def)
  let ?P = "\<lambda>r. ri_id r = int i"
  have "find ?P (replica_infos st) = Some (rh_info (rs_replicas st ! i))"
    unfolding find_Some_iff using t(2,4) by (intro exI [of _ i]) (auto simp: replica_infos_def)
  then show ?thesis using follower_role(1) [OF t(1-3)] by (simp add: validate_target_def)
qed

lemma target_applied: "target_ok F W i st \<Longrightarrow> follower_at i p j st \<Longrightarrow> j \<le> length W"
  using replica_inv_follower_reads(1) [of F W st i] by (auto simp: target_ok_def follower_at_def)

section \<open>The scenarios\<close>

text \<open>The outcome of a scenario on a store that stands for a history.\<close>

definition outcome_ok ::
    "nat \<Rightarrow> (bytes \<times> bytes option) list \<Rightarrow> nat \<Rightarrow> bool \<Rightarrow> bool \<Rightarrow> nat \<Rightarrow> scenario_result \<times> replica_store option \<Rightarrow> bool" where
  "outcome_ok F W i pass p j r \<longleftrightarrow> (\<exists>res st. r = (res, Some st) \<and> target_ok F W i st \<and> follower_at i p j st
     \<and> sr_status res = (if pass then Sc_passed else Sc_failed) \<and> (sr_error res = None \<longleftrightarrow> pass))"

lemma pause_outcome:
  assumes "target_ok F W i st" "follower_at i p j st" "F + length W + 1 \<le> 2 ^ 29"
  shows "case play (take j W) Map.empty pause_key of
      None \<Rightarrow> outcome_ok F (W @ [(pause_key, Some pause_val)]) i True False (length W + 1)
        (pause_scenario (good_write_io\<lparr>wi_applied := s\<rparr>) (apply_with A) (Some st) (int i))
    | Some v \<Rightarrow> outcome_ok F (W @ [(pause_key, Some pause_val)]) i False True j
        (pause_scenario (good_write_io\<lparr>wi_applied := s\<rparr>) (apply_with A) (Some st) (int i))
        \<and> sr_error (fst (pause_scenario (good_write_io\<lparr>wi_applied := s\<rparr>) (apply_with A) (Some st) (int i))) = Some (Se_found v)"
proof -
  let ?W = "W @ [(pause_key, Some pause_val)]"
  have k: "pause_key \<noteq> []" "length pause_key + length pause_val \<le> 1000" by (simp_all add: pause_key_def pause_val_def ascii_def)
  have j: "j \<le> length W" by (rule target_applied [OF assms(1,2)])
  have len: "F + length W < 2 ^ 29" "F + length ?W \<le> 2 ^ 29" using assms(3) by simp_all
  obtain s1 where 1: "leader_put_call (good_write_io\<lparr>wi_applied := s\<rparr>) pause_key pause_val st = (None, s1)" "target_ok F ?W i s1" "follower_at i p j s1"
    using target_put [OF assms(1,2) len(1) k] by blast
  obtain s2 where 2: "set_follower_paused (int i) True s1 = (None, s2)" "target_ok F ?W i s2" "follower_at i True j s2"
    using target_pause [OF 1(2,3)] by blast
  obtain s3 where 3: "all_call (apply_with A) s2 = (None, s3)" "target_ok F ?W i s3" "follower_at i True j s3"
    using target_all [OF 2(2,3) len(2)] by auto
  have cut: "take j ?W = take j W" using j by simp
  obtain s4 where 4: "absent_call (int i) pause_key s3 = (map_option Se_found (play (take j W) Map.empty pause_key), s4)"
      "target_ok F ?W i s4" "follower_at i True j s4"
    using absent_step [OF 3(2,3) k(1)] unfolding cut by blast
  have pause: "pause_call (int i) True s1 = (None, s2)" using 2(1) by (simp add: pause_call_def)
  note run = pause_scenario_def run_scenario_def target_valid [OF assms(1)] 1(1) pause 3(1) 4(1)
  show ?thesis
  proof (cases "play (take j W) Map.empty pause_key")
    case (Some v)
    then show ?thesis using 4 by (simp add: run outcome_ok_def failed_result_def)
  next
    case None
    obtain s5 where 5: "set_follower_paused (int i) False s4 = (None, s5)" "target_ok F ?W i s5" "follower_at i False j s5"
      using target_pause [OF 4(2,3)] by blast
    obtain s6 where 6: "all_call (apply_with A) s5 = (None, s6)" "target_ok F ?W i s6" "follower_at i False (length W + 1) s6"
      using target_all [OF 5(2,3) len(2)] by auto
    obtain s7 where 7: "present_call (int i) pause_key pause_val s6 = (None, s7)" "target_ok F ?W i s7" "follower_at i False (length W + 1) s7"
      using present_step [OF 6(2,3) k(1), of pause_val] by auto
    have unpause: "pause_call (int i) False s4 = (None, s5)" using 5(1) by (simp add: pause_call_def)
    show ?thesis using None 7 by (simp add: run unpause 6(1) outcome_ok_def)
  qed
qed

lemma lag_keys: "lag_key n \<noteq> []" "inj_on lag_key (set [0..<6])" "n < 6 \<Longrightarrow> length (lag_key n) + length (lag_val n) \<le> 1000"
proof -
  show "lag_key n \<noteq> []" by (simp add: lag_key_def ascii_def)
  have "distinct (map lag_key [0..<6])" by code_simp
  then show "inj_on lag_key (set [0..<6])" by (simp add: distinct_map)
  have "list_all (\<lambda>n. length (lag_key n) + length (lag_val n) \<le> 1000) [0..<6]" by code_simp
  then show "n < 6 \<Longrightarrow> length (lag_key n) + length (lag_val n) \<le> 1000" by (simp add: list_all_iff)
qed

lemma catchup_keys: "catchup_key n \<noteq> []" "inj_on catchup_key (set [0..<4])" "n < 4 \<Longrightarrow> length (catchup_key n) + length (catchup_val n) \<le> 1000"
proof -
  show "catchup_key n \<noteq> []" by (simp add: catchup_key_def ascii_def)
  have "distinct (map catchup_key [0..<4])" by code_simp
  then show "inj_on catchup_key (set [0..<4])" by (simp add: distinct_map)
  have "list_all (\<lambda>n. length (catchup_key n) + length (catchup_val n) \<le> 1000) [0..<4]" by code_simp
  then show "n < 4 \<Longrightarrow> length (catchup_key n) + length (catchup_val n) \<le> 1000" by (simp add: list_all_iff)
qed

abbreviation (input) lag_puts :: "(bytes \<times> bytes option) list" where
  "lag_puts \<equiv> map (\<lambda>n. (lag_key n, Some (lag_val n))) [0..<6]"

abbreviation (input) catchup_puts :: "(bytes \<times> bytes option) list" where
  "catchup_puts \<equiv> map (\<lambda>n. (catchup_key n, Some (catchup_val n))) [0..<4]"

lemma lag_outcome:
  assumes "target_ok F W i st" "follower_at i p j st" "F + length W + 6 \<le> 2 ^ 29"
  shows "outcome_ok F (W @ lag_puts) i (\<not> p \<or> (\<forall>n < 6. play (take j W) Map.empty (lag_key n) = Some (lag_val n))) p
      (if p then j else length W + 6) (lag_scenario (good_write_io\<lparr>wi_applied := s\<rparr>) (apply_with A) (Some st) (int i))"
proof -
  let ?W = "W @ lag_puts" and ?j = "if p then j else length W + 6"
  have j: "j \<le> length W" by (rule target_applied [OF assms(1,2)])
  have len: "F + length W + length [0..<6] \<le> 2 ^ 29" "F + length ?W \<le> 2 ^ 29" "length ?W = length W + 6" using assms(3) by simp_all
  obtain s1 where 1: "set_follower_lag (int i) 2 st = (None, s1)" "target_ok F W i s1" "follower_at i p j s1"
    using target_lag [OF assms(1,2)] by blast
  obtain s2 where 2: "each_call (\<lambda>n. leader_put_call (good_write_io\<lparr>wi_applied := s\<rparr>) (lag_key n) (lag_val n)) [0..<6] s1 = (None, s2)"
      "target_ok F ?W i s2" "follower_at i p j s2"
    using each_puts [OF 1(2,3) len(1), of lag_key lag_val s] lag_keys by auto
  obtain s3 j' where 3: "once_call (apply_with A) s2 = (None, s3)" "target_ok F ?W i s3" "follower_at i p j' s3" "p \<longrightarrow> j' = j"
    using target_once [OF 2(2,3) len(2)] by blast
  obtain s4 where 4: "all_call (apply_with A) s3 = (None, s4)" "target_ok F ?W i s4" "follower_at i p ?j s4"
    using target_all [OF 3(2,3) len(2), of A] 3(4) len(3) by (auto split: if_splits)
  obtain s5 where 5: "set_follower_lag (int i) 0 s4 = (None, s5)" "target_ok F ?W i s5" "follower_at i p ?j s5"
    using target_lag [OF 4(2,3)] by blast
  obtain er s6 where 6: "each_call (\<lambda>n. present_call (int i) (lag_key n) (lag_val n)) [0..<6] s5 = (er, s6)" "target_ok F ?W i s6"
      "follower_at i p ?j s6" "er = None \<longleftrightarrow> (\<forall>n \<in> set [0..<6]. play (take ?j ?W) Map.empty (lag_key n) = Some (lag_val n))"
    using each_present [OF 5(2,3), of "[0..<6]" lag_key lag_val] lag_keys(1) by blast
  have "er = None \<longleftrightarrow> \<not> p \<or> (\<forall>n < 6. play (take j W) Map.empty (lag_key n) = Some (lag_val n))"
  proof (cases p)
    case True
    then show ?thesis unfolding 6(4) using j by auto
  next
    case False
    then have "take ?j ?W = ?W" by (simp add: len(3))
    then show ?thesis unfolding 6(4) using False play_puts [OF lag_keys(2)] by simp
  qed
  moreover have lag: "lag_call (int i) 2 st = (None, s1)" using 1(1) by (simp add: lag_call_def)
  ultimately show ?thesis using 6(1-3)
    by (cases er) (auto simp: lag_scenario_def run_scenario_def target_valid [OF assms(1)] lag 2(1) 3(1) 4(1) 5(1) outcome_ok_def failed_result_def
        simp del: upt.simps upt_rec_numeral)
qed

lemma catchup_outcome:
  assumes "target_ok F W i st" "follower_at i p j st" "F + length W + 4 \<le> 2 ^ 29"
  defines "fresh \<equiv> \<forall>n < 4. play (take j W) Map.empty (catchup_key n) = None"
  shows "outcome_ok F (W @ catchup_puts) i fresh False
      (if fresh then length W + 4 else j) (catchup_scenario (good_write_io\<lparr>wi_applied := s\<rparr>) (apply_with A) (Some st) (int i))"
proof -
  let ?W = "W @ catchup_puts"
  have j: "j \<le> length W" by (rule target_applied [OF assms(1,2)])
  have len: "F + length W + length [0..<4] \<le> 2 ^ 29" "F + length ?W \<le> 2 ^ 29" "length ?W = length W + 4" using assms(3) by simp_all
  obtain s1 where 1: "set_follower_paused (int i) True st = (None, s1)" "target_ok F W i s1" "follower_at i True j s1"
    using target_pause [OF assms(1,2)] by blast
  have pause: "pause_call (int i) True st = (None, s1)" using 1(1) by (simp add: pause_call_def)
  obtain s2 where 2: "each_call (\<lambda>n. leader_put_call (good_write_io\<lparr>wi_applied := s\<rparr>) (catchup_key n) (catchup_val n)) [0..<4] s1 = (None, s2)"
      "target_ok F ?W i s2" "follower_at i True j s2"
    using each_puts [OF 1(2,3) len(1), of catchup_key catchup_val s] catchup_keys by auto
  obtain er s3 where 3: "each_call (\<lambda>n. absent_call (int i) (catchup_key n)) [0..<4] s2 = (er, s3)" "target_ok F ?W i s3"
      "follower_at i True j s3" "er = None \<longleftrightarrow> (\<forall>n \<in> set [0..<4]. play (take j ?W) Map.empty (catchup_key n) = None)"
    using each_absent [OF 2(2,3), of "[0..<4]" catchup_key] catchup_keys(1) by blast
  have er: "er = None \<longleftrightarrow> fresh" unfolding 3(4) fresh_def using j by auto
  obtain s4 where 4: "set_follower_paused (int i) False s3 = (None, s4)" "target_ok F ?W i s4" "follower_at i False j s4"
    using target_pause [OF 3(2,3)] by blast
  note run = catchup_scenario_def run_scenario_def target_valid [OF assms(1)] pause 2(1) 3(1)
  show ?thesis
  proof (cases er)
    case (Some f)
    then show ?thesis using er 4 by (simp add: run Let_def outcome_ok_def failed_result_def del: upt.simps upt_rec_numeral)
  next
    case None
    have unpause: "pause_call (int i) False s3 = (None, s4)" using 4(1) by (simp add: pause_call_def)
    obtain s5 where 5: "all_call (apply_with A) s4 = (None, s5)" "target_ok F ?W i s5" "follower_at i False (length W + 4) s5"
      using target_all [OF 4(2,3) len(2), of A] len(3) by auto
    obtain er' s6 where 6: "each_call (\<lambda>n. present_call (int i) (catchup_key n) (catchup_val n)) [0..<4] s5 = (er', s6)" "target_ok F ?W i s6"
        "follower_at i False (length W + 4) s6"
        "er' = None \<longleftrightarrow> (\<forall>n \<in> set [0..<4]. play (take (length W + 4) ?W) Map.empty (catchup_key n) = Some (catchup_val n))"
      using each_present [OF 5(2,3), of "[0..<4]" catchup_key catchup_val] catchup_keys(1) by blast
    have "take (length W + 4) ?W = ?W" by (simp add: len(3))
    then have "er' = None" unfolding 6(4) using play_puts [OF catchup_keys(2)] by simp
    then show ?thesis using None er 6(1-3) by (simp add: run Let_def unpause 5(1) outcome_ok_def del: upt.simps upt_rec_numeral)
  qed
qed

section \<open>After a session\<close>

lemma target_of_session:
  assumes "replica_open None o' empty_replica_disk = (Inr st0, d)" "replica_run c r ops st0 = Some st" "length ops \<le> 2 ^ 29"
    and "i < length (rs_replicas st)" "int i \<noteq> rs_leader st"
  obtains F where "F + length (concat (map writes_of ops)) \<le> length ops" "target_ok F (concat (map writes_of ops)) i st"
proof -
  obtain F where F: "F + length (concat (map writes_of ops)) \<le> length ops" "replica_inv F (concat (map writes_of ops)) st"
    using replica_session_inv [OF assms(1-3)] by blast
  note first = replica_open_first [OF assms(1)]
  have files: "replica_files_ok (ro_dir o') (rm_replicas (first_replication o')) (first_leader o') st"
    by (rule replica_run_files [OF first(2,1) _ assms(2)]) (use assms(3) in simp)
  have "ri_id (rh_info (rs_replicas st ! j)) = int j" if "j < length (rs_replicas st)" for j
    using files that
    by (auto simp: replica_files_ok_def list_all2_conv_all_nth first_replication_def fresh_replication_def fresh_replica_def info_of_def Let_def)
  then show thesis using that F assms(4,5) by (auto simp: target_ok_def)
qed

text \<open>What a follower answers, and the two outcomes an operator sees.\<close>

abbreviation (input) sees :: "replica_store \<Rightarrow> nat \<Rightarrow> bytes \<Rightarrow> replica_error + bytes option" where
  "sees st i k \<equiv> fst (replica_get k read_follower (int i) st)"

definition scenario_passed :: "scenario_result \<times> replica_store option \<Rightarrow> bool" where
  "scenario_passed r \<longleftrightarrow> sr_status (fst r) = Sc_passed"

definition leaves_paused :: "nat \<Rightarrow> scenario_result \<times> replica_store option \<Rightarrow> bool" where
  "leaves_paused i r = (case snd r of None \<Rightarrow> False | Some st \<Rightarrow> rh_paused (rs_replicas st ! i))"

lemma outcome_read:
  assumes "outcome_ok F W i pass p j r"
  shows "scenario_passed r = pass" "leaves_paused i r = p"
  using assms by (auto simp: outcome_ok_def scenario_passed_def leaves_paused_def follower_at_def split: if_splits)

lemma target_sees:
  assumes "target_ok F W i st" "follower_at i p j st" "k \<noteq> []"
  shows "sees st i k = Inr (play (take j W) Map.empty k)"
  using target_get [OF assms] by fastforce

text \<open>C20: the failure scenarios are exact. Take any session (2^29 operations less the scenario's own at most) on a replicated store from its first opening in which every write
  succeeds and no engine closes (\<open>replica_run\<close>; pauses, replication rounds and other failures are allowed; after a refused write
  the replication itself fails, see \<open>replica_refused_write_blocks_followers\<close>), and any follower. When the I/O of the
  scenario's own writes succeeds, the saving of applied counters aside: the pause
  scenario passes exactly if the follower does not answer for its key, and when it fails it leaves the follower
  paused; the lag scenario passes exactly if the follower is not paused or has all its keys, and leaves the pause as it
  was; the catch-up scenario passes exactly if the follower answers for none of its keys, and never leaves it paused.\<close>

theorem chaos_scenarios_exact:
  fixes s :: bool and A :: "nat \<Rightarrow> u64 \<Rightarrow> bool"
  assumes "replica_open None o' empty_replica_disk = (Inr st0, d)" "replica_run c r ops st0 = Some st" "length ops + 6 \<le> 2 ^ 29"
    and "i < length (rs_replicas st)" "int i \<noteq> rs_leader st"
  defines "pause \<equiv> pause_scenario (good_write_io\<lparr>wi_applied := s\<rparr>) (apply_with A) (Some st) (int i)"
    and "lag \<equiv> lag_scenario (good_write_io\<lparr>wi_applied := s\<rparr>) (apply_with A) (Some st) (int i)"
    and "catchup \<equiv> catchup_scenario (good_write_io\<lparr>wi_applied := s\<rparr>) (apply_with A) (Some st) (int i)"
    and "paused \<equiv> rh_paused (rs_replicas st ! i)"
  shows "(scenario_passed pause \<longleftrightarrow> sees st i pause_key = Inr None) \<and> (leaves_paused i pause \<longleftrightarrow> \<not> scenario_passed pause)
    \<and> (scenario_passed lag \<longleftrightarrow> \<not> paused \<or> (\<forall>n < 6. sees st i (lag_key n) = Inr (Some (lag_val n)))) \<and> (leaves_paused i lag \<longleftrightarrow> paused)
    \<and> (scenario_passed catchup \<longleftrightarrow> (\<forall>n < 4. sees st i (catchup_key n) = Inr None)) \<and> \<not> leaves_paused i catchup"
proof -
  let ?W = "concat (map writes_of ops)"
  have "length ops \<le> 2 ^ 29" using assms(3) by simp
  then obtain F where F: "F + length ?W \<le> length ops" "target_ok F ?W i st"
    using target_of_session [OF assms(1,2) _ assms(4,5)] by blast
  define j where "j = unat (rh_applied (rs_replicas st ! i))"
  have at: "follower_at i paused j st" by (simp add: follower_at_def paused_def j_def)
  have len: "F + length ?W + 6 \<le> 2 ^ 29" "F + length ?W + 4 \<le> 2 ^ 29" "F + length ?W + 1 \<le> 2 ^ 29" using F(1) assms(3) by simp_all
  have k: "pause_key \<noteq> []" by (simp add: pause_key_def ascii_def)
  note reads = target_sees [OF F(2) at k] target_sees [OF F(2) at lag_keys(1)] target_sees [OF F(2) at catchup_keys(1)]
  note lag = outcome_read [OF lag_outcome [OF F(2) at len(1), where s = s and A = A], folded lag_def]
  note catchup = outcome_read [OF catchup_outcome [OF F(2) at len(2), where s = s and A = A], folded catchup_def]
  have pause: "(scenario_passed pause \<longleftrightarrow> play (take j ?W) Map.empty pause_key = None) \<and> (leaves_paused i pause \<longleftrightarrow> \<not> scenario_passed pause)"
  proof (cases "play (take j ?W) Map.empty pause_key")
    case None
    then show ?thesis using outcome_read [OF pause_outcome [OF F(2) at len(3), where s = s and A = A, folded pause_def, unfolded None option.case]]
      by simp
  next
    case (Some v)
    then show ?thesis
      using outcome_read [OF conjunct1 [OF pause_outcome [OF F(2) at len(3), where s = s and A = A, folded pause_def, unfolded Some option.case]]]
      by simp
  qed
  show ?thesis by (simp add: reads lag catchup pause)
qed

text \<open>C21: after a session from the first opening in which every write succeeds and no engine closes, and after which a follower
  does not answer for the key of the pause scenario, that scenario passes once; a second run on the same follower fails, since the key of the first run is
  there, and returns before it unpauses the follower: from then on a write of up to 1000 bytes that the leader accepts and
  \<open>ReplicateAll\<close>, which reports no error, leave the follower with the answers it had. (The catch-up scenario unpauses on its
  failure paths.)\<close>

theorem pause_scenario_twice_strands_follower:
  fixes s :: bool and A :: "nat \<Rightarrow> u64 \<Rightarrow> bool"
  assumes "replica_open None o' empty_replica_disk = (Inr st0, d)" "replica_run c r ops st0 = Some st" "length ops + 3 \<le> 2 ^ 29"
    and "i < length (rs_replicas st)" "int i \<noteq> rs_leader st" "sees st i pause_key = Inr None"
    and "k \<noteq> []" "length k + length x \<le> 1000" "k' \<noteq> []"
  defines "io \<equiv> good_write_io\<lparr>wi_applied := s\<rparr>"
  shows "\<exists>r1 st1 r2 st2 idx st3 st4. pause_scenario io (apply_with A) (Some st) (int i) = (r1, Some st1) \<and> sr_status r1 = Sc_passed
    \<and> pause_scenario io (apply_with A) (Some st1) (int i) = (r2, Some st2) \<and> sr_error r2 = Some (Se_found pause_val)
    \<and> replica_put k x io st2 = (Inr idx, st3) \<and> replicate_all (apply_with A) st3 = (None, st4)
    \<and> fst (replica_get k read_leader rid st4) = Inr (Some x) \<and> sees st4 i k' = sees st1 i k'"
proof -
  let ?W = "concat (map writes_of ops)" and ?p = "[(pause_key, Some pause_val)]"
  have "length ops \<le> 2 ^ 29" using assms(3) by simp
  then obtain F where F: "F + length ?W \<le> length ops" "target_ok F ?W i st"
    using target_of_session [OF assms(1,2) _ assms(4,5)] by blast
  define p j where "p = rh_paused (rs_replicas st ! i)" and "j = unat (rh_applied (rs_replicas st ! i))"
  have at: "follower_at i p j st" by (simp add: follower_at_def p_def j_def)
  have pk: "pause_key \<noteq> []" by (simp add: pause_key_def ascii_def)
  have none: "play (take j ?W) Map.empty pause_key = None" using target_sees [OF F(2) at pk] assms(6) by simp
  obtain r1 st1 where 1: "pause_scenario io (apply_with A) (Some st) (int i) = (r1, Some st1)" "sr_status r1 = Sc_passed"
      "target_ok F (?W @ ?p) i st1" "follower_at i False (length ?W + 1) st1"
    using pause_outcome [OF F(2) at, where s = s and A = A] F(1) assms(3) none by (auto simp: outcome_ok_def io_def)
  have "play (take (length ?W + 1) (?W @ ?p)) Map.empty pause_key = Some pause_val" by simp
  then obtain r2 st2 where 2: "pause_scenario io (apply_with A) (Some st1) (int i) = (r2, Some st2)" "sr_error r2 = Some (Se_found pause_val)"
      "target_ok F ((?W @ ?p) @ ?p) i st2" "follower_at i True (length ?W + 1) st2"
    using pause_outcome [OF 1(3,4), where s = s and A = A] F(1) assms(3) by (auto simp: outcome_ok_def io_def)
  obtain st3 where 3: "leader_put_call io k x st2 = (None, st3)" "target_ok F (((?W @ ?p) @ ?p) @ [(k, Some x)]) i st3" "follower_at i True (length ?W + 1) st3"
    using target_put [OF 2(3,4) _ assms(7,8), of s] F(1) assms(3) by (auto simp: io_def)
  obtain idx where put: "replica_put k x io st2 = (Inr idx, st3)" using 3(1) by (auto simp: leader_put_call_def split: sum.splits prod.splits)
  obtain st4 where 4: "all_call (apply_with A) st3 = (None, st4)" "target_ok F (((?W @ ?p) @ ?p) @ [(k, Some x)]) i st4"
      "follower_at i True (length ?W + 1) st4"
    using target_all [OF 3(2,3), of A] F(1) assms(3) by auto
  have all: "replicate_all (apply_with A) st3 = (None, st4)" using 4(1) by (auto simp: all_call_def split: prod.splits)
  have "fst (replica_get k read_leader rid st4) = Inr (Some x)"
    using replica_inv_leader_reads(1) [where F = F and W = "((?W @ ?p) @ ?p) @ [(k, Some x)]" and st = st4 and k = k] 4(2) assms(7) by (simp add: target_ok_def)
  moreover have "sees st4 i k' = sees st1 i k'" using target_sees [OF 4(2,3) assms(9)] target_sees [OF 1(3,4) assms(9)] by simp
  ultimately show ?thesis using 1(1,2) 2(1,2) put all by blast
qed

lemma demo_target:
  obtains st0 d st where "replica_open None demo_replica_opts empty_replica_disk = (Inr st0, d)"
    "replica_run (\<lambda>_ _. 1) (\<lambda>_ _. 1) [R_put [107] [1] False] st0 = Some st" "length (rs_replicas st) = 3" "rs_leader st = 0"
    "\<not> rh_paused (rs_replicas st ! 1)" "\<forall>k. k \<noteq> [] \<and> k \<noteq> [107] \<longrightarrow> sees st 1 k = Inr None"
proof -
  obtain st0 d st where r: "replica_open None demo_replica_opts empty_replica_disk = (Inr st0, d)"
    "replica_run (\<lambda>_ _. 1) (\<lambda>_ _. 1) [R_put [107] [1] False] st0 = Some st" "replica_inv 0 [([107], Some [1])] st"
    "length (rs_replicas st) = 3" "rs_leader st = 0" "\<forall>h \<in> set (rs_replicas st). \<not> rh_paused h" by (rule demo_replica_run)
  have "\<not> rh_paused (rs_replicas st ! 1)" using r(4,6) by simp
  moreover have "sees st 1 k = Inr None" if "k \<noteq> []" "k \<noteq> [107]" for k
    using replica_inv_follower_reads(2) [OF r(3), of 1 k] r(4,5) that by (cases "unat (rh_applied (rs_replicas st ! 1))") simp_all
  ultimately show thesis using that r by blast
qed

theorem chaos_scenarios_exact_witness:
  "\<exists>st0 d st. replica_open None demo_replica_opts empty_replica_disk = (Inr st0, d)
    \<and> replica_run (\<lambda>_ _. 1) (\<lambda>_ _. 1) [R_put [107] [1] False] st0 = Some st
    \<and> scenario_passed (pause_scenario (good_write_io\<lparr>wi_applied := False\<rparr>) (apply_with (\<lambda>_ _. False)) (Some st) 1)
    \<and> scenario_passed (lag_scenario (good_write_io\<lparr>wi_applied := False\<rparr>) (apply_with (\<lambda>_ _. False)) (Some st) 1)
    \<and> scenario_passed (catchup_scenario (good_write_io\<lparr>wi_applied := False\<rparr>) (apply_with (\<lambda>_ _. False)) (Some st) 1)"
proof -
  obtain st0 d st where r: "replica_open None demo_replica_opts empty_replica_disk = (Inr st0, d)"
    "replica_run (\<lambda>_ _. 1) (\<lambda>_ _. 1) [R_put [107] [1] False] st0 = Some st" "length (rs_replicas st) = 3" "rs_leader st = 0"
    "\<not> rh_paused (rs_replicas st ! 1)" "\<forall>k. k \<noteq> [] \<and> k \<noteq> [107] \<longrightarrow> sees st 1 k = Inr None" by (rule demo_target)
  have "sees st 1 pause_key = Inr None" using r(6) by (simp add: pause_key_def ascii_def)
  moreover have "sees st 1 (catchup_key n) = Inr None" for n using r(6) by (simp add: catchup_key_def ascii_def)
  ultimately show ?thesis
    using chaos_scenarios_exact [OF r(1,2), where i = 1 and s = False and A = "\<lambda>_ _. False"] r by simp
qed

theorem pause_scenario_twice_strands_follower_witness:
  "\<exists>st0 d st r1 st1 r2 st2. replica_open None demo_replica_opts empty_replica_disk = (Inr st0, d)
    \<and> replica_run (\<lambda>_ _. 1) (\<lambda>_ _. 1) [R_put [107] [1] False] st0 = Some st
    \<and> pause_scenario (good_write_io\<lparr>wi_applied := False\<rparr>) (apply_with (\<lambda>_ _. False)) (Some st) 1 = (r1, Some st1) \<and> sr_status r1 = Sc_passed
    \<and> pause_scenario (good_write_io\<lparr>wi_applied := False\<rparr>) (apply_with (\<lambda>_ _. False)) (Some st1) 1 = (r2, Some st2)
    \<and> sr_error r2 = Some (Se_found pause_val)"
proof -
  obtain st0 d st where r: "replica_open None demo_replica_opts empty_replica_disk = (Inr st0, d)"
    "replica_run (\<lambda>_ _. 1) (\<lambda>_ _. 1) [R_put [107] [1] False] st0 = Some st" "length (rs_replicas st) = 3" "rs_leader st = 0"
    "\<not> rh_paused (rs_replicas st ! 1)" "\<forall>k. k \<noteq> [] \<and> k \<noteq> [107] \<longrightarrow> sees st 1 k = Inr None" by (rule demo_target)
  have "sees st 1 pause_key = Inr None" using r(6) by (simp add: pause_key_def ascii_def)
  then show ?thesis
    using pause_scenario_twice_strands_follower [OF r(1,2), where i = 1 and k = "[1]" and x = "[2]" and k' = "[3]" and s = False and A = "\<lambda>_ _. False"] r(1-4) by simp blast
qed

end
