(* ===== verification/Spec2Isabelle.thy ===== *)
theory Spec2Isabelle
  imports EngineRecovery ShardSpec JournalSpec ReplicaRefused Explain FailoverFence NodeConc ClusterSpec VectorReopen DashboardSpec
begin

text \<open>
  ShardForgeDB: a verification development.

  The program is a key-value store in layers. A storage engine keeps a log, a memory table and sorted
  tables in one directory; a sharded store spreads keys over engines in subdirectories; a replicated store keeps a
  leader and follower engines in step through an operation log; a node serves one engine over HTTP, as a standalone
  node, as a primary that journals its writes, or as a follower that pulls the journal, and can be quiesced and
  promoted by an operator. In front of the nodes stand a gateway over one sharded store and a proxy that spreads
  keys over several nodes through the node client; a cluster configuration and a layer of planning operations serve
  the operators; a vector store keeps embeddings as records of an engine and searches them by similarity.

  \<^bold>\<open>Theories and sources.\<close>
  \<^item> \<open>Prelude\<close>: bytes, Go's string order, \<open>encoding/binary\<close>, \<open>hash/crc32\<close>, \<open>hash/fnv\<close>, \<open>sort.Search\<close>. \<open>Framing\<close>: logs of
    framed records, once for the three logs of the program. \<open>Entries\<close>: versioned entries and key ranges. \<open>Files\<close>: small
    JSON files as the values they decode to, paths. \<open>Json\<close>: what JSON does to strings, RFC 3339.
  \<^item> \<open>Wal\<close> (\<open>internal/wal\<close>), \<open>Memtable\<close> (\<open>internal/memtable\<close>), \<open>Sstable\<close> (\<open>internal/sstable\<close>), \<open>Bloom\<close> (\<open>internal/bloom\<close>),
    \<open>Manifest\<close> (\<open>internal/engine/manifest.go\<close>): the components of the engine.
  \<^item> \<open>Engine\<close> (\<open>internal/engine/engine.go\<close>), with \<open>EngineInv\<close>, \<open>EngineOps\<close>, \<open>EngineSpec\<close>, \<open>EngineRecovery\<close>: the invariant and the map
    an engine stands for, every operation against it, recovery; \<open>Explain\<close> (\<open>explain.go\<close>, \<open>internal/trace\<close>).
  \<^item> \<open>Kv\<close>: the contract \<open>kv_store\<close> the clients of the engine rely on, interpreted on the engine. \<open>EngineDirs\<close>: engines in
    subdirectories of a store.
  \<^item> \<open>Ring\<close> (\<open>internal/shard/ring.go\<close>), \<open>ShardStore\<close>, \<open>ShardSpec\<close> (\<open>internal/shard\<close>).
  \<^item> \<open>OpLog\<close>, \<open>Replica\<close>, \<open>ReplicaInv\<close>, \<open>ReplicaSpec\<close>, \<open>ReplicaRefused\<close> (\<open>internal/replica\<close>).
  \<^item> \<open>Journal\<close>, \<open>JournalSpec\<close> (\<open>internal/replnet/log.go\<close>, \<open>durable_log.go\<close>, \<open>journal_baseline.go\<close>), \<open>Records\<close> (the other stores of
    \<open>internal/replnet\<close>).
  \<^item> \<open>BackgroundSync\<close>, \<open>Node\<close>, \<open>Handlers\<close>, \<open>Failover\<close> (\<open>internal/node\<close>, \<open>internal/replnet/replicator.go\<close>): the worker, the server, the
    endpoints, quiesce and promotion. \<open>NodeSync\<close>, \<open>NodeConc\<close>, \<open>FenceSpec\<close>, \<open>FailoverSpec\<close>, \<open>FailoverFence\<close>: what a primary and a
    follower promise together.
  \<^item> \<open>Client\<close> (\<open>internal/node/client.go\<close>): the requests of the node client and what it makes of each answer. \<open>Gateway\<close>,
    \<open>GatewaySpec\<close> (\<open>internal/gateway\<close>), \<open>Proxy\<close>, \<open>ProxySpec\<close> (\<open>internal/proxy\<close>): the two routers, each against the store behind it.
  \<^item> \<open>Cluster\<close>, \<open>ClusterSpec\<close> (\<open>internal/cluster\<close>): loading, validating and planning a configuration. \<open>Ops\<close>, \<open>OpsSpec\<close>
    (\<open>internal/ops\<close>): key distribution, failure simulation and rebalance plans over the ring.
  \<^item> \<open>Vector\<close>, \<open>VectorSpec\<close>, \<open>VectorSession\<close>, \<open>VectorReopen\<close> (\<open>internal/vector\<close>): the record format, insertion, deletion and search; the
    ranking; sessions over one open store; what a second opening finds.
  \<^item> \<open>Dashboard\<close>, \<open>DashboardSpec\<close> (\<open>internal/dashboard\<close>): snapshots, endpoints, and the failure scenarios with exactly when they pass.

  \<^bold>\<open>How the model reads.\<close> A struct is a record, an error a constructor of the component's error type, a fallible
  operation returns a sum or an option beside the new state. Integers of the code are words of their width where they can
  wrap around (sequence numbers, lengths in file formats, the Bloom filter's bit counts). Operations that a mutex
  makes atomic are one function; where a handler takes two locks in turn, or a crash may come between two writes to disk,
  the parts are functions of their own and the handler composes them. Results of I/O, clock readings, random
  identifiers and what the network brings are arguments, so a theorem that quantifies over them covers every fault. A
  panic is a value (\<open>EErrPanic\<close>, \<open>JErrPanic\<close>, \<open>SErrPanic\<close>, \<open>SErrAllocPanic\<close>, \<open>GErrPanic\<close>, \<open>Aborted\<close>), the panic of \<open>make\<close> on a
  buffer beyond the address space among them (pages of the journal, the index of a table, the rings).

  \<^bold>\<open>What is proved.\<close> Each layer against an abstract map: sessions of operations, with failing flushes and compactions in
  between, refine a finite map (engine, sharded store, replicated store, a node with its follower), and reopening a
  directory gives the map back; so does a session of requests to the proxy over the nodes' engines, and a session of the
  vector store, whose searches return the nearest records of the map in order. Plans of the operations layer are exact: the
  moved keys are the ones whose owner changes, and a loaded configuration satisfies what its users assume. Each file format: what is written is read back, what a crash leaves of it, and what
  corruption is detected. Each interface is a locale, proved for its clients once and interpreted on the
  model: \<open>kv_store\<close>, \<open>mutation_log\<close>, \<open>consistent_ring\<close>, \<open>follower_claim\<close> and the framing of the logs. Where the code does not do what it
  promises there is a theorem for that as well: stale values after a flush and a reopening, acknowledged records behind
  a torn tail, a journal that cannot be opened after a crash, followers blocked by a refused write, a fence that does
  not survive the restart of a promoted primary, followers that differ after concurrent writes, a ring size that
  overflows, a page limit that panics, vectors that are lost or come back stale when their store is reopened, a failure scenario that strands a follower.

  \<^bold>\<open>Bounds.\<close> Sessions are bounded by \<open>2 ^ 29\<close> operations, so that the sequence numbers of the log, which a flush
  restarts, and the counts in file headers stay below their widths; records of a log by their 32-bit lengths; journals by
  \<open>2 ^ 62\<close> entries, so that numbers do not wrap around; the engine's log by \<open>2 ^ 26\<close> bytes for one record, as in the code. Loops
  that the code runs until a condition holds (\<open>ReplicateAll\<close>, replay) are total functions with their measure; no
  fuel is used.

  \<^bold>\<open>Not modelled.\<close> The arithmetic of \<open>float64\<close> (the parameters of a Bloom filter are computed by functions the theorems
  quantify over; the vector store takes multiplication, addition, square root and comparison on bit patterns as
  parameters); \<open>sort.Slice\<close> and the iteration order of Go's maps (parameters, with the documented contract as hypothesis); the syntax of JSON files (a file is the value it decodes to, or missing, unreadable or bad); the protocol of
  temporary files and renames below them (one step that may fail); seek and read failures of an open file; running out of memory below the address space; \<open>net/http\<close>
  routing and connections, among them paths such as \<open>.\<close> and \<open>..\<close> that the router cleans; goroutine scheduling below the mutexes. Of the repository: command-line programs, the
  templates of the dashboard, the benchmark, logging and configuration hold no state of the store; the manifest lists every part.
\<close>

end
